(* ===== verification/Prelude.thy ===== *)
theory Prelude
  imports Main "HOL-Library.Word"
begin

section \<open>Prelude: Python values, text and hexadecimal\<close>

unbundle bit_operations_syntax

text \<open>
  What every component shares: the Python exceptions the code raises, the
  operations of \<open>str\<close> and \<open>bytes\<close> it uses (slices, \<open>strip\<close>, \<open>upper\<close>,
  \<open>startswith\<close>, \<open>find\<close>, \<open>int(s, 16)\<close>, \<open>bytes.fromhex\<close>, \<open>hex\<close> and the
  hexadecimal and decimal format specifications), and the lemmas about them.
  Text is a list of ASCII characters, which is what the bus carries; Python
  integers are \<open>int\<close>; bytes are \<open>8 word\<close>.
  The collection \<open>hex_simps\<close> holds the conversions between numbers and
  hexadecimal digits, \<open>eval_simps\<close> what the evaluation of concrete text needs.
\<close>

named_theorems hex_simps "numbers, bytes and their hexadecimal digits"
named_theorems eval_simps "evaluation of text at concrete characters"

type_synonym byte = "8 word"

datatype exn =
    ValueError | IndexError | KeyError | TypeError | OverflowError | AttributeError
  | NikobusConnectionError | NikobusSendError | NikobusTimeoutError
  | NikobusReadError | NikobusDataError | NikobusError | OSError

type_synonym 'a res = "exn + 'a"

definition of_option :: "exn \<Rightarrow> 'a option \<Rightarrow> 'a res" where
  "of_option e x = (case x of None \<Rightarrow> Inl e | Some v \<Rightarrow> Inr v)"

lemma of_option_simps [simp]:
  "of_option e None = Inl e" "of_option e (Some v) = Inr v"
  by (simp_all add: of_option_def)

lemma of_option_Inr [simp]: "of_option e x = Inr v \<longleftrightarrow> x = Some v"
  by (cases x) simp_all

definition res_bind :: "'a res \<Rightarrow> ('a \<Rightarrow> 'b res) \<Rightarrow> 'b res" where
  "res_bind r f = (case r of Inl e \<Rightarrow> Inl e | Inr v \<Rightarrow> f v)"

lemma res_bind_simps [simp]:
  "res_bind (Inl e) f = Inl e" "res_bind (Inr v) f = f v"
  by (simp_all add: res_bind_def)

lemma res_bind_Inr_iff: "res_bind r f = Inr w \<longleftrightarrow> (\<exists>v. r = Inr v \<and> f v = Inr w)"
  by (cases r) simp_all

subsection \<open>Characters and hexadecimal digits\<close>

definition code :: "char \<Rightarrow> nat" where
  "code c = of_char c"

definition is_space :: "char \<Rightarrow> bool" where
  \<comment> \<open>\<open>str.isspace\<close> on ASCII text\<close>
  "is_space c \<longleftrightarrow> (let n = code c in (9 \<le> n \<and> n \<le> 13) \<or> (28 \<le> n \<and> n \<le> 32))"

definition is_byte_space :: "char \<Rightarrow> bool" where
  \<comment> \<open>the white space \<open>bytes.fromhex\<close> skips between two bytes\<close>
  "is_byte_space c \<longleftrightarrow> (let n = code c in (9 \<le> n \<and> n \<le> 13) \<or> n = 32)"

definition hex_val :: "char \<Rightarrow> nat option" where
  "hex_val c = (let n = code c in
     if 48 \<le> n \<and> n \<le> 57 then Some (n - 48)
     else if 65 \<le> n \<and> n \<le> 70 then Some (n - 55)
     else if 97 \<le> n \<and> n \<le> 102 then Some (n - 87)
     else None)"

definition hex_dig :: "nat \<Rightarrow> char" where
  "hex_dig n = char_of (if n < 10 then 48 + n else 55 + n)"

definition hex_dig_lower :: "nat \<Rightarrow> char" where
  "hex_dig_lower n = char_of (if n < 10 then 48 + n else 87 + n)"

definition upper_char :: "char \<Rightarrow> char" where
  "upper_char c = (if 97 \<le> code c \<and> code c \<le> 122 then char_of (code c - 32) else c)"

definition lower_char :: "char \<Rightarrow> char" where
  "lower_char c = (if 65 \<le> code c \<and> code c \<le> 90 then char_of (code c + 32) else c)"

definition is_hex :: "char \<Rightarrow> bool" where
  "is_hex c \<longleftrightarrow> hex_val c \<noteq> None"

lemma code_char_of [simp]: "n < 256 \<Longrightarrow> code (char_of n) = n"
  by (simp add: code_def)

lemma code_less_256: "code c < 256"
proof -
  have "of_char c = (of_char c :: nat) mod 256" by simp
  then show ?thesis unfolding code_def by (metis mod_less_divisor zero_less_numeral)
qed

lemma code_inject: "code c = code d \<Longrightarrow> c = d"
  by (simp add: code_def)

lemma code_hex_dig: "n < 16 \<Longrightarrow> code (hex_dig n) = (if n < 10 then 48 + n else 55 + n)"
  by (simp add: hex_dig_def)

lemma code_hex_dig_lower:
  "n < 16 \<Longrightarrow> code (hex_dig_lower n) = (if n < 10 then 48 + n else 87 + n)"
  by (simp add: hex_dig_lower_def)

lemma hex_val_hex_dig [simp, hex_simps]: "n < 16 \<Longrightarrow> hex_val (hex_dig n) = Some n"
  by (auto simp: hex_val_def code_hex_dig Let_def)

lemma hex_val_hex_dig_lower [simp, hex_simps]: "n < 16 \<Longrightarrow> hex_val (hex_dig_lower n) = Some n"
  by (auto simp: hex_val_def code_hex_dig_lower Let_def)

lemma upper_hex_dig [simp, hex_simps]: "n < 16 \<Longrightarrow> upper_char (hex_dig n) = hex_dig n"
  by (auto simp: upper_char_def code_hex_dig)

lemma upper_hex_dig_lower [simp, hex_simps]:
  "n < 16 \<Longrightarrow> upper_char (hex_dig_lower n) = hex_dig n"
  by (auto simp: upper_char_def code_hex_dig_lower) (auto simp: hex_dig_def hex_dig_lower_def)

lemma hex_val_less: "hex_val c = Some n \<Longrightarrow> n < 16"
  by (auto simp: hex_val_def Let_def split: if_splits)

lemma is_hex_hex_dig [simp]: "n < 16 \<Longrightarrow> is_hex (hex_dig n)"
  by (simp add: is_hex_def)

lemma hex_not_space: "is_hex c \<Longrightarrow> \<not> is_space c"
  by (auto simp: is_hex_def hex_val_def is_space_def Let_def split: if_splits)

lemma hex_not_byte_space: "is_hex c \<Longrightarrow> \<not> is_byte_space c"
  by (auto simp: is_hex_def hex_val_def is_byte_space_def Let_def split: if_splits)

lemma not_hex_chars [simp]:
  "\<not> is_hex CHR ''-''" "\<not> is_hex CHR ''+''" "\<not> is_hex CHR ''_''"
  "\<not> is_hex CHR ''x''" "\<not> is_hex CHR ''X''" "\<not> is_hex CHR ''$''" "\<not> is_hex CHR ''#''"
  by (simp_all add: is_hex_def hex_val_def code_def)

lemma hex_val_char [simp, eval_simps]:
  "hex_val CHR ''0'' = Some 0" "hex_val CHR ''1'' = Some (Suc 0)" "hex_val CHR ''2'' = Some 2"
  "hex_val CHR ''3'' = Some 3" "hex_val CHR ''4'' = Some 4" "hex_val CHR ''5'' = Some 5"
  "hex_val CHR ''6'' = Some 6" "hex_val CHR ''7'' = Some 7" "hex_val CHR ''8'' = Some 8"
  "hex_val CHR ''9'' = Some 9" "hex_val CHR ''A'' = Some 10" "hex_val CHR ''B'' = Some 11"
  "hex_val CHR ''C'' = Some 12" "hex_val CHR ''D'' = Some 13" "hex_val CHR ''E'' = Some 14"
  "hex_val CHR ''F'' = Some 15" "hex_val CHR ''a'' = Some 10" "hex_val CHR ''b'' = Some 11"
  "hex_val CHR ''c'' = Some 12" "hex_val CHR ''d'' = Some 13" "hex_val CHR ''e'' = Some 14"
  "hex_val CHR ''f'' = Some 15"
  by (simp_all add: hex_val_def code_def)

lemma is_hex_char [simp, eval_simps]:
  "is_hex CHR ''0''" "is_hex CHR ''1''" "is_hex CHR ''2''"
  "is_hex CHR ''3''" "is_hex CHR ''4''" "is_hex CHR ''5''"
  "is_hex CHR ''6''" "is_hex CHR ''7''" "is_hex CHR ''8''"
  "is_hex CHR ''9''" "is_hex CHR ''A''" "is_hex CHR ''B''"
  "is_hex CHR ''C''" "is_hex CHR ''D''" "is_hex CHR ''E''"
  "is_hex CHR ''F''" "is_hex CHR ''a''" "is_hex CHR ''b''"
  "is_hex CHR ''c''" "is_hex CHR ''d''" "is_hex CHR ''e''"
  "is_hex CHR ''f''"
  by (simp_all add: is_hex_def)

lemma upper_char_char [simp, eval_simps]:
  "upper_char CHR ''a'' = CHR ''A''" "upper_char CHR ''b'' = CHR ''B''" "upper_char CHR ''c'' = CHR ''C''"
  "upper_char CHR ''d'' = CHR ''D''" "upper_char CHR ''e'' = CHR ''E''" "upper_char CHR ''f'' = CHR ''F''"
  "upper_char CHR ''g'' = CHR ''G''" "upper_char CHR ''h'' = CHR ''H''" "upper_char CHR ''i'' = CHR ''I''"
  "upper_char CHR ''j'' = CHR ''J''" "upper_char CHR ''k'' = CHR ''K''" "upper_char CHR ''l'' = CHR ''L''"
  "upper_char CHR ''m'' = CHR ''M''" "upper_char CHR ''n'' = CHR ''N''" "upper_char CHR ''o'' = CHR ''O''"
  "upper_char CHR ''p'' = CHR ''P''" "upper_char CHR ''q'' = CHR ''Q''" "upper_char CHR ''r'' = CHR ''R''"
  "upper_char CHR ''s'' = CHR ''S''" "upper_char CHR ''t'' = CHR ''T''" "upper_char CHR ''u'' = CHR ''U''"
  "upper_char CHR ''v'' = CHR ''V''" "upper_char CHR ''w'' = CHR ''W''" "upper_char CHR ''x'' = CHR ''X''"
  "upper_char CHR ''y'' = CHR ''Y''" "upper_char CHR ''z'' = CHR ''Z''" "upper_char CHR ''A'' = CHR ''A''"
  "upper_char CHR ''B'' = CHR ''B''" "upper_char CHR ''C'' = CHR ''C''" "upper_char CHR ''D'' = CHR ''D''"
  "upper_char CHR ''E'' = CHR ''E''" "upper_char CHR ''F'' = CHR ''F''" "upper_char CHR ''G'' = CHR ''G''"
  "upper_char CHR ''H'' = CHR ''H''" "upper_char CHR ''I'' = CHR ''I''" "upper_char CHR ''J'' = CHR ''J''"
  "upper_char CHR ''K'' = CHR ''K''" "upper_char CHR ''L'' = CHR ''L''" "upper_char CHR ''M'' = CHR ''M''"
  "upper_char CHR ''N'' = CHR ''N''" "upper_char CHR ''O'' = CHR ''O''" "upper_char CHR ''P'' = CHR ''P''"
  "upper_char CHR ''Q'' = CHR ''Q''" "upper_char CHR ''R'' = CHR ''R''" "upper_char CHR ''S'' = CHR ''S''"
  "upper_char CHR ''T'' = CHR ''T''" "upper_char CHR ''U'' = CHR ''U''" "upper_char CHR ''V'' = CHR ''V''"
  "upper_char CHR ''W'' = CHR ''W''" "upper_char CHR ''X'' = CHR ''X''" "upper_char CHR ''Y'' = CHR ''Y''"
  "upper_char CHR ''Z'' = CHR ''Z''" "upper_char CHR ''0'' = CHR ''0''" "upper_char CHR ''1'' = CHR ''1''"
  "upper_char CHR ''2'' = CHR ''2''" "upper_char CHR ''3'' = CHR ''3''" "upper_char CHR ''4'' = CHR ''4''"
  "upper_char CHR ''5'' = CHR ''5''" "upper_char CHR ''6'' = CHR ''6''" "upper_char CHR ''7'' = CHR ''7''"
  "upper_char CHR ''8'' = CHR ''8''" "upper_char CHR ''9'' = CHR ''9''" "upper_char CHR ''$'' = CHR ''$''"
  "upper_char CHR ''#'' = CHR ''#''" "upper_char CHR ''_'' = CHR ''_''" "upper_char CHR ''-'' = CHR ''-''"
  "upper_char CHR ''+'' = CHR ''+''" "upper_char CHR '' '' = CHR '' ''"
  by (simp_all add: upper_char_def code_def) code_simp+

lemma code_char [eval_simps]:
  "code CHR ''0'' = 48" "code CHR ''1'' = 49" "code CHR ''2'' = 50"
  "code CHR ''3'' = 51" "code CHR ''4'' = 52" "code CHR ''5'' = 53"
  "code CHR ''6'' = 54" "code CHR ''7'' = 55" "code CHR ''8'' = 56"
  "code CHR ''9'' = 57" "code CHR ''A'' = 65" "code CHR ''B'' = 66"
  "code CHR ''C'' = 67" "code CHR ''D'' = 68" "code CHR ''E'' = 69"
  "code CHR ''F'' = 70" "code CHR ''N'' = 78" "code CHR ''$'' = 36"
  "code CHR ''#'' = 35"
  by (simp_all add: code_def)

lemma hex_dig_eval [simp, hex_simps]:
  "hex_dig 0 = CHR ''0''"
  "hex_dig (Suc 0) = CHR ''1''"
  "hex_dig 2 = CHR ''2''"
  "hex_dig 3 = CHR ''3''"
  "hex_dig 4 = CHR ''4''"
  "hex_dig 5 = CHR ''5''"
  "hex_dig 6 = CHR ''6''"
  "hex_dig 7 = CHR ''7''"
  "hex_dig 8 = CHR ''8''"
  "hex_dig 9 = CHR ''9''"
  "hex_dig 10 = CHR ''A''"
  "hex_dig 11 = CHR ''B''"
  "hex_dig 12 = CHR ''C''"
  "hex_dig 13 = CHR ''D''"
  "hex_dig 14 = CHR ''E''"
  "hex_dig 15 = CHR ''F''"
  by code_simp+

lemma hex_dig_1 [simp]: "hex_dig 1 = CHR ''1''"
  by code_simp

lemma hex_dig_inject: "m < 16 \<Longrightarrow> n < 16 \<Longrightarrow> hex_dig m = hex_dig n \<longleftrightarrow> m = n"
  by (metis hex_val_hex_dig option.inject)

subsection \<open>Slices and searches of text\<close>

definition slice :: "nat \<Rightarrow> nat \<Rightarrow> 'a list \<Rightarrow> 'a list" where
  \<comment> \<open>\<open>xs[a:b]\<close> for bounds that are not negative; Python clips them alike\<close>
  "slice a b xs = take (b - a) (drop a xs)"

definition but_last :: "nat \<Rightarrow> 'a list \<Rightarrow> 'a list" where
  \<comment> \<open>\<open>xs[:-k]\<close> for \<open>k > 0\<close>\<close>
  "but_last k xs = take (length xs - k) xs"

definition last_of :: "nat \<Rightarrow> 'a list \<Rightarrow> 'a list" where
  \<comment> \<open>\<open>xs[-k:]\<close> for \<open>k > 0\<close>\<close>
  "last_of k xs = drop (length xs - k) xs"

definition starts_with :: "string \<Rightarrow> string \<Rightarrow> bool" where
  "starts_with s p \<longleftrightarrow> take (length p) s = p"

fun str_find :: "string \<Rightarrow> string \<Rightarrow> nat option" where
  \<comment> \<open>\<open>s.find(p)\<close>, with \<open>None\<close> for -1\<close>
  "str_find [] p = (if p = [] then Some 0 else None)"
| "str_find (c # s) p =
     (if starts_with (c # s) p then Some 0 else map_option Suc (str_find s p))"

definition contains :: "string \<Rightarrow> string \<Rightarrow> bool" where
  \<comment> \<open>\<open>p in s\<close>\<close>
  "contains s p \<longleftrightarrow> str_find s p \<noteq> None"

definition py_strip :: "string \<Rightarrow> string" where
  "py_strip s = rev (dropWhile is_space (rev (dropWhile is_space s)))"

definition upper :: "string \<Rightarrow> string" where
  "upper s = map upper_char s"

definition lower :: "string \<Rightarrow> string" where
  "lower s = map lower_char s"

lemma length_upper [simp]: "length (upper s) = length s"
  by (simp add: upper_def)

lemma upper_Nil [simp]: "upper [] = []" and upper_Cons: "upper (c # s) = upper_char c # upper s"
  and upper_append [simp]: "upper (s @ t) = upper s @ upper t"
  by (simp_all add: upper_def)

lemma upper_char_idem [simp]: "upper_char (upper_char c) = upper_char c"
  by (auto simp: upper_char_def)

lemma upper_upper [simp]: "upper (upper s) = upper s"
  by (simp add: upper_def)

lemma starts_with_append [simp]: "starts_with (p @ s) p"
  by (simp add: starts_with_def)

lemma starts_with_iff: "starts_with s p \<longleftrightarrow> (\<exists>r. s = p @ r)"
  by (metis append_eq_conv_conj starts_with_def)

lemma starts_with_Nil [simp]: "starts_with s []"
  by (simp add: starts_with_def)

lemma starts_with_Cons [simp]:
  "starts_with (c # s) (d # p) \<longleftrightarrow> c = d \<and> starts_with s p"
  "\<not> starts_with [] (d # p)"
  by (auto simp: starts_with_def)

lemma str_find_starts: "starts_with s p \<Longrightarrow> str_find s p = Some 0"
  by (cases s) (auto simp: starts_with_def)

lemma length_slice [simp]: "length (slice a b xs) = min (b - a) (length xs - a)"
  by (simp add: slice_def)

lemma slice_mid: "length us = i \<Longrightarrow> j = i + length vs \<Longrightarrow> slice i j (us @ vs @ ws) = vs"
  by (simp add: slice_def)

lemma length_but_last [simp]: "length (but_last k xs) = length xs - k"
  by (simp add: but_last_def)

lemma length_last_of [simp]: "length (last_of k xs) = min k (length xs)"
  by (simp add: last_of_def)

lemma but_last_append [simp]: "length ys = k \<Longrightarrow> but_last k (xs @ ys) = xs"
  by (simp add: but_last_def)

lemma last_of_append [simp]: "length ys = k \<Longrightarrow> last_of k (xs @ ys) = ys"
  by (simp add: last_of_def)

lemma but_last_last_of: "but_last k xs @ last_of k xs = xs"
  by (simp add: but_last_def last_of_def)

lemma py_strip_hex: "list_all is_hex s \<Longrightarrow> py_strip s = s"
proof -
  assume h: "list_all is_hex s"
  have 1: "dropWhile is_space t = t" if "list_all is_hex t" for t
    using that by (cases t) (auto simp: hex_not_space)
  have "list_all is_hex (rev s)" using h by (simp add: list_all_iff)
  then show ?thesis using h by (simp add: py_strip_def 1)
qed

subsection \<open>Reading hexadecimal: \<open>int(s, 16)\<close> and \<open>bytes.fromhex\<close>\<close>

fun hex_digits :: "nat \<Rightarrow> bool \<Rightarrow> string \<Rightarrow> nat option" where
  \<comment> \<open>digits with single underscores between them; \<open>prev\<close>: the last character was a digit\<close>
  "hex_digits acc prev [] = (if prev then Some acc else None)"
| "hex_digits acc prev (c # cs) =
     (if c = CHR ''_'' then (if prev then hex_digits acc False cs else None)
      else (case hex_val c of None \<Rightarrow> None | Some d \<Rightarrow> hex_digits (16 * acc + d) True cs))"

definition split_sign :: "string \<Rightarrow> bool \<times> string" where
  "split_sign t = (case t of [] \<Rightarrow> (False, [])
     | c # r \<Rightarrow> if c = CHR ''-'' then (True, r) else if c = CHR ''+'' then (False, r) else (False, t))"

definition drop_radix :: "string \<Rightarrow> string" where
  \<comment> \<open>an optional \<open>0x\<close>, after which one underscore is allowed\<close>
  "drop_radix u = (case u of z # x # r \<Rightarrow>
       if z = CHR ''0'' \<and> (x = CHR ''x'' \<or> x = CHR ''X'')
       then (case r of c # r' \<Rightarrow> if c = CHR ''_'' then r' else r | [] \<Rightarrow> [])
       else u
     | _ \<Rightarrow> u)"

definition py_int16 :: "string \<Rightarrow> int option" where
  \<comment> \<open>\<open>int(s, 16)\<close>, \<open>None\<close> for its \<open>ValueError\<close>\<close>
  "py_int16 s = (case split_sign (py_strip s) of (neg, u) \<Rightarrow>
     map_option (\<lambda>n. if neg then - int n else int n) (hex_digits 0 False (drop_radix u)))"

fun bytes_fromhex :: "string \<Rightarrow> byte list option" where
  \<comment> \<open>\<open>bytes.fromhex(s)\<close>, \<open>None\<close> for its \<open>ValueError\<close>\<close>
  "bytes_fromhex [] = Some []"
| "bytes_fromhex [c] = (if is_byte_space c then Some [] else None)"
| "bytes_fromhex (c # d # cs) =
     (if is_byte_space c then bytes_fromhex (d # cs)
      else (case (hex_val c, hex_val d) of
              (Some h, Some l) \<Rightarrow> map_option (Cons (of_nat (16 * h + l))) (bytes_fromhex cs)
            | _ \<Rightarrow> None))"

definition hex_nat :: "string \<Rightarrow> nat" where
  \<comment> \<open>the number a string of hexadecimal digits stands for\<close>
  "hex_nat s = foldl (\<lambda>a c. 16 * a + the (hex_val c)) 0 s"

lemma hex_nat_Nil [simp]: "hex_nat [] = 0"
  by (simp add: hex_nat_def)

lemma hex_nat_snoc [simp]: "hex_nat (s @ [c]) = 16 * hex_nat s + the (hex_val c)"
  by (simp add: hex_nat_def)

lemma hex_nat_append: "hex_nat (s @ t) = hex_nat s * 16 ^ length t + hex_nat t"
proof (induction t rule: rev_induct)
  case Nil
  then show ?case by simp
next
  case (snoc c t)
  have "hex_nat (s @ t @ [c]) = 16 * hex_nat (s @ t) + the (hex_val c)"
    by (metis append_assoc hex_nat_snoc)
  then show ?case using snoc by (simp add: algebra_simps)
qed

lemma hex_nat_bound: "list_all is_hex s \<Longrightarrow> hex_nat s < 16 ^ length s"
proof (induction s rule: rev_induct)
  case Nil
  then show ?case by simp
next
  case (snoc c s)
  from snoc.prems obtain n where n: "hex_val c = Some n" "n < 16"
    by (auto simp: is_hex_def hex_val_less)
  have "hex_nat s < 16 ^ length s" using snoc by simp
  then show ?case using n by simp
qed

lemma hex_digits_hex:
  "list_all is_hex s \<Longrightarrow> hex_digits acc prev s =
     (if s = [] \<and> \<not> prev then None else Some (foldl (\<lambda>a c. 16 * a + the (hex_val c)) acc s))"
proof (induction s arbitrary: acc prev)
  case Nil
  then show ?case by simp
next
  case (Cons c s)
  then obtain d where "hex_val c = Some d" by (auto simp: is_hex_def)
  moreover have "c \<noteq> CHR ''_''" using Cons.prems by auto
  ultimately show ?case using Cons by simp
qed

lemma hex_nat_eval [eval_simps]:
  "hex_nat (c # s) = foldl (\<lambda>a c. 16 * a + the (hex_val c)) (the (hex_val c)) s"
  by (simp add: hex_nat_def)

lemma py_int16_hex [hex_simps, eval_simps]:
  assumes "list_all is_hex s" "s \<noteq> []"
  shows "py_int16 s = Some (int (hex_nat s))"
proof -
  have "split_sign s = (False, s)"
    using assms by (cases s) (auto simp: split_sign_def)
  moreover have "drop_radix s = s"
    using assms by (auto simp: drop_radix_def split: list.splits)
  ultimately show ?thesis
    using assms by (simp add: py_int16_def py_strip_hex hex_digits_hex hex_nat_def)
qed

subsection \<open>Writing numbers\<close>

fun to_hex :: "nat \<Rightarrow> string" where
  "to_hex n = (if n < 16 then [hex_dig n] else to_hex (n div 16) @ [hex_dig (n mod 16)])"

declare to_hex.simps [simp del]

fun to_dec :: "nat \<Rightarrow> string" where
  "to_dec n = (if n < 10 then [hex_dig n] else to_dec (n div 10) @ [hex_dig (n mod 10)])"

declare to_dec.simps [simp del]

definition zfill :: "nat \<Rightarrow> string \<Rightarrow> string" where
  "zfill w s = replicate (w - length s) CHR ''0'' @ s"

definition fmt_hex :: "nat \<Rightarrow> int \<Rightarrow> string" where
  \<comment> \<open>\<open>f"{v:0wX}"\<close>: the sign counts towards the width\<close>
  "fmt_hex w v = (if v < 0 then CHR ''-'' # zfill (w - 1) (to_hex (nat (- v))) else zfill w (to_hex (nat v)))"

definition fmt_dec :: "nat \<Rightarrow> int \<Rightarrow> string" where
  \<comment> \<open>\<open>f"{v:0wd}"\<close>\<close>
  "fmt_dec w v = (if v < 0 then CHR ''-'' # zfill (w - 1) (to_dec (nat (- v))) else zfill w (to_dec (nat v)))"

fun hexw :: "nat \<Rightarrow> nat \<Rightarrow> string" where
  \<comment> \<open>exactly \<open>w\<close> digits, the number taken modulo \<open>16 ^ w\<close>\<close>
  "hexw 0 n = []"
| "hexw (Suc w) n = hexw w (n div 16) @ [hex_dig (n mod 16)]"

definition byte_hex :: "byte \<Rightarrow> string" where
  "byte_hex b = [hex_dig (unat b div 16), hex_dig (unat b mod 16)]"

definition byte_hex_lower :: "byte \<Rightarrow> string" where
  "byte_hex_lower b = [hex_dig_lower (unat b div 16), hex_dig_lower (unat b mod 16)]"

definition hex_of :: "byte list \<Rightarrow> string" where
  \<comment> \<open>\<open>bs.hex().upper()\<close>\<close>
  "hex_of bs = concat (map byte_hex bs)"

definition hex_of_lower :: "byte list \<Rightarrow> string" where
  \<comment> \<open>\<open>bs.hex()\<close>\<close>
  "hex_of_lower bs = concat (map byte_hex_lower bs)"

lemma hexw_eval [eval_simps]:
  "hexw 2 n = [hex_dig (n div 16 mod 16), hex_dig (n mod 16)]"
  "hexw 4 n = [hex_dig (n div 4096 mod 16), hex_dig (n div 256 mod 16), hex_dig (n div 16 mod 16),
     hex_dig (n mod 16)]"
proof -
  have "hexw (Suc (Suc 0)) n = [hex_dig (n div 16 mod 16), hex_dig (n mod 16)]" by simp
  then show "hexw 2 n = [hex_dig (n div 16 mod 16), hex_dig (n mod 16)]"
    by (simp only: numeral_2_eq_2)
  have "(4 :: nat) = Suc (Suc (Suc (Suc 0)))" by simp
  moreover have "hexw (Suc (Suc (Suc (Suc 0)))) n =
      [hex_dig (n div 4096 mod 16), hex_dig (n div 256 mod 16), hex_dig (n div 16 mod 16), hex_dig (n mod 16)]"
    by (simp flip: div_mult2_eq)
  ultimately show "hexw 4 n = [hex_dig (n div 4096 mod 16), hex_dig (n div 256 mod 16),
      hex_dig (n div 16 mod 16), hex_dig (n mod 16)]"
    by (simp only:)
qed

lemma hexw_6_eval [eval_simps]: "hexw 6 n = hexw 4 (n div 256) @ hexw 2 n"
proof -
  have "hexw (Suc (Suc k)) n = hexw k (n div 256) @ hexw 2 n" for k
    by (simp add: hexw_eval div_mult2_eq [symmetric])
  from this [of 4] show ?thesis by simp
qed
lemma length_hexw [simp]: "length (hexw w n) = w"
  by (induction w n rule: hexw.induct) simp_all

lemma is_hex_hexw [simp]: "list_all is_hex (hexw w n)"
  by (induction w n rule: hexw.induct) simp_all

lemma hexw_zero: "hexw w 0 = replicate w CHR ''0''"
proof (induction w)
  case (Suc w)
  then show ?case by (simp add: replicate_append_same)
qed simp

lemma zfill_Suc_snoc: "zfill (Suc w) (s @ [c]) = zfill w s @ [c]"
  by (simp add: zfill_def)

lemma zfill_to_hex: "n < 16 ^ w \<Longrightarrow> 0 < w \<Longrightarrow> zfill w (to_hex n) = hexw w n"
proof (induction w arbitrary: n)
  case 0
  then show ?case by simp
next
  case (Suc w)
  show ?case
  proof (cases "n < 16")
    case True
    then show ?thesis
      using hexw_zero [of w] by (simp add: to_hex.simps [of n] zfill_def)
  next
    case False
    have "n div 16 < 16 ^ w" using Suc.prems(1) by (simp add: less_mult_imp_div_less mult.commute)
    moreover have "0 < w" using False Suc.prems(1) by (cases w) simp_all
    ultimately have "zfill w (to_hex (n div 16)) = hexw w (n div 16)" by (rule Suc.IH)
    then show ?thesis using False by (simp add: to_hex.simps [of n] zfill_Suc_snoc)
  qed
qed

lemma fmt_hex_nat [hex_simps]: "n < 16 ^ w \<Longrightarrow> 0 < w \<Longrightarrow> fmt_hex w (int n) = hexw w n"
  by (simp add: fmt_hex_def zfill_to_hex)

lemma fmt_hex_nonneg:
  "0 \<le> v \<Longrightarrow> v < 16 ^ w \<Longrightarrow> 0 < w \<Longrightarrow> fmt_hex w v = hexw w (nat v)"
  using fmt_hex_nat [of "nat v" w] by (simp add: nat_less_iff)

lemma hex_nat_hexw [simp, hex_simps]: "hex_nat (hexw w n) = n mod 16 ^ w"
proof (induction w n rule: hexw.induct)
  case (1 n)
  then show ?case by simp
next
  case (2 w n)
  then show ?case by (simp add: mod_mult2_eq algebra_simps)
qed

lemma hexw_hex_nat: "list_all is_hex s \<Longrightarrow> hexw (length s) (hex_nat s) = map (hex_dig \<circ> the \<circ> hex_val) s"
proof (induction s rule: rev_induct)
  case Nil
  then show ?case by simp
next
  case (snoc c s)
  from snoc.prems obtain n where n: "hex_val c = Some n" "n < 16"
    by (auto simp: is_hex_def hex_val_less)
  then show ?case using snoc by simp
qed

lemma upper_hexw [simp, hex_simps]: "upper (hexw w n) = hexw w n"
  by (induction w n rule: hexw.induct) (simp_all add: upper_def)

lemma py_int16_hexw [simp, hex_simps]: "0 < w \<Longrightarrow> py_int16 (hexw w n) = Some (int (n mod 16 ^ w))"
proof -
  assume "0 < w"
  then have "hexw w n \<noteq> []" by (cases w) simp_all
  then show ?thesis by (simp add: py_int16_hex)
qed

lemma unat_byte_less [simp]: "unat (b :: byte) < 256"
proof -
  have "unat b < 2 ^ LENGTH(8)" by (rule unsigned_less)
  then show ?thesis by simp
qed

lemma byte_hex_hexw: "byte_hex b = hexw 2 (unat b)"
proof -
  have "unat b div 16 mod 16 = unat b div 16"
    using unat_byte_less [of b] by (intro mod_less less_mult_imp_div_less) simp
  then show ?thesis by (simp add: byte_hex_def numeral_2_eq_2)
qed

lemma hexw_2_byte: "n < 256 \<Longrightarrow> hexw 2 n = byte_hex (of_nat n)"
  by (simp add: byte_hex_hexw unat_of_nat)

lemma byte_div_16: "unat (b :: byte) div 16 < 16" "unat (b :: byte) mod 16 < 16"
  using unat_byte_less [of b] by (simp_all add: less_mult_imp_div_less)

lemma hex_of_Nil [simp]: "hex_of [] = []" and hex_of_Cons [simp]: "hex_of (b # bs) = byte_hex b @ hex_of bs"
  and hex_of_append [simp]: "hex_of (bs @ cs) = hex_of bs @ hex_of cs"
  by (simp_all add: hex_of_def)

lemma length_byte_hex [simp]: "length (byte_hex b) = 2"
  by (simp add: byte_hex_def)

lemma length_hex_of [simp]: "length (hex_of bs) = 2 * length bs"
  by (induction bs) simp_all

lemma is_hex_byte_hex [simp]: "list_all is_hex (byte_hex b)"
  by (simp add: byte_hex_def byte_div_16)

lemma is_hex_hex_of [simp]: "list_all is_hex (hex_of bs)"
  by (induction bs) simp_all

lemma upper_byte_hex [simp]: "upper (byte_hex b) = byte_hex b"
  by (simp add: byte_hex_def upper_def byte_div_16)

lemma upper_hex_of [simp, hex_simps]: "upper (hex_of bs) = hex_of bs"
  by (induction bs) simp_all

lemma upper_hex_of_lower [simp, hex_simps]: "upper (hex_of_lower bs) = hex_of bs"
  by (induction bs)
    (simp_all add: hex_of_lower_def byte_hex_lower_def byte_hex_def upper_def byte_div_16)

lemma byte_of_digits: "of_nat (16 * (unat b div 16) + unat b mod 16) = (b :: byte)"
  by (simp add: mult.commute [of 16])

lemma bytes_fromhex_digits:
  "hex_val c = Some h \<Longrightarrow> hex_val d = Some l \<Longrightarrow>
   bytes_fromhex (c # d # cs) = map_option (Cons (of_nat (16 * h + l))) (bytes_fromhex cs)"
  by (simp add: hex_not_byte_space is_hex_def)

lemma bytes_fromhex_byte_hex [simp]:
  "bytes_fromhex (byte_hex b @ s) = map_option (Cons b) (bytes_fromhex s)"
  unfolding byte_hex_def append.simps
  by (subst bytes_fromhex_digits [OF hex_val_hex_dig hex_val_hex_dig])
    (simp_all only: byte_div_16 byte_of_digits)

lemma bytes_fromhex_hex_of_append:
  "bytes_fromhex (hex_of bs @ s) = map_option ((@) bs) (bytes_fromhex s)"
  by (induction bs) (simp_all add: option.map_comp comp_def option.map_ident)

lemma bytes_fromhex_hex_of [simp, hex_simps]: "bytes_fromhex (hex_of bs) = Some bs"
  using bytes_fromhex_hex_of_append [of bs "[]"] by simp

lemma hex_of_lower_simps:
  "hex_of_lower [] = []" "hex_of_lower (b # bs) = byte_hex_lower b @ hex_of_lower bs"
  by (simp_all add: hex_of_lower_def)

lemma bytes_fromhex_byte_hex_lower:
  "bytes_fromhex (byte_hex_lower b @ s) = map_option (Cons b) (bytes_fromhex s)"
  unfolding byte_hex_lower_def append.simps
  by (subst bytes_fromhex_digits [OF hex_val_hex_dig_lower hex_val_hex_dig_lower])
    (simp_all only: byte_div_16 byte_of_digits)

lemma bytes_fromhex_hex_of_lower [simp, hex_simps]: "bytes_fromhex (hex_of_lower bs) = Some bs"
  by (induction bs) (simp_all add: hex_of_lower_simps bytes_fromhex_byte_hex_lower)

lemma length_bytes_fromhex:
  "list_all is_hex s \<Longrightarrow> even (length s) \<Longrightarrow> \<exists>bs. bytes_fromhex s = Some bs \<and> 2 * length bs = length s"
proof (induction s rule: bytes_fromhex.induct)
  case (3 c d cs)
  then obtain h l where "hex_val c = Some h" "hex_val d = Some l"
    by (auto simp: is_hex_def)
  with 3 obtain bs where "bytes_fromhex cs = Some bs" "2 * length bs = length cs"
    by (auto simp: hex_not_byte_space)
  with 3 \<open>hex_val c = Some h\<close> \<open>hex_val d = Some l\<close> show ?case by (simp add: hex_not_byte_space)
qed simp_all

lemma hex_of_inject: "hex_of bs = hex_of cs \<longleftrightarrow> bs = cs"
  by (metis bytes_fromhex_hex_of option.inject)

lemma hexw_append: "hexw (a + b) n = hexw a (n div 16 ^ b) @ hexw b n"
proof (induction b arbitrary: n)
  case 0
  then show ?case by simp
next
  case (Suc b)
  then show ?case by (simp add: div_mult2_eq)
qed

lemma hexw_mod: "hexw b (n mod 16 ^ b) = hexw b n"
proof (induction b arbitrary: n)
  case 0
  then show ?case by simp
next
  case (Suc b)
  have "n mod 16 ^ Suc b div 16 = n div 16 mod 16 ^ b"
    by (simp add: mod_mult2_eq)
  moreover have "n mod 16 ^ Suc b mod 16 = n mod 16"
    by (simp add: mod_mod_cancel)
  ultimately show ?case using Suc [of "n div 16"] by (simp only: hexw.simps)
qed

lemma byte_hex_of_nat: "byte_hex (of_nat n) = hexw 2 n"
  using hexw_mod [of 2 n] by (simp add: byte_hex_hexw unat_of_nat)

lemma byte_hex_append: "byte_hex (of_nat (n div 256)) @ byte_hex (of_nat n) = hexw 4 n"
  using hexw_append [of 2 2 n] by (simp add: byte_hex_of_nat)

end
