(* ===== verification/Crc.thy ===== *)
theory Crc
  imports Prelude
begin

section \<open>Checksums\<close>

text \<open>
  The two checksums of \<open>protocol.py\<close>: \<open>calc_crc1\<close>, the CRC-16 a module computes over
  its payload, and \<open>calc_crc2\<close>, the CRC-8 the PC-Link stamps on the text it forwards.
  The code shifts an unbounded Python integer and masks it at the end; \<open>crc16\<close> and
  \<open>crc8\<close> are the shift registers of that width it stands for.
  The locale \<open>crc_register\<close> states what error detection needs of a register (its shift
  is linear and injective, and a unit of input enters it injectively) and \<open>crc_affine\<close>
  adds that the input enters linearly. Both registers of the code interpret them.
\<close>

subsection \<open>The code\<close>

definition crc1_shift :: "int \<Rightarrow> int" where
  "crc1_shift crc =
     (if drop_bit 15 crc AND 1 \<noteq> 0 then push_bit 1 crc XOR 0x1021 else push_bit 1 crc)"

definition crc1_byte :: "int \<Rightarrow> byte \<Rightarrow> int" where
  "crc1_byte crc b = (crc1_shift ^^ 8) (crc XOR push_bit 8 (uint b))"

definition crc1_bytes :: "byte list \<Rightarrow> int" where
  "crc1_bytes bs = foldl crc1_byte 0xFFFF bs AND 0xFFFF"

definition calc_crc1 :: "string \<Rightarrow> int res" where
  "calc_crc1 data = (case bytes_fromhex data of
       None \<Rightarrow> Inl ValueError
     | Some bs \<Rightarrow> Inr (crc1_bytes bs))"

definition crc2_shift :: "int \<Rightarrow> int" where
  "crc2_shift crc =
     (if drop_bit 7 (crc AND 0xFF) \<noteq> 0 then push_bit 1 crc XOR 0x99 else push_bit 1 crc)"

definition crc2_char :: "int \<Rightarrow> char \<Rightarrow> int" where
  "crc2_char crc c = (crc2_shift ^^ 8) (crc XOR int (code c))"

definition calc_crc2 :: "string \<Rightarrow> int" where
  "calc_crc2 data = foldl crc2_char 0 data AND 0xFF"

subsection \<open>A shift register that checks a sequence\<close>

definition reg_step :: "('w::len word \<Rightarrow> 'w word) \<Rightarrow> ('b \<Rightarrow> 'w word) \<Rightarrow> 'w word \<Rightarrow> 'b \<Rightarrow> 'w word" where
  "reg_step shift load c x = (shift ^^ 8) (c XOR load x)"

definition reg_run :: "('w::len word \<Rightarrow> 'w word) \<Rightarrow> ('b \<Rightarrow> 'w word) \<Rightarrow> 'w word \<Rightarrow> 'b list \<Rightarrow> 'w word" where
  "reg_run shift load c xs = foldl (reg_step shift load) c xs"

lemma reg_run_simps [simp]:
  "reg_run shift load c [] = c"
  "reg_run shift load c (x # xs) = reg_run shift load (reg_step shift load c x) xs"
  "reg_run shift load c (xs @ ys) = reg_run shift load (reg_run shift load c xs) ys"
  by (simp_all add: reg_run_def)

lemma word_xor_cancel: "(a XOR b = a XOR c) = (b = (c :: 'w::len word))"
proof
  assume "a XOR b = a XOR c"
  then have "a XOR (a XOR b) = a XOR (a XOR c)" by simp
  then show "b = c" by (simp add: xor.assoc [symmetric])
qed simp

lemma word_xor_cancel2: "(b XOR a = c XOR a) = (b = (c :: 'w::len word))"
  by (metis xor.commute word_xor_cancel)

lemma word_xor_eq_0: "(a XOR b = 0) = (a = (b :: 'w::len word))"
  by (metis bit.xor_self word_xor_cancel)

locale crc_register =
  fixes shift :: "'w::len word \<Rightarrow> 'w word"
    and load :: "'b \<Rightarrow> 'w word"
  assumes shift_xor: "shift (a XOR b) = shift a XOR shift b"
    and shift_eq_0: "shift a = 0 \<Longrightarrow> a = 0"
    and load_inject: "load x = load y \<Longrightarrow> x = y"
begin

lemma pow_xor: "(shift ^^ k) (a XOR b) = (shift ^^ k) a XOR (shift ^^ k) b"
  by (induction k) (simp_all add: shift_xor)

lemma pow_eq_0: "(shift ^^ k) a = 0 \<Longrightarrow> a = 0"
  by (induction k) (auto dest: shift_eq_0)

lemma pow_inject: "(shift ^^ k) a = (shift ^^ k) b \<Longrightarrow> a = b"
  by (metis pow_eq_0 pow_xor word_xor_eq_0)

lemma step_state_inject: "reg_step shift load c x = reg_step shift load d x \<Longrightarrow> c = d"
  by (auto simp: reg_step_def word_xor_cancel2 dest: pow_inject)

lemma step_input_inject: "reg_step shift load c x = reg_step shift load c y \<Longrightarrow> x = y"
  by (auto simp: reg_step_def word_xor_cancel dest!: pow_inject intro: load_inject)

lemma run_state_inject: "reg_run shift load c xs = reg_run shift load d xs \<Longrightarrow> c = d"
  by (induction xs arbitrary: c d) (auto dest: step_state_inject)

lemma single_error_detected:
  "x \<noteq> y \<Longrightarrow> reg_run shift load c (us @ x # vs) \<noteq> reg_run shift load c (us @ y # vs)"
  by (auto dest: run_state_inject step_input_inject)

end

locale crc_affine = crc_register shift load
  for shift :: "'w::len word \<Rightarrow> 'w word" and load :: "'b \<Rightarrow> 'w word" +
  fixes mix :: "'b \<Rightarrow> 'b \<Rightarrow> 'b"
  assumes load_mix: "load (mix x y) = load x XOR load y"
begin

lemma step_mix:
  "reg_step shift load (c XOR d) (mix x y) = reg_step shift load c x XOR reg_step shift load d y"
proof -
  have "(c XOR d) XOR (load x XOR load y) = (c XOR load x) XOR (d XOR load y)"
    by (simp add: ac_simps)
  then show ?thesis by (simp add: reg_step_def load_mix pow_xor)
qed

lemma run_mix:
  "length xs = length ys \<Longrightarrow>
   reg_run shift load (c XOR d) (map2 mix xs ys) = reg_run shift load c xs XOR reg_run shift load d ys"
  by (induction xs ys arbitrary: c d rule: list_induct2) (simp_all add: step_mix)

lemma run_mix3:
  assumes "length xs = length ys" "length ys = length zs"
  shows "reg_run shift load c (map2 mix xs (map2 mix ys zs)) =
         reg_run shift load c xs XOR (reg_run shift load c ys XOR reg_run shift load c zs)"
proof -
  have "c XOR (c XOR c) = c" by simp
  then show ?thesis
    using assms run_mix [of xs "map2 mix ys zs" c "c XOR c"] run_mix [of ys zs c c] by simp
qed

end

subsection \<open>The two registers of the protocol\<close>

definition crc16_shift :: "16 word \<Rightarrow> 16 word" where
  "crc16_shift w = (if bit w 15 then push_bit 1 w XOR 0x1021 else push_bit 1 w)"

definition crc16_load :: "byte \<Rightarrow> 16 word" where
  "crc16_load b = push_bit 8 (ucast b)"

definition crc16 :: "byte list \<Rightarrow> 16 word" where
  "crc16 bs = reg_run crc16_shift crc16_load 0xFFFF bs"

definition crc8_shift :: "8 word \<Rightarrow> 8 word" where
  "crc8_shift w = (if bit w 7 then push_bit 1 w XOR 0x99 else push_bit 1 w)"

definition crc8_load :: "char \<Rightarrow> 8 word" where
  "crc8_load c = of_nat (code c)"

definition crc8 :: "string \<Rightarrow> 8 word" where
  "crc8 s = reg_run crc8_shift crc8_load 0 s"

lemma crc16_shift_xor: "crc16_shift (a XOR b) = crc16_shift a XOR crc16_shift b"
  by (rule bit_word_eqI) (auto simp: crc16_shift_def bit_simps)

lemma crc16_shift_eq_0:
  assumes "crc16_shift a = 0"
  shows "a = 0"
proof -
  have b: "\<not> bit (crc16_shift a) n" for n by (simp add: assms)
  have top: "\<not> bit a 15"
    using b [of 0] by (auto simp: crc16_shift_def bit_simps bit_0 even_xor_iff even_push_bit_iff split: if_splits simp del: push_bit_Suc)
  then have "\<not> bit a n" if "n < 15" for n
    using b [of "Suc n"] that by (simp add: crc16_shift_def bit_simps del: push_bit_Suc)
  then have "\<not> bit a n" if "n < 16" for n
    using top that by (cases "n = 15") simp_all
  then show ?thesis by (intro bit_word_eqI) simp
qed

lemma crc16_load_inject: "crc16_load x = crc16_load y \<Longrightarrow> x = y"
proof (rule bit_word_eqI)
  fix n :: nat
  assume eq: "crc16_load x = crc16_load y" and n: "n < LENGTH(8)"
  from eq have "bit (crc16_load x) (8 + n) = bit (crc16_load y) (8 + n)" by simp
  with n show "bit x n = bit y n" by (simp add: crc16_load_def bit_simps)
qed

lemma crc16_load_xor: "crc16_load (x XOR y) = crc16_load x XOR crc16_load y"
  by (rule bit_word_eqI) (auto simp: crc16_load_def bit_simps)

lemma crc8_shift_xor: "crc8_shift (a XOR b) = crc8_shift a XOR crc8_shift b"
  by (rule bit_word_eqI) (auto simp: crc8_shift_def bit_simps)

lemma crc8_shift_eq_0:
  assumes "crc8_shift a = 0"
  shows "a = 0"
proof -
  have b: "\<not> bit (crc8_shift a) n" for n by (simp add: assms)
  have top: "\<not> bit a 7"
    using b [of 0] by (auto simp: crc8_shift_def bit_simps bit_0 even_xor_iff even_push_bit_iff split: if_splits simp del: push_bit_Suc)
  then have "\<not> bit a n" if "n < 7" for n
    using b [of "Suc n"] that by (simp add: crc8_shift_def bit_simps del: push_bit_Suc)
  then have "\<not> bit a n" if "n < 8" for n
    using top that by (cases "n = 7") simp_all
  then show ?thesis by (intro bit_word_eqI) simp
qed

lemma crc8_load_inject: "crc8_load c = crc8_load d \<Longrightarrow> c = d"
proof -
  assume "crc8_load c = crc8_load d"
  then have "unat (of_nat (code c) :: byte) = unat (of_nat (code d) :: byte)"
    by (simp add: crc8_load_def)
  then show ?thesis by (simp add: unat_of_nat code_less_256 code_inject)
qed

interpretation c16: crc_affine crc16_shift crc16_load "(XOR)"
  by unfold_locales
    (auto simp: crc16_shift_xor crc16_load_xor dest: crc16_shift_eq_0 crc16_load_inject)

interpretation c8: crc_register crc8_shift crc8_load
  by unfold_locales (auto simp: crc8_shift_xor dest: crc8_shift_eq_0 crc8_load_inject)

subsection \<open>The integers of the code are these registers\<close>

lemma word_crc1_shift: "word_of_int (crc1_shift k) = crc16_shift (word_of_int k)"
proof -
  have "(drop_bit 15 k AND 1 \<noteq> 0) = bit k 15"
    by (simp add: and_one_eq bit_iff_odd_drop_bit odd_iff_mod_2_eq_one)
  then have "crc1_shift k = (if bit k 15 then push_bit 1 k XOR 0x1021 else push_bit 1 k)"
    by (simp only: crc1_shift_def)
  then show ?thesis
    by (intro bit_word_eqI)
      (auto simp: crc16_shift_def bit_simps bit_word_of_int_iff simp del: push_bit_Suc)
qed

lemma word_crc1_byte:
  "word_of_int (crc1_byte k b) = reg_step crc16_shift crc16_load (word_of_int k) b"
proof -
  have pow: "word_of_int ((crc1_shift ^^ n) j) = (crc16_shift ^^ n) (word_of_int j)" for n j
    by (induction n) (simp_all add: word_crc1_shift)
  have "(word_of_int (k XOR push_bit 8 (uint b)) :: 16 word) = word_of_int k XOR crc16_load b"
    by (rule bit_word_eqI) (auto simp: crc16_load_def bit_simps bit_word_of_int_iff)
  then show ?thesis by (simp add: crc1_byte_def reg_step_def pow)
qed

lemma uint_word_16: "uint (word_of_int k :: 16 word) = k AND 0xFFFF"
proof -
  have "(0xFFFF :: int) = mask 16" by (simp add: mask_eq_exp_minus_1)
  then have "k AND 0xFFFF = take_bit 16 k" by (simp only: take_bit_eq_mask)
  then show ?thesis by (simp add: uint_word_of_int take_bit_eq_mod)
qed

lemma uint_word_8: "uint (word_of_int k :: 8 word) = k AND 0xFF"
proof -
  have "(0xFF :: int) = mask 8" by (simp add: mask_eq_exp_minus_1)
  then have "k AND 0xFF = take_bit 8 k" by (simp only: take_bit_eq_mask)
  then show ?thesis by (simp add: uint_word_of_int take_bit_eq_mod)
qed

lemma crc1_bytes_crc16: "crc1_bytes bs = uint (crc16 bs)"
proof -
  have "word_of_int (foldl crc1_byte k bs) = reg_run crc16_shift crc16_load (word_of_int k) bs" for k
    by (induction bs arbitrary: k) (simp_all add: word_crc1_byte)
  from this [of "0xFFFF"] show ?thesis
    by (simp add: crc1_bytes_def crc16_def flip: uint_word_16)
qed

lemma word_crc2_shift: "word_of_int (crc2_shift k) = crc8_shift (word_of_int k)"
proof -
  have "drop_bit 7 (k AND 0xFF) = of_bool (bit k 7)"
  proof (rule bit_eqI)
    fix n :: nat
    have "(0xFF :: int) = mask 8" by (simp add: mask_eq_exp_minus_1)
    then show "bit (drop_bit 7 (k AND 0xFF)) n = bit (of_bool (bit k 7) :: int) n"
      by (auto simp: bit_simps)
  qed
  then have "(drop_bit 7 (k AND 0xFF) \<noteq> 0) = bit k 7" by (simp only: of_bool_eq_0_iff not_not)
  then have "crc2_shift k = (if bit k 7 then push_bit 1 k XOR 0x99 else push_bit 1 k)"
    by (simp only: crc2_shift_def)
  then show ?thesis
    by (intro bit_word_eqI)
      (auto simp: crc8_shift_def bit_simps bit_word_of_int_iff simp del: push_bit_Suc)
qed

lemma word_crc2_char:
  "word_of_int (crc2_char k c) = reg_step crc8_shift crc8_load (word_of_int k) c"
proof -
  have pow: "word_of_int ((crc2_shift ^^ n) j) = (crc8_shift ^^ n) (word_of_int j)" for n j
    by (induction n) (simp_all add: word_crc2_shift)
  have "(word_of_int (k XOR int (code c)) :: 8 word) = word_of_int k XOR crc8_load c"
    by (rule bit_word_eqI) (auto simp: crc8_load_def bit_simps bit_word_of_int_iff)
  then show ?thesis by (simp add: crc2_char_def reg_step_def pow)
qed

lemma calc_crc2_crc8: "calc_crc2 s = uint (crc8 s)"
proof -
  have "word_of_int (foldl crc2_char k s) = reg_run crc8_shift crc8_load (word_of_int k) s" for k
    by (induction s arbitrary: k) (simp_all add: word_crc2_char)
  from this [of 0] show ?thesis
    by (simp add: calc_crc2_def crc8_def flip: uint_word_8)
qed

subsection \<open>What the checksums detect\<close>

lemma crc16_single: "x \<noteq> y \<Longrightarrow> crc16 (us @ x # vs) \<noteq> crc16 (us @ y # vs)"
  unfolding crc16_def by (rule c16.single_error_detected)

lemma crc8_single: "c \<noteq> d \<Longrightarrow> crc8 (s @ c # t) \<noteq> crc8 (s @ d # t)"
  unfolding crc8_def by (rule c8.single_error_detected)

text \<open>A byte in the low half of the register reaches the high half unchanged in eight shifts.\<close>

lemma crc16_shift_low: "k \<le> 8 \<Longrightarrow> (crc16_shift ^^ k) (ucast (b :: byte)) = push_bit k (ucast b)"
proof (induction k)
  case 0
  then show ?case by simp
next
  case (Suc k)
  then have "\<not> bit (push_bit k (ucast b) :: 16 word) 15"
    by (auto simp: bit_simps dest: bit_imp_le_length)
  with Suc show ?case
    by (simp add: crc16_shift_def push_bit_push_bit del: push_bit_Suc)
qed

lemma crc16_step_pair:
  "reg_step crc16_shift crc16_load (reg_step crc16_shift crc16_load c x) y =
   (crc16_shift ^^ 16) (c XOR (crc16_load x XOR ucast y))"
proof -
  have "crc16_load y = (crc16_shift ^^ 8) (ucast y)"
    using crc16_shift_low [of 8 y] by (simp add: crc16_load_def)
  then have "reg_step crc16_shift crc16_load c x XOR crc16_load y =
      (crc16_shift ^^ 8) (c XOR (crc16_load x XOR ucast y))"
    by (simp add: reg_step_def c16.pow_xor ac_simps)
  moreover have "(crc16_shift ^^ 16) w = (crc16_shift ^^ 8) ((crc16_shift ^^ 8) w)" for w
    using funpow_add [of 8 8 crc16_shift] by simp
  ultimately show ?thesis
    by (simp add: reg_step_def [of _ _ "reg_step _ _ _ _"])
qed

lemma crc16_pair_load_inject:
  assumes "crc16_load x XOR ucast (y :: byte) = crc16_load x' XOR (ucast (y' :: byte) :: 16 word)"
  shows "x = x' \<and> y = y'"
proof -
  have b: "bit (crc16_load x XOR ucast y) n = bit (crc16_load x' XOR (ucast y' :: 16 word)) n" for n
    by (simp add: assms)
  have hi: "\<not> bit z (8 + n)" for z :: byte and n
    by (auto dest: bit_imp_le_length)
  have "bit x n = bit x' n" if "n < 8" for n
    using b [of "8 + n"] that hi [of y n] hi [of y' n] by (simp add: crc16_load_def bit_simps)
  moreover have "bit y n = bit y' n" if "n < 8" for n
    using b [of n] that by (simp add: crc16_load_def bit_simps)
  ultimately show ?thesis by (auto intro: bit_word_eqI)
qed

lemma crc16_double:
  assumes "(x, y) \<noteq> (x', y')"
  shows "crc16 (us @ x # y # vs) \<noteq> crc16 (us @ x' # y' # vs)"
proof
  assume "crc16 (us @ x # y # vs) = crc16 (us @ x' # y' # vs)"
  then have "reg_step crc16_shift crc16_load (reg_step crc16_shift crc16_load (crc16 us) x) y =
      reg_step crc16_shift crc16_load (reg_step crc16_shift crc16_load (crc16 us) x') y'"
    by (auto simp: crc16_def dest: c16.run_state_inject)
  then have "crc16_load x XOR ucast y = crc16_load x' XOR (ucast y' :: 16 word)"
    by (auto simp: crc16_step_pair word_xor_cancel dest!: c16.pow_inject)
  with assms show False by (auto dest: crc16_pair_load_inject)
qed

lemma crc1_bytes_bounds [simp]: "0 \<le> crc1_bytes bs" "crc1_bytes bs < 65536"
  using uint_bounded [of "crc16 bs"] by (simp_all add: crc1_bytes_crc16)

lemma calc_crc2_bounds [simp]: "0 \<le> calc_crc2 s" "calc_crc2 s < 256"
  using uint_bounded [of "crc8 s"] by (simp_all add: calc_crc2_crc8)

lemma crc1_bytes_inject: "crc1_bytes xs = crc1_bytes ys \<longleftrightarrow> crc16 xs = crc16 ys"
  by (simp add: crc1_bytes_crc16 word_uint_eq_iff)

lemma calc_crc2_inject: "calc_crc2 s = calc_crc2 t \<longleftrightarrow> crc8 s = crc8 t"
  by (simp add: calc_crc2_crc8 word_uint_eq_iff)

lemma funpow_8: "(f ^^ 8) x = f (f (f (f (f (f (f (f x)))))))"
  by (simp add: numeral_eq_Suc)

lemmas crc_eval = crc1_bytes_crc16 calc_crc2_crc8 crc16_def crc8_def reg_step_def funpow_8
  crc16_load_def crc16_shift_def crc8_load_def crc8_shift_def

end
