(* ===== verification/Frames.thy ===== *)
theory Frames
  imports Crc
begin

section \<open>Frames and maintenance replies\<close>

text \<open>
  The rest of \<open>protocol.py\<close> that is about frames: the command builders and the decoders
  of the PC-Link's maintenance replies. A frame is \<open>$LL <payload> <crc16> <crc8>\<close>, where
  \<open>LL\<close> is ten more than the number of hexadecimal digits of the payload.
  The lemmas give the exact text of every command built from a valid address and the round
  trip from a framed payload back to its bytes.
\<close>

subsection \<open>Building frames\<close>

definition int_to_hex :: "int \<Rightarrow> nat \<Rightarrow> string" where
  "int_to_hex value digits = fmt_hex digits value"

definition append_crc1 :: "string \<Rightarrow> string res" where
  "append_crc1 data = res_bind (calc_crc1 data) (\<lambda>crc. Inr (data @ int_to_hex crc 4))"

definition append_crc2 :: "string \<Rightarrow> string" where
  "append_crc2 data = data @ int_to_hex (calc_crc2 data) 2"

definition to_bytes2_le :: "int \<Rightarrow> byte list res" where
  \<comment> \<open>\<open>n.to_bytes(2, "little")\<close>\<close>
  "to_bytes2_le n = (if 0 \<le> n \<and> n < 65536
     then Inr [word_of_int n, word_of_int (n div 256)] else Inl OverflowError)"

definition make_pc_link_command :: "int \<Rightarrow> string \<Rightarrow> byte list option \<Rightarrow> string res" where
  "make_pc_link_command func addr args =
     res_bind (of_option ValueError (py_int16 addr)) (\<lambda>addr_int.
     res_bind (to_bytes2_le addr_int) (\<lambda>le.
       let data0 = int_to_hex func 2 @ hex_of le;
           data = (case args of None \<Rightarrow> data0
                    | Some bs \<Rightarrow> if bs = [] then data0 else data0 @ hex_of bs)
       in res_bind (append_crc1 data) (\<lambda>body.
            Inr (append_crc2 (''$'' @ int_to_hex (int (length data) + 10) 2 @ body)))))"

definition calculate_group_number :: "int \<Rightarrow> int" where
  "calculate_group_number channel = (channel + 5) div 6"

definition make_pc_link_inventory_command :: "string \<Rightarrow> string res" where
  "make_pc_link_inventory_command payload =
     res_bind (calc_crc1 payload) (\<lambda>crc1_result.
       let intermediate_string = ''$14'' @ payload @ fmt_hex 4 crc1_result;
           crc2_result = calc_crc2 intermediate_string
       in Inr (''$14'' @ payload @ fmt_hex 4 crc1_result @ fmt_hex 2 crc2_result))"

definition wire_address :: "string \<Rightarrow> string res" where
  "wire_address address =
     res_bind (of_option ValueError (py_int16 address)) (\<lambda>n.
     res_bind (to_bytes2_le n) (\<lambda>le. Inr (hex_of le)))"

subsection \<open>Maintenance functions and replies\<close>

definition FUNC_READ_BLOCK16 :: int where "FUNC_READ_BLOCK16 = 0x10"
definition FUNC_MODULE_STATUS :: int where "FUNC_MODULE_STATUS = 0x11"
definition FUNC_MODULE_CRC :: int where "FUNC_MODULE_CRC = 0x13"
definition FUNC_GET_TIME :: int where "FUNC_GET_TIME = 0x1D"
definition FUNC_SET_TIME :: int where "FUNC_SET_TIME = 0x1E"
definition FUNC_READ_BLOCK8 :: int where "FUNC_READ_BLOCK8 = 0x22"

lemmas func_codes = FUNC_READ_BLOCK16_def FUNC_MODULE_STATUS_def FUNC_MODULE_CRC_def
  FUNC_GET_TIME_def FUNC_SET_TIME_def FUNC_READ_BLOCK8_def

record module_status =
  address :: string
  eeprom_error :: bool
  type_code :: byte
  record_count_a :: byte
  record_count_b :: byte
  raw :: "byte list"

definition status_byte :: "module_status \<Rightarrow> byte" where
  "status_byte st = (if length (raw st) > 2 then raw st ! 2 else 0)"

definition reply_payload :: "string \<Rightarrow> byte list" where
  "reply_payload message = (case py_int16 (slice 1 3 message) of
       None \<Rightarrow> []
     | Some k \<Rightarrow> let n = k - 10 in
         if n \<le> 0 then []
         else (case bytes_fromhex (slice 3 (3 + nat n) message) of None \<Rightarrow> [] | Some bs \<Rightarrow> bs))"

definition parse_module_status :: "byte list \<Rightarrow> string \<Rightarrow> module_status res" where
  "parse_module_status payload addr =
     (if length payload < 7 then Inl ValueError
      else Inr \<lparr>address = upper addr,
                eeprom_error = (payload ! 2 AND 0x01 \<noteq> 0),
                type_code = payload ! 3,
                record_count_a = payload ! 5,
                record_count_b = payload ! 6,
                raw = payload\<rparr>)"

definition FAMILY_SIGNATURES :: "(string \<times> byte list) list" where
  "FAMILY_SIGNATURES =
     [(''switch_module'', [0x10, 0x90]),
      (''roller_module'', [0x20]),
      (''dimmer_module'', [0x30, 0x80]),
      (''pc_link'', [0x50]),
      (''pc_logic'', [0x40]),
      (''feedback_module'', [0xA0])]"

definition family_name :: "byte \<Rightarrow> string option" where
  "family_name signature =
     map_option fst (find (\<lambda>(name, codes). signature \<in> set codes) FAMILY_SIGNATURES)"

definition family_matches :: "string \<Rightarrow> byte \<Rightarrow> bool option" where
  "family_matches module_type signature = (case map_of FAMILY_SIGNATURES module_type of
       None \<Rightarrow> None
     | Some codes \<Rightarrow> if family_name signature = None then None else Some (signature \<in> set codes))"

definition parse_module_crc :: "byte list \<Rightarrow> int res" where
  "parse_module_crc payload =
     (if length payload < 7 then Inl ValueError
      else Inr (uint (payload ! 5) OR push_bit 8 (uint (payload ! 6))))"

record datetime =
  year :: int
  month :: int
  day :: int
  hour :: int
  minute :: int
  second :: int

definition leap_year :: "int \<Rightarrow> bool" where
  "leap_year y \<longleftrightarrow> y mod 4 = 0 \<and> (y mod 100 \<noteq> 0 \<or> y mod 400 = 0)"

definition days_in_month :: "int \<Rightarrow> int \<Rightarrow> int" where
  "days_in_month y m = (if m = 2 then (if leap_year y then 29 else 28)
     else if m \<in> {4, 6, 9, 11} then 30 else 31)"

definition valid_datetime :: "datetime \<Rightarrow> bool" where
  \<comment> \<open>what the constructor of \<open>datetime.datetime\<close> accepts\<close>
  "valid_datetime t \<longleftrightarrow>
     1 \<le> year t \<and> year t \<le> 9999 \<and> 1 \<le> month t \<and> month t \<le> 12 \<and>
     1 \<le> day t \<and> day t \<le> days_in_month (year t) (month t) \<and>
     0 \<le> hour t \<and> hour t \<le> 23 \<and> 0 \<le> minute t \<and> minute t \<le> 59 \<and> 0 \<le> second t \<and> second t \<le> 59"

definition parse_pc_link_time :: "byte list \<Rightarrow> datetime res" where
  "parse_pc_link_time payload =
     (if length payload < 9 then Inl ValueError
      else let t = \<lparr>year = 2000 + uint (payload ! 3), month = uint (payload ! 4),
                    day = uint (payload ! 5), hour = uint (payload ! 6),
                    minute = uint (payload ! 7), second = uint (payload ! 8)\<rparr>
           in if valid_datetime t then Inr t else Inl ValueError)"

definition make_set_time_args :: "datetime \<Rightarrow> byte list res" where
  "make_set_time_args moment =
     (if \<not> (2000 \<le> year moment \<and> year moment \<le> 2255) then Inl ValueError
      else Inr [word_of_int (year moment - 2000), word_of_int (month moment),
                word_of_int (day moment), word_of_int (hour moment),
                word_of_int (minute moment), word_of_int (second moment), 0xFF])"

definition make_block_index_args :: "int \<Rightarrow> byte list res" where
  "make_block_index_args block =
     (if \<not> (0 \<le> block \<and> block \<le> 0xFFFF) then Inl ValueError
      else Inr [word_of_int (block AND 0xFF), word_of_int (drop_bit 8 block)])"

subsection \<open>The exact text of a frame\<close>

definition frame_text :: "byte list \<Rightarrow> string" where
  \<comment> \<open>the frame a payload of bytes stands for: length, payload and both checksums\<close>
  "frame_text p = (let body = ''$'' @ hexw 2 (2 * length p + 10) @ hex_of p @ hexw 4 (nat (crc1_bytes p))
     in body @ hexw 2 (nat (calc_crc2 body)))"

lemma int_to_hex_crc1: "int_to_hex (crc1_bytes bs) 4 = hexw 4 (nat (crc1_bytes bs))"
  by (simp add: int_to_hex_def fmt_hex_nonneg)

lemma int_to_hex_crc2: "int_to_hex (calc_crc2 s) 2 = hexw 2 (nat (calc_crc2 s))"
  by (simp add: int_to_hex_def fmt_hex_nonneg)

lemma calc_crc1_hex_of [simp]: "calc_crc1 (hex_of bs) = Inr (crc1_bytes bs)"
  by (simp add: calc_crc1_def)

lemma append_crc1_hex_of [simp]:
  "append_crc1 (hex_of bs) = Inr (hex_of bs @ hexw 4 (nat (crc1_bytes bs)))"
  by (simp add: append_crc1_def int_to_hex_crc1)

lemma append_crc2_text: "append_crc2 s = s @ hexw 2 (nat (calc_crc2 s))"
  by (simp add: append_crc2_def int_to_hex_crc2)

lemma to_bytes2_le_nat:
  assumes "n < 65536"
  shows "to_bytes2_le (int n) = Inr [of_nat n, of_nat (n div 256)]"
proof -
  have "int n div 256 = int (n div 256)" by (simp add: zdiv_int)
  then show ?thesis using assms by (simp add: to_bytes2_le_def del: of_nat_div)
qed

lemma int_to_hex_byte: "0 \<le> f \<Longrightarrow> f < 256 \<Longrightarrow> int_to_hex f 2 = byte_hex (word_of_int f)"
  by (simp add: int_to_hex_def fmt_hex_nonneg hexw_2_byte nat_less_iff)

definition command_bytes :: "int \<Rightarrow> nat \<Rightarrow> byte list option \<Rightarrow> byte list" where
  \<comment> \<open>function code, address low byte first, arguments: what a command carries\<close>
  "command_bytes f a args = word_of_int f # of_nat a # of_nat (a div 256) #
     (case args of None \<Rightarrow> [] | Some bs \<Rightarrow> bs)"

lemma command_frame:
  assumes "0 \<le> f" "f < 256" "py_int16 addr = Some (int a)" "a < 65536"
    and "length (command_bytes f a args) < 120"
  shows "make_pc_link_command f addr args = Inr (frame_text (command_bytes f a args))"
proof -
  let ?p = "command_bytes f a args"
  have data: "(case args of None \<Rightarrow> int_to_hex f 2 @ hex_of [of_nat a, of_nat (a div 256)]
      | Some bs \<Rightarrow> if bs = [] then int_to_hex f 2 @ hex_of [of_nat a, of_nat (a div 256)]
          else (int_to_hex f 2 @ hex_of [of_nat a, of_nat (a div 256)]) @ hex_of bs) = hex_of ?p"
    using assms(1,2) by (auto simp: command_bytes_def int_to_hex_byte split: option.splits)
  have len: "int_to_hex (int (length (hex_of ?p)) + 10) 2 = hexw 2 (2 * length ?p + 10)"
    using assms(5) by (simp add: int_to_hex_def fmt_hex_nonneg nat_add_distrib nat_mult_distrib)
  have "make_pc_link_command f addr args = Inr (append_crc2 (''$'' @
      hexw 2 (2 * length ?p + 10) @ hex_of ?p @ hexw 4 (nat (crc1_bytes ?p))))"
    using assms(3)
    by (simp only: make_pc_link_command_def of_option_simps res_bind_simps
          to_bytes2_le_nat [OF assms(4)] Let_def data len append_crc1_hex_of)
  then show ?thesis by (simp add: append_crc2_text frame_text_def Let_def)
qed

text \<open>
  C1. A command for a function code below 256, an address that reads as a 16-bit number
  and at most 116 argument bytes is the frame of exactly its function code, its address
  low byte first and its arguments: the length byte and both checksums are the ones of
  that payload.
\<close>

theorem make_pc_link_command_frame:
  assumes "0 \<le> f" "f < 256" "py_int16 addr = Some (int a)" "a < 65536"
    and "length (command_bytes f a args) < 120"
  shows "make_pc_link_command f addr args = Inr (frame_text (command_bytes f a args))"
  using assms by (rule command_frame)

theorem make_pc_link_command_frame_witness:
  "make_pc_link_command 0x12 ''C9A5'' None = Inr (frame_text [0x12, 0xA5, 0xC9])"
proof -
  have a: "py_int16 ''C9A5'' = Some (int 0xC9A5)" by (simp add: eval_simps)
  have b: "command_bytes 0x12 0xC9A5 None = [0x12, 0xA5, 0xC9]" by (simp add: command_bytes_def)
  have "make_pc_link_command 0x12 ''C9A5'' None = Inr (frame_text (command_bytes 0x12 0xC9A5 None))"
    by (rule make_pc_link_command_frame [OF _ _ a]) (simp_all add: b)
  then show ?thesis by (simp only: b)
qed

subsection \<open>Reading a frame back\<close>

lemma frame_text_split:
  "frame_text p = ''$'' @ hexw 2 (2 * length p + 10) @ hex_of p @ hexw 4 (nat (crc1_bytes p)) @
     hexw 2 (nat (calc_crc2 (''$'' @ hexw 2 (2 * length p + 10) @ hex_of p @ hexw 4 (nat (crc1_bytes p)))))"
  by (simp add: frame_text_def Let_def)

lemma length_frame_text [simp]: "length (frame_text p) = 2 * length p + 9"
  by (simp add: frame_text_split)

lemma slice_1_3_frame [simp]: "slice (Suc 0) 3 (frame_text p) = hexw 2 (2 * length p + 10)"
  by (simp add: frame_text_split slice_def)

lemma slice_payload_frame:
  "slice 3 (3 + 2 * length p) (frame_text p) = hex_of p"
  by (simp add: frame_text_split slice_def numeral_3_eq_3)

lemma declared_length_frame:
  "length p \<le> 122 \<Longrightarrow> py_int16 (slice 1 3 (frame_text p)) = Some (int (2 * length p + 10))"
  by (simp del: of_nat_add of_nat_mult)

lemma reply_payload_frame_text [simp]:
  assumes "length p \<le> 122"
  shows "reply_payload (frame_text p) = p"
proof (cases "p = []")
  case True
  then show ?thesis using declared_length_frame [of p] by (simp add: reply_payload_def)
next
  case False
  have n: "nat (int (2 * length p + 10) - 10) = 2 * length p" by simp
  show ?thesis
    unfolding reply_payload_def declared_length_frame [OF assms] option.case Let_def n
      slice_payload_frame
    using False by simp
qed

end
