(* ===== verification/Tables.thy ===== *)
theory Tables
  imports Prelude
begin

section \<open>Device, mode and timer tables\<close>

text \<open>
  The tables of \<open>discovery/mapping.py\<close>, as association lists in the source's order: the
  device types, the key layouts of the plates, the link modes and timers of the output
  modules and of the colour controller. A dictionary lookup is \<open>map_of\<close>.
\<close>

record device_info =
  dt_category :: string
  dt_model :: string
  dt_model_alt :: "string option"
  dt_model_alt_legacy :: "string option"
  dt_channels :: "int option"
  dt_name :: string
  dt_vendor_ref :: "string option"

definition DEVICE_TYPES_output :: "(string \<times> device_info) list" where
  \<comment> \<open>output modules\<close>
  "DEVICE_TYPES_output =
    [(''01'', device_info.make ''Module'' ''05-000-02'' None None (Some 12) ''Switch module'' (Some ''S_DB_SCHAKEL_MODULE'')),
     (''02'', device_info.make ''Module'' ''05-001-02'' None None (Some 6) ''Roller shutter module'' (Some ''S_DB_ROLLUIK_MODULE'')),
     (''03'', device_info.make ''Module'' ''05-007-02'' None None (Some 12) ''Dim controller module'' (Some ''S_DB_DIM_CONTROLLER_MODULE'')),
     (''09'', device_info.make ''Module'' ''05-002-02'' None None (Some 4) ''Compact switch module'' (Some ''S_DB_SCHAKEL_MODULE_TINY'')),
     (''31'', device_info.make ''Module'' ''05-002-02'' None None (Some 4) ''Compact switch module'' (Some ''S_DB_SCHAKEL_MODULE_TINY'')),
     (''32'', device_info.make ''Module'' ''05-008-02'' None None (Some 4) ''Compact dim controller'' (Some ''S_DB_DIM_MODULE_TINY''))]"

definition DEVICE_TYPES_system :: "(string \<times> device_info) list" where
  \<comment> \<open>controllers and system modules\<close>
  "DEVICE_TYPES_system =
    [(''08'', device_info.make ''Module'' ''05-201'' None None (Some 6) ''Logic module'' (Some ''S_DB_LOGIC_FUNCTION'')),
     (''0A'', device_info.make ''Module'' ''05-200'' None None None ''PC-Link'' (Some ''S_DB_PC_LINK_EXTERN'')),
     (''2B'', device_info.make ''Module'' ''05-205'' None None None ''Audio distribution module'' (Some ''S_DB_AUDIO_MODULE'')),
     (''37'', device_info.make ''Module'' ''05-206'' None None (Some 6) ''Modular interface, 6 inputs'' (Some ''S_DB_INPUT6'')),
     (''45'', device_info.make ''Module'' ''340-00111'' None None None ''RGB plinth light'' (Some ''S_DB_DIM_PLINT'')),
     (''46'', device_info.make ''Module'' ''340-00112'' None None None ''RGB controller'' (Some ''S_DB_DIM_COLORCTRL'')),
     (''47'', device_info.make ''Module'' ''340-00112'' None None None ''RGB controller, mono'' (Some ''S_DB_DIM_MONOCTRL'')),
     (''42'', device_info.make ''Module'' ''05-207'' None None None ''Feedback module'' (Some ''S_DB_PC_FEEDBACK_MODULE''))]"

definition DEVICE_TYPES_buttons :: "(string \<times> device_info) list" where
  \<comment> \<open>bus push buttons\<close>
  "DEVICE_TYPES_buttons =
    [(''04'', device_info.make ''Button'' ''05-060'' (Some ''4*-072'') (Some ''05-060-01'') (Some 2) ''Bus push button, 2 control buttons'' (Some ''S_DB_BUSDRUKKNOP_2'')),
     (''06'', device_info.make ''Button'' ''05-064'' (Some ''4*-074'') (Some ''05-064-01'') (Some 4) ''Bus push button, 4 control buttons'' (Some ''S_DB_BUSDRUKKNOP_4'')),
     (''0C'', device_info.make ''Button'' ''05-09x'' None (Some ''05-09x-01'') (Some 4) ''Push button, 4 control buttons with IR receiver'' (Some ''S_DB_KNOP_4_IR_UNIQUE'')),
     (''12'', device_info.make ''Button'' ''4*-078'' None (Some ''05-078-01'') (Some 8) ''Push button, 8 control buttons (graphite)'' (Some ''S_DB_KNOP_8_GRAFIET'')),
     (''10'', device_info.make ''Button'' ''4*-082'' None None (Some 2) ''Bus push button, 2 control buttons'' (Some ''S_DB_BUSDRUKKNOP_2'')),
     (''11'', device_info.make ''Button'' ''4*-084'' None None (Some 4) ''Bus push button, 4 control buttons'' (Some ''S_DB_BUSDRUKKNOP_4''))]"

definition DEVICE_TYPES_led_buttons :: "(string \<times> device_info) list" where
  \<comment> \<open>push buttons with feedback LEDs\<close>
  "DEVICE_TYPES_led_buttons =
    [(''3F'', device_info.make ''Button'' ''05-060-02'' None None (Some 2) ''Push button, 2 control buttons with feedback LEDs (graphite)'' (Some ''S_DB_KNOP_2_GRAFIET_FB'')),
     (''40'', device_info.make ''Button'' ''05-064-02'' None None (Some 4) ''Push button, 4 control buttons with feedback LEDs (graphite)'' (Some ''S_DB_KNOP_4_GRAFIET_FB'')),
     (''41'', device_info.make ''Button'' ''05-078-02'' None None (Some 8) ''Push button, 8 control buttons with feedback LEDs (graphite)'' (Some ''S_DB_KNOP_8_GRAFIET_FB''))]"

definition DEVICE_TYPES_interfaces :: "(string \<times> device_info) list" where
  \<comment> \<open>external-contact interfaces\<close>
  "DEVICE_TYPES_interfaces =
    [(''21'', device_info.make ''Button'' ''05-056'' None None (Some 2) ''Push-button interface'' (Some ''S_DB_INTERF_DRUKKNOP'')),
     (''22'', device_info.make ''Button'' ''05-057'' None None (Some 2) ''Switch interface'' (Some ''S_DB_INTERF_SCHAK'')),
     (''43'', device_info.make ''Button'' ''05-058'' None None (Some 4) ''Universal interface, push-button mode'' (Some ''S_DB_INTERF_DRUKKNOP'')),
     (''44'', device_info.make ''Button'' ''05-058'' None None (Some 8) ''Universal interface, switch mode'' (Some ''S_DB_INTERF_SCHAK''))]"

definition DEVICE_TYPES_rf :: "(string \<times> device_info) list" where
  \<comment> \<open>RF transmitters\<close>
  "DEVICE_TYPES_rf =
    [(''1F'', device_info.make ''Button'' ''05-302'' (Some ''05-301-4*'') (Some ''410-00001'') (Some 2) ''RF-bus push button, 2 channels'' (Some ''S_DB_RF_WAND_2'')),
     (''23'', device_info.make ''Button'' ''05-304'' (Some ''05-303-4*'') (Some ''410-00002'') (Some 4) ''RF-bus push button, 4 channels'' (Some ''S_DB_RF_WAND_4'')),
     (''25'', device_info.make ''Button'' ''05-311'' None None (Some 1) ''Mini hand-held RF transmitter, 1 channel'' (Some ''S_DB_KNOP_1_RF868'')),
     (''26'', device_info.make ''Button'' ''05-314'' None None (Some 4) ''RF868 mini transmitter, 4 channels'' (Some ''S_DB_KNOP_16_RF868_MINI'')),
     (''3D'', device_info.make ''Button'' ''05-312'' None None (Some 52) ''Easywave hand-held RF transmitter, 52 operation points'' (Some ''S_DB_REMOTE4x5CH''))]"

definition DEVICE_TYPES_sensors :: "(string \<times> device_info) list" where
  \<comment> \<open>sensors, the 05-061 and the reserved type\<close>
  "DEVICE_TYPES_sensors =
    [(''28'', device_info.make ''Button'' ''05-7*5'' None (Some ''430-00500'') (Some 4) ''Motion detector with Nikobus interface'' (Some ''S_DB_ACTOR_SENSOR'')),
     (''05'', device_info.make ''Button'' ''05-061'' None None (Some 2) ''Bus push button, 2 control buttons with feedback LEDs'' (Some ''S_DB_BUSDRUKKNOP_2_LED'')),
     (''3B'', device_info.make ''Reserved'' ''PC-Logic Cell'' None None None ''PC-Logic BP Cell (3CF0xx stride)'' None)]"

definition DEVICE_TYPES :: "(string \<times> device_info) list" where
  "DEVICE_TYPES =
    DEVICE_TYPES_output @ DEVICE_TYPES_system @ DEVICE_TYPES_buttons @ DEVICE_TYPES_led_buttons @ DEVICE_TYPES_interfaces @ DEVICE_TYPES_rf @ DEVICE_TYPES_sensors"

definition MODULE_TYPE_BY_DEVICE_TYPE :: "(string \<times> string) list" where
  "MODULE_TYPE_BY_DEVICE_TYPE =
    [(''01'', ''switch_module''),
     (''02'', ''roller_module''),
     (''03'', ''dimmer_module''),
     (''08'', ''pc_logic''),
     (''09'', ''switch_module''),
     (''0A'', ''pc_link''),
     (''2B'', ''audio_module''),
     (''45'', ''rgb_module''),
     (''47'', ''rgb_module''),
     (''31'', ''switch_module''),
     (''32'', ''dimmer_module''),
     (''37'', ''interface_module''),
     (''42'', ''feedback_module''),
     (''46'', ''rgb_module'')]"

definition CHANNEL_MAPPING :: "(int \<times> string) list" where
  "CHANNEL_MAPPING =
    [(0, ''Channel 1''),
     (1, ''Channel 2''),
     (2, ''Channel 3''),
     (3, ''Channel 4''),
     (4, ''Channel 5''),
     (5, ''Channel 6''),
     (6, ''Channel 7''),
     (7, ''Channel 8''),
     (8, ''Channel 9''),
     (9, ''Channel 10''),
     (10, ''Channel 11''),
     (11, ''Channel 12'')]"

definition KEY_MAPPING :: "(int \<times> (string \<times> string) list) list" where
  "KEY_MAPPING =
    [(1, [(''1A'', ''8'')]),
     (2, [(''1A'', ''8''), (''1B'', ''C'')]),
     (4, [(''1A'', ''8''), (''1B'', ''C''), (''1C'', ''0''), (''1D'', ''4'')]),
     (8, [(''1A'', ''A''), (''1B'', ''E''), (''1C'', ''2''), (''1D'', ''6''), (''2A'', ''8''), (''2B'', ''C''), (''2C'', ''0''), (''2D'', ''4'')])]"

definition PC_LOGIC_KEY_MAPPING :: "(int \<times> (string \<times> string) list) list" where
  "PC_LOGIC_KEY_MAPPING =
    [(2, [(''1A'', ''0''), (''1B'', ''4'')])]"

definition MOTION_DETECTOR_DEVICE_TYPE :: "string" where
  "MOTION_DETECTOR_DEVICE_TYPE =
    ''28''"

definition MOTION_DETECTOR_MODEL :: "string" where
  "MOTION_DETECTOR_MODEL =
    ''05-7*5''"

definition MOTION_DETECTOR_KEY_ROLES :: "(string \<times> string) list" where
  "MOTION_DETECTOR_KEY_ROLES =
    [(''1A'', ''on''),
     (''1B'', ''off''),
     (''1C'', ''light''),
     (''1D'', ''dark'')]"

definition TWO_BUTTON_LAYOUT_GENERIC :: "string" where
  "TWO_BUTTON_LAYOUT_GENERIC =
    ''8_C''"

definition TWO_BUTTON_LAYOUT_RIGHT_PAIR :: "string" where
  "TWO_BUTTON_LAYOUT_RIGHT_PAIR =
    ''0_4''"

definition TWO_BUTTON_LAYOUTS :: "(string \<times> (string \<times> string) list) list" where
  "TWO_BUTTON_LAYOUTS =
    [(TWO_BUTTON_LAYOUT_GENERIC, [(''1A'', ''8''), (''1B'', ''C'')]),
     (TWO_BUTTON_LAYOUT_RIGHT_PAIR, [(''1A'', ''0''), (''1B'', ''4'')])]"

definition TWO_BUTTON_LAYOUT_KEY_INDICES :: "(string \<times> int list) list" where
  "TWO_BUTTON_LAYOUT_KEY_INDICES =
    [(TWO_BUTTON_LAYOUT_GENERIC, [1, 3]), (TWO_BUTTON_LAYOUT_RIGHT_PAIR, [0, 2])]"

definition TWO_BUTTON_PLATE_KEYS :: "(string \<times> string) list" where
  "TWO_BUTTON_PLATE_KEYS =
    (case map_of TWO_BUTTON_LAYOUTS TWO_BUTTON_LAYOUT_RIGHT_PAIR of Some m \<Rightarrow> m | None \<Rightarrow> [])"

definition PER_PLATE_LAYOUT_TYPES :: "string list" where
  "PER_PLATE_LAYOUT_TYPES =
    [''04'', ''05'', ''3F'']"

definition DEVICE_TYPE_KEY_MAPPING :: "(string \<times> (string \<times> string) list) list" where
  "DEVICE_TYPE_KEY_MAPPING =
    [(''10'', TWO_BUTTON_PLATE_KEYS),
     (MOTION_DETECTOR_DEVICE_TYPE, [(''1A'', ''8''), (''1B'', ''C''), (''1C'', ''E''), (''1D'', ''A'')])]"

definition EASYWAVE_52_KEY_MAPPING :: "(string \<times> string) list" where
  "EASYWAVE_52_KEY_MAPPING =
    [(''1A'', ''88''),
     (''1B'', ''C8''),
     (''1C'', ''08''),
     (''1.1A'', ''80''),
     (''1.1B'', ''C0''),
     (''1.2A'', ''A0''),
     (''1.2B'', ''E0''),
     (''1.3A'', ''90''),
     (''1.3B'', ''D0''),
     (''1.4A'', ''B0''),
     (''1.4B'', ''F0''),
     (''1.5A'', ''30''),
     (''1.5B'', ''70''),
     (''2A'', ''8C''),
     (''2B'', ''CC''),
     (''2C'', ''0C''),
     (''2.1A'', ''84''),
     (''2.1B'', ''C4''),
     (''2.2A'', ''A4''),
     (''2.2B'', ''E4''),
     (''2.3A'', ''94''),
     (''2.3B'', ''D4''),
     (''2.4A'', ''B4''),
     (''2.4B'', ''F4''),
     (''2.5A'', ''34''),
     (''2.5B'', ''74''),
     (''3A'', ''8A''),
     (''3B'', ''CA''),
     (''3C'', ''0A''),
     (''3.1A'', ''82''),
     (''3.1B'', ''C2''),
     (''3.2A'', ''A2''),
     (''3.2B'', ''E2''),
     (''3.3A'', ''92''),
     (''3.3B'', ''D2''),
     (''3.4A'', ''B2''),
     (''3.4B'', ''F2''),
     (''3.5A'', ''32''),
     (''3.5B'', ''72''),
     (''4A'', ''8E''),
     (''4B'', ''CE''),
     (''4C'', ''0E''),
     (''4.1A'', ''86''),
     (''4.1B'', ''C6''),
     (''4.2A'', ''A6''),
     (''4.2B'', ''E6''),
     (''4.3A'', ''96''),
     (''4.3B'', ''D6''),
     (''4.4A'', ''B6''),
     (''4.4B'', ''F6''),
     (''4.5A'', ''36''),
     (''4.5B'', ''76'')]"

definition KEY_MAPPING_FIRST_BYTE :: "(int \<times> (string \<times> string) list) list" where
  "KEY_MAPPING_FIRST_BYTE =
    [(52, EASYWAVE_52_KEY_MAPPING)]"

definition KEY_MAPPING_MODULE :: "(int \<times> (int \<times> string) list) list" where
  "KEY_MAPPING_MODULE =
    [(1, [(1, ''8'')]),
     (2, [(0, ''0''), (1, ''8''), (2, ''4''), (3, ''C'')]),
     (4, [(0, ''0''), (1, ''8''), (2, ''4''), (3, ''C'')]),
     (8, [(0, ''0''), (1, ''8''), (2, ''4''), (3, ''C''), (4, ''2''), (5, ''A''), (6, ''6''), (7, ''E'')])]"

definition SWITCH_MODE_MAPPING :: "(int \<times> string) list" where
  "SWITCH_MODE_MAPPING =
    [(0, ''M01 (On / off)''),
     (1, ''M02 (On + Operating time)''),
     (2, ''M03 (Off + Operating time)''),
     (3, ''M04 (Pushbutton)''),
     (4, ''M05 (Impulse)''),
     (5, ''M06 (Delayed off (up to 2h))''),
     (6, ''M07 (Delayed on (up to 2h))''),
     (7, ''M08 (Flashing)''),
     (8, ''M11 (Delayed off (up to 50s))''),
     (9, ''M12 (Delayed on (up to 50s))''),
     (10, ''M13 (Sequencer on / off)''),
     (11, ''M14 (Light scene on)''),
     (12, ''M15 (Light scene on / off)'')]"

definition SWITCH_MODE_VENDOR_REF :: "(int \<times> string) list" where
  "SWITCH_MODE_VENDOR_REF =
    [(0, ''S_DB_DESC_SCHAKEL_M1''),
     (1, ''S_DB_DESC_SCHAKEL_M2''),
     (2, ''S_DB_DESC_SCHAKEL_M3''),
     (3, ''S_DB_DESC_SCHAKEL_M4''),
     (4, ''S_DB_DESC_SCHAKEL_M5''),
     (5, ''S_DB_DESC_SCHAKEL_M6''),
     (6, ''S_DB_DESC_SCHAKEL_M7''),
     (7, ''S_DB_DESC_SCHAKEL_M8''),
     (8, ''S_DB_DESC_SCHAKEL_M11''),
     (9, ''S_DB_DESC_SCHAKEL_M12''),
     (10, ''S_DB_DESC_SCHAKEL_M13''),
     (11, ''S_DB_DESC_SCHAKEL_M14''),
     (12, ''S_DB_DESC_SCHAKEL_M15'')]"

definition SWITCH_TIMER_MAPPING :: "(int \<times> string option list) list" where
  "SWITCH_TIMER_MAPPING =
    [(0, [Some ''10s'', Some ''0.5s'', Some ''0s'']),
     (1, [Some ''1m'', Some ''1s'', Some ''1s'']),
     (2, [Some ''2m'', Some ''2s'', Some ''2s'']),
     (3, [Some ''3m'', Some ''3s'', Some ''3s'']),
     (4, [Some ''4m'', Some ''4s'', None]),
     (5, [Some ''5m'', Some ''5s'', None]),
     (6, [Some ''6m'', Some ''6s'', None]),
     (7, [Some ''7m'', Some ''7s'', None]),
     (8, [Some ''8m'', Some ''8s'', None]),
     (9, [Some ''9m'', Some ''9s'', None]),
     (10, [Some ''15m'', Some ''15s'', None]),
     (11, [Some ''30m'', Some ''20s'', None]),
     (12, [Some ''45m'', Some ''25s'', None]),
     (13, [Some ''60m'', Some ''30s'', None]),
     (14, [Some ''90m'', Some ''40s'', None]),
     (15, [Some ''120m'', Some ''50s'', None])]"

definition ROLLER_MODE_MAPPING :: "(int \<times> string) list" where
  "ROLLER_MODE_MAPPING =
    [(0, ''M01 (Open - stop - close)''),
     (1, ''M02 (Open)''),
     (2, ''M03 (Close)''),
     (3, ''M04 (Stop)''),
     (4, ''M05 (Interface- and RF-control)''),
     (5, ''M06 (Open with operating time)''),
     (6, ''M07 (Close with operating time)'')]"

definition ROLLER_MODE_VENDOR_REF :: "(int \<times> string) list" where
  "ROLLER_MODE_VENDOR_REF =
    [(0, ''S_DB_DESC_ROLLUIK_M1''),
     (1, ''S_DB_DESC_ROLLUIK_M2''),
     (2, ''S_DB_DESC_ROLLUIK_M3''),
     (3, ''S_DB_DESC_ROLLUIK_M4''),
     (4, ''S_DB_DESC_ROLLUIK_M5''),
     (5, ''S_DB_DESC_ROLLUIK_M6''),
     (6, ''S_DB_DESC_ROLLUIK_M7'')]"

definition ROLLER_TIMER_MAPPING :: "(int \<times> string option list) list" where
  "ROLLER_TIMER_MAPPING =
    [(0, [Some ''Turned off'', None, None]),
     (1, [Some ''0,4 s (impuls)'', None, None]),
     (2, [Some ''6 s'', None, None]),
     (3, [Some ''8 s'', None, None]),
     (4, [Some ''10 s'', None, None]),
     (5, [Some ''12 s'', None, None]),
     (6, [Some ''14 s'', None, None]),
     (7, [Some ''16 s'', None, None]),
     (8, [Some ''18 s'', None, None]),
     (9, [Some ''20 s'', None, None]),
     (10, [Some ''25 s'', None, None]),
     (11, [Some ''30 s'', None, None]),
     (12, [Some ''40 s'', None, None]),
     (13, [Some ''50 s'', None, None]),
     (14, [Some ''60 s'', None, None]),
     (15, [Some ''90 s'', None, None])]"

definition ROLLER_T3_MAPPING :: "(int \<times> string) list" where
  "ROLLER_T3_MAPPING =
    [(0, ''-  / 1s''),
     (1, ''-  / 1s''),
     (2, ''-  / 2s''),
     (3, ''-  / 3s''),
     (4, ''8s / 1s''),
     (5, ''8s / 2s''),
     (6, ''8s / 3s''),
     (7, ''16s / 1s''),
     (8, ''16s / 2s''),
     (9, ''16s / 3s''),
     (10, ''30s / 1s''),
     (11, ''30s / 2s''),
     (12, ''30s / 3s''),
     (13, ''90s / 1s''),
     (14, ''90s / 2s''),
     (15, ''90s / 3s'')]"

definition DIMMER_MODE_MAPPING :: "(int \<times> string) list" where
  "DIMMER_MODE_MAPPING =
    [(0, ''M01 (Dim on/off (2 buttons))''),
     (1, ''M02 (Dim on/off (4 buttons))''),
     (2, ''M03 (Light scene on/off)''),
     (3, ''M04 (Light scene on)''),
     (4, ''M05 (On + Operating time)''),
     (5, ''M06 (Off + Operating time)''),
     (6, ''M07 (Delayed off)''),
     (7, ''M08 (Flashing)''),
     (8, ''M11 (Preset on/off)''),
     (9, ''M12 (Preset on)''),
     (10, ''M13 (Dim on/off (1 button))''),
     (11, ''M14 (Dim on/off memory (1 button))'')]"

definition DIMMER_MODE_VENDOR_REF :: "(int \<times> string) list" where
  "DIMMER_MODE_VENDOR_REF =
    [(0, ''S_DB_DESC_DIMMER_M1''),
     (1, ''S_DB_DESC_DIMMER_M2''),
     (2, ''S_DB_DESC_DIMMER_M3''),
     (3, ''S_DB_DESC_DIMMER_M4''),
     (4, ''S_DB_DESC_DIMMER_M5''),
     (5, ''S_DB_DESC_DIMMER_M6''),
     (6, ''S_DB_DESC_DIMMER_M7''),
     (7, ''S_DB_DESC_DIMMER_M8''),
     (8, ''S_DB_DESC_DIMMER_M11''),
     (9, ''S_DB_DESC_DIMMER_M12''),
     (10, ''S_DB_DESC_DIMMER_M13''),
     (11, ''S_DB_DESC_DIMMER_M14'')]"

definition DIMMER_TIMER_MAPPING :: "(int \<times> string option list) list" where
  "DIMMER_TIMER_MAPPING =
    [(0, [Some ''1,0 V'', Some ''T2=Dimming time on; Dimming time off=1s'', Some ''1 s'']),
     (1, [Some ''1,5 V'', Some ''T2=Dimming time off; Dimming time on=1s'', Some ''2 s'']),
     (2, [Some ''2,0 V'', Some ''T2=Dimming time off; Dimming time on'', Some ''4 s'']),
     (3, [Some ''2,5 V'', None, Some ''6 s'']),
     (4, [Some ''3,0 V'', None, Some ''8 s'']),
     (5, [Some ''3,0 V'', None, Some ''10 s'']),
     (6, [Some ''4,0 V'', None, Some ''15 s'']),
     (7, [Some ''4,5 V'', None, Some ''20 s'']),
     (8, [Some ''5,0 V'', None, Some ''30 s'']),
     (9, [Some ''5,5 V'', None, Some ''40 s'']),
     (10, [Some ''6,0 V'', None, Some ''50 s'']),
     (11, [Some ''6,5 V'', None, Some ''1 m'']),
     (12, [Some ''7,0 V'', None, Some ''2 m'']),
     (13, [Some ''7,5 V'', None, Some ''3 m'']),
     (14, [Some ''8,0 V'', None, Some ''4 m'']),
     (15, [Some ''8,5 V'', None, Some ''5 m'']),
     (16, [Some ''9,5 V'', None, None]),
     (17, [Some ''10,0 V'', None, None])]"

definition DIMMER_T1_2 :: "string list" where
  "DIMMER_T1_2 =
    [''0 s'',
     ''1 s'',
     ''2 s'',
     ''3 s'']"

definition DIMMER_T1_3 :: "string list" where
  "DIMMER_T1_3 =
    [''10 s'',
     ''1 m'',
     ''2 m'',
     ''3 m'',
     ''4 m'',
     ''5 m'',
     ''6 m'',
     ''7 m'',
     ''8 m'',
     ''9 m'',
     ''15 m'',
     ''30 m'',
     ''45 m'',
     ''60 m'',
     ''90 m'',
     ''120 m'']"

definition DIMMER_T1_1 :: "string list" where
  "DIMMER_T1_1 =
    [''T2=Dimming time on ; Dimming time off=1s'',
     ''T2=Dimming time off ; Dimming time on=1s'',
     ''T2=Dimming time off=Dimming time on'']"

definition DIMMER_PRESET_LEVEL :: "string list" where
  "DIMMER_PRESET_LEVEL =
    [''1,0 V'',
     ''1,5 V'',
     ''2,0 V'',
     ''2,5 V'',
     ''3,0 V'',
     ''3,5 V'',
     ''4,0 V'',
     ''4,5 V'',
     ''5,0 V'',
     ''5,5 V'',
     ''6,0 V'',
     ''6,5 V'',
     ''7,0 V'',
     ''8,0 V'',
     ''9,0 V'',
     ''10,0 V'']"

definition DIMMER_T2_RAMP :: "string list" where
  "DIMMER_T2_RAMP =
    [''1 s'',
     ''2 s'',
     ''4 s'',
     ''6 s'',
     ''8 s'',
     ''10 s'',
     ''15 s'',
     ''20 s'',
     ''30 s'',
     ''40 s'',
     ''50 s'',
     ''1 m'',
     ''2 m'',
     ''3 m'',
     ''4 m'',
     ''5 m'']"

definition DIMMER_MODE_T1_LOOKUP :: "(int \<times> string list) list" where
  "DIMMER_MODE_T1_LOOKUP =
    [(0, DIMMER_T1_1),
     (1, DIMMER_T1_1),
     (2, DIMMER_T1_1),
     (4, DIMMER_T1_2),
     (5, DIMMER_T1_2),
     (6, DIMMER_T1_3),
     (8, DIMMER_PRESET_LEVEL),
     (9, DIMMER_PRESET_LEVEL)]"

definition RGB_MODE_NAMES :: "(int \<times> string) list" where
  "RGB_MODE_NAMES =
    [(1, ''Set luminance (2 buttons)''),
     (4, ''Scene on''),
     (5, ''On with control time''),
     (6, ''Off with control time''),
     (7, ''Delayed off''),
     (8, ''Flasher''),
     (12, ''Preset on''),
     (13, ''Dim on/off (1 button)''),
     (15, ''Delayed off to last value''),
     (16, ''Set colour and luminance''),
     (17, ''Change colour + on/off''),
     (18, ''Start/stop scenario + change speed''),
     (19, ''Start/stop scenario''),
     (20, ''Start scenario''),
     (21, ''Colour (1 button)'')]"

definition RGB_MODE_KEYS :: "(int \<times> int) list" where
  "RGB_MODE_KEYS =
    [(1, 2), (4, 1), (5, 1), (6, 1), (7, 1), (8, 1), (12, 1), (13, 1), (15, 1), (16, 4), (17, 2), (18, 4), (19, 2), (20, 1), (21, 1)]"

definition RGB_MONO_MODES :: "int list" where
  "RGB_MONO_MODES =
    [1, 4, 5, 6, 7, 8, 12, 13, 15]"

definition RGB_MODE_VENDOR_REF :: "(int \<times> string) list" where
  "RGB_MODE_VENDOR_REF =
    map (\<lambda>(number, _). (number, ''S_DB_DESC_DIMMER_COLOR_M'' @ fmt_dec 0 number)) RGB_MODE_NAMES"

definition get_module_type_from_device_type :: "string \<Rightarrow> string" where
  "get_module_type_from_device_type device_type_hex =
     (let normalized_type = upper (py_strip device_type_hex);
          category = (case map_of DEVICE_TYPES normalized_type of
                        None \<Rightarrow> [] | Some d \<Rightarrow> lower (dt_category d))
      in if category \<noteq> ''module'' then ''other_module''
         else (case map_of MODULE_TYPE_BY_DEVICE_TYPE normalized_type of
                 None \<Rightarrow> ''other_module'' | Some t \<Rightarrow> t))"

definition rgb_mode_label :: "int \<Rightarrow> string" where
  "rgb_mode_label mode_number = (case map_of RGB_MODE_NAMES mode_number of
       Some name \<Rightarrow> ''M'' @ fmt_dec 2 mode_number @ '' ('' @ name @ '')''
     | None \<Rightarrow> ''M'' @ fmt_dec 2 mode_number)"

lemmas key_tables = KEY_MAPPING_def PC_LOGIC_KEY_MAPPING_def KEY_MAPPING_MODULE_def
lemmas mode_tables = SWITCH_MODE_MAPPING_def ROLLER_MODE_MAPPING_def DIMMER_MODE_MAPPING_def

end
