(* ===== verification/Addresses.thy ===== *)
theory Addresses
  imports Tables
begin

section \<open>Bus addresses and key codes\<close>

text \<open>
  How a key, its plate and its frame on the bus are related: the bit reversals and key codes
  of \<open>protocol.py\<close>, and \<open>convert_nikobus_address\<close>, \<open>record_bus_address\<close>,
  \<open>get_button_address\<close>, the virtual-button classes, the PC-Logic inputs and the calendar
  channels of \<open>discovery/protocol.py\<close>.
  The code reaches the frame of a key along three ways (from plate and label, from the
  inventory's nibble offsets, from a link record); the theorems show that they agree, and that
  each can be read back.
\<close>

subsection \<open>Binary text\<close>

fun to_bin :: "nat \<Rightarrow> string" where
  "to_bin n = (if n < 2 then [hex_dig n] else to_bin (n div 2) @ [hex_dig (n mod 2)])"

declare to_bin.simps [simp del]

fun binw :: "nat \<Rightarrow> nat \<Rightarrow> string" where
  "binw 0 n = []"
| "binw (Suc w) n = binw w (n div 2) @ [hex_dig (n mod 2)]"

definition fmt_bin :: "nat \<Rightarrow> int \<Rightarrow> string" where
  \<comment> \<open>\<open>f"{v:0wb}"\<close>\<close>
  "fmt_bin w v = (if v < 0 then CHR ''-'' # zfill (w - 1) (to_bin (nat (- v))) else zfill w (to_bin (nat v)))"

fun bin_digits :: "int \<Rightarrow> string \<Rightarrow> int option" where
  "bin_digits acc [] = Some acc"
| "bin_digits acc (c # s) =
     (if c = CHR ''0'' then bin_digits (2 * acc) s
      else if c = CHR ''1'' then bin_digits (2 * acc + 1) s else None)"

definition py_int2 :: "string \<Rightarrow> int option" where
  \<comment> \<open>\<open>int(s, 2)\<close> on text of the characters \<open>0\<close>, \<open>1\<close> and \<open>-\<close> that does not start with a sign\<close>
  "py_int2 s = (if s = [] then None else bin_digits 0 s)"

subsection \<open>Bit reversal and key codes (\<open>protocol.py\<close>)\<close>

fun reverse_bits_loop :: "nat \<Rightarrow> int \<Rightarrow> int \<Rightarrow> int" where
  "reverse_bits_loop 0 value reversed_value = reversed_value"
| "reverse_bits_loop (Suc w) value reversed_value =
     reverse_bits_loop w (drop_bit 1 value) (push_bit 1 reversed_value OR (value AND 1))"

definition reverse_bits :: "int \<Rightarrow> nat \<Rightarrow> int" where
  "reverse_bits value width = reverse_bits_loop width value 0"

definition reverse_24bit_to_hex :: "int \<Rightarrow> string res" where
  "reverse_24bit_to_hex n =
     res_bind (of_option ValueError (py_int2 (rev (fmt_bin 24 n)))) (\<lambda>reversed_int.
       Inr (fmt_hex 6 reversed_int))"

definition key_code :: "int \<Rightarrow> string \<Rightarrow> int res" where
  "key_code channels button = (case map_of KEY_MAPPING channels of
       None \<Rightarrow> Inl ValueError
     | Some mapping \<Rightarrow> (case map_of mapping button of
           None \<Rightarrow> Inl ValueError
         | Some h \<Rightarrow> res_bind (of_option ValueError (py_int16 h)) (\<lambda>nibble.
             Inr ((drop_bit 3 nibble AND 1) OR push_bit 1 (drop_bit 2 nibble AND 1)
                  OR push_bit 2 (drop_bit 1 nibble AND 1)))))"

definition nikobus_to_button_address :: "string \<Rightarrow> string \<Rightarrow> int option \<Rightarrow> string res" where
  "nikobus_to_button_address hex_address button channels0 =
     (let channels = (case channels0 of Some c \<Rightarrow> c
                      | None \<Rightarrow> if starts_with button ''2'' then 8 else 4)
      in res_bind (of_option ValueError (py_int16 hex_address)) (\<lambda>n.
           let plate0 = n AND 0x3FFFFF;
               plate = (if channels = 8 then plate0 AND 0x3FFFFE else plate0)
           in res_bind (key_code channels button) (\<lambda>code.
                let combined = push_bit 2 plate OR code
                in Inr (''#N'' @ fmt_hex 6 (reverse_bits combined 24)))))"

definition nikobus_button_to_module :: "string \<Rightarrow> int \<Rightarrow> (string \<times> string) res" where
  "nikobus_button_to_module button_hex channels =
     (if \<not> starts_with button_hex ''#N'' \<or> length button_hex \<noteq> 8 then Inl ValueError
      else res_bind (of_option ValueError (py_int16 (drop 2 button_hex))) (\<lambda>v.
        let combined = reverse_bits v 24;
            plate0 = drop_bit 2 combined;
            code0 = combined AND 7;
            plate = (if channels = 8 then plate0 AND 0x3FFFFE else plate0);
            code = (if channels = 8 then code0 else code0 AND 3);
            mapping = (case map_of KEY_MAPPING channels of None \<Rightarrow> [] | Some m \<Rightarrow> m);
            label = (case find (\<lambda>(b, _). key_code channels b = Inr code) mapping of
                       None \<Rightarrow> ''UNKNOWN'' | Some (b, _) \<Rightarrow> b)
        in Inr (fmt_hex 6 plate, label)))"

subsection \<open>Discovery addresses (\<open>discovery/protocol.py\<close>)\<close>

fun convert_loop :: "nat \<Rightarrow> nat \<Rightarrow> int \<Rightarrow> int \<Rightarrow> int" where
  "convert_loop 0 i address nikobus_address = nikobus_address"
| "convert_loop (Suc k) i address nikobus_address =
     convert_loop k (Suc i) address (push_bit 1 nikobus_address OR (drop_bit i address AND 1))"

definition convert_nikobus_address :: "string \<Rightarrow> string" where
  "convert_nikobus_address address_string = (case py_int16 address_string of
       None \<Rightarrow> ''['' @ address_string @ '']''
     | Some addr \<Rightarrow>
         if addr < 0 \<or> addr > 0xFFFFFF then ''['' @ address_string @ '']''
         else let nikobus_address = push_bit 1 (convert_loop 21 0 addr 0);
                  button = drop_bit 21 addr AND 7;
                  final_address = nikobus_address + button
              in fmt_hex 6 final_address)"

definition virtual_button_class :: "string \<Rightarrow> string option" where
  "virtual_button_class physical = (case py_int16 physical of
       None \<Rightarrow> None
     | Some v \<Rightarrow>
         if (0x380000 \<le> v \<and> v \<le> 0x38FFFF) \<or> (0x600000 \<le> v \<and> v \<le> 0x6FFFFF) then Some ''pc_logic''
         else if 0x3CF000 \<le> v \<and> v \<le> 0x3CFFFF then Some ''bank''
         else None)"

definition add_first_nibble :: "string \<Rightarrow> string \<Rightarrow> string option" where
  \<comment> \<open>the first digit of a converted address shifted by a key's offset, \<open>None\<close> where it is no digit\<close>
  "add_first_nibble converted add = (case converted of
       [] \<Rightarrow> None
     | c # rest \<Rightarrow> (case (py_int16 [c], py_int16 add) of
           (Some nibble, Some a) \<Rightarrow> Some (fmt_hex 1 ((nibble + a) AND 0xF) @ rest)
         | _ \<Rightarrow> None))"

definition record_bus_address :: "string \<Rightarrow> int option \<Rightarrow> string option" where
  "record_bus_address physical key_raw = (case key_raw of
       None \<Rightarrow> None
     | Some k \<Rightarrow> (case map_of KEY_MAPPING_MODULE (if k \<ge> 4 then 8 else 4) of
           None \<Rightarrow> None
         | Some m \<Rightarrow> (case map_of m k of
               None \<Rightarrow> None
             | Some add \<Rightarrow> add_first_nibble (convert_nikobus_address physical) add)))"

definition motion_detector_bus_addresses :: "string \<Rightarrow> (string \<times> string) list" where
  "motion_detector_bus_addresses physical =
     (let converted = convert_nikobus_address physical in
      if py_int16 (take 1 converted) = None then []
      else (case map_of DEVICE_TYPE_KEY_MAPPING MOTION_DETECTOR_DEVICE_TYPE of
              None \<Rightarrow> []
            | Some layout \<Rightarrow> map (\<lambda>(key, role). (role,
                 case map_of layout key of
                   None \<Rightarrow> []
                 | Some add \<Rightarrow> (case add_first_nibble converted add of None \<Rightarrow> [] | Some a \<Rightarrow> a)))
               MOTION_DETECTOR_KEY_ROLES))"

definition virtual_plate_address :: "string \<Rightarrow> string res" where
  "virtual_plate_address physical =
     res_bind (of_option ValueError (py_int16 (convert_nikobus_address physical))) (\<lambda>n.
       let base = n AND 0x3FFFFF in Inr (convert_nikobus_address (fmt_hex 6 base)))"

definition derive_pc_logic_input_physicals :: "string \<Rightarrow> int \<Rightarrow> string \<Rightarrow> string list res" where
  "derive_pc_logic_input_physicals pc_logic_address channel_count module_type =
     (case py_int16 pc_logic_address of
        None \<Rightarrow> Inl ValueError
      | Some addr \<Rightarrow>
          if \<not> (0 \<le> addr \<and> addr \<le> 0xFFFF) then Inl ValueError
          else if \<not> (1 \<le> channel_count \<and> channel_count \<le> 16) then Inl ValueError
          else if module_type = ''interface_module''
          then Inr (map (\<lambda>slot. fmt_hex 6 (0x180000 + addr + slot)) [1..channel_count])
          else let base = 0x600000 OR push_bit 4 (drop_bit 1 addr)
               in Inr (map (\<lambda>slot. fmt_hex 6 (base OR slot)) [1..channel_count]))"

definition pc_logic_address_for_input :: "string \<Rightarrow> string option" where
  "pc_logic_address_for_input input_physical = (case py_int16 input_physical of
       None \<Rightarrow> None
     | Some addr \<Rightarrow>
         if \<not> (0 \<le> addr \<and> addr \<le> 0xFFFFFF) then None
         else if drop_bit 20 addr AND 0xF \<noteq> 6 then None
         else let slot = addr AND 0x0F in
           if \<not> (1 \<le> slot \<and> slot \<le> 16) then None
           else let half_addr = drop_bit 4 addr AND 0xFFFF;
                    pc_logic = push_bit 1 half_addr
                in if \<not> (0 \<le> pc_logic \<and> pc_logic \<le> 0xFFFF) then None
                   else Some (fmt_hex 4 pc_logic))"

definition pc_logic_input_slot_index :: "string \<Rightarrow> int option" where
  "pc_logic_input_slot_index input_physical = (case py_int16 input_physical of
       None \<Rightarrow> None
     | Some addr \<Rightarrow>
         if drop_bit 20 addr AND 0xF \<noteq> 6 then None
         else let slot = addr AND 0x0F in if \<not> (1 \<le> slot \<and> slot \<le> 16) then None else Some slot)"

definition CALENDAR_CHANNEL_BASE :: int where "CALENDAR_CHANNEL_BASE = 0xE00320"
definition CALENDAR_CHANNEL_COUNT :: int where "CALENDAR_CHANNEL_COUNT = 100"

definition reverse_24 :: "int \<Rightarrow> int" where
  \<comment> \<open>its loop is the one of \<open>_reverse_bits\<close> at width 24\<close>
  "reverse_24 value = reverse_bits_loop 24 value 0"

definition calendar_channel_from_link :: "string \<Rightarrow> (string \<times> string) option" where
  "calendar_channel_from_link raw_hex = (case py_int16 raw_hex of
       None \<Rightarrow> None
     | Some n \<Rightarrow>
         let value = reverse_24 (n AND 0xFFFFFF);
             offset = value - CALENDAR_CHANNEL_BASE
         in if \<not> (0 \<le> offset \<and> offset < 4 * CALENDAR_CHANNEL_COUNT) then None
            else let number = offset div 4; half = offset mod 4 in
              if half \<noteq> 0 \<and> half \<noteq> 2 then None
              else Some (''CH'' @ fmt_dec 3 (number + 1) @ (if half = 0 then ''A'' else ''B''), fmt_hex 6 value))"

definition get_button_address :: "string \<Rightarrow> string option" where
  "get_button_address payload_hex = (case py_int16 payload_hex of
       None \<Rightarrow> None
     | Some n \<Rightarrow>
         let bin_str = fmt_bin 24 n;
             modified = take 4 bin_str @ slice 4 6 bin_str @ drop 8 bin_str;
             group1 = take 6 modified;
             group2 = slice 6 14 modified;
             group3 = drop 14 modified;
             new_bin = group3 @ group2 @ group1
         in map_option (fmt_hex 6) (py_int2 new_bin))"

definition get_push_button_address ::
    "int option \<Rightarrow> string option \<Rightarrow> (string \<Rightarrow> int option res) option \<Rightarrow> string option \<times> string option" where
  \<comment> \<open>the lookup is the host's; an exception it raises counts as an unknown button\<close>
  "get_push_button_address key_index button_address get_channels =
     (case (key_index, button_address) of
        (Some k, Some b) \<Rightarrow>
          (let num_channels = (case get_channels of
                 None \<Rightarrow> None
               | Some f \<Rightarrow> (case f b of Inl _ \<Rightarrow> None | Inr r \<Rightarrow> r))
           in case num_channels of
                None \<Rightarrow> (None, Some b)
              | Some nc \<Rightarrow> (case map_of KEY_MAPPING_MODULE nc of
                    None \<Rightarrow> (None, Some b)
                  | Some mapping \<Rightarrow> (case map_of mapping k of
                        None \<Rightarrow> (None, Some b)
                      | Some add \<Rightarrow> (add_first_nibble (convert_nikobus_address b) add, Some b))))
      | _ \<Rightarrow> (None, button_address))"

definition is_known_button_canonical :: "string option \<Rightarrow> (string \<Rightarrow> int option res) option \<Rightarrow> bool" where
  "is_known_button_canonical button_address get_channels =
     (case (button_address, get_channels) of
        (Some b, Some f) \<Rightarrow>
          if b = [] then True
          else (case f b of
              Inl _ \<Rightarrow> True
            | Inr (Some _) \<Rightarrow> True
            | Inr None \<Rightarrow> (case py_int16 b of
                  None \<Rightarrow> True
                | Some n \<Rightarrow> (case f (fmt_hex 6 ((n - 1) AND 0xFFFFFF)) of
                      Inl _ \<Rightarrow> True
                    | Inr r \<Rightarrow> r = Some 8)))
      | _ \<Rightarrow> True)"

function blocks_to_sections_loop :: "int \<Rightarrow> int \<Rightarrow> (string \<times> int list) list" where
  "blocks_to_sections_loop block last_block =
     (if block \<le> last_block then
        let sub = drop_bit 8 block;
            end_block = min last_block (push_bit 8 sub OR 0xFF)
        in (fmt_hex 2 sub, [block AND 0xFF .. end_block AND 0xFF])
             # blocks_to_sections_loop (end_block + 1) last_block
      else [])"
  by pat_completeness auto

lemma section_end: "push_bit 8 (drop_bit 8 block) OR 0xFF = (block OR 0xFF :: int)"
proof (rule bit_eqI)
  fix n :: nat
  have m: "bit (0xFF :: int) n = (n < 8)"
    using bit_mask_iff [of 8 n, where ?'a = int] by (simp add: mask_eq_exp_minus_1)
  show "bit (push_bit 8 (drop_bit 8 block) OR 0xFF) n = bit (block OR 0xFF) n"
    unfolding bit_or_iff m by (auto simp: bit_push_bit_iff bit_drop_bit_eq)
qed

lemma block_below_section_end: "block \<le> (push_bit 8 (drop_bit 8 block) OR 0xFF :: int)"
  unfolding section_end by (rule or_greater_eq) simp

termination blocks_to_sections_loop
proof (relation "measure (\<lambda>(block, last_block). nat (last_block + 1 - block))")
  fix block last_block sub end_block :: int
  assume "block \<le> last_block" "sub = drop_bit 8 block"
    and "end_block = min last_block (push_bit 8 sub OR 0xFF)"
  then have "block \<le> end_block" using block_below_section_end [of block] by simp
  with \<open>block \<le> last_block\<close>
  show "((end_block + 1, last_block), block, last_block) \<in> measure (\<lambda>(block, last_block). nat (last_block + 1 - block))"
    by simp
qed simp

definition blocks_to_sections :: "int \<Rightarrow> int \<Rightarrow> (string \<times> int list) list" where
  "blocks_to_sections first_block last_block = blocks_to_sections_loop (max first_block 0) last_block"

subsection \<open>Bits of the reversals\<close>

lemma bit_reverse_bits_loop:
  "bit (reverse_bits_loop w v r) i = (if i < w then bit v (w - 1 - i) else bit r (i - w))"
proof (induction w arbitrary: v r i)
  case 0
  then show ?case by simp
next
  case (Suc w)
  consider "i < w" | "i = w" | "w < i" by linarith
  then show ?case
  proof cases
    case 1
    then have "Suc (w - Suc i) = w - i" by simp
    with 1 show ?thesis by (simp add: Suc bit_drop_bit_eq)
  next
    case 2
    then show ?thesis by (simp add: Suc bit_simps bit_0 even_or_iff even_and_iff del: push_bit_Suc)
  next
    case 3
    then have "Suc 0 \<le> i - w" by simp
    with 3 show ?thesis by (simp add: Suc bit_simps del: push_bit_Suc)
  qed
qed

lemma bit_reverse_bits [simp]: "bit (reverse_bits v w) i \<longleftrightarrow> i < w \<and> bit v (w - 1 - i)"
  by (simp add: reverse_bits_def bit_reverse_bits_loop)

lemma take_bit_reverse_bits: "take_bit w (reverse_bits v w) = reverse_bits v w"
  by (rule bit_eqI) (simp add: bit_take_bit_iff)

lemma reverse_bits_bounds: "0 \<le> reverse_bits v w" "reverse_bits v w < 2 ^ w"
  by (metis take_bit_reverse_bits take_bit_nonnegative, metis take_bit_reverse_bits take_bit_int_less_exp)

lemma reverse_bits_reverse: "reverse_bits (reverse_bits v w) w = take_bit w v"
  by (rule bit_eqI) (auto simp: bit_take_bit_iff)

lemma bits_zero_above: "0 \<le> (v :: int) \<Longrightarrow> v < 2 ^ w \<Longrightarrow> w \<le> n \<Longrightarrow> \<not> bit v n"
  by (metis bit_take_bit_iff linorder_not_less take_bit_int_eq_self)

lemma or_shift_plus: "0 \<le> k \<Longrightarrow> k < 2 ^ j \<Longrightarrow> push_bit j p OR k = p * 2 ^ j + (k :: int)"
proof -
  assume k: "0 \<le> k" "k < 2 ^ j"
  have "push_bit j p + k = push_bit j p OR k"
    by (rule disjunctive_add) (auto simp: bit_push_bit_iff bits_zero_above [OF k])
  then show ?thesis by (simp add: push_bit_eq_mult)
qed

lemma reverse_bits_concat:
  assumes "0 \<le> k" "k < 2 ^ j"
  shows "reverse_bits (push_bit j p OR k) (w + j) = reverse_bits p w + reverse_bits k j * 2 ^ w"
proof -
  have "reverse_bits (push_bit j p OR k) (w + j) = push_bit w (reverse_bits k j) OR reverse_bits p w"
  proof (rule bit_eqI)
    fix n :: nat
    have a: "n < w \<Longrightarrow> \<not> bit k (w + j - Suc n)" by (rule bits_zero_above [OF assms]) linarith
    have b: "\<not> n < w \<Longrightarrow> n < w + j \<Longrightarrow> w + j - Suc n = j - Suc (n - w)" by linarith
    have c: "n < w \<Longrightarrow> w + j - Suc n - j = w - Suc n" by linarith
    show "bit (reverse_bits (push_bit j p OR k) (w + j)) n =
      bit (push_bit w (reverse_bits k j) OR reverse_bits p w) n"
      using a b c by (cases "n < w") (auto simp: bit_or_iff bit_push_bit_iff)
  qed
  also have "\<dots> = reverse_bits k j * 2 ^ w + reverse_bits p w"
    by (rule or_shift_plus) (rule reverse_bits_bounds)+
  finally show ?thesis by simp
qed

lemma bit_convert_loop:
  "bit (convert_loop k i a n) j = (if j < k then bit a (i + (k - 1 - j)) else bit n (j - k))"
proof (induction k arbitrary: i n j)
  case 0
  then show ?case by simp
next
  case (Suc k)
  consider "j < k" | "j = k" | "k < j" by linarith
  then show ?case
  proof cases
    case 1
    then have "Suc (i + (k - Suc j)) = i + (k - j)" by simp
    with 1 show ?thesis by (simp add: Suc)
  next
    case 2
    then show ?thesis by (simp add: Suc bit_simps bit_0 even_drop_bit_iff_not_bit even_or_iff even_and_iff del: push_bit_Suc)
  next
    case 3
    then have "Suc 0 \<le> j - k" by simp
    with 3 show ?thesis by (simp add: Suc bit_simps del: push_bit_Suc)
  qed
qed

lemma convert_loop_reverse: "convert_loop w 0 a 0 = reverse_bits a w"
  by (rule bit_eqI) (simp add: bit_convert_loop)


subsection \<open>Digits of addresses\<close>

lemma hexw_1: "hexw (Suc 0) n = [hex_dig (n mod 16)]"
  by simp

lemma hexw_6_head: "hexw 6 n = hex_dig (n div 16 ^ 5 mod 16) # hexw 5 n"
  using hexw_append [of 1 5 n] by simp

lemma fmt_hex_int: "0 \<le> v \<Longrightarrow> v < 2 ^ (4 * w) \<Longrightarrow> 0 < w \<Longrightarrow> fmt_hex w v = hexw w (nat v)"
  by (rule fmt_hex_nonneg) (simp_all add: power_mult)

lemma add_first_nibble_hexw:
  assumes "v < 16 ^ 6" "py_int16 h = Some (int a)" "v div 16 ^ 5 + a < 16"
  shows "add_first_nibble (hexw 6 v) h = Some (hexw 6 (v + a * 16 ^ 5))"
proof -
  let ?d = "v div 16 ^ 5"
  have d: "?d mod 16 = ?d" using assms(3) by simp
  have 1: "py_int16 [hex_dig ?d] = Some (int ?d)"
    using py_int16_hexw [of 1 ?d] assms(3) by simp
  have "(int ?d + int a) AND 15 = take_bit 4 (int ?d + int a)"
    by (simp add: take_bit_eq_mask mask_eq_exp_minus_1)
  also have "\<dots> = int (?d + a)" using assms(3) by (simp add: take_bit_int_eq_self)
  finally have 2: "fmt_hex (Suc 0) ((int ?d + int a) AND 15) = [hex_dig (?d + a)]"
    using assms(3) fmt_hex_nat [of "?d + a" 1] by simp
  have "hexw 5 (v + a * 16 ^ 5) = hexw 5 v"
    using hexw_mod [of 5 "v + a * 16 ^ 5"] hexw_mod [of 5 v] by simp
  moreover have "(v + a * 16 ^ 5) div 16 ^ 5 = ?d + a" by simp
  ultimately have 3: "hexw 6 (v + a * 16 ^ 5) = hex_dig (?d + a) # hexw 5 v"
    using assms(3) hexw_6_head [of "v + a * 16 ^ 5"] by (simp add: add.commute)
  have 4: "hexw 6 v = hex_dig ?d # hexw 5 v" using hexw_6_head [of v] d by simp
  show ?thesis unfolding 3 4 add_first_nibble_def
    by (simp only: list.case option.case prod.case 1 2 [unfolded One_nat_def [symmetric]] assms(2)) simp
qed

lemma convert_nikobus_address_plate:
  assumes "py_int16 t = Some (int p)" "p < 2 ^ 22"
  shows "convert_nikobus_address t = hexw 6 (nat (reverse_bits (int p) 22))"
proof -
  let ?p = "int p"
  have p: "0 \<le> ?p" "?p < 2 ^ 22" using assms(2) by simp_all
  have final: "push_bit 1 (reverse_bits ?p 21) + (drop_bit 21 ?p AND 7) = reverse_bits ?p 22"
  proof -
    have "push_bit 1 (reverse_bits ?p 21) + (drop_bit 21 ?p AND 7) =
        push_bit 1 (reverse_bits ?p 21) OR (drop_bit 21 ?p AND 7)"
    proof (rule disjunctive_add)
      fix n
      show "\<not> bit (push_bit 1 (reverse_bits ?p 21)) n \<or> \<not> bit (drop_bit 21 ?p AND 7) n"
        using bits_zero_above [OF p, of "21 + n"]
        by (cases n) (auto simp: bit_simps bit_0 simp del: push_bit_Suc)
    qed
    also have "\<dots> = reverse_bits ?p 22"
    proof (rule bit_eqI)
      fix n
      have "(7 :: int) = mask 3" by (simp add: mask_eq_exp_minus_1)
      then have 7: "bit (7 :: int) n = (n < 3)" by (simp only: bit_mask_iff) simp
      have "bit ?p (21 + n) \<Longrightarrow> n = 0" using bits_zero_above [OF p, of "21 + n"] by (cases n) auto
      then show "bit (push_bit 1 (reverse_bits ?p 21) OR (drop_bit 21 ?p AND 7)) n = bit (reverse_bits ?p 22) n"
        by (cases n) (auto simp: bit_or_iff bit_and_iff bit_push_bit_iff bit_drop_bit_eq bit_reverse_bits 7 simp del: push_bit_Suc bit_0)
    qed
    finally show ?thesis .
  qed
  have "\<not> ?p < 0" "\<not> 0xFFFFFF < ?p" using assms(2) by simp_all
  moreover have "fmt_hex 6 (reverse_bits ?p 22) = hexw 6 (nat (reverse_bits ?p 22))"
    using reverse_bits_bounds [of ?p 22] by (intro fmt_hex_int) simp_all
  ultimately show ?thesis
    unfolding convert_nikobus_address_def assms(1) by (simp add: convert_loop_reverse final Let_def del: push_bit_Suc One_nat_def)
qed

subsection \<open>The key tables\<close>

definition key_entry_ok :: "int \<Rightarrow> (string \<times> string) list \<Rightarrow> string \<Rightarrow> string \<Rightarrow> bool" where
  "key_entry_ok c m l h = (case (py_int16 h, key_code c l) of
      (Some a, Inr k) \<Rightarrow> a \<in> {0..15} \<and> k \<in> {0 ..< (if c = 8 then 8 else 4)} \<and>
        a = (if c = 8 then 2 * reverse_bits k 3 else 4 * reverse_bits k 2) \<and>
        find (\<lambda>(b, _). key_code c b = Inr k) m = Some (l, h)
    | _ \<Rightarrow> False)"

lemma key_tables_ok: "list_all (\<lambda>(c, m). list_all (\<lambda>(l, h). key_entry_ok c m l h) m) KEY_MAPPING"
  by (simp add: key_tables key_entry_ok_def key_code_def eval_simps reverse_bits_def eval_nat_numeral)

lemma key_entryE:
  assumes "map_of KEY_MAPPING c = Some m" "map_of m l = Some h"
  obtains a k where "py_int16 h = Some (int a)" "a < 16" "key_code c l = Inr k"
    "0 \<le> k" "k < (if c = 8 then 8 else 4)"
    "int a = (if c = 8 then 2 * reverse_bits k 3 else 4 * reverse_bits k 2)"
    "find (\<lambda>(b, _). key_code c b = Inr k) m = Some (l, h)"
proof -
  have "key_entry_ok c m l h"
    using key_tables_ok map_of_SomeD [OF assms(1)] map_of_SomeD [OF assms(2)]
    by (force simp: list_all_iff)
  then obtain a k where "py_int16 h = Some a" "key_code c l = Inr k" "a \<in> {0..15}"
    "k \<in> {0 ..< (if c = 8 then 8 else 4)}"
    "a = (if c = 8 then 2 * reverse_bits k 3 else 4 * reverse_bits k 2)"
    "find (\<lambda>(b, _). key_code c b = Inr k) m = Some (l, h)"
    by (auto simp: key_entry_ok_def split: option.splits sum.splits)
  then show ?thesis by (intro that [of "nat a" k]) auto
qed

lemma key_code_labels: "map_of KEY_MAPPING c = Some m \<Longrightarrow> map_of m l = None \<Longrightarrow> key_code c l = Inl ValueError"
  by (simp add: key_code_def)

text \<open>
  The plate and the code of a key, packed and reversed, are the reversed plate with the key's
  nibble added to its first digit; on an 8-channel plate the lowest plate bit is the third code bit.
\<close>

lemma and_even_mask: "(x AND 0x3FFFFF) AND 0x3FFFFE = (x AND 0x3FFFFE :: int)"
proof -
  have "(0x3FFFFF :: int) AND 0x3FFFFE = 0x3FFFFE" by simp
  then show ?thesis by (simp add: and.assoc)
qed

lemma plate_mask: "0 \<le> p \<Longrightarrow> p < 2 ^ 22 \<Longrightarrow> p AND 0x3FFFFF = (p :: int)"
proof -
  assume "0 \<le> p" "p < 2 ^ 22"
  moreover have "(0x3FFFFF :: int) = mask 22" by (simp add: mask_eq_exp_minus_1)
  ultimately show ?thesis by (simp only: take_bit_eq_mask [symmetric] take_bit_int_eq_self)
qed

lemma even_plate_mask:
  assumes "0 \<le> p" "p < 2 ^ 22" "even p"
  shows "p AND 0x3FFFFE = (p :: int)"
proof (rule bit_eqI)
  fix n
  have "(0x3FFFFE :: int) = push_bit 1 (mask 21)" by (simp add: mask_eq_exp_minus_1)
  then have m: "bit (0x3FFFFE :: int) n = (1 \<le> n \<and> n < 22)"
    by (simp only: bit_push_bit_iff bit_mask_iff) auto
  have "\<not> bit p 0" using assms(3) by (simp add: bit_0)
  moreover have "\<not> n < 22 \<Longrightarrow> \<not> bit p n" by (rule bits_zero_above [OF assms(1,2)]) simp
  ultimately show "bit (p AND 0x3FFFFE) n = bit p n"
    unfolding bit_and_iff m by (cases n) auto
qed

lemma reverse_key_small:
  assumes "0 \<le> k" "k < 4"
  shows "reverse_bits (push_bit 2 p OR k) 24 = reverse_bits p 22 + 4 * reverse_bits k 2 * 16 ^ 5"
  using reverse_bits_concat [of k 2 p 22] assms by simp

lemma reverse_key_wide:
  assumes "0 \<le> k" "k < 8" "even p"
  shows "reverse_bits (push_bit 2 p OR k) 24 = reverse_bits p 22 + 2 * reverse_bits k 3 * 16 ^ 5"
proof -
  obtain q where q: "p = push_bit 1 q" using assms(3) by (auto elim!: evenE)
  have "reverse_bits p 22 = reverse_bits q 21"
    using reverse_bits_concat [of 0 1 q 21] by (simp add: q reverse_bits_def del: push_bit_Suc)
  moreover have "push_bit 2 p = push_bit 3 q" by (simp add: q push_bit_push_bit del: push_bit_Suc)
  ultimately show ?thesis using reverse_bits_concat [of k 3 q 21] assms by simp
qed

lemma plate_reversed_bound:
  assumes "0 \<le> p" "p < 2 ^ 22"
  shows "reverse_bits p 22 < 2 ^ 22" "even p \<Longrightarrow> reverse_bits p 22 < 2 ^ 21"
proof -
  show "reverse_bits p 22 < 2 ^ 22" by (rule reverse_bits_bounds)
  assume "even p"
  then obtain q where q: "p = push_bit 1 q" by (auto elim!: evenE)
  have "reverse_bits p 22 = reverse_bits q 21"
    using reverse_bits_concat [of 0 1 q 21] by (simp add: q reverse_bits_def del: push_bit_Suc)
  then show "reverse_bits p 22 < 2 ^ 21" using reverse_bits_bounds [of q 21] by simp
qed

definition plate_ok :: "int \<Rightarrow> int \<Rightarrow> bool" where
  \<comment> \<open>22-bit plate addresses; an 8-channel plate has an even one\<close>
  "plate_ok c p \<longleftrightarrow> 0 \<le> p \<and> p < 2 ^ 22 \<and> (c = 8 \<longrightarrow> even p)"

lemma button_address_value:
  assumes "map_of KEY_MAPPING c = Some m" "map_of m l = Some h" "py_int16 h = Some (int a)"
    and "py_int16 t = Some p" "plate_ok c p"
  shows "nikobus_to_button_address t l (Some c) =
      Inr (''#N'' @ hexw 6 (nat (reverse_bits p 22) + a * 16 ^ 5))"
    and "nat (reverse_bits p 22) div 16 ^ 5 + a < 16"
    and "nat (reverse_bits p 22) + a * 16 ^ 5 < 16 ^ 6"
proof -
  from assms(1,2) obtain a' k where k: "py_int16 h = Some (int a')" "key_code c l = Inr k"
    "0 \<le> k" "k < (if c = 8 then 8 else 4)" "a' < 16"
    "int a' = (if c = 8 then 2 * reverse_bits k 3 else 4 * reverse_bits k 2)"
    by (rule key_entryE)
  have a: "a' = a" using k(1) assms(3) by simp
  have p: "0 \<le> p" "p < 2 ^ 22" "c = 8 \<Longrightarrow> even p" using assms(5) by (auto simp: plate_ok_def)
  have "reverse_bits (push_bit 2 p OR k) 24 = reverse_bits p 22 + int a * 16 ^ 5"
    using k p(3) reverse_key_small [of k p] reverse_key_wide [of k p] by (auto simp: a split: if_splits)
  also have "\<dots> = int (nat (reverse_bits p 22) + a * 16 ^ 5)"
    using reverse_bits_bounds [of p 22] by simp
  finally have r: "reverse_bits (push_bit 2 p OR k) 24 = int (nat (reverse_bits p 22) + a * 16 ^ 5)" .
  have "int (nat (reverse_bits p 22) + a * 16 ^ 5) < int (2 ^ 24)"
    using reverse_bits_bounds(2) [of "push_bit 2 p OR k" 24] unfolding r
    by (simp only: of_nat_power of_nat_numeral)
  then have "nat (reverse_bits p 22) + a * 16 ^ 5 < 2 ^ 24" by (simp only: of_nat_less_iff)
  then have f: "fmt_hex 6 (int (nat (reverse_bits p 22) + a * 16 ^ 5)) = hexw 6 (nat (reverse_bits p 22) + a * 16 ^ 5)"
    by (intro fmt_hex_nat) simp_all
  define F where "F = nat (reverse_bits p 22) + a * 16 ^ 5"
  show "nikobus_to_button_address t l (Some c) =
      Inr (''#N'' @ hexw 6 (nat (reverse_bits p 22) + a * 16 ^ 5))"
    using plate_mask [OF p(1,2)] even_plate_mask [OF p(1,2)] p(3)
    unfolding F_def [symmetric]
    by (simp add: nikobus_to_button_address_def assms(4) k(2) Let_def r [folded F_def] f [folded F_def])
  show "nat (reverse_bits p 22) div 16 ^ 5 + a < 16"
    and "nat (reverse_bits p 22) + a * 16 ^ 5 < 16 ^ 6"
    using \<open>nat (reverse_bits p 22) + a * 16 ^ 5 < 2 ^ 24\<close> by simp_all
qed

lemma packed_key_bits:
  assumes "0 \<le> k" "k < (if c = 8 then 8 else 4 :: int)"
  shows "3 \<le> n \<Longrightarrow> \<not> bit k n" "2 \<le> n \<Longrightarrow> c \<noteq> 8 \<Longrightarrow> \<not> bit k n"
  using assms bits_zero_above [of k 3 n] bits_zero_above [of k 2 n] by (auto split: if_splits)

lemma packed_key_width:
  assumes "plate_ok c p" "0 \<le> k" "k < (if c = 8 then 8 else 4 :: int)"
  shows "take_bit 24 (push_bit 2 p OR k) = push_bit 2 p OR k"
proof (rule bit_eqI)
  fix n
  have "\<not> n < 24 \<Longrightarrow> \<not> bit p (n - 2)"
    by (rule bits_zero_above [of p 22]) (use assms(1) in \<open>auto simp: plate_ok_def\<close>)
  then show "bit (take_bit 24 (push_bit 2 p OR k)) n = bit (push_bit 2 p OR k) n"
    using packed_key_bits(1) [OF assms(2,3), of n]
    by (auto simp: bit_take_bit_iff bit_or_iff bit_push_bit_iff)
qed

lemma packed_key_plate:
  assumes "plate_ok c p" "0 \<le> k" "k < (if c = 8 then 8 else 4 :: int)"
  shows "(if c = 8 then drop_bit 2 (push_bit 2 p OR k) AND 0x3FFFFE else drop_bit 2 (push_bit 2 p OR k)) = p"
proof (cases "c = 8")
  case True
  have "drop_bit 2 (push_bit 2 p OR k) AND 0x3FFFFE = p AND 0x3FFFFE"
  proof (rule bit_eqI)
    fix n
    have "(0x3FFFFE :: int) = push_bit 1 (mask 21)" by (simp add: mask_eq_exp_minus_1)
    then have m: "bit (0x3FFFFE :: int) n = (1 \<le> n \<and> n < 22)"
      by (simp only: bit_push_bit_iff bit_mask_iff) auto
    show "bit (drop_bit 2 (push_bit 2 p OR k) AND 0x3FFFFE) n = bit (p AND 0x3FFFFE) n"
      using packed_key_bits(1) [OF assms(2,3), of "2 + n"]
      by (auto simp: bit_and_iff bit_or_iff bit_drop_bit_eq bit_push_bit_iff m)
  qed
  with True assms(1) show ?thesis by (simp add: even_plate_mask plate_ok_def)
next
  case False
  have "drop_bit 2 (push_bit 2 p OR k) = p"
    by (rule bit_eqI)
      (use packed_key_bits(2) [OF assms(2,3)] False in \<open>auto simp: bit_or_iff bit_drop_bit_eq bit_push_bit_iff\<close>)
  with False show ?thesis by simp
qed

lemma packed_key_code:
  assumes "plate_ok c p" "0 \<le> k" "k < (if c = 8 then 8 else 4 :: int)"
  shows "(if c = 8 then (push_bit 2 p OR k) AND 7 else ((push_bit 2 p OR k) AND 7) AND 3) = k"
proof (rule bit_eqI)
  fix n
  have "(7 :: int) = mask 3" "(3 :: int) = mask 2" by (simp_all add: mask_eq_exp_minus_1)
  then have m: "bit (7 :: int) n = (n < 3)" "bit (3 :: int) n = (n < 2)" by (simp_all only: bit_mask_iff) simp_all
  have "c = 8 \<Longrightarrow> \<not> bit p 0" using assms(1) by (simp add: bit_0 plate_ok_def)
  then have z: "c = 8 \<Longrightarrow> n = 2 \<Longrightarrow> \<not> bit p (n - 2)" by simp
  have "2 \<le> n \<Longrightarrow> n < 3 \<Longrightarrow> n = 2" by simp
  moreover have "n < 3 \<or> \<not> bit k n" "n < 2 \<or> c = 8 \<or> \<not> bit k n"
    using packed_key_bits [OF assms(2,3), of n] by (meson not_less)+
  ultimately show "bit (if c = 8 then (push_bit 2 p OR k) AND 7 else ((push_bit 2 p OR k) AND 7) AND 3) n = bit k n"
    using z by (cases "c = 8") (auto simp: bit_and_iff bit_or_iff bit_push_bit_iff m)
qed

text \<open>
  C2. For every plate layout of \<open>KEY_MAPPING\<close>, every label of it and every 22-bit plate address
  (an even one for eight channels), the frame of the key is defined, and decoding that frame with
  the same channel count gives the plate and the label back.
\<close>

theorem key_of_plate_reads_back:
  assumes "map_of KEY_MAPPING c = Some m" "map_of m l \<noteq> None"
    and "py_int16 t = Some p" "plate_ok c p"
  shows "\<exists>f. nikobus_to_button_address t l (Some c) = Inr f \<and>
     nikobus_button_to_module f c = Inr (hexw 6 (nat p), l)"
proof -
  from assms(2) obtain h where h: "map_of m l = Some h" by auto
  from assms(1) h obtain a k where k: "py_int16 h = Some (int a)" "key_code c l = Inr k"
    "0 \<le> k" "k < (if c = 8 then 8 else 4)" "a < 16"
    "int a = (if c = 8 then 2 * reverse_bits k 3 else 4 * reverse_bits k 2)"
    "find (\<lambda>(b, _). key_code c b = Inr k) m = Some (l, h)"
    by (rule key_entryE)
  have p: "0 \<le> p" "p < 2 ^ 22" "c = 8 \<Longrightarrow> even p" using assms(4) by (auto simp: plate_ok_def)
  define F where "F = nat (reverse_bits p 22) + a * 16 ^ 5"
  note f = button_address_value [OF assms(1) h k(1) assms(3,4), folded F_def]
  note packed = packed_key_plate [OF assms(4) k(3,4)] packed_key_code [OF assms(4) k(3,4)]
  have "reverse_bits (push_bit 2 p OR k) 24 = int F"
    unfolding F_def
    using k p(3) reverse_key_small [of k p] reverse_key_wide [of k p] reverse_bits_bounds [of p 22]
    by (auto split: if_splits)
  then have C: "reverse_bits (int F) 24 = push_bit 2 p OR k"
    using reverse_bits_reverse packed_key_width [OF assms(4) k(3,4)] by metis
  have i: "py_int16 (hexw 6 F) = Some (int F)"
    using f(3) by simp
  have "fmt_hex 6 p = hexw 6 (nat p)" using p by (intro fmt_hex_int) simp_all
  moreover have "(\<not> starts_with (''#N'' @ hexw 6 F) ''#N'' \<or> length (''#N'' @ hexw 6 F) \<noteq> 8) = False"
    and "drop 2 (''#N'' @ hexw 6 F) = hexw 6 F" by simp_all
  ultimately have "nikobus_button_to_module (''#N'' @ hexw 6 F) c = Inr (hexw 6 (nat p), l)"
    unfolding nikobus_button_to_module_def
    by (simp only: i C of_option_simps res_bind_simps Let_def if_False packed assms(1) k(7)
        option.case prod.case)
  with f(1) show ?thesis by blast
qed

text \<open>
  The frame \<open>protocol.py\<close> computes for a key from its plate and its label is the one the
  inventory derives by shifting the first digit of the converted plate address by the key's offset.
\<close>

theorem key_frame_agrees:
  assumes "map_of KEY_MAPPING c = Some m" "map_of m l = Some h"
    and "py_int16 t = Some p" "plate_ok c p"
  shows "\<exists>a. nikobus_to_button_address t l (Some c) = Inr (''#N'' @ a) \<and>
     add_first_nibble (convert_nikobus_address t) h = Some a"
proof -
  from assms(1,2) obtain a k where a: "py_int16 h = Some (int a)"
    by (rule key_entryE)
  have p: "0 \<le> p" "p < 2 ^ 22" using assms(4) by (auto simp: plate_ok_def)
  note f = button_address_value [OF assms(1,2) a assms(3,4)]
  have "convert_nikobus_address t = hexw 6 (nat (reverse_bits p 22))"
    using convert_nikobus_address_plate [of t "nat p"] assms(3) p by (simp add: nat_less_iff)
  moreover have "add_first_nibble (hexw 6 (nat (reverse_bits p 22))) h =
      Some (hexw 6 (nat (reverse_bits p 22) + a * 16 ^ 5))"
    by (rule add_first_nibble_hexw [OF _ a f(2)]) (use f(3) in linarith)
  ultimately show ?thesis using f(1) by (intro exI conjI) simp_all
qed

theorem key_frame_agrees_witness:
  "\<exists>a. nikobus_to_button_address ''1843B4'' ''1C'' (Some 8) = Inr (''#N'' @ a) \<and>
     add_first_nibble (convert_nikobus_address ''1843B4'') ''2'' = Some a"
proof -
  have "map_of KEY_MAPPING 8 = Some (snd (KEY_MAPPING ! 3))" by (simp add: key_tables)
  moreover have "map_of (snd (KEY_MAPPING ! 3)) ''1C'' = Some ''2''" by (simp add: key_tables)
  moreover have "py_int16 ''1843B4'' = Some 0x1843B4" by (simp add: eval_simps)
  moreover have "plate_ok 8 0x1843B4" by (simp add: plate_ok_def)
  ultimately show ?thesis by (rule key_frame_agrees)
qed

theorem key_of_plate_reads_back_witness:
  "\<exists>f. nikobus_to_button_address ''1843B4'' ''2D'' (Some 8) = Inr f \<and>
     nikobus_button_to_module f 8 = Inr (hexw 6 (nat 0x1843B4), ''2D'')"
proof -
  have "map_of KEY_MAPPING 8 = Some (snd (KEY_MAPPING ! 3))" by (simp add: key_tables)
  moreover have "map_of (snd (KEY_MAPPING ! 3)) ''2D'' \<noteq> None" by (simp add: key_tables)
  moreover have "py_int16 ''1843B4'' = Some 0x1843B4" by (simp add: eval_simps)
  moreover have "plate_ok 8 0x1843B4" by (simp add: plate_ok_def)
  ultimately show ?thesis by (rule key_of_plate_reads_back)
qed

subsection \<open>Link records\<close>

lemma length_binw [simp]: "length (binw w n) = w"
  by (induction w arbitrary: n) simp_all

lemma binw_append: "binw (a + b) n = binw a (n div 2 ^ b) @ binw b n"
proof (induction b arbitrary: n)
  case 0
  then show ?case by simp
next
  case (Suc b)
  then show ?case by (simp add: div_mult2_eq)
qed

lemma binw_mod: "binw b (n mod 2 ^ b) = binw b n"
proof (induction b arbitrary: n)
  case 0
  then show ?case by simp
next
  case (Suc b)
  have "n mod 2 ^ Suc b div 2 = n div 2 mod 2 ^ b"
    by (simp add: mod_mult2_eq)
  moreover have "n mod 2 ^ Suc b mod 2 = n mod 2"
    by (simp add: mod_mod_cancel)
  ultimately show ?case using Suc [of "n div 2"] by (simp only: binw.simps)
qed

lemma bin_digits_append: "bin_digits acc (s @ t) = Option.bind (bin_digits acc s) (\<lambda>x. bin_digits x t)"
  by (induction s arbitrary: acc) auto

lemma hex_dig_bit: "hex_dig (n mod 2) = (if even n then CHR ''0'' else CHR ''1'')"
  by (auto simp: mod_2_eq_odd)

lemma bin_digits_binw: "bin_digits acc (binw w n) = Some (acc * 2 ^ w + int (n mod 2 ^ w))"
proof (induction w arbitrary: n)
  case 0
  then show ?case by simp
next
  case (Suc w)
  have "n mod 2 ^ Suc w = 2 * (n div 2 mod 2 ^ w) + n mod 2" by (simp add: mod_mult2_eq)
  then show ?case using Suc [of "n div 2"]
    by (auto simp: bin_digits_append hex_dig_bit mod_2_eq_odd algebra_simps)
qed

lemma py_int2_binw: "0 < w \<Longrightarrow> py_int2 (binw w n) = Some (int (n mod 2 ^ w))"
proof -
  assume "0 < w"
  then have "binw w n \<noteq> []" by (metis length_binw length_0_conv less_irrefl)
  then show ?thesis by (simp add: py_int2_def bin_digits_binw)
qed

lemma binw_zero: "binw w 0 = replicate w CHR ''0''"
  by (induction w) (simp_all add: replicate_append_same)

lemma zfill_to_bin: "n < 2 ^ w \<Longrightarrow> 0 < w \<Longrightarrow> zfill w (to_bin n) = binw w n"
proof (induction w arbitrary: n)
  case 0
  then show ?case by simp
next
  case (Suc w)
  show ?case
  proof (cases "n < 2")
    case True
    then show ?thesis
      using binw_zero [of w] by (simp add: to_bin.simps [of n] zfill_def)
  next
    case False
    have "n div 2 < 2 ^ w" using Suc.prems(1) by (simp add: less_mult_imp_div_less mult.commute)
    moreover have "0 < w" using False Suc.prems(1) by (cases w) simp_all
    ultimately have "zfill w (to_bin (n div 2)) = binw w (n div 2)" by (rule Suc.IH)
    then show ?thesis using False by (simp add: to_bin.simps [of n] zfill_Suc_snoc)
  qed
qed

lemma fmt_bin_nat: "n < 2 ^ w \<Longrightarrow> 0 < w \<Longrightarrow> fmt_bin w (int n) = binw w n"
  by (simp add: fmt_bin_def zfill_to_bin)

definition record_number :: "byte list \<Rightarrow> nat" where
  \<comment> \<open>the three bytes of a link record's button field, low byte first\<close>
  "record_number bs = unat (bs ! 2) * 65536 + unat (bs ! 1) * 256 + unat (bs ! 0)"

lemma hex_nat_byte [simp]: "hex_nat (byte_hex b) = unat (b :: byte)"
  using byte_div_16 [of b] by (simp add: byte_hex_def hex_nat_def)

lemma digit_split: "z < b \<Longrightarrow> (k * b + z) mod b = z" "z < b \<Longrightarrow> (k * b + z) div b = (k :: nat)"
  by simp_all

lemma get_button_address_bytes:
  "get_button_address (hex_of [x, y, z]) = Some (hexw 6 (record_number [x, y, z] div 4))"
proof -
  note ub = unat_byte_less [of x] unat_byte_less [of y] unat_byte_less [of z]
  define N where "N = unat x * 65536 + unat y * 256 + unat z"
  have "hex_nat (hex_of [x, y, z]) = N"
    by (simp add: N_def hex_nat_append algebra_simps)
  then have i: "py_int16 (hex_of [x, y, z]) = Some (int N)"
    by (subst py_int16_hex) (simp_all add: byte_hex_def byte_div_16)
  have N: "N < 2 ^ 24" using ub by (simp add: N_def del: unat_byte_less)
  have d: "N div 2 ^ 8 div 2 ^ 8 = unat x" "N div 2 ^ 16 = unat x"
    using ub by (simp_all add: N_def del: unat_byte_less)
  have "N = (unat x * 256 + unat y) * 256 + unat z" by (simp add: N_def)
  then have m: "N mod 2 ^ 8 = unat z" "N div 2 ^ 8 mod 2 ^ 8 = unat y"
    using digit_split [OF ub(3), of "unat x * 256 + unat y"] digit_split [OF ub(2), of "unat x"] by simp_all
  have "fmt_bin 24 (int N) = binw 24 N" using N by (intro fmt_bin_nat) simp_all
  also have "\<dots> = binw 8 (unat x) @ binw 8 (unat y) @ binw 8 (unat z)"
    using binw_append [of 16 8 N] binw_append [of 8 8 "N div 2 ^ 8"]
      binw_mod [of 8 N] binw_mod [of 8 "N div 2 ^ 8"] by (simp only: d m) simp
  also have "binw 8 (unat x) = binw 4 (unat x div 2 ^ 4) @ binw 2 (unat x div 4) @ binw 2 (unat x)"
    using binw_append [of 6 2 "unat x"] binw_append [of 4 2 "unat x div 4"] by (simp flip: div_mult2_eq)
  finally have b: "fmt_bin 24 (int N) = binw 4 (unat x div 2 ^ 4) @ binw 2 (unat x div 4) @ binw 2 (unat x) @
      binw 8 (unat y) @ binw 8 (unat z)" by simp
  let ?M = "record_number [x, y, z] div 4"
  have M: "?M = (unat z * 256 + unat y) * 2 ^ 6 + unat x div 4" "?M < 2 ^ 22"
    using ub by (simp_all add: record_number_def del: unat_byte_less)
  have "binw 22 ?M = binw 8 (unat z) @ binw 8 (unat y) @ binw 6 (unat x div 4)"
  proof -
    have "unat x div 4 < 2 ^ 6" using ub(1) by (simp del: unat_byte_less)
    from digit_split [OF this, of "unat z * 256 + unat y"]
    have "?M div 2 ^ 6 = unat z * 256 + unat y" "?M mod 2 ^ 6 = unat x div 4"
      by (simp_all only: M(1))
    then have "binw 22 ?M = binw 16 (unat z * 256 + unat y) @ binw 6 (unat x div 4)"
      using binw_append [of 16 6 ?M] binw_mod [of 6 ?M] by simp
    moreover have "(unat z * 256 + unat y) div 2 ^ 8 = unat z" "(unat z * 256 + unat y) mod 2 ^ 8 = unat y"
      using digit_split [OF ub(2)] by simp_all
    then have "binw 16 (unat z * 256 + unat y) = binw 8 (unat z) @ binw 8 (unat y)"
      using binw_append [of 8 8 "unat z * 256 + unat y"] binw_mod [of 8 "unat z * 256 + unat y"] by simp
    ultimately show ?thesis by simp
  qed
  moreover have "binw 6 (unat x div 4) = binw 4 (unat x div 2 ^ 4) @ binw 2 (unat x div 4)"
    using binw_append [of 4 2 "unat x div 4"] by (simp flip: div_mult2_eq)
  ultimately have "py_int2 ((binw 8 (unat z) @ binw 8 (unat y) @ binw 4 (unat x div 2 ^ 4) @ binw 2 (unat x div 4)))
      = Some (int ?M)"
    using py_int2_binw [of 22 ?M] M(2) by simp
  moreover have "fmt_hex 6 (int ?M) = hexw 6 ?M" using M(2) by (intro fmt_hex_nat) simp_all
  ultimately show ?thesis
    unfolding get_button_address_def i option.case b Let_def by (simp add: slice_def)
qed

lemma module_nibbles:
  assumes "k < 4"
  shows "\<exists>h. map_of KEY_MAPPING_MODULE 4 = Some (snd (KEY_MAPPING_MODULE ! 2)) \<and>
     map_of (snd (KEY_MAPPING_MODULE ! 2)) (int k) = Some h \<and>
     py_int16 h = Some (int (4 * nat (reverse_bits (int k) 2)))"
proof -
  have "k = 0 \<or> k = 1 \<or> k = 2 \<or> k = 3" using assms by linarith
  then show ?thesis
    by (elim disjE) (simp_all add: key_tables eval_simps reverse_bits_def eval_nat_numeral)
qed

text \<open>
  Three bytes of a link record name a plate (their upper 22 bits, low byte first) and a key
  (the two lowest bits); the frame derived for that plate and key is the reversal of the 24 bits
  themselves.
\<close>

theorem link_record_frame:
  "\<exists>plate. get_button_address (hex_of [x, y, z]) = Some plate \<and>
     record_bus_address plate (Some (int (record_number [x, y, z] mod 4))) =
       Some (hexw 6 (nat (reverse_24 (int (record_number [x, y, z])))))"
proof -
  let ?a = "record_number [x, y, z]"
  define p k where "p = ?a div 4" and "k = ?a mod 4"
  have a: "?a < 2 ^ 24"
    using unat_byte_less [of x] unat_byte_less [of y] unat_byte_less [of z]
    by (simp add: record_number_def del: unat_byte_less)
  then have p: "p < 2 ^ 22" by (simp add: p_def)
  have k: "k < 4" by (simp add: k_def)
  have ak: "push_bit 2 (int p) OR int k = int ?a"
  proof -
    have "push_bit 2 (int p) OR int k = int (p * 4 + k)"
      using or_shift_plus [of "int k" 2 "int p"] k by simp
    also have "p * 4 + k = ?a" unfolding p_def k_def by (rule div_mult_mod_eq)
    finally show ?thesis .
  qed
  have "reverse_24 (int ?a) = reverse_bits (int ?a) 24"
    by (simp add: reverse_24_def reverse_bits_def)
  also have "\<dots> = reverse_bits (int p) 22 + 4 * reverse_bits (int k) 2 * 16 ^ 5"
    using reverse_key_small [of "int k" "int p"] k by (simp only: ak)
  finally have r: "reverse_24 (int ?a) = reverse_bits (int p) 22 + 4 * reverse_bits (int k) 2 * 16 ^ 5" .
  define R n where "R = nat (reverse_bits (int p) 22)" and "n = 4 * nat (reverse_bits (int k) 2)"
  have b: "0 \<le> reverse_bits (int p) 22" "reverse_bits (int p) 22 < 2 ^ 22"
    "0 \<le> reverse_bits (int k) 2" "reverse_bits (int k) 2 < 2 ^ 2"
    by (rule reverse_bits_bounds)+
  have r': "nat (reverse_24 (int ?a)) = R + n * 16 ^ 5"
    using b unfolding r R_def n_def by (simp add: nat_add_distrib nat_mult_distrib)
  have R: "R < 2 ^ 22" "n < 16" using b by (simp_all add: R_def n_def nat_less_iff)
  from module_nibbles [OF k, folded n_def] obtain h m where h: "map_of KEY_MAPPING_MODULE 4 = Some m"
    "map_of m (int k) = Some h" "py_int16 h = Some (int n)"
    by (auto simp: n_def)
  have "n \<le> 12" using b(4) by (simp add: n_def)
  have c: "convert_nikobus_address (hexw 6 p) = hexw 6 R"
    unfolding R_def by (rule convert_nikobus_address_plate) (use p in simp_all)
  have "add_first_nibble (hexw 6 R) h = Some (hexw 6 (R + n * 16 ^ 5))"
    by (rule add_first_nibble_hexw [OF _ h(3)]) (use R \<open>n \<le> 12\<close> in simp_all)
  then have "record_bus_address (hexw 6 p) (Some (int k)) = Some (hexw 6 (R + n * 16 ^ 5))"
    using k h(1,2) by (simp add: record_bus_address_def c)
  then show ?thesis unfolding r' using get_button_address_bytes [of x y z] by (simp add: p_def k_def)
qed

definition calendar_link :: "nat \<Rightarrow> bool \<Rightarrow> nat" where
  \<comment> \<open>the link value that names half A (on) or B (off) of a calendar channel, numbered from 0\<close>
  "calendar_link i second = nat (reverse_24 (CALENDAR_CHANNEL_BASE + 4 * int i + (if second then 2 else 0)))"

lemma reverse_24_bits: "reverse_24 v = reverse_bits v 24"
  by (simp add: reverse_24_def reverse_bits_def)

lemma take_24: "v AND 0xFFFFFF = take_bit 24 (v :: int)"
proof -
  have "(0xFFFFFF :: int) = mask 24" by (simp add: mask_eq_exp_minus_1)
  then show ?thesis by (simp only: take_bit_eq_mask)
qed

text \<open>
  Every half of the 100 calendar channels is recognised from the link value that names it, with
  its number, its half and its frame.
\<close>

theorem calendar_channel_roundtrip:
  assumes "i < 100"
  shows "calendar_channel_from_link (hexw 6 (calendar_link i second)) =
    Some (''CH'' @ fmt_dec 3 (int i + 1) @ (if second then ''B'' else ''A''),
          hexw 6 (0xE00320 + 4 * i + (if second then 2 else 0)))"
proof -
  define h :: nat where "h = (if second then 2 else 0)"
  define v where "v = 0xE00320 + 4 * i + h"
  have v: "v < 2 ^ 24" using assms by (simp add: v_def h_def)
  have l: "calendar_link i second = nat (reverse_24 (int v))"
    by (simp add: calendar_link_def v_def h_def CALENDAR_CHANNEL_BASE_def add.assoc)
  have b: "0 \<le> reverse_24 (int v)" "reverse_24 (int v) < 2 ^ 24"
    unfolding reverse_24_bits by (rule reverse_bits_bounds)+
  then have "nat (reverse_24 (int v)) < 16 ^ 6" by (simp add: nat_less_iff)
  then have n: "py_int16 (hexw 6 (calendar_link i second)) = Some (reverse_24 (int v))"
    using b by (simp add: l)
  have "reverse_24 (reverse_24 (int v) AND 0xFFFFFF) = reverse_24 (reverse_24 (int v))"
    unfolding take_24 using b by (simp add: take_bit_int_eq_self)
  also have "\<dots> = int v"
    using v by (simp add: reverse_24_bits reverse_bits_reverse take_bit_int_eq_self)
  finally have r: "reverse_24 (reverse_24 (int v) AND 0xFFFFFF) = int v" .
  have o: "int v - CALENDAR_CHANNEL_BASE = 4 * int i + int h"
    by (simp add: v_def CALENDAR_CHANNEL_BASE_def)
  have dm: "(4 * int i + int h) div 4 = int i" "(4 * int i + int h) mod 4 = int h"
    by (simp_all add: h_def)
  have f: "fmt_hex 6 (int v) = hexw 6 v" using v by (intro fmt_hex_nat) simp_all
  have "0 \<le> 4 * int i + int h" "4 * int i + int h < 4 * CALENDAR_CHANNEL_COUNT"
    using assms by (simp_all add: h_def CALENDAR_CHANNEL_COUNT_def)
  then have "calendar_channel_from_link (hexw 6 (calendar_link i second)) =
    Some (''CH'' @ fmt_dec 3 (int i + 1) @ (if int h = 0 then ''A'' else ''B''), hexw 6 v)"
    unfolding calendar_channel_from_link_def n option.case r Let_def o dm f by (simp add: h_def)
  then show ?thesis by (simp add: v_def h_def)
qed

theorem calendar_channel_roundtrip_witness:
  "calendar_channel_from_link (hexw 6 (calendar_link 41 True)) =
    Some (''CH'' @ fmt_dec 3 42 @ ''B'', hexw 6 (0xE00320 + 4 * 41 + 2))"
  using calendar_channel_roundtrip [of 41 True] by simp

text \<open>The inputs of a PC-Logic module.\<close>

lemma or_plus: "0 \<le> k \<Longrightarrow> k < 2 ^ j \<Longrightarrow> 2 ^ j dvd p \<Longrightarrow> p OR k = p + (k :: int)"
  by (metis dvd_div_mult_self or_shift_plus push_bit_eq_mult)

lemma reverse_loop_numeral:
  "reverse_bits_loop (numeral k) v r = reverse_bits_loop (pred_numeral k) (v div 2) (2 * r + v mod 2)"
proof -
  have "push_bit 1 r OR (v AND 1) = 2 * r + v mod 2"
    using or_plus [of "v mod 2" 1 "2 * r"] by (simp add: and_one_eq push_bit_eq_mult mult.commute)
  then show ?thesis by (simp add: numeral_eq_Suc drop_bit_eq_div del: One_nat_def push_bit_Suc)
qed

lemma and_15: "v AND 0xF = v mod (16 :: int)"
proof -
  have "(0xF :: int) = mask 4" by (simp add: mask_eq_exp_minus_1)
  then show ?thesis by (simp only: take_bit_eq_mask [symmetric] take_bit_eq_mod) simp
qed

lemma and_FFFF: "v AND 0xFFFF = v mod (65536 :: int)"
proof -
  have "(0xFFFF :: int) = mask 16" by (simp add: mask_eq_exp_minus_1)
  then show ?thesis by (simp only: take_bit_eq_mask [symmetric] take_bit_eq_mod) simp
qed

lemma int_digit: "0 \<le> z \<Longrightarrow> z < b \<Longrightarrow> (k * b + z) mod b = z" "0 \<le> z \<Longrightarrow> z < b \<Longrightarrow> (k * b + z) div b = (k :: int)"
  by (simp_all add: div_pos_pos_trivial mod_pos_pos_trivial)

text \<open>
  The inputs derived for a PC-Logic at an even address, one per slot up to 15, read back as that
  module's address and their own slot.
\<close>

theorem pc_logic_input_roundtrip:
  assumes "py_int16 t = Some (int a)" "a < 65536" "even a" "ty \<noteq> ''interface_module''"
    and "1 \<le> n" "n \<le> 16"
  shows "\<exists>inputs. derive_pc_logic_input_physicals t (int n) ty = Inr inputs \<and> length inputs = n \<and>
     (\<forall>s < min n 15. pc_logic_address_for_input (inputs ! s) = Some (hexw 4 a) \<and>
        pc_logic_input_slot_index (inputs ! s) = Some (int (Suc s)))"
proof -
  obtain b where b: "a = 2 * b" using assms(3) by (elim evenE)
  have bb: "b < 32768" using assms(2) b by simp
  let ?base = "0x600000 OR push_bit 4 (drop_bit 1 (int a))"
  let ?inputs = "map (\<lambda>slot. fmt_hex 6 (?base OR slot)) [1..int n]"
  have "drop_bit 1 (int a) = int b" by (simp add: b drop_bit_eq_div)
  then have base: "?base = 0x600000 + 16 * int b"
    using or_plus [of "16 * int b" 19 "0x600000"] bb by (simp add: push_bit_eq_mult mult.commute)
  have inputs: "derive_pc_logic_input_physicals t (int n) ty = Inr ?inputs"
    using assms by (simp add: derive_pc_logic_input_physicals_def)
  have slot: "pc_logic_address_for_input (?inputs ! s) = Some (hexw 4 a) \<and>
      pc_logic_input_slot_index (?inputs ! s) = Some (int (Suc s))" if s: "s < min n 15" for s
  proof -
    define v where "v = 0x600000 + 16 * b + Suc s"
    have "?base OR int (Suc s) = int v"
      unfolding base using or_plus [of "int (Suc s)" 4 "0x600000 + 16 * int b"] s by (simp add: v_def)
    moreover have "[1..int n] ! s = int (Suc s)" using s by (simp add: nth_upto)
    ultimately have "?inputs ! s = fmt_hex 6 (int v)" using s by simp
    also have "\<dots> = hexw 6 v" using s bb by (intro fmt_hex_nat) (simp_all add: v_def)
    finally have h: "?inputs ! s = hexw 6 v" .
    have "v < 16 ^ 6" using s bb by (simp add: v_def)
    then have i: "py_int16 (?inputs ! s) = Some (int v)" unfolding h by simp
    have v: "int v = (0x60000 + int b) * 16 + int (Suc s)" by (simp add: v_def)
    have v16: "int v mod 16 = int (Suc s)" "int v div 16 = 0x60000 + int b"
      unfolding v using s by (intro int_digit; simp)+
    have "int v div 1048576 = int v div 16 div 65536" by (simp flip: zdiv_zmult2_eq)
    also have "\<dots> = 6" unfolding v16 using bb int_digit(2) [of "int b" 65536 6] by simp
    finally have v20: "int v div 1048576 = 6" .
    have d: "drop_bit 20 (int v) AND 0xF = 6" "int v AND 0xF = int (Suc s)"
      "drop_bit 4 (int v) AND 0xFFFF = int b"
      using v16 v20 bb int_digit(1) [of "int b" 65536 6] by (simp_all add: and_15 and_FFFF drop_bit_eq_div)
    have "fmt_hex 4 (int a) = hexw 4 a" using assms(2) by (intro fmt_hex_nat) simp_all
    moreover have "push_bit 1 (int b) = int a" by (simp add: b)
    moreover have "int v \<le> 0xFFFFFF" using s bb by (simp add: v_def)
    ultimately show ?thesis
      using s assms(2) unfolding pc_logic_address_for_input_def pc_logic_input_slot_index_def i option.case d Let_def
      by simp
  qed
  show ?thesis by (intro exI [of _ ?inputs] conjI inputs) (use slot in simp_all)
qed


theorem pc_logic_input_roundtrip_witness:
  "\<exists>inputs. derive_pc_logic_input_physicals ''9B48'' (int 6) ''pc_logic'' = Inr inputs \<and> length inputs = 6 \<and>
     (\<forall>s < min 6 15. pc_logic_address_for_input (inputs ! s) = Some (hexw 4 0x9B48) \<and>
        pc_logic_input_slot_index (inputs ! s) = Some (int (Suc s)))"
  by (rule pc_logic_input_roundtrip) (simp_all add: eval_simps)

text \<open>Slot 16, which the code also accepts, is the address of slot 0 of the neighbour.\<close>

lemma pc_logic_slot_16_lost:
  "\<exists>inputs. derive_pc_logic_input_physicals ''9B48'' 16 ''pc_logic'' = Inr inputs \<and>
     pc_logic_address_for_input (inputs ! 15) = None"
proof -
  let ?f = "\<lambda>slot. fmt_hex 6 ((0x600000 OR push_bit 4 (drop_bit 1 0x9B48)) OR slot)"
  have "derive_pc_logic_input_physicals ''9B48'' 16 ''pc_logic'' = Inr (map ?f [1..16])"
    by (simp add: derive_pc_logic_input_physicals_def eval_simps)
  moreover have "?f 16 = hexw 6 0x64DA50"
    by (simp add: push_bit_eq_mult drop_bit_eq_div fmt_hex_nonneg del: hexw.simps)
  then have "map ?f [1..16] ! 15 = hexw 6 0x64DA50"
    by (subst nth_map) (simp_all only: length_upto nth_upto, simp_all del: hexw.simps)
  moreover have "pc_logic_address_for_input (hexw 6 0x64DA50) = None"
    by (simp add: pc_logic_address_for_input_def drop_bit_eq_div)
  ultimately show ?thesis by (simp del: hexw.simps)
qed

subsection \<open>Block ranges\<close>

declare blocks_to_sections_loop.simps [simp del]

lemma section_end_less:
  assumes "0 \<le> block"
  shows "block OR 0xFF = 256 * (block div 256) + (255 :: int)"
proof -
  have "push_bit 8 (block div 256) OR 0xFF = (block div 256) * 2 ^ 8 + (255 :: int)"
    by (rule or_shift_plus) simp_all
  moreover have "block OR 0xFF = push_bit 8 (block div 256) OR 0xFF"
    using section_end [of block] by (simp add: drop_bit_eq_div)
  ultimately show ?thesis by simp
qed

definition section_blocks :: "string \<times> int list \<Rightarrow> int list" where
  \<comment> \<open>the block numbers a section's name and its list of low bytes stand for\<close>
  "section_blocks s = (case s of (sub, bs) \<Rightarrow>
     map (\<lambda>b. 256 * (case py_int16 sub of None \<Rightarrow> 0 | Some n \<Rightarrow> n) + b) bs)"

lemma map_plus_upto: "map (\<lambda>b. c + b) [i..j] = [c + i..c + j]" for c i j :: int
proof (induction i j rule: upto.induct)
  case (1 i j)
  show ?case
  proof (cases "i \<le> j")
    case True
    then show ?thesis using 1 upto_rec1 [of i j] upto_rec1 [of "c + i" "c + j"] by (simp add: add.assoc)
  qed simp
qed

lemma and_255: "v AND 0xFF = v mod (256 :: int)"
proof -
  have "(0xFF :: int) = mask 8" by (simp add: mask_eq_exp_minus_1)
  then show ?thesis by (simp only: take_bit_eq_mask [symmetric] take_bit_eq_mod) simp
qed

lemma section_of_blocks:
  assumes "0 \<le> f" "f \<le> e" "e div 256 = f div 256" "e < 65536"
  shows "section_blocks (fmt_hex 2 (drop_bit 8 f), [f AND 0xFF .. e AND 0xFF]) = [f..e]"
proof -
  have "py_int16 (fmt_hex 2 (drop_bit 8 f)) = Some (f div 256)"
    using assms by (simp add: fmt_hex_nonneg drop_bit_eq_div)
  then have "section_blocks (fmt_hex 2 (drop_bit 8 f), [f AND 0xFF .. e AND 0xFF]) =
      [256 * (f div 256) + f mod 256 .. 256 * (e div 256) + e mod 256]"
    by (simp add: section_blocks_def and_255 map_plus_upto assms(3))
  then show ?thesis by simp
qed

lemma blocks_to_sections_loop_covers:
  "0 \<le> f \<Longrightarrow> l < 65536 \<Longrightarrow> concat (map section_blocks (blocks_to_sections_loop f l)) = [f..l]"
proof (induction f l rule: blocks_to_sections_loop.induct)
  case (1 f l)
  show ?case
  proof (cases "f \<le> l")
    case True
    define e where "e = min l (push_bit 8 (drop_bit 8 f) OR 0xFF)"
    have f256: "f \<le> 256 * (f div 256) + 255" "256 * (f div 256) \<le> f" by simp_all
    have e: "e = min l (256 * (f div 256) + 255)"
      unfolding e_def section_end section_end_less [OF 1(2)] ..
    then have fe: "f \<le> e" "e \<le> l" using True f256(1) by simp_all
    have "256 * (f div 256) \<le> e" "e < 256 * (f div 256) + 256" using e True f256(2) fe by linarith+
    then have "e div 256 = f div 256" by linarith
    then have "section_blocks (fmt_hex 2 (drop_bit 8 f), [f AND 0xFF .. e AND 0xFF]) = [f..e]"
      using 1(2,3) fe by (intro section_of_blocks) simp_all
    moreover have "concat (map section_blocks (blocks_to_sections_loop (e + 1) l)) = [e + 1..l]"
      by (rule 1(1) [OF True refl e_def]) (use 1(2,3) fe in simp_all)
    moreover have "[f..l] = [f..e] @ [e + 1..l]" using fe by (intro upto_split2) simp_all
    ultimately show ?thesis using True
      by (subst blocks_to_sections_loop.simps) (simp add: Let_def e_def [symmetric])
  next
    case False
    then show ?thesis by (subst blocks_to_sections_loop.simps) simp
  qed
qed

text \<open>
  Split into sections of 256 blocks, a range of blocks is covered once, in order, with nothing
  before block 0 and nothing after the last block.
\<close>

theorem blocks_to_sections_covers:
  assumes "last_block \<le> 0xFFFF"
  shows "concat (map section_blocks (blocks_to_sections first_block last_block)) =
    [max first_block 0 .. last_block]"
  unfolding blocks_to_sections_def
  by (rule blocks_to_sections_loop_covers) (use assms in simp_all)

theorem blocks_to_sections_covers_witness:
  "concat (map section_blocks (blocks_to_sections (- 3) 0x1F0)) = [0 .. 0x1F0]"
  using blocks_to_sections_covers [of "0x1F0" "- 3"] by simp

end
