(* ===== verification/Press.thy ===== *)
theory Press
  imports PyVal Complex_Main
begin

section \<open>Key presses\<close>

text \<open>
  \<open>press.py\<close>: what a host infers of a press from the frames a held key repeats. The tracker's
  state is a dictionary of presses by address; the clock value and the naming of a press are
  arguments of the operations. Seconds and milliseconds are exact rationals where the code
  has floats; the milestones fall on the same frames (25, 50 and 75 frames of 40 ms), as the
  products of these counts with 0.04 are exact in floating point.
\<close>

definition FRAME_CADENCE_S :: rat where "FRAME_CADENCE_S = 1 / 25"
definition SHORT_PRESS_S :: rat where "SHORT_PRESS_S = 1"
definition TIMER_THRESHOLDS_S :: "int list" where "TIMER_THRESHOLDS_S = [1, 2, 3]"
definition MAX_BUCKET :: int where "MAX_BUCKET = 3"
definition RELEASE_THRESHOLD_MS :: rat where "RELEASE_THRESHOLD_MS = 300"
definition BURST_GAP_THRESHOLD_S :: rat where "BURST_GAP_THRESHOLD_S = 5 / 1000"
definition BURST_RECENT_GAPS_WINDOW :: nat where "BURST_RECENT_GAPS_WINDOW = 4"
definition BURST_DETECT_GAP_COUNT :: nat where "BURST_DETECT_GAP_COUNT = 3"
definition MAX_EXTENDED_RELEASE_MS :: rat where "MAX_EXTENDED_RELEASE_MS = 5000"

lemmas press_consts = FRAME_CADENCE_S_def SHORT_PRESS_S_def TIMER_THRESHOLDS_S_def MAX_BUCKET_def
  RELEASE_THRESHOLD_MS_def BURST_GAP_THRESHOLD_S_def BURST_RECENT_GAPS_WINDOW_def
  BURST_DETECT_GAP_COUNT_def MAX_EXTENDED_RELEASE_MS_def

subsection \<open>One press\<close>

record press_state =
  press_address :: string
  press_id :: string
  started_at :: rat
  last_frame_at :: rat
  frame_count :: int
  last_timer_threshold :: int
  recent_gaps :: "rat list"
  release_threshold_ms :: rat

definition duration_s :: "press_state \<Rightarrow> rat" where
  "duration_s st = of_int (frame_count st) * FRAME_CADENCE_S"

definition press_bucket :: "rat \<Rightarrow> int" where
  \<comment> \<open>\<open>int()\<close> truncates towards zero\<close>
  "press_bucket duration = min (if duration \<ge> 0 then \<lfloor>duration\<rfloor> else \<lceil>duration\<rceil>) MAX_BUCKET"

definition is_short_press :: "rat \<Rightarrow> bool" where
  "is_short_press duration \<longleftrightarrow> duration < SHORT_PRESS_S"

definition bucket :: "press_state \<Rightarrow> int" where
  "bucket st = press_bucket (duration_s st)"

definition is_short :: "press_state \<Rightarrow> bool" where
  "is_short st = is_short_press (duration_s st)"

definition silence_ms :: "press_state \<Rightarrow> rat \<Rightarrow> rat" where
  "silence_ms st now = (now - last_frame_at st) * 1000"

definition state_release_due :: "press_state \<Rightarrow> rat \<Rightarrow> bool" where
  "state_release_due st now \<longleftrightarrow> silence_ms st now \<ge> release_threshold_ms st"

definition deque_append :: "nat \<Rightarrow> 'a list \<Rightarrow> 'a \<Rightarrow> 'a list" where
  \<comment> \<open>\<open>append\<close> on a \<open>deque\<close> of bounded length drops from the left\<close>
  "deque_append n xs x = last_of n (xs @ [x])"

definition update_release_threshold :: "press_state \<Rightarrow> press_state" where
  "update_release_threshold st =
     (let burst_gaps = length (filter (\<lambda>gap. gap < BURST_GAP_THRESHOLD_S) (recent_gaps st)) in
      if burst_gaps \<ge> BURST_DETECT_GAP_COUNT then
        let implied_stall_ms = duration_s st * 1000 in
        st\<lparr>release_threshold_ms := min MAX_EXTENDED_RELEASE_MS
             (max (release_threshold_ms st) implied_stall_ms)\<rparr>
      else if burst_gaps = 0 \<and> length (recent_gaps st) \<ge> BURST_RECENT_GAPS_WINDOW then
        st\<lparr>release_threshold_ms := RELEASE_THRESHOLD_MS\<rparr>
      else st)"

fun timers_loop :: "int list \<Rightarrow> press_state \<Rightarrow> int list \<Rightarrow> int list \<times> press_state" where
  "timers_loop [] st crossed = (crossed, st)"
| "timers_loop (threshold # rest) st crossed =
     (if last_timer_threshold st \<ge> threshold \<or> duration_s st < of_int threshold
      then timers_loop rest st crossed
      else timers_loop rest (st\<lparr>last_timer_threshold := threshold\<rparr>) (crossed @ [threshold]))"

definition timers_crossed :: "press_state \<Rightarrow> int list \<times> press_state" where
  "timers_crossed st = timers_loop TIMER_THRESHOLDS_S st []"

subsection \<open>The tracker\<close>

type_synonym press_tracker = "(string \<times> press_state) list"

definition active :: "press_tracker \<Rightarrow> string \<Rightarrow> press_state option" where
  "active t addr = map_of t (upper addr)"

definition new_press :: "(string \<Rightarrow> rat \<Rightarrow> string) \<Rightarrow> string \<Rightarrow> rat \<Rightarrow> press_state" where
  "new_press name key now =
     \<lparr>press_address = key, press_id = name key now, started_at = now, last_frame_at = now,
      frame_count = 1, last_timer_threshold = 0, recent_gaps = [],
      release_threshold_ms = RELEASE_THRESHOLD_MS\<rparr>"

definition tracker_frame ::
    "(string \<Rightarrow> rat \<Rightarrow> string) \<Rightarrow> rat \<Rightarrow> press_tracker \<Rightarrow> string \<Rightarrow> (press_state \<times> bool \<times> int list) \<times> press_tracker" where
  "tracker_frame name now t addr =
     (let key = upper addr in
      case map_of t key of
        None \<Rightarrow> (let (crossed, st) = timers_crossed (new_press name key now)
                 in ((st, True, crossed), AList.update key st t))
      | Some st0 \<Rightarrow>
          (let st1 = st0\<lparr>recent_gaps := deque_append BURST_RECENT_GAPS_WINDOW (recent_gaps st0) (now - last_frame_at st0),
                         last_frame_at := now, frame_count := frame_count st0 + 1\<rparr>;
               (crossed, st) = timers_crossed (update_release_threshold st1)
           in ((st, False, crossed), AList.update key st t)))"

definition names_press :: "string option \<Rightarrow> press_state \<Rightarrow> bool" where
  "names_press pid st \<longleftrightarrow> (case pid of None \<Rightarrow> True | Some p \<Rightarrow> press_id st = p)"

definition tracker_release_due :: "rat \<Rightarrow> press_tracker \<Rightarrow> string \<Rightarrow> string option \<Rightarrow> press_state option" where
  "tracker_release_due now t addr pid = (case map_of t (upper addr) of
       None \<Rightarrow> None
     | Some st \<Rightarrow> if \<not> names_press pid st then None
                  else if state_release_due st now then Some st else None)"

definition tracker_end :: "press_tracker \<Rightarrow> string \<Rightarrow> string option \<Rightarrow> press_state option \<times> press_tracker" where
  "tracker_end t addr pid = (case map_of t (upper addr) of
       None \<Rightarrow> (None, t)
     | Some st \<Rightarrow> if \<not> names_press pid st then (None, t)
                  else (Some st, AList.delete (upper addr) t))"

definition tracker_clear :: "press_tracker \<Rightarrow> press_state list \<times> press_tracker" where
  "tracker_clear t = (map snd t, [])"

subsection \<open>What a press reaches\<close>

definition group_of :: "int \<Rightarrow> int" where
  "group_of channel = (if channel \<le> 6 then 1 else 2)"

definition out_channel :: "pyval \<Rightarrow> int option" where
  \<comment> \<open>the integer channel of an output entry, if it is a dictionary with one\<close>
  "out_channel out = Option.bind (as_dict out) (\<lambda>d. as_int (dict_get d ''channel''))"

fun add_outputs :: "string \<Rightarrow> pyval list \<Rightarrow> (string \<times> int) list \<Rightarrow> (string \<times> int) list" where
  "add_outputs mod_addr [] seen = seen"
| "add_outputs mod_addr (out # rest) seen =
     (case out_channel out of
        None \<Rightarrow> add_outputs mod_addr rest seen
      | Some channel \<Rightarrow> let pair = (mod_addr, group_of channel) in
          add_outputs mod_addr rest (if pair \<in> set seen then seen else seen @ [pair]))"

fun add_links :: "pyval list \<Rightarrow> (string \<times> int) list \<Rightarrow> (string \<times> int) list res" where
  "add_links [] seen = Inr seen"
| "add_links (link # rest) seen = (case as_dict link of
       None \<Rightarrow> add_links rest seen
     | Some d \<Rightarrow> let mod_addr = upper (str_or_empty (dict_get d ''module_address'')) in
         if mod_addr = [] then add_links rest seen
         else res_bind (py_iter (py_or (dict_get d ''outputs'') (PList []))) (\<lambda>outs.
                add_links rest (add_outputs mod_addr outs seen)))"

definition impacted_groups :: "pydict \<Rightarrow> (string \<times> int) list res" where
  "impacted_groups op_point =
     res_bind (py_iter (py_or (dict_get op_point ''linked_modules'') (PList []))) (\<lambda>links. add_links links [])"

fun first_link :: "pyval list \<Rightarrow> string option \<times> int option" where
  "first_link [] = (None, None)"
| "first_link (link # rest) = (case as_dict link of
       None \<Rightarrow> first_link rest
     | Some d \<Rightarrow> let mod_addr = upper (str_or_empty (dict_get d ''module_address'')) in
         if mod_addr = [] then first_link rest
         else (Some mod_addr, case as_list (dict_get d ''outputs'') of
             Some (first # _) \<Rightarrow> out_channel first
           | _ \<Rightarrow> None))"

definition primary_link :: "pydict \<Rightarrow> (string option \<times> int option) res" where
  "primary_link op_point =
     res_bind (py_iter (py_or (dict_get op_point ''linked_modules'') (PList []))) (\<lambda>links. Inr (first_link links))"

subsection \<open>What holds of every press\<close>

definition milestones :: "int \<Rightarrow> int list" where
  \<comment> \<open>the whole seconds, up to three, that a press of \<open>n\<close> frames has been held\<close>
  "milestones n = filter (\<lambda>s. 25 * s \<le> n) [1, 2, 3]"

definition press_inv :: "string \<Rightarrow> press_state \<Rightarrow> bool" where
  "press_inv key st \<longleftrightarrow> press_address st = key \<and> 1 \<le> frame_count st \<and>
     last_timer_threshold st = int (length (milestones (frame_count st))) \<and>
     length (recent_gaps st) \<le> BURST_RECENT_GAPS_WINDOW \<and>
     RELEASE_THRESHOLD_MS \<le> release_threshold_ms st \<and> release_threshold_ms st \<le> MAX_EXTENDED_RELEASE_MS"

definition tracker_inv :: "press_tracker \<Rightarrow> bool" where
  "tracker_inv t \<longleftrightarrow> distinct (map fst t) \<and> (\<forall>(key, st) \<in> set t. upper key = key \<and> press_inv key st)"

lemma duration_reached: "duration_s st < of_int s \<longleftrightarrow> frame_count st < 25 * s"
proof -
  have "duration_s st < of_int s \<longleftrightarrow> (of_int (frame_count st) :: rat) < of_int (25 * s)"
    by (simp add: duration_s_def FRAME_CADENCE_S_def field_simps)
  then show ?thesis by (simp only: of_int_less_iff)
qed

lemma timers_loop_sorted:
  "sorted_wrt (<) ts \<Longrightarrow> timers_loop ts st crossed =
     (let f = filter (\<lambda>s. last_timer_threshold st < s \<and> 25 * s \<le> frame_count st) ts
      in (crossed @ f, st\<lparr>last_timer_threshold := last (last_timer_threshold st # f)\<rparr>))"
proof (induction ts arbitrary: st crossed)
  case Nil
  then show ?case by simp
next
  case (Cons s ts)
  show ?case
  proof (cases "last_timer_threshold st \<ge> s \<or> duration_s st < of_int s")
    case True
    then have "\<not> (last_timer_threshold st < s \<and> 25 * s \<le> frame_count st)" by (auto simp: duration_reached)
    then have "filter (\<lambda>s. last_timer_threshold st < s \<and> 25 * s \<le> frame_count st) (s # ts) =
        filter (\<lambda>s. last_timer_threshold st < s \<and> 25 * s \<le> frame_count st) ts" by simp
    with True Cons show ?thesis by (simp only: timers_loop.simps if_True sorted_wrt.simps)
  next
    case False
    then have s: "last_timer_threshold st < s" "25 * s \<le> frame_count st" by (auto simp: duration_reached)
    have "filter (\<lambda>x. s < x \<and> 25 * x \<le> frame_count st) ts =
        filter (\<lambda>x. last_timer_threshold st < x \<and> 25 * x \<le> frame_count st) ts"
      by (rule filter_cong) (use Cons.prems s in auto)
    with False s Cons show ?thesis by (simp add: Let_def)
  qed
qed

lemma milestones_cases:
  "milestones n = (if n < 25 then [] else if n < 50 then [1] else if n < 75 then [1, 2] else [1, 2, 3])"
  by (simp add: milestones_def)

lemma milestones_step:
  assumes "last_timer_threshold st = int (length (milestones n))" "frame_count st = n \<or> frame_count st = n + 1"
    "0 \<le> n"
  shows "timers_crossed st = (drop (length (milestones n)) (milestones (frame_count st)),
     st\<lparr>last_timer_threshold := int (length (milestones (frame_count st)))\<rparr>)"
proof -
  have *: "filter (\<lambda>s. last_timer_threshold st < s \<and> 25 * s \<le> frame_count st) TIMER_THRESHOLDS_S =
      drop (length (milestones n)) (milestones (frame_count st))" (is "?f = ?d")
    using assms by (auto simp: TIMER_THRESHOLDS_S_def milestones_cases)
  have "last (last_timer_threshold st # ?d) = int (length (milestones (frame_count st)))"
    using assms by (auto simp: milestones_cases split: if_splits)
  moreover have "sorted_wrt (<) TIMER_THRESHOLDS_S" by (simp add: TIMER_THRESHOLDS_S_def)
  ultimately show ?thesis
    by (simp only: timers_crossed_def timers_loop_sorted * Let_def append_Nil)
qed

lemma milestones_prefix: "m \<le> n \<Longrightarrow> milestones m @ drop (length (milestones m)) (milestones n) = milestones n"
  by (auto simp: milestones_def)

lemma update_release_threshold_frame [simp]:
  "press_address (update_release_threshold st) = press_address st"
  "frame_count (update_release_threshold st) = frame_count st"
  "last_timer_threshold (update_release_threshold st) = last_timer_threshold st"
  "recent_gaps (update_release_threshold st) = recent_gaps st"
  "last_frame_at (update_release_threshold st) = last_frame_at st"
  "press_id (update_release_threshold st) = press_id st"
  by (simp_all add: update_release_threshold_def Let_def)

lemma update_release_threshold_bounds:
  assumes "RELEASE_THRESHOLD_MS \<le> release_threshold_ms st" "release_threshold_ms st \<le> MAX_EXTENDED_RELEASE_MS"
  shows "RELEASE_THRESHOLD_MS \<le> release_threshold_ms (update_release_threshold st) \<and>
    release_threshold_ms (update_release_threshold st) \<le> MAX_EXTENDED_RELEASE_MS"
  using assms by (auto simp: update_release_threshold_def Let_def RELEASE_THRESHOLD_MS_def MAX_EXTENDED_RELEASE_MS_def)


datatype press_event = Frame string rat | End string "string option" | Clear

fun press_step :: "(string \<Rightarrow> rat \<Rightarrow> string) \<Rightarrow> press_tracker \<Rightarrow> press_event \<Rightarrow> press_tracker" where
  "press_step name t (Frame addr now) = snd (tracker_frame name now t addr)"
| "press_step name t (End addr pid) = snd (tracker_end t addr pid)"
| "press_step name t Clear = snd (tracker_clear t)"

fun frames_run :: "(string \<Rightarrow> rat \<Rightarrow> string) \<Rightarrow> press_tracker \<Rightarrow> (string \<times> rat) list \<Rightarrow> (string \<times> int list) list" where
  \<comment> \<open>the milestones each frame of a sequence reports, with the key it is for\<close>
  "frames_run name t [] = []"
| "frames_run name t ((addr, now) # fs) =
     (let ((_, _, crossed), t') = tracker_frame name now t addr in (upper addr, crossed) # frames_run name t' fs)"

lemma tracker_frame_new:
  assumes "map_of t (upper addr) = None"
  shows "tracker_frame name now t addr = ((new_press name (upper addr) now, True, []),
     AList.update (upper addr) (new_press name (upper addr) now) t)"
proof -
  have "timers_crossed (new_press name (upper addr) now) = ([], new_press name (upper addr) now)"
    using milestones_step [of "new_press name (upper addr) now" 0]
    by (simp add: milestones_cases new_press_def)
  then show ?thesis using assms by (simp add: tracker_frame_def Let_def)
qed

definition counted :: "rat \<Rightarrow> press_state \<Rightarrow> press_state" where
  \<comment> \<open>a press after one more frame\<close>
  "counted now st = (update_release_threshold (st\<lparr>recent_gaps :=
       deque_append BURST_RECENT_GAPS_WINDOW (recent_gaps st) (now - last_frame_at st),
       last_frame_at := now, frame_count := frame_count st + 1\<rparr>))
     \<lparr>last_timer_threshold := int (length (milestones (frame_count st + 1)))\<rparr>"

lemma tracker_frame_more:
  assumes "map_of t (upper addr) = Some st" "press_inv (upper addr) st"
  shows "tracker_frame name now t addr = ((counted now st, False,
       drop (length (milestones (frame_count st))) (milestones (frame_count st + 1))),
     AList.update (upper addr) (counted now st) t)"
proof -
  let ?st = "update_release_threshold (st\<lparr>recent_gaps :=
       deque_append BURST_RECENT_GAPS_WINDOW (recent_gaps st) (now - last_frame_at st),
       last_frame_at := now, frame_count := frame_count st + 1\<rparr>)"
  have "timers_crossed ?st = (drop (length (milestones (frame_count st))) (milestones (frame_count ?st)),
      ?st\<lparr>last_timer_threshold := int (length (milestones (frame_count ?st)))\<rparr>)"
    by (rule milestones_step) (use assms(2) in \<open>simp_all add: press_inv_def\<close>)
  then show ?thesis using assms(1) by (simp add: tracker_frame_def Let_def counted_def)
qed

lemma counted_fields [simp]:
  "frame_count (counted now st) = frame_count st + 1" "press_address (counted now st) = press_address st"
  "last_frame_at (counted now st) = now"
  by (simp_all add: counted_def)

lemma press_inv_counted:
  assumes "press_inv key st" shows "press_inv key (counted now st)"
  using assms update_release_threshold_bounds [of "st\<lparr>recent_gaps :=
       deque_append BURST_RECENT_GAPS_WINDOW (recent_gaps st) (now - last_frame_at st),
       last_frame_at := now, frame_count := frame_count st + 1\<rparr>"]
  by (simp add: press_inv_def counted_def deque_append_def)

lemma press_inv_new: "press_inv key (new_press name key now)"
  by (simp add: press_inv_def new_press_def milestones_cases press_consts)

lemma tracker_inv_lookup: "tracker_inv t \<Longrightarrow> map_of t key = Some st \<Longrightarrow> press_inv key st"
  by (auto simp: tracker_inv_def dest!: map_of_SomeD)

lemma set_update: "set (AList.update k v t) \<subseteq> insert (k, v) (set t)"
  by (induction t) auto

lemma set_delete: "set (AList.delete k t) \<subseteq> set t"
  by (auto simp: AList.delete_eq)

lemma tracker_inv_update:
  assumes "tracker_inv t" "upper key = key" "press_inv key st"
  shows "tracker_inv (AList.update key st t)"
  using assms set_update [of key st t] by (auto simp: tracker_inv_def distinct_update)

lemma tracker_inv_frame:
  assumes "tracker_inv t" shows "tracker_inv (snd (tracker_frame name now t addr))"
proof (cases "map_of t (upper addr)")
  case None
  then show ?thesis using assms by (simp add: tracker_frame_new tracker_inv_update press_inv_new)
next
  case (Some st)
  note inv = tracker_inv_lookup [OF assms Some]
  show ?thesis using assms inv
    by (simp add: tracker_frame_more [OF Some inv] tracker_inv_update press_inv_counted)
qed

lemma tracker_inv_step: "tracker_inv t \<Longrightarrow> tracker_inv (press_step name t ev)"
proof (cases ev)
  case (Frame addr now)
  then show "tracker_inv t \<Longrightarrow> ?thesis" by (simp add: tracker_inv_frame)
next
  case (End addr pid)
  then show "tracker_inv t \<Longrightarrow> ?thesis"
    using set_delete [of "upper addr" t]
    by (auto simp: tracker_end_def tracker_inv_def distinct_delete split: option.splits)
next
  case Clear
  then show ?thesis by (simp add: tracker_clear_def tracker_inv_def)
qed

lemma tracker_inv_run: "tracker_inv (foldl (press_step name) [] evs)"
proof (induction evs rule: rev_induct)
  case Nil
  then show ?case by (simp add: tracker_inv_def)
next
  case (snoc ev evs)
  then show ?case by (simp add: tracker_inv_step)
qed

text \<open>
  Whatever frames, ends and clears came before, a tracked press is due for release once five
  seconds have passed since its last frame, and never within 300 milliseconds of it.
\<close>

theorem press_release_patience:
  assumes "active (foldl (press_step name) [] evs) addr = Some st"
  shows "(last_frame_at st + 5 \<le> now \<longrightarrow>
      tracker_release_due now (foldl (press_step name) [] evs) addr None = Some st) \<and>
    (now < last_frame_at st + 3 / 10 \<longrightarrow>
      tracker_release_due now (foldl (press_step name) [] evs) addr None = None)"
proof -
  have "press_inv (upper addr) st"
    using assms tracker_inv_run [of name evs] by (auto simp: active_def intro: tracker_inv_lookup)
  then have "300 \<le> release_threshold_ms st" "release_threshold_ms st \<le> 5000"
    by (simp_all add: press_inv_def press_consts)
  then show ?thesis
    using assms by (auto simp: active_def tracker_release_due_def names_press_def state_release_due_def silence_ms_def)
qed

theorem press_release_patience_witness:
  "tracker_release_due 6 (foldl (press_step (\<lambda>k n. k)) [] [Frame ''ab'' 0, Frame ''AB'' 1]) ''aB'' None
     = Some (counted 1 (new_press (\<lambda>k n. k) ''AB'' 0))"
proof -
  have "active (foldl (press_step (\<lambda>k n. k)) [] [Frame ''ab'' 0, Frame ''AB'' 1]) ''aB''
      = Some (counted 1 (new_press (\<lambda>k n. k) ''AB'' 0))"
    by (simp add: active_def upper_def tracker_frame_new tracker_frame_more press_inv_new)
  from press_release_patience [OF this, of 6] show ?thesis by simp
qed

lemma frames_run_active:
  "tracker_inv t \<Longrightarrow> map_of t key = Some st \<Longrightarrow>
   concat (map snd (filter (\<lambda>r. fst r = key) (frames_run name t fs))) =
     drop (length (milestones (frame_count st)))
       (milestones (frame_count st + int (length (filter (\<lambda>f. upper (fst f) = key) fs))))"
proof (induction fs arbitrary: t st)
  case Nil
  then show ?case by simp
next
  case (Cons f fs)
  obtain addr now where f: "f = (addr, now)" by force
  let ?t = "snd (tracker_frame name now t addr)"
  have inv: "tracker_inv ?t" using Cons.prems(1) by (rule tracker_inv_frame)
  show ?case
  proof (cases "upper addr = key")
    case True
    have "map_of ?t key = Some (counted now st)"
      using Cons.prems True tracker_frame_more [of t addr st name now] tracker_inv_lookup [of t key st]
      by (simp add: update_conv')
    from Cons.IH [OF inv this] show ?thesis
      using True Cons.prems tracker_frame_more [of t addr st name now] tracker_inv_lookup [of t key st]
      by (simp add: f split_def Let_def ac_simps)
        (simp add: milestones_cases)
  next
    case False
    have "map_of ?t key = Some st"
      using Cons.prems False by (cases "map_of t (upper addr)")
        (auto simp: tracker_frame_def Let_def split_def update_conv')
    from Cons.IH [OF inv this] show ?thesis using False
      by (simp add: f split_def Let_def)
  qed
qed

text \<open>
  C3. However the frames of different keys interleave, the frames of one press report each
  milestone (one, two and three seconds of held time) it has reached, once and in order, a second
  being 25 frames.
\<close>

theorem press_milestones_once:
  assumes "tracker_inv t" "active t key = None" "upper key = key"
  shows "concat (map snd (filter (\<lambda>r. fst r = key) (frames_run name t fs))) =
    milestones (int (length (filter (\<lambda>f. upper (fst f) = key) fs)))"
  using assms
proof (induction fs arbitrary: t)
  case Nil
  then show ?case by (simp add: milestones_cases)
next
  case (Cons f fs)
  obtain addr now where f: "f = (addr, now)" by force
  let ?t = "snd (tracker_frame name now t addr)"
  have inv: "tracker_inv ?t" using Cons.prems(1) by (rule tracker_inv_frame)
  show ?case
  proof (cases "upper addr = key")
    case True
    then have n: "tracker_frame name now t addr = ((new_press name key now, True, []),
        AList.update key (new_press name key now) t)"
      using Cons.prems tracker_frame_new [of t addr name now] by (simp add: active_def)
    then have "map_of ?t key = Some (new_press name key now)" by (simp add: update_conv')
    from frames_run_active [OF inv this, of name fs] show ?thesis
      using True by (simp add: f n new_press_def ac_simps) (simp add: milestones_cases)
  next
    case False
    have "active ?t key = None"
      using Cons.prems False by (cases "map_of t (upper addr)")
        (auto simp: active_def tracker_frame_def Let_def split_def update_conv')
    from Cons.IH [OF inv this Cons.prems(3)] show ?thesis using False
      by (simp add: f split_def Let_def)
  qed
qed


theorem press_milestones_once_witness:
  "concat (map snd (filter (\<lambda>r. fst r = ''AB'') (frames_run (\<lambda>k n. k) [] (replicate 60 (''ab'', 0))))) = [1, 2]"
proof -
  have "concat (map snd (filter (\<lambda>r. fst r = ''AB'') (frames_run (\<lambda>k n. k) [] (replicate 60 (''ab'', 0))))) =
      milestones (int (length (filter (\<lambda>f. upper (fst f) = ''AB'') (replicate 60 (''ab'', 0 :: rat)))))"
    by (rule press_milestones_once) (simp_all add: tracker_inv_def active_def upper_def)
  also have "filter (\<lambda>f. upper (fst f) = ''AB'') (replicate 60 (''ab'', 0 :: rat)) = replicate 60 (''ab'', 0)"
    by (simp add: filter_replicate upper_def)
  finally show ?thesis by (simp add: milestones_cases)
qed

subsection \<open>The groups a key reaches\<close>

definition link_reaches :: "pyval \<Rightarrow> string \<Rightarrow> int \<Rightarrow> bool" where
  \<comment> \<open>a link of the stored list drives output group \<open>g\<close> of module \<open>m\<close>\<close>
  "link_reaches link m g \<longleftrightarrow> (\<exists>d outs out ch. link = PDict d \<and> m = upper (str_or_empty (dict_get d ''module_address'')) \<and>
     m \<noteq> [] \<and> py_iter (py_or (dict_get d ''outputs'') (PList [])) = Inr outs \<and> out \<in> set outs \<and>
     out_channel out = Some ch \<and> g = group_of ch)"

lemma as_dict_PDict: "as_dict v = Some d \<longleftrightarrow> v = PDict d"
  by (auto simp: as_dict_def split: pyval.splits)

lemma add_outputs_set:
  "set (add_outputs m outs seen) = set seen \<union>
     {(m, g) |g. \<exists>out ch. out \<in> set outs \<and> out_channel out = Some ch \<and> g = group_of ch}"
proof (induction outs arbitrary: seen)
  case Nil
  then show ?case by simp
next
  case (Cons out outs)
  show ?case
  proof (cases "out_channel out")
    case None
    with Cons [of seen] show ?thesis by auto
  next
    case (Some ch)
    with Cons [of seen] Cons [of "seen @ [(m, group_of ch)]"] show ?thesis by (auto simp: Let_def)
  qed
qed

lemma add_outputs_distinct: "distinct seen \<Longrightarrow> distinct (add_outputs m outs seen)"
  by (induction m outs seen rule: add_outputs.induct) (auto simp: Let_def split: option.splits)

lemma add_links_spec:
  "add_links links seen = Inr gs \<Longrightarrow> distinct seen \<Longrightarrow>
   distinct gs \<and> set gs = set seen \<union> {(m, g). \<exists>link \<in> set links. link_reaches link m g}"
proof (induction links arbitrary: seen)
  case Nil
  then show ?case by simp
next
  case (Cons link links)
  show ?case
  proof (cases "as_dict link")
    case None
    then have "\<not> link_reaches link m g" for m g by (auto simp: link_reaches_def as_dict_def)
    then show ?thesis using Cons None by simp
  next
    case (Some d)
    define m0 where "m0 = upper (str_or_empty (dict_get d ''module_address''))"
    have link: "link = PDict d" using Some by (simp add: as_dict_PDict)
    show ?thesis
    proof (cases "m0 = []")
      case True
      then have "\<not> link_reaches link m g" for m g by (auto simp: link_reaches_def link m0_def)
      then show ?thesis using Cons Some True by (simp add: m0_def)
    next
      case False
      with Cons.prems Some obtain outs where
        outs: "py_iter (py_or (dict_get d ''outputs'') (PList [])) = Inr outs"
          "add_links links (add_outputs m0 outs seen) = Inr gs"
        by (auto simp: res_bind_Inr_iff m0_def [symmetric])
      have "link_reaches link m g \<longleftrightarrow> m = m0 \<and> (\<exists>out ch. out \<in> set outs \<and>
          out_channel out = Some ch \<and> g = group_of ch)" for m g
        using False outs(1) by (auto simp: link_reaches_def link m0_def)
      moreover from Cons.IH [OF outs(2)] add_outputs_distinct [OF Cons.prems(2)]
      have "distinct gs \<and> set gs = set (add_outputs m0 outs seen) \<union> {(m, g). \<exists>link \<in> set links. link_reaches link m g}"
        by blast
      ultimately show ?thesis by (auto simp: add_outputs_set)
    qed
  qed
qed

text \<open>
  C4. The groups a key's press refreshes are the pairs of module and output group its stored links
  drive, each once: a malformed link or output adds nothing and hides nothing.
\<close>

theorem impacted_groups_spec:
  assumes "impacted_groups op_point = Inr gs"
  shows "distinct gs \<and> (\<exists>links. py_iter (py_or (dict_get op_point ''linked_modules'') (PList [])) = Inr links \<and>
     set gs = {(m, g). \<exists>link \<in> set links. link_reaches link m g})"
proof -
  from assms obtain links where l: "py_iter (py_or (dict_get op_point ''linked_modules'') (PList [])) = Inr links"
    "add_links links [] = Inr gs" by (auto simp: impacted_groups_def res_bind_Inr_iff)
  with add_links_spec [OF l(2)] show ?thesis by auto
qed

theorem impacted_groups_spec_witness:
  "\<exists>gs. distinct gs \<and> (''C9A5'', 2) \<in> set gs \<and>
     impacted_groups [(''linked_modules'', PList [PDict [(''module_address'', PStr ''c9a5''),
       (''outputs'', PList [PStr ''x'', PDict [(''channel'', PInt 7)]])]])] = Inr gs"
proof -
  let ?op = "[(''linked_modules'', PList [PDict [(''module_address'', PStr ''c9a5''),
       (''outputs'', PList [PStr ''x'', PDict [(''channel'', PInt 7)]])]])]"
  have "impacted_groups ?op = Inr [(''C9A5'', 2)]"
    by (simp add: impacted_groups_def py_iter_def as_dict_def as_int_def group_of_def upper_def out_channel_def)
  moreover from impacted_groups_spec [OF this] have "distinct [(''C9A5'', 2 :: int)]" by blast
  ultimately show ?thesis by (intro exI [of _ "[(''C9A5'', 2)]"]) simp
qed

end
