(* ===== verification/Travel.thy ===== *)
theory Travel
  imports Prelude Complex_Main
begin

section \<open>Shutter positions\<close>

text \<open>
  \<open>travel.py\<close>: where a shutter is, from how long it has been moving. The clock value is an
  argument of the operations; seconds and percentages are exact rationals where the code has floats.
\<close>

record travel =
  time_up :: rat
  time_down :: rat
  position :: rat
  start_time :: "rat option"
  start_pos :: "rat option"
  direction :: "int option"

definition new_travel :: "rat \<Rightarrow> rat \<Rightarrow> travel" where
  "new_travel up down = \<lparr>time_up = up, time_down = down, position = 100, start_time = None,
     start_pos = None, direction = None\<rparr>"

definition is_moving :: "travel \<Rightarrow> bool" where
  "is_moving t \<longleftrightarrow> direction t \<noteq> None"

definition set_position :: "rat \<Rightarrow> travel \<Rightarrow> travel" where
  "set_position p t = t\<lparr>position := max 0 (min 100 p)\<rparr>"

definition current_position :: "rat \<Rightarrow> travel \<Rightarrow> rat" where
  "current_position now t = (case (direction t, start_time t, start_pos t) of
       (Some d, Some t0, Some p0) \<Rightarrow>
         (let active_time = (if d = 1 then time_up t else time_down t) in
          if active_time \<le> 0 then position t
          else let progress = (now - t0) / active_time * 100 in
            if d = 1 then min 100 (p0 + progress) else max 0 (p0 - progress))
     | _ \<Rightarrow> position t)"

definition start_travel :: "string \<Rightarrow> rat \<Rightarrow> rat \<Rightarrow> travel \<Rightarrow> travel" where
  "start_travel dir latency now t =
     (let p = current_position now t in
      t\<lparr>position := p, start_pos := Some p, start_time := Some (now - max 0 latency),
        direction := Some (if dir = ''opening'' then 1 else - 1)\<rparr>)"

definition stop :: "rat \<Rightarrow> travel \<Rightarrow> travel" where
  "stop now t = t\<lparr>position := current_position now t, direction := None\<rparr>"

subsection \<open>Runs\<close>

datatype travel_call = SetPosition rat | StartTravel string rat | Stop

fun travel_op :: "rat \<Rightarrow> travel_call \<Rightarrow> travel \<Rightarrow> travel" where
  "travel_op now (SetPosition p) t = set_position p t"
| "travel_op now (StartTravel dir latency) t = start_travel dir latency now t"
| "travel_op now Stop t = stop now t"

definition in_range :: "rat \<Rightarrow> bool" where
  "in_range p \<longleftrightarrow> 0 \<le> p \<and> p \<le> 100"

definition travel_inv :: "rat \<Rightarrow> travel \<Rightarrow> bool" where
  \<comment> \<open>positions are percentages, and a move did not start later than now\<close>
  "travel_inv now t \<longleftrightarrow> in_range (position t) \<and>
     (case start_pos t of None \<Rightarrow> True | Some p \<Rightarrow> in_range p) \<and>
     (case start_time t of None \<Rightarrow> True | Some t0 \<Rightarrow> t0 \<le> now) \<and>
     (case direction t of None \<Rightarrow> True | Some d \<Rightarrow> d = 1 \<or> d = - 1)"

lemma travel_inv_later: "travel_inv now t \<Longrightarrow> now \<le> now' \<Longrightarrow> travel_inv now' t"
  by (auto simp: travel_inv_def split: option.splits)

definition share :: "rat \<Rightarrow> rat \<Rightarrow> rat" where
  \<comment> \<open>the percentage of the way that \<open>elapsed\<close> seconds are\<close>
  "share elapsed run = elapsed / run * 100"

lemma share_nonneg: "0 \<le> elapsed \<Longrightarrow> 0 < run \<Longrightarrow> 0 \<le> share elapsed run"
  by (simp add: share_def)

lemma share_add: "share (a + b) run = share a run + share b run"
  by (simp add: share_def add_divide_distrib distrib_right)

lemma current_position_moving:
  "direction t = Some d \<Longrightarrow> start_time t = Some s \<Longrightarrow> start_pos t = Some p \<Longrightarrow>
   current_position now t =
     (let run = (if d = 1 then time_up t else time_down t) in
      if run \<le> 0 then position t
      else if d = 1 then min 100 (p + share (now - s) run) else max 0 (p - share (now - s) run))"
  by (simp add: current_position_def share_def Let_def)

lemma current_position_idle: "direction t = None \<Longrightarrow> current_position now t = position t"
  by (simp add: current_position_def)

lemma current_position_started:
  "current_position now (start_travel dir latency t0 t) =
     (let p = current_position t0 t; x = now - (t0 - max 0 latency) in
      if dir = ''opening''
      then if time_up t \<le> 0 then p else min 100 (p + share x (time_up t))
      else if time_down t \<le> 0 then p else max 0 (p - share x (time_down t)))"
  by (simp add: start_travel_def current_position_def [of now] share_def Let_def)

lemma current_position_range:
  assumes "travel_inv now t" shows "in_range (current_position now t)"
proof (cases "\<exists>d t0 p0. direction t = Some d \<and> start_time t = Some t0 \<and> start_pos t = Some p0")
  case True
  then obtain d t0 p0 where s: "direction t = Some d" "start_time t = Some t0" "start_pos t = Some p0" by blast
  have p0: "0 \<le> p0" "p0 \<le> 100" "t0 \<le> now" "0 \<le> position t" "position t \<le> 100"
    using assms s by (auto simp: travel_inv_def in_range_def)
  have "0 \<le> share (now - t0) a" if "0 < a" for a using p0(3) that by (simp add: share_nonneg)
  note prog = this [of "time_up t"] this [of "time_down t"]
  show ?thesis unfolding current_position_moving [OF s]
    using p0 prog by (auto simp: in_range_def Let_def)
next
  case False
  then have "current_position now t = position t"
    by (auto simp: current_position_def split: option.splits)
  then show ?thesis using assms by (simp add: travel_inv_def)
qed

lemma travel_inv_op:
  assumes "travel_inv now t" shows "travel_inv now (travel_op now ev t)"
  using assms current_position_range [OF assms]
  by (cases ev) (auto simp: set_position_def start_travel_def stop_def travel_inv_def in_range_def Let_def
    split: option.splits)

fun travel_run :: "(rat \<times> travel_call) list \<Rightarrow> travel \<Rightarrow> travel" where
  "travel_run [] t = t"
| "travel_run ((now, ev) # evs) t = travel_run evs (travel_op now ev t)"

lemma travel_inv_run:
  "travel_inv now0 t \<Longrightarrow> sorted (now0 # map fst evs) \<Longrightarrow>
   travel_inv (last (now0 # map fst evs)) (travel_run evs t)"
proof (induction evs arbitrary: now0 t)
  case Nil
  then show ?case by simp
next
  case (Cons ev evs)
  obtain now op where ev: "ev = (now, op)" by force
  have "travel_inv now (travel_op now op t)"
    using Cons.prems by (intro travel_inv_op travel_inv_later [OF Cons.prems(1)]) (simp add: ev)
  from Cons.IH [OF this] show ?case using Cons.prems by (simp add: ev)
qed

text \<open>
  However a shutter is moved, re-targeted, stopped and set by a clock that does not run back,
  the position read at any later time is a percentage.
\<close>

theorem travel_position_range:
  assumes "sorted (map fst evs)" "\<forall>(t, _) \<in> set evs. t \<le> now"
  shows "in_range (current_position now (travel_run evs (new_travel up down)))"
proof (cases evs)
  case Nil
  then show ?thesis by (simp add: new_travel_def current_position_def in_range_def)
next
  case (Cons ev rest)
  have "travel_inv (fst ev) (new_travel up down)" by (simp add: travel_inv_def new_travel_def in_range_def)
  from travel_inv_run [OF this, of evs] assms(1)
  have "travel_inv (last (map fst evs)) (travel_run evs (new_travel up down))" by (simp add: Cons)
  moreover have "last evs \<in> set evs" "last (map fst evs) = fst (last evs)"
    using Cons by (simp_all add: last_map)
  then have "last (map fst evs) \<le> now" using assms(2) by fastforce
  ultimately show ?thesis by (rule current_position_range [OF travel_inv_later])
qed

theorem travel_position_range_witness:
  "in_range (current_position 9 (travel_run [(0, SetPosition 0), (1, StartTravel ''opening'' 0), (3, StartTravel ''closing'' 1)] (new_travel 10 10)))"
  by (rule travel_position_range) simp_all

text \<open>
  A stopped shutter driven for a share of its run time moves by that share of the whole way, in the
  direction asked for and not beyond the end; the time the move was noticed late counts as travelled.
\<close>

theorem travel_moves_by_share:
  assumes "\<not> is_moving t" "0 \<le> latency" "0 < (if dir = ''opening'' then time_up t else time_down t)"
  shows "current_position now (start_travel dir latency t0 t) =
    (if dir = ''opening'' then min 100 (position t + share (now - t0 + latency) (time_up t))
     else max 0 (position t - share (now - t0 + latency) (time_down t)))"
proof -
  have "current_position t0 t = position t"
    using assms(1) by (simp add: is_moving_def current_position_idle)
  moreover have "now - (t0 - latency) = now - t0 + latency" by simp
  ultimately show ?thesis
    using assms(2,3) by (simp add: current_position_started Let_def max_absorb2 algebra_simps split: if_splits)
qed

theorem travel_moves_by_share_witness:
  "current_position 7 (start_travel ''closing'' 1 4 (new_travel 10 20)) = 80"
proof -
  have "\<not> is_moving (new_travel 10 20)" by (simp add: new_travel_def is_moving_def)
  from travel_moves_by_share [OF this, of 1 "''closing''" 7 4] show ?thesis by (simp add: new_travel_def share_def)
qed

text \<open>
  Re-targeting a moving shutter in the direction it already moves does not change where it is,
  then or at any later time.
\<close>

theorem travel_retarget_continues:
  assumes "direction t = Some (if dir = ''opening'' then 1 else - 1)" "start_time t = Some s" "start_pos t = Some p"
    and "s \<le> t0" "t0 \<le> now" "0 < (if dir = ''opening'' then time_up t else time_down t)"
  shows "current_position now (start_travel dir 0 t0 t) = current_position now t"
proof -
  let ?a = "if dir = ''opening'' then time_up t else time_down t"
  have "share (now - s) ?a = share (t0 - s) ?a + share (now - t0) ?a"
    using share_add [of "t0 - s" "now - t0" ?a] by simp
  moreover have "0 \<le> share (now - t0) ?a" using assms(5,6) by (intro share_nonneg) simp_all
  ultimately show ?thesis
    using assms(6) by (cases "dir = ''opening''")
      (auto simp: current_position_started current_position_moving [OF assms(1-3)] Let_def min_def max_def)
qed

theorem travel_retarget_continues_witness:
  "current_position 8 (start_travel ''opening'' 0 5 (start_travel ''opening'' 0 2 (new_travel 10 20)))
    = current_position 8 (start_travel ''opening'' 0 2 (new_travel 10 20))"
  by (rule travel_retarget_continues [where s = 2 and p = 100])
    (simp_all add: start_travel_def new_travel_def current_position_def)

end
