(* ===== verification/Rgb.thy ===== *)
theory Rgb
  imports Tables
begin

section \<open>The colour controller\<close>

text \<open>
  \<open>rgb.py\<close>: the six-byte state image of the RGB controller decoded into flags, and what a
  short press of a plate key does in a link of each mode.
\<close>

definition RGB_STATE_HEX :: nat where "RGB_STATE_HEX = 12"

record rgb_state =
  on :: bool
  red :: bool
  green :: bool
  blue :: bool

definition rgb_off :: rgb_state where
  "rgb_off = \<lparr>on = False, red = False, green = False, blue = False\<rparr>"

definition COLOUR_NAMES :: "((bool \<times> bool \<times> bool) \<times> string) list" where
  "COLOUR_NAMES =
     [((True, False, False), ''red''), ((False, True, False), ''green''), ((False, False, True), ''blue''),
      ((True, True, False), ''yellow''), ((True, False, True), ''magenta''), ((False, True, True), ''cyan''),
      ((True, True, True), ''white'')]"

definition colour_name :: "rgb_state \<Rightarrow> string" where
  "colour_name st = (if \<not> on st then ''off''
     else (case map_of COLOUR_NAMES (red st, green st, blue st) of None \<Rightarrow> ''on'' | Some n \<Rightarrow> n))"

definition rgb :: "rgb_state \<Rightarrow> int \<times> int \<times> int" where
  "rgb st = (if \<not> on st then (0, 0, 0)
     else (if red st then 255 else 0, if green st then 255 else 0, if blue st then 255 else 0))"

definition rgb_of_bytes :: "byte list \<Rightarrow> rgb_state" where
  \<comment> \<open>the flags of an image of at least four bytes\<close>
  "rgb_of_bytes r = \<lparr>on = (r ! 0 \<noteq> 0), red = (r ! 1 \<noteq> 0), green = (r ! 2 \<noteq> 0), blue = (r ! 3 \<noteq> 0)\<rparr>"

datatype rgb_image = ImageText string | ImageBytes "byte list"

definition decode_rgb_state :: "rgb_image \<Rightarrow> rgb_state res" where
  \<comment> \<open>twelve characters can be fewer than four bytes (white space between bytes is skipped); then
     indexing raises\<close>
  "decode_rgb_state img = (case img of
       ImageText s \<Rightarrow> (let t = py_strip s in
         if length t < RGB_STATE_HEX then Inr rgb_off
         else (case bytes_fromhex (take RGB_STATE_HEX t) of
             None \<Rightarrow> Inr rgb_off
           | Some r \<Rightarrow> if length r < 4 then Inl IndexError else Inr (rgb_of_bytes r)))
     | ImageBytes b \<Rightarrow> (let r = take 6 b in if length r < 4 then Inr rgb_off else Inr (rgb_of_bytes r)))"

definition RGB_MODE_KEY_ROLES :: "(int \<times> (string \<times> string) list) list" where
  "RGB_MODE_KEY_ROLES =
     [(1, [(''upper'', ''on''), (''lower'', ''off'')]),
      (4, [(''single'', ''scene'')]),
      (5, [(''single'', ''on'')]),
      (6, [(''single'', ''off'')]),
      (7, [(''single'', ''delayed_off'')]),
      (8, [(''single'', ''flash'')]),
      (12, [(''single'', ''preset'')]),
      (13, [(''single'', ''toggle'')]),
      (15, [(''single'', ''delayed_return'')]),
      (16, [(''upper_left'', ''colour_next''), (''lower_left'', ''colour_prev''),
            (''upper_right'', ''on''), (''lower_right'', ''off'')]),
      (17, [(''upper'', ''on''), (''lower'', ''off'')]),
      (18, [(''upper_left'', ''start_stop''), (''lower_left'', ''off''),
            (''upper_right'', ''speed_up''), (''lower_right'', ''speed_down'')]),
      (19, [(''upper'', ''start_stop''), (''lower'', ''off'')]),
      (20, [(''single'', ''start'')]),
      (21, [(''single'', ''toggle'')])]"

definition RGB_ON_ROLES :: "string list" where
  "RGB_ON_ROLES = [''on'', ''toggle'', ''start_stop'', ''start'', ''preset'', ''scene'', ''delayed_off'']"

definition RGB_OFF_ROLES :: "string list" where
  "RGB_OFF_ROLES = [''off'', ''toggle'']"

definition key_letter :: "string \<Rightarrow> char option" where
  \<comment> \<open>the group of \<open>^[12]?([A-D])$\<close>\<close>
  "key_letter s = (let r = (case s of c # (d # t) \<Rightarrow> if c \<in> {CHR ''1'', CHR ''2''} then d # t else s | _ \<Rightarrow> s)
     in case r of [c] \<Rightarrow> if c \<in> set ''ABCD'' then Some c else None | _ \<Rightarrow> None)"

definition rgb_key_position :: "int \<Rightarrow> string \<Rightarrow> string option" where
  "rgb_key_position mode_number key_label = (case map_of RGB_MODE_KEYS mode_number of
       None \<Rightarrow> None
     | Some keys \<Rightarrow> (case key_letter (upper (py_strip key_label)) of
           None \<Rightarrow> None
         | Some letter \<Rightarrow>
             if keys = 1 then Some ''single''
             else if keys = 2 then Some (if letter \<in> set ''AC'' then ''upper'' else ''lower'')
             else map_of [(CHR ''A'', ''upper_left''), (CHR ''B'', ''lower_left''),
                          (CHR ''C'', ''upper_right''), (CHR ''D'', ''lower_right'')] letter))"

definition rgb_key_role :: "int \<Rightarrow> string \<Rightarrow> string option" where
  "rgb_key_role mode_number key_label = (case rgb_key_position mode_number key_label of
       None \<Rightarrow> None
     | Some position \<Rightarrow> (case map_of RGB_MODE_KEY_ROLES mode_number of
           None \<Rightarrow> None
         | Some roles \<Rightarrow> map_of roles position))"

definition rgb_mode_text :: "int \<Rightarrow> string" where
  \<comment> \<open>\<open>rgb_mode_label\<close> as \<open>rgb.py\<close> exports it\<close>
  "rgb_mode_text mode_number = (case map_of RGB_MODE_NAMES mode_number of
       None \<Rightarrow> ''M'' @ fmt_dec 2 mode_number
     | Some name \<Rightarrow> if name = [] then ''M'' @ fmt_dec 2 mode_number
                     else ''M'' @ fmt_dec 2 mode_number @ '' ('' @ name @ '')'')"

subsection \<open>The two tables agree\<close>

definition plate_labels :: "string list" where
  "plate_labels = [''A'', ''B'', ''C'', ''D'', ''1A'', ''1B'', ''1C'', ''1D'', ''2A'', ''2B'', ''2C'', ''2D'']"

lemma rgb_roles_table:
  "list_all (\<lambda>m. list_all (\<lambda>l. rgb_key_role m l \<noteq> None) plate_labels) (map fst RGB_MODE_KEYS)"
  by (simp add: plate_labels_def RGB_MODE_KEYS_def RGB_MODE_KEY_ROLES_def rgb_key_role_def rgb_key_position_def
    key_letter_def upper_def py_strip_def is_space_def code_def)

text \<open>
  Every key of every mode of the key table has a role in the role table, and no key has one in
  any other mode.
\<close>

theorem rgb_roles_total:
  assumes "l \<in> set plate_labels"
  shows "rgb_key_role m l \<noteq> None \<longleftrightarrow> m \<in> set (map fst RGB_MODE_KEYS)"
proof (cases "m \<in> set (map fst RGB_MODE_KEYS)")
  case True
  then show ?thesis using assms rgb_roles_table by (auto simp: list_all_iff)
next
  case False
  then have "map_of RGB_MODE_KEYS m = None" by (simp add: map_of_eq_None_iff)
  then show ?thesis using False by (simp add: rgb_key_role_def rgb_key_position_def)
qed

theorem rgb_roles_total_witness:
  "rgb_key_role 19 ''1C'' \<noteq> None \<longleftrightarrow> 19 \<in> set (map fst RGB_MODE_KEYS)"
  by (rule rgb_roles_total) (simp add: plate_labels_def)

text \<open>
  The state image of the controller, as hexadecimal text of any case or as bytes, decodes to
  the same flags: a byte that is not zero is lit.
\<close>

theorem decode_rgb_state_text:
  assumes "length bs = 6"
  shows "decode_rgb_state (ImageText (hex_of bs)) = Inr (rgb_of_bytes bs) \<and>
    decode_rgb_state (ImageText (hex_of_lower bs)) = Inr (rgb_of_bytes bs) \<and>
    decode_rgb_state (ImageBytes bs) = Inr (rgb_of_bytes bs)"
proof -
  have "length (hex_of_lower bs) = length (upper (hex_of_lower bs))" by (simp only: length_upper)
  then have l: "length (hex_of_lower bs) = 12" using assms by (simp only: upper_hex_of_lower length_hex_of)
  have "list_all is_hex (hex_of_lower bs)"
    by (auto simp: hex_of_lower_def byte_hex_lower_def list_all_iff is_hex_def byte_div_16)
  then have "py_strip (hex_of_lower bs) = hex_of_lower bs" by (rule py_strip_hex)
  moreover have "py_strip (hex_of bs) = hex_of bs" by (rule py_strip_hex) simp
  ultimately show ?thesis
    using assms l by (simp add: decode_rgb_state_def RGB_STATE_HEX_def)
qed

theorem decode_rgb_state_text_witness:
  "decode_rgb_state (ImageText (hex_of_lower [0xFF, 0, 0xFF, 0xFF, 0, 0])) =
     Inr \<lparr>on = True, red = False, green = True, blue = True\<rparr>"
  using decode_rgb_state_text [of "[0xFF, 0, 0xFF, 0xFF, 0, 0]"] by (simp add: rgb_of_bytes_def)

text \<open>Twelve characters with white space between them may hold fewer than four bytes: the code raises there.\<close>

lemma decode_rgb_state_spaced_raises: "decode_rgb_state (ImageText ''FF        FF'') = Inl IndexError"
  by (simp add: decode_rgb_state_def RGB_STATE_HEX_def py_strip_def is_space_def is_byte_space_def code_def)

end
