(* ===== verification/Stream_Split.thy ===== *)
theory Stream_Split
  imports Prelude
begin

section \<open>Records cut from a stream\<close>

text \<open>
  Parts of the program cut records from data that arrives in pieces: the listener cuts lines ended
  by a carriage return, the chunk decoder cuts link records of a fixed length. Each keeps what does
  not yet complete a record. The locale states the law such a cutter has to satisfy and shows from
  it that the records do not depend on how the data was cut into pieces.
\<close>

fun feed_with :: "('a list \<Rightarrow> 'b list \<times> 'a list) \<Rightarrow> 'a list \<Rightarrow> 'a list list \<Rightarrow> 'b list \<times> 'a list" where
  "feed_with cutf buffer [] = ([], buffer)"
| "feed_with cutf buffer (piece # pieces) =
     (let (rs, buffer') = cutf (buffer @ piece); (rs', buffer'') = feed_with cutf buffer' pieces
      in (rs @ rs', buffer''))"

locale stream_cutter =
  fixes cutf :: "'a list \<Rightarrow> 'b list \<times> 'a list"
  assumes cut_append: "cutf (xs @ ys) =
    (fst (cutf xs) @ fst (cutf (snd (cutf xs) @ ys)), snd (cutf (snd (cutf xs) @ ys)))"
    and cut_Nil: "cutf [] = ([], [])"
begin

lemma cut_rest: "cutf (snd (cutf xs)) = ([], snd (cutf xs))"
  using cut_append [of xs "[]"] by (simp add: prod_eq_iff)

lemma feed_cut: "cutf buffer = ([], buffer) \<Longrightarrow> feed_with cutf buffer pieces = cutf (buffer @ concat pieces)"
proof (induction pieces arbitrary: buffer)
  case Nil
  then show ?case by simp
next
  case (Cons piece pieces)
  obtain rs b where c: "cutf (buffer @ piece) = (rs, b)" by force
  have "cutf b = ([], b)" using cut_rest [of "buffer @ piece"] by (simp add: c)
  from Cons.IH [OF this] show ?case
    using cut_append [of "buffer @ piece" "concat pieces"] by (simp add: c split_def Let_def)
qed

lemma feed_whole: "feed_with cutf [] pieces = cutf (concat pieces)"
  using feed_cut [of "[]"] cut_Nil by simp

end

end
