(* ===== verification/Listener.thy ===== *)
theory Listener
  imports Frames Stream_Split "HOL-Library.AList"
begin

section \<open>The listener\<close>

text \<open>
  \<open>listener.py\<close>: frames cut from the serial stream, their validation and their routing.
  \<open>listener\<close> holds the attributes of \<open>NikobusEventListener\<close> the operations read and
  write, with the connection's \<open>device_answered\<close>; the callbacks of the host are the outputs of
  an operation, in order, and are taken to return. Text is what the Windows-1252 decoder
  delivers, restricted to characters below 256.
\<close>

subsection \<open>Frames of the stream\<close>

fun split_on :: "char \<Rightarrow> string \<Rightarrow> string list" where
  \<comment> \<open>\<open>s.split(c)\<close>\<close>
  "split_on d [] = [[]]"
| "split_on d (c # s) = (if c = d then [] # split_on d s
     else (case split_on d s of t # ts \<Rightarrow> (c # t) # ts | [] \<Rightarrow> [[c]]))"

fun split_marks :: "string \<Rightarrow> string list" where
  \<comment> \<open>\<open>re.split("(?=[$#])", s)\<close>: a cut before every \<open>$\<close> and every \<open>#\<close>\<close>
  "split_marks [] = [[]]"
| "split_marks (c # s) = (let r = (case split_marks s of t # ts \<Rightarrow> (c # t) # ts | [] \<Rightarrow> [[c]])
     in if c = CHR ''$'' \<or> c = CHR ''#'' then [] # r else r)"

definition clean :: "string \<Rightarrow> string" where
  "clean s = map (\<lambda>c. if code c = 10 then char_of (13 :: nat) else c)
     (filter (\<lambda>c. code c \<noteq> 3) (filter (\<lambda>c. code c \<noteq> 2) s))"

definition CR :: char where "CR = char_of (13 :: nat)"

definition frames_of_line :: "string \<Rightarrow> string list" where
  "frames_of_line line = (let frame = py_strip line in
     if frame = [] then [] else filter (\<lambda>f. f \<noteq> []) (split_marks frame))"

definition cut_lines :: "string \<Rightarrow> string list \<times> string" where
  \<comment> \<open>the frames of the complete lines of a buffer, and the incomplete line\<close>
  "cut_lines buf = (let parts = split_on CR buf in
     (concat (map frames_of_line (butlast parts)), last parts))"

subsection \<open>Validation\<close>

definition CRC16_FRAME_PREFIXES :: "string list" where
  "CRC16_FRAME_PREFIXES = [''$18'', ''$1C'', ''$2E'', ''$1E'']"

definition find_from :: "nat \<Rightarrow> char \<Rightarrow> string \<Rightarrow> nat" where
  \<comment> \<open>\<open>s.find(c, k)\<close> where there is one\<close>
  "find_from k c s = k + length (takeWhile (\<lambda>x. x \<noteq> c) (drop k s))"

function last_frame :: "string \<Rightarrow> string" where
  "last_frame message = (if length (filter (\<lambda>c. c = CHR ''$'') message) > 1
     then last_frame (drop (find_from 1 CHR ''$'' message) message) else message)"
  by pat_completeness auto
termination
proof (relation "measure length")
  fix message :: string
  assume "length (filter (\<lambda>c. c = CHR ''$'') message) > 1"
  then have "message \<noteq> []" by auto
  then show "(drop (find_from 1 CHR ''$'' message) message, message) \<in> measure length"
    by (simp add: find_from_def)
qed simp

declare last_frame.simps [simp del]

definition check_payload_crc :: "string \<Rightarrow> bool" where
  "check_payload_crc message =
     (if take 3 message \<in> set CRC16_FRAME_PREFIXES
      then (let payload = slice 3 (length message - 6) message in
            if payload \<noteq> [] \<and> set payload \<noteq> {CHR ''F''}
            then (case calc_crc1 payload of
                    Inl e \<Rightarrow> False
                  | Inr crc \<Rightarrow> int_to_hex crc 4 = upper (but_last 2 (last_of 6 message)))
            else True)
      else True)"

definition validate_crc :: "string \<Rightarrow> bool" where
  "validate_crc message0 = (let message = last_frame message0 in
     if length message = 5 \<and> starts_with message ''$05'' then True
     else (case py_int16 (slice 1 3 message) of
        None \<Rightarrow> False
      | Some expected_total \<Rightarrow>
          if int (length message) \<noteq> expected_total - 1 then False
          else if upper (int_to_hex (calc_crc2 (but_last 2 message)) 2) \<noteq> upper (last_of 2 message) then False
          else check_payload_crc message))"

subsection \<open>State\<close>

record listener =
  running :: bool
  response_queue :: "string list"
  frame_buffer :: string
  last_query_group :: "(string \<times> int) list"
  awaited_query :: "(string \<times> int) option"
  awaited_ack_seen :: bool
  feedback_queries_seen :: int
  feedback_answers_seen :: int
  awaiting_response :: bool
  awaited_answer :: "string option"
  has_feedback_module :: bool
  has_feedback_callback :: bool
  device_answered :: "bool option"

datatype listener_out =
    EventCallback string
  | FeedbackCallback int string
  | DeviceAnswered string
  | ConnectionLost

definition QUEUE_SIZE :: nat where "QUEUE_SIZE = 200"

definition listener_init :: "bool \<Rightarrow> bool \<Rightarrow> bool option \<Rightarrow> listener" where
  "listener_init feedback_module feedback_cb answered =
     \<lparr>running = False, response_queue = [], frame_buffer = [], last_query_group = [], awaited_query = None,
      awaited_ack_seen = False, feedback_queries_seen = 0, feedback_answers_seen = 0,
      awaiting_response = False, awaited_answer = None, has_feedback_module = feedback_module,
      has_feedback_callback = feedback_cb, device_answered = answered\<rparr>"

definition listener_reset :: "listener \<Rightarrow> listener" where
  "listener_reset st = st\<lparr>frame_buffer := [], last_query_group := [], feedback_queries_seen := 0,
     feedback_answers_seen := 0, response_queue := []\<rparr>"

definition set_pending_query_group :: "string \<Rightarrow> int \<Rightarrow> listener \<Rightarrow> listener" where
  "set_pending_query_group addr g st =
     st\<lparr>last_query_group := AList.update addr g (last_query_group st),
        awaited_query := Some (addr, g), awaited_ack_seen := False\<rparr>"

definition enqueue_response :: "string \<Rightarrow> listener \<Rightarrow> listener" where
  "enqueue_response message st =
     (if length (response_queue st) < QUEUE_SIZE
      then st\<lparr>response_queue := response_queue st @ [message]\<rparr>
      else st\<lparr>response_queue := tl (response_queue st) @ [message]\<rparr>)"

definition extract_frames :: "string \<Rightarrow> listener \<Rightarrow> string list \<times> listener" where
  "extract_frames text st = (let (frames, rest) = cut_lines (frame_buffer st @ clean text)
     in (frames, st\<lparr>frame_buffer := rest\<rparr>))"

subsection \<open>Routing\<close>

definition is_proof_of_life :: "string \<Rightarrow> bool" where
  "is_proof_of_life message =
     (if starts_with message ''#N'' then length message \<ge> 8
      else if starts_with message ''$05'' then length message \<ge> 5
      else starts_with message ''$'' \<and> validate_crc message)"

definition is_awaited_query_reply :: "string \<Rightarrow> listener \<Rightarrow> bool" where
  "is_awaited_query_reply message st \<longleftrightarrow> awaiting_response st \<and>
     (case awaited_answer st of None \<Rightarrow> False
      | Some awaited \<Rightarrow> awaited \<noteq> [] \<and> starts_with awaited ''$1CFF'' \<and> starts_with message awaited)"

definition attribute_state_answer :: "string \<Rightarrow> string \<Rightarrow> listener \<Rightarrow> int \<times> listener" where
  "attribute_state_answer addr message st =
     (case (awaited_query st, awaited_answer st) of
        (Some (a, g), Some answer) \<Rightarrow>
          if awaiting_response st \<and> awaited_ack_seen st \<and> a = addr \<and> answer \<noteq> [] \<and> starts_with message answer
          then (g, st\<lparr>awaited_query := None, last_query_group := AList.update addr g (last_query_group st)\<rparr>)
          else (case map_of (last_query_group st) addr of None \<Rightarrow> 1 | Some g' \<Rightarrow> g', st)
      | _ \<Rightarrow> (case map_of (last_query_group st) addr of None \<Rightarrow> 1 | Some g' \<Rightarrow> g', st))"

definition on_command_processed :: "string \<Rightarrow> listener \<Rightarrow> listener_out list \<times> listener" where
  "on_command_processed message st =
     ([EventCallback message],
      if awaiting_response st then enqueue_response message (st\<lparr>awaited_ack_seen := True\<rparr>) else st)"

definition on_refresh_echo :: "string \<Rightarrow> listener \<Rightarrow> listener" where
  "on_refresh_echo message st =
     (let st = st\<lparr>feedback_queries_seen := feedback_queries_seen st + 1\<rparr> in
      if has_feedback_module st \<and> length message \<ge> 9
      then let g0 = (case map_of [(''12'', 1), (''17'', 2)] (slice 3 5 message) of None \<Rightarrow> 1 | Some g \<Rightarrow> g);
               addr = upper (slice 7 9 message @ slice 5 7 message)
           in st\<lparr>last_query_group := AList.update addr g0 (last_query_group st)\<rparr>
      else st)"

definition on_state_answer :: "string \<Rightarrow> listener \<Rightarrow> listener_out list \<times> listener" where
  "on_state_answer message st =
     (if \<not> validate_crc message then ([], st)
      else if is_awaited_query_reply message st then ([], enqueue_response message st)
      else
        let st = (if awaiting_response st then st
                  else st\<lparr>feedback_answers_seen := feedback_answers_seen st + 1\<rparr>);
            (outs, st) =
              (if has_feedback_module st \<and> has_feedback_callback st \<and> length message \<ge> 7
               then let addr = upper (slice 5 7 message @ slice 3 5 message);
                        (g0, st) = attribute_state_answer addr message st
                    in ([FeedbackCallback g0 message], st)
               else ([], st))
        in (outs, if awaiting_response st then enqueue_response message st else st))"

definition on_manual_refresh :: "string \<Rightarrow> listener \<Rightarrow> listener" where
  "on_manual_refresh message st =
     (if validate_crc message
      then enqueue_response message (if awaiting_response st then st\<lparr>awaited_ack_seen := True\<rparr> else st)
      else st)"

definition on_discovery_frame :: "string \<Rightarrow> listener \<Rightarrow> listener_out list \<times> listener" where
  "on_discovery_frame message st =
     (if validate_crc message
      then ([EventCallback message], if awaiting_response st then enqueue_response message st else st)
      else ([], st))"

definition on_other_response :: "string \<Rightarrow> listener \<Rightarrow> listener" where
  "on_other_response message st =
     (if awaiting_response st \<and> (starts_with message ''$05'' \<or> validate_crc message)
      then enqueue_response message (if starts_with message ''$05'' then st\<lparr>awaited_ack_seen := True\<rparr> else st)
      else st)"

definition route :: "string \<Rightarrow> listener \<Rightarrow> listener_out list \<times> listener" where
  "route message st =
     (if starts_with message ''#N'' then ([EventCallback message], st)
      else if starts_with message ''$0515'' \<or> starts_with message ''$0516'' then on_command_processed message st
      else if starts_with message ''$1012'' \<or> starts_with message ''$1017'' then ([], on_refresh_echo message st)
      else if starts_with message ''$1C'' then on_state_answer message st
      else if starts_with message ''$0512'' \<or> starts_with message ''$0517'' then ([], on_manual_refresh message st)
      else if starts_with message ''$18'' \<or> starts_with message ''$2E'' \<or> starts_with message ''$1E''
        then on_discovery_frame message st
      else if starts_with message ''$'' then ([], on_other_response message st)
      else ([EventCallback message], st))"

definition mark_device_answered :: "string \<Rightarrow> listener \<Rightarrow> listener_out list \<times> listener" where
  \<comment> \<open>the connection's operation: the flag, and the host's notification\<close>
  "mark_device_answered message st =
     (if device_answered st = Some False
      then ([DeviceAnswered message], st\<lparr>device_answered := Some True\<rparr>) else ([], st))"

definition dispatch_message :: "string \<Rightarrow> listener \<Rightarrow> listener_out list \<times> listener" where
  "dispatch_message message st =
     (if message = [] then ([], st)
      else let (o1, st) = (if device_answered st = Some False \<and> is_proof_of_life message
                           then mark_device_answered message st else ([], st));
               (o2, st) = route message st
           in (o1 @ o2, st))"

fun dispatch_all :: "string list \<Rightarrow> listener \<Rightarrow> listener_out list \<times> listener" where
  "dispatch_all [] st = ([], st)"
| "dispatch_all (m # ms) st =
     (let (o1, st) = dispatch_message m st; (o2, st) = dispatch_all ms st in (o1 @ o2, st))"

datatype read_result = ReadData string | ReadTimeout | ReadFailed bool


subsection \<open>Cutting lines does not depend on the pieces\<close>

lemma split_on_not_Nil [simp]: "split_on d s \<noteq> []"
  by (induction s) (auto split: list.splits)

lemma split_on_append:
  "split_on d (xs @ ys) = butlast (split_on d xs) @ split_on d (last (split_on d xs) @ ys)"
proof (induction xs)
  case Nil
  then show ?case by simp
next
  case (Cons c xs)
  show ?case
  proof (cases "c = d")
    case True
    with Cons show ?thesis by simp
  next
    case False
    obtain t ts where t: "split_on d xs = t # ts" by (cases "split_on d xs") simp_all
    show ?thesis
    proof (cases ts)
      case Nil
      then show ?thesis using False Cons t by simp
    next
      case (Cons u us)
      then show ?thesis using False Cons.IH t by simp
    qed
  qed
qed

interpretation lines: stream_cutter cut_lines
proof
  fix xs ys :: string
  note s = split_on_append [of CR xs ys]
  then have "butlast (split_on CR (xs @ ys)) = butlast (split_on CR xs) @ butlast (split_on CR (last (split_on CR xs) @ ys))"
    by (simp add: butlast_append)
  moreover have "last (split_on CR (xs @ ys)) = last (split_on CR (last (split_on CR xs) @ ys))"
    by (simp add: s)
  ultimately show "cut_lines (xs @ ys) = (fst (cut_lines xs) @ fst (cut_lines (snd (cut_lines xs) @ ys)),
      snd (cut_lines (snd (cut_lines xs) @ ys)))"
    by (simp add: cut_lines_def Let_def)
qed (simp add: cut_lines_def frames_of_line_def)

lemma clean_append [simp]: "clean (s @ t) = clean s @ clean t"
  by (simp add: clean_def)

fun extract_all :: "string list \<Rightarrow> listener \<Rightarrow> string list \<times> listener" where
  \<comment> \<open>the frames of a sequence of reads\<close>
  "extract_all [] st = ([], st)"
| "extract_all (text # texts) st =
     (let (fs, st) = extract_frames text st; (fs', st) = extract_all texts st in (fs @ fs', st))"

lemma extract_all_feed:
  "extract_all texts st = (let (fs, rest) = feed_with cut_lines (frame_buffer st) (map clean texts)
     in (fs, st\<lparr>frame_buffer := rest\<rparr>))"
  by (induction texts arbitrary: st) (simp_all add: extract_frames_def split_def Let_def)

text \<open>
  C5. From an empty buffer, the frames extracted from the serial data and the partial frame left over
  do not depend on how the data was cut into reads.
\<close>

theorem extract_frames_any_pieces:
  assumes "frame_buffer st = []" "concat texts = concat texts'"
  shows "extract_all texts st = extract_all texts' st"
proof -
  have "concat (map clean ts) = clean (concat ts)" for ts
    by (induction ts) (simp_all add: clean_def)
  with assms show ?thesis by (simp add: extract_all_feed lines.feed_whole)
qed

theorem extract_frames_any_pieces_witness:
  "extract_all [''$05'', ''11'' @ [CR] @ ''#N1''] (listener_init True True None) =
   extract_all [''$0511'' @ [CR] @ ''#N1''] (listener_init True True None)"
  by (rule extract_frames_any_pieces) (simp_all add: listener_init_def)

subsection \<open>Which frames are valid\<close>

lemma no_dollar_last_frame: "CHR ''$'' \<notin> set s \<Longrightarrow> last_frame (CHR ''$'' # s) = CHR ''$'' # s"
  by (subst last_frame.simps) (simp add: filter_empty_conv)

lemma hex_no_dollar: "list_all is_hex s \<Longrightarrow> CHR ''$'' \<notin> set s"
  by (auto simp: list_all_iff)


definition stamped :: "byte list \<Rightarrow> nat \<Rightarrow> string" where
  \<comment> \<open>a payload forwarded with the CRC-16 \<open>m\<close> and a good CRC-8: what the PC-Link makes of any bytes\<close>
  "stamped p m = (let body = ''$'' @ hexw 2 (2 * length p + 10) @ hex_of p @ hexw 4 m
     in body @ hexw 2 (nat (calc_crc2 body)))"

lemma frame_text_stamped: "frame_text p = stamped p (nat (crc1_bytes p))"
  by (simp add: frame_text_def stamped_def)

lemma stamped_split:
  "stamped p m = CHR ''$'' # hexw 2 (2 * length p + 10) @ hex_of p @ hexw 4 m @
     hexw 2 (nat (calc_crc2 (''$'' @ hexw 2 (2 * length p + 10) @ hex_of p @ hexw 4 m)))"
  by (simp add: stamped_def Let_def)

lemma length_stamped [simp]: "length (stamped p m) = 2 * length p + 9"
  by (simp add: stamped_split)

lemma last_frame_stamped [simp]: "last_frame (stamped p m) = stamped p m"
  unfolding stamped_split by (rule no_dollar_last_frame) (auto simp: hex_no_dollar)

lemma but_last_stamped:
  "but_last 2 (stamped p m) = ''$'' @ hexw 2 (2 * length p + 10) @ hex_of p @ hexw 4 m"
  unfolding stamped_def Let_def by (rule but_last_append) simp

lemma last_of_stamped: "last_of 2 (stamped p m) = hexw 2 (nat (calc_crc2 (but_last 2 (stamped p m))))"
  unfolding but_last_stamped unfolding stamped_def Let_def by (rule last_of_append) simp

lemma slice_1_3_stamped: "slice (Suc 0) 3 (stamped p m) = hexw 2 (2 * length p + 10)"
  by (simp add: stamped_split slice_def)

lemma payload_stamped: "slice 3 (length (stamped p m) - 6) (stamped p m) = hex_of p"
  by (simp add: stamped_split slice_def)

lemma crc16_stamped: "but_last 2 (last_of 6 (stamped p m)) = hexw 4 m"
proof -
  define z where "z = hexw 2 (nat (calc_crc2 (''$'' @ hexw 2 (2 * length p + 10) @ hex_of p @ hexw 4 m)))"
  have "stamped p m = (''$'' @ hexw 2 (2 * length p + 10) @ hex_of p) @ (hexw 4 m @ z)"
    by (simp add: stamped_split z_def)
  moreover have "length z = 2" by (simp add: z_def)
  ultimately show ?thesis by (simp only: last_of_append [of "hexw 4 m @ z"] length_append length_hexw but_last_append)
qed

lemma int_to_hex_4: "int_to_hex (crc1_bytes p) 4 = hexw 4 (nat (crc1_bytes p))"
  by (rule int_to_hex_crc1)

lemma nat_less_iff_int: "nat (crc1_bytes p) < 65536"
  using crc1_bytes_bounds [of p] by (simp add: nat_less_iff)

lemma hexw_inject: "m < 16 ^ w \<Longrightarrow> n < 16 ^ w \<Longrightarrow> hexw w m = hexw w n \<longleftrightarrow> m = n"
  by (metis hex_nat_hexw mod_less)

definition all_F :: "byte list \<Rightarrow> bool" where
  \<comment> \<open>the end-of-table trailer, which carries no payload checksum\<close>
  "all_F p \<longleftrightarrow> p \<noteq> [] \<and> set (hex_of p) = {CHR ''F''}"

lemma validate_stamped:
  assumes "length p \<le> 122" "m < 65536"
  shows "validate_crc (stamped p m) \<longleftrightarrow>
    (take 3 (stamped p m) \<in> set CRC16_FRAME_PREFIXES \<longrightarrow> p = [] \<or> all_F p \<or> m = nat (crc1_bytes p))"
proof -
  have i: "py_int16 (slice 1 3 (stamped p m)) = Some (int (2 * length p + 10))"
    using assms(1) by (simp add: slice_1_3_stamped del: of_nat_add of_nat_mult)
  have c: "upper (int_to_hex (calc_crc2 (but_last 2 (stamped p m))) 2) = upper (last_of 2 (stamped p m))"
    by (simp add: last_of_stamped int_to_hex_crc2)
  have h: "hexw 4 (nat (crc1_bytes p)) = hexw 4 m \<longleftrightarrow> nat (crc1_bytes p) = m"
    using assms(2) nat_less_iff_int [of p] by (intro hexw_inject) simp_all
  have "hex_of p = [] \<longleftrightarrow> p = []" by (metis length_0_conv length_hex_of mult_is_0 zero_neq_numeral)
  then have "check_payload_crc (stamped p m) \<longleftrightarrow>
      (take 3 (stamped p m) \<in> set CRC16_FRAME_PREFIXES \<longrightarrow> p = [] \<or> all_F p \<or> m = nat (crc1_bytes p))"
    unfolding check_payload_crc_def payload_stamped crc16_stamped Let_def
    using h by (auto simp: int_to_hex_4 all_F_def)
  then show ?thesis unfolding validate_crc_def Let_def last_frame_stamped i option.case c by simp
qed

lemma validate_crc_accepts_length: "length p \<le> 122 \<Longrightarrow> validate_crc (frame_text p)"
  using validate_stamped [of p "nat (crc1_bytes p)"] nat_less_iff_int [of p] by (simp add: frame_text_stamped)

text \<open>
  The listener accepts every frame built by the frame layout: length byte, payload, CRC-16 and
  CRC-8 of any payload of at most 122 bytes.
\<close>

theorem validate_crc_accepts:
  assumes "length p \<le> 122" shows "validate_crc (frame_text p)"
  using assms by (rule validate_crc_accepts_length)

theorem validate_crc_accepts_witness: "validate_crc (frame_text [0xF5, 0x86, 0, 0x50, 0x0F, 0x3F, 0xFF])"
  by (rule validate_crc_accepts) simp

lemma take_3_stamped: "take 3 (stamped p m) = CHR ''$'' # hexw 2 (2 * length p + 10)"
  by (simp add: stamped_split)

lemma answer_class_prefix:
  assumes "length p \<in> {7, 9, 10, 18}"
  shows "take 3 (stamped p m) \<in> set CRC16_FRAME_PREFIXES"
proof -
  have h: "hexw 2 24 = ''18''" "hexw 2 28 = ''1C''" "hexw 2 30 = ''1E''" "hexw 2 46 = ''2E''"
    by (simp_all add: eval_simps)
  from assms have "2 * length p + 10 = 24 \<or> 2 * length p + 10 = 28 \<or> 2 * length p + 10 = 30 \<or> 2 * length p + 10 = 46"
    by auto
  then show ?thesis unfolding take_3_stamped CRC16_FRAME_PREFIXES_def
    by (elim disjE) (simp_all only: h, simp_all)
qed

text \<open>
  C6. A byte, or two neighbouring bytes, changed on the bus are noticed: a module's answer of one of
  the classes that carry a CRC-16, with the checksum the module computed and a fresh CRC-8 over the
  corrupted text, is rejected unless the corrupted payload reads as the end-of-table trailer.
\<close>

theorem bus_corruption_rejected:
  assumes "(x, y) \<noteq> (x', y')" "length us + length vs + 2 \<in> {7, 9, 10, 18}"
    and "\<not> all_F (us @ x' # y' # vs)"
  shows "\<not> validate_crc (stamped (us @ x' # y' # vs) (nat (crc1_bytes (us @ x # y # vs))))"
proof -
  let ?p = "us @ x # y # vs" and ?q = "us @ x' # y' # vs"
  have "crc1_bytes ?p \<noteq> crc1_bytes ?q"
    using crc16_double [OF assms(1)] by (simp add: crc1_bytes_inject)
  then have n: "nat (crc1_bytes ?p) \<noteq> nat (crc1_bytes ?q)" by (simp add: eq_nat_nat_iff)
  have l: "length ?q \<in> {7, 9, 10, 18}" using assms(2) by simp
  have "length ?q = length us + length vs + 2" by simp
  then have "length ?q \<le> 122" using assms(2) by (elim insertE emptyE) linarith+
  from validate_stamped [OF this nat_less_iff_int [of ?p]] answer_class_prefix [OF l] n assms(3)
  show ?thesis by blast
qed

theorem bus_corruption_rejected_witness:
  "\<not> validate_crc (stamped [0x6D, 0x96, 0, 0x10, 0x0F, 0x3F, 0xFF] (nat (crc1_bytes [0x6C, 0x96, 0, 0x10, 0x0F, 0x3F, 0xFF])))"
proof -
  have a: "(0x6C :: byte, 0x96 :: byte) \<noteq> (0x6D, 0x96)" by simp
  have b: "length ([] :: byte list) + length [0 :: byte, 0x10, 0x0F, 0x3F, 0xFF] + 2 \<in> {7, 9, 10, 18}" by simp
  have "byte_hex 0x6D = ''6D''" by (simp add: byte_hex_def)
  then have six: "CHR ''6'' \<in> set (hex_of (0x6D # bs))" for bs by simp
  have c: "\<not> all_F ([] @ 0x6D # 0x96 # [0, 0x10, 0x0F, 0x3F, 0xFF])"
  proof
    assume "all_F ([] @ 0x6D # 0x96 # [0, 0x10, 0x0F, 0x3F, 0xFF])"
    with six [of "0x96 # [0, 0x10, 0x0F, 0x3F, 0xFF]"] have "CHR ''6'' \<in> {CHR ''F''}"
      unfolding all_F_def append_Nil by (simp only:)
    then show False by simp
  qed
  from bus_corruption_rejected [OF a b c] show ?thesis by (simp only: append_Nil not_False_eq_True)
qed






subsection \<open>Routing\<close>

text \<open>
  What the queue keeps of the messages put on it: the newest 200, in order. A message that arrives on a
  full queue drops the oldest one, it is never refused.
\<close>

definition kept_of :: "string list \<Rightarrow> string list \<Rightarrow> string list" where
  "kept_of q new = drop (length (q @ new) - QUEUE_SIZE) (q @ new)"


lemma kept_of_Nil [simp]: "length q \<le> QUEUE_SIZE \<Longrightarrow> kept_of q [] = q"
  by (simp add: kept_of_def)






lemma Nil_in_subseqs [simp]: "[] \<in> set (subseqs ms)"
  by (induction ms) (auto simp: Let_def)





lemma attribute_queue [simp]: "response_queue (snd (attribute_state_answer addr m st)) = response_queue st"
  by (auto simp: attribute_state_answer_def split: option.splits prod.splits)





definition read_texts :: "read_result list \<Rightarrow> string list" where
  \<comment> \<open>the data of the reads, up to the one that lost the connection\<close>
  "read_texts rs = concat (List.map (\<lambda>r. case r of ReadData d \<Rightarrow> if d = [] then [] else [d] | _ \<Rightarrow> [])
     (takeWhile (\<lambda>r. r \<noteq> ReadFailed False) rs))"

lemma read_texts_simps [simp]:
  "read_texts [] = []" "read_texts (ReadData d # rs) = (if d = [] then [] else [d]) @ read_texts rs"
  "read_texts (ReadTimeout # rs) = read_texts rs"
  "read_texts (ReadFailed c # rs) = (if c then read_texts rs else [])"
  by (auto simp: read_texts_def)



lemma enqueue_loop_state [simp]:
  "frame_buffer (enqueue_response m st) = frame_buffer st" "running (enqueue_response m st) = running st"
  by (simp_all add: enqueue_response_def)

lemma attribute_loop_state [simp]:
  "frame_buffer (snd (attribute_state_answer a m st)) = frame_buffer st"
  "running (snd (attribute_state_answer a m st)) = running st"
  by (auto simp: attribute_state_answer_def split: option.splits prod.splits)











subsection \<open>State answers and the group they belong to\<close>

lemma echo_frame:
  assumes "g = 1 \<or> g = 2"
  shows "\<exists>r. frame_text (command_bytes (if g = 1 then 0x12 else 0x17) a None) =
      ''$10'' @ (if g = 1 then ''12'' else ''17'') @ byte_hex (of_nat a) @ byte_hex (of_nat (a div 256)) @ r"
proof -
  have "hexw 2 16 = ''10''" "byte_hex 0x12 = ''12''" "byte_hex 0x17 = ''17''"
    by (simp_all add: eval_simps byte_hex_def)
  then show ?thesis using assms by (auto simp: frame_text_split command_bytes_def)
qed

lemma dispatch_plain:
  "m \<noteq> [] \<Longrightarrow> device_answered st \<noteq> Some False \<Longrightarrow> dispatch_message m st = route m st"
  by (simp add: dispatch_message_def split_def)

lemma starts_with_same_length:
  "starts_with s p \<Longrightarrow> length q = length p \<Longrightarrow> starts_with s q \<longleftrightarrow> p = q"
  by (auto simp: starts_with_def)

lemma route_echo:
  assumes "starts_with m ''$1012'' \<or> starts_with m ''$1017''"
  shows "route m st = ([], on_refresh_echo m st)"
  using assms by (auto simp: route_def starts_with_iff)

lemma route_ack:
  assumes "starts_with m ''$0512'' \<or> starts_with m ''$0517''"
  shows "route m st = ([], on_manual_refresh m st)"
  using assms by (auto simp: route_def starts_with_iff)

lemma route_answer:
  assumes "starts_with m ''$1C''"
  shows "route m st = on_state_answer m st"
  using assms by (auto simp: route_def starts_with_iff)

definition state_answer :: "nat \<Rightarrow> byte list \<Rightarrow> string" where
  \<comment> \<open>a module's answer to a state query: its address low byte first, a status byte, six outputs\<close>
  "state_answer a rest = frame_text (of_nat a # of_nat (a div 256) # rest)"

definition state_query :: "nat \<Rightarrow> int \<Rightarrow> string" where
  \<comment> \<open>the query as it is sent on the bus, by a host or by a Feedback Module\<close>
  "state_query a g = frame_text (command_bytes (if g = 1 then 0x12 else 0x17) a None)"

lemma state_answer_text:
  assumes "length rest = 7"
  shows "\<exists>r. state_answer a rest = ''$1C'' @ byte_hex (of_nat a) @ byte_hex (of_nat (a div 256)) @ r"
    "validate_crc (state_answer a rest)"
proof -
  have "hexw 2 28 = ''1C''" by (simp add: eval_simps)
  then show "\<exists>r. state_answer a rest = ''$1C'' @ byte_hex (of_nat a) @ byte_hex (of_nat (a div 256)) @ r"
    using assms by (simp add: state_answer_def frame_text_split)
  show "validate_crc (state_answer a rest)"
    unfolding state_answer_def using assms by (intro validate_crc_accepts_length) simp
qed

lemma state_answer_key:
  assumes "length rest = 7"
  shows "upper (slice 5 7 (state_answer a rest) @ slice 3 5 (state_answer a rest)) = hexw 4 a"
proof -
  from state_answer_text(1) [OF assms, of a] obtain r
    where "state_answer a rest = ''$1C'' @ byte_hex (of_nat a) @ byte_hex (of_nat (a div 256)) @ r" by blast
  then show ?thesis by (simp add: slice_def byte_hex_append numeral_3_eq_3)
qed

lemma state_query_key:
  assumes "g = 1 \<or> g = 2"
  shows "on_refresh_echo (state_query a g) st =
    (let st = st\<lparr>feedback_queries_seen := feedback_queries_seen st + 1\<rparr> in
     if has_feedback_module st then st\<lparr>last_query_group := AList.update (hexw 4 a) g (last_query_group st)\<rparr> else st)"
    "starts_with (state_query a g) ''$1012'' \<or> starts_with (state_query a g) ''$1017''"
proof -
  from echo_frame [OF assms, of a] obtain r where r: "state_query a g =
      ''$10'' @ (if g = 1 then ''12'' else ''17'') @ byte_hex (of_nat a) @ byte_hex (of_nat (a div 256)) @ r"
    unfolding state_query_def by blast
  have "upper (slice 7 9 (state_query a g) @ slice 5 7 (state_query a g)) = hexw 4 a"
    by (simp add: r slice_def byte_hex_append)
  moreover have "slice 3 5 (state_query a g) = (if g = 1 then ''12'' else ''17'')"
    by (simp add: r slice_def numeral_3_eq_3)
  moreover have "9 \<le> length (state_query a g)" by (simp add: r)
  ultimately show "on_refresh_echo (state_query a g) st =
    (let st = st\<lparr>feedback_queries_seen := feedback_queries_seen st + 1\<rparr> in
     if has_feedback_module st then st\<lparr>last_query_group := AList.update (hexw 4 a) g (last_query_group st)\<rparr> else st)"
    using assms by (auto simp: on_refresh_echo_def Let_def)
  show "starts_with (state_query a g) ''$1012'' \<or> starts_with (state_query a g) ''$1017''"
    by (simp add: r)
qed

text \<open>
  A state answer nobody here waits for belongs to the group of the query a Feedback Module sent
  before it: the group-1 or group-2 query for a module, then that module's nine-byte answer, reach the
  feedback callback with that group, the query itself reaching nobody.
\<close>

theorem feedback_answer_attributed:
  assumes "g = 1 \<or> g = 2" "length rest = 7" "device_answered st \<noteq> Some False"
    and "has_feedback_module st" "has_feedback_callback st" "\<not> awaiting_response st"
  shows "fst (dispatch_all [state_query a g, state_answer a rest] st) = [FeedbackCallback g (state_answer a rest)]"
proof -
  define q where "q = state_query a g"
  define m where "m = state_answer a rest"
  have ne: "q \<noteq> []" "m \<noteq> []" by (simp_all add: q_def m_def state_query_def state_answer_def frame_text_split)
  have m: "starts_with m ''$1C''" "validate_crc m" "7 \<le> length m"
    using state_answer_text [OF assms(2), of a] by (auto simp: m_def)
  have key: "upper (slice 5 7 m @ slice 3 5 m) = hexw 4 a" unfolding m_def by (rule state_answer_key [OF assms(2)])
  note q = state_query_key [OF assms(1), of a, folded q_def]
  show ?thesis using assms(3-6) ne m key
    by (simp add: q_def [symmetric] m_def [symmetric] dispatch_plain route_echo [OF q(2)] q(1) route_answer
      on_state_answer_def is_awaited_query_reply_def attribute_state_answer_def Let_def update_conv'
      split: option.splits)
qed

theorem feedback_answer_attributed_witness:
  "fst (dispatch_all [state_query 0xC9A5 2, state_answer 0xC9A5 [0, 0xFF, 0, 0, 0, 0, 0]] (listener_init True True (Some True)))
    = [FeedbackCallback 2 (state_answer 0xC9A5 [0, 0xFF, 0, 0, 0, 0, 0])]"
  by (rule feedback_answer_attributed) (simp_all add: listener_init_def)

definition is_echo :: "string \<Rightarrow> bool" where
  "is_echo m \<longleftrightarrow> starts_with m ''$1012'' \<or> starts_with m ''$1017''"

definition is_ack :: "string \<Rightarrow> bool" where
  "is_ack m \<longleftrightarrow> (starts_with m ''$0512'' \<or> starts_with m ''$0517'') \<and> validate_crc m"

lemma echo_nonempty: "is_echo m \<Longrightarrow> m \<noteq> []" and ack_nonempty: "is_ack m \<Longrightarrow> m \<noteq> []"
  by (auto simp: is_echo_def is_ack_def)

lemma refresh_echo_update:
  "on_refresh_echo m st = st\<lparr>feedback_queries_seen := feedback_queries_seen st + 1,
     last_query_group := last_query_group (on_refresh_echo m st)\<rparr>"
  by (simp add: on_refresh_echo_def Let_def)

lemma dispatch_echoes:
  assumes "\<forall>m \<in> set es. is_echo m" "device_answered st \<noteq> Some False"
  shows "\<exists>n l. dispatch_all (es @ ms) st =
    dispatch_all ms (st\<lparr>feedback_queries_seen := n, last_query_group := l\<rparr>)"
  using assms
proof (induction es arbitrary: st)
  case Nil
  show ?case by (intro exI [of _ "feedback_queries_seen st"] exI [of _ "last_query_group st"]) simp
next
  case (Cons m es)
  have m: "dispatch_message m st = ([], on_refresh_echo m st)"
    using Cons.prems by (simp add: dispatch_plain echo_nonempty route_echo is_echo_def)
  obtain n l where s: "on_refresh_echo m st = st\<lparr>feedback_queries_seen := n, last_query_group := l\<rparr>"
    using refresh_echo_update by blast
  have "\<exists>n' l'. dispatch_all (es @ ms) (on_refresh_echo m st) =
      dispatch_all ms ((on_refresh_echo m st)\<lparr>feedback_queries_seen := n', last_query_group := l'\<rparr>)"
    by (rule Cons.IH) (use Cons.prems in \<open>simp_all add: s\<close>)
  then show ?case by (auto simp: m s)
qed

definition low_first :: "nat \<Rightarrow> string" where
  \<comment> \<open>an address as frames carry it\<close>
  "low_first a = byte_hex (of_nat a) @ byte_hex (of_nat (a div 256))"

lemma low_first_no_FF:
  assumes "a mod 256 \<noteq> 255" shows "\<not> starts_with (low_first a @ r) ''FF''"
proof
  assume "starts_with (low_first a @ r) ''FF''"
  then have "byte_hex (of_nat a) = ''FF''" by (simp add: low_first_def byte_hex_def)
  then have "hex_nat (hexw 2 a) = hex_nat ''FF''" by (simp only: byte_hex_of_nat)
  moreover have "hex_nat ''FF'' = 255" by (simp add: hex_nat_def)
  ultimately have "a mod 256 = 255" using hex_nat_hexw [of 2 a] by simp
  then show False using assms by simp
qed

text \<open>
  C9. The answer to a state query of our own keeps its group: once the query for a group has been
  announced and acknowledged, any number of Feedback Module queries for any group may pass before the
  answer; the answer reaches the feedback callback with the group we asked for, and the caller's queue.
  (A low address byte \<open>FF\<close> makes the answer look like a clock reply; it then reaches the queue only.)
\<close>

theorem awaited_answer_keeps_group:
  assumes "length rest = 7" "a mod 256 \<noteq> 255" "device_answered st \<noteq> Some False"
    and "has_feedback_module st" "has_feedback_callback st"
    and "awaiting_response st" "awaited_answer st = Some (''$1C'' @ low_first a)"
    and "is_ack ack" "\<forall>e \<in> set echoes. is_echo e"
  shows "\<exists>st'. dispatch_all (ack # echoes @ [state_answer a rest]) (set_pending_query_group (hexw 4 a) g st)
      = ([FeedbackCallback g (state_answer a rest)], st') \<and> last (response_queue st') = state_answer a rest"
proof -
  define m where "m = state_answer a rest"
  let ?s0 = "set_pending_query_group (hexw 4 a) g st"
  let ?s1 = "enqueue_response ack (?s0\<lparr>awaited_ack_seen := True\<rparr>)"
  have s1: "awaiting_response ?s1" "awaited_answer ?s1 = Some (''$1C'' @ low_first a)" "awaited_ack_seen ?s1"
    "awaited_query ?s1 = Some (hexw 4 a, g)" "has_feedback_module ?s1" "has_feedback_callback ?s1"
    "device_answered ?s1 \<noteq> Some False"
    using assms by (simp_all add: set_pending_query_group_def enqueue_response_def)
  have "dispatch_message ack ?s0 = ([], ?s1)"
    using assms(3,6,8) by (simp add: dispatch_plain ack_nonempty route_ack is_ack_def on_manual_refresh_def
      set_pending_query_group_def)
  moreover obtain n l where "dispatch_all (echoes @ [m]) ?s1 =
      dispatch_all [m] (?s1\<lparr>feedback_queries_seen := n, last_query_group := l\<rparr>)" (is "_ = dispatch_all [m] ?s2")
    using dispatch_echoes [OF assms(9) s1(7)] by blast
  ultimately have d: "dispatch_all (ack # echoes @ [m]) ?s0 = dispatch_message m ?s2"
    by (simp add: split_def Let_def)
  have m1: "starts_with m ''$1C''" "validate_crc m" "7 \<le> length m" "m \<noteq> []" "starts_with m (''$1C'' @ low_first a)"
    using state_answer_text [OF assms(1), of a] by (auto simp: m_def low_first_def starts_with_iff)
  have key: "upper (slice 5 7 m @ slice 3 5 m) = hexw 4 a" unfolding m_def by (rule state_answer_key [OF assms(1)])
  have "\<not> starts_with (''$1C'' @ low_first a) ''$1CFF''" using low_first_no_FF [OF assms(2), of "[]"] by simp
  then have nr: "\<not> is_awaited_query_reply m ?s2" using s1(2) by (simp add: is_awaited_query_reply_def)
  let ?s3 = "?s2\<lparr>awaited_query := None, last_query_group := AList.update (hexw 4 a) g (last_query_group ?s2)\<rparr>"
  have at: "attribute_state_answer (hexw 4 a) m ?s2 = (g, ?s3)"
    using s1 m1(5) by (simp add: attribute_state_answer_def)
  have "dispatch_message m ?s2 = on_state_answer m ?s2"
    using s1(7) m1(1,4) by (simp add: dispatch_plain route_answer)
  also have "\<dots> = ([FeedbackCallback g m], enqueue_response m ?s3)"
    using s1(1,5,6) m1(2,3) nr by (simp only: on_state_answer_def key Let_def) (simp add: at)
  finally show ?thesis using d by (simp add: m_def [symmetric]) (simp add: enqueue_response_def)
qed

theorem awaited_answer_keeps_group_witness:
  "\<exists>st'. dispatch_all (''$0512'' # [state_query 0xC9A5 2] @ [state_answer 0xC9A5 [0, 0xFF, 0, 0, 0, 0, 0]])
      (set_pending_query_group (hexw 4 0xC9A5) 1 ((listener_init True True (Some True))
        \<lparr>awaiting_response := True, awaited_answer := Some (''$1C'' @ low_first 0xC9A5)\<rparr>))
      = ([FeedbackCallback 1 (state_answer 0xC9A5 [0, 0xFF, 0, 0, 0, 0, 0])], st') \<and>
     last (response_queue st') = state_answer 0xC9A5 [0, 0xFF, 0, 0, 0, 0, 0]"
proof -
  have "last_frame ''$0512'' = ''$0512''" by (subst last_frame.simps) simp
  then have a: "is_ack ''$0512''" by (simp add: is_ack_def validate_crc_def)
  have "is_echo (state_query 0xC9A5 2)" using state_query_key(2) [of 2 "0xC9A5"] by (simp add: is_echo_def)
  then have e: "\<forall>e \<in> set [state_query 0xC9A5 2]. is_echo e" by simp
  show ?thesis by (rule awaited_answer_keeps_group [OF _ _ _ _ _ _ _ a e]) (simp_all add: listener_init_def)
qed

end
