(* ===== verification/Links.thy ===== *)
theory Links
  imports Addresses Stream_Split PyVal
begin

section \<open>Link records of the output modules\<close>

text \<open>
  The helpers of \<open>discovery/protocol.py\<close> that decode link records, the decoders of
  \<open>switch_decoder.py\<close>, \<open>shutter_decoder.py\<close> and \<open>dimmer_decoder.py\<close>, and the chunking
  of \<open>chunk_decoder.py\<close>. The host's look-ups are arguments (\<open>coordinator\<close>); a look-up
  returns \<open>Inl\<close> where it raises.
\<close>

subsection \<open>Helpers\<close>

definition reverse_hex :: "string \<Rightarrow> string res" where
  "reverse_hex s = res_bind (of_option ValueError (bytes_fromhex s)) (\<lambda>b. Inr (hex_of (rev b)))"

definition normalize_payload :: "string \<Rightarrow> string list option" where
  "normalize_payload payload_hex = map_option (map byte_hex) (bytes_fromhex payload_hex)"

definition is_all_ff :: "string \<Rightarrow> nat option \<Rightarrow> bool" where
  "is_all_ff payload_hex expected_length =
     (let normalized = upper payload_hex in
      if (case expected_length of None \<Rightarrow> False | Some n \<Rightarrow> length normalized \<noteq> n) then False
      else normalized \<noteq> [] \<and> set normalized = {CHR ''F''})"

definition count_byte :: "byte list \<Rightarrow> byte \<Rightarrow> nat" where
  "count_byte bs b = length (filter (\<lambda>x. x = b) bs)"

definition is_garbage_chunk :: "string \<Rightarrow> bool" where
  "is_garbage_chunk payload_hex = (case bytes_fromhex payload_hex of
       None \<Rightarrow> False
     | Some bs \<Rightarrow> let n = length bs in
         if n < 4 then False
         else let max_count = fold max (map (count_byte bs) bs) 0 in
           if max_count * 10 \<ge> n * 7 then True
           else (count_byte bs 0 + count_byte bs 0xFF) * 10 \<ge> n * 7)"

definition safe_int :: "string \<Rightarrow> int option" where
  "safe_int hex_byte = py_int16 hex_byte"

definition format_channel :: "int \<Rightarrow> string option" where
  "format_channel channel_number =
     (if channel_number \<le> 0 then None
      else (case map_of CHANNEL_MAPPING (channel_number - 1) of
              None \<Rightarrow> Some (''Channel '' @ fmt_dec 1 channel_number)
            | Some l \<Rightarrow> Some l))"

definition classify_device_type :: "string \<Rightarrow> (string \<times> device_info) list \<Rightarrow> device_info option" where
  \<comment> \<open>\<open>None\<close> stands for the entry of unknown devices\<close>
  "classify_device_type device_type_hex device_types = map_of device_types (upper (py_strip device_type_hex))"

definition is_motion_detector :: "pyval \<Rightarrow> bool" where
  "is_motion_detector entry = (case as_dict entry of
       None \<Rightarrow> False
     | Some d \<Rightarrow>
         upper (str_or_empty (dict_get d ''device_type'')) = MOTION_DETECTOR_DEVICE_TYPE \<or>
         py_strip (str_or_empty (dict_get d ''model'')) = MOTION_DETECTOR_MODEL \<or>
         contains (lower (str_or_empty (dict_get d ''type''))) ''motion detector'')"

subsection \<open>Decoded records\<close>

record coordinator =
  get_button_channels :: "string \<Rightarrow> int option res"
  get_module_channel_count :: "string \<Rightarrow> int option res"
  get_module_type :: "string \<Rightarrow> string option"
  dict_module_data :: pydict

record decoder_context =
  ctx_coordinator :: "coordinator option"
  ctx_module_address :: "string option"
  ctx_module_channel_count :: "int option"

record decoded =
  payload :: string
  button_address :: "string option"
  push_button_address :: "string option"
  calendar_channel :: "string option"
  key_raw :: int
  channel_raw :: int
  channel :: int
  mode_raw :: int
  t1_raw :: "int option"
  t2_raw :: "int option"
  chain_raw :: "int option"
  label_C :: "string option"
  label_T1 :: "string option"
  label_T2 :: "string option"
  label_M :: "string option"
  record_source :: string

definition link_address :: "decoder_context \<Rightarrow> string \<Rightarrow> int \<Rightarrow> (string option \<times> string option) \<times> string option" where
  \<comment> \<open>push-button address, button address and calendar label of a record: the part the three decoders
     share word for word\<close>
  "link_address context payload_hex key =
     (let button = get_button_address (last_of 6 payload_hex);
          calendar = calendar_channel_from_link (last_of 6 payload_hex);
          button = (case calendar of None \<Rightarrow> button | Some c \<Rightarrow> Some (snd c));
          get_channels = map_option get_button_channels (ctx_coordinator context)
      in (get_push_button_address (Some key) button get_channels, map_option fst calendar))"

definition channel_ok :: "decoder_context \<Rightarrow> int \<Rightarrow> bool" where
  "channel_ok context ch = (case ctx_module_channel_count context of None \<Rightarrow> True
     | Some n \<Rightarrow> 1 \<le> ch \<and> ch \<le> n)"

subsubsection \<open>Switch modules\<close>

definition switch_timer_value :: "int \<Rightarrow> int option \<Rightarrow> string option \<times> string option" where
  "switch_timer_value mode t1 = (case t1 of None \<Rightarrow> (None, None)
     | Some t \<Rightarrow>
       let timer_entry = (case map_of SWITCH_TIMER_MAPPING t of None \<Rightarrow> [None, None, None] | Some e \<Rightarrow> e) in
       if mode \<in> {5, 6} then (timer_entry ! 0, None)
       else if mode \<in> {8, 9} then (timer_entry ! 1, None)
       else if mode \<in> {1, 2} then (timer_entry ! 2, None)
       else (None, None))"

definition switch_decode :: "string \<Rightarrow> string list \<Rightarrow> decoder_context \<Rightarrow> decoded option" where
  "switch_decode payload_hex raw_bytes context =
     (if is_all_ff payload_hex (Some 12) then None
      else if length raw_bytes \<noteq> 6 then None
      else
        let chain = safe_int (raw_bytes ! 0);
            key = safe_int (slice 0 1 (raw_bytes ! 1));
            ch = safe_int (slice 1 2 (raw_bytes ! 1));
            t1 = safe_int (slice 0 1 (raw_bytes ! 2));
            mode = safe_int (slice 1 2 (raw_bytes ! 2))
        in case (key, ch, mode) of
             (Some k, Some c, Some m) \<Rightarrow>
               if map_of SWITCH_MODE_MAPPING m = None then None
               else if \<not> channel_ok context (c + 1) then None
               else let ((push, button), calendar) = link_address context payload_hex k;
                        (t1_val, t2_val) = switch_timer_value m t1
                    in Some \<lparr>payload = payload_hex, button_address = button, push_button_address = push,
                         calendar_channel = calendar, key_raw = k, channel_raw = c, channel = c + 1,
                         mode_raw = m, t1_raw = t1, t2_raw = None, chain_raw = chain,
                         label_C = format_channel (c + 1), label_T1 = t1_val, label_T2 = t2_val,
                         label_M = map_of SWITCH_MODE_MAPPING m, record_source = ''output_module_table''\<rparr>
           | _ \<Rightarrow> None)"

subsubsection \<open>Roller modules\<close>

definition roller_timer_value :: "int option \<Rightarrow> int \<Rightarrow> string option \<times> string option" where
  "roller_timer_value t1 mode = (case t1 of None \<Rightarrow> (None, None)
     | Some t \<Rightarrow>
       if mode = 3 then (None, None)
       else if mode \<in> {5, 6} then (map_of ROLLER_T3_MAPPING t, None)
       else (case map_of ROLLER_TIMER_MAPPING t of
               None \<Rightarrow> (None, None)
             | Some e \<Rightarrow> if e = [] then (None, None) else (e ! 0, None)))"

definition roller_decode :: "string \<Rightarrow> string list \<Rightarrow> decoder_context \<Rightarrow> decoded option" where
  "roller_decode payload_hex raw_bytes context =
     (if is_all_ff payload_hex (Some 12) then None
      else if length raw_bytes \<noteq> 6 then None
      else
        let chain = safe_int (raw_bytes ! 0);
            key = safe_int (slice 0 1 (raw_bytes ! 1));
            ch = safe_int (slice 1 2 (raw_bytes ! 1));
            t1 = safe_int (slice 0 1 (raw_bytes ! 2));
            mode = safe_int (slice 1 2 (raw_bytes ! 2))
        in case (key, ch, mode) of
             (Some k, Some c, Some m) \<Rightarrow>
               if map_of ROLLER_MODE_MAPPING m = None then None
               else if \<not> channel_ok context (c div 2 + 1) then None
               else let ((push, button), calendar) = link_address context payload_hex k;
                        (t1_val, t2_val) = roller_timer_value t1 m
                    in Some \<lparr>payload = payload_hex, button_address = button, push_button_address = push,
                         calendar_channel = calendar, key_raw = k, channel_raw = c, channel = c div 2 + 1,
                         mode_raw = m, t1_raw = t1, t2_raw = None, chain_raw = chain,
                         label_C = format_channel (c div 2 + 1), label_T1 = t1_val, label_T2 = t2_val,
                         label_M = map_of ROLLER_MODE_MAPPING m, record_source = ''output_module_table''\<rparr>
           | _ \<Rightarrow> None)"

subsubsection \<open>Dimmer modules\<close>

definition dimmer_timer_value :: "int \<Rightarrow> int option \<Rightarrow> int option \<Rightarrow> string option \<times> string option" where
  \<comment> \<open>the code compares the mode's table with \<open>DIMMER_T1_1\<close> by identity; no other table equals it\<close>
  "dimmer_timer_value mode t1 t2 =
     (let t1_val = (case (map_of DIMMER_MODE_T1_LOOKUP mode, t1) of
            (Some t1_table, Some t) \<Rightarrow>
              if t1_table = DIMMER_T1_1 \<and> 2 \<le> t \<and> t < 16 then Some (last t1_table)
              else if 0 \<le> t \<and> t < int (length t1_table) then Some (t1_table ! nat t)
              else None
          | _ \<Rightarrow> None);
          t2_val = (case t2 of None \<Rightarrow> None
            | Some t \<Rightarrow> if 0 \<le> t \<and> t < int (length DIMMER_T2_RAMP) then Some (DIMMER_T2_RAMP ! nat t) else None)
      in (t1_val, t2_val))"

definition dimmer_decode :: "string \<Rightarrow> string list \<Rightarrow> decoder_context \<Rightarrow> decoded option" where
  \<comment> \<open>the record has no chain byte; \<open>chain_raw\<close> is not set\<close>
  "dimmer_decode payload_hex raw_bytes context =
     (if is_all_ff payload_hex (Some 16) then None
      else if length raw_bytes \<noteq> 8 then None
      else
        let key = safe_int (slice 0 1 (raw_bytes ! 3));
            ch = safe_int (slice 1 2 (raw_bytes ! 3));
            t1 = safe_int (slice 0 1 (raw_bytes ! 4));
            mode = safe_int (slice 1 2 (raw_bytes ! 4));
            t2 = safe_int (slice 1 2 (raw_bytes ! 2))
        in case (key, ch, mode) of
             (Some k, Some c, Some m) \<Rightarrow>
               if map_of DIMMER_MODE_MAPPING m = None then None
               else if \<not> channel_ok context (c + 1) then None
               else let ((push, button), calendar) = link_address context payload_hex k;
                        (t1_val, t2_val) = dimmer_timer_value m t1 t2
                    in Some \<lparr>payload = payload_hex, button_address = button, push_button_address = push,
                         calendar_channel = calendar, key_raw = k, channel_raw = c, channel = c + 1,
                         mode_raw = m, t1_raw = t1, t2_raw = t2, chain_raw = None,
                         label_C = format_channel (c + 1), label_T1 = t1_val, label_T2 = t2_val,
                         label_M = map_of DIMMER_MODE_MAPPING m, record_source = ''output_module_table''\<rparr>
           | _ \<Rightarrow> None)"

subsubsection \<open>Dispatch\<close>

definition family_decoder :: "string \<Rightarrow> (string \<Rightarrow> string list \<Rightarrow> decoder_context \<Rightarrow> decoded option) option" where
  \<comment> \<open>the decoders of the output modules; that of the audio family is in its own theory\<close>
  "family_decoder mtype = map_of [(''switch_module'', switch_decode), (''roller_module'', roller_decode),
     (''dimmer_module'', dimmer_decode)] mtype"

definition decode_with :: "(string \<Rightarrow> string list \<Rightarrow> decoder_context \<Rightarrow> 'a option) option \<Rightarrow>
    string \<Rightarrow> coordinator option \<Rightarrow> string option \<Rightarrow> bool \<Rightarrow> int option \<Rightarrow> 'a option res" where
  \<comment> \<open>\<open>decode_command_payload\<close> with the decoder it dispatches to\<close>
  "decode_with decoder payload_hex0 coord mod_addr reverse_before_decode channel_count =
     (let payload_hex1 = upper (py_strip payload_hex0) in
      res_bind (if reverse_before_decode then reverse_hex payload_hex1 else Inr payload_hex1) (\<lambda>payload_hex.
        case normalize_payload payload_hex of
          None \<Rightarrow> Inr None
        | Some raw_bytes \<Rightarrow>
            let resolved = (case (coord, mod_addr, channel_count) of
                   (Some c, Some a, None) \<Rightarrow>
                     if a = [] then None
                     else (case get_module_channel_count c a of Inl _ \<Rightarrow> None | Inr n \<Rightarrow> n)
                 | _ \<Rightarrow> channel_count);
                context = \<lparr>ctx_coordinator = coord, ctx_module_address = mod_addr,
                           ctx_module_channel_count = resolved\<rparr>
            in (case decoder of
                  None \<Rightarrow> Inr None
                | Some decode \<Rightarrow> Inr (decode payload_hex raw_bytes context))))"

definition decode_command_payload ::
    "string \<Rightarrow> string \<Rightarrow> coordinator option \<Rightarrow> string option \<Rightarrow> bool \<Rightarrow> int option \<Rightarrow> decoded option res" where
  "decode_command_payload payload_hex mtype coord mod_addr reverse_before_decode channel_count =
     decode_with (family_decoder mtype) payload_hex coord mod_addr reverse_before_decode channel_count"

subsection \<open>Chunks\<close>

definition CRC_LEN :: nat where "CRC_LEN = 6"

definition CHUNK_LENGTHS :: "(string \<times> nat) list" where
  "CHUNK_LENGTHS = [(''switch_module'', 12), (''audio_module'', 12), (''roller_module'', 12),
     (''dimmer_module'', 16), (''pc_link'', 32), (''pc_logic'', 32)]"

function cut_chunks :: "nat \<Rightarrow> string \<Rightarrow> string list \<times> string" where
  \<comment> \<open>as many records of \<open>n\<close> digits as there are, and the rest; \<open>n\<close> is positive\<close>
  "cut_chunks n s = (if 0 < n \<and> n \<le> length s
     then let (cs, r) = cut_chunks n (drop n s) in (take n s # cs, r)
     else ([], s))"
  by pat_completeness auto
termination by (relation "measure (\<lambda>(n, s). length s)") auto

declare cut_chunks.simps [simp del]

record chunker =
  module_type :: string
  chunk_coordinator :: "coordinator option"
  chunk_address :: "string option"
  chunk_channel_count :: "int option"
  stream_alignment_decided :: bool
  module_misaligned :: bool

definition new_chunker :: "coordinator option \<Rightarrow> string \<Rightarrow> chunker" where
  "new_chunker coord mtype = \<lparr>module_type = mtype, chunk_coordinator = coord, chunk_address = None,
     chunk_channel_count = None, stream_alignment_decided = False, module_misaligned = False\<rparr>"

definition can_handle :: "string \<Rightarrow> chunker \<Rightarrow> bool" where
  "can_handle mtype c \<longleftrightarrow> mtype = module_type c"

definition set_module_address :: "string option \<Rightarrow> chunker \<Rightarrow> chunker" where
  "set_module_address a c = c\<lparr>chunk_address := a\<rparr>"

definition set_module_channel_count :: "int option \<Rightarrow> chunker \<Rightarrow> chunker" where
  "set_module_channel_count n c = c\<lparr>chunk_channel_count := n\<rparr>"

definition reset_scan_buffers :: "chunker \<Rightarrow> chunker" where
  "reset_scan_buffers c = c\<lparr>stream_alignment_decided := False, module_misaligned := False\<rparr>"

definition known_button :: "coordinator \<Rightarrow> string \<Rightarrow> bool res" where
  \<comment> \<open>whether the record's first three bytes name a button the host knows\<close>
  "known_button coord head =
     (if head = ''FFFFFF'' \<or> head = ''000000'' then Inr False
      else res_bind (reverse_hex head) (\<lambda>r. case get_button_address r of
             None \<Rightarrow> Inr False
           | Some addr \<Rightarrow> (case get_button_channels coord addr of
                 Inr (Some n) \<Rightarrow> Inr (n > 0)
               | _ \<Rightarrow> Inr False)))"

fun count_known :: "coordinator \<Rightarrow> string list \<Rightarrow> nat res" where
  "count_known coord [] = Inr 0"
| "count_known coord (chunk # rest) =
     res_bind (known_button coord (take 6 chunk)) (\<lambda>k.
     res_bind (count_known coord rest) (\<lambda>n. Inr (if k then Suc n else n)))"

definition hits :: "coordinator \<Rightarrow> string \<Rightarrow> nat \<Rightarrow> nat res" where
  "hits coord stream offset = count_known coord (fst (cut_chunks 12 (drop offset stream)))"

fun hit_scores :: "coordinator \<Rightarrow> string \<Rightarrow> nat list \<Rightarrow> (nat \<times> nat) list res" where
  "hit_scores coord stream [] = Inr []"
| "hit_scores coord stream (offset # rest) =
     res_bind (hits coord stream offset) (\<lambda>n.
     res_bind (hit_scores coord stream rest) (\<lambda>scores. Inr ((offset, n) # scores)))"

definition shifted_is_better :: "(nat \<times> nat) list \<Rightarrow> bool" where
  \<comment> \<open>the best score, at the lowest offset that has it, against the score of offset 0\<close>
  "shifted_is_better scores =
     (let baseline = (case map_of scores 0 of None \<Rightarrow> 0 | Some n \<Rightarrow> n);
          best_score = fold max (map snd scores) 0;
          best_offset = (case find (\<lambda>(offset, score). score = best_score) scores of
              None \<Rightarrow> 0 | Some (offset, _) \<Rightarrow> offset)
      in best_offset \<noteq> 0 \<and> best_score \<ge> 2 \<and> best_score > baseline \<and>
         length (filter (\<lambda>(_, score). score = best_score) scores) = 1)"

definition looks_misaligned :: "chunker \<Rightarrow> string \<Rightarrow> bool res" where
  "looks_misaligned c stream =
     (if map_of CHUNK_LENGTHS (module_type c) \<noteq> Some 12 then Inr False
      else (case chunk_coordinator c of
          None \<Rightarrow> Inr False
        | Some coord \<Rightarrow> res_bind (hit_scores coord stream [0, 2, 4, 6, 8, 10]) (\<lambda>scores.
            Inr (shifted_is_better scores))))"

record frame_analysis =
  fa_crc :: string
  payload_region :: string
  chunks :: "string list"
  remainder :: string
  misaligned :: bool

definition decide_alignment :: "string \<Rightarrow> string \<Rightarrow> chunker \<Rightarrow> unit res \<times> chunker" where
  \<comment> \<open>taken once per module, on a frame with nothing carried over\<close>
  "decide_alignment payload_buffer combined_payload c =
     (if \<not> stream_alignment_decided c \<and> payload_buffer = []
      then let c = c\<lparr>stream_alignment_decided := True\<rparr> in
           (case looks_misaligned c combined_payload of
              Inl e \<Rightarrow> (Inl e, c)
            | Inr bad \<Rightarrow> (Inr (), if bad then c\<lparr>module_misaligned := True\<rparr> else c))
      else (Inr (), c))"

definition analyze_frame_payload :: "string \<Rightarrow> string \<Rightarrow> chunker \<Rightarrow> frame_analysis option res \<times> chunker" where
  "analyze_frame_payload payload_buffer payload_and_crc0 c =
     (let payload_and_crc = upper payload_and_crc0 in
      if length payload_and_crc < CRC_LEN then (Inr None, c)
      else
        let data_region = take (length payload_and_crc - CRC_LEN) payload_and_crc;
            trailing_crc = drop (length payload_and_crc - CRC_LEN) payload_and_crc;
            combined_payload = upper (payload_buffer @ data_region)
        in case decide_alignment payload_buffer combined_payload c of
             (Inl e, c) \<Rightarrow> (Inl e, c)
           | (Inr _, c) \<Rightarrow>
               if module_misaligned c
               then (Inr (Some \<lparr>fa_crc = trailing_crc, payload_region = data_region, chunks = [],
                                remainder = [], misaligned = True\<rparr>), c)
               else let (cs, rest) = (case map_of CHUNK_LENGTHS (module_type c) of
                          None \<Rightarrow> ([], []) | Some n \<Rightarrow> cut_chunks n combined_payload)
                    in (Inr (Some \<lparr>fa_crc = trailing_crc, payload_region = data_region, chunks = cs,
                                   remainder = rest, misaligned = False\<rparr>), c))"

definition decode_chunk :: "string \<Rightarrow> string option \<Rightarrow> chunker \<Rightarrow> decoded list res" where
  \<comment> \<open>the metadata of the commands; the other fields repeat the chunk\<close>
  "decode_chunk chunk mod_addr c =
     res_bind (decode_command_payload chunk (module_type c) (chunk_coordinator c)
         (case mod_addr of Some (x # a) \<Rightarrow> Some (x # a) | _ \<Rightarrow> chunk_address c) True (chunk_channel_count c))
       (\<lambda>d. Inr (case d of None \<Rightarrow> [] | Some r \<Rightarrow> [r]))"

definition chunker_decode :: "string \<Rightarrow> string option \<Rightarrow> chunker \<Rightarrow> decoded list res" where
  "chunker_decode message mod_addr c = decode_chunk (upper (py_strip message)) mod_addr c"

subsection \<open>Chunks and streams\<close>

lemma cut_chunks_short: "length s < n \<Longrightarrow> cut_chunks n s = ([], s)"
  by (subst cut_chunks.simps) simp

lemma cut_chunks_cons: "length t = n \<Longrightarrow> 0 < n \<Longrightarrow> cut_chunks n (t @ s) = (t # fst (cut_chunks n s), snd (cut_chunks n s))"
  by (subst cut_chunks.simps) (simp add: split_def Let_def)

lemma cut_chunks_long:
  assumes "0 < n" "n \<le> length s"
  shows "cut_chunks n s = (take n s # fst (cut_chunks n (drop n s)), snd (cut_chunks n (drop n s)))"
  using assms by (subst cut_chunks.simps) (simp add: split_def Let_def)

lemma cut_chunks_induct [consumes 1, case_names short long]:
  assumes "0 < n" and "\<And>s. length s < n \<Longrightarrow> P s" and "\<And>t s. length t = n \<Longrightarrow> P s \<Longrightarrow> P (t @ s)"
  shows "P s"
proof (induction "length s" arbitrary: s rule: less_induct)
  case less
  show ?case
  proof (cases "length s < n")
    case True
    then show ?thesis by (rule assms(2))
  next
    case False
    then have "P (drop n s)" using assms(1) by (intro less) simp
    then have "P (take n s @ drop n s)" using False by (intro assms(3)) simp_all
    then show ?thesis by simp
  qed
qed

lemma cut_chunks_rest:
  assumes n: "0 < n" shows "length (snd (cut_chunks n s)) < n"
  by (induction s rule: cut_chunks_induct [OF n])
    (use n in \<open>simp_all add: cut_chunks_short cut_chunks_cons\<close>)

lemma cut_chunks_concat:
  assumes n: "0 < n" shows "concat (fst (cut_chunks n s)) @ snd (cut_chunks n s) = s"
  by (induction s rule: cut_chunks_induct [OF n])
    (use n in \<open>simp_all add: cut_chunks_short cut_chunks_cons\<close>)

lemma cut_chunks_length:
  assumes n: "0 < n" shows "\<forall>c \<in> set (fst (cut_chunks n s)). length c = n"
  by (induction s rule: cut_chunks_induct [OF n])
    (use n in \<open>simp_all add: cut_chunks_short cut_chunks_cons\<close>)

lemma stream_cutter_chunks: "0 < n \<Longrightarrow> stream_cutter (cut_chunks n)"
proof
  assume n: "0 < n"
  show "cut_chunks n [] = ([], [])" using n by (simp add: cut_chunks_short)
  show "cut_chunks n (xs @ ys) = (fst (cut_chunks n xs) @ fst (cut_chunks n (snd (cut_chunks n xs) @ ys)),
      snd (cut_chunks n (snd (cut_chunks n xs) @ ys)))" for xs ys
    by (induction xs rule: cut_chunks_induct [OF n]) (use n in \<open>simp_all add: cut_chunks_short cut_chunks_cons\<close>)
qed

interpretation chunks12: stream_cutter "cut_chunks 12" by (rule stream_cutter_chunks) simp
interpretation chunks16: stream_cutter "cut_chunks 16" by (rule stream_cutter_chunks) simp
interpretation chunks32: stream_cutter "cut_chunks 32" by (rule stream_cutter_chunks) simp

fun scan_frames :: "string \<Rightarrow> string list \<Rightarrow> chunker \<Rightarrow> string list \<times> string" where
  \<comment> \<open>the records of a sequence of register answers, the remainder threaded as the discovery loop does;
     an answer that is too short or fails contributes nothing\<close>
  "scan_frames buffer [] c = ([], buffer)"
| "scan_frames buffer (f # fs) c = (case analyze_frame_payload buffer f c of
       (Inr (Some a), c') \<Rightarrow> (let (cs, b) = scan_frames (remainder a) fs c' in (chunks a @ cs, b))
     | (_, c') \<Rightarrow> scan_frames buffer fs c')"

definition frame_data :: "string \<Rightarrow> string" where
  \<comment> \<open>the data region of a register answer, upper case\<close>
  "frame_data f = upper (take (length f - CRC_LEN) f)"

lemma analyze_aligned:
  assumes "stream_alignment_decided c" "\<not> module_misaligned c" "map_of CHUNK_LENGTHS (module_type c) = Some n"
    and "CRC_LEN \<le> length f" "upper buffer = buffer"
  shows "\<exists>crc region. analyze_frame_payload buffer f c = (Inr (Some \<lparr>fa_crc = crc, payload_region = region,
     chunks = fst (cut_chunks n (buffer @ frame_data f)), remainder = snd (cut_chunks n (buffer @ frame_data f)),
     misaligned = False\<rparr>), c)"
proof -
  have "upper (buffer @ take (length (upper f) - CRC_LEN) (upper f)) = buffer @ frame_data f"
    using assms(5) by (simp add: frame_data_def upper_def take_map)
  then show ?thesis using assms
    by (simp add: analyze_frame_payload_def decide_alignment_def Let_def split_def)
qed

lemma upper_snd_cut:
  assumes n: "0 < n" shows "upper s = s \<longrightarrow> upper (snd (cut_chunks n s)) = snd (cut_chunks n s)"
  by (induction s rule: cut_chunks_induct [OF n])
    (use n in \<open>simp_all add: cut_chunks_short cut_chunks_cons\<close>)

lemma scan_frames_feed:
  assumes "stream_alignment_decided c" "\<not> module_misaligned c" "map_of CHUNK_LENGTHS (module_type c) = Some n" "0 < n"
    and "\<forall>f \<in> set fs. CRC_LEN \<le> length f" "upper buffer = buffer"
  shows "scan_frames buffer fs c = feed_with (cut_chunks n) buffer (map frame_data fs)"
  using assms(5,6)
proof (induction fs arbitrary: buffer)
  case Nil
  then show ?case by simp
next
  case (Cons f fs)
  let ?b = "snd (cut_chunks n (buffer @ frame_data f))"
  have u: "upper ?b = ?b" using Cons.prems assms(4) upper_snd_cut [of n "buffer @ frame_data f"] by (simp add: frame_data_def)
  obtain crc region where a: "analyze_frame_payload buffer f c = (Inr (Some \<lparr>fa_crc = crc, payload_region = region,
     chunks = fst (cut_chunks n (buffer @ frame_data f)), remainder = ?b, misaligned = False\<rparr>), c)"
    using analyze_aligned [OF assms(1,2,3), of f buffer] Cons.prems by auto
  show ?case using Cons.IH [OF _ u] Cons.prems by (simp add: a split_def Let_def)
qed

lemma chunk_length_pos: "map_of CHUNK_LENGTHS ty = Some n \<Longrightarrow> 0 < n"
  by (auto simp: CHUNK_LENGTHS_def split: if_splits)

text \<open>
  C14. Once a module's table was found aligned, the records read from its registers are the consecutive
  records of the family's length of all the register data, wherever the register answers cut it:
  every record has that length, and records and left-over together are the data.
\<close>

theorem scan_frames_records:
  assumes "stream_alignment_decided c" "\<not> module_misaligned c" "map_of CHUNK_LENGTHS (module_type c) = Some n"
    and "\<forall>f \<in> set fs. CRC_LEN \<le> length f"
  shows "scan_frames [] fs c = cut_chunks n (concat (map frame_data fs)) \<and>
    (\<forall>r \<in> set (fst (scan_frames [] fs c)). length r = n) \<and>
    concat (fst (scan_frames [] fs c)) @ snd (scan_frames [] fs c) = concat (map frame_data fs)"
proof -
  have n: "0 < n" by (rule chunk_length_pos [OF assms(3)])
  have "scan_frames [] fs c = feed_with (cut_chunks n) [] (map frame_data fs)"
    by (rule scan_frames_feed [OF assms(1-3) n assms(4)]) simp
  also have "\<dots> = cut_chunks n (concat (map frame_data fs))"
    by (rule stream_cutter.feed_whole [OF stream_cutter_chunks [OF n]])
  finally show ?thesis using n by (simp add: cut_chunks_concat cut_chunks_length)
qed

theorem scan_frames_records_witness:
  "scan_frames [] [''0102030405060708'' @ ''AAAAAA'', ''090A'' @ ''BBBBBB''] \<lparr>module_type = ''switch_module'',
     chunk_coordinator = None, chunk_address = None, chunk_channel_count = None,
     stream_alignment_decided = True, module_misaligned = False\<rparr>
   = ([''010203040506''], ''0708090A'')"
proof -
  let ?c = "\<lparr>module_type = ''switch_module'',
     chunk_coordinator = None, chunk_address = None, chunk_channel_count = None,
     stream_alignment_decided = True, module_misaligned = False\<rparr>"
  have "scan_frames [] [''0102030405060708'' @ ''AAAAAA'', ''090A'' @ ''BBBBBB''] ?c =
      cut_chunks 12 (concat (map frame_data [''0102030405060708'' @ ''AAAAAA'', ''090A'' @ ''BBBBBB'']))"
    by (rule scan_frames_records [THEN conjunct1]) (simp_all add: CHUNK_LENGTHS_def CRC_LEN_def)
  also have "concat (map frame_data [''0102030405060708'' @ ''AAAAAA'', ''090A'' @ ''BBBBBB'']) = ''010203040506'' @ ''0708090A''"
    by (simp add: frame_data_def CRC_LEN_def upper_def)
  also have "cut_chunks 12 \<dots> = ([''010203040506''], ''0708090A'')"
    by (subst cut_chunks_cons) (simp_all add: cut_chunks_short)
  finally show ?thesis .
qed

end
