(* ===== verification/Sim_Encoding.thy ===== *)
theory Sim_Encoding
  imports Links
begin

section \<open>The simulator: declared modules and the memory they hold\<close>

text \<open>
  \<open>topology.py\<close> and \<open>encoding.py\<close> of the bus simulator: the modules and links an installation
  declares, and the memory a real module would hold for them. The theorems show that the library's
  decoders read the declared links back from that memory, and as what they report the byte of \<open>t2\<close>: the second
  timer of a dimmer link, the chain index of a switch or roller link.
\<close>

subsection \<open>Declarations\<close>

record link =
  lk_button :: string
  lk_channel :: int
  lk_mode :: int
  lk_key :: int
  lk_t1 :: int
  lk_t2 :: int

definition make_link :: "string \<Rightarrow> int \<Rightarrow> int \<Rightarrow> int \<Rightarrow> int \<Rightarrow> int \<Rightarrow> link res" where
  \<comment> \<open>the constructor with its check of the address\<close>
  "make_link button ch mode key t1 t2 =
     (if length button \<noteq> 6 then Inl ValueError
      else if py_int16 button = None then Inl ValueError
      else Inr \<lparr>lk_button = button, lk_channel = ch, lk_mode = mode, lk_key = key, lk_t1 = t1, lk_t2 = t2\<rparr>)"

record audio_trigger =
  tr_button :: string
  tr_function :: int
  tr_target :: int

definition AUDIO_POWER_OBJECT :: int where "AUDIO_POWER_OBJECT = 8"

definition is_power :: "audio_trigger \<Rightarrow> bool" where
  "is_power t \<longleftrightarrow> tr_target t = AUDIO_POWER_OBJECT"

type_synonym memory = "(string \<times> (int \<times> string) list) list"

record module_spec =
  sp_address :: string
  sp_type :: string
  sp_channels :: int
  sp_links :: "link list"
  sp_triggers :: "audio_trigger list"
  sp_memory :: memory

definition ENCODABLE_TYPES :: "string list" where
  "ENCODABLE_TYPES = [''switch_module'', ''roller_module'', ''dimmer_module'', ''audio_module'']"

definition DEFAULT_CHANNELS :: "(string \<times> int) list" where
  "DEFAULT_CHANNELS = [(''switch_module'', 12), (''dimmer_module'', 12), (''roller_module'', 6)]"

definition make_spec :: "module_spec \<Rightarrow> module_spec res" where
  \<comment> \<open>what \<open>__post_init__\<close> makes of a declared module\<close>
  "make_spec s = (let a = upper (sp_address s) in
     if length a \<noteq> 4 then Inl ValueError
     else if py_int16 a = None then Inl ValueError
     else Inr (s\<lparr>sp_address := a,
       sp_channels := (if sp_channels s = 0
         then (case map_of DEFAULT_CHANNELS (sp_type s) of None \<Rightarrow> 0 | Some n \<Rightarrow> n) else sp_channels s)\<rparr>))"

definition encodable :: "module_spec \<Rightarrow> bool" where
  "encodable s \<longleftrightarrow> sp_type s \<in> set ENCODABLE_TYPES"

record installation =
  in_modules :: "module_spec list"
  in_gateway_address :: string
  in_gateway_family :: string

definition installation_module :: "installation \<Rightarrow> string \<Rightarrow> module_spec option" where
  "installation_module inst addr = find (\<lambda>m. sp_address m = upper addr) (in_modules inst)"

definition AUDIO_FUNCTION_SLOTS :: "int list" where
  "AUDIO_FUNCTION_SLOTS = [0x0A, 0x02, 0x0B, 0x03, 0x0D, 0x00, 0x0E, 0x01]"

definition AUDIO_ZONE_OFFSETS :: "int list" where
  "AUDIO_ZONE_OFFSETS = [0x00, 0x10, 0x08, 0x18]"

definition grid_triggers :: "nat \<Rightarrow> string \<Rightarrow> audio_trigger list" where
  \<comment> \<open>the generated triggers of \<open>_triggers\<close>, before they are sorted by address\<close>
  "grid_triggers zones bank = concat (map (\<lambda>(slot, function). map (\<lambda>zone.
      \<lparr>tr_button = fmt_hex 2 (int slot * 0x20 + AUDIO_ZONE_OFFSETS ! zone) @ bank,
       tr_function = function, tr_target = int zone\<rparr>) [0..<zones])
    (zip [0..<length AUDIO_FUNCTION_SLOTS] AUDIO_FUNCTION_SLOTS))"

subsection \<open>Encoding\<close>

definition REGISTER_HEX :: nat where "REGISTER_HEX = 32"
definition DIMMER_REGISTER_HEX :: nat where "DIMMER_REGISTER_HEX = 16"

definition DIMMER_CONFIG_BLOCK :: "(int \<times> string) list" where
  "DIMMER_CONFIG_BLOCK =
     [(0xF8, ''FFFFFFFFFFFFFFFF''), (0xF9, ''19FF282828282814''), (0xFA, ''282828282828F8F8''),
      (0xFB, ''F8F8F8F0F8F8F8F8''), (0xFC, ''F8F8FFF3FFFFFFFF''), (0xFD, ''91BF7F93FFFF0000''),
      (0xFE, ''0000000000000000''), (0xFF, ''00005203FFFFFFFF'')]"

definition TABLE_START :: "(string \<times> string \<times> int) list" where
  "TABLE_START = [(''switch_module'', ''00'', 0x10), (''roller_module'', ''00'', 0x10),
     (''dimmer_module'', ''00'', 0x20), (''audio_module'', ''01'', 0x38)]"

definition REGISTER_WIDTH :: "(string \<times> nat) list" where
  "REGISTER_WIDTH = [(''switch_module'', REGISTER_HEX), (''roller_module'', REGISTER_HEX),
     (''dimmer_module'', DIMMER_REGISTER_HEX), (''audio_module'', REGISTER_HEX)]"

definition register_width :: "string \<Rightarrow> nat" where
  "register_width mtype = (case map_of REGISTER_WIDTH mtype of None \<Rightarrow> REGISTER_HEX | Some w \<Rightarrow> w)"

fun pairs :: "string \<Rightarrow> string list" where
  \<comment> \<open>\<open>[s[i : i + 2] for i in range(0, len(s), 2)]\<close>\<close>
  "pairs [] = []"
| "pairs [c] = [[c]]"
| "pairs (c # d # s) = [c, d] # pairs s"

definition reverse_bytes :: "string \<Rightarrow> string" where
  "reverse_bytes s = concat (rev (pairs s))"

definition encode_button_address :: "string \<Rightarrow> string res" where
  "encode_button_address bus_address =
     res_bind (of_option ValueError (py_int16 bus_address)) (\<lambda>v.
       if \<not> (0 \<le> v \<and> v < 2 ^ 22) then Inl ValueError
       else let bits = fmt_bin 24 v;
                stored = slice 18 24 bits @ ''00'' @ slice 10 18 bits @ slice 2 10 bits
            in res_bind (of_option ValueError (py_int2 stored)) (\<lambda>n. Inr (fmt_hex 6 n)))"

definition channel_nibble :: "string \<Rightarrow> int \<Rightarrow> int" where
  "channel_nibble mtype ch = (let index = max 0 (ch - 1) in if mtype = ''roller_module'' then index * 2 else index)"

definition link_fields :: "string \<Rightarrow> link \<Rightarrow> string" where
  "link_fields mtype l = ''0'' @ fmt_hex 1 (lk_t2 l) @ fmt_hex 1 (lk_key l)
     @ fmt_hex 1 (channel_nibble mtype (lk_channel l)) @ fmt_hex 1 (lk_t1 l) @ fmt_hex 1 (lk_mode l)"

definition encode_link :: "link \<Rightarrow> string \<Rightarrow> string res" where
  "encode_link l mtype = res_bind (encode_button_address (lk_button l)) (\<lambda>b.
     Inr (reverse_bytes (link_fields mtype l @ b)))"

definition encode_dimmer_link :: "link \<Rightarrow> string res" where
  "encode_dimmer_link l = res_bind (encode_button_address (lk_button l)) (\<lambda>b.
     Inr (reverse_bytes (''0000'' @ link_fields ''dimmer_module'' l @ b)))"

definition encode_audio_trigger :: "audio_trigger \<Rightarrow> string" where
  "encode_audio_trigger t = upper (tr_button t) @ fmt_hex 2 (tr_function t) @ fmt_hex 2 (tr_target t) @ ''01''"

definition ljust_F :: "nat \<Rightarrow> string \<Rightarrow> string" where
  "ljust_F w s = s @ replicate (w - length s) CHR ''F''"

function registers :: "string \<Rightarrow> int \<Rightarrow> nat \<Rightarrow> (int \<times> string) list" where
  \<comment> \<open>\<open>_registers\<close>; the width is positive\<close>
  "registers stream first width =
     (if stream = [] \<or> width = 0 then []
      else (first, ljust_F width (take width stream)) # registers (drop width stream) (first + 1) width)"
  by pat_completeness auto
termination by (relation "measure (\<lambda>(s, _, _). length s)") auto

declare registers.simps [simp del]

fun concat_res :: "string res list \<Rightarrow> string res" where
  "concat_res [] = Inr []"
| "concat_res (r # rs) = res_bind r (\<lambda>s. res_bind (concat_res rs) (\<lambda>t. Inr (s @ t)))"

definition dict_update :: "(int \<times> string) list \<Rightarrow> (int \<times> string) list \<Rightarrow> (int \<times> string) list" where
  "dict_update d e = foldl (\<lambda>d (k, v). AList.update k v d) d e"

definition module_stream :: "module_spec \<Rightarrow> string res" where
  "module_stream s =
     (if sp_type s = ''audio_module'' then
        let count = int (length (sp_triggers s)) in
        Inr (''FFFFFFFFFFFF'' @ fmt_hex 2 (count AND 0xFF) @ fmt_hex 2 (drop_bit 8 count AND 0xFF)
          @ concat (map encode_audio_trigger (sp_triggers s)))
      else if sp_type s = ''dimmer_module'' then concat_res (map encode_dimmer_link (sp_links s))
      else concat_res (map (\<lambda>l. encode_link l (sp_type s)) (sp_links s)))"

definition encode_module :: "module_spec \<Rightarrow> memory res" where
  "encode_module s =
     (if sp_memory s \<noteq> [] then Inr (sp_memory s)
      else if \<not> encodable s then Inr []
      else (case map_of TABLE_START (sp_type s) of
          None \<Rightarrow> Inl KeyError
        | Some (sub, first) \<Rightarrow>
            let width = register_width (sp_type s) in
            res_bind (module_stream s) (\<lambda>stream.
              if stream = [] then Inr []
              else let regs = registers (stream @ replicate width CHR ''F'') first width
                   in Inr [(sub, if sp_type s = ''dimmer_module'' then dict_update regs DIMMER_CONFIG_BLOCK else regs)])))"

definition module_status_payload :: "module_spec \<Rightarrow> int \<Rightarrow> string" where
  "module_status_payload s family_byte =
     (let n = (if sp_triggers s \<noteq> [] then length (sp_triggers s) else length (sp_links s));
          count_a = min (int n) 0xFF;
          count_b = (if sp_type s = ''dimmer_module'' then 0 else 0xFF)
      in ''00'' @ fmt_hex 2 family_byte @ ''0C'' @ fmt_hex 2 count_a @ fmt_hex 2 count_b)"

subsection \<open>Encoded bytes\<close>

definition stored :: "nat \<Rightarrow> byte list" where
  \<comment> \<open>the three bytes a record stores for a plate address\<close>
  "stored v = [of_nat (v mod 64 * 4), of_nat (v div 64), of_nat (v div 16384)]"

lemma bin_digits_3: "py_int2 (binw 8 x @ binw 8 y @ binw 8 z) =
    Some (int ((x mod 256 * 256 + y mod 256) * 256 + z mod 256))"
proof -
  have "binw 8 x @ binw 8 y @ binw 8 z \<noteq> []" by (metis append_is_Nil_conv length_binw list.size(3) zero_neq_numeral)
  then show ?thesis by (simp add: py_int2_def bin_digits_append bin_digits_binw)
qed

lemma hexw_6_bytes: "hexw 6 ((x mod 256 * 256 + y mod 256) * 256 + z mod 256) = hex_of [of_nat x, of_nat y, of_nat z]"
proof -
  let ?n = "(x mod 256 * 256 + y mod 256) * 256 + z mod 256"
  have "hexw 6 ?n = hexw 2 (?n div 256 div 256) @ hexw 2 (?n div 256) @ hexw 2 ?n"
    using hexw_append [of 4 2 ?n] hexw_append [of 2 2 "?n div 256"] by simp
  also have "?n div 256 = x mod 256 * 256 + y mod 256" by (rule digit_split(2)) simp
  also have "(x mod 256 * 256 + y mod 256) div 256 = x mod 256" by (rule digit_split(2)) simp
  finally have "hexw 6 ?n = hexw 2 (x mod 256) @ hexw 2 (x mod 256 * 256 + y mod 256) @ hexw 2 ?n" .
  moreover have m: "hexw 2 (k mod 256) = hexw 2 k" for k using hexw_mod [of 2 k] by simp
  moreover have "?n mod 256 = z mod 256" "(x mod 256 * 256 + y mod 256) mod 256 = y mod 256"
    by (rule digit_split(1), simp)+
  then have "hexw 2 ?n = hexw 2 z" "hexw 2 (x mod 256 * 256 + y mod 256) = hexw 2 y" by (metis m)+
  ultimately show ?thesis by (simp add: byte_hex_of_nat)
qed

lemma encode_button_address_value:
  assumes "py_int16 b = Some (int v)" "v < 2 ^ 22"
  shows "encode_button_address b = Inr (hex_of (stored v))"
proof -
  have b: "fmt_bin 24 (int v) = binw 2 (v div 2 ^ 22) @ binw 8 (v div 2 ^ 14) @ binw 8 (v div 2 ^ 6) @ binw 6 v"
  proof -
    have "fmt_bin 24 (int v) = binw 24 v" using assms(2) by (intro fmt_bin_nat) simp_all
    also have "\<dots> = binw 18 (v div 2 ^ 6) @ binw 6 v" using binw_append [of 18 6 v] by simp
    also have "binw 18 (v div 2 ^ 6) = binw 10 (v div 2 ^ 14) @ binw 8 (v div 2 ^ 6)"
      using binw_append [of 10 8 "v div 2 ^ 6"] by (simp flip: div_mult2_eq)
    also have "binw 10 (v div 2 ^ 14) = binw 2 (v div 2 ^ 22) @ binw 8 (v div 2 ^ 14)"
      using binw_append [of 2 8 "v div 2 ^ 14"] by (simp flip: div_mult2_eq)
    finally show ?thesis by simp
  qed
  have s: "slice 18 24 (fmt_bin 24 (int v)) = binw 6 v" "slice 10 18 (fmt_bin 24 (int v)) = binw 8 (v div 2 ^ 6)"
    "slice 2 10 (fmt_bin 24 (int v)) = binw 8 (v div 2 ^ 14)"
    unfolding b by (simp_all add: slice_def)
  have "binw 2 0 = ''00''" by (simp add: numeral_2_eq_2)
  then have "binw 6 v @ ''00'' = binw 6 (v mod 64) @ binw 2 0"
    using binw_mod [of 6 v] by simp
  also have "\<dots> = binw 8 (v mod 64 * 4)"
    using binw_append [of 6 2 "v mod 64 * 4"] binw_mod [of 2 "v mod 64 * 4"] by simp
  finally have x: "binw 6 v @ ''00'' = binw 8 (v mod 64 * 4)" .
  let ?n = "((v mod 64 * 4) mod 256 * 256 + (v div 2 ^ 6) mod 256) * 256 + (v div 2 ^ 14) mod 256"
  have st: "py_int2 (slice 18 24 (fmt_bin 24 (int v)) @ ''00'' @ slice 10 18 (fmt_bin 24 (int v)) @
      slice 2 10 (fmt_bin 24 (int v))) = Some (int ?n)"
    unfolding s append_assoc [symmetric] x unfolding append_assoc by (rule bin_digits_3)
  have "k mod 256 < 256" for k :: nat by simp
  from this [of "v mod 64 * 4"] this [of "v div 2 ^ 6"] this [of "v div 2 ^ 14"]
  have "?n < 16 ^ 6" by (simp del: mod_less_divisor)
  then have "fmt_hex 6 (int ?n) = hexw 6 ?n" by (intro fmt_hex_nat) simp_all
  also have "\<dots> = hex_of (stored v)"
  proof -
    have p: "2 ^ 6 = (64 :: nat)" "2 ^ 14 = (16384 :: nat)" by simp_all
    show ?thesis by (simp only: stored_def p hexw_6_bytes)
  qed
  finally show ?thesis using assms st by (simp add: encode_button_address_def Let_def)
qed


lemma get_button_address_stored:
  assumes "v < 2 ^ 22" shows "get_button_address (hex_of (stored v)) = Some (hexw 6 v)"
proof -
  have "v mod 64 < 64" by simp
  then have "v mod 64 * 4 < 256" by linarith
  then have "unat (of_nat (v mod 64 * 4) :: byte) = v mod 64 * 4"
    by (simp only: unat_of_nat) simp
  moreover have "unat (of_nat (v div 64) :: byte) = v div 64 mod 256" by (simp add: unat_of_nat)
  moreover have "v div 16384 < 256" using assms by simp
  then have "unat (of_nat (v div 16384) :: byte) = v div 16384" by (simp add: unat_of_nat)
  moreover have "v div 16384 = v div 64 div 256" by (simp flip: div_mult2_eq)
  then have "v div 16384 * 256 + v div 64 mod 256 = v div 64" by (simp only: div_mult_mod_eq)
  then have "(v div 16384 * 256 + v div 64 mod 256) * 64 + v mod 64 = v" by (simp only: div_mult_mod_eq)
  ultimately have "record_number (stored v) = v * 4"
    unfolding stored_def record_number_def by simp
  then show ?thesis using get_button_address_bytes by (simp add: stored_def)
qed

lemma pairs_hex_of [simp]: "pairs (hex_of bs) = map byte_hex bs"
  by (induction bs) (simp_all add: byte_hex_def)

lemma reverse_bytes_hex_of [simp]: "reverse_bytes (hex_of bs) = hex_of (rev bs)"
proof -
  have "concat (map byte_hex bs) = hex_of bs" for bs by (induction bs) simp_all
  from this [of "rev bs"] show ?thesis by (simp add: reverse_bytes_def rev_map)
qed

definition nibbles :: "int \<Rightarrow> int \<Rightarrow> byte" where
  "nibbles a b = word_of_int (16 * a + b)"

lemma byte_hex_nibbles:
  assumes "0 \<le> a" "a < 16" "0 \<le> b" "b < 16"
  shows "byte_hex (nibbles a b) = [hex_dig (nat a), hex_dig (nat b)]"
proof -
  have "16 * a + b = int (16 * nat a + nat b)" using assms by simp
  then have "nibbles a b = of_nat (16 * nat a + nat b)"
    unfolding nibbles_def by (simp only: of_int_of_nat_eq)
  then have "byte_hex (nibbles a b) = hexw 2 (16 * nat a + nat b)" by (simp only: byte_hex_of_nat)
  moreover have "(16 * nat a + nat b) div 16 = nat a" "(16 * nat a + nat b) mod 16 = nat b" "nat a < 16"
    using assms by (simp_all add: nat_less_iff)
  ultimately show ?thesis by (simp add: eval_simps)
qed

lemma fmt_hex_1: "0 \<le> a \<Longrightarrow> a < 16 \<Longrightarrow> fmt_hex (Suc 0) a = [hex_dig (nat a)]"
  using fmt_hex_nat [of "nat a" 1] by (simp add: nat_less_iff)

definition MODES :: "(string \<times> (int \<times> string) list) list" where
  "MODES = [(''switch_module'', SWITCH_MODE_MAPPING), (''roller_module'', ROLLER_MODE_MAPPING),
     (''dimmer_module'', DIMMER_MODE_MAPPING)]"

definition nibble_ok :: "int \<Rightarrow> bool" where
  "nibble_ok n \<longleftrightarrow> 0 \<le> n \<and> n < 16"

definition link_ok :: "string \<Rightarrow> int option \<Rightarrow> link \<Rightarrow> bool" where
  \<comment> \<open>a link a module of the family can hold: a 22-bit address that is no calendar channel, a channel the
     module has, nibble fields, and a mode of the family\<close>
  "link_ok mtype cc l \<longleftrightarrow> (\<exists>v < 2 ^ 22. lk_button l = hexw 6 v \<and> calendar_channel_from_link (hex_of (stored v)) = None) \<and>
     1 \<le> lk_channel l \<and> nibble_ok (channel_nibble mtype (lk_channel l)) \<and>
     (case cc of None \<Rightarrow> True | Some n \<Rightarrow> lk_channel l \<le> n) \<and>
     nibble_ok (lk_mode l) \<and> nibble_ok (lk_key l) \<and> nibble_ok (lk_t1 l) \<and> nibble_ok (lk_t2 l) \<and>
     (case map_of MODES mtype of None \<Rightarrow> False | Some m \<Rightarrow> map_of m (lk_mode l) \<noteq> None)"

definition link_head :: "string \<Rightarrow> link \<Rightarrow> byte list" where
  "link_head mtype l = [nibbles 0 (lk_t2 l), nibbles (lk_key l) (channel_nibble mtype (lk_channel l)),
     nibbles (lk_t1 l) (lk_mode l)]"

lemma link_fields_bytes:
  assumes "link_ok mtype cc l" shows "link_fields mtype l = hex_of (link_head mtype l)"
  using assms by (simp add: link_ok_def nibble_ok_def link_fields_def link_head_def fmt_hex_1 byte_hex_nibbles)

lemma encode_link_bytes:
  assumes "link_ok mtype cc l"
  shows "\<exists>v < 2 ^ 22. lk_button l = hexw 6 v \<and> calendar_channel_from_link (hex_of (stored v)) = None \<and>
    encode_link l mtype = Inr (hex_of (rev (link_head mtype l @ stored v)))"
    "mtype = ''dimmer_module'' \<Longrightarrow> \<exists>v < 2 ^ 22. lk_button l = hexw 6 v \<and>
       calendar_channel_from_link (hex_of (stored v)) = None \<and>
    encode_dimmer_link l = Inr (hex_of (rev ([0, 0] @ link_head mtype l @ stored v)))"
proof -
  obtain v where v: "v < 2 ^ 22" "lk_button l = hexw 6 v" "calendar_channel_from_link (hex_of (stored v)) = None"
    using assms by (auto simp: link_ok_def)
  have "py_int16 (lk_button l) = Some (int v)" using v by simp
  from encode_button_address_value [OF this v(1)]
  have e: "encode_button_address (lk_button l) = Inr (hex_of (stored v))" .
  have "link_fields mtype l @ hex_of (stored v) = hex_of (link_head mtype l @ stored v)"
    using link_fields_bytes [OF assms] by simp
  then have "encode_link l mtype = Inr (hex_of (rev (link_head mtype l @ stored v)))"
    by (simp only: encode_link_def e res_bind_simps reverse_bytes_hex_of)
  with v show "\<exists>v < 2 ^ 22. lk_button l = hexw 6 v \<and> calendar_channel_from_link (hex_of (stored v)) = None \<and>
    encode_link l mtype = Inr (hex_of (rev (link_head mtype l @ stored v)))" by blast
  assume d: "mtype = ''dimmer_module''"
  have "byte_hex 0 = ''00''" by (simp add: byte_hex_def)
  then have "''0000'' @ link_fields mtype l @ hex_of (stored v) = hex_of ([0, 0] @ link_head mtype l @ stored v)"
    using link_fields_bytes [OF assms] by simp
  then have "encode_dimmer_link l = Inr (hex_of (rev ([0, 0] @ link_head mtype l @ stored v)))"
    by (simp only: encode_dimmer_link_def e res_bind_simps reverse_bytes_hex_of d)
  with v show "\<exists>v < 2 ^ 22. lk_button l = hexw 6 v \<and>
       calendar_channel_from_link (hex_of (stored v)) = None \<and>
    encode_dimmer_link l = Inr (hex_of (rev ([0, 0] @ link_head mtype l @ stored v)))" by blast
qed


subsection \<open>Reading the records back\<close>

record reading =
  rd_button :: "string option"
  rd_channel :: int
  rd_mode :: int
  rd_key :: int
  rd_t1 :: "int option"
  rd_t2 :: "int option"
  rd_chain :: "int option"

definition reading_of :: "decoded \<Rightarrow> reading" where
  \<comment> \<open>what a decoder reports of a record\<close>
  "reading_of d = \<lparr>rd_button = button_address d, rd_channel = channel d, rd_mode = mode_raw d, rd_key = key_raw d,
     rd_t1 = t1_raw d, rd_t2 = t2_raw d, rd_chain = chain_raw d\<rparr>"

definition declared :: "string \<Rightarrow> link \<Rightarrow> reading" where
  \<comment> \<open>a declared link as its record reads: the byte the encoder takes from \<open>t2\<close> is the second timer of a dimmer
    record, but the chain index of a switch or roller record, which has no second timer\<close>
  "declared mtype l = \<lparr>rd_button = Some (lk_button l), rd_channel = lk_channel l, rd_mode = lk_mode l, rd_key = lk_key l,
     rd_t1 = Some (lk_t1 l), rd_t2 = (if mtype = ''dimmer_module'' then Some (lk_t2 l) else None),
     rd_chain = (if mtype = ''dimmer_module'' then None else Some (lk_t2 l))\<rparr>"

lemma decode_command_payload_bytes:
  "decode_command_payload (hex_of (rev bs)) mtype coord a True (Some n) =
     (case family_decoder mtype of None \<Rightarrow> Inr None
      | Some f \<Rightarrow> Inr (f (hex_of bs) (map byte_hex bs) \<lparr>ctx_coordinator = coord, ctx_module_address = a,
                        ctx_module_channel_count = Some n\<rparr>))"
proof -
  have "py_strip (hex_of (rev bs)) = hex_of (rev bs)" by (rule py_strip_hex) simp
  then show ?thesis
    by (simp add: decode_command_payload_def decode_with_def reverse_hex_def normalize_payload_def Let_def split: option.splits)
qed

lemma get_push_button_address_snd [simp]: "snd (get_push_button_address k b f) = b"
  by (simp add: get_push_button_address_def Let_def split: option.splits)

lemma py_int16_dig: "n < 16 \<Longrightarrow> py_int16 [hex_dig n] = Some (int n)"
  using py_int16_hexw [of 1 n] by simp

lemma safe_int_nibbles:
  assumes "nibble_ok a" "nibble_ok b"
  shows "safe_int (slice 0 (Suc 0) (byte_hex (nibbles a b))) = Some a"
    "safe_int (slice (Suc 0) 2 (byte_hex (nibbles a b))) = Some b"
    "safe_int (byte_hex (nibbles 0 b)) = Some b"
proof -
  have a: "nat a < 16" "nat b < 16" using assms by (simp_all add: nibble_ok_def nat_less_iff)
  have n: "byte_hex (nibbles a b) = [hex_dig (nat a), hex_dig (nat b)]"
    "byte_hex (nibbles 0 b) = [hex_dig 0, hex_dig (nat b)]"
    using assms byte_hex_nibbles [of 0 b] by (simp_all add: nibble_ok_def byte_hex_nibbles)
  show "safe_int (slice 0 (Suc 0) (byte_hex (nibbles a b))) = Some a"
    "safe_int (slice (Suc 0) 2 (byte_hex (nibbles a b))) = Some b"
    using a assms unfolding n by (simp_all add: safe_int_def slice_def py_int16_dig nibble_ok_def)
  have "py_int16 [hex_dig 0, hex_dig (nat b)] = Some (int (hex_nat [hex_dig 0, hex_dig (nat b)]))"
    using a by (intro py_int16_hex) simp_all
  then show "safe_int (byte_hex (nibbles 0 b)) = Some b"
    using a assms unfolding n safe_int_def by (simp add: hex_nat_def nibble_ok_def)
qed

lemma link_address_stored:
  assumes "v < 2 ^ 22" "calendar_channel_from_link (hex_of (stored v)) = None"
  shows "link_address ctx (hex_of (bs @ stored v)) k =
    (get_push_button_address (Some k) (Some (hexw 6 v)) (map_option get_button_channels (ctx_coordinator ctx)), None)"
proof -
  have "last_of 6 (hex_of (bs @ stored v)) = hex_of (stored v)"
    by (simp add: stored_def last_of_append)
  then show ?thesis using assms by (simp add: link_address_def Let_def get_button_address_stored del: hex_of_append)
qed

lemma not_all_ff: "byte_hex 0 = ''00''" "\<not> is_all_ff (CHR ''0'' # s) n"
  by (simp add: byte_hex_def) (auto simp: is_all_ff_def upper_def Let_def)

lemma first_digit_0:
  assumes "nibble_ok b" shows "\<not> is_all_ff (hex_of (nibbles 0 b # bs)) n"
proof -
  have "byte_hex (nibbles 0 b) = [hex_dig 0, hex_dig (nat b)]"
    using assms byte_hex_nibbles [of 0 b] by (simp add: nibble_ok_def)
  then show ?thesis by (simp add: not_all_ff)
qed

lemma link_ok_nibbles:
  assumes "link_ok mtype (Some n) l"
  shows "nibble_ok (channel_nibble mtype (lk_channel l))" "nibble_ok (lk_mode l)" "nibble_ok (lk_key l)"
    "nibble_ok (lk_t1 l)" "nibble_ok (lk_t2 l)" "1 \<le> lk_channel l" "lk_channel l \<le> n"
    "\<exists>m. map_of MODES mtype = Some m \<and> map_of m (lk_mode l) \<noteq> None"
  using assms by (auto simp: link_ok_def split: option.splits)

lemma stored_length [simp]: "length (stored v) = 3"
  by (simp add: stored_def)

lemma switch_decode_link:
  assumes "link_ok ''switch_module'' (Some n) l" "v < 2 ^ 22" "lk_button l = hexw 6 v"
    "calendar_channel_from_link (hex_of (stored v)) = None" "ctx_module_channel_count ctx = Some n"
  shows "\<exists>d. switch_decode (hex_of (link_head ''switch_module'' l @ stored v))
      (map byte_hex (link_head ''switch_module'' l @ stored v)) ctx = Some d \<and> reading_of d = declared ''switch_module'' l"
proof -
  note ok = link_ok_nibbles [OF assms(1)]
  define push where "push = get_push_button_address (Some (lk_key l)) (Some (hexw 6 v)) (map_option get_button_channels (ctx_coordinator ctx))"
  have p: "push = (fst push, Some (hexw 6 v))" unfolding push_def by (metis get_push_button_address_snd prod.collapse)
  have m: "map_of SWITCH_MODE_MAPPING (lk_mode l) \<noteq> None" using ok(8) by (auto simp: MODES_def)
  have c: "channel_nibble ''switch_module'' (lk_channel l) + 1 = lk_channel l" using ok(6) by (simp add: channel_nibble_def)
  have ch: "channel_ok ctx (lk_channel l)" using assms(5) ok(6,7) by (simp add: channel_ok_def)
  have h: "\<not> is_all_ff (hex_of (link_head ''switch_module'' l @ stored v)) (Some 12)"
    by (simp only: link_head_def append_Cons first_digit_0 [OF ok(5)] not_False_eq_True)
  show ?thesis
    using m c ch h p assms(3) safe_int_nibbles [OF ok(3) ok(1)] safe_int_nibbles [OF ok(4) ok(2)] safe_int_nibbles(3) [OF ok(5) ok(5)]
    unfolding switch_decode_def link_address_stored [OF assms(2,4)] push_def [symmetric]
    by (cases l) (auto simp: link_head_def Let_def split_def reading_of_def declared_def split: option.splits)
qed

lemma roller_decode_link:
  assumes "link_ok ''roller_module'' (Some n) l" "v < 2 ^ 22" "lk_button l = hexw 6 v"
    "calendar_channel_from_link (hex_of (stored v)) = None" "ctx_module_channel_count ctx = Some n"
  shows "\<exists>d. roller_decode (hex_of (link_head ''roller_module'' l @ stored v))
      (map byte_hex (link_head ''roller_module'' l @ stored v)) ctx = Some d \<and> reading_of d = declared ''roller_module'' l"
proof -
  note ok = link_ok_nibbles [OF assms(1)]
  define push where "push = get_push_button_address (Some (lk_key l)) (Some (hexw 6 v)) (map_option get_button_channels (ctx_coordinator ctx))"
  have p: "push = (fst push, Some (hexw 6 v))" unfolding push_def by (metis get_push_button_address_snd prod.collapse)
  have m: "map_of ROLLER_MODE_MAPPING (lk_mode l) \<noteq> None" using ok(8) by (auto simp: MODES_def)
  have c: "channel_nibble ''roller_module'' (lk_channel l) div 2 + 1 = lk_channel l" using ok(6) by (simp add: channel_nibble_def)
  have ch: "channel_ok ctx (lk_channel l)" using assms(5) ok(6,7) by (simp add: channel_ok_def)
  have h: "\<not> is_all_ff (hex_of (link_head ''roller_module'' l @ stored v)) (Some 12)"
    by (simp only: link_head_def append_Cons first_digit_0 [OF ok(5)] not_False_eq_True)
  show ?thesis
    using m c ch h p assms(3) safe_int_nibbles [OF ok(3) ok(1)] safe_int_nibbles [OF ok(4) ok(2)] safe_int_nibbles(3) [OF ok(5) ok(5)]
    unfolding roller_decode_def link_address_stored [OF assms(2,4)] push_def [symmetric]
    by (cases l) (auto simp: link_head_def Let_def split_def reading_of_def declared_def split: option.splits)
qed

lemma dimmer_decode_link:
  assumes "link_ok ''dimmer_module'' (Some n) l" "v < 2 ^ 22" "lk_button l = hexw 6 v"
    "calendar_channel_from_link (hex_of (stored v)) = None" "ctx_module_channel_count ctx = Some n"
  shows "\<exists>d. dimmer_decode (hex_of ([0, 0] @ link_head ''dimmer_module'' l @ stored v))
      (map byte_hex ([0, 0] @ link_head ''dimmer_module'' l @ stored v)) ctx = Some d \<and> reading_of d = declared ''dimmer_module'' l"
proof -
  note ok = link_ok_nibbles [OF assms(1)]
  define push where "push = get_push_button_address (Some (lk_key l)) (Some (hexw 6 v)) (map_option get_button_channels (ctx_coordinator ctx))"
  have p: "push = (fst push, Some (hexw 6 v))" unfolding push_def by (metis get_push_button_address_snd prod.collapse)
  have m: "map_of DIMMER_MODE_MAPPING (lk_mode l) \<noteq> None" using ok(8) by (auto simp: MODES_def)
  have c: "channel_nibble ''dimmer_module'' (lk_channel l) + 1 = lk_channel l" using ok(6) by (simp add: channel_nibble_def)
  have ch: "channel_ok ctx (lk_channel l)" using assms(5) ok(6,7) by (simp add: channel_ok_def)
  have h: "\<not> is_all_ff (hex_of ([0, 0] @ link_head ''dimmer_module'' l @ stored v)) (Some 16)"
    by (simp add: not_all_ff)
  have zero: "nibble_ok 0" by (simp add: nibble_ok_def)
  show ?thesis
    using m c ch h p assms(3) safe_int_nibbles [OF ok(3) ok(1)] safe_int_nibbles [OF ok(4) ok(2)] safe_int_nibbles [OF zero ok(5)]
    unfolding dimmer_decode_def append_assoc [symmetric] link_address_stored [OF assms(2,4)] push_def [symmetric]
    by (cases l) (auto simp: link_head_def Let_def split_def reading_of_def declared_def split: option.splits)
qed

subsection \<open>Tables of records\<close>

text \<open>
  A family stores its links as consecutive records of a fixed length with filler behind them. What
  reading such a table needs of the family's codec is stated once; the three output families provide it.
\<close>

locale record_table =
  fixes n :: nat and encode :: "'l \<Rightarrow> string" and read :: "string \<Rightarrow> 'r option" and report :: "'l \<Rightarrow> 'r" and ok :: "'l \<Rightarrow> bool"
  assumes n_pos: "0 < n"
    and encode_length: "ok l \<Longrightarrow> length (encode l) = n"
    and read_encode: "ok l \<Longrightarrow> read (encode l) = Some (report l)"
    and read_filler: "read (replicate n CHR ''F'') = None"
begin

lemma filler_records: "List.map_filter read (fst (cut_chunks n (replicate m CHR ''F''))) = []"
proof (induction m rule: less_induct)
  case (less m)
  show ?case
  proof (cases "m < n")
    case True
    then show ?thesis by (simp add: cut_chunks_short map_filter_simps)
  next
    case False
    then have "replicate m CHR ''F'' = replicate n CHR ''F'' @ replicate (m - n) CHR ''F''"
      by (simp flip: replicate_add)
    then show ?thesis using less [of "m - n"] n_pos False
      by (simp add: cut_chunks_cons map_filter_simps read_filler)
  qed
qed

lemma table_reads_back:
  "list_all ok ls \<Longrightarrow>
   List.map_filter read (fst (cut_chunks n (concat (map encode ls) @ replicate m CHR ''F''))) = map report ls"
  by (induction ls) (simp_all add: filler_records cut_chunks_cons n_pos encode_length read_encode map_filter_simps)

end

definition read_record :: "string \<Rightarrow> coordinator option \<Rightarrow> string option \<Rightarrow> int \<Rightarrow> string \<Rightarrow> reading option" where
  \<comment> \<open>the record a chunk of a module's table decodes to\<close>
  "read_record mtype coord a count chunk =
     (case decode_command_payload chunk mtype coord a True (Some count) of
        Inr (Some d) \<Rightarrow> Some (reading_of d) | _ \<Rightarrow> None)"

definition encoded :: "string \<Rightarrow> link \<Rightarrow> string" where
  "encoded mtype l = (case (if mtype = ''dimmer_module'' then encode_dimmer_link l else encode_link l mtype) of
     Inl _ \<Rightarrow> [] | Inr s \<Rightarrow> s)"

lemma filler_bytes: "hex_of (replicate k 0xFF) = replicate (2 * k) CHR ''F''"
proof -
  have "byte_hex 0xFF = ''FF''" by (simp add: byte_hex_def)
  then show ?thesis by (induction k) simp_all
qed

lemma filler_record: "replicate (2 * k) CHR ''F'' = hex_of (rev (replicate k 0xFF))"
  by (simp add: filler_bytes)

lemma family_decoder_cases:
  "family_decoder ''switch_module'' = Some switch_decode" "family_decoder ''roller_module'' = Some roller_decode"
  "family_decoder ''dimmer_module'' = Some dimmer_decode"
  by (simp_all add: family_decoder_def)

lemma filler_all_ff: "0 < k \<Longrightarrow> is_all_ff (hex_of (replicate k 0xFF)) (Some (2 * k))"
  by (simp add: is_all_ff_def upper_def filler_bytes)

lemma read_filler_12:
  assumes "mtype = ''switch_module'' \<or> mtype = ''roller_module''"
  shows "read_record mtype coord a count (replicate 12 CHR ''F'') = None"
proof -
  have e: "replicate 12 CHR ''F'' = hex_of (rev (replicate 6 0xFF))" using filler_record [of 6] by simp
  show ?thesis using assms filler_all_ff [of 6] unfolding e read_record_def decode_command_payload_bytes
    by (auto simp: family_decoder_cases switch_decode_def roller_decode_def)
qed

lemma read_filler_16: "read_record ''dimmer_module'' coord a count (replicate 16 CHR ''F'') = None"
proof -
  have e: "replicate 16 CHR ''F'' = hex_of (rev (replicate 8 0xFF))" using filler_record [of 8] by simp
  show ?thesis using filler_all_ff [of 8] unfolding e read_record_def decode_command_payload_bytes
    by (simp add: family_decoder_cases dimmer_decode_def)
qed

lemma head_length [simp]: "length (link_head mtype l) = 3"
  by (simp add: link_head_def)

interpretation switch_table: record_table 12 "encoded ''switch_module''" "read_record ''switch_module'' coord a count"
    "declared ''switch_module''" "link_ok ''switch_module'' (Some count)" for coord a count
proof
  fix l
  assume ok: "link_ok ''switch_module'' (Some count) l"
  from encode_link_bytes(1) [OF ok] obtain v where v: "v < 2 ^ 22" "lk_button l = hexw 6 v"
    "calendar_channel_from_link (hex_of (stored v)) = None"
    "encode_link l ''switch_module'' = Inr (hex_of (rev (link_head ''switch_module'' l @ stored v)))" by blast
  then have e: "encoded ''switch_module'' l = hex_of (rev (link_head ''switch_module'' l @ stored v))"
    by (simp add: encoded_def)
  show "length (encoded ''switch_module'' l) = 12" by (simp only: e length_hex_of length_rev length_append) simp
  from switch_decode_link [OF ok v(1-3), of "\<lparr>ctx_coordinator = coord, ctx_module_address = a, ctx_module_channel_count = Some count\<rparr>"]
  show "read_record ''switch_module'' coord a count (encoded ''switch_module'' l) = Some (declared ''switch_module'' l)"
    by (auto simp: read_record_def e decode_command_payload_bytes family_decoder_cases simp del: rev_append hex_of_append map_append)
qed (simp, rule read_filler_12, simp)

interpretation roller_table: record_table 12 "encoded ''roller_module''" "read_record ''roller_module'' coord a count"
    "declared ''roller_module''" "link_ok ''roller_module'' (Some count)" for coord a count
proof
  fix l
  assume ok: "link_ok ''roller_module'' (Some count) l"
  from encode_link_bytes(1) [OF ok] obtain v where v: "v < 2 ^ 22" "lk_button l = hexw 6 v"
    "calendar_channel_from_link (hex_of (stored v)) = None"
    "encode_link l ''roller_module'' = Inr (hex_of (rev (link_head ''roller_module'' l @ stored v)))" by blast
  then have e: "encoded ''roller_module'' l = hex_of (rev (link_head ''roller_module'' l @ stored v))"
    by (simp add: encoded_def)
  show "length (encoded ''roller_module'' l) = 12" by (simp only: e length_hex_of length_rev length_append) simp
  from roller_decode_link [OF ok v(1-3), of "\<lparr>ctx_coordinator = coord, ctx_module_address = a, ctx_module_channel_count = Some count\<rparr>"]
  show "read_record ''roller_module'' coord a count (encoded ''roller_module'' l) = Some (declared ''roller_module'' l)"
    by (auto simp: read_record_def e decode_command_payload_bytes family_decoder_cases simp del: rev_append hex_of_append map_append)
qed (simp, rule read_filler_12, simp)

interpretation dimmer_table: record_table 16 "encoded ''dimmer_module''" "read_record ''dimmer_module'' coord a count"
    "declared ''dimmer_module''" "link_ok ''dimmer_module'' (Some count)" for coord a count
proof
  fix l
  assume ok: "link_ok ''dimmer_module'' (Some count) l"
  from encode_link_bytes(2) [OF ok refl] obtain v where v: "v < 2 ^ 22" "lk_button l = hexw 6 v"
    "calendar_channel_from_link (hex_of (stored v)) = None"
    "encode_dimmer_link l = Inr (hex_of (rev ([0, 0] @ link_head ''dimmer_module'' l @ stored v)))" by blast
  then have e: "encoded ''dimmer_module'' l = hex_of (rev ([0, 0] @ link_head ''dimmer_module'' l @ stored v))"
    by (simp add: encoded_def)
  show "length (encoded ''dimmer_module'' l) = 16" by (simp only: e length_hex_of length_rev length_append) simp
  from dimmer_decode_link [OF ok v(1-3), of "\<lparr>ctx_coordinator = coord, ctx_module_address = a, ctx_module_channel_count = Some count\<rparr>"]
  show "read_record ''dimmer_module'' coord a count (encoded ''dimmer_module'' l) = Some (declared ''dimmer_module'' l)"
    by (auto simp: read_record_def e decode_command_payload_bytes family_decoder_cases simp del: rev_append hex_of_append map_append append_Cons list.map)
qed (simp, rule read_filler_16)

subsection \<open>The memory of a declared module\<close>

lemma registers_concat:
  assumes "0 < w" shows "\<exists>j. concat (map snd (registers s first w)) = s @ replicate j CHR ''F''"
proof (induction s arbitrary: first rule: cut_chunks_induct [OF assms])
  case (1 s)
  have "registers s first w = (if s = [] then [] else [(first, ljust_F w s)])"
    using assms 1 by (subst registers.simps, subst registers.simps) simp
  then show ?case by (auto simp: ljust_F_def intro: exI [of _ 0])
next
  case (2 t s)
  have "registers (t @ s) first w = (first, t) # registers s (first + 1) w"
    using assms 2(1) by (subst registers.simps) (auto simp: ljust_F_def)
  moreover obtain j where "concat (map snd (registers s (first + 1) w)) = s @ replicate j CHR ''F''"
    using 2(2) by blast
  ultimately show ?case by auto
qed

lemma concat_res_all: "\<forall>x \<in> set xs. f x = Inr (g x) \<Longrightarrow> concat_res (map f xs) = Inr (concat (map g xs))"
  by (induction xs) simp_all

lemma encoded_Inr:
  assumes "link_ok mtype cc l"
  shows "mtype \<noteq> ''dimmer_module'' \<Longrightarrow> encode_link l mtype = Inr (encoded mtype l)"
    and "mtype = ''dimmer_module'' \<Longrightarrow> encode_dimmer_link l = Inr (encoded mtype l)"
  using encode_link_bytes [OF assms] by (auto simp: encoded_def)

text \<open>
  C15. The memory built for a declared switch or roller module, read register by register and cut into
  records, decodes to exactly the declared links, in order, whatever the host's look-ups answer: address, key,
  channel, mode and first timer. The byte the encoder takes from a link's \<open>t2\<close> comes back as the record's chain
  index, and no second timer is reported, whatever \<open>t2\<close> was declared.
\<close>

theorem module_memory_reads_back:
  assumes "sp_type s = ''switch_module'' \<or> sp_type s = ''roller_module''" "sp_memory s = []" "sp_links s \<noteq> []"
    and "list_all (link_ok (sp_type s) (Some count)) (sp_links s)"
  shows "\<exists>regs. encode_module s = Inr [(''00'', regs)] \<and>
    List.map_filter (read_record (sp_type s) coord a count) (fst (cut_chunks 12 (concat (map snd regs)))) = map (declared (sp_type s)) (sp_links s)"
proof -
  let ?enc = "concat (map (encoded (sp_type s)) (sp_links s))"
  have ok: "\<forall>l \<in> set (sp_links s). link_ok (sp_type s) (Some count) l" using assms(4) by (simp add: list_all_iff)
  have nd: "sp_type s \<noteq> ''dimmer_module''" "sp_type s \<noteq> ''audio_module''" using assms(1) by auto
  have "concat_res (map (\<lambda>l. encode_link l (sp_type s)) (sp_links s)) = Inr ?enc"
    using ok nd(1) by (intro concat_res_all) (blast intro: encoded_Inr(1))
  then have st: "module_stream s = Inr ?enc" using nd by (simp add: module_stream_def)
  obtain l ls where l: "sp_links s = l # ls" using assms(3) by (cases "sp_links s") simp_all
  have "length (encoded (sp_type s) l) = 12"
    using assms(1) ok l switch_table.encode_length [where l = l] roller_table.encode_length [where l = l] by auto
  then have ne: "?enc \<noteq> []" using l by auto
  define regs where "regs = registers (?enc @ replicate 32 CHR ''F'') 0x10 32"
  have e: "encode_module s = Inr [(''00'', regs)]"
    using assms(1,2) st ne nd
    by (auto simp: encode_module_def encodable_def ENCODABLE_TYPES_def TABLE_START_def register_width_def
      REGISTER_WIDTH_def REGISTER_HEX_def regs_def)
  obtain j where j: "concat (map snd regs) = ?enc @ replicate j CHR ''F''"
    using registers_concat [of 32 "?enc @ replicate 32 CHR ''F''" "0x10"]
    by (auto simp: regs_def simp flip: replicate_add)
  have "List.map_filter (read_record (sp_type s) coord a count) (fst (cut_chunks 12 (concat (map snd regs)))) = map (declared (sp_type s)) (sp_links s)"
    unfolding j using assms(1,4)
    by (auto simp: switch_table.table_reads_back roller_table.table_reads_back)
  with e show ?thesis by blast
qed

lemma stored_16E2C4: "hex_of (stored 0x16E2C4) = ''108B5B''"
  by (simp add: stored_def byte_hex_def eval_simps)

lemma rev_108B5B: "reverse_24 0x108B5B = 0xDAD108"
  by (simp add: reverse_24_def reverse_loop_numeral)

lemma button_16E2C4:
  "hexw 6 0x16E2C4 = ''16E2C4''" "calendar_channel_from_link (hex_of (stored 0x16E2C4)) = None"
proof -
  have "py_int16 ''108B5B'' = Some 0x108B5B" by (simp add: eval_simps)
  then show "calendar_channel_from_link (hex_of (stored 0x16E2C4)) = None"
    by (simp add: stored_16E2C4 calendar_channel_from_link_def rev_108B5B CALENDAR_CHANNEL_BASE_def CALENDAR_CHANNEL_COUNT_def)
qed (simp add: eval_simps)
lemma link_ok_example:
  "mtype \<in> {''switch_module'', ''dimmer_module''} \<Longrightarrow> link_ok mtype (Some 12)
    \<lparr>lk_button = ''16E2C4'', lk_channel = 3, lk_mode = 1, lk_key = 1, lk_t1 = 0, lk_t2 = 4\<rparr>"
  using button_16E2C4
  by (auto simp: link_ok_def nibble_ok_def channel_nibble_def MODES_def SWITCH_MODE_MAPPING_def DIMMER_MODE_MAPPING_def
    intro!: exI [of _ "0x16E2C4"])

theorem module_memory_reads_back_witness:
  "\<exists>regs. encode_module \<lparr>sp_address = ''4707'', sp_type = ''switch_module'', sp_channels = 12,
      sp_links = [\<lparr>lk_button = ''16E2C4'', lk_channel = 3, lk_mode = 1, lk_key = 1, lk_t1 = 0, lk_t2 = 4\<rparr>],
      sp_triggers = [], sp_memory = []\<rparr> = Inr [(''00'', regs)] \<and>
    List.map_filter (read_record ''switch_module'' None None 12) (fst (cut_chunks 12 (concat (map snd regs)))) =
      [\<lparr>rd_button = Some ''16E2C4'', rd_channel = 3, rd_mode = 1, rd_key = 1, rd_t1 = Some 0, rd_t2 = None, rd_chain = Some 4\<rparr>]"
  using module_memory_reads_back [of "\<lparr>sp_address = ''4707'', sp_type = ''switch_module'', sp_channels = 12,
      sp_links = [\<lparr>lk_button = ''16E2C4'', lk_channel = 3, lk_mode = 1, lk_key = 1, lk_t1 = 0, lk_t2 = 4\<rparr>],
      sp_triggers = [], sp_memory = []\<rparr>" 12 None None]
  by (simp add: link_ok_example declared_def)

lemma registers_records:
  "0 < w \<Longrightarrow> \<forall>r \<in> set rs. length r = w \<Longrightarrow>
   map snd (registers (concat rs) first w) = rs \<and>
   (\<forall>k \<in> set (map fst (registers (concat rs) first w)). first \<le> k \<and> k < first + int (length rs))"
proof (induction rs arbitrary: first)
  case Nil
  then show ?case by (simp add: registers.simps)
next
  case (Cons r rs)
  have "registers (concat (r # rs)) first w = (first, r) # registers (concat rs) (first + 1) w"
    using Cons.prems by (subst registers.simps) (auto simp: ljust_F_def)
  moreover note Cons.IH [of "first + 1"] Cons.prems
  ultimately show ?case by force
qed

lemma update_new: "k \<notin> set (map fst d) \<Longrightarrow> AList.update k v d = d @ [(k, v)]"
  by (induction d) auto

lemma dict_update_disjoint:
  "set (map fst d) \<inter> set (map fst e) = {} \<Longrightarrow> distinct (map fst e) \<Longrightarrow> dict_update d e = d @ e"
proof (induction e arbitrary: d)
  case Nil
  then show ?case by (simp add: dict_update_def)
next
  case (Cons kv e)
  obtain k v where kv: "kv = (k, v)" by force
  have "dict_update d (kv # e) = dict_update (d @ [(k, v)]) e"
    using Cons.prems update_new [of k d v] by (simp add: dict_update_def kv)
  also have "\<dots> = (d @ [(k, v)]) @ e" using Cons.prems by (intro Cons.IH) (auto simp: kv)
  finally show ?case by (simp add: kv)
qed

lemma config_block: "distinct (map fst DIMMER_CONFIG_BLOCK)" "\<forall>k \<in> set (map fst DIMMER_CONFIG_BLOCK). 0xF8 \<le> k"
  by (simp_all add: DIMMER_CONFIG_BLOCK_def)

lemma map_filter_append [simp]: "List.map_filter f (xs @ ys) = List.map_filter f xs @ List.map_filter f ys"
  by (induction xs) (simp_all add: map_filter_simps split: option.splits)

lemma map_filter_all: "\<forall>x \<in> set xs. f (g x) = Some (h x) \<Longrightarrow> List.map_filter f (map g xs) = map h xs"
  by (induction xs) (simp_all add: map_filter_simps)

text \<open>
  The same for a dimmer module of at most 215 links, whose records fill one 8-byte register
  each: below the configuration block at \<open>0xF8\<close>, its memory decodes to the declared links.
\<close>

theorem dimmer_memory_reads_back:
  assumes "sp_type s = ''dimmer_module''" "sp_memory s = []" "sp_links s \<noteq> []" "length (sp_links s) \<le> 215"
    and "list_all (link_ok ''dimmer_module'' (Some count)) (sp_links s)"
  shows "\<exists>regs. encode_module s = Inr [(''00'', regs)] \<and>
    List.map_filter (read_record ''dimmer_module'' coord a count)
      (map snd (filter (\<lambda>r. fst r < 0xF8) regs)) = map (declared ''dimmer_module'') (sp_links s)"
proof -
  let ?recs = "map (encoded ''dimmer_module'') (sp_links s) @ [replicate 16 CHR ''F'']"
  have ok: "\<forall>l \<in> set (sp_links s). link_ok ''dimmer_module'' (Some count) l" using assms(5) by (simp add: list_all_iff)
  have "concat_res (map encode_dimmer_link (sp_links s)) = Inr (concat (map (encoded ''dimmer_module'') (sp_links s)))"
    using ok by (intro concat_res_all) (blast intro: encoded_Inr(2))
  then have st: "module_stream s = Inr (concat (map (encoded ''dimmer_module'') (sp_links s)))"
    using assms(1) by (simp add: module_stream_def)
  have len: "\<forall>r \<in> set ?recs. length r = 16" using ok by (auto simp: dimmer_table.encode_length)
  obtain l ls where "sp_links s = l # ls" using assms(3) by (cases "sp_links s") simp_all
  then have ne: "concat (map (encoded ''dimmer_module'') (sp_links s)) \<noteq> []" using len by force
  define regs where "regs = registers (concat ?recs) 0x20 16"
  have r: "map snd regs = ?recs" "\<forall>k \<in> set (map fst regs). k < 0xF8"
    using registers_records [where rs = "?recs" and first = "0x20", OF _ len] assms(4) by (auto simp: regs_def)
  have "set (map fst regs) \<inter> set (map fst DIMMER_CONFIG_BLOCK) = {}" using r(2) config_block(2) by fastforce
  from dict_update_disjoint [OF this config_block(1)]
  have e: "encode_module s = Inr [(''00'', regs @ DIMMER_CONFIG_BLOCK)]"
    using assms(1,2) st ne
    by (simp add: encode_module_def encodable_def ENCODABLE_TYPES_def TABLE_START_def register_width_def
      REGISTER_WIDTH_def DIMMER_REGISTER_HEX_def regs_def)
  have "filter (\<lambda>r. fst r < 0xF8) (regs @ DIMMER_CONFIG_BLOCK) = regs"
    using r(2) config_block(2) by (auto simp: filter_empty_conv not_less filter_id_conv)
  moreover have "List.map_filter (read_record ''dimmer_module'' coord a count) ?recs = map (declared ''dimmer_module'') (sp_links s)"
    using ok by (simp add: map_filter_all [where h = "declared ''dimmer_module''"] dimmer_table.read_encode map_filter_simps read_filler_16)
  ultimately show ?thesis using e r(1) by (intro exI [of _ "regs @ DIMMER_CONFIG_BLOCK"]) simp
qed

theorem dimmer_memory_reads_back_witness:
  "\<exists>regs. encode_module \<lparr>sp_address = ''0E6C'', sp_type = ''dimmer_module'', sp_channels = 12,
      sp_links = [\<lparr>lk_button = ''16E2C4'', lk_channel = 3, lk_mode = 1, lk_key = 1, lk_t1 = 0, lk_t2 = 4\<rparr>],
      sp_triggers = [], sp_memory = []\<rparr> = Inr [(''00'', regs)] \<and>
    List.map_filter (read_record ''dimmer_module'' None None 12) (map snd (filter (\<lambda>r. fst r < 0xF8) regs)) =
      [\<lparr>rd_button = Some ''16E2C4'', rd_channel = 3, rd_mode = 1, rd_key = 1, rd_t1 = Some 0, rd_t2 = Some 4, rd_chain = None\<rparr>]"
  using dimmer_memory_reads_back [of "\<lparr>sp_address = ''0E6C'', sp_type = ''dimmer_module'', sp_channels = 12,
      sp_links = [\<lparr>lk_button = ''16E2C4'', lk_channel = 3, lk_mode = 1, lk_key = 1, lk_t1 = 0, lk_t2 = 4\<rparr>],
      sp_triggers = [], sp_memory = []\<rparr>" 12 None None]
  by (simp add: link_ok_example declared_def)

end
