(* ===== verification/Exchange.thy ===== *)
theory Exchange
  imports Listener
begin

section \<open>One exchange with the bus: send, acknowledgement, answer\<close>

text \<open>
  The part of \<open>command.py\<close> below the queue: the signals an answer is recognised by, the wait for
  acknowledgement and answer, and the retries. The wait runs beside the listener; what happens
  meanwhile is a list of \<open>happening\<close>s in the order of the event loop: a frame the listener
  dispatches, a turn of the waiting task, and a time-out (of one message or of the attempt, which the
  code treats alike). A list that ends means that nothing happens any more, so the wait times out.
\<close>

subsection \<open>Signals\<close>

definition RAW_REPLY_FUNCS :: "string list" where
  "RAW_REPLY_FUNCS = [''10'', ''11'', ''13'', ''1D'', ''22'']"

definition MAX_ATTEMPTS :: nat where "MAX_ATTEMPTS = 3"

definition gid_of :: "string \<Rightarrow> string" where
  \<comment> \<open>the function code of a command\<close>
  "gid_of command = (if length command \<ge> 5 then slice 3 5 command else [])"

definition func_answer_prefix :: "(string \<times> string) list" where
  "func_answer_prefix = [(''11'', ''$18''), (''13'', ''$18FF''), (''1D'', ''$1CFF''), (''10'', ''$2E''), (''22'', ''$1E'')]"

definition prefix_mapping :: "(string \<times> string) list" where
  "prefix_mapping = [(''$1E'', ''$0EFF''), (''$05'', ''$1C''), (''$10'', ''$1C'')]"

definition prepare_ack_and_answer_signals :: "string \<Rightarrow> string \<Rightarrow> string \<times> string" where
  "prepare_ack_and_answer_signals command addr0 =
     (let command_prefix = take 3 command;
          command_part = slice 3 5 command;
          addr = upper addr0;
          addr_le = drop 2 addr @ take 2 addr;
          answer_prefix = (case map_of func_answer_prefix command_part of
              Some p \<Rightarrow> p
            | None \<Rightarrow> (case map_of prefix_mapping command_prefix of None \<Rightarrow> ''$1C'' | Some p \<Rightarrow> p))
      in (''$05'' @ command_part, answer_prefix @ addr_le))"

definition parse_state_from_message :: "string \<Rightarrow> string \<Rightarrow> string" where
  "parse_state_from_message message answer_signal = (case str_find message answer_signal of
       None \<Rightarrow> []
     | Some idx \<Rightarrow> let i = idx + length answer_signal + 2; state = slice i (i + 12) message
                  in if length state < 12 then [] else state)"

definition pushed_for_other_group :: "(string \<times> int) list \<Rightarrow> string \<Rightarrow> string \<Rightarrow> bool" where
  \<comment> \<open>against the listener's table of the last query seen for each module\<close>
  "pushed_for_other_group groups wait_ack wait_answer =
     (if length wait_answer < 7 then False
      else let ours = (if last_of 2 wait_ack = ''12'' then 1 else 2);
               addr = upper (slice 5 7 wait_answer @ slice 3 5 wait_answer)
           in (case map_of groups addr of None \<Rightarrow> False | Some other \<Rightarrow> other \<noteq> ours))"

subsection \<open>The wait\<close>

record waiting =
  ack_received :: bool
  answer_received :: bool
  wait_value :: string
  held_early_answer :: "string option"

definition new_wait :: waiting where
  "new_wait = \<lparr>ack_received = False, answer_received = False, wait_value = [], held_early_answer = None\<rparr>"

definition is_output_state :: "string \<Rightarrow> bool \<Rightarrow> bool" where
  "is_output_state wait_answer raw_reply \<longleftrightarrow>
     starts_with wait_answer ''$1C'' \<and> \<not> starts_with wait_answer ''$1CFF'' \<and> \<not> raw_reply"

definition take_message :: "(string \<times> int) list \<Rightarrow> string \<Rightarrow> string \<Rightarrow> bool \<Rightarrow> string \<Rightarrow> waiting \<Rightarrow> waiting" where
  \<comment> \<open>one message of the response queue\<close>
  "take_message groups wait_ack wait_answer raw_reply message w =
     (let w = (if contains message wait_ack then w\<lparr>ack_received := True\<rparr> else w) in
      if \<not> contains message wait_answer then w
      else if is_output_state wait_answer raw_reply \<and> \<not> ack_received w
        then (if pushed_for_other_group groups wait_ack wait_answer then w
              else w\<lparr>held_early_answer := Some message\<rparr>)
      else if starts_with wait_answer ''$0EFF'' then w\<lparr>wait_value := [], answer_received := True\<rparr>
      else if raw_reply then w\<lparr>wait_value := hex_of (reply_payload message), answer_received := True\<rparr>
      else if length message \<ge> length wait_answer + 2 + 12
        then w\<lparr>wait_value := parse_state_from_message message wait_answer, answer_received := True\<rparr>
      else w)"

definition timed_out :: "string \<Rightarrow> bool \<Rightarrow> waiting \<Rightarrow> string option" where
  \<comment> \<open>the held early answer, when the acknowledgement came and nothing followed it\<close>
  "timed_out wait_answer use_held w = (case held_early_answer w of
       Some message \<Rightarrow>
         if ack_received w \<and> use_held
         then let state = parse_state_from_message message wait_answer in if state = [] then None else Some state
         else None
     | None \<Rightarrow> None)"

datatype happening = Frame string | Wake | Expire

fun wait_for_state :: "string \<Rightarrow> string \<Rightarrow> bool \<Rightarrow> bool \<Rightarrow> waiting \<Rightarrow> happening list \<Rightarrow> listener \<Rightarrow>
    string option \<times> happening list \<times> listener_out list \<times> listener" where
  \<comment> \<open>the value, the happenings left, and what the listener did\<close>
  "wait_for_state wait_ack wait_answer raw_reply use_held w [] lst = (timed_out wait_answer use_held w, [], [], lst)"
| "wait_for_state wait_ack wait_answer raw_reply use_held w (Expire # hs) lst =
     (timed_out wait_answer use_held w, hs, [], lst)"
| "wait_for_state wait_ack wait_answer raw_reply use_held w (Frame f # hs) lst =
     (let (o1, lst) = dispatch_message f lst;
          (v, rest, o2, lst) = wait_for_state wait_ack wait_answer raw_reply use_held w hs lst
      in (v, rest, o1 @ o2, lst))"
| "wait_for_state wait_ack wait_answer raw_reply use_held w (Wake # hs) lst =
     (case response_queue lst of
        [] \<Rightarrow> wait_for_state wait_ack wait_answer raw_reply use_held w hs lst
      | message # q \<Rightarrow>
          let lst = lst\<lparr>response_queue := q\<rparr>;
              w = take_message (last_query_group lst) wait_ack wait_answer raw_reply message w
          in if ack_received w \<and> answer_received w then (Some (wait_value w), hs, [], lst)
             else wait_for_state wait_ack wait_answer raw_reply use_held w hs lst)"

subsection \<open>Retries\<close>

datatype exchange_out = Sent string | Heard "listener_out list"

fun attempt_loop :: "nat \<Rightarrow> (nat \<Rightarrow> exn option) \<Rightarrow> string \<Rightarrow> string \<Rightarrow> string \<Rightarrow> bool \<Rightarrow> nat \<Rightarrow> (string \<times> int) option \<Rightarrow>
    happening list \<Rightarrow> listener \<Rightarrow> string res \<times> happening list \<times> exchange_out list \<times> listener" where
  \<comment> \<open>\<open>n\<close> attempts are left of \<open>attempts\<close>; \<open>send_error k\<close> is what sending raises in attempt \<open>k\<close>\<close>
  "attempt_loop 0 send_error command wait_ack wait_answer raw_reply attempts query hs lst =
     (Inl NikobusTimeoutError, hs, [], lst)"
| "attempt_loop (Suc n) send_error command wait_ack wait_answer raw_reply attempts query hs lst =
     (let lst = (case query of None \<Rightarrow> lst | Some (a, g) \<Rightarrow> set_pending_query_group a g lst);
          lst = lst\<lparr>response_queue := []\<rparr>
      in case send_error (attempts - n) of
        Some e \<Rightarrow>
          if n = 0 then (Inl (if e = NikobusSendError \<or> e = NikobusTimeoutError then e else NikobusError), hs, [], lst)
          else attempt_loop n send_error command wait_ack wait_answer raw_reply attempts query hs lst
      | None \<Rightarrow>
          (case wait_for_state wait_ack wait_answer raw_reply True new_wait hs lst of
             (Some state, hs, outs, lst) \<Rightarrow> (Inr state, hs, [Sent command, Heard outs], lst)
           | (None, hs, outs, lst) \<Rightarrow>
               (let (r, hs, os, lst) =
                  attempt_loop n send_error command wait_ack wait_answer raw_reply attempts query hs lst
                in (r, hs, [Sent command, Heard outs] @ os, lst))))"

definition wait_for_ack_and_answer :: "(nat \<Rightarrow> exn option) \<Rightarrow> string \<Rightarrow> string \<Rightarrow> string \<Rightarrow> bool \<Rightarrow> nat \<Rightarrow>
    (string \<times> int) option \<Rightarrow> happening list \<Rightarrow> listener \<Rightarrow>
    string res \<times> happening list \<times> exchange_out list \<times> listener" where
  "wait_for_ack_and_answer send_error command wait_ack wait_answer raw_reply attempts query hs lst =
     (let lst = lst\<lparr>awaiting_response := True, awaited_answer := Some wait_answer\<rparr>;
          (r, hs, outs, lst) =
            attempt_loop attempts send_error command wait_ack wait_answer raw_reply attempts query hs lst
      in (r, hs, outs, lst\<lparr>awaiting_response := False, awaited_answer := None, awaited_query := None\<rparr>))"

definition query_group_of :: "string \<Rightarrow> int option" where
  "query_group_of gid = (if gid = ''12'' then Some 1 else if gid = ''17'' then Some 2 else None)"

definition send_command_get_answer :: "(nat \<Rightarrow> exn option) \<Rightarrow> string \<Rightarrow> string \<Rightarrow> nat \<Rightarrow> happening list \<Rightarrow> listener \<Rightarrow>
    string res \<times> happening list \<times> exchange_out list \<times> listener" where
  "send_command_get_answer send_error command addr attempts hs lst =
     (let (wait_ack, wait_answer) = prepare_ack_and_answer_signals command addr; gid = gid_of command
      in wait_for_ack_and_answer send_error command wait_ack wait_answer (gid \<in> set RAW_REPLY_FUNCS) attempts
           (map_option (Pair (upper addr)) (query_group_of gid)) hs lst)"

subsection \<open>What the listener hands over\<close>

lemma str_find_length: "str_find s p = Some i \<Longrightarrow> i + length p \<le> length s"
proof (induction s arbitrary: i)
  case Nil
  then show ?case by (simp split: if_splits)
next
  case (Cons c s)
  show ?case
  proof (cases "starts_with (c # s) p")
    case True
    then have "i = 0" "\<exists>r. c # s = p @ r" using Cons.prems by (auto simp: starts_with_iff)
    then show ?thesis by (metis add_0 le_add1 length_append)
  next
    case False
    then show ?thesis using Cons by auto
  qed
qed

lemma contains_length: "contains s p \<Longrightarrow> length p \<le> length s"
  using str_find_length by (fastforce simp: contains_def)

lemma contains_starts: "starts_with s p \<Longrightarrow> contains s p"
  by (simp add: contains_def str_find_starts)

definition same_wait :: "listener \<Rightarrow> listener \<Rightarrow> bool" where
  "same_wait l l' \<longleftrightarrow> awaiting_response l' = awaiting_response l \<and> awaited_answer l' = awaited_answer l"

definition hands_over :: "string \<Rightarrow> listener \<Rightarrow> listener \<Rightarrow> bool" where
  \<comment> \<open>at most the message itself joins the queue\<close>
  "hands_over m l l' \<longleftrightarrow> same_wait l l' \<and>
     (response_queue l' = response_queue l \<or> response_queue l' = response_queue l @ [m])"

lemma attribute_same [simp]: "same_wait l (snd (attribute_state_answer addr m l))"
  by (auto simp: attribute_state_answer_def same_wait_def split: option.splits prod.splits)

lemma attribute_awaiting [simp]: "awaiting_response (snd (attribute_state_answer addr m l)) = awaiting_response l"
  using attribute_same [of l addr m] by (simp add: same_wait_def del: attribute_same)

lemma enqueue_hands_over:
  "length (response_queue l) < QUEUE_SIZE \<Longrightarrow> same_wait l l' \<Longrightarrow> response_queue l' = response_queue l \<Longrightarrow>
   hands_over m l (enqueue_response m l')"
  by (simp add: hands_over_def same_wait_def enqueue_response_def)

lemma on_state_answer_hands_over:
  assumes q: "length (response_queue l) < QUEUE_SIZE"
  shows "hands_over m l (snd (on_state_answer m l))"
proof -
  have e: "hands_over m l (enqueue_response m l')" if "same_wait l l'" "response_queue l' = response_queue l" for l'
    using q that by (rule enqueue_hands_over)
  let ?l = "if awaiting_response l then l else l\<lparr>feedback_answers_seen := feedback_answers_seen l + 1\<rparr>"
  have s: "same_wait l (snd (attribute_state_answer addr m ?l))" for addr
    using attribute_same [of ?l addr m] by (auto simp: same_wait_def)
  have r: "response_queue (snd (attribute_state_answer addr m ?l)) = response_queue l" for addr by simp
  have n: "hands_over m l l'" if "same_wait l l'" "response_queue l' = response_queue l" for l'
    using that by (simp add: hands_over_def)
  have z: "same_wait l l" "same_wait l ?l" "response_queue ?l = response_queue l" by (simp_all add: same_wait_def)
  show ?thesis
    using e [OF s r] n [OF s r] e [OF z(1) refl] n [OF z(1) refl] e [OF z(2,3)] n [OF z(2,3)]
    by (simp add: on_state_answer_def Let_def split_def)
qed

lemma route_hands_over:
  assumes q: "length (response_queue l) < QUEUE_SIZE"
  shows "hands_over m l (snd (route m l))"
proof -
  have e: "hands_over m l (enqueue_response m l')" if "same_wait l l'" "response_queue l' = response_queue l" for l'
    using q that by (rule enqueue_hands_over)
  have n: "hands_over m l l'" if "same_wait l l'" "response_queue l' = response_queue l" for l'
    using that by (simp add: hands_over_def)
  have "hands_over m l (snd (on_command_processed m l))" "hands_over m l (on_refresh_echo m l)"
    "hands_over m l (on_manual_refresh m l)" "hands_over m l (snd (on_discovery_frame m l))"
    "hands_over m l (on_other_response m l)" "hands_over m l l"
    by (simp_all add: on_command_processed_def on_refresh_echo_def on_manual_refresh_def on_discovery_frame_def
      on_other_response_def Let_def e n same_wait_def)
  with on_state_answer_hands_over [OF q] show ?thesis by (simp add: route_def)
qed

lemma dispatch_hands_over:
  assumes q: "length (response_queue l) < QUEUE_SIZE"
  shows "hands_over m l (snd (dispatch_message m l))"
proof -
  have "hands_over m l (snd (route m (l\<lparr>device_answered := d\<rparr>)))" for d
    using route_hands_over [of "l\<lparr>device_answered := d\<rparr>" m] q by (simp add: hands_over_def same_wait_def)
  moreover have "hands_over m' l l" for m' by (simp add: hands_over_def same_wait_def)
  ultimately show ?thesis using route_hands_over [OF q, of m]
    by (cases "m = []") (simp_all add: dispatch_message_def mark_device_answered_def split_def Let_def)
qed

lemma dispatch_as_route:
  assumes "m \<noteq> []" shows "\<exists>d. snd (dispatch_message m l) = snd (route m (l\<lparr>device_answered := d\<rparr>))"
proof (cases "device_answered l = Some False \<and> is_proof_of_life m")
  case True
  then show ?thesis using assms
    by (intro exI [of _ "Some True"]) (simp add: dispatch_message_def mark_device_answered_def split_def Let_def)
next
  case False
  then show ?thesis using assms
    by (intro exI [of _ "device_answered l"]) (auto simp: dispatch_message_def split_def)
qed

lemma dispatch_ack:
  assumes "ack = ''$0512'' \<or> ack = ''$0517''" "length (response_queue l) < QUEUE_SIZE"
  shows "response_queue (snd (dispatch_message ack l)) = response_queue l @ [ack]"
proof -
  have "last_frame ack = ack" using assms(1) by (subst last_frame.simps) auto
  then have "validate_crc ack" using assms(1) by (auto simp: validate_crc_def)
  moreover obtain d where "snd (dispatch_message ack l) = snd (route ack (l\<lparr>device_answered := d\<rparr>))"
    using dispatch_as_route [of ack l] assms(1) by auto
  ultimately show ?thesis using assms
    by (auto simp: route_ack on_manual_refresh_def enqueue_response_def)
qed

lemma dispatch_answer:
  assumes "length rest = 7" "length (response_queue l) < QUEUE_SIZE" "awaiting_response l"
  shows "response_queue (snd (dispatch_message (state_answer a rest) l)) = response_queue l @ [state_answer a rest]"
proof -
  define m where "m = state_answer a rest"
  have m: "starts_with m ''$1C''" "validate_crc m" "m \<noteq> []"
    using state_answer_text [OF assms(1), of a] by (auto simp: m_def starts_with_iff)
  obtain d where d: "snd (dispatch_message m l) = snd (route m (l\<lparr>device_answered := d\<rparr>))"
    using dispatch_as_route [OF m(3)] by blast
  let ?l = "l\<lparr>device_answered := d\<rparr>"
  have "response_queue (enqueue_response m l') = response_queue l @ [m]" if "response_queue l' = response_queue l" for l'
    using that assms(2) by (simp add: enqueue_response_def)
  then show ?thesis unfolding m_def [symmetric] d route_answer [OF m(1)] using m(2) assms(3)
    by (simp add: on_state_answer_def Let_def split_def)
qed

subsection \<open>The answer that follows the acknowledgement\<close>

fun answer_next :: "string \<Rightarrow> string \<Rightarrow> string list \<Rightarrow> bool" where
  \<comment> \<open>the first message with the answer signal is \<open>ans\<close>\<close>
  "answer_next sig ans [] = False"
| "answer_next sig ans (m # ms) = (m = ans \<or> \<not> contains m sig \<and> answer_next sig ans ms)"

fun ack_next :: "string \<Rightarrow> string \<Rightarrow> string \<Rightarrow> string list \<Rightarrow> bool" where
  "ack_next ack sig ans [] = False"
| "ack_next ack sig ans (m # ms) = (m = ack \<and> answer_next sig ans ms \<or> \<not> contains m ack \<and> ack_next ack sig ans ms)"

lemma answer_next_skip: "answer_next sig ans (xs @ f # ys) \<Longrightarrow> f \<noteq> ans \<Longrightarrow> answer_next sig ans (xs @ ys)"
  by (induction xs) auto

lemma ack_next_skip: "ack_next ack sig ans (xs @ f # ys) \<Longrightarrow> f \<noteq> ack \<Longrightarrow> f \<noteq> ans \<Longrightarrow> ack_next ack sig ans (xs @ ys)"
  by (induction xs) (auto intro: answer_next_skip)

lemma answer_nextI: "\<forall>m \<in> set mid. \<not> contains m sig \<Longrightarrow> answer_next sig ans (mid @ ans # post)"
  by (induction mid) auto

lemma ack_nextI:
  "\<forall>m \<in> set pre. \<not> contains m ack \<Longrightarrow> \<forall>m \<in> set mid. \<not> contains m sig \<Longrightarrow>
   ack_next ack sig ans (pre @ ack # mid @ ans # post)"
  by (induction pre) (auto intro: answer_nextI)

fun frames_in :: "happening list \<Rightarrow> string list" where
  "frames_in [] = []"
| "frames_in (Frame f # hs) = f # frames_in hs"
| "frames_in (h # hs) = frames_in hs"

definition on_course :: "string \<Rightarrow> string \<Rightarrow> string \<Rightarrow> waiting \<Rightarrow> string list \<Rightarrow> bool" where
  \<comment> \<open>what is still to come, given what the wait has seen\<close>
  "on_course ack sig ans w ms \<longleftrightarrow> \<not> answer_received w \<and>
     (if ack_received w then answer_next sig ans ms else ack_next ack sig ans ms)"

definition state_signals :: "string \<Rightarrow> string \<Rightarrow> string \<Rightarrow> bool" where
  \<comment> \<open>the acknowledgement, answer signal and answer of a state read\<close>
  "state_signals ack sig ans \<longleftrightarrow> length ack = 5 \<and> length sig = 7 \<and> starts_with sig ''$1C'' \<and>
     \<not> starts_with sig ''$1CFF'' \<and> starts_with ans sig \<and> 21 \<le> length ans"

lemma take_on_course:
  assumes "state_signals ack sig ans" "on_course ack sig ans w (m # ms)"
  shows "let w' = take_message groups ack sig False m w in
    (ack_received w' \<and> answer_received w' \<and> wait_value w' = parse_state_from_message ans sig) \<or> on_course ack sig ans w' ms"
proof -
  have sig: "is_output_state sig False" "\<not> starts_with sig ''$0EFF''" "contains ans sig" "\<not> contains ack sig"
    using assms(1) contains_starts contains_length [of ack sig]
    by (auto simp: state_signals_def is_output_state_def starts_with_iff)
  have self: "contains ack ack" by (intro contains_starts) (simp add: starts_with_def)
  show ?thesis
  proof (cases "ack_received w")
    case True
    then show ?thesis using assms sig
      by (auto simp: on_course_def take_message_def state_signals_def Let_def)
  next
    case False
    then show ?thesis using assms sig self
      by (auto simp: on_course_def take_message_def Let_def)
  qed
qed

lemma wait_drains:
  assumes "state_signals ack sig ans"
  shows "on_course ack sig ans w (response_queue l) \<Longrightarrow> length (response_queue l) \<le> k \<Longrightarrow>
    fst (wait_for_state ack sig False held w (replicate k Wake) l) = Some (parse_state_from_message ans sig)"
proof (induction k arbitrary: w l)
  case 0
  then show ?case by (simp add: on_course_def split: if_splits)
next
  case (Suc k)
  obtain m q where q: "response_queue l = m # q" using Suc.prems(1) by (cases "response_queue l") (auto simp: on_course_def split: if_splits)
  let ?l = "l\<lparr>response_queue := q\<rparr>"
  let ?w = "take_message (last_query_group l) ack sig False m w"
  have IH: "on_course ack sig ans ?w q \<Longrightarrow>
      fst (wait_for_state ack sig False held ?w (replicate k Wake) ?l) = Some (parse_state_from_message ans sig)"
    using Suc.IH [of ?w ?l] Suc.prems(2) q by simp
  show ?case using take_on_course [OF assms Suc.prems(1) [unfolded q], of "last_query_group l"] IH
    by (auto simp: q Let_def on_course_def split: if_splits)
qed

lemma wait_finds_answer:
  assumes s: "state_signals ack sig ans" and a: "ack = ''$0512'' \<or> ack = ''$0517''"
    and ans: "ans = state_answer adr rest" "length rest = 7"
  shows "Expire \<notin> set hs \<Longrightarrow> awaiting_response l \<Longrightarrow> on_course ack sig ans w (response_queue l @ frames_in hs) \<Longrightarrow>
    length (response_queue l) + length (frames_in hs) \<le> min k QUEUE_SIZE \<Longrightarrow>
    fst (wait_for_state ack sig False held w (hs @ replicate k Wake) l) = Some (parse_state_from_message ans sig)"
proof (induction hs arbitrary: w l)
  case Nil
  then show ?case using wait_drains [OF s] by simp
next
  case (Cons h hs)
  show ?case
  proof (cases h)
    case (Frame f)
    define l' where "l' = snd (dispatch_message f l)"
    have q: "length (response_queue l) < QUEUE_SIZE" using Cons.prems(4) Frame by simp
    have ho: "hands_over f l l'" unfolding l'_def by (rule dispatch_hands_over [OF q])
    have must: "f = ack \<or> f = ans \<Longrightarrow> response_queue l' = response_queue l @ [f]"
      using dispatch_ack [OF a q] dispatch_answer [OF ans(2) q Cons.prems(2)] ans(1) by (auto simp: l'_def)
    have "on_course ack sig ans w (response_queue l' @ frames_in hs)"
    proof (cases "response_queue l' = response_queue l @ [f]")
      case True
      then show ?thesis using Cons.prems(3) Frame by simp
    next
      case False
      then have "f \<noteq> ack" "f \<noteq> ans" "response_queue l' = response_queue l"
        using must ho by (auto simp: hands_over_def)
      then show ?thesis using Cons.prems(3) Frame
        by (auto simp: on_course_def intro: answer_next_skip ack_next_skip split: if_splits)
    qed
    moreover have "length (response_queue l') + length (frames_in hs) \<le> min k QUEUE_SIZE" "awaiting_response l'"
      using ho Cons.prems(2,4) Frame by (auto simp: hands_over_def same_wait_def)
    ultimately have "fst (wait_for_state ack sig False held w (hs @ replicate k Wake) l') = Some (parse_state_from_message ans sig)"
      using Cons.IH Cons.prems(1) by simp
    then show ?thesis using Frame by (simp add: split_def Let_def l'_def)
  next
    case Wake
    show ?thesis
    proof (cases "response_queue l")
      case Nil
      then show ?thesis using Cons Wake by simp
    next
      case (Cons m q)
      let ?l = "l\<lparr>response_queue := q\<rparr>"
      let ?w = "take_message (last_query_group l) ack sig False m w"
      have "on_course ack sig ans ?w (q @ frames_in hs) \<Longrightarrow>
          fst (wait_for_state ack sig False held ?w (hs @ replicate k Wake) ?l) = Some (parse_state_from_message ans sig)"
        using Cons.IH [of ?l ?w] Cons.prems Cons Wake by simp
      then show ?thesis using take_on_course [OF s, of w m "q @ frames_in hs" "last_query_group l"] Cons.prems(3) Wake
        by (auto simp: Cons Let_def on_course_def split: if_splits)
    qed
  next
    case Expire
    then show ?thesis using Cons.prems(1) by simp
  qed
qed

lemma low_first_length [simp]: "length (low_first a) = 4"
  by (simp add: low_first_def)

lemma state_query_signals:
  assumes "g = 1 \<or> g = 2"
  defines "gid \<equiv> if g = 1 then ''12'' else ''17''"
  shows "prepare_ack_and_answer_signals (state_query a g) (hexw 4 a) = (''$05'' @ gid, ''$1C'' @ low_first a)"
    "gid_of (state_query a g) = gid"
proof -
  from echo_frame [OF assms(1), of a] obtain r where r: "state_query a g =
      ''$10'' @ gid @ byte_hex (of_nat a) @ byte_hex (of_nat (a div 256)) @ r"
    unfolding state_query_def gid_def by blast
  have s: "take 3 (state_query a g) = ''$10''" "slice 3 5 (state_query a g) = gid" "5 \<le> length (state_query a g)"
    by (simp_all add: r slice_def numeral_3_eq_3 gid_def)
  have "upper (hexw 4 a) = byte_hex (of_nat (a div 256)) @ byte_hex (of_nat a)"
    by (simp add: byte_hex_append)
  then have u: "drop 2 (upper (hexw 4 a)) @ take 2 (upper (hexw 4 a)) = low_first a"
    by (simp add: low_first_def)
  show "prepare_ack_and_answer_signals (state_query a g) (hexw 4 a) = (''$05'' @ gid, ''$1C'' @ low_first a)"
    unfolding prepare_ack_and_answer_signals_def Let_def s u
    by (simp add: func_answer_prefix_def prefix_mapping_def gid_def)
  show "gid_of (state_query a g) = gid" using s by (simp add: gid_of_def)
qed

lemma state_answer_value:
  assumes "length rest = 7"
  shows "state_signals (''$05'' @ (if g = 1 then ''12'' else ''17'')) (''$1C'' @ low_first a) (state_answer a rest) \<longleftrightarrow> a mod 256 \<noteq> 255"
    "parse_state_from_message (state_answer a rest) (''$1C'' @ low_first a) = hex_of (tl rest)"
proof -
  obtain r where r: "state_answer a rest = ''$1C'' @ byte_hex (of_nat a) @ byte_hex (of_nat (a div 256)) @ r"
    using state_answer_text(1) [OF assms] by blast
  then have st: "state_answer a rest = (''$1C'' @ low_first a) @ r" by (simp add: low_first_def)
  obtain s ss where rest: "rest = s # ss" "length ss = 6" using assms by (cases rest) auto
  have "starts_with (''$1C'' @ low_first a) ''$1CFF'' \<longleftrightarrow> a mod 256 = 255"
  proof
    show "a mod 256 = 255" if "starts_with (''$1C'' @ low_first a) ''$1CFF''"
      using that low_first_no_FF [of a "[]"] by auto
    show "starts_with (''$1C'' @ low_first a) ''$1CFF''" if "a mod 256 = 255"
    proof -
      have "byte_hex (of_nat a) = hexw 2 255" using hexw_mod [of 2 a] that by (simp add: byte_hex_of_nat)
      then show ?thesis by (simp add: low_first_def eval_simps)
    qed
  qed
  moreover have "21 \<le> length (state_answer a rest)" using assms by (simp add: state_answer_def)
  ultimately show "state_signals (''$05'' @ (if g = 1 then ''12'' else ''17'')) (''$1C'' @ low_first a) (state_answer a rest) \<longleftrightarrow> a mod 256 \<noteq> 255"
    by (auto simp: state_signals_def st)
  have "\<exists>r'. state_answer a rest = (''$1C'' @ low_first a) @ byte_hex s @ hex_of ss @ r'"
  proof -
    have "hexw 2 28 = ''1C''" by (simp add: eval_simps)
    then show ?thesis using rest by (simp add: state_answer_def frame_text_split low_first_def)
  qed
  then obtain r' where r': "state_answer a rest = (''$1C'' @ low_first a) @ byte_hex s @ hex_of ss @ r'" by blast
  have "str_find (state_answer a rest) (''$1C'' @ low_first a) = Some 0"
    unfolding r' by (rule str_find_starts [OF starts_with_append])
  moreover have "slice 9 21 (state_answer a rest) = hex_of ss"
    unfolding r' using rest by (simp add: slice_def)
  ultimately show "parse_state_from_message (state_answer a rest) (''$1C'' @ low_first a) = hex_of (tl rest)"
    using rest assms by (simp add: parse_state_from_message_def Let_def state_answer_def)
qed

lemma contains_set: "contains s p \<Longrightarrow> set p \<subseteq> set s"
proof (induction s)
  case (Cons c s)
  show ?case
  proof (cases "starts_with (c # s) p")
    case True
    then obtain r where "c # s = p @ r" by (auto simp: starts_with_iff)
    then show ?thesis by (metis Un_upper1 set_append)
  qed (use Cons in \<open>auto simp: contains_def\<close>)
qed (simp add: contains_def split: if_splits)

lemma contains_dollar: "CHR ''$'' \<notin> set r \<Longrightarrow> contains (CHR ''$'' # r) (CHR ''$'' # q) \<longleftrightarrow> starts_with r q"
proof
  assume d: "CHR ''$'' \<notin> set r" and c: "contains (CHR ''$'' # r) (CHR ''$'' # q)"
  have "\<not> contains r (CHR ''$'' # q)" using d contains_set by fastforce
  then show "starts_with r q" using c by (simp add: contains_def split: if_splits)
qed (simp add: contains_starts)

lemma frame_text_contains:
  "contains (frame_text p) (CHR ''$'' # q) \<longleftrightarrow> starts_with (tl (frame_text p)) q"
proof -
  define r where "r = tl (frame_text p)"
  have f: "frame_text p = CHR ''$'' # r" by (simp add: r_def frame_text_split)
  have "list_all is_hex r" by (simp add: r_def frame_text_split)
  then have "contains (CHR ''$'' # r) (CHR ''$'' # q) \<longleftrightarrow> starts_with r q" by (intro contains_dollar hex_no_dollar)
  then show ?thesis by (simp only: f list.sel)
qed

lemma attempt_succeeds:
  assumes "send_error (attempts - n) = None"
    and "fst (wait_for_state ack sig raw_reply True new_wait hs
      ((case query of None \<Rightarrow> lst | Some (a, g) \<Rightarrow> set_pending_query_group a g lst)\<lparr>response_queue := []\<rparr>)) = Some v"
  shows "fst (attempt_loop (Suc n) send_error command ack sig raw_reply attempts query hs lst) = Inr v"
proof -
  obtain x where "wait_for_state ack sig raw_reply True new_wait hs
      ((case query of None \<Rightarrow> lst | Some (a, g) \<Rightarrow> set_pending_query_group a g lst)\<lparr>response_queue := []\<rparr>) = (Some v, x)"
    using assms(2) by (metis prod.collapse)
  then show ?thesis using assms(1) by (cases x) (simp add: Let_def)
qed

lemma state_read_step:
  assumes "g = 1 \<or> g = 2" "length rest = 7" "a mod 256 \<noteq> 255" "0 < attempts" "send_error 1 = None"
    and "Expire \<notin> set hs" "length (frames_in hs) \<le> min k QUEUE_SIZE"
    and "ack_next (''$05'' @ (if g = 1 then ''12'' else ''17'')) (''$1C'' @ low_first a) (state_answer a rest) (frames_in hs)"
  shows "fst (send_command_get_answer send_error (state_query a g) (hexw 4 a) attempts (hs @ replicate k Wake) lst)
    = Inr (hex_of (tl rest))"
proof -
  obtain n where n: "attempts = Suc n" using assms(4) gr0_conv_Suc by blast
  let ?ack = "''$05'' @ (if g = 1 then ''12'' else ''17'')"
  let ?sig = "''$1C'' @ low_first a"
  define l where "l = set_pending_query_group (hexw 4 a) g (lst\<lparr>awaiting_response := True, awaited_answer := Some ?sig\<rparr>)\<lparr>response_queue := []\<rparr>"
  have gid: "(if g = 1 then ''12'' else ''17'') \<notin> set RAW_REPLY_FUNCS"
    "query_group_of (if g = 1 then ''12'' else ''17'') = Some g"
    using assms(1) by (auto simp: RAW_REPLY_FUNCS_def query_group_of_def)
  have "fst (wait_for_state ?ack ?sig False True new_wait (hs @ replicate k Wake) l) = Some (parse_state_from_message (state_answer a rest) ?sig)"
  proof (rule wait_finds_answer [OF _ _ refl assms(2,6)])
    show "state_signals ?ack ?sig (state_answer a rest)" using state_answer_value(1) [OF assms(2)] assms(3) by blast
    show "on_course ?ack ?sig (state_answer a rest) new_wait (response_queue l @ frames_in hs)"
      using assms(8) by (simp add: on_course_def new_wait_def l_def)
  qed (use assms(7) in \<open>simp_all add: l_def set_pending_query_group_def\<close>)
  then have "fst (attempt_loop attempts send_error (state_query a g) ?ack ?sig False attempts (Some (hexw 4 a, g))
      (hs @ replicate k Wake) (lst\<lparr>awaiting_response := True, awaited_answer := Some ?sig\<rparr>)) = Inr (hex_of (tl rest))"
    unfolding n state_answer_value(2) [OF assms(2)] l_def using assms(5) by (intro attempt_succeeds) simp_all
  moreover define res where "res = attempt_loop attempts send_error (state_query a g) ?ack ?sig False attempts (Some (hexw 4 a, g))
      (hs @ replicate k Wake) (lst\<lparr>awaiting_response := True, awaited_answer := Some ?sig\<rparr>)"
  moreover have "send_command_get_answer send_error (state_query a g) (hexw 4 a) attempts (hs @ replicate k Wake) lst =
      (let (r, hs, outs, lst) = res in (r, hs, outs, lst\<lparr>awaiting_response := False, awaited_answer := None, awaited_query := None\<rparr>))"
    unfolding send_command_get_answer_def state_query_signals [OF assms(1)] Let_def prod.case gid(2) wait_for_ack_and_answer_def
    using gid(1) by (simp only: upper_hexw option.map res_def)
  ultimately show ?thesis by (simp add: split_def Let_def)
qed

text \<open>
  C16. A state read returns the state of the group it asked for: whatever frames the bus carries before
  the interface acknowledges the query (state answers of the same module to a Feedback Module's queries
  included), and whatever frames but an answer of this module between the acknowledgement and the answer,
  and however the turns of the listener and of the waiting task interleave, the value is the six output bytes of
  the first answer that follows the acknowledgement. (A low address byte \<open>FF\<close> makes the
  answer look like a clock reply and is excluded.)
\<close>

theorem state_read_takes_fresh_answer:
  fixes g :: int
  assumes "g = 1 \<or> g = 2" "length rest = 7" "a < 65536" "a mod 256 \<noteq> 255" "0 < attempts" "send_error 1 = None"
    and "ack = ''$05'' @ (if g = 1 then ''12'' else ''17'')"
    and "frames_in hs = pre @ ack # mid @ state_answer a rest # post" "Expire \<notin> set hs"
    and "\<forall>m \<in> set pre. \<not> contains m ack" "\<forall>m \<in> set mid. \<not> contains m (''$1C'' @ low_first a)"
    and "length (frames_in hs) \<le> k" "length (frames_in hs) \<le> 200"
  shows "\<exists>command. make_pc_link_command (if g = 1 then 0x12 else 0x17) (hexw 4 a) None = Inr command \<and>
    fst (send_command_get_answer send_error command (hexw 4 a) attempts (hs @ replicate k Wake) lst) = Inr (hex_of (tl rest))"
proof (intro exI conjI)
  show "make_pc_link_command (if g = 1 then 0x12 else 0x17) (hexw 4 a) None = Inr (state_query a g)"
    unfolding state_query_def using assms(3)
    by (intro command_frame) (simp_all add: command_bytes_def)
  have "ack_next ack (''$1C'' @ low_first a) (state_answer a rest) (frames_in hs)"
    unfolding assms(8) by (intro ack_nextI assms(10,11))
  then show "fst (send_command_get_answer send_error (state_query a g) (hexw 4 a) attempts (hs @ replicate k Wake) lst)
      = Inr (hex_of (tl rest))"
    using assms(12,13) unfolding assms(7)
    by (intro state_read_step assms(1,2,4,5,6,9)) (simp_all add: QUEUE_SIZE_def)
qed

theorem state_read_takes_fresh_answer_witness:
  "\<exists>command. make_pc_link_command (if (2 :: int) = 1 then 0x12 else 0x17) (hexw 4 0xC9A5) None = Inr command \<and>
    fst (send_command_get_answer (\<lambda>_. None) command (hexw 4 0xC9A5) 3
      ([Frame (state_query 0xC9A5 1), Frame (state_answer 0xC9A5 [0, 0, 0, 0, 0, 0, 0]), Wake, Frame ''$0517'',
        Frame ''#N123456'', Frame (state_answer 0xC9A5 [0, 0xFF, 0, 0, 0, 0, 0])] @ replicate 5 Wake)
      (listener_init True True (Some True))) = Inr (hex_of [0xFF, 0, 0, 0, 0, 0])"
proof -
  have c: "\<not> contains (state_query 0xC9A5 1) ''$0517''" "\<not> contains (state_answer 0xC9A5 [0, 0, 0, 0, 0, 0, 0]) ''$0517''"
    "\<not> contains ''#N123456'' (''$1C'' @ low_first 0xC9A5)"
  proof -
    have "starts_with (tl (frame_text p)) (x # ''517'') \<longrightarrow> hd (hexw 2 (2 * length p + 10)) = x" for p x
      by (cases "hexw 2 (2 * length p + 10)") (auto simp: frame_text_split dest: arg_cong [where f = length])
    from this [of "_" "CHR ''0''"]
    show "\<not> contains (state_query 0xC9A5 1) ''$0517''" "\<not> contains (state_answer 0xC9A5 [0, 0, 0, 0, 0, 0, 0]) ''$0517''"
      unfolding state_query_def state_answer_def frame_text_contains
      by (force simp: command_bytes_def eval_simps)+
    show "\<not> contains ''#N123456'' (''$1C'' @ low_first 0xC9A5)"
      using contains_set [of "''#N123456''" "''$1C'' @ low_first 0xC9A5"] by auto
  qed
  have "\<exists>command. make_pc_link_command (if (2 :: int) = 1 then 0x12 else 0x17) (hexw 4 0xC9A5) None = Inr command \<and>
    fst (send_command_get_answer (\<lambda>_. None) command (hexw 4 0xC9A5) 3
      ([Frame (state_query 0xC9A5 1), Frame (state_answer 0xC9A5 [0, 0, 0, 0, 0, 0, 0]), Wake, Frame ''$0517'',
        Frame ''#N123456'', Frame (state_answer 0xC9A5 [0, 0xFF, 0, 0, 0, 0, 0])] @ replicate 5 Wake)
      (listener_init True True (Some True))) = Inr (hex_of (tl [0, 0xFF, 0, 0, 0, 0, 0]))"
    by (rule state_read_takes_fresh_answer [where ack = "''$0517''" and post = "[]" and mid = "[''#N123456'']"
      and pre = "[state_query 0xC9A5 1, state_answer 0xC9A5 [0, 0, 0, 0, 0, 0, 0]]"])
      (use c in simp_all)
  then show ?thesis by simp
qed

definition sent :: "exchange_out list \<Rightarrow> string list" where
  "sent outs = concat (map (\<lambda>x. case x of Sent c \<Rightarrow> [c] | Heard _ \<Rightarrow> []) outs)"

lemma attempt_loop_sends:
  "\<exists>k \<le> n. sent (fst (snd (snd (attempt_loop n send_error command ack sig raw_reply attempts query hs lst)))) = replicate k command"
proof (induction n arbitrary: hs lst)
  case 0
  then show ?case by (simp add: sent_def)
next
  case (Suc n)
  define l where "l = (case query of None \<Rightarrow> lst | Some (a, g) \<Rightarrow> set_pending_query_group a g lst)\<lparr>response_queue := []\<rparr>"
  obtain v hs' outs l' where w: "wait_for_state ack sig raw_reply True new_wait hs l = (v, hs', outs, l')"
    by (metis prod.collapse)
  obtain k where k: "k \<le> n"
    "sent (fst (snd (snd (attempt_loop n send_error command ack sig raw_reply attempts query hs' l')))) = replicate k command"
    using Suc.IH by blast
  obtain k0 where k0: "k0 \<le> n"
    "sent (fst (snd (snd (attempt_loop n send_error command ack sig raw_reply attempts query hs l)))) = replicate k0 command"
    using Suc.IH by blast
  show ?case
  proof (cases "send_error (attempts - n)")
    case None
    then show ?thesis using w k
      by (cases v) (auto simp: Let_def l_def [symmetric] split_def sent_def intro: exI [of _ "Suc 0"] exI [of _ "Suc k"])
  next
    case (Some e)
    then show ?thesis using k0 by (auto simp: Let_def l_def [symmetric] sent_def intro: exI [of _ k0] exI [of _ 0])
  qed
qed

lemma attempt_loop_errors:
  "fst (attempt_loop n send_error command ack sig raw_reply attempts query hs lst)
     \<in> Inl ` {NikobusTimeoutError, NikobusSendError, NikobusError} \<union> range Inr"
proof (induction n arbitrary: hs lst)
  case 0
  then show ?case by simp
next
  case (Suc n)
  define l where "l = (case query of None \<Rightarrow> lst | Some (a, g) \<Rightarrow> set_pending_query_group a g lst)\<lparr>response_queue := []\<rparr>"
  obtain v hs' outs l' where w: "wait_for_state ack sig raw_reply True new_wait hs l = (v, hs', outs, l')"
    by (metis prod.collapse)
  then show ?case using Suc.IH [of hs l] Suc.IH [of hs' l']
    by (cases v) (auto simp: Let_def l_def [symmetric] split_def split: option.splits)
qed

text \<open>
  C17. An exchange ends: it sends the command at most as often as it has attempts, and nothing else; it
  returns the value or one of the three library errors; and the listener no longer waits for anything, on
  every path.
\<close>

theorem exchange_bounded:
  "\<exists>r hs' outs lst' k. send_command_get_answer send_error command addr attempts hs lst = (r, hs', outs, lst') \<and>
     k \<le> attempts \<and> sent outs = replicate k command \<and>
     r \<in> Inl ` {NikobusTimeoutError, NikobusSendError, NikobusError} \<union> range Inr \<and>
     \<not> awaiting_response lst' \<and> awaited_answer lst' = None \<and> awaited_query lst' = None"
proof -
  obtain ack sig where s: "prepare_ack_and_answer_signals command addr = (ack, sig)" by force
  let ?loop = "attempt_loop attempts send_error command ack sig (gid_of command \<in> set RAW_REPLY_FUNCS) attempts
    (map_option (Pair (upper addr)) (query_group_of (gid_of command))) hs (lst\<lparr>awaiting_response := True, awaited_answer := Some sig\<rparr>)"
  obtain r hs' outs lst' where l: "?loop = (r, hs', outs, lst')" by (metis prod.collapse)
  obtain k where "k \<le> attempts" "sent (fst (snd (snd ?loop))) = replicate k command" using attempt_loop_sends by blast
  moreover have "fst ?loop \<in> Inl ` {NikobusTimeoutError, NikobusSendError, NikobusError} \<union> range Inr"
    by (rule attempt_loop_errors)
  ultimately show ?thesis unfolding l
    by (simp add: send_command_get_answer_def s wait_for_ack_and_answer_def Let_def l)
qed

end
