(* ===== verification/Command.thy ===== *)
theory Command
  imports Complex_Main Exchange
begin

section \<open>The command queue\<close>

text \<open>
  \<open>command.py\<close> above the exchange: the shared buffer of output states, the queue with its
  deduplicated reads and coalesced writes, and the worker. Queued commands and futures are objects
  with an identity, so they are numbers into a store. The code runs in one event loop and gives way
  only where it awaits, so a run is a sequence of \<open>event\<close>s, each the code between two awaits: a
  call of the host, a caller that gives up, a \<open>put\<close> blocked by a full queue that gets its
  place or is cancelled with its caller, or the next part of the worker, with the result of the
  exchange it waited for. The clock is an argument, the handlers of the host are numbers that the outputs name and are taken to return. Keys written
  \<open>ADDR_group\<close> are the pair. A derived future follows its shared one at once.
\<close>

subsection \<open>State\<close>

datatype future = Waiting | Result string | Failed exn | Cancelled

record item =
  it_command :: string
  it_address :: "string option"
  it_future :: "nat option"
  it_completion :: "nat option"
  it_completions :: "nat list"
  it_failures :: "nat list"
  it_group :: "(string \<times> int) option"
  it_channels :: "(int \<times> int) list"

datatype caller =
  \<comment> \<open>what the coroutine that waits in \<open>put\<close> does after it\<close>
    SetCaller nat
  | GetCaller string int nat
  | QueryCaller nat
  | StatesCaller string "nat option"
  | PlainCaller

datatype phase = Off | Idle | Coalescing nat | Reading nat | Sending nat

type_synonym group_key = "string \<times> int"
type_synonym buffers = "(string \<times> byte list) list"

record commander =
  module_states :: buffers
  command_queue :: "nat list"
  put_waiting :: "nat list"
  callers :: "nat \<Rightarrow> caller"
  items :: "nat \<Rightarrow> item"
  next_item :: nat
  futures :: "nat \<Rightarrow> future"
  next_future :: nat
  follows :: "(nat \<times> nat) list"
  pending_gets :: "(group_key \<times> nat list) list"
  queued_get_keys :: "(group_key \<times> nat) list"
  pending_sets :: "(group_key \<times> nat) list"
  group_known_at :: "(group_key \<times> rat) list"
  writing_sets :: "(group_key \<times> (int \<times> int) list) list"
  worker :: phase

datatype command_out =
    Exchange string string nat
  | SendOnly string
  | CallCompletion nat
  | CallFailure nat exn
  | Returned nat
  | Raised exn

definition COMMAND_QUEUE_SIZE :: nat where "COMMAND_QUEUE_SIZE = 100"
definition SET_READ_BEFORE_WRITE_S :: rat where "SET_READ_BEFORE_WRITE_S = 3"

definition no_item :: item where
  "no_item = \<lparr>it_command = [], it_address = None, it_future = None, it_completion = None, it_completions = [],
     it_failures = [], it_group = None, it_channels = []\<rparr>"

definition new_commander :: "buffers \<Rightarrow> commander" where
  "new_commander states = \<lparr>module_states = states, command_queue = [], put_waiting = [], callers = (\<lambda>_. PlainCaller), items = (\<lambda>_. no_item),
     next_item = 0, futures = (\<lambda>_. Waiting), next_future = 0, follows = [], pending_gets = [], queued_get_keys = [],
     pending_sets = [], group_known_at = [], writing_sets = [], worker = Off\<rparr>"

definition future_done :: "commander \<Rightarrow> nat \<Rightarrow> bool" where
  "future_done h f \<longleftrightarrow> futures h f \<noteq> Waiting"

definition settle :: "nat \<Rightarrow> future \<Rightarrow> commander \<Rightarrow> commander" where
  \<comment> \<open>a future that is not done takes the state, and those that follow it\<close>
  "settle f s h = (if future_done h f then h
     else h\<lparr>futures := (\<lambda>x. if futures h x = Waiting \<and> (x = f \<or> (x, f) \<in> set (follows h)) then s else futures h x)\<rparr>)"

definition settle_opt :: "nat option \<Rightarrow> future \<Rightarrow> commander \<Rightarrow> commander" where
  "settle_opt f s h = (case f of None \<Rightarrow> h | Some f \<Rightarrow> settle f s h)"

definition new_future :: "commander \<Rightarrow> nat \<times> commander" where
  "new_future h = (next_future h, h\<lparr>futures := (futures h)(next_future h := Waiting), next_future := next_future h + 1\<rparr>)"

definition put_item :: "item \<Rightarrow> caller \<Rightarrow> commander \<Rightarrow> nat \<times> bool \<times> commander" where
  \<comment> \<open>\<open>await queue.put(item)\<close>: behind the others, or (the flag) waiting for a place\<close>
  "put_item it who h =
     (let i = next_item h;
          h = h\<lparr>items := (items h)(i := it), callers := (callers h)(i := who), next_item := i + 1\<rparr>
      in if length (command_queue h) < COMMAND_QUEUE_SIZE
         then (i, False, h\<lparr>command_queue := command_queue h @ [i]\<rparr>)
         else (i, True, h\<lparr>put_waiting := put_waiting h @ [i]\<rparr>))"

definition del_owned :: "('k \<times> nat) list \<Rightarrow> 'k \<Rightarrow> nat \<Rightarrow> ('k \<times> nat) list" where
  \<comment> \<open>the key goes only if this item owns it\<close>
  "del_owned m k i = (if map_of m k = Some i then AList.delete k m else m)"

definition release_get_key :: "group_key \<Rightarrow> nat \<Rightarrow> commander \<Rightarrow> commander" where
  "release_get_key k i h = h\<lparr>queued_get_keys := del_owned (queued_get_keys h) k i\<rparr>"

definition get_key :: "string \<Rightarrow> string option \<Rightarrow> group_key option" where
  \<comment> \<open>the module group a read is for\<close>
  "get_key command addr = (case (query_group_of (gid_of command), addr) of
       (Some g, Some (c # a)) \<Rightarrow> Some (upper (c # a), g) | _ \<Rightarrow> None)"

subsection \<open>The buffer of output states\<close>

definition set_bytearray_state :: "string \<Rightarrow> int \<Rightarrow> int \<Rightarrow> buffers \<Rightarrow> unit res \<times> buffers" where
  "set_bytearray_state addr0 channel value bufs0 =
     (let addr = upper addr0;
          bufs = (case map_of bufs0 addr of None \<Rightarrow> bufs0 @ [(addr, replicate 12 0)] | Some _ \<Rightarrow> bufs0);
          buf = (case map_of bufs addr of None \<Rightarrow> [] | Some b \<Rightarrow> b);
          idx = channel - 1
      in if \<not> (0 \<le> idx \<and> idx < 12) then (Inr (), bufs)
         else if nat idx \<ge> length buf then (Inl IndexError, bufs)
         else if value < 0 \<or> 255 < value then (Inl ValueError, bufs)
         else (Inr (), AList.update addr (buf[nat idx := word_of_int value]) bufs))"

fun apply_writes :: "string \<Rightarrow> (int \<times> int) list \<Rightarrow> buffers \<Rightarrow> unit res \<times> buffers" where
  "apply_writes addr [] bufs = (Inr (), bufs)"
| "apply_writes addr ((channel, value) # ws) bufs =
     (case set_bytearray_state addr channel value bufs of
        (Inl e, bufs) \<Rightarrow> (Inl e, bufs) | (Inr _, bufs) \<Rightarrow> apply_writes addr ws bufs)"

definition group_start :: "int \<Rightarrow> nat" where
  "group_start g = (if g = 1 then 0 else 6)"

definition group_state_age :: "rat \<Rightarrow> string \<Rightarrow> int \<Rightarrow> commander \<Rightarrow> rat option" where
  "group_state_age now addr g h = map_option (\<lambda>t. now - t) (map_of (group_known_at h) (upper addr, g))"

definition pending_writes :: "commander \<Rightarrow> group_key \<Rightarrow> (int \<times> int) list" where
  \<comment> \<open>the channel writes waiting for their frame, then those being sent\<close>
  "pending_writes h k = (case map_of (pending_sets h) k of None \<Rightarrow> [] | Some i \<Rightarrow> it_channels (items h i)) @
     (case map_of (writing_sets h) k of None \<Rightarrow> [] | Some ws \<Rightarrow> ws)"

definition apply_group_state :: "rat \<Rightarrow> string \<Rightarrow> int \<Rightarrow> string \<Rightarrow> commander \<Rightarrow> bool res \<times> commander" where
  "apply_group_state now addr0 g state_hex h =
     (case bytes_fromhex (take 12 state_hex) of
        None \<Rightarrow> (Inr False, h)
      | Some img \<Rightarrow>
          if length img < 6 then (Inr False, h)
          else
            let addr = upper addr0;
                bufs = (case map_of (module_states h) addr of
                    None \<Rightarrow> module_states h @ [(addr, replicate 12 0)] | Some _ \<Rightarrow> module_states h);
                buf = (case map_of bufs addr of None \<Rightarrow> [] | Some b \<Rightarrow> b);
                start = group_start g
            in if start + 6 > length buf then (Inr False, h\<lparr>module_states := bufs\<rparr>)
               else
                 let bufs = AList.update addr (take start buf @ img @ drop (start + 6) buf) bufs;
                     (r, bufs) = apply_writes addr (pending_writes h (addr, g)) bufs;
                     h = h\<lparr>module_states := bufs\<rparr>
                 in (case r of
                       Inl e \<Rightarrow> (Inl e, h)
                     | Inr _ \<Rightarrow> (Inr True, h\<lparr>group_known_at := AList.update (addr, g) now (group_known_at h)\<rparr>)))"

definition get_bytearray_group_state :: "string \<Rightarrow> int \<Rightarrow> buffers \<Rightarrow> byte list" where
  "get_bytearray_group_state addr g bufs =
     (let state = (case map_of bufs (upper addr) of None \<Rightarrow> replicate 12 0 | Some b \<Rightarrow> b);
          start = group_start g
      in slice start (start + 6) state)"

definition build_set_group_command :: "string \<Rightarrow> int \<Rightarrow> buffers \<Rightarrow> string res" where
  "build_set_group_command addr g bufs =
     make_pc_link_command (if g = 1 then 0x15 else 0x16) addr
       (Some (take 6 (get_bytearray_group_state addr g bufs) @ [0xFF]))"

subsection \<open>Callers\<close>

definition resolve_pending_get :: "rat \<Rightarrow> string \<Rightarrow> int \<Rightarrow> string \<Rightarrow> commander \<Rightarrow> commander" where
  "resolve_pending_get now addr g state h =
     (let k = (upper addr, g);
          h = (if length state \<ge> 12 then h\<lparr>group_known_at := AList.update k now (group_known_at h)\<rparr> else h)
      in fold (\<lambda>f. settle f (Result state)) (case map_of (pending_gets h) k of None \<Rightarrow> [] | Some fs \<Rightarrow> fs) h)"

definition fail_pending_gets :: "string \<Rightarrow> int \<Rightarrow> exn \<Rightarrow> commander \<Rightarrow> commander" where
  "fail_pending_gets addr g err h =
     fold (\<lambda>f. settle f (Failed err)) (case map_of (pending_gets h) (upper addr, g) of None \<Rightarrow> [] | Some fs \<Rightarrow> fs) h"

definition queue_command :: "string \<Rightarrow> string option \<Rightarrow> nat option \<Rightarrow> nat option \<Rightarrow> caller \<Rightarrow>
    commander \<Rightarrow> bool \<times> commander" where
  \<comment> \<open>the flag: the caller waits for a place in the queue; the key of a read is registered before that\<close>
  "queue_command command addr fut completion who h =
     (let it = no_item\<lparr>it_command := command, it_address := addr, it_future := fut, it_completion := completion\<rparr>
      in case get_key command addr of
           Some k \<Rightarrow>
             if map_of (queued_get_keys h) k \<noteq> None then (False, h)
             else let (i, blocked, h) = put_item it who h
                  in (blocked, h\<lparr>queued_get_keys := AList.update k i (queued_get_keys h)\<rparr>)
         | None \<Rightarrow> snd (put_item it who h))"

definition get_output_state :: "string \<Rightarrow> int \<Rightarrow> commander \<Rightarrow> command_out list \<times> commander" where
  \<comment> \<open>up to the wait for the future, or for a place\<close>
  "get_output_state addr g h =
     (case make_pc_link_command (if g = 1 then 0x12 else 0x17) addr None of
        Inl e \<Rightarrow> ([Raised e], h)
      | Inr command \<Rightarrow>
          let (f, h) = new_future h; k = (upper addr, g);
              waiters = (case map_of (pending_gets h) k of None \<Rightarrow> [] | Some fs \<Rightarrow> fs);
              h = h\<lparr>pending_gets := AList.update k (waiters @ [f]) (pending_gets h)\<rparr>;
              (blocked, h) = queue_command command (Some addr) (Some f) None (GetCaller addr g f) h
          in (if blocked then [] else [Returned f], h))"

definition leave_get :: "string \<Rightarrow> int \<Rightarrow> nat \<Rightarrow> commander \<Rightarrow> commander" where
  \<comment> \<open>the \<open>finally\<close> of a caller\<close>
  "leave_get addr g f h = (let k = (upper addr, g) in
     case map_of (pending_gets h) k of
       None \<Rightarrow> h
     | Some fs \<Rightarrow> let fs = remove1 f fs in
         h\<lparr>pending_gets := (if fs = [] then AList.delete k (pending_gets h) else AList.update k fs (pending_gets h))\<rparr>)"

definition give_up_get :: "string \<Rightarrow> int \<Rightarrow> nat \<Rightarrow> commander \<Rightarrow> commander" where
  \<comment> \<open>the caller's time-out or cancellation\<close>
  "give_up_get addr g f h =
     (let h = settle f Cancelled h;
          k = (upper addr, if g = 1 then 1 else 2);
          h = (case map_of (queued_get_keys h) k of
                 Some i \<Rightarrow> if it_future (items h i) = Some f
                   then h\<lparr>queued_get_keys := AList.delete k (queued_get_keys h)\<rparr> else h
               | None \<Rightarrow> h)
      in leave_get addr g f h)"

definition cancel_future :: "nat \<Rightarrow> commander \<Rightarrow> commander" where
  \<comment> \<open>a caller cancels a future it was given; the shared one of a write is never given out\<close>
  "cancel_future f h = (if f \<in> snd ` set (follows h) then h else settle f Cancelled h)"

definition derived_future :: "nat \<Rightarrow> commander \<Rightarrow> nat \<times> commander" where
  "derived_future shared h = (let (own, h) = new_future h in
     (own, h\<lparr>follows := (own, shared) # follows h, futures := (futures h)(own := futures h shared)\<rparr>))"

definition opt_list :: "'a option \<Rightarrow> 'a list" where
  "opt_list x = (case x of None \<Rightarrow> [] | Some v \<Rightarrow> [v])"

definition join_set :: "nat \<Rightarrow> int \<Rightarrow> int \<Rightarrow> nat option \<Rightarrow> nat option \<Rightarrow> commander \<Rightarrow> commander" where
  \<comment> \<open>a request that comes aboard the pending item of its group\<close>
  "join_set i channel value completion failure h =
     h\<lparr>items := (items h)(i := (items h i)\<lparr>
         it_channels := AList.update channel value (it_channels (items h i)),
         it_completions := it_completions (items h i) @ opt_list completion,
         it_failures := it_failures (items h i) @ opt_list failure\<rparr>)\<rparr>"

definition set_output_state :: "string \<Rightarrow> int \<Rightarrow> int \<Rightarrow> nat option \<Rightarrow> nat option \<Rightarrow> commander \<Rightarrow>
    command_out list \<times> commander" where
  "set_output_state addr0 channel value completion failure h =
     (let g = calculate_group_number channel; addr = upper addr0; k = (addr, g);
          (r, bufs) = set_bytearray_state addr channel value (module_states h);
          h = h\<lparr>module_states := bufs\<rparr>
      in case r of
           Inl e \<Rightarrow> ([Raised e], h)
         | Inr _ \<Rightarrow>
            (case map_of (pending_sets h) k of
               Some i \<Rightarrow>
                 let h = join_set i channel value completion failure h;
                     (own, h) = derived_future (case it_future (items h i) of None \<Rightarrow> 0 | Some f \<Rightarrow> f) h
                 in ([Returned own], h)
             | None \<Rightarrow>
                 let (f, h) = new_future h;
                     it = no_item\<lparr>it_command := ''<set '' @ addr @ '' group '' @ fmt_dec 0 g @ ''>'',
                       it_address := Some addr, it_future := Some f, it_completions := opt_list completion,
                       it_failures := opt_list failure, it_group := Some k, it_channels := [(channel, value)]\<rparr>;
                     (i, blocked, h) = put_item it (SetCaller f) h;
                     h = h\<lparr>pending_sets := AList.update k i (pending_sets h)\<rparr>
                 in if blocked then ([], h) else let (own, h) = derived_future f h in ([Returned own], h)))"

definition write_second_group :: "string \<Rightarrow> nat option \<Rightarrow> commander \<Rightarrow> command_out list \<times> commander" where
  \<comment> \<open>the second frame of \<open>set_output_states\<close>, from the buffer as it stands when the first has its place\<close>
  "write_second_group addr completion h =
     (let state = (case map_of (module_states h) (upper addr) of None \<Rightarrow> [] | Some b \<Rightarrow> b)
      in case make_pc_link_command 0x16 addr (Some (slice 6 12 state @ [0xFF])) of
           Inl e \<Rightarrow> ([Raised e], h)
         | Inr command \<Rightarrow> ([], snd (queue_command command (Some addr) None completion PlainCaller h)))"

definition set_output_states :: "string \<Rightarrow> nat option \<Rightarrow> int option \<Rightarrow> commander \<Rightarrow> command_out list \<times> commander" where
  "set_output_states addr completion num_channels h =
     (case map_of (module_states h) (upper addr) of
        None \<Rightarrow> ([], h)
      | Some state \<Rightarrow>
          let second = (case num_channels of
                Some n \<Rightarrow> if n \<noteq> 0 then n > 6 else length state > 6 \<and> list_ex (\<lambda>b. b \<noteq> 0) (slice 6 12 state)
              | None \<Rightarrow> length state > 6 \<and> list_ex (\<lambda>b. b \<noteq> 0) (slice 6 12 state))
          in (case make_pc_link_command 0x15 addr (Some (take 6 state @ [0xFF])) of
                Inl e \<Rightarrow> ([Raised e], h)
              | Inr command \<Rightarrow>
                  let (blocked, h) = queue_command command (Some addr) None (if second then None else completion)
                        (if second then StatesCaller addr completion else PlainCaller) h
                  in if second \<and> \<not> blocked then write_second_group addr completion h else ([], h)))"

definition query_command :: "int \<Rightarrow> string \<Rightarrow> byte list option \<Rightarrow> commander \<Rightarrow> command_out list \<times> commander" where
  \<comment> \<open>\<open>query\<close>, up to the wait for the future, or for a place\<close>
  "query_command func addr args h =
     (case make_pc_link_command func addr args of
        Inl e \<Rightarrow> ([Raised e], h)
      | Inr command \<Rightarrow> let (f, h) = new_future h;
            (blocked, h) = queue_command command (Some addr) (Some f) None (QueryCaller f) h
          in (if blocked then [] else [Returned f], h))"

definition after_put :: "nat \<Rightarrow> commander \<Rightarrow> command_out list \<times> commander" where
  \<comment> \<open>the caller that waited with this item goes on\<close>
  "after_put i h = (case callers h i of
       SetCaller f \<Rightarrow> let (own, h) = derived_future f h in ([Returned own], h)
     | GetCaller addr g f \<Rightarrow> ([Returned f], h)
     | QueryCaller f \<Rightarrow> ([Returned f], h)
     | StatesCaller addr completion \<Rightarrow> write_second_group addr completion h
     | PlainCaller \<Rightarrow> ([], h))"

definition admit :: "nat \<Rightarrow> commander \<Rightarrow> command_out list \<times> commander" where
  \<comment> \<open>a waiting \<open>put\<close> is woken and finds a place; any of them may be the next\<close>
  "admit i h = (if i \<in> set (put_waiting h) \<and> length (command_queue h) < COMMAND_QUEUE_SIZE
     then after_put i (h\<lparr>command_queue := command_queue h @ [i], put_waiting := remove1 i (put_waiting h)\<rparr>)
     else ([], h))"

definition cancel_put :: "nat \<Rightarrow> commander \<Rightarrow> commander" where
  \<comment> \<open>the caller is cancelled while it waits for a place: the item is never queued; only a reader cleans up\<close>
  "cancel_put i h = (if i \<in> set (put_waiting h)
     then let h = h\<lparr>put_waiting := remove1 i (put_waiting h)\<rparr>
          in (case callers h i of GetCaller addr g f \<Rightarrow> give_up_get addr g f h | _ \<Rightarrow> h)
     else h)"

subsection \<open>The worker\<close>

definition release_set :: "nat \<Rightarrow> commander \<Rightarrow> commander" where
  \<comment> \<open>an item that is still the pending write of its group no longer is\<close>
  "release_set i h = (case it_group (items h i) of None \<Rightarrow> h
     | Some k \<Rightarrow> h\<lparr>pending_sets := del_owned (pending_sets h) k i\<rparr>)"

definition skippable :: "nat \<Rightarrow> commander \<Rightarrow> bool" where
  \<comment> \<open>nobody waits for this item any more\<close>
  "skippable i h = (case it_future (items h i) of None \<Rightarrow> False
     | Some f \<Rightarrow> future_done h f \<and>
         (case get_key (it_command (items h i)) (it_address (items h i)) of None \<Rightarrow> True
          | Some k \<Rightarrow> list_all (future_done h) (case map_of (pending_gets h) k of None \<Rightarrow> [] | Some fs \<Rightarrow> fs)))"

definition item_done :: "nat \<Rightarrow> commander \<Rightarrow> commander" where
  \<comment> \<open>the \<open>finally\<close> of an item\<close>
  "item_done i h = h\<lparr>worker := Idle, writing_sets := (case it_group (items h i) of None \<Rightarrow> writing_sets h
     | Some k \<Rightarrow> AList.delete k (writing_sets h))\<rparr>"

definition fail_item :: "nat \<Rightarrow> exn \<Rightarrow> commander \<Rightarrow> command_out list \<times> commander" where
  "fail_item i err h =
     (let it = items h i;
          h = settle_opt (it_future it) (Failed err) h;
          h = (case get_key (it_command it) (it_address it) of None \<Rightarrow> h | Some (a, g) \<Rightarrow> fail_pending_gets a g err h)
      in (map (\<lambda>n. CallFailure n err) (it_failures it), item_done i h))"

definition begin_exchange :: "nat \<Rightarrow> commander \<Rightarrow> command_out list \<times> commander" where
  \<comment> \<open>from the release of the read's key to the exchange\<close>
  "begin_exchange i h =
     (let it = items h i;
          h = (case get_key (it_command it) (it_address it) of None \<Rightarrow> h | Some k \<Rightarrow> release_get_key k i h)
      in (case it_address it of
            Some (c # a) \<Rightarrow> [Exchange (it_command it) (c # a) MAX_ATTEMPTS]
          | _ \<Rightarrow> [SendOnly (it_command it)], h\<lparr>worker := Sending i\<rparr>))"

definition take_item :: "commander \<Rightarrow> command_out list \<times> commander" where
  "take_item h = (case (worker h, command_queue h) of
       (Idle, i # q) \<Rightarrow>
         let h = h\<lparr>command_queue := q\<rparr>; it = items h i in
         if skippable i h
         then ([], release_set i (case get_key (it_command it) (it_address it) of None \<Rightarrow> h | Some k \<Rightarrow> release_get_key k i h))
         else if it_group it \<noteq> None then ([], h\<lparr>worker := Coalescing i\<rparr>)
         else begin_exchange i h
     | _ \<Rightarrow> ([], h))"

definition build_frame :: "nat \<Rightarrow> string \<Rightarrow> int \<Rightarrow> commander \<Rightarrow> command_out list \<times> commander" where
  \<comment> \<open>the writes of the item laid on the buffer again, and the frame taken from it\<close>
  "build_frame i addr g h =
     (case apply_writes addr (it_channels (items h i)) (module_states h) of
        (Inl e, bufs) \<Rightarrow> fail_item i e (h\<lparr>module_states := bufs\<rparr>)
      | (Inr _, bufs) \<Rightarrow>
          let h = h\<lparr>module_states := bufs\<rparr> in
          (case build_set_group_command addr g bufs of
             Inl e \<Rightarrow> fail_item i e h
           | Inr command \<Rightarrow> begin_exchange i (h\<lparr>items := (items h)(i := (items h i)\<lparr>it_command := command\<rparr>)\<rparr>)))"

definition coalesce_over :: "rat \<Rightarrow> commander \<Rightarrow> command_out list \<times> commander" where
  \<comment> \<open>the window is over: no request joins any more; a stale group is read first\<close>
  "coalesce_over now h = (case worker h of
       Coalescing i \<Rightarrow>
         (case it_group (items h i) of
            None \<Rightarrow> ([], h)
          | Some (addr, g) \<Rightarrow>
              let h = release_set i h;
                  h = h\<lparr>writing_sets := AList.update (addr, g) (it_channels (items h i)) (writing_sets h)\<rparr>;
                  recent = (case group_state_age now addr g h of None \<Rightarrow> False | Some age \<Rightarrow> age \<le> SET_READ_BEFORE_WRITE_S)
              in if recent then build_frame i addr g h
                 else (case make_pc_link_command (if g = 1 then 0x12 else 0x17) addr None of
                         Inl e \<Rightarrow> fail_item i e h
                       | Inr command \<Rightarrow> ([Exchange command addr 1], h\<lparr>worker := Reading i\<rparr>)))
     | _ \<Rightarrow> ([], h))"

definition read_done :: "rat \<Rightarrow> string res \<Rightarrow> commander \<Rightarrow> command_out list \<times> commander" where
  \<comment> \<open>the read before a write came back, or failed, which the write does not depend on\<close>
  "read_done now r h = (case worker h of
       Reading i \<Rightarrow>
         (case it_group (items h i) of
            None \<Rightarrow> ([], h)
          | Some (addr, g) \<Rightarrow>
             (case r of
                Inl _ \<Rightarrow> build_frame i addr g h
              | Inr answer \<Rightarrow>
                 (case apply_group_state now addr g answer h of
                    (Inl e, h) \<Rightarrow> fail_item i e h
                  | (Inr ok, h) \<Rightarrow> build_frame i addr g (if ok then resolve_pending_get now addr g answer h else h))))
     | _ \<Rightarrow> ([], h))"

definition send_done :: "rat \<Rightarrow> string res \<Rightarrow> commander \<Rightarrow> command_out list \<times> commander" where
  "send_done now r h = (case worker h of
       Sending i \<Rightarrow>
         let it = items h i in
         (case r of
            Inl e \<Rightarrow> fail_item i e h
          | Inr result \<Rightarrow>
              (case it_address it of
                 Some (c # a) \<Rightarrow>
                   let h = settle_opt (it_future it) (Result result) h;
                       h = (case get_key (it_command it) (it_address it) of None \<Rightarrow> h
                            | Some (a, g) \<Rightarrow> resolve_pending_get now a g result h);
                       h = (case it_group it of None \<Rightarrow> h
                            | Some k \<Rightarrow> h\<lparr>group_known_at := AList.update k now (group_known_at h)\<rparr>)
                   in (map CallCompletion (opt_list (it_completion it) @ it_completions it), item_done i h)
               | _ \<Rightarrow> (map CallCompletion (opt_list (it_completion it)), item_done i h)))
     | _ \<Rightarrow> ([], h))"

subsection \<open>Draining, resetting and stopping\<close>

definition drain_item :: "nat \<Rightarrow> commander \<Rightarrow> commander" where
  "drain_item i h =
     (let h = release_set i (settle_opt (it_future (items h i)) Cancelled h)
      in h\<lparr>queued_get_keys := filter (\<lambda>(k, owner). owner \<noteq> i) (queued_get_keys h)\<rparr>)"

definition drain_matches :: "string option \<Rightarrow> commander \<Rightarrow> nat \<Rightarrow> bool" where
  "drain_matches prefix h i = (case prefix of None \<Rightarrow> True | Some p \<Rightarrow> starts_with (it_command (items h i)) p)"

definition drain_queue :: "string option \<Rightarrow> commander \<Rightarrow> nat \<times> commander" where
  "drain_queue prefix h =
     (let gone = filter (drain_matches prefix h) (command_queue h)
      in (length gone, fold drain_item gone
           (h\<lparr>command_queue := filter (\<lambda>i. \<not> drain_matches prefix h i) (command_queue h)\<rparr>)))"

definition pending_count :: "string option \<Rightarrow> commander \<Rightarrow> nat" where
  "pending_count prefix h = length (filter (drain_matches prefix h) (command_queue h))"

definition command_reset :: "commander \<Rightarrow> commander" where
  "command_reset h = (snd (drain_queue None h))\<lparr>queued_get_keys := [], pending_sets := []\<rparr>"

definition command_start :: "commander \<Rightarrow> commander" where
  "command_start h = h\<lparr>worker := Idle\<rparr>"

definition cancel_worker :: "commander \<Rightarrow> commander" where
  \<comment> \<open>the cancellation of the task, wherever it waits\<close>
  "cancel_worker h = (case worker h of
       Coalescing i \<Rightarrow> item_done i (settle_opt (it_future (items h i)) Cancelled h)
     | Reading i \<Rightarrow> item_done i (settle_opt (it_future (items h i)) Cancelled h)
     | Sending i \<Rightarrow> item_done i (settle_opt (it_future (items h i)) Cancelled h)
     | _ \<Rightarrow> h)"

definition command_stop :: "commander \<Rightarrow> commander" where
  "command_stop h =
     (let h = fold (\<lambda>f. settle f Cancelled) (concat (map snd (pending_gets h))) h;
          h = (cancel_worker (h\<lparr>pending_gets := [], queued_get_keys := []\<rparr>))\<lparr>worker := Off\<rparr>
      in (snd (drain_queue None h))\<lparr>pending_sets := [], writing_sets := []\<rparr>)"

subsection \<open>Runs\<close>

datatype event =
    Start | Stop | Reset | Admit nat | CancelPut nat
  | SetOutput string int int "nat option" "nat option"
  | SetOutputs string "nat option" "int option"
  | GetState string int | GiveUp string int nat | Leave string int nat
  | Query int string "byte list option" | CancelFuture nat
  | Enqueue string "string option" "nat option" "nat option"
  | Drain "string option"
  | GroupState string int string | Resolve string int string
  | TakeItem | CoalesceOver | ReadDone "string res" | SendDone "string res"

fun step :: "rat \<Rightarrow> event \<Rightarrow> commander \<Rightarrow> command_out list \<times> commander" where
  "step now Start h = ([], command_start h)"
| "step now Stop h = ([], command_stop h)"
| "step now Reset h = ([], command_reset h)"
| "step now (Admit i) h = admit i h"
| "step now (CancelPut i) h = ([], cancel_put i h)"
| "step now (SetOutput a c v cb fb) h = set_output_state a c v cb fb h"
| "step now (SetOutputs a cb n) h = set_output_states a cb n h"
| "step now (GetState a g) h = get_output_state a g h"
| "step now (GiveUp a g f) h = ([], give_up_get a g f h)"
| "step now (Leave a g f) h = ([], leave_get a g f h)"
| "step now (CancelFuture f) h = ([], cancel_future f h)"
| "step now (Query f a args) h = query_command f a args h"
| "step now (Enqueue c a f cb) h = ([], snd (queue_command c a f cb PlainCaller h))"
| "step now (Drain p) h = ([], snd (drain_queue p h))"
| "step now (GroupState a g s) h =
     (case apply_group_state now a g s h of (Inl e, h) \<Rightarrow> ([Raised e], h) | (Inr _, h) \<Rightarrow> ([], h))"
| "step now (Resolve a g s) h = ([], resolve_pending_get now a g s h)"
| "step now TakeItem h = take_item h"
| "step now CoalesceOver h = coalesce_over now h"
| "step now (ReadDone r) h = read_done now r h"
| "step now (SendDone r) h = send_done now r h"

fun command_run :: "(rat \<times> event) list \<Rightarrow> commander \<Rightarrow> command_out list \<times> commander" where
  "command_run [] h = ([], h)"
| "command_run ((now, e) # es) h =
     (let (o1, h) = step now e h; (o2, h) = command_run es h in (o1 @ o2, h))"

subsection \<open>Writes on the buffer\<close>

definition write_byte :: "int \<times> int \<Rightarrow> byte list \<Rightarrow> byte list" where
  "write_byte w buf = (case w of (c, v) \<Rightarrow>
     if 1 \<le> c \<and> c \<le> 12 then buf[nat (c - 1) := word_of_int v] else buf)"

definition valid_write :: "int \<times> int \<Rightarrow> bool" where
  "valid_write w = (case w of (c, v) \<Rightarrow> 1 \<le> c \<longrightarrow> c \<le> 12 \<longrightarrow> 0 \<le> v \<and> v \<le> 255)"

definition buf_of :: "buffers \<Rightarrow> string \<Rightarrow> byte list" where
  "buf_of bufs addr = (case map_of bufs (upper addr) of None \<Rightarrow> replicate 12 0 | Some b \<Rightarrow> b)"

lemma length_write_byte [simp]: "length (write_byte w buf) = length buf"
  by (simp add: write_byte_def split: prod.splits)

lemma length_fold_write [simp]: "length (fold write_byte ws buf) = length buf"
  by (induction ws arbitrary: buf) simp_all

lemma set_bytearray_ok:
  assumes "length (buf_of bufs addr) = 12" "valid_write (c, v)"
  shows "\<exists>bufs'. set_bytearray_state addr c v bufs = (Inr (), bufs') \<and> buf_of bufs' addr = write_byte (c, v) (buf_of bufs addr)"
proof -
  define bufs1 where "bufs1 = (case map_of bufs (upper addr) of None \<Rightarrow> bufs @ [(upper addr, replicate 12 0)] | Some _ \<Rightarrow> bufs)"
  have m: "map_of bufs1 (upper addr) = Some (buf_of bufs addr)"
    by (auto simp: bufs1_def buf_of_def map_add_def split: option.splits)
  then have b: "buf_of bufs1 addr = buf_of bufs addr" by (simp add: buf_of_def)
  show ?thesis
  proof (cases "1 \<le> c \<and> c \<le> 12")
    case True
    then show ?thesis using assms m
      by (auto simp: set_bytearray_state_def Let_def bufs1_def [symmetric] valid_write_def write_byte_def buf_of_def update_conv'
        simp flip: not_less)
  next
    case False
    then show ?thesis using b m
      by (auto simp: set_bytearray_state_def Let_def bufs1_def [symmetric] write_byte_def)
  qed
qed

lemma apply_writes_ok:
  "length (buf_of bufs addr) = 12 \<Longrightarrow> list_all valid_write ws \<Longrightarrow>
   \<exists>bufs'. apply_writes addr ws bufs = (Inr (), bufs') \<and> buf_of bufs' addr = fold write_byte ws (buf_of bufs addr)"
proof (induction ws arbitrary: bufs)
  case Nil
  then show ?case by simp
next
  case (Cons w ws)
  obtain c v where w: "w = (c, v)" by force
  from set_bytearray_ok [of bufs addr c v] Cons.prems w obtain bufs1
    where 1: "set_bytearray_state addr c v bufs = (Inr (), bufs1)" "buf_of bufs1 addr = write_byte w (buf_of bufs addr)" by auto
  with Cons.IH [of bufs1] Cons.prems show ?case by (auto simp: w)
qed

lemma fold_write_nth:
  assumes "length buf = 12" "1 \<le> c" "c \<le> 12"
  shows "fold write_byte ws buf ! nat (c - 1) =
    (case map_of (rev ws) c of None \<Rightarrow> buf ! nat (c - 1) | Some v \<Rightarrow> word_of_int v)"
  using assms
proof (induction ws arbitrary: buf)
  case Nil
  then show ?case by simp
next
  case (Cons w ws)
  obtain d v where w: "w = (d, v)" by force
  have n: "nat (c - 1) < 12" "nat (d - 1) = nat (c - 1) \<longleftrightarrow> d = c" if "1 \<le> d" using Cons.prems that by linarith+
  have "write_byte (d, v) buf ! nat (c - 1) = (if d = c then word_of_int v else buf ! nat (c - 1))"
    using Cons.prems n by (auto simp: write_byte_def nth_list_update)
  with Cons.IH [of "write_byte w buf"] Cons.prems show ?case
    by (auto simp: w map_add_def split: option.splits)
qed

text \<open>
  C18. What a module group's reported state leaves in the buffer, output by output: an output carried by a
  frame being sent holds the value of that frame; otherwise an output with a write waiting for its frame
  holds the waiting value; the other outputs of the group hold the reported byte, and the other group is
  as it was. A write being sent thus wins over a newer one still waiting for the same output, so a report
  that arrives between the two puts the older value back in the buffer until the next frame of the group.
\<close>

theorem reported_state_overlaid:
  assumes "bytes_fromhex (take 12 state_hex) = Some img" "length img = 6"
    and "length (buf_of (module_states h) addr) = 12" "g = 1 \<or> g = 2"
    and "list_all valid_write (waiting @ being_sent)" "1 \<le> c" "c \<le> 12"
    and waiting: "waiting = (case map_of (pending_sets h) (upper addr, g) of
        None \<Rightarrow> [] | Some i \<Rightarrow> it_channels (items h i))"
    and being_sent: "being_sent = (case map_of (writing_sets h) (upper addr, g) of None \<Rightarrow> [] | Some ws \<Rightarrow> ws)"
  shows "\<exists>h'. apply_group_state now addr g state_hex h = (Inr True, h') \<and>
    group_state_age now addr g h' = Some 0 \<and>
    buf_of (module_states h') addr ! nat (c - 1) =
      (case map_of (rev being_sent) c of
         Some v \<Rightarrow> word_of_int v
       | None \<Rightarrow> (case map_of (rev waiting) c of
           Some v \<Rightarrow> word_of_int v
         | None \<Rightarrow> if calculate_group_number c = g then img ! nat ((c - 1) mod 6)
                   else buf_of (module_states h) addr ! nat (c - 1)))"
proof -
  have order: "map_of (rev (waiting @ being_sent)) c =
      (case map_of (rev being_sent) c of Some v \<Rightarrow> Some v | None \<Rightarrow> map_of (rev waiting) c)"
    by (simp add: map_add_def)
  have pw: "pending_writes h (upper addr, g) = waiting @ being_sent"
    unfolding pending_writes_def waiting being_sent ..
  have valid: "list_all valid_write (pending_writes h (upper addr, g))" using assms(5) unfolding pw .
  define bufs where "bufs = (case map_of (module_states h) (upper addr) of
    None \<Rightarrow> module_states h @ [(upper addr, replicate 12 0)] | Some _ \<Rightarrow> module_states h)"
  define old where "old = buf_of (module_states h) addr"
  define new where "new = take (group_start g) old @ img @ drop (group_start g + 6) old"
  have m: "map_of bufs (upper addr) = Some old"
    by (auto simp: bufs_def old_def buf_of_def map_add_def split: option.splits)
  have l: "length old = 12" "group_start g + 6 \<le> 12" using assms(3,4) by (auto simp: old_def group_start_def)
  have b: "buf_of (AList.update (upper addr) new bufs) addr = new" by (simp add: buf_of_def update_conv')
  have ln: "length new = 12" using l assms(2) by (simp add: new_def)
  from apply_writes_ok [of "AList.update (upper addr) new bufs" "upper addr"] b ln valid obtain bufs'
    where w: "apply_writes (upper addr) (pending_writes h (upper addr, g)) (AList.update (upper addr) new bufs) = (Inr (), bufs')"
      "buf_of bufs' addr = fold write_byte (pending_writes h (upper addr, g)) new"
    by (auto simp: buf_of_def)
  have c: "nat (c - 1) < 12" using assms(6,7) by linarith
  have "new ! nat (c - 1) = (if calculate_group_number c = g then img ! nat ((c - 1) mod 6) else old ! nat (c - 1))"
  proof -
    have "calculate_group_number c = (if c \<le> 6 then 1 else 2)" "(c - 1) mod 6 = (if c \<le> 6 then c - 1 else c - 7)"
      using assms(6,7) by (simp_all add: calculate_group_number_def) presburger+
    then show ?thesis using assms(2,4,6) c l
      by (auto simp: new_def group_start_def nth_append nat_diff_distrib' simp flip: nat_diff_distrib)
  qed
  moreover have "apply_group_state now addr g state_hex h = (Inr True, h\<lparr>module_states := bufs',
      group_known_at := AList.update (upper addr, g) now (group_known_at h)\<rparr>)"
    using assms(1,2) l w(1) unfolding new_def
    by (simp add: apply_group_state_def Let_def bufs_def [symmetric] m)
  moreover have "buf_of bufs' addr ! nat (c - 1) =
      (case map_of (rev being_sent) c of Some v \<Rightarrow> word_of_int v | None \<Rightarrow>
        (case map_of (rev waiting) c of Some v \<Rightarrow> word_of_int v | None \<Rightarrow> new ! nat (c - 1)))"
    using fold_write_nth [OF ln assms(6,7), of "pending_writes h (upper addr, g)"] w(2) unfolding pw order by (simp split: option.splits)
  ultimately show ?thesis
    by (auto simp: group_state_age_def update_conv' old_def split: option.splits)
qed

definition example_overlap :: commander where
  \<comment> \<open>writes of outputs 2 and 3 waiting, a frame with an older value of output 3 being sent\<close>
  "example_overlap = (new_commander [(''C9A5'', replicate 12 7)])
     \<lparr>items := (\<lambda>_. no_item\<lparr>it_channels := [(2, 255), (3, 100)]\<rparr>), pending_sets := [((''C9A5'', 1), 0)],
      writing_sets := [((''C9A5'', 1), [(3, 9)])]\<rparr>"

theorem reported_state_overlaid_witness:
  "(\<exists>h'. apply_group_state 9 ''c9a5'' 1 ''010203040506'' example_overlap = (Inr True, h') \<and>
      buf_of (module_states h') ''c9a5'' ! 1 = 255) \<and>
   (\<exists>h'. apply_group_state 9 ''c9a5'' 1 ''010203040506'' example_overlap = (Inr True, h') \<and>
      buf_of (module_states h') ''c9a5'' ! 2 = 9)"
proof -
  have b: "bytes_fromhex (take 12 ''010203040506'') = Some [1, 2, 3, 4, 5, 6]"
    by (simp add: eval_simps hex_not_byte_space)
  have side: "length (buf_of (module_states example_overlap) ''c9a5'') = 12"
    "[(2, 255), (3, 100)] = (case map_of (pending_sets example_overlap) (upper ''c9a5'', 1) of
       None \<Rightarrow> [] | Some i \<Rightarrow> it_channels (items example_overlap i))"
    "[(3, 9)] = (case map_of (writing_sets example_overlap) (upper ''c9a5'', 1) of None \<Rightarrow> [] | Some ws \<Rightarrow> ws)"
    by (simp_all add: example_overlap_def new_commander_def buf_of_def upper_def no_item_def)
  have v: "list_all valid_write ([(2, 255), (3, 100)] @ [(3, 9)])" by (simp add: valid_write_def)
  note overlaid = reported_state_overlaid [OF b _ side(1) _ v _ _ side(2,3), where now = 9]
  have r: "map_of (rev [(3 :: int, 9 :: int)]) 2 = None" "map_of (rev [(3 :: int, 9 :: int)]) 3 = Some 9"
    "map_of (rev [(2 :: int, 255 :: int), (3, 100)]) 2 = Some 255" by simp_all
  show ?thesis using overlaid [of 2] overlaid [of 3] unfolding r by auto
qed

subsection \<open>What is registered is on its way\<close>

text \<open>
  The invariant of the registrations is stated for a set \<open>C\<close> of items whose \<open>put\<close> was cancelled.
\<close>

definition live :: "nat set \<Rightarrow> commander \<Rightarrow> nat \<Rightarrow> bool" where
  "live C h i \<longleftrightarrow> i \<in> set (command_queue h) \<or> i \<in> set (put_waiting h) \<or> i \<in> C"

definition item_key :: "commander \<Rightarrow> nat \<Rightarrow> group_key option" where
  "item_key h i = get_key (it_command (items h i)) (it_address (items h i))"

definition sets_ok :: "nat set \<Rightarrow> nat option \<Rightarrow> commander \<Rightarrow> bool" where
  \<comment> \<open>but for an item just taken\<close>
  "sets_ok C x h \<longleftrightarrow> distinct (map fst (pending_sets h)) \<and>
     (\<forall>k i. (k, i) \<in> set (pending_sets h) \<longrightarrow>
       (live C h i \<or> worker h = Coalescing i \<or> x = Some i) \<and> it_group (items h i) = Some k \<and> i < next_item h)"

definition gets_ok :: "nat set \<Rightarrow> nat option \<Rightarrow> commander \<Rightarrow> bool" where
  "gets_ok C x h \<longleftrightarrow> distinct (map fst (queued_get_keys h)) \<and>
     (\<forall>k i. (k, i) \<in> set (queued_get_keys h) \<longrightarrow>
       (live C h i \<or> x = Some i) \<and> it_group (items h i) = None \<and> item_key h i = Some k \<and> i < next_item h)"

definition registered_ok :: "nat set \<Rightarrow> commander \<Rightarrow> bool" where
  "registered_ok C h \<longleftrightarrow> sets_ok C None h \<and> gets_ok C None h"

lemma settle_fields [simp]:
  "module_states (settle f s h) = module_states h" "command_queue (settle f s h) = command_queue h"
  "put_waiting (settle f s h) = put_waiting h" "items (settle f s h) = items h" "next_item (settle f s h) = next_item h"
  "next_future (settle f s h) = next_future h" "follows (settle f s h) = follows h"
  "pending_gets (settle f s h) = pending_gets h" "queued_get_keys (settle f s h) = queued_get_keys h"
  "pending_sets (settle f s h) = pending_sets h" "group_known_at (settle f s h) = group_known_at h"
  "writing_sets (settle f s h) = writing_sets h" "worker (settle f s h) = worker h"
  by (simp_all add: settle_def)

lemma settle_opt_fields [simp]:
  "module_states (settle_opt f s h) = module_states h" "command_queue (settle_opt f s h) = command_queue h"
  "put_waiting (settle_opt f s h) = put_waiting h" "items (settle_opt f s h) = items h"
  "next_item (settle_opt f s h) = next_item h" "next_future (settle_opt f s h) = next_future h"
  "follows (settle_opt f s h) = follows h"
  "pending_gets (settle_opt f s h) = pending_gets h" "queued_get_keys (settle_opt f s h) = queued_get_keys h"
  "pending_sets (settle_opt f s h) = pending_sets h" "group_known_at (settle_opt f s h) = group_known_at h"
  "writing_sets (settle_opt f s h) = writing_sets h" "worker (settle_opt f s h) = worker h"
  by (simp_all add: settle_opt_def split: option.splits)

lemma fold_settle_fields [simp]:
  "module_states (fold (\<lambda>f. settle f s) fs h) = module_states h" "command_queue (fold (\<lambda>f. settle f s) fs h) = command_queue h"
  "put_waiting (fold (\<lambda>f. settle f s) fs h) = put_waiting h" "items (fold (\<lambda>f. settle f s) fs h) = items h"
  "next_item (fold (\<lambda>f. settle f s) fs h) = next_item h" "next_future (fold (\<lambda>f. settle f s) fs h) = next_future h"
  "follows (fold (\<lambda>f. settle f s) fs h) = follows h"
  "pending_gets (fold (\<lambda>f. settle f s) fs h) = pending_gets h"
  "queued_get_keys (fold (\<lambda>f. settle f s) fs h) = queued_get_keys h"
  "pending_sets (fold (\<lambda>f. settle f s) fs h) = pending_sets h"
  "group_known_at (fold (\<lambda>f. settle f s) fs h) = group_known_at h"
  "writing_sets (fold (\<lambda>f. settle f s) fs h) = writing_sets h" "worker (fold (\<lambda>f. settle f s) fs h) = worker h"
  by (induction fs arbitrary: h) simp_all

definition same_queue :: "commander \<Rightarrow> commander \<Rightarrow> bool" where
  \<comment> \<open>nothing the registrations speak about differs\<close>
  "same_queue h h' \<longleftrightarrow> command_queue h' = command_queue h \<and> put_waiting h' = put_waiting h \<and> items h' = items h \<and>
     next_item h' = next_item h \<and> queued_get_keys h' = queued_get_keys h \<and> pending_sets h' = pending_sets h \<and>
     worker h' = worker h"

lemma same_queue_ok:
  assumes "same_queue h h'"
  shows "sets_ok C x h' \<longleftrightarrow> sets_ok C x h" "gets_ok C x h' \<longleftrightarrow> gets_ok C x h" "registered_ok C h' \<longleftrightarrow> registered_ok C h"
  using assms by (simp_all add: same_queue_def sets_ok_def gets_ok_def registered_ok_def live_def item_key_def)

lemma same_queue_simps [simp]:
  "same_queue h h" "same_queue h (settle f s h)" "same_queue h (settle_opt o' s h)" "same_queue h (snd (new_future h))"
  "same_queue h (snd (derived_future f h))" "same_queue h (resolve_pending_get now a g st h)"
  "same_queue h (fail_pending_gets a g e h)" "same_queue h (leave_get a g f h)" "same_queue h (cancel_future f h)"
  "same_queue h (snd (apply_group_state now a g st h))"
  by (simp_all add: same_queue_def new_future_def derived_future_def resolve_pending_get_def fail_pending_gets_def
    leave_get_def cancel_future_def apply_group_state_def Let_def split: option.splits sum.splits prod.splits)

lemma same_queue_trans: "same_queue h h' \<Longrightarrow> same_queue h' h'' \<Longrightarrow> same_queue h h''"
  by (simp add: same_queue_def)

lemma same_queue_fields:
  "same_queue h (h\<lparr>module_states := b\<rparr>)" "same_queue h (h\<lparr>pending_gets := p\<rparr>)" "same_queue h (h\<lparr>group_known_at := k\<rparr>)"
  "same_queue h (h\<lparr>writing_sets := w\<rparr>)" "same_queue h (h\<lparr>futures := fu\<rparr>)"
  by (simp_all add: same_queue_def)

lemma sets_ok_subset:
  assumes "sets_ok C x h" "set ps \<subseteq> set (pending_sets h)" "distinct (map fst ps)"
  shows "sets_ok C x (h\<lparr>pending_sets := ps\<rparr>)"
  using assms by (auto simp: sets_ok_def live_def)

lemma gets_ok_subset:
  assumes "gets_ok C x h" "set ks \<subseteq> set (queued_get_keys h)" "distinct (map fst ks)"
  shows "gets_ok C x (h\<lparr>queued_get_keys := ks\<rparr>)"
  using assms by (auto simp: gets_ok_def live_def item_key_def)

lemma sets_ok_upd [simp]:
  "sets_ok C x (h\<lparr>queued_get_keys := ks\<rparr>) \<longleftrightarrow> sets_ok C x h" "gets_ok C x (h\<lparr>pending_sets := ps\<rparr>) \<longleftrightarrow> gets_ok C x h"
  by (simp_all add: sets_ok_def gets_ok_def live_def item_key_def)

lemma delete_in: "x \<in> set (AList.delete k m) \<Longrightarrow> x \<in> set m"
  by (auto simp: AList.delete_eq)

lemma del_owned_in: "x \<in> set (del_owned m k i) \<Longrightarrow> x \<in> set m"
  by (auto simp: del_owned_def dest: delete_in split: if_splits)

lemma del_owned_props:
  "set (del_owned m k i) \<subseteq> set m" "distinct (map fst m) \<Longrightarrow> distinct (map fst (del_owned m k i))"
  by (auto intro: del_owned_in) (simp add: del_owned_def distinct_delete)

lemma del_owned_gone: "distinct (map fst m) \<Longrightarrow> (k, i) \<notin> set (del_owned m k i)"
  by (auto simp: del_owned_def AList.delete_eq)

lemma release_set_sets:
  assumes "sets_ok C x h"
  shows "sets_ok C x (release_set i h)" "i \<notin> snd ` set (pending_sets (release_set i h))"
proof -
  have d: "distinct (map fst (pending_sets h))" using assms by (simp add: sets_ok_def)
  show "sets_ok C x (release_set i h)" unfolding release_set_def
    using assms del_owned_props [of "pending_sets h" _ i] d by (auto split: option.splits intro!: sets_ok_subset)
  show "i \<notin> snd ` set (pending_sets (release_set i h))"
  proof
    assume "i \<in> snd ` set (pending_sets (release_set i h))"
    then obtain k where k: "(k, i) \<in> set (pending_sets (release_set i h))" by auto
    then have "(k, i) \<in> set (pending_sets h)"
      by (auto dest: del_owned_in simp: release_set_def split: option.splits)
    then have "it_group (items h i) = Some k" using assms unfolding sets_ok_def by blast
    then show False using k del_owned_gone [OF d, of k i] by (simp add: release_set_def)
  qed
qed

lemma release_set_gets [simp]: "gets_ok C x (release_set i h) \<longleftrightarrow> gets_ok C x h"
  by (simp add: release_set_def split: option.splits)

lemma release_set_fields [simp]:
  "command_queue (release_set i h) = command_queue h" "put_waiting (release_set i h) = put_waiting h"
  "items (release_set i h) = items h" "next_item (release_set i h) = next_item h" "worker (release_set i h) = worker h"
  "queued_get_keys (release_set i h) = queued_get_keys h" "module_states (release_set i h) = module_states h"
  "futures (release_set i h) = futures h" "follows (release_set i h) = follows h" "next_future (release_set i h) = next_future h"
  "group_known_at (release_set i h) = group_known_at h" "pending_gets (release_set i h) = pending_gets h"
  "writing_sets (release_set i h) = writing_sets h"
  by (simp_all add: release_set_def split: option.splits)

definition release_item_key :: "nat \<Rightarrow> commander \<Rightarrow> commander" where
  "release_item_key i h = (case item_key h i of None \<Rightarrow> h | Some k \<Rightarrow> release_get_key k i h)"

lemma release_item_key_gets:
  assumes "gets_ok C x h"
  shows "gets_ok C x (release_item_key i h)" "i \<notin> snd ` set (queued_get_keys (release_item_key i h))"
proof -
  have d: "distinct (map fst (queued_get_keys h))" using assms by (simp add: gets_ok_def)
  show "gets_ok C x (release_item_key i h)" unfolding release_item_key_def release_get_key_def
    using assms del_owned_props [of "queued_get_keys h" _ i] d by (auto split: option.splits intro!: gets_ok_subset)
  show "i \<notin> snd ` set (queued_get_keys (release_item_key i h))"
  proof
    assume "i \<in> snd ` set (queued_get_keys (release_item_key i h))"
    then obtain k where k: "(k, i) \<in> set (queued_get_keys (release_item_key i h))" by auto
    then have "(k, i) \<in> set (queued_get_keys h)"
      by (auto dest: del_owned_in simp: release_item_key_def release_get_key_def split: option.splits)
    then have "item_key h i = Some k" using assms unfolding gets_ok_def by blast
    then show False using k del_owned_gone [OF d, of k i] by (simp add: release_item_key_def release_get_key_def)
  qed
qed

lemma release_item_key_fields [simp]:
  "command_queue (release_item_key i h) = command_queue h" "put_waiting (release_item_key i h) = put_waiting h"
  "items (release_item_key i h) = items h" "next_item (release_item_key i h) = next_item h"
  "worker (release_item_key i h) = worker h" "pending_sets (release_item_key i h) = pending_sets h"
  "sets_ok C x (release_item_key i h) \<longleftrightarrow> sets_ok C x h"
  by (simp_all add: release_item_key_def release_get_key_def split: option.splits)

lemma exempt_gone:
  "sets_ok C (Some i) h \<Longrightarrow> i \<notin> snd ` set (pending_sets h) \<Longrightarrow> sets_ok C None h"
  "gets_ok C (Some i) h \<Longrightarrow> i \<notin> snd ` set (queued_get_keys h) \<Longrightarrow> gets_ok C None h"
  by (force simp: sets_ok_def gets_ok_def)+


subsection \<open>Every event keeps the registrations\<close>

lemma put_item_ok:
  assumes "registered_ok C h" "put_item it who h = (i, blocked, h')"
  shows "registered_ok C h'" "live C h' i" "items h' i = it" "i < next_item h'"
    "pending_sets h' = pending_sets h" "queued_get_keys h' = queued_get_keys h"
proof -
  have i: "i = next_item h" using assms(2) by (simp add: put_item_def Let_def split: if_splits)
  have h': "next_item h' = i + 1" "items h' = (items h)(i := it)" "worker h' = worker h"
    "set (command_queue h') \<union> set (put_waiting h') = insert i (set (command_queue h) \<union> set (put_waiting h))"
    using assms(2) by (auto simp: put_item_def Let_def split: if_splits)
  show q: "pending_sets h' = pending_sets h" "queued_get_keys h' = queued_get_keys h"
    using assms(2) by (auto simp: put_item_def Let_def split: if_splits)
  have l: "live C h' j \<longleftrightarrow> j = i \<or> live C h j" for j using h'(4) unfolding live_def by blast
  show "live C h' i" "items h' i = it" "i < next_item h'" using l h' by simp_all
  have s: "sets_ok C None h'" using assms(1) unfolding registered_ok_def sets_ok_def q l h' i
    by (metis fun_upd_other less_Suc_eq Suc_eq_plus1 less_irrefl)
  have "gets_ok C None h'" using assms(1) unfolding registered_ok_def gets_ok_def q l h' i item_key_def
    by (metis fun_upd_other less_Suc_eq Suc_eq_plus1 less_irrefl)
  with s show "registered_ok C h'" by (simp add: registered_ok_def)
qed

lemma update_in: "x \<in> set (AList.update k v m) \<Longrightarrow> x = (k, v) \<or> x \<in> set m"
  by (induction m) (auto split: if_splits)

lemma register_set:
  assumes "registered_ok C h" "live C h i" "it_group (items h i) = Some k" "i < next_item h"
  shows "registered_ok C (h\<lparr>pending_sets := AList.update k i (pending_sets h)\<rparr>)"
proof -
  have "sets_ok C None (h\<lparr>pending_sets := AList.update k i (pending_sets h)\<rparr>)"
    using assms unfolding registered_ok_def sets_ok_def
    by (auto simp: live_def distinct_update dest!: update_in)
  then show ?thesis using assms(1) by (simp add: registered_ok_def)
qed

lemma register_get:
  assumes "registered_ok C h" "live C h i" "it_group (items h i) = None" "item_key h i = Some k" "i < next_item h"
  shows "registered_ok C (h\<lparr>queued_get_keys := AList.update k i (queued_get_keys h)\<rparr>)"
proof -
  have "gets_ok C None (h\<lparr>queued_get_keys := AList.update k i (queued_get_keys h)\<rparr>)"
    using assms unfolding registered_ok_def gets_ok_def
    by (auto simp: live_def item_key_def distinct_update dest!: update_in)
  then show ?thesis using assms(1) by (simp add: registered_ok_def)
qed

lemma queue_command_ok:
  assumes "registered_ok C h" shows "registered_ok C (snd (queue_command c a f cb who h))"
proof -
  let ?it = "no_item\<lparr>it_command := c, it_address := a, it_future := f, it_completion := cb\<rparr>"
  obtain i blocked h' where p: "put_item ?it who h = (i, blocked, h')" by (metis prod_cases3)
  note ok = put_item_ok [OF assms p]
  show ?thesis using ok assms p register_get [OF ok(1,2) _ _ ok(4)]
    by (auto simp: queue_command_def Let_def no_item_def item_key_def split: option.splits)
qed

lemma get_output_state_ok: "registered_ok C h \<Longrightarrow> registered_ok C (snd (get_output_state a g h))"
proof -
  assume ok: "registered_ok C h"
  have "registered_ok C (snd (queue_command c (Some a) (Some f) None who (h'\<lparr>pending_gets := p\<rparr>)))"
    if "h' = snd (new_future h)" for c f p h' who
    using ok that same_queue_ok(3) [OF same_queue_simps(4) [of h]] same_queue_ok(3) [OF same_queue_fields(2)]
    by (intro queue_command_ok) simp
  then show ?thesis using ok by (auto simp: get_output_state_def new_future_def Let_def split_def split: sum.splits)
qed

lemma query_command_ok: "registered_ok C h \<Longrightarrow> registered_ok C (snd (query_command f a args h))"
  using same_queue_ok(3) [OF same_queue_simps(4) [of h]]
  by (auto simp: query_command_def new_future_def Let_def split_def intro!: queue_command_ok split: sum.splits)

lemma write_second_group_ok: "registered_ok C h \<Longrightarrow> registered_ok C (snd (write_second_group a cb h))"
  by (auto simp: write_second_group_def Let_def intro!: queue_command_ok split: sum.splits)

lemma set_output_states_ok: "registered_ok C h \<Longrightarrow> registered_ok C (snd (set_output_states a cb n h))"
  by (auto simp: set_output_states_def Let_def split_def intro!: queue_command_ok write_second_group_ok
    split: sum.splits option.splits)

lemma same_live_ok:
  assumes "\<And>j. live C h j \<Longrightarrow> live C h' j" "items h' = items h" "next_item h' = next_item h"
    "pending_sets h' = pending_sets h" "queued_get_keys h' = queued_get_keys h" "worker h' = worker h"
  shows "registered_ok C h \<Longrightarrow> registered_ok C h'"
  using assms(1) unfolding registered_ok_def sets_ok_def gets_ok_def item_key_def assms(2-6) by blast

lemma admit_ok:
  assumes "registered_ok C h" shows "registered_ok C (snd (admit i h))"
proof -
  let ?h = "h\<lparr>command_queue := command_queue h @ [i], put_waiting := remove1 i (put_waiting h)\<rparr>"
  have l: "live C ?h j" if "live C h j" for j using that by (cases "j = i") (auto simp: live_def)
  have ok: "registered_ok C ?h" by (rule same_live_ok [OF l]) (use assms in simp_all)
  then have "registered_ok C (snd (derived_future f ?h))" for f
    using same_queue_ok(3) [OF same_queue_simps(5)] by blast
  then show ?thesis using ok assms
    by (auto simp: admit_def after_put_def Let_def split_def intro!: write_second_group_ok split: caller.splits)
qed

lemma give_up_get_ok: "registered_ok C h \<Longrightarrow> registered_ok C (give_up_get a g f h)"
proof -
  assume "registered_ok C h"
  then have s: "sets_ok C None (settle f Cancelled h)" "gets_ok C None (settle f Cancelled h)"
    using same_queue_ok(1,2) [OF same_queue_simps(2) [of h f Cancelled]] by (simp_all add: registered_ok_def)
  have "gets_ok C None ((settle f Cancelled h)\<lparr>queued_get_keys := AList.delete k (queued_get_keys h)\<rparr>)" for k
    using s(2) by (intro gets_ok_subset) (auto simp: gets_ok_def distinct_delete dest: delete_in)
  then show ?thesis using s same_queue_ok(3) [OF same_queue_simps(8)]
    by (simp add: give_up_get_def Let_def registered_ok_def split: option.splits)
qed

lemma cancel_put_ok:
  assumes "registered_ok C h" "i \<in> C" shows "registered_ok C (cancel_put i h)"
proof -
  let ?h = "h\<lparr>put_waiting := remove1 i (put_waiting h)\<rparr>"
  have l: "live C ?h j" if "live C h j" for j using that assms(2) by (cases "j = i") (auto simp: live_def)
  have "registered_ok C ?h" by (rule same_live_ok [OF l]) (use assms in simp_all)
  then show ?thesis using assms(1) by (simp add: cancel_put_def Let_def give_up_get_ok split: caller.splits)
qed

lemma join_set_ok:
  assumes "registered_ok C h" shows "registered_ok C (join_set i c v cb fb h)"
proof -
  have "it_group (items (join_set i c v cb fb h) j) = it_group (items h j)"
    "item_key (join_set i c v cb fb h) j = item_key h j" for j
    by (simp_all add: join_set_def item_key_def)
  then show ?thesis using assms
    by (simp add: registered_ok_def sets_ok_def gets_ok_def live_def) (simp add: join_set_def)
qed

lemma set_output_state_ok:
  assumes "registered_ok C h" shows "registered_ok C (snd (set_output_state a c v cb fb h))"
proof -
  obtain r bufs where r: "set_bytearray_state (upper a) c v (module_states h) = (r, bufs)" by force
  let ?h = "h\<lparr>module_states := bufs\<rparr>"
  have ok: "registered_ok C ?h" using assms same_queue_ok(3) [OF same_queue_fields(1)] by simp
  let ?k = "(upper a, calculate_group_number c)"
  obtain f h1 where f: "new_future ?h = (f, h1)" by force
  have ok1: "registered_ok C h1" using ok same_queue_ok(3) [OF same_queue_simps(4) [of ?h]] f by simp
  let ?it = "no_item\<lparr>it_command := ''<set '' @ upper a @ '' group '' @ fmt_dec 0 (calculate_group_number c) @ ''>'',
     it_address := Some (upper a), it_future := Some f, it_completions := opt_list cb,
     it_failures := opt_list fb, it_group := Some ?k, it_channels := [(c, v)]\<rparr>"
  obtain i blocked h2 where p: "put_item ?it (SetCaller f) h1 = (i, blocked, h2)" by (metis prod_cases3)
  note ok2 = put_item_ok [OF ok1 p]
  have ok3: "registered_ok C (h2\<lparr>pending_sets := AList.update ?k i (pending_sets h2)\<rparr>)"
    by (rule register_set [OF ok2(1,2) _ ok2(4)]) (simp add: ok2(3))
  have d: "registered_ok C (snd (derived_future f' h'))" if "registered_ok C h'" for f' h'
    using that same_queue_ok(3) [OF same_queue_simps(5)] by simp
  show ?thesis using ok ok3 d [OF ok3, of f] d [OF join_set_ok [OF ok]] r f p
    by (auto simp: set_output_state_def Let_def split_def split: sum.splits option.splits)
qed


definition shut :: "commander \<Rightarrow> bool" where
  \<comment> \<open>no request joins the write the worker is busy with\<close>
  "shut h \<longleftrightarrow> (\<forall>i. worker h = Coalescing i \<longrightarrow> i \<notin> snd ` set (pending_sets h))"

lemma shut_simps [simp]:
  "shut (h\<lparr>items := its\<rparr>) \<longleftrightarrow> shut h" "shut (h\<lparr>module_states := b\<rparr>) \<longleftrightarrow> shut h"
  "shut (release_item_key i h) \<longleftrightarrow> shut h"
  by (simp_all add: shut_def)

lemma worker_change:
  "sets_ok C x h \<Longrightarrow> shut h \<Longrightarrow> sets_ok C x (h\<lparr>worker := p\<rparr>)"
  "gets_ok C x (h\<lparr>worker := p\<rparr>) \<longleftrightarrow> gets_ok C x h"
  by (force simp: sets_ok_def live_def shut_def) (simp add: gets_ok_def live_def item_key_def)

lemma item_done_ok:
  assumes "registered_ok C h" "shut h" shows "registered_ok C (item_done i h)"
proof -
  define w where "w = (case it_group (items h i) of None \<Rightarrow> writing_sets h | Some k \<Rightarrow> AList.delete k (writing_sets h))"
  have w: "item_done i h = h\<lparr>writing_sets := w\<rparr>\<lparr>worker := Idle\<rparr>" by (simp add: item_done_def w_def)
  have s: "sets_ok C None (h\<lparr>writing_sets := w\<rparr>)" "gets_ok C None (h\<lparr>writing_sets := w\<rparr>)"
    using assms(1) same_queue_ok(1,2) [OF same_queue_fields(4)] by (simp_all add: registered_ok_def)
  show ?thesis unfolding w registered_ok_def worker_change(2)
    using worker_change(1) [OF s(1)] s(2) assms(2) by (simp add: shut_def)
qed

lemma fail_item_ok:
  assumes "registered_ok C h" "shut h" shows "registered_ok C (snd (fail_item i e h))"
proof -
  let ?h = "settle_opt (it_future (items h i)) (Failed e) h"
  let ?h' = "case get_key (it_command (items h i)) (it_address (items h i)) of None \<Rightarrow> ?h | Some (a, g) \<Rightarrow> fail_pending_gets a g e ?h"
  have "same_queue h (fail_pending_gets a g e ?h)" for a g
    by (rule same_queue_trans [OF same_queue_simps(3) same_queue_simps(7)])
  then have s: "same_queue h ?h'" by (cases "get_key (it_command (items h i)) (it_address (items h i))") auto
  have "registered_ok C ?h'" using same_queue_ok(3) [OF s] assms(1) by blast
  moreover have "shut ?h'" using s assms(2) unfolding same_queue_def shut_def by simp
  ultimately have "registered_ok C (item_done i ?h')" by (intro item_done_ok)
  then show ?thesis by (simp only: fail_item_def Let_def snd_conv)
qed

lemma begin_exchange_eq:
  "snd (begin_exchange i h) = (release_item_key i h)\<lparr>worker := Sending i\<rparr>"
  by (simp add: begin_exchange_def release_item_key_def item_key_def Let_def)

lemma begin_exchange_ok:
  assumes "sets_ok C (Some i) h" "gets_ok C (Some i) h" "i \<notin> snd ` set (pending_sets h)" "shut h"
  shows "registered_ok C (snd (begin_exchange i h))"
proof -
  have "gets_ok C None (release_item_key i h)"
    using release_item_key_gets [OF assms(2), of i] by (intro exempt_gone(2))
  moreover have "sets_ok C None (release_item_key i h)" using exempt_gone(1) [OF assms(1,3)] by simp
  ultimately show ?thesis using assms(4)
    by (simp add: begin_exchange_eq registered_ok_def worker_change)
qed

lemma no_group_not_pending: "sets_ok C x h \<Longrightarrow> it_group (items h i) = None \<Longrightarrow> i \<notin> snd ` set (pending_sets h)"
  by (force simp: sets_ok_def)

lemma shift_sets:
  assumes "sets_ok C None h" "\<And>j. live C h j \<Longrightarrow> live C h' j \<or> x = Some j" "shut h"
    and "items h' = items h" "next_item h' = next_item h" "pending_sets h' = pending_sets h"
  shows "sets_ok C x h'"
  using assms(1-3) unfolding sets_ok_def assms(4-6) shut_def by force

lemma shift_gets:
  assumes "gets_ok C None h" "\<And>j. live C h j \<Longrightarrow> live C h' j \<or> x = Some j"
    and "items h' = items h" "next_item h' = next_item h" "queued_get_keys h' = queued_get_keys h"
  shows "gets_ok C x h'"
  using assms(1,2) unfolding gets_ok_def item_key_def assms(3-5) by blast

lemma take_item_ok:
  assumes "registered_ok C h" shows "registered_ok C (snd (take_item h))"
proof (cases "\<exists>i q. worker h = Idle \<and> command_queue h = i # q")
  case False
  then show ?thesis using assms by (auto simp: take_item_def split: phase.splits list.splits)
next
  case True
  then obtain i q where q: "worker h = Idle" "command_queue h = i # q" by blast
  let ?h = "h\<lparr>command_queue := q\<rparr>"
  have s: "sets_ok C (Some i) ?h" "gets_ok C (Some i) ?h"
    using assms q by (auto simp: registered_ok_def live_def shut_def intro!: shift_sets [where h = h] shift_gets [where h = h])
  have skip: "registered_ok C (release_set i (release_item_key i ?h))"
  proof -
    have "sets_ok C (Some i) (release_item_key i ?h)" using s(1) by simp
    from exempt_gone(1) [OF release_set_sets(1) [OF this] release_set_sets(2) [OF this]]
    have a: "sets_ok C None (release_set i (release_item_key i ?h))" .
    have "gets_ok C None (release_item_key i ?h)"
      using release_item_key_gets [OF s(2), of i] by (intro exempt_gone(2))
    then show ?thesis using a by (simp add: registered_ok_def)
  qed
  have coal: "registered_ok C (?h\<lparr>worker := Coalescing i\<rparr>)" if "it_group (items h i) \<noteq> None"
  proof -
    have "i \<notin> snd ` set (queued_get_keys ?h)" using s(2) that unfolding gets_ok_def by force
    from exempt_gone(2) [OF s(2) this] have "gets_ok C None (?h\<lparr>worker := Coalescing i\<rparr>)" by (simp add: worker_change)
    moreover have "sets_ok C None (?h\<lparr>worker := Coalescing i\<rparr>)"
      using s(1) q(1) unfolding sets_ok_def live_def by auto
    ultimately show ?thesis by (simp add: registered_ok_def)
  qed
  have "registered_ok C (snd (begin_exchange i ?h))" if "it_group (items h i) = None"
    using s that q(1) no_group_not_pending [OF s(1), of i] by (intro begin_exchange_ok) (simp_all add: shut_def)
  then show ?thesis using q skip coal
    by (cases "it_group (items h i)") (simp_all add: take_item_def Let_def release_item_key_def item_key_def)
qed

lemma begin_exchange_registered:
  assumes "registered_ok C h" "shut h" shows "registered_ok C (snd (begin_exchange i h))"
  using assms release_item_key_gets(1) [of C None h i] worker_change [where h = "release_item_key i h"]
  by (simp add: begin_exchange_eq registered_ok_def)

lemma begin_build_ok:
  assumes "registered_ok C h" "shut h" "it_group (items h i) \<noteq> None"
  shows "registered_ok C (snd (begin_exchange i (h\<lparr>items := (items h)(i := (items h i)\<lparr>it_command := c\<rparr>)\<rparr>)))"
proof (rule begin_exchange_registered)
  have "i \<notin> snd ` set (queued_get_keys h)"
    using assms(1,3) unfolding registered_ok_def gets_ok_def by force
  then show "registered_ok C (h\<lparr>items := (items h)(i := (items h i)\<lparr>it_command := c\<rparr>)\<rparr>)"
    using assms(1) unfolding registered_ok_def sets_ok_def gets_ok_def item_key_def live_def by force
qed (use assms in simp)

lemma build_frame_ok:
  assumes "registered_ok C h" "shut h" "it_group (items h i) \<noteq> None"
  shows "registered_ok C (snd (build_frame i a g h))"
proof -
  obtain r bufs where r: "apply_writes a (it_channels (items h i)) (module_states h) = (r, bufs)" by force
  let ?h = "h\<lparr>module_states := bufs\<rparr>"
  have ok: "registered_ok C ?h" using assms(1) same_queue_ok(3) [OF same_queue_fields(1)] by simp
  have "registered_ok C (snd (begin_exchange i (?h\<lparr>items := (items ?h)(i := (items ?h i)\<lparr>it_command := c\<rparr>)\<rparr>)))" for c
    by (rule begin_build_ok [OF ok]) (use assms in simp_all)
  then show ?thesis using fail_item_ok [OF ok] assms(2)
    by (auto simp: build_frame_def r Let_def split: sum.splits)
qed

lemma coalesce_over_ok:
  assumes "registered_ok C h" shows "registered_ok C (snd (coalesce_over now h))"
proof (cases "\<exists>i a g. worker h = Coalescing i \<and> it_group (items h i) = Some (a, g)")
  case False
  then show ?thesis using assms by (auto simp: coalesce_over_def split: phase.splits option.splits)
next
  case True
  then obtain i a g where i: "worker h = Coalescing i" "it_group (items h i) = Some (a, g)" by blast
  define h1 where "h1 = (release_set i h)\<lparr>writing_sets := AList.update (a, g) (it_channels (items h i)) (writing_sets h)\<rparr>"
  have s: "sets_ok C None (release_set i h)" "i \<notin> snd ` set (pending_sets (release_set i h))" "gets_ok C None (release_set i h)"
    using release_set_sets [of C None h i] assms by (simp_all add: registered_ok_def)
  have out: "sets_ok C None (h1\<lparr>worker := p\<rparr>)" "gets_ok C None (h1\<lparr>worker := p\<rparr>)" for p
    using s i(1) unfolding h1_def sets_ok_def gets_ok_def live_def item_key_def by (auto, force+)
  have "worker h1 = Coalescing i" "i \<notin> snd ` set (pending_sets h1)" "items h1 = items h"
    using i(1) s(2) by (simp_all add: h1_def)
  moreover have "h1\<lparr>worker := worker h1\<rparr> = h1" by simp
  with out have "registered_ok C h1" unfolding registered_ok_def by metis
  moreover have "registered_ok C (h1\<lparr>worker := Reading i\<rparr>)" using out by (simp add: registered_ok_def)
  ultimately have quiet: "registered_ok C (snd (build_frame i a g h1))" "registered_ok C (snd (fail_item i e h1))"
    "registered_ok C (h1\<lparr>worker := Reading i\<rparr>)" for e
    using i(2) by (auto simp: shut_def intro!: build_frame_ok fail_item_ok)
  have h1: "(release_set i h)\<lparr>writing_sets := AList.update (a, g) (it_channels (items (release_set i h) i)) (writing_sets (release_set i h))\<rparr> = h1"
    by (simp add: h1_def)
  show ?thesis unfolding coalesce_over_def i phase.case option.case prod.case Let_def h1
    using quiet by (cases "make_pc_link_command (if g = 1 then 0x12 else 0x17) a None") simp_all
qed

lemma read_done_ok:
  assumes "registered_ok C h" shows "registered_ok C (snd (read_done now r h))"
proof (cases "\<exists>i a g. worker h = Reading i \<and> it_group (items h i) = Some (a, g)")
  case False
  then show ?thesis using assms by (auto simp: read_done_def split: phase.splits option.splits)
next
  case True
  then obtain i a g where i: "worker h = Reading i" "it_group (items h i) = Some (a, g)" by blast
  have go: "registered_ok C h' \<and> shut h' \<and> it_group (items h' i) \<noteq> None" if "same_queue h h'" for h'
    using that assms i same_queue_ok(3) [OF that] by (auto simp: same_queue_def shut_def)
  have b: "registered_ok C (snd (build_frame i a g h'))" "registered_ok C (snd (fail_item i e h'))" if "same_queue h h'" for h' e
    using go [OF that] build_frame_ok fail_item_ok by blast+
  have s: "same_queue h (snd (apply_group_state now a g ans h))"
    "same_queue h (resolve_pending_get now a g ans (snd (apply_group_state now a g ans h)))" for ans
    using same_queue_trans [OF same_queue_simps(10) same_queue_simps(6)] by simp_all
  show ?thesis using b(1) [OF same_queue_simps(1)] b [OF s(1)] b(1) [OF s(2)]
    by (auto simp: read_done_def i split_def split: sum.splits prod.splits)
qed

lemma send_done_ok:
  assumes "registered_ok C h" shows "registered_ok C (snd (send_done now r h))"
proof (cases "\<exists>i. worker h = Sending i")
  case False
  then show ?thesis using assms by (auto simp: send_done_def split: phase.splits)
next
  case True
  then obtain i where i: "worker h = Sending i" by blast
  have d: "registered_ok C (item_done i h')" "registered_ok C (snd (fail_item i e h'))" if "same_queue h h'" for h' e
    using that assms i same_queue_ok(3) [OF that] by (auto simp: same_queue_def shut_def intro!: item_done_ok fail_item_ok)
  let ?h1 = "settle_opt (it_future (items h i)) (Result x) h"
  have s: "same_queue h (settle_opt f (Result x) h)" "same_queue h (resolve_pending_get now a g x (settle_opt f (Result x) h))" for f x a g
    using same_queue_trans [OF same_queue_simps(3) same_queue_simps(6)] by simp_all
  have k: "same_queue h (h'\<lparr>group_known_at := m\<rparr>)" if "same_queue h h'" for h' m
    using same_queue_trans [OF that same_queue_fields(3)] .
  show ?thesis using d [OF same_queue_simps(1)] d(1) [OF s(1)] d(1) [OF s(2)] d(1) [OF k [OF s(1)]] d(1) [OF k [OF s(2)]]
    by (auto simp: send_done_def i Let_def split: sum.splits option.splits list.splits)
qed

lemma drain_item_ok:
  assumes "sets_ok C x h" "gets_ok C x h"
  shows "sets_ok C x (drain_item i h)" "gets_ok C x (drain_item i h)"
    "i \<notin> snd ` set (pending_sets (drain_item i h))" "i \<notin> snd ` set (queued_get_keys (drain_item i h))"
    "command_queue (drain_item i h) = command_queue h" "items (drain_item i h) = items h"
    "set (pending_sets (drain_item i h)) \<subseteq> set (pending_sets h)"
    "set (queued_get_keys (drain_item i h)) \<subseteq> set (queued_get_keys h)"
proof -
  define h1 where "h1 = settle_opt (it_future (items h i)) Cancelled h"
  have s: "sets_ok C x h1" "gets_ok C x h1" "pending_sets h1 = pending_sets h" "queued_get_keys h1 = queued_get_keys h"
    using assms same_queue_ok(1,2) [OF same_queue_simps(3)] by (simp_all add: h1_def)
  have e: "drain_item i h = (release_set i h1)\<lparr>queued_get_keys := filter (\<lambda>(k, owner). owner \<noteq> i) (queued_get_keys h1)\<rparr>"
    by (simp add: drain_item_def Let_def h1_def)
  show "sets_ok C x (drain_item i h)" "i \<notin> snd ` set (pending_sets (drain_item i h))"
    unfolding e using release_set_sets [OF s(1), of i] by simp_all
  have g: "gets_ok C x (release_set i h1)" using s(2) by simp
  have "distinct (map fst (queued_get_keys h1))" using s(2) by (simp add: gets_ok_def)
  then show "gets_ok C x (drain_item i h)" unfolding e
    by (intro gets_ok_subset [OF g]) (auto simp: distinct_map_filter)
  show "i \<notin> snd ` set (queued_get_keys (drain_item i h))" unfolding e by auto
  show "command_queue (drain_item i h) = command_queue h" "items (drain_item i h) = items h"
    by (simp_all add: e h1_def)
  show "set (pending_sets (drain_item i h)) \<subseteq> set (pending_sets h)"
    unfolding e using s(3) by (auto simp: release_set_def dest: del_owned_in split: option.splits)
  show "set (queued_get_keys (drain_item i h)) \<subseteq> set (queued_get_keys h)" unfolding e using s(4) by auto
qed

lemma drain_items_ok:
  assumes "registered_ok C h"
  shows "registered_ok C (fold drain_item is h)"
    "\<forall>i \<in> set is. i \<notin> snd ` set (pending_sets (fold drain_item is h)) \<and> i \<notin> snd ` set (queued_get_keys (fold drain_item is h))"
    "command_queue (fold drain_item is h) = command_queue h" "set (queued_get_keys (fold drain_item is h)) \<subseteq> set (queued_get_keys h)"
    "set (pending_sets (fold drain_item is h)) \<subseteq> set (pending_sets h)"
  using assms
proof (induction "is" arbitrary: h)
  case Nil
  { case 1 then show ?case by simp }
  { case 2 then show ?case by simp }
  { case 3 then show ?case by simp }
  { case 4 then show ?case by simp }
  { case 5 then show ?case by simp }
next
  case (Cons i "is")
  have *: "registered_ok C (drain_item i h)" if "registered_ok C h" for h
    using that drain_item_ok(1,2) [of C None h i] by (simp add: registered_ok_def)
  have d: "i \<notin> snd ` set (pending_sets (drain_item i h))" "i \<notin> snd ` set (queued_get_keys (drain_item i h))"
    "command_queue (drain_item i h) = command_queue h" "set (pending_sets (drain_item i h)) \<subseteq> set (pending_sets h)"
    "set (queued_get_keys (drain_item i h)) \<subseteq> set (queued_get_keys h)" if "registered_ok C h" for h
    using that drain_item_ok(3-8) [of C None h i] by (simp_all add: registered_ok_def)
  { case 1 then show ?case using Cons.IH(1) * by simp }
  { case 2 then show ?case using Cons.IH(2,4,5) [of "drain_item i h"] * d [of h] by auto }
  { case 3 then show ?case using Cons.IH(3) * d(3) by simp }
  { case 4 then show ?case using Cons.IH(4) [of "drain_item i h"] * d(5) [of h] by auto }
  { case 5 then show ?case using Cons.IH(5) [of "drain_item i h"] * d(4) [of h] by auto }
qed

lemma settle_queue: "settle f s (h\<lparr>command_queue := q\<rparr>) = (settle f s h)\<lparr>command_queue := q\<rparr>"
  by (simp add: settle_def future_done_def cong: if_cong)

lemma drain_item_queue: "drain_item i (h\<lparr>command_queue := q\<rparr>) = (drain_item i h)\<lparr>command_queue := q\<rparr>"
  by (simp add: drain_item_def release_set_def Let_def settle_opt_def settle_queue split: option.splits)

lemma drain_items_queue: "fold drain_item is (h\<lparr>command_queue := q\<rparr>) = (fold drain_item is h)\<lparr>command_queue := q\<rparr>"
  by (induction "is" arbitrary: h) (simp_all add: drain_item_queue)

lemma drain_items_waiting [simp]: "put_waiting (fold drain_item is h) = put_waiting h"
  by (induction "is" arbitrary: h) (simp_all add: drain_item_def Let_def)

lemma requeue_ok:
  assumes "registered_ok C h"
    and l: "\<And>i. live C h i \<Longrightarrow> i \<in> snd ` set (pending_sets h) \<or> i \<in> snd ` set (queued_get_keys h) \<Longrightarrow>
      live C (h\<lparr>command_queue := q\<rparr>) i"
  shows "registered_ok C (h\<lparr>command_queue := q\<rparr>)"
proof -
  have "live C (h\<lparr>command_queue := q\<rparr>) i \<or> worker h = Coalescing i" if "(k, i) \<in> set (pending_sets h)" for k i
  proof -
    have "live C h i \<or> worker h = Coalescing i" using assms(1) that unfolding registered_ok_def sets_ok_def by blast
    moreover have "i \<in> snd ` set (pending_sets h)" using that by force
    ultimately show ?thesis using l by blast
  qed
  moreover have "live C (h\<lparr>command_queue := q\<rparr>) i" if "(k, i) \<in> set (queued_get_keys h)" for k i
  proof -
    have "live C h i" using assms(1) that unfolding registered_ok_def gets_ok_def by blast
    moreover have "i \<in> snd ` set (queued_get_keys h)" using that by force
    ultimately show ?thesis using l by blast
  qed
  ultimately show ?thesis using assms(1)
    unfolding registered_ok_def sets_ok_def gets_ok_def item_key_def by simp
qed

lemma drain_queue_ok:
  assumes "registered_ok C h" shows "registered_ok C (snd (drain_queue p h))"
proof -
  let ?gone = "filter (drain_matches p h) (command_queue h)"
  let ?kept = "filter (\<lambda>i. \<not> drain_matches p h i) (command_queue h)"
  let ?h = "fold drain_item ?gone h"
  note ok = drain_items_ok [OF assms, of ?gone]
  have "live C (?h\<lparr>command_queue := ?kept\<rparr>) i" if "live C ?h i" "i \<notin> set ?gone" for i
    using that ok(3) by (auto simp: live_def)
  then have "registered_ok C (?h\<lparr>command_queue := ?kept\<rparr>)"
    using ok(2) by (intro requeue_ok [OF ok(1)]) blast
  then show ?thesis by (simp add: drain_queue_def Let_def drain_items_queue)
qed

lemma nothing_registered: "pending_sets h = [] \<Longrightarrow> queued_get_keys h = [] \<Longrightarrow> registered_ok C h"
  by (simp add: registered_ok_def sets_ok_def gets_ok_def)

lemma reset_ok: "registered_ok C (command_reset h)"
  by (rule nothing_registered) (simp_all add: command_reset_def)

lemma drain_items_keys: "queued_get_keys h = [] \<Longrightarrow> queued_get_keys (fold drain_item is h) = []"
  by (induction "is" arbitrary: h) (simp_all add: drain_item_def Let_def)

lemma stop_ok: "registered_ok C (command_stop h)"
proof (rule nothing_registered)
  have "queued_get_keys (cancel_worker h') = queued_get_keys h'" for h'
    by (simp add: cancel_worker_def item_done_def split: phase.splits)
  then show "queued_get_keys (command_stop h) = []"
    by (simp add: command_stop_def Let_def drain_queue_def drain_items_keys)
qed (simp add: command_stop_def Let_def)

lemma start_ok: "registered_ok C h \<Longrightarrow> worker h = Off \<Longrightarrow> registered_ok C (command_start h)"
  by (simp add: command_start_def registered_ok_def worker_change shut_def)

lemma step_ok:
  assumes "registered_ok C h" "e = Start \<Longrightarrow> worker h = Off" "\<And>i. e = CancelPut i \<Longrightarrow> i \<in> C"
  shows "registered_ok C (snd (step now e h))"
proof (cases e)
  case (GroupState a g s)
  have "registered_ok C (snd (apply_group_state now a g s h))"
    using same_queue_ok(3) [OF same_queue_simps(10)] assms(1) by blast
  then show ?thesis using GroupState
    by (cases "apply_group_state now a g s h") (auto split: sum.splits)
qed (use assms in \<open>simp_all add: start_ok stop_ok reset_ok admit_ok cancel_put_ok set_output_state_ok set_output_states_ok
  get_output_state_ok give_up_get_ok query_command_ok queue_command_ok drain_queue_ok take_item_ok coalesce_over_ok
  read_done_ok send_done_ok same_queue_ok(3) [OF same_queue_simps(8)] same_queue_ok(3) [OF same_queue_simps(9)]
  same_queue_ok(3) [OF same_queue_simps(6)]\<close>)

fun proper_run :: "(rat \<times> event) list \<Rightarrow> commander \<Rightarrow> bool" where
  \<comment> \<open>the loop is started only when it does not run\<close>
  "proper_run [] h = True"
| "proper_run ((now, e) # es) h = ((e = Start \<longrightarrow> worker h = Off) \<and> proper_run es (snd (step now e h)))"

lemma run_ok:
  "registered_ok C h \<Longrightarrow> proper_run es h \<Longrightarrow> \<forall>i. CancelPut i \<in> snd ` set es \<longrightarrow> i \<in> C \<Longrightarrow>
   registered_ok C (snd (command_run es h))"
proof (induction es arbitrary: h)
  case (Cons x es)
  obtain now e where x: "x = (now, e)" by force
  have "registered_ok C (snd (step now e h))" using Cons.prems x by (intro step_ok) auto
  then show ?case using Cons.IH [of "snd (step now e h)"] Cons.prems x by (auto simp: split_def Let_def)
qed simp

text \<open>
  C19. After any run of calls, time-outs, cancellations, drains, resets, stops and turns of the worker,
  whatever the exchanges return: the pending write of a module group is queued, waits for a place in the
  queue, or is the one whose window is open, so that a request that joins it is carried out with it; and the read
  that owns the key of a group is queued and reads that group, so that a read suppressed as its duplicate
  is answered by its exchange. The one exception is an item whose caller was cancelled in the run while
  it waited for a place in a full queue: such an item was never queued, and its registration may remain.
\<close>

theorem registered_commands_are_queued:
  assumes "proper_run es (new_commander states)"
  shows "let h = snd (command_run es (new_commander states)); on_queue = set (command_queue h) \<union> set (put_waiting h);
      put_cancelled = (\<lambda>i. CancelPut i \<in> snd ` set es) in
    (case map_of (pending_sets h) k of None \<Rightarrow> True
     | Some i \<Rightarrow> it_group (items h i) = Some k \<and> (i \<in> on_queue \<or> worker h = Coalescing i \<or> put_cancelled i)) \<and>
    (case map_of (queued_get_keys h) k of None \<Rightarrow> True
     | Some i \<Rightarrow> get_key (it_command (items h i)) (it_address (items h i)) = Some k \<and> (i \<in> on_queue \<or> put_cancelled i))"
proof -
  define h where "h = snd (command_run es (new_commander states))"
  define C where "C = {i. CancelPut i \<in> snd ` set es}"
  have "registered_ok C (new_commander states)" by (rule nothing_registered) (simp_all add: new_commander_def)
  then have "registered_ok C h" unfolding h_def using assms by (rule run_ok) (simp add: C_def)
  then have r: "sets_ok C None h" "gets_ok C None h" by (simp_all add: registered_ok_def)
  have "it_group (items h i) = Some k \<and> (live C h i \<or> worker h = Coalescing i)" if "map_of (pending_sets h) k = Some i" for i
    using r(1) map_of_SomeD [OF that] unfolding sets_ok_def by blast
  moreover have "item_key h i = Some k \<and> live C h i" if "map_of (queued_get_keys h) k = Some i" for i
    using r(2) map_of_SomeD [OF that] unfolding gets_ok_def by blast
  ultimately show ?thesis unfolding h_def [symmetric] Let_def
    by (simp add: live_def item_key_def C_def disj_ac split: option.splits)
qed

theorem registered_commands_are_queued_witness:
  "let es = [(0, Start), (1, SetOutput ''C9A5'' 1 255 None None), (1, GetState ''C9A5'' 1), (1, SetOutput ''C9A5'' 2 255 None None)];
      h = snd (command_run es (new_commander [])); on_queue = set (command_queue h) \<union> set (put_waiting h);
      put_cancelled = (\<lambda>i. CancelPut i \<in> snd ` set es) in
    (case map_of (pending_sets h) (''C9A5'', 1) of None \<Rightarrow> True
     | Some i \<Rightarrow> it_group (items h i) = Some (''C9A5'', 1) \<and> (i \<in> on_queue \<or> worker h = Coalescing i \<or> put_cancelled i)) \<and>
    (case map_of (queued_get_keys h) (''C9A5'', 1) of None \<Rightarrow> True
     | Some i \<Rightarrow> get_key (it_command (items h i)) (it_address (items h i)) = Some (''C9A5'', 1) \<and> (i \<in> on_queue \<or> put_cancelled i))"
  using registered_commands_are_queued [of "[(0, Start), (1, SetOutput ''C9A5'' 1 255 None None), (1, GetState ''C9A5'' 1),
    (1, SetOutput ''C9A5'' 2 255 None None)]" "[]" "(''C9A5'', 1)"]
  by (simp only: Let_def proper_run.simps) (simp add: new_commander_def)

text \<open>
  The exception is real: with the queue full, a write that registers itself and is then cancelled in its
  \<open>put\<close> stays the pending write of its group; a later write of the group joins it, is told so, and is
  never queued.
\<close>

definition full_queue :: commander where
  "full_queue = (new_commander [])\<lparr>command_queue := replicate 100 0, next_item := 1\<rparr>"

lemma cancelled_write_stays_registered:
  "let (o1, h) = command_run [(0, SetOutput ''C9A5'' 1 255 None None), (0, CancelPut 1), (1, SetOutput ''C9A5'' 2 255 None None)] full_queue
   in o1 = [Returned 1] \<and> futures h 1 = Waiting \<and> map_of (pending_sets h) (''C9A5'', 1) = Some 1 \<and>
      1 \<notin> set (command_queue h) \<and> put_waiting h = []"
  by (simp add: full_queue_def new_commander_def set_output_state_def set_bytearray_state_def upper_def Let_def
    calculate_group_number_def new_future_def put_item_def COMMAND_QUEUE_SIZE_def cancel_put_def join_set_def
    derived_future_def no_item_def opt_list_def)

subsection \<open>Writes of one group share a frame\<close>

lemma command_run_append:
  "command_run (es @ es') h = (let (o1, h1) = command_run es h; (o2, h2) = command_run es' h1 in (o1 @ o2, h2))"
  by (induction es arbitrary: h) (auto simp: split_def Let_def)

definition collect :: "(int \<times> int) list \<Rightarrow> (int \<times> int) list" where
  \<comment> \<open>the channels an item carries after a sequence of requests\<close>
  "collect ws = fold (\<lambda>(c, v). AList.update c v) ws []"

lemma collect_snoc [simp]: "collect (ws @ [(c, v)]) = AList.update c v (collect ws)"
  and collect_Nil [simp]: "collect [] = []"
  by (simp_all add: collect_def)

lemma map_of_collect: "map_of (collect ws) = map_of (rev ws)"
proof (induction ws rule: rev_induct)
  case (snoc w ws)
  then show ?case by (cases w) (simp add: update_conv')
qed simp

lemma distinct_collect: "distinct (map fst (collect ws))"
  by (induction ws rule: rev_induct) (auto simp: distinct_update)

lemma collect_valid: "list_all valid_write ws \<Longrightarrow> list_all valid_write (collect ws)"
proof (induction ws rule: rev_induct)
  case (snoc w ws)
  then show ?case by (cases w) (auto simp: list_all_iff dest!: update_in)
qed simp

lemma map_of_rev_distinct: "distinct (map fst xs) \<Longrightarrow> map_of (rev xs) = map_of xs"
  by (metis distinct_rev map_of_inject_set rev_map set_rev)

lemma collect_again:
  assumes "length buf = 12"
  shows "fold write_byte (collect ws) (fold write_byte ws buf) = fold write_byte ws buf"
proof (rule nth_equalityI)
  fix i assume i: "i < length (fold write_byte (collect ws) (fold write_byte ws buf))"
  define c where "c = int i + 1"
  have c: "1 \<le> c" "c \<le> 12" "nat (c - 1) = i" using i assms by (simp_all add: c_def)
  have "map_of (rev (collect ws)) = map_of (rev ws)"
    by (simp only: map_of_rev_distinct [OF distinct_collect] map_of_collect)
  then show "fold write_byte (collect ws) (fold write_byte ws buf) ! i = fold write_byte ws buf ! i"
    using fold_write_nth [of "fold write_byte ws buf" c "collect ws"] fold_write_nth [OF assms c(1,2), of ws] assms c
    by (simp split: option.splits)
qed (simp add: assms)

definition gathered :: "group_key \<Rightarrow> (int \<times> int) list \<Rightarrow> byte list \<Rightarrow> nat \<Rightarrow> nat \<Rightarrow> nat list \<Rightarrow> commander \<Rightarrow> bool" where
  \<comment> \<open>one item \<open>i\<close> with future \<open>f\<close> in the queue for the requests \<open>ws\<close>, whose callers hold \<open>owns\<close>\<close>
  "gathered k ws buf i f owns h \<longleftrightarrow> worker h = Idle \<and> command_queue h = [i] \<and> map_of (pending_sets h) k = Some i \<and>
     items h i = no_item\<lparr>it_command := ''<set '' @ fst k @ '' group '' @ fmt_dec 0 (snd k) @ ''>'', it_address := Some (fst k),
       it_future := Some f, it_group := Some k, it_channels := collect ws\<rparr> \<and>
     buf_of (module_states h) (fst k) = fold write_byte ws buf \<and>
     f < next_future h \<and> futures h f = Waiting \<and>
     (\<forall>own \<in> set owns. own < next_future h \<and> futures h own = Waiting \<and> (own, f) \<in> set (follows h))"

lemma first_write:
  assumes "worker h = Idle" "command_queue h = []" "map_of (pending_sets h) (a, g) = None" "upper a = a"
    and "length (buf_of (module_states h) a) = 12" "valid_write (c, v)" "calculate_group_number c = g"
  shows "\<exists>own i f h'. set_output_state a c v None None h = ([Returned own], h') \<and>
    gathered (a, g) [(c, v)] (buf_of (module_states h) a) i f [own] h' \<and> group_known_at h' = group_known_at h"
proof -
  obtain bufs where b: "set_bytearray_state a c v (module_states h) = (Inr (), bufs)"
    "buf_of bufs a = write_byte (c, v) (buf_of (module_states h) a)"
    using set_bytearray_ok [OF assms(5,6)] by blast
  show ?thesis using assms b
    by (intro exI [of _ "Suc (next_future h)"] exI [of _ "next_item h"] exI [of _ "next_future h"])
      (simp add: set_output_state_def Let_def new_future_def derived_future_def put_item_def COMMAND_QUEUE_SIZE_def
        opt_list_def gathered_def collect_def update_conv' no_item_def)
qed

lemma further_write:
  assumes "gathered (a, g) ws buf i f owns h" "upper a = a" "length buf = 12" "valid_write (c, v)" "calculate_group_number c = g"
  shows "\<exists>own h'. set_output_state a c v None None h = ([Returned own], h') \<and>
    gathered (a, g) (ws @ [(c, v)]) buf i f (owns @ [own]) h' \<and> group_known_at h' = group_known_at h"
proof -
  have l: "length (buf_of (module_states h) a) = 12" using assms(1,3) by (simp add: gathered_def)
  obtain bufs where b: "set_bytearray_state a c v (module_states h) = (Inr (), bufs)"
    "buf_of bufs a = write_byte (c, v) (buf_of (module_states h) a)"
    using set_bytearray_ok [OF l assms(4)] by blast
  show ?thesis using assms b
    by (auto simp: set_output_state_def Let_def new_future_def derived_future_def join_set_def opt_list_def gathered_def no_item_def)
qed

lemma gather_writes:
  assumes "worker h = Idle" "command_queue h = []" "map_of (pending_sets h) (a, g) = None" "upper a = a"
    and "length (buf_of (module_states h) a) = 12"
  shows "ws \<noteq> [] \<Longrightarrow> \<forall>(c, v) \<in> set ws. valid_write (c, v) \<and> calculate_group_number c = g \<Longrightarrow>
    \<exists>owns i f h'. command_run (map (\<lambda>(c, v). (now, SetOutput a c v None None)) ws) h = (map Returned owns, h') \<and>
      length owns = length ws \<and> gathered (a, g) ws (buf_of (module_states h) a) i f owns h' \<and> group_known_at h' = group_known_at h"
proof (induction ws rule: rev_induct)
  case (snoc w ws)
  obtain c v where w: "w = (c, v)" by force
  show ?case
  proof (cases "ws = []")
    case True
    then obtain own i f h' where "set_output_state a c v None None h = ([Returned own], h')"
      "gathered (a, g) [(c, v)] (buf_of (module_states h) a) i f [own] h'" "group_known_at h' = group_known_at h"
      using first_write [OF assms, of c v] snoc.prems w by auto
    then show ?thesis using True w by (intro exI [of _ "[own]"]) auto
  next
    case False
    obtain owns i f h' where h': "command_run (map (\<lambda>(c, v). (now, SetOutput a c v None None)) ws) h = (map Returned owns, h')"
      "length owns = length ws" "gathered (a, g) ws (buf_of (module_states h) a) i f owns h'" "group_known_at h' = group_known_at h"
      using snoc.IH [OF False] snoc.prems(2) by auto
    obtain own h'' where "set_output_state a c v None None h' = ([Returned own], h'')"
      "gathered (a, g) (ws @ [(c, v)]) (buf_of (module_states h) a) i f (owns @ [own]) h''" "group_known_at h'' = group_known_at h'"
      using further_write [OF h'(3) assms(4,5), of c v] snoc.prems(2) w by auto
    then show ?thesis using h' w by (intro exI [of _ "owns @ [own]"]) (auto simp: command_run_append)
  qed
qed simp

lemma set_text_no_read: "get_key (''<set '' @ s) a = None"
  by (cases "slice 3 5 (''<set '' @ s)") (simp_all add: get_key_def gid_of_def slice_def query_group_of_def)

lemma write_frame_no_read:
  assumes "p \<noteq> []" "hd p = 0x15 \<or> hd p = 0x16"
  shows "get_key (frame_text p) a = None"
proof -
  obtain q where p: "p = hd p # q" using assms(1) by (cases p) auto
  have "byte_hex 0x15 = ''15''" "byte_hex 0x16 = ''16''" by (simp_all add: byte_hex_def)
  moreover have "gid_of (frame_text p) = byte_hex (hd p)"
    by (subst (1 2) p) (simp add: gid_of_def frame_text_split slice_def numeral_3_eq_3)
  ultimately show ?thesis using assms(2) by (auto simp: get_key_def query_group_of_def)
qed

lemma settle_followers:
  assumes "futures h f = Waiting" "(own, f) \<in> set (follows h)" "futures h own = Waiting"
  shows "futures (settle f s h) own = s"
  using assms by (simp add: settle_def future_done_def)

lemma gathered_frame:
  assumes "gathered (a, g) ws buf i f owns h" "upper a = a" "py_int16 a = Some (int n)" "n < 65536"
    and "g = 1 \<or> g = 2" "length buf = 12" "list_all valid_write ws"
    and "map_of (group_known_at h) (a, g) = Some t0" "now - t0 \<le> SET_READ_BEFORE_WRITE_S"
  defines "frame \<equiv> frame_text (command_bytes (if g = 1 then 0x15 else 0x16) n
    (Some (slice (group_start g) (group_start g + 6) (fold write_byte ws buf) @ [0xFF])))"
  shows "\<exists>h'. command_run [(t, TakeItem), (now, CoalesceOver)] h = ([Exchange frame a MAX_ATTEMPTS], h') \<and>
    worker h' = Sending i \<and> it_future (items h' i) = Some f \<and> it_address (items h' i) = Some a \<and>
    it_group (items h' i) = Some (a, g) \<and> it_command (items h' i) = frame \<and> it_completion (items h' i) = None \<and>
    it_completions (items h' i) = [] \<and> futures h' = futures h \<and> follows h' = follows h"
proof -
  note gd = assms(1) [unfolded gathered_def fst_conv snd_conv]
  define h1 where "h1 = h\<lparr>command_queue := [], worker := Coalescing i\<rparr>"
  define h2 where "h2 = (release_set i h1)\<lparr>writing_sets := AList.update (a, g) (it_channels (items (release_set i h1) i)) (writing_sets (release_set i h1))\<rparr>"
  have take: "take_item h = ([], h1)"
    using gd by (simp add: take_item_def skippable_def future_done_def Let_def h1_def no_item_def)
  obtain c0 cs where a: "a = c0 # cs" using assms(3) by (cases a) (simp_all add: py_int16_def py_strip_def split_sign_def drop_radix_def)
  obtain bufs where w: "apply_writes a (collect ws) (module_states h) = (Inr (), bufs)" "buf_of bufs a = fold write_byte ws buf"
    using apply_writes_ok [of "module_states h" a "collect ws"] gd assms(6) collect_valid [OF assms(7)] collect_again [OF assms(6)] by auto
  have img: "take 6 (get_bytearray_group_state a g bufs) = slice (group_start g) (group_start g + 6) (fold write_byte ws buf)"
    using w(2) by (simp add: get_bytearray_group_state_def buf_of_def Let_def slice_def)
  have "length (slice (group_start g) (group_start g + 6) (fold write_byte ws buf)) \<le> 6" by simp
  then have fr: "build_set_group_command a g bufs = Inr frame"
    unfolding build_set_group_command_def img frame_def using assms(3,4)
    by (intro command_frame) (simp_all add: command_bytes_def)
  have key: "get_key frame (Some a) = None"
    unfolding frame_def by (rule write_frame_no_read) (simp_all add: command_bytes_def)
  have recent: "group_state_age now a g h2 = Some (now - t0)"
    using assms(2,8) by (simp add: group_state_age_def h2_def h1_def)
  have h2: "items h2 i = items h i" "module_states h2 = module_states h" "futures h2 = futures h" "follows h2 = follows h"
    by (simp_all add: h2_def h1_def)
  have "coalesce_over now h1 = build_frame i a g h2"
  proof -
    have i: "worker h1 = Coalescing i" "it_group (items h1 i) = Some (a, g)" using gd by (simp_all add: h1_def no_item_def)
    show ?thesis unfolding coalesce_over_def i phase.case option.case prod.case Let_def h2_def [symmetric] recent
      using assms(9) by simp
  qed
  moreover have "build_frame i a g h2 = begin_exchange i (h2\<lparr>module_states := bufs, items := (items h2)(i := (items h2 i)\<lparr>it_command := frame\<rparr>)\<rparr>)"
    using gd w(1) fr h2 by (simp add: build_frame_def no_item_def Let_def)
  ultimately show ?thesis using key gd h2
    by (simp add: take begin_exchange_def Let_def no_item_def a split: option.splits)
qed

lemma send_done_writes:
  assumes "worker h = Sending i" "it_future (items h i) = Some f" "it_address (items h i) = Some (c # a)"
    "it_group (items h i) = Some k" "get_key (it_command (items h i)) (Some (c # a)) = None"
    "it_completion (items h i) = None" "it_completions (items h i) = []"
    "futures h f = Waiting" "\<forall>own \<in> set owns. futures h own = Waiting \<and> (own, f) \<in> set (follows h)"
  shows "\<exists>h'. step now (SendDone (Inr r)) h = ([], h') \<and> map_of (group_known_at h') k = Some now \<and>
    (\<forall>own \<in> set owns. futures h' own = Result r)"
  using assms by (simp add: send_done_def Let_def opt_list_def settle_opt_def settle_followers item_done_def update_conv')

text \<open>
  C20. Requests for outputs of one module group that arrive together become one frame: with an idle worker, an
  empty queue and a state of the group known for less than three seconds, the requests queue one item;
  when its window is over exactly one exchange is started, for the group write whose six bytes are the
  buffer with all the requests applied in their order; and when its answer comes every caller has
  it and the group's state counts as known from then on.
\<close>

theorem coalesced_writes_one_frame:
  fixes g :: int
  assumes "worker h = Idle" "command_queue h = []" "map_of (pending_sets h) (a, g) = None"
    and "upper a = a" "py_int16 a = Some (int n)" "n < 65536" "length (buf_of (module_states h) a) = 12"
    and "map_of (group_known_at h) (a, g) = Some known" "closing - known \<le> 3" "g = 1 \<or> g = 2"
    and "ws \<noteq> []" "\<forall>(c, v) \<in> set ws. calculate_group_number c = g \<and> 0 \<le> v \<and> v \<le> 255"
  shows "\<exists>owns h1 h2 h3. length owns = length ws \<and>
    command_run (map (\<lambda>(c, v). (t, SetOutput a c v None None)) ws) h = (map Returned owns, h1) \<and>
    command_run [(t, TakeItem), (closing, CoalesceOver)] h1 =
      ([Exchange (frame_text (command_bytes (if g = 1 then 0x15 else 0x16) n
          (Some (slice (group_start g) (group_start g + 6) (fold write_byte ws (buf_of (module_states h) a)) @ [0xFF])))) a 3], h2) \<and>
    step answered (SendDone (Inr r)) h2 = ([], h3) \<and>
    (\<forall>own \<in> set owns. futures h3 own = Result r) \<and> group_state_age answered a g h3 = Some 0"
proof -
  have v: "\<forall>(c, v) \<in> set ws. valid_write (c, v) \<and> calculate_group_number c = g" "list_all valid_write ws"
    using assms(12) by (auto simp: valid_write_def list_all_iff)
  obtain owns i f h1 where h1: "command_run (map (\<lambda>(c, v). (t, SetOutput a c v None None)) ws) h = (map Returned owns, h1)"
    "length owns = length ws" "gathered (a, g) ws (buf_of (module_states h) a) i f owns h1" "group_known_at h1 = group_known_at h"
    using gather_writes [OF assms(1-4,7,11) v(1)] by blast
  let ?frame = "frame_text (command_bytes (if g = 1 then 0x15 else 0x16) n
    (Some (slice (group_start g) (group_start g + 6) (fold write_byte ws (buf_of (module_states h) a)) @ [0xFF])))"
  obtain h2 where h2: "command_run [(t, TakeItem), (closing, CoalesceOver)] h1 = ([Exchange ?frame a MAX_ATTEMPTS], h2)"
    "worker h2 = Sending i" "it_future (items h2 i) = Some f" "it_address (items h2 i) = Some a" "it_group (items h2 i) = Some (a, g)"
    "it_command (items h2 i) = ?frame" "it_completion (items h2 i) = None" "it_completions (items h2 i) = []"
    "futures h2 = futures h1" "follows h2 = follows h1"
    using gathered_frame [OF h1(3) assms(4-6,10,7) v(2), of known closing t] h1(4) assms(8,9) by (auto simp: SET_READ_BEFORE_WRITE_S_def)
  obtain c0 cs where a: "a = c0 # cs" using assms(5) by (cases a) (simp_all add: py_int16_def py_strip_def split_sign_def drop_radix_def)
  have "get_key ?frame (Some a) = None" by (rule write_frame_no_read) (simp_all add: command_bytes_def)
  then obtain h3 where "step answered (SendDone (Inr r)) h2 = ([], h3)" "map_of (group_known_at h3) (a, g) = Some answered"
    "\<forall>own \<in> set owns. futures h3 own = Result r"
    using send_done_writes [of h2 i f c0 cs "(a, g)" owns answered r] h2 h1(3) a by (auto simp: gathered_def)
  then show ?thesis using h1(1,2) h2(1) assms(4) by (auto simp: MAX_ATTEMPTS_def group_state_age_def)
qed

theorem coalesced_writes_one_frame_witness:
  "\<exists>owns h1 h2 h3. length owns = length [(1 :: int, 255 :: int), (3, 0), (1, 0)] \<and>
    command_run (map (\<lambda>(c, v). (5, SetOutput ''C9A5'' c v None None)) [(1, 255), (3, 0), (1, 0)])
      ((new_commander [(''C9A5'', replicate 12 7)])\<lparr>worker := Idle, group_known_at := [((''C9A5'', 1), 4)]\<rparr>) = (map Returned owns, h1) \<and>
    command_run [(5, TakeItem), (6, CoalesceOver)] h1 =
      ([Exchange (frame_text (command_bytes 0x15 0xC9A5 (Some [0, 7, 0, 7, 7, 7, 0xFF]))) ''C9A5'' 3], h2) \<and>
    step 7 (SendDone (Inr [])) h2 = ([], h3) \<and>
    (\<forall>own \<in> set owns. futures h3 own = Result []) \<and> group_state_age 7 ''C9A5'' 1 h3 = Some 0"
proof -
  have n: "py_int16 ''C9A5'' = Some (int 0xC9A5)" by (simp add: eval_simps)
  have b: "slice (group_start 1) (group_start 1 + 6) (fold write_byte [(1, 255), (3, 0), (1, 0)] (replicate 12 7)) @ [0xFF] =
      [0, 7, 0, 7, 7, 7, 0xFF]"
    by (simp add: write_byte_def group_start_def slice_def eval_nat_numeral)
  show ?thesis
    using coalesced_writes_one_frame [where a = "''C9A5''" and g = 1 and n = "0xC9A5" and known = 4 and closing = 6
      and ws = "[(1, 255), (3, 0), (1, 0)]" and t = 5 and answered = 7 and r = "[]"
      and h = "(new_commander [(''C9A5'', replicate 12 7)])\<lparr>worker := Idle, group_known_at := [((''C9A5'', 1), 4)]\<rparr>", OF _ _ _ _ n]
    using b by (simp add: new_commander_def buf_of_def upper_def calculate_group_number_def)
qed

subsection \<open>Reads of one group share an exchange\<close>

lemma settle_value:
  "futures (settle f s h) x = (if futures h f = Waiting \<and> futures h x = Waiting \<and> (x = f \<or> (x, f) \<in> set (follows h))
     then s else futures h x)"
  by (auto simp: settle_def future_done_def)

lemma fold_settle_value:
  "\<forall>x \<in> set fs. futures h x \<in> {Waiting, s} \<Longrightarrow> \<forall>x \<in> set fs. futures (fold (\<lambda>f. settle f s) fs h) x = s"
proof (induction fs arbitrary: h)
  case (Cons f fs)
  have keep: "futures (fold (\<lambda>f. settle f s) gs h') f = s" if "futures h' f = s" "s \<noteq> Waiting" for gs h'
    using that by (induction gs arbitrary: h') (auto simp: settle_value)
  have "futures (settle f s h) x \<in> {Waiting, s}" if "x \<in> set fs" for x
    using Cons.prems that by (auto simp: settle_value)
  moreover have "futures (settle f s h) f = s" using Cons.prems by (auto simp: settle_value)
  moreover have "futures (fold (\<lambda>f. settle f s) fs (settle f s h)) f = s"
  proof (cases "s = Waiting")
    case True
    have "futures (fold (\<lambda>f. settle f Waiting) gs h') x = futures h' x" for gs h' x
      by (induction gs arbitrary: h') (auto simp: settle_value)
    then show ?thesis using True \<open>futures (settle f s h) f = s\<close> by simp
  qed (use keep \<open>futures (settle f s h) f = s\<close> in blast)
  ultimately show ?case using Cons.IH [of "settle f s h"] by simp
qed simp

definition gathered_reads :: "group_key \<Rightarrow> string \<Rightarrow> nat \<Rightarrow> nat list \<Rightarrow> commander \<Rightarrow> bool" where
  \<comment> \<open>one item \<open>i\<close> in the queue for the callers with the futures \<open>fs\<close>\<close>
  "gathered_reads k command i fs h \<longleftrightarrow> worker h = Idle \<and> command_queue h = [i] \<and>
     map_of (queued_get_keys h) k = Some i \<and> map_of (pending_gets h) k = Some fs \<and> fs \<noteq> [] \<and>
     items h i = no_item\<lparr>it_command := command, it_address := Some (fst k), it_future := Some (hd fs)\<rparr> \<and>
     (\<forall>f \<in> set fs. f < next_future h \<and> futures h f = Waiting)"

lemma state_query_key_of:
  assumes "g = 1 \<or> g = 2" "a \<noteq> []"
  shows "get_key (state_query n g) (Some a) = Some (upper a, g)"
  using assms by (cases a) (auto simp: get_key_def state_query_signals(2) query_group_of_def)

lemma query_command:
  fixes g :: int
  assumes "py_int16 a = Some (int n)" "n < 65536"
  shows "make_pc_link_command (if g = 1 then 0x12 else 0x17) a None = Inr (state_query n g)"
  unfolding state_query_def using assms by (intro command_frame) (simp_all add: command_bytes_def)

lemma address_nonempty: "py_int16 a = Some n \<Longrightarrow> a \<noteq> []"
  by (auto simp: py_int16_def py_strip_def split_sign_def drop_radix_def)

lemma command_run_snoc:
  "command_run es h = (o1, h1) \<Longrightarrow> step now e h1 = (o2, h2) \<Longrightarrow> command_run (es @ [(now, e)]) h = (o1 @ o2, h2)"
  by (simp add: command_run_append)

lemma gather_reads:
  assumes "worker h = Idle" "command_queue h = []" "map_of (queued_get_keys h) (a, g) = None"
    and "map_of (pending_gets h) (a, g) = None" "upper a = a" "py_int16 a = Some (int n)" "n < 65536" "g = 1 \<or> g = 2"
  shows "\<exists>fs i h'. command_run (replicate (Suc m) (now, GetState a g)) h = (map Returned fs, h') \<and> length fs = Suc m \<and>
    gathered_reads (a, g) (state_query n g) i fs h'"
proof (induction m)
  case 0
  note c = query_command [OF assms(6,7), of g] state_query_key_of [OF assms(8) address_nonempty [OF assms(6)], of n]
  have "get_output_state a g h = ([Returned (next_future h)], snd (get_output_state a g h)) \<and>
      gathered_reads (a, g) (state_query n g) (next_item h) [next_future h] (snd (get_output_state a g h))"
    using assms(1-5,8) c
    by (simp add: get_output_state_def new_future_def queue_command_def put_item_def COMMAND_QUEUE_SIZE_def Let_def
      gathered_reads_def update_conv' no_item_def)
  then show ?case
    by (intro exI [of _ "[next_future h]"] exI [of _ "next_item h"] exI [of _ "snd (get_output_state a g h)"]) simp
next
  case (Suc m)
  then obtain fs i h' where h': "command_run (replicate (Suc m) (now, GetState a g)) h = (map Returned fs, h')"
    "length fs = Suc m" "gathered_reads (a, g) (state_query n g) i fs h'" by blast
  note c = query_command [OF assms(6,7), of g] state_query_key_of [OF assms(8) address_nonempty [OF assms(6)], of n]
  have g: "get_output_state a g h' = ([Returned (next_future h')], snd (get_output_state a g h')) \<and>
      gathered_reads (a, g) (state_query n g) i (fs @ [next_future h']) (snd (get_output_state a g h'))"
    using h'(3) assms(5,8) c
    by (auto simp: get_output_state_def new_future_def queue_command_def put_item_def Let_def gathered_reads_def update_conv')
  have rep: "replicate (Suc (Suc m)) (now, GetState a g) = replicate (Suc m) (now, GetState a g) @ [(now, GetState a g)]"
    by (metis replicate_Suc replicate_append_same)
  obtain h'' where h'': "get_output_state a g h' = ([Returned (next_future h')], h'')" using g by metis
  have "command_run (replicate (Suc m) (now, GetState a g) @ [(now, GetState a g)]) h = (map Returned fs @ [Returned (next_future h')], h'')"
    by (rule command_run_snoc [OF h'(1)]) (simp only: step.simps h'')
  then have "command_run (replicate (Suc (Suc m)) (now, GetState a g)) h =
      (map Returned (fs @ [next_future h']), snd (get_output_state a g h'))"
    by (simp only: rep h'' snd_conv map_append list.map)
  then show ?case using h'(2) g by (intro exI [of _ "fs @ [next_future h']"]) auto
qed

lemma reads_exchanged:
  assumes "gathered_reads (a, g) (state_query n g) i fs h" "upper a = a" "a \<noteq> []" "g = 1 \<or> g = 2"
  shows "\<exists>h'. take_item h = ([Exchange (state_query n g) a MAX_ATTEMPTS], h') \<and> worker h' = Sending i \<and>
    items h' i = items h i \<and> futures h' = futures h \<and> pending_gets h' = pending_gets h \<and>
    map_of (queued_get_keys h') (a, g) = None"
proof -
  note gd = assms(1) [unfolded gathered_reads_def fst_conv]
  note k = state_query_key_of [OF assms(4,3), of n, unfolded assms(2)]
  obtain c cs where a: "a = c # cs" using assms(3) by (cases a) auto
  have "futures h (hd fs) = Waiting" using gd by (cases fs) auto
  then have "\<not> skippable i (h\<lparr>command_queue := []\<rparr>)"
    using gd by (simp add: skippable_def future_done_def no_item_def)
  moreover have "map_of (del_owned (queued_get_keys h) (a, g) i) (a, g) = None"
    using gd by (simp add: del_owned_def delete_conv')
  ultimately show ?thesis using gd k
    by (simp add: take_item_def begin_exchange_def Let_def no_item_def a release_get_key_def)
qed

lemma reads_answered:
  assumes "worker h = Sending i" "items h i = no_item\<lparr>it_command := state_query n g, it_address := Some a, it_future := Some (hd fs)\<rparr>"
    "map_of (pending_gets h) (a, g) = Some fs" "fs \<noteq> []" "\<forall>f \<in> set fs. futures h f = Waiting"
    "upper a = a" "a \<noteq> []" "g = 1 \<or> g = 2"
  shows "\<exists>h'. send_done now r h = ([], h') \<and> (\<forall>f \<in> set fs. futures h' f = (case r of Inl e \<Rightarrow> Failed e | Inr s \<Rightarrow> Result s))"
proof -
  note k = state_query_key_of [OF assms(8,7), of n, unfolded assms(6)]
  obtain c cs where a: "a = c # cs" using assms(7) by (cases a) auto
  define s where "s = (case r of Inl e \<Rightarrow> Failed e | Inr s \<Rightarrow> Result s)"
  have first: "\<forall>f \<in> set fs. futures (settle (hd fs) s h) f \<in> {Waiting, s}"
    using assms(4,5) by (auto simp: settle_value)
  have all: "\<forall>f \<in> set fs. futures (fold (\<lambda>f. settle f s) fs h') f = s" if "futures h' = futures (settle (hd fs) s h)" for h'
    using first that by (intro fold_settle_value) simp
  show ?thesis
  proof (cases r)
    case (Inl e)
    then have s: "s = Failed e" by (simp add: s_def)
    show ?thesis using assms(1-3,6) k all [of "settle (hd fs) s h"] unfolding s
      by (simp add: send_done_def Inl fail_item_def Let_def no_item_def settle_opt_def fail_pending_gets_def item_done_def)
  next
    case (Inr v)
    then have s: "s = Result v" by (simp add: s_def)
    show ?thesis using assms(1-3,6) k all [of "settle (hd fs) s h"]
        all [of "(settle (hd fs) s h)\<lparr>group_known_at := AList.update (a, g) now (group_known_at h)\<rparr>"] unfolding s
      by (simp add: send_done_def Inr Let_def no_item_def settle_opt_def resolve_pending_get_def item_done_def opt_list_def a)
  qed
qed

text \<open>
  C21. Any number of callers that read the same module group at once cause one exchange: with an idle worker
  and nothing queued, the first call queues the query and every further one is suppressed as its duplicate;
  the worker starts the one exchange; and its answer, or its failure, reaches every one of the callers.
\<close>

theorem duplicate_reads_share_exchange:
  fixes g :: int
  assumes "worker h = Idle" "command_queue h = []" "map_of (queued_get_keys h) (a, g) = None"
    and "map_of (pending_gets h) (a, g) = None" "upper a = a" "py_int16 a = Some (int n)" "n < 65536" "g = 1 \<or> g = 2"
  shows "\<exists>fs h1 h2 h3. length fs = Suc m \<and>
    command_run (replicate (Suc m) (now, GetState a g)) h = (map Returned fs, h1) \<and>
    command_run [(now, TakeItem)] h1 =
      ([Exchange (frame_text (command_bytes (if g = 1 then 0x12 else 0x17) n None)) a 3], h2) \<and> command_queue h1 \<noteq> [] \<and>
    command_run [(later, SendDone r)] h2 = ([], h3) \<and>
    (\<forall>f \<in> set fs. futures h3 f = (case r of Inl e \<Rightarrow> Failed e | Inr s \<Rightarrow> Result s))"
proof -
  obtain fs i h1 where h1: "command_run (replicate (Suc m) (now, GetState a g)) h = (map Returned fs, h1)" "length fs = Suc m"
    "gathered_reads (a, g) (state_query n g) i fs h1" using gather_reads [OF assms] by blast
  have ne: "a \<noteq> []" using address_nonempty assms(6) by blast
  obtain h2 where h2: "take_item h1 = ([Exchange (state_query n g) a MAX_ATTEMPTS], h2)" "worker h2 = Sending i"
    "items h2 i = items h1 i" "futures h2 = futures h1" "pending_gets h2 = pending_gets h1"
    using reads_exchanged [OF h1(3) assms(5) ne assms(8)] by blast
  obtain h3 where "send_done later r h2 = ([], h3)" "\<forall>f \<in> set fs. futures h3 f = (case r of Inl e \<Rightarrow> Failed e | Inr s \<Rightarrow> Result s)"
    using reads_answered [OF h2(2) _ _ _ _ assms(5) ne assms(8), where n = n and fs = fs and now = later and r = r] h2 h1(3) by (auto simp: gathered_reads_def)
  then show ?thesis using h1 h2(1) by (auto simp: MAX_ATTEMPTS_def state_query_def gathered_reads_def)
qed

theorem duplicate_reads_share_exchange_witness:
  "\<exists>fs h1 h2 h3. length fs = Suc 2 \<and>
    command_run (replicate (Suc 2) (0, GetState ''C9A5'' 2)) ((new_commander [])\<lparr>worker := Idle\<rparr>) = (map Returned fs, h1) \<and>
    command_run [(0, TakeItem)] h1 = ([Exchange (frame_text (command_bytes (if (2 :: int) = 1 then 0x12 else 0x17) 0xC9A5 None)) ''C9A5'' 3], h2) \<and>
    command_queue h1 \<noteq> [] \<and> command_run [(1, SendDone (Inl NikobusTimeoutError))] h2 = ([], h3) \<and>
    (\<forall>f \<in> set fs. futures h3 f = (case Inl NikobusTimeoutError of Inl e \<Rightarrow> Failed e | Inr s \<Rightarrow> Result s))"
  by (rule duplicate_reads_share_exchange) (simp_all add: new_commander_def upper_def eval_simps)

end
