(* ===== verification/Sim_Gateway.thy ===== *)
theory Sim_Gateway
  imports Complex_Main Sim_Encoding Exchange
begin

section \<open>The simulator: modules and the gateway\<close>

text \<open>
  \<open>module.py\<close> and \<open>gateway.py\<close> of the bus simulator: what a press does to a module, and what the
  gateway puts on the wire for every line of a host. The library and the simulator are two programs
  for the two ends of one wire; the theorems put them together.
\<close>

subsection \<open>Modules\<close>

definition FAMILY_BYTES :: "(string \<times> int) list" where
  "FAMILY_BYTES = [(''switch_module'', 0x10), (''roller_module'', 0x20), (''dimmer_module'', 0x30),
     (''audio_module'', 0x2B), (''pc_link'', 0x50), (''pc_logic'', 0x40), (''feedback_module'', 0xA0)]"

definition STATE_ON :: byte where "STATE_ON = 0xFF"
definition STATE_OFF :: byte where "STATE_OFF = 0x00"
definition STATE_OPEN :: byte where "STATE_OPEN = 0x01"
definition STATE_CLOSE :: byte where "STATE_CLOSE = 0x02"
definition STATE_STOP :: byte where "STATE_STOP = 0x00"

definition SWITCH_TOGGLE_MODES :: "int list" where "SWITCH_TOGGLE_MODES = [0, 4, 11]"
definition SWITCH_OFF_MODES :: "int list" where "SWITCH_OFF_MODES = [2]"
definition ROLLER_OPEN_MODES :: "int list" where "ROLLER_OPEN_MODES = [1, 5]"
definition ROLLER_CLOSE_MODES :: "int list" where "ROLLER_CLOSE_MODES = [2, 6]"
definition ROLLER_STOP_MODES :: "int list" where "ROLLER_STOP_MODES = [3]"
definition ROLLER_CYCLE_MODE :: int where "ROLLER_CYCLE_MODE = 0"
definition ROLLER_CYCLE :: "byte list" where "ROLLER_CYCLE = [STATE_OPEN, STATE_STOP, STATE_CLOSE]"

record sim_module =
  sm_spec :: module_spec
  sm_memory :: memory
  sm_register_hex :: nat
  sm_outputs :: "byte list"
  sm_roller_step :: "(nat \<times> int) list"

definition new_module :: "module_spec \<Rightarrow> sim_module res" where
  "new_module spec = res_bind (encode_module spec) (\<lambda>memory.
     Inr \<lparr>sm_spec = spec, sm_memory = memory, sm_register_hex = register_width (sp_type spec),
          sm_outputs = replicate 12 0, sm_roller_step = []\<rparr>)"

definition family_byte :: "sim_module \<Rightarrow> int" where
  "family_byte m = (case map_of FAMILY_BYTES (sp_type (sm_spec m)) of None \<Rightarrow> 0 | Some b \<Rightarrow> b)"

definition status_payload :: "sim_module \<Rightarrow> string" where
  "status_payload m = module_status_payload (sm_spec m) (family_byte m)"

definition read_register :: "sim_module \<Rightarrow> string \<Rightarrow> int \<Rightarrow> string" where
  "read_register m sub register =
     (case map_of (case map_of (sm_memory m) (upper sub) of None \<Rightarrow> [] | Some regs \<Rightarrow> regs) register of
        None \<Rightarrow> replicate (sm_register_hex m) CHR ''F''
      | Some digits \<Rightarrow> digits)"

definition sim_group_start :: "int \<Rightarrow> nat" where
  "sim_group_start g = (if g = 1 then 0 else 6)"

definition group_state :: "sim_module \<Rightarrow> int \<Rightarrow> string" where
  "group_state m g = (let start = sim_group_start g in hex_of (slice start (start + 6) (sm_outputs m)))"

definition set_group :: "int \<Rightarrow> byte list \<Rightarrow> sim_module \<Rightarrow> sim_module" where
  \<comment> \<open>a slice assignment\<close>
  "set_group g values m = (let start = sim_group_start g in
     m\<lparr>sm_outputs := take start (sm_outputs m) @ take 6 values @ drop (start + 6) (sm_outputs m)\<rparr>)"

definition next_output :: "int \<Rightarrow> nat \<Rightarrow> sim_module \<Rightarrow> byte \<times> sim_module" where
  "next_output mode index m =
     (let current = sm_outputs m ! index in
      if sp_type (sm_spec m) = ''roller_module'' then
        if mode \<in> set ROLLER_OPEN_MODES then (STATE_OPEN, m)
        else if mode \<in> set ROLLER_CLOSE_MODES then (STATE_CLOSE, m)
        else if mode \<in> set ROLLER_STOP_MODES then (STATE_STOP, m)
        else if mode = ROLLER_CYCLE_MODE then
          (let step = ((case map_of (sm_roller_step m) index of None \<Rightarrow> -1 | Some s \<Rightarrow> s) + 1) mod int (length ROLLER_CYCLE)
           in (ROLLER_CYCLE ! nat step, m\<lparr>sm_roller_step := AList.update index step (sm_roller_step m)\<rparr>))
        else (STATE_OPEN, m)
      else if mode \<in> set SWITCH_TOGGLE_MODES then (if current \<noteq> 0 then STATE_OFF else STATE_ON, m)
      else if mode \<in> set SWITCH_OFF_MODES then (STATE_OFF, m)
      else (STATE_ON, m))"

fun press_links :: "string \<Rightarrow> link list \<Rightarrow> sim_module \<Rightarrow> bool \<times> sim_module" where
  "press_links bus [] m = (False, m)"
| "press_links bus (l # ls) m =
     (if upper (lk_button l) \<noteq> upper bus then press_links bus ls m
      else let index = lk_channel l - 1 in
        if \<not> (0 \<le> index \<and> index < int (length (sm_outputs m))) then press_links bus ls m
        else let (b, m) = next_output (lk_mode l) (nat index) m;
                 m = m\<lparr>sm_outputs := (sm_outputs m)[nat index := b]\<rparr>
             in (True, snd (press_links bus ls m)))"

definition apply_press :: "string \<Rightarrow> sim_module \<Rightarrow> bool \<times> sim_module" where
  "apply_press bus m = press_links bus (sp_links (sm_spec m)) m"

subsection \<open>The gateway\<close>

definition INTERFACE_PREFIXES :: "string list" where
  "INTERFACE_PREFIXES = [''++++'', ''ATH0'', ''ATZ'', ''#L'', ''#E'']"
definition FUNC_STATUS :: string where "FUNC_STATUS = ''11''"
definition GET_OUTPUT_GROUPS :: "(string \<times> int) list" where "GET_OUTPUT_GROUPS = [(''12'', 1), (''17'', 2)]"
definition SET_OUTPUT_GROUPS :: "(string \<times> int) list" where "SET_OUTPUT_GROUPS = [(''15'', 1), (''16'', 2)]"
definition READ_FUNCTIONS :: "string list" where "READ_FUNCTIONS = [''10'', ''22'']"
definition MODULE_FUNCTIONS :: "string list" where
  "MODULE_FUNCTIONS = FUNC_STATUS # map fst GET_OUTPUT_GROUPS @ map fst SET_OUTPUT_GROUPS @ READ_FUNCTIONS"
definition PRESS_DEBOUNCE :: rat where "PRESS_DEBOUNCE = 3 / 10"

definition sim_frame :: "string \<Rightarrow> string res" where
  "sim_frame payload_hex = res_bind (calc_crc1 payload_hex) (\<lambda>crc.
     let body = ''$'' @ fmt_hex 2 (int (length payload_hex) + 10) @ payload_hex @ fmt_hex 4 crc
     in Inr (body @ fmt_hex 2 (calc_crc2 body)))"

definition short_frame :: "string \<Rightarrow> string" where
  "short_frame payload_hex = (let body = ''$'' @ fmt_hex 2 (int (length payload_hex) + 6) @ payload_hex
     in body @ fmt_hex 2 (calc_crc2 body))"

definition sim_wire_address :: "string \<Rightarrow> string" where
  "sim_wire_address addr = upper (drop 2 addr @ take 2 addr)"

record gateway =
  gw_installation :: installation
  gw_modules :: "(string \<times> sim_module) list"
  gw_pending_acks :: "string list"
  gw_debounce :: rat
  gw_last_press :: "(string \<times> rat) list"

fun new_modules :: "module_spec list \<Rightarrow> (string \<times> sim_module) list \<Rightarrow> (string \<times> sim_module) list res" where
  "new_modules [] ms = Inr ms"
| "new_modules (s # ss) ms = res_bind (new_module s) (\<lambda>m. new_modules ss (AList.update (sp_address s) m ms))"

definition new_gateway :: "installation \<Rightarrow> rat \<Rightarrow> gateway res" where
  "new_gateway inst debounce = res_bind (new_modules (in_modules inst) []) (\<lambda>ms.
     Inr \<lparr>gw_installation = inst, gw_modules = ms, gw_pending_acks = [], gw_debounce = debounce, gw_last_press = []\<rparr>)"

definition wire_key :: "string \<Rightarrow> string" where
  \<comment> \<open>the address a frame names, as the installation writes it\<close>
  "wire_key wire = upper (slice 2 4 wire @ slice 0 2 wire)"

definition flush :: "string list \<Rightarrow> gateway \<Rightarrow> string list \<times> gateway" where
  "flush replies gw = (gw_pending_acks gw @ filter (\<lambda>r. r \<noteq> []) replies, gw\<lparr>gw_pending_acks := []\<rparr>)"

definition answer :: "string \<Rightarrow> sim_module \<Rightarrow> string \<Rightarrow> string res \<times> sim_module" where
  "answer func m data =
     (let wire = take 4 data in
      if func = FUNC_STATUS then (sim_frame (wire @ status_payload m), m)
      else (case map_of GET_OUTPUT_GROUPS func of
          Some g \<Rightarrow> (sim_frame (wire @ ''00'' @ group_state m g), m)
        | None \<Rightarrow>
           (case map_of SET_OUTPUT_GROUPS func of
              Some g \<Rightarrow>
                (case bytes_fromhex (slice 4 16 data) of
                   None \<Rightarrow> (Inl ValueError, m)
                 | Some values \<Rightarrow> (Inr (short_frame (''FF'' @ wire @ ''00'')), set_group g values m))
            | None \<Rightarrow>
                (case py_int16 (slice 4 6 data) of
                   None \<Rightarrow> (Inl ValueError, m)
                 | Some register \<Rightarrow> (sim_frame (wire @ read_register m (slice 6 8 data) register), m)))))"

definition is_repeat :: "rat \<Rightarrow> string \<Rightarrow> gateway \<Rightarrow> bool \<times> gateway" where
  "is_repeat now addr gw =
     ((case map_of (gw_last_press gw) addr of None \<Rightarrow> False | Some t \<Rightarrow> now - t < gw_debounce gw),
      gw\<lparr>gw_last_press := AList.update addr now (gw_last_press gw)\<rparr>)"

definition identity :: "gateway \<Rightarrow> string res" where
  "identity gw = (let inst = gw_installation gw;
       family = (case map_of [(''pc_link'', 0x50), (''pc_logic'', 0x40)] (in_gateway_family inst) of
           None \<Rightarrow> 0x50 | Some b \<Rightarrow> b)
     in sim_frame (sim_wire_address (in_gateway_address inst) @ ''00'' @ fmt_hex 2 family @ ''0F3FFF''))"

definition press_all :: "string \<Rightarrow> gateway \<Rightarrow> gateway" where
  "press_all addr gw = gw\<lparr>gw_modules := map (\<lambda>(k, m). (k, snd (apply_press addr m))) (gw_modules gw)\<rparr>"

definition handle :: "rat \<Rightarrow> string \<Rightarrow> gateway \<Rightarrow> string list res \<times> gateway" where
  "handle now line0 gw =
     (let line = py_strip line0 in
      if line = [] then (Inr [], gw)
      else if list_ex (starts_with line) INTERFACE_PREFIXES then (Inr [], gw)
      else if starts_with line ''#A'' then
        (case identity gw of
           Inl e \<Rightarrow> (Inl e, gw)
         | Inr frame \<Rightarrow> let (out, gw) = flush [frame] gw in (Inr out, gw))
      else if starts_with line ''#N'' then
        (let addr = upper (slice 2 8 line); (repeated, gw) = is_repeat now addr gw
         in (Inr [], if repeated then gw else press_all addr gw))
      else if \<not> starts_with line ''$'' \<or> length line < 5 then (Inr [], gw)
      else
        let func = slice 3 5 line;
            payload = slice 5 (length line - 6) line;
            key = wire_key (take 4 payload);
            ack = ''$05'' @ func
        in if func \<in> set MODULE_FUNCTIONS then
             (case map_of (gw_modules gw) key of
                None \<Rightarrow> (Inr [], gw\<lparr>gw_pending_acks := gw_pending_acks gw @ [ack]\<rparr>)
              | Some m \<Rightarrow>
                  (let (r, m) = answer func m payload; gw = gw\<lparr>gw_modules := AList.update key m (gw_modules gw)\<rparr>
                   in case r of
                        Inl e \<Rightarrow> (Inl e, gw)
                      | Inr frame \<Rightarrow> let (out, gw) = flush [ack, frame] gw in (Inr out, gw)))
           else (Inr [], gw\<lparr>gw_pending_acks := gw_pending_acks gw @ [ack]\<rparr>))"

subsection \<open>One frame layout on both ends\<close>

lemma sim_frame_text:
  assumes "length p \<le> 122" shows "sim_frame (hex_of p) = Inr (frame_text p)"
proof -
  have "fmt_hex 2 (int (length (hex_of p)) + 10) = hexw 2 (2 * length p + 10)"
    using assms by (simp add: fmt_hex_nonneg nat_add_distrib nat_mult_distrib)
  moreover have "fmt_hex 4 (crc1_bytes p) = hexw 4 (nat (crc1_bytes p))" "fmt_hex 2 (calc_crc2 s) = hexw 2 (nat (calc_crc2 s))" for s
    using int_to_hex_crc1 int_to_hex_crc2 by (simp_all add: int_to_hex_def)
  ultimately show ?thesis by (simp add: sim_frame_def frame_text_def Let_def)
qed

lemma frame_not_space: "py_strip (frame_text p) = frame_text p"
proof -
  have d: "\<not> is_space CHR ''$''" by (simp add: is_space_def code_def)
  have h: "list_all is_hex (tl (frame_text p))" "frame_text p = CHR ''$'' # tl (frame_text p)"
    by (simp_all add: frame_text_split)
  have "\<forall>c \<in> set (frame_text p). \<not> is_space c"
    using h d by (metis hex_not_space list_all_iff set_ConsD)
  then have "dropWhile is_space s = s" if "set s = set (frame_text p)" for s
    using that by (cases s) auto
  then show ?thesis by (simp add: py_strip_def)
qed

lemma frame_parts:
  assumes "length p \<le> 122"
  shows "starts_with (frame_text p) ''$''" "5 \<le> length (frame_text (f # p))"
    "slice 3 5 (frame_text (f # p)) = byte_hex f" "slice 5 (length (frame_text (f # p)) - 6) (frame_text (f # p)) = hex_of p"
proof -
  show "starts_with (frame_text p) ''$''" by (simp add: frame_text_split)
  show "5 \<le> length (frame_text (f # p))" by simp
  obtain h c where f: "frame_text (f # p) = h @ byte_hex f @ hex_of p @ c" "length h = 3" "length c = 6"
  proof
    show "frame_text (f # p) = (''$'' @ hexw 2 (2 * length (f # p) + 10)) @ byte_hex f @ hex_of p @
        hexw 4 (nat (crc1_bytes (f # p))) @ hexw 2 (nat (calc_crc2 (''$'' @ hexw 2 (2 * length (f # p) + 10) @ hex_of (f # p) @
          hexw 4 (nat (crc1_bytes (f # p))))))"
      by (simp add: frame_text_split)
  qed simp_all
  show "slice 3 5 (frame_text (f # p)) = byte_hex f"
    unfolding f(1) using f(2) by (intro slice_mid) simp_all
  have "length (frame_text (f # p)) - 6 = 5 + length (hex_of p)" by simp
  then show "slice 5 (length (frame_text (f # p)) - 6) (frame_text (f # p)) = hex_of p"
    unfolding f(1) using slice_mid [of "h @ byte_hex f" 5 _ "hex_of p" c] f(2,3) by simp
qed

lemma handle_frame:
  assumes "length p \<le> 120" "byte_hex f \<in> set MODULE_FUNCTIONS" "map_of (gw_modules gw) (wire_key (take 4 (hex_of p))) = Some m"
  shows "handle now (frame_text (f # p)) gw =
    (let (r, m) = answer (byte_hex f) m (hex_of p);
         gw = gw\<lparr>gw_modules := AList.update (wire_key (take 4 (hex_of p))) m (gw_modules gw)\<rparr>
     in case r of Inl e \<Rightarrow> (Inl e, gw)
        | Inr frame \<Rightarrow> (Inr (gw_pending_acks gw @ filter (\<lambda>r. r \<noteq> []) [''$05'' @ byte_hex f, frame]), gw\<lparr>gw_pending_acks := []\<rparr>))"
proof -
  let ?f = "frame_text (f # p)"
  have s: "starts_with ?f ''$''" "\<not> starts_with ?f ''#A''" "\<not> starts_with ?f ''#N''" "?f \<noteq> []"
    "\<not> list_ex (starts_with ?f) INTERFACE_PREFIXES" "\<not> length ?f < 5"
    by (simp_all add: frame_text_split INTERFACE_PREFIXES_def)
  have q: "slice 3 5 ?f = byte_hex f" "slice 5 (length ?f - 6) ?f = hex_of p"
    using frame_parts(3,4) [of p f] assms(1) by simp_all
  show ?thesis unfolding handle_def Let_def frame_not_space q using s assms(2,3)
    by (simp add: flush_def split_def Let_def del: length_frame_text split: sum.splits)
qed

lemma wire_key_low_first: "wire_key (take 4 (hex_of (of_nat a # of_nat (a div 256) # bs))) = hexw 4 a"
proof -
  have "take 4 (hex_of (of_nat a # of_nat (a div 256) # bs)) = byte_hex (of_nat a) @ byte_hex (of_nat (a div 256))"
    by simp
  then show ?thesis by (simp add: wire_key_def slice_def byte_hex_append)
qed

lemma group_functions:
  "byte_hex 0x12 = ''12''" "byte_hex 0x17 = ''17''" "byte_hex 0x15 = ''15''" "byte_hex 0x16 = ''16''" "byte_hex 0x10 = ''10''"
  "{''12'', ''17'', ''15'', ''16'', ''10''} \<subseteq> set MODULE_FUNCTIONS"
  by (simp_all add: byte_hex_def MODULE_FUNCTIONS_def GET_OUTPUT_GROUPS_def SET_OUTPUT_GROUPS_def READ_FUNCTIONS_def)

lemma handle_state_query:
  fixes g :: int
  assumes "map_of (gw_modules gw) (hexw 4 a) = Some m" "length (sm_outputs m) = 12" "g = 1 \<or> g = 2"
  shows "\<exists>gw'. handle now (state_query a g) gw =
    (Inr (gw_pending_acks gw @ [''$05'' @ (if g = 1 then ''12'' else ''17''),
       state_answer a (0 # slice (sim_group_start g) (sim_group_start g + 6) (sm_outputs m))]), gw')"
proof -
  let ?p = "[of_nat a, of_nat (a div 256)] :: byte list"
  let ?f = "(if g = 1 then 0x12 else 0x17) :: byte"
  have q: "state_query a g = frame_text (?f # ?p)" by (simp add: state_query_def command_bytes_def)
  have k: "map_of (gw_modules gw) (wire_key (take 4 (hex_of ?p))) = Some m" using assms(1) by (simp only: wire_key_low_first)
  have f: "byte_hex ?f \<in> set MODULE_FUNCTIONS" using group_functions by auto
  let ?o = "slice (sim_group_start g) (sim_group_start g + 6) (sm_outputs m)"
  have "sim_frame (take 4 (hex_of ?p) @ ''00'' @ group_state m g) = Inr (state_answer a (0 # ?o))"
  proof -
    have "take 4 (hex_of ?p) @ ''00'' @ group_state m g = hex_of (of_nat a # of_nat (a div 256) # 0 # ?o)"
      by (simp add: group_state_def Let_def byte_hex_def [of 0])
    then show ?thesis by (simp only: state_answer_def) (rule sim_frame_text, simp)
  qed
  then have ans: "answer (byte_hex ?f) m (hex_of ?p) = (Inr (state_answer a (0 # ?o)), m)"
    using assms(3) group_functions(1,2)
    by (auto simp: answer_def Let_def FUNC_STATUS_def GET_OUTPUT_GROUPS_def)
  have ne: "state_answer a (0 # ?o) \<noteq> []" by (simp add: state_answer_def frame_text_split)
  have l: "length ?p \<le> 120" by simp
  show ?thesis unfolding q handle_frame [OF l f k] ans Let_def prod.case sum.case using ne group_functions(1,2) assms(3)
    by auto
qed

lemma handle_state_write:
  fixes g :: int
  assumes "map_of (gw_modules gw) (hexw 4 a) = Some m" "length bs = 6" "g = 1 \<or> g = 2"
  shows "\<exists>frames gw'. handle now (frame_text (command_bytes (if g = 1 then 0x15 else 0x16) a (Some (bs @ [0xFF])))) gw = (Inr frames, gw') \<and>
    map_of (gw_modules gw') (hexw 4 a) = Some (set_group g bs m) \<and> gw_pending_acks gw' = []"
proof -
  let ?p = "of_nat a # of_nat (a div 256) # bs @ [0xFF] :: byte list"
  let ?f = "(if g = 1 then 0x15 else 0x16) :: byte"
  have q: "command_bytes (if g = 1 then 0x15 else 0x16) a (Some (bs @ [0xFF])) = ?f # ?p" by (simp add: command_bytes_def)
  have k: "map_of (gw_modules gw) (wire_key (take 4 (hex_of ?p))) = Some m" using assms(1) by (simp only: wire_key_low_first)
  have f: "byte_hex ?f \<in> set MODULE_FUNCTIONS" using group_functions by auto
  have "slice 4 16 (hex_of ?p) = hex_of bs" 
  proof -
    have "hex_of ?p = (byte_hex (of_nat a) @ byte_hex (of_nat (a div 256))) @ hex_of bs @ hex_of [0xFF]" by simp
    then show ?thesis using assms(2) by (simp only:) (rule slice_mid, simp_all)
  qed
  then have "bytes_fromhex (slice 4 16 (hex_of ?p)) = Some bs" by simp
  then have ans: "answer (byte_hex ?f) m (hex_of ?p) = (Inr (short_frame (''FF'' @ take 4 (hex_of ?p) @ ''00'')), set_group g bs m)"
    using assms(3) group_functions(3,4)
    by (auto simp: answer_def Let_def FUNC_STATUS_def GET_OUTPUT_GROUPS_def SET_OUTPUT_GROUPS_def)
  have l: "length ?p \<le> 120" using assms(2) by simp
  show ?thesis unfolding q handle_frame [OF l f k] ans wire_key_low_first Let_def
    by (simp add: update_conv')
qed

lemma set_group_reads_back:
  assumes "length (sm_outputs m) = 12" "length bs = 6" "g = 1 \<or> g = 2"
  shows "length (sm_outputs (set_group g bs m)) = 12"
    "slice (sim_group_start g) (sim_group_start g + 6) (sm_outputs (set_group g bs m)) = bs"
  using assms by (auto simp: set_group_def Let_def sim_group_start_def slice_def)

lemma frames_in_map [simp]: "frames_in (map Frame fs) = fs" "Expire \<notin> set (map Frame fs)"
  by (induction fs) auto

text \<open>
  C27. A group write and a state read through the simulated bus, for a module whose address does not end in FF
  (its state answers would begin like the replies of the maintenance queries): the frame the library builds for six output
  bytes, handled by the gateway, sets the outputs of the module; and the library's exchange for a state query,
  fed by its listener with what the gateway answers, returns exactly the bytes written.
\<close>

theorem simulated_write_reads_back:
  fixes g :: int
  assumes "map_of (gw_modules gw) (hexw 4 a) = Some m" "length (sm_outputs m) = 12" "length bs = 6"
    and "g = 1 \<or> g = 2" "a < 65536" "a mod 256 \<noteq> 255" "0 < attempts"
  shows "\<exists>write query frames1 frames2 gw1 gw2.
    make_pc_link_command (if g = 1 then 0x15 else 0x16) (hexw 4 a) (Some (bs @ [0xFF])) = Inr write \<and>
    handle t write gw = (Inr frames1, gw1) \<and>
    make_pc_link_command (if g = 1 then 0x12 else 0x17) (hexw 4 a) None = Inr query \<and>
    handle t' query gw1 = (Inr frames2, gw2) \<and>
    fst (send_command_get_answer (\<lambda>_. None) query (hexw 4 a) attempts
      (map Frame frames2 @ replicate (length frames2) Wake) lst) = Inr (hex_of bs)"
proof -
  have n: "py_int16 (hexw 4 a) = Some (int a)" using assms(5) by simp
  have w: "make_pc_link_command (if g = 1 then 0x15 else 0x16) (hexw 4 a) (Some (bs @ [0xFF])) =
      Inr (frame_text (command_bytes (if g = 1 then 0x15 else 0x16) a (Some (bs @ [0xFF]))))"
    using assms(3,5) n by (intro command_frame) (simp_all add: command_bytes_def)
  have q: "make_pc_link_command (if g = 1 then 0x12 else 0x17) (hexw 4 a) None = Inr (state_query a g)"
    unfolding state_query_def using assms(5) n by (intro command_frame) (simp_all add: command_bytes_def)
  obtain frames1 gw1 where 1: "handle t (frame_text (command_bytes (if g = 1 then 0x15 else 0x16) a (Some (bs @ [0xFF])))) gw = (Inr frames1, gw1)"
    "map_of (gw_modules gw1) (hexw 4 a) = Some (set_group g bs m)" "gw_pending_acks gw1 = []"
    using handle_state_write [OF assms(1,3,4)] by blast
  note rb = set_group_reads_back [OF assms(2-4)]
  let ?ack = "''$05'' @ (if g = 1 then ''12'' else ''17'')"
  obtain gw2 where 2: "handle t' (state_query a g) gw1 = (Inr [?ack, state_answer a (0 # bs)], gw2)"
    using handle_state_query [OF 1(2) rb(1) assms(4), of t'] unfolding 1(3) rb(2) by auto
  have "fst (send_command_get_answer (\<lambda>_. None) (state_query a g) (hexw 4 a) attempts
      (map Frame [?ack, state_answer a (0 # bs)] @ replicate (Suc (Suc 0)) Wake) lst) = Inr (hex_of (tl (0 # bs)))"
    by (rule state_read_step) (use assms in \<open>simp_all add: QUEUE_SIZE_def\<close>)
  then show ?thesis using w q 1(1) 2 by (intro exI conjI) (assumption | simp)+
qed


definition example_module :: "string \<Rightarrow> string \<Rightarrow> link list \<Rightarrow> module_spec" where
  "example_module a ty ls = \<lparr>sp_address = a, sp_type = ty, sp_channels = 12, sp_links = ls, sp_triggers = [], sp_memory = []\<rparr>"

definition example_gateway :: "module_spec \<Rightarrow> gateway" where
  "example_gateway s = \<lparr>gw_installation = \<lparr>in_modules = [s], in_gateway_address = ''86F5'', in_gateway_family = ''pc_link''\<rparr>,
     gw_modules = [(sp_address s, \<lparr>sm_spec = s, sm_memory = [], sm_register_hex = 32, sm_outputs = replicate 12 0, sm_roller_step = []\<rparr>)],
     gw_pending_acks = [], gw_debounce = PRESS_DEBOUNCE, gw_last_press = []\<rparr>"

theorem simulated_write_reads_back_witness:
  "\<exists>write query frames1 frames2 gw1 gw2.
    make_pc_link_command 0x16 (hexw 4 0xC9A5) (Some ([1, 2, 3, 4, 5, 6] @ [0xFF])) = Inr write \<and>
    handle 0 write (example_gateway (example_module (hexw 4 0xC9A5) ''switch_module'' [])) = (Inr frames1, gw1) \<and>
    make_pc_link_command 0x17 (hexw 4 0xC9A5) None = Inr query \<and>
    handle 1 query gw1 = (Inr frames2, gw2) \<and>
    fst (send_command_get_answer (\<lambda>_. None) query (hexw 4 0xC9A5) 3
      (map Frame frames2 @ replicate (length frames2) Wake) (listener_init False False None)) = Inr (hex_of [1, 2, 3, 4, 5, 6])"
proof -
  have m: "map_of (gw_modules (example_gateway (example_module (hexw 4 0xC9A5) ''switch_module'' []))) (hexw 4 0xC9A5) =
      Some \<lparr>sm_spec = example_module (hexw 4 0xC9A5) ''switch_module'' [], sm_memory = [], sm_register_hex = 32,
        sm_outputs = replicate 12 0, sm_roller_step = []\<rparr>" by (simp add: example_gateway_def example_module_def)
  show ?thesis using simulated_write_reads_back [OF m, where g = 2 and bs = "[1, 2, 3, 4, 5, 6]" and attempts = 3
      and t = 0 and t' = 1 and lst = "listener_init False False None"] by simp
qed

subsection \<open>A held key is one press\<close>

fun within_debounce :: "rat \<Rightarrow> rat \<Rightarrow> rat list \<Rightarrow> bool" where
  \<comment> \<open>each line of a burst follows the one before it in less than the debounce time\<close>
  "within_debounce d t [] = True"
| "within_debounce d t (u # us) = (u - t < d \<and> within_debounce d u us)"

lemma py_strip_no_space:
  assumes "\<forall>c \<in> set s. \<not> is_space c" shows "py_strip s = s"
proof -
  have "dropWhile is_space t = t" if "\<forall>c \<in> set t. \<not> is_space c" for t using that by (cases t) simp_all
  from this [of s] this [of "rev s"] show ?thesis using assms by (simp add: py_strip_def)
qed

lemma press_line:
  "handle now (''#N'' @ hexw 6 n) gw = (let (repeated, gw) = is_repeat now (hexw 6 n) gw in (Inr [], if repeated then gw else press_all (hexw 6 n) gw))"
proof -
  let ?l = "''#N'' @ hexw 6 n"
  have d: "\<not> is_space CHR ''#''" "\<not> is_space CHR ''N''" by (simp_all add: is_space_def code_def)
  have "\<not> is_space c" if "c \<in> set (hexw 6 n)" for c
    using that is_hex_hexw [of 6 n] hex_not_space unfolding list_all_iff by blast
  then have "\<forall>c \<in> set ?l. \<not> is_space c" using d by (simp only: set_append list.set) blast
  then have s: "py_strip ?l = ?l" by (rule py_strip_no_space)
  have a: "upper (slice 2 8 ?l) = hexw 6 n" by (simp add: slice_def)
  have p: "\<not> list_ex (starts_with ?l) INTERFACE_PREFIXES" "\<not> starts_with ?l ''#A''" "starts_with ?l ''#N''" "?l \<noteq> []"
    by (simp_all add: INTERFACE_PREFIXES_def)
  show ?thesis unfolding handle_def s Let_def a using p by simp
qed

lemma burst_rest:
  assumes "map_of (gw_last_press gw) (hexw 6 n) = Some t" "within_debounce (gw_debounce gw) t ts"
  shows "fold (\<lambda>u gw. snd (handle u (''#N'' @ hexw 6 n) gw)) ts gw =
    gw\<lparr>gw_last_press := AList.update (hexw 6 n) (last (t # ts)) (gw_last_press gw)\<rparr>"
  using assms
proof (induction ts arbitrary: t gw)
  case Nil
  then have "AList.update (hexw 6 n) t (gw_last_press gw) = gw_last_press gw"
    by (simp add: update_triv)
  then show ?case by simp
next
  case (Cons u ts)
  let ?gw = "gw\<lparr>gw_last_press := AList.update (hexw 6 n) u (gw_last_press gw)\<rparr>"
  have "snd (handle u (''#N'' @ hexw 6 n) gw) = ?gw" using Cons.prems unfolding press_line by (simp add: is_repeat_def)
  moreover have "fold (\<lambda>u gw. snd (handle u (''#N'' @ hexw 6 n) gw)) ts ?gw =
      ?gw\<lparr>gw_last_press := AList.update (hexw 6 n) (last (u # ts)) (gw_last_press ?gw)\<rparr>"
    using Cons.prems by (intro Cons.IH) (simp_all add: update_conv')
  ultimately show ?case by simp
qed

text \<open>
  A key held down repeats its line on the bus; the gateway counts the burst as one press, however long it
  lasts, as long as each line follows the one before it within the debounce time, and the next line after a
  pause counts again.
\<close>

theorem burst_counts_once:
  assumes "case map_of (gw_last_press gw) (hexw 6 n) of None \<Rightarrow> True | Some t' \<Rightarrow> gw_debounce gw \<le> t - t'"
    and "within_debounce (gw_debounce gw) t ts" "gw_debounce gw \<le> u - last (t # ts)"
  shows "fold (\<lambda>now gw. snd (handle now (''#N'' @ hexw 6 n) gw)) (t # ts) gw =
      (press_all (hexw 6 n) gw)\<lparr>gw_last_press := AList.update (hexw 6 n) (last (t # ts)) (gw_last_press gw)\<rparr>"
    "gw_modules (fold (\<lambda>now gw. snd (handle now (''#N'' @ hexw 6 n) gw)) (t # ts @ [u]) gw) =
      gw_modules (press_all (hexw 6 n) (press_all (hexw 6 n) gw))"
proof -
  let ?gw = "press_all (hexw 6 n) (gw\<lparr>gw_last_press := AList.update (hexw 6 n) t (gw_last_press gw)\<rparr>)"
  have 1: "snd (handle t (''#N'' @ hexw 6 n) gw) = ?gw"
    using assms(1) unfolding press_line by (auto simp: is_repeat_def split: option.splits)
  have 2: "fold (\<lambda>u gw. snd (handle u (''#N'' @ hexw 6 n) gw)) ts ?gw =
      ?gw\<lparr>gw_last_press := AList.update (hexw 6 n) (last (t # ts)) (gw_last_press ?gw)\<rparr>"
    using assms(2) by (intro burst_rest) (simp_all add: press_all_def update_conv')
  show b: "fold (\<lambda>now gw. snd (handle now (''#N'' @ hexw 6 n) gw)) (t # ts) gw =
      (press_all (hexw 6 n) gw)\<lparr>gw_last_press := AList.update (hexw 6 n) (last (t # ts)) (gw_last_press gw)\<rparr>"
    using 1 2 by (simp add: press_all_def)
  have "fold (\<lambda>now gw. snd (handle now (''#N'' @ hexw 6 n) gw)) (t # ts @ [u]) gw =
      snd (handle u (''#N'' @ hexw 6 n) (fold (\<lambda>now gw. snd (handle now (''#N'' @ hexw 6 n) gw)) (t # ts) gw))" by simp
  note e = this [unfolded b]
  show "gw_modules (fold (\<lambda>now gw. snd (handle now (''#N'' @ hexw 6 n) gw)) (t # ts @ [u]) gw) =
      gw_modules (press_all (hexw 6 n) (press_all (hexw 6 n) gw))"
    unfolding e unfolding press_line using assms(3) by (simp add: is_repeat_def press_all_def update_conv')
qed

theorem burst_counts_once_witness:
  "fold (\<lambda>now gw. snd (handle now (''#N'' @ hexw 6 0x16E2C4) gw)) [1, 11/10, 12/10] (example_gateway (example_module ''C9A5'' ''switch_module'' [])) =
      (press_all (hexw 6 0x16E2C4) (example_gateway (example_module ''C9A5'' ''switch_module'' [])))\<lparr>gw_last_press := [(hexw 6 0x16E2C4, 12/10)]\<rparr> \<and>
   gw_modules (fold (\<lambda>now gw. snd (handle now (''#N'' @ hexw 6 0x16E2C4) gw)) [1, 11/10, 12/10, 2] (example_gateway (example_module ''C9A5'' ''switch_module'' []))) =
      gw_modules (press_all (hexw 6 0x16E2C4) (press_all (hexw 6 0x16E2C4) (example_gateway (example_module ''C9A5'' ''switch_module'' []))))"
proof -
  let ?gw = "example_gateway (example_module ''C9A5'' ''switch_module'' [])"
  have g: "gw_last_press ?gw = []" "gw_debounce ?gw = 3 / 10" by (simp_all add: example_gateway_def PRESS_DEBOUNCE_def)
  have "case map_of (gw_last_press ?gw) (hexw 6 0x16E2C4) of None \<Rightarrow> True | Some t' \<Rightarrow> gw_debounce ?gw \<le> 1 - t'"
    "within_debounce (gw_debounce ?gw) 1 [11/10, 12/10]" "gw_debounce ?gw \<le> 2 - last [1, 11/10, 12/10]" by (simp_all add: g)
  from burst_counts_once [OF this] show ?thesis by (simp add: g)
qed

end
