(* ===== verification/Audio_Table.thy ===== *)
theory Audio_Table
  imports Sim_Encoding
begin

section \<open>The link table of the audio module\<close>

text \<open>
  \<open>discovery/audio_decoder.py\<close>: the two-byte count at the head of bank 01, the six-byte records after
  it, the decoder that takes them out of register answers, and the blocks it asks for once it knows
  how many records there are. The theorems: cut out of the answers one by one, the records are those
  of the whole band (\<open>split_link_table\<close>), and what the simulator encodes is read back.
\<close>

subsection \<open>Functions and objects\<close>

definition RECORD_HEX_LEN :: nat where "RECORD_HEX_LEN = 12"

definition AUDIO_MODE_NAMES :: "(int \<times> string) list" where
  "AUDIO_MODE_NAMES = [(1, ''Power''), (2, ''Input 8''), (3, ''Source 1''), (4, ''Source 2''), (5, ''Source 3''),
     (6, ''Source 4''), (7, ''Source 5''), (8, ''Source 6''), (9, ''Source 7''), (10, ''Source 8''),
     (11, ''Source toggle''), (12, ''Microphone''), (13, ''Volume up''), (14, ''Volume down''),
     (15, ''On / off''), (16, ''On''), (17, ''Off''), (18, ''Treble up''), (19, ''Treble down''),
     (20, ''Bass up''), (21, ''Bass down''), (22, ''Balance right''), (23, ''Balance left''),
     (24, ''Preset 1''), (25, ''Preset 2''), (26, ''Preset 3''), (27, ''Preset 4''), (28, ''Preset 5''),
     (29, ''Preset 6''), (30, ''Preset 7''), (31, ''Preset 8'')]"

definition OBJECT_POWER :: int where "OBJECT_POWER = 0x08"
definition MAX_ZONE :: int where "MAX_ZONE = 0x03"
definition POWER_FUNCTION :: int where "POWER_FUNCTION = 0x08"
definition POWER_MODE :: int where "POWER_MODE = 1"

definition audio_mode_number :: "int \<Rightarrow> int \<Rightarrow> int" where
  "audio_mode_number function_raw object_raw =
     (if object_raw = OBJECT_POWER then (if function_raw = POWER_FUNCTION then POWER_MODE else function_raw + 3)
      else function_raw + 3)"

definition audio_function_label :: "int \<Rightarrow> int \<Rightarrow> string" where
  "audio_function_label function_raw object_raw =
     (let mode = audio_mode_number function_raw object_raw in
      case map_of AUDIO_MODE_NAMES mode of
        Some name \<Rightarrow> ''M'' @ fmt_dec 2 mode @ '' ('' @ name @ '')''
      | None \<Rightarrow> ''M'' @ fmt_dec 2 mode)"

definition audio_object_label :: "int \<Rightarrow> string" where
  "audio_object_label object_raw =
     (if object_raw = OBJECT_POWER then ''Power'' else ''Zone '' @ fmt_dec 1 (object_raw + 1))"

definition AUDIO_COUNT_ADDRESS :: int where "AUDIO_COUNT_ADDRESS = 4998"
definition AUDIO_TABLE_ADDRESS :: int where "AUDIO_TABLE_ADDRESS = 5000"
definition AUDIO_MAX_RECORDS :: int where "AUDIO_MAX_RECORDS = 1864"
definition AUDIO_TABLE_LAST_BLOCK :: int where
  "AUDIO_TABLE_LAST_BLOCK = (AUDIO_TABLE_ADDRESS + AUDIO_MAX_RECORDS * 6 - 1) div 16"

subsection \<open>The header\<close>

definition count_header :: "string \<Rightarrow> nat \<Rightarrow> int option" where
  "count_header stream index =
     (case (safe_int (slice index (index + 2) stream), safe_int (slice (index + 2) (index + 4) stream)) of
        (Some low, Some high) \<Rightarrow>
          let count = low OR push_bit 8 high in if 0 < count \<and> count \<le> AUDIO_MAX_RECORDS then Some count else None
      | _ \<Rightarrow> None)"

definition HEADER_OFFSET_HEX :: nat where
  "HEADER_OFFSET_HEX = nat ((AUDIO_COUNT_ADDRESS - (AUDIO_COUNT_ADDRESS div 16) * 16) * 2)"

fun leading_FF :: "string \<Rightarrow> nat" where
  \<comment> \<open>the loop that skips the filler\<close>
  "leading_FF (x # y # s) = (if x = CHR ''F'' \<and> y = CHR ''F'' then 2 + leading_FF s else 0)"
| "leading_FF s = 0"

definition header_index :: "string \<Rightarrow> nat option" where
  "header_index stream =
     (if length stream \<ge> HEADER_OFFSET_HEX + 4 \<and> take HEADER_OFFSET_HEX stream = replicate HEADER_OFFSET_HEX CHR ''F''
         \<and> count_header stream HEADER_OFFSET_HEX \<noteq> None
      then Some HEADER_OFFSET_HEX
      else let index = leading_FF stream in if index + 4 > length stream then None else Some index)"

definition split_link_table :: "string \<Rightarrow> string list" where
  "split_link_table stream_hex =
     (let stream = upper stream_hex in
      case header_index stream of
        None \<Rightarrow> []
      | Some index \<Rightarrow> (case count_header stream index of
            None \<Rightarrow> []
          | Some count \<Rightarrow>
              let body = drop (index + 4) stream;
                  records = map (\<lambda>i. slice (i * RECORD_HEX_LEN) ((i + 1) * RECORD_HEX_LEN) body) [0..<nat count]
              in filter (\<lambda>rec. length rec = RECORD_HEX_LEN) records))"

subsection \<open>One record\<close>

definition audio_decode :: "string \<Rightarrow> string list \<Rightarrow> decoder_context \<Rightarrow> pydict option res" where
  \<comment> \<open>the metadata in the order of the code's dictionary\<close>
  "audio_decode payload_hex raw_bytes context =
     (if is_all_ff payload_hex (Some RECORD_HEX_LEN) then Inr None
      else if length raw_bytes \<noteq> 6 then Inr None
      else if raw_bytes ! 0 \<noteq> ''01'' then Inr None
      else (case (safe_int (raw_bytes ! 1), safe_int (raw_bytes ! 2)) of
          (Some object_raw, Some function_raw) \<Rightarrow>
            if object_raw > MAX_ZONE \<and> object_raw \<noteq> OBJECT_POWER then Inr None
            else res_bind (reverse_hex (last_of 6 payload_hex)) (\<lambda>bus_address.
              let is_power = (object_raw = OBJECT_POWER);
                  zone = (if is_power then PNone else PInt (object_raw + 1));
                  label = audio_function_label function_raw object_raw;
                  object_label = audio_object_label object_raw;
                  name = (case map_of AUDIO_MODE_NAMES (audio_mode_number function_raw object_raw) of
                            None \<Rightarrow> label | Some n \<Rightarrow> n)
              in Inr (Some [(''payload'', PStr payload_hex), (''bus_address'', PStr bus_address),
                   (''button_address'', PStr bus_address), (''push_button_address'', PStr bus_address),
                   (''key_raw'', PInt 0), (''audio_function'', PStr label), (''audio_function_raw'', PInt function_raw),
                   (''audio_object'', PStr object_label), (''audio_object_raw'', PInt object_raw),
                   (''audio_power'', PBool is_power), (''audio_zone'', zone), (''audio_zone_raw'', PInt object_raw),
                   (''description'', PStr (if is_power then ''Audio '' @ name else object_label @ '' '' @ name)),
                   (''channel'', zone), (''M'', PStr label), (''T1'', PNone), (''T2'', PNone),
                   (''record_source'', PStr ''output_module_table'')]))
        | _ \<Rightarrow> Inr None))"

definition audio_decode_caught :: "string \<Rightarrow> string list \<Rightarrow> decoder_context \<Rightarrow> pydict option" where
  \<comment> \<open>the dispatcher's \<open>except Exception\<close>\<close>
  "audio_decode_caught payload_hex raw_bytes context =
     (case audio_decode payload_hex raw_bytes context of Inl _ \<Rightarrow> None | Inr r \<Rightarrow> r)"

subsection \<open>The decoder\<close>

record audio_decoder =
  au_base :: chunker
  header_seen :: bool
  records_left :: "int option"
  au_current_block :: "int option"
  last_data_block :: "int option"
  partial_bytes :: nat
  au_extension_from :: "int option"

definition new_audio_decoder :: "coordinator option \<Rightarrow> audio_decoder" where
  "new_audio_decoder coord = \<lparr>au_base = new_chunker coord ''audio_module'', header_seen = False, records_left = None,
     au_current_block = None, last_data_block = None, partial_bytes = 0, au_extension_from = None\<rparr>"

definition audio_reset_scan_buffers :: "audio_decoder \<Rightarrow> audio_decoder" where
  "audio_reset_scan_buffers d = d\<lparr>au_base := reset_scan_buffers (au_base d), header_seen := False, records_left := None,
     au_current_block := None, last_data_block := None, partial_bytes := 0, au_extension_from := None\<rparr>"

definition block_index :: "string \<Rightarrow> int \<Rightarrow> int option" where
  "block_index sub_byte register = map_option (\<lambda>s. push_bit 8 s OR register) (py_int16 sub_byte)"

definition audio_set_current_block :: "string \<Rightarrow> int \<Rightarrow> audio_decoder \<Rightarrow> audio_decoder" where
  "audio_set_current_block sub_byte register d = d\<lparr>au_current_block := block_index sub_byte register\<rparr>"

definition audio_extension_passes :: "audio_decoder \<Rightarrow> (string \<times> int list) list \<times> audio_decoder" where
  "audio_extension_passes d =
     (case (header_seen d, records_left d, last_data_block d) of
        (True, Some left, Some last_block) \<Rightarrow>
          if left = 0 then ([], d)
          else let first = last_block + 1 in
            if (case au_extension_from d of None \<Rightarrow> False | Some f \<Rightarrow> first \<le> f) then ([], d)
            else let pending = max (left * 6 - int (partial_bytes d)) 1;
                     blocks = - (- pending div 16) + 1;
                     last_read = min (first + blocks - 1) AUDIO_TABLE_LAST_BLOCK
                 in if last_read < first then ([], d)
                    else (blocks_to_sections first last_read, d\<lparr>au_extension_from := Some first\<rparr>)
      | _ \<Rightarrow> ([], d))"

function take_records :: "string \<Rightarrow> int option \<Rightarrow> string list \<times> int option \<times> string" where
  \<comment> \<open>the loop over the stream: the records, how many are left, and what was not cut\<close>
  "take_records stream left =
     (if RECORD_HEX_LEN \<le> length stream \<and> (case left of None \<Rightarrow> True | Some n \<Rightarrow> n > 0)
      then let (chunks, left', rest) = take_records (drop RECORD_HEX_LEN stream) (map_option (\<lambda>n. n - 1) left)
           in (take RECORD_HEX_LEN stream # chunks, left', rest)
      else ([], left, stream))"
  by pat_completeness auto
termination by (relation "measure (\<lambda>(s, _). length s)") (auto simp: RECORD_HEX_LEN_def)

declare take_records.simps [simp del]

definition audio_frame :: "string \<Rightarrow> string \<Rightarrow> string list \<Rightarrow> string \<Rightarrow> frame_analysis option" where
  "audio_frame crc region cs rest =
     Some \<lparr>fa_crc = crc, payload_region = region, chunks = cs, remainder = rest, misaligned = False\<rparr>"

definition audio_take :: "string \<Rightarrow> string \<Rightarrow> string \<Rightarrow> audio_decoder \<Rightarrow> frame_analysis option \<times> audio_decoder" where
  \<comment> \<open>after the header\<close>
  "audio_take crc region stream d =
     (let (cs, left, rest0) = take_records stream (records_left d);
          rest = (if left \<noteq> None \<and> left \<noteq> Some 0 then rest0 else [])
      in (audio_frame crc region cs rest, d\<lparr>records_left := left, partial_bytes := length rest div 2\<rparr>))"

definition audio_analyze :: "string \<Rightarrow> string \<Rightarrow> audio_decoder \<Rightarrow> frame_analysis option \<times> audio_decoder" where
  "audio_analyze payload_buffer payload_and_crc0 d =
     (let payload_and_crc = upper payload_and_crc0 in
      if length payload_and_crc < 6 then (None, d)
      else
        let region = but_last 6 payload_and_crc; crc = last_of 6 payload_and_crc;
            stream = upper (payload_buffer @ region);
            d = d\<lparr>last_data_block := au_current_block d\<rparr>
        in if header_seen d then audio_take crc region stream d
           else (case header_index stream of
               None \<Rightarrow> (audio_frame crc region [] stream, d)
             | Some index \<Rightarrow> (case count_header stream index of
                   None \<Rightarrow> (audio_frame crc region [] [], d)
                 | Some count \<Rightarrow>
                     audio_take crc region (drop (index + 4) stream) (d\<lparr>header_seen := True, records_left := Some count\<rparr>))))"

definition audio_decode_chunk :: "string \<Rightarrow> string option \<Rightarrow> audio_decoder \<Rightarrow> pydict list res" where
  \<comment> \<open>inherited from the base decoder\<close>
  "audio_decode_chunk chunk mod_addr d =
     res_bind (decode_with (Some audio_decode_caught) chunk (chunk_coordinator (au_base d))
         (case mod_addr of Some (x # a) \<Rightarrow> Some (x # a) | _ \<Rightarrow> chunk_address (au_base d)) True
         (chunk_channel_count (au_base d)))
       (\<lambda>r. Inr (case r of None \<Rightarrow> [] | Some m \<Rightarrow> [m]))"

subsection \<open>The records do not depend on how the answers cut the band\<close>

fun audio_scan :: "string \<Rightarrow> string list \<Rightarrow> audio_decoder \<Rightarrow> string list \<times> audio_decoder" where
  \<comment> \<open>the records of a sequence of register answers, the remainder threaded as the discovery loop does\<close>
  "audio_scan buffer [] d = ([], d)"
| "audio_scan buffer (f # fs) d = (case audio_analyze buffer f d of
       (None, d) \<Rightarrow> audio_scan buffer fs d
     | (Some a, d) \<Rightarrow> let (cs, d) = audio_scan (remainder a) fs d in (chunks a @ cs, d))"

lemma take_records_chunks:
  "take_records s (Some (int n)) = (let k = min n (length (fst (cut_chunks 12 s))) in
     (take k (fst (cut_chunks 12 s)), Some (int (n - k)), drop (12 * k) s))"
proof -
  have "0 < (12 :: nat)" by simp
  then show ?thesis
  proof (induction s arbitrary: n rule: cut_chunks_induct)
    case (short s)
    then show ?case by (subst take_records.simps) (simp add: RECORD_HEX_LEN_def cut_chunks_short)
  next
    case (long t s)
    show ?case
    proof (cases n)
      case 0
      then show ?thesis by (subst take_records.simps) simp
    next
      case (Suc m)
      have "take_records s (Some (int n - 1)) = take_records s (Some (int m))" using Suc by simp
      then show ?thesis using long Suc
        by (subst take_records.simps) (simp add: RECORD_HEX_LEN_def cut_chunks_cons Let_def)
    qed
  qed
qed

lemma cut_chunks_drop:
  assumes n: "0 < n" shows "drop (n * length (fst (cut_chunks n s))) s = snd (cut_chunks n s)"
  by (induction s rule: cut_chunks_induct [OF n]) (use n in \<open>simp_all add: cut_chunks_short cut_chunks_cons\<close>)

lemma take_records_some:
  fixes n :: nat
  shows "n \<le> length (fst (cut_chunks 12 s)) \<Longrightarrow> take_records s (Some (int n)) = (take n (fst (cut_chunks 12 s)), Some 0, drop (12 * n) s)"
    "length (fst (cut_chunks 12 s)) < n \<Longrightarrow> take_records s (Some (int n)) =
       (fst (cut_chunks 12 s), Some (int (n - length (fst (cut_chunks 12 s)))), snd (cut_chunks 12 s))"
  by (simp_all add: take_records_chunks Let_def cut_chunks_drop)

lemma frame_data_analyze:
  assumes "6 \<le> length f"
  shows "but_last 6 (upper f) = frame_data f" "length (upper f) \<ge> 6"
  using assms by (simp_all add: frame_data_def but_last_def upper_def take_map CRC_LEN_def)

lemma upper_frame_data [simp]: "upper (frame_data f) = frame_data f"
  by (simp add: frame_data_def)

lemma cut12_append: "fst (cut_chunks 12 (xs @ ys)) = fst (cut_chunks 12 xs) @ fst (cut_chunks 12 (snd (cut_chunks 12 xs) @ ys))"
  using chunks12.cut_append [of xs ys] by simp

lemma audio_take_step:
  assumes d: "header_seen d" "records_left d = Some (int n)" "upper s = s"
    and tail: "\<And>m d' r. header_seen d' \<Longrightarrow> records_left d' = Some (int m) \<Longrightarrow> upper r = r \<Longrightarrow> fst (cut_chunks 12 r) = [] \<Longrightarrow>
      m = 0 \<longrightarrow> r = [] \<Longrightarrow> fst (audio_scan r fs d') = take m (fst (cut_chunks 12 (r @ rest)))"
  shows "\<exists>a d'. audio_take crc region s d = (Some a, d') \<and>
    chunks a @ fst (audio_scan (remainder a) fs d') = take n (fst (cut_chunks 12 (s @ rest)))"
proof (cases "n \<le> length (fst (cut_chunks 12 s))")
  case True
  let ?d = "d\<lparr>records_left := Some 0, partial_bytes := 0\<rparr>"
  have "audio_take crc region s d = (audio_frame crc region (take n (fst (cut_chunks 12 s))) [], ?d)"
    using d(2) take_records_some(1) [OF True] by (simp add: audio_take_def)
  moreover have "fst (audio_scan [] fs ?d) = take 0 (fst (cut_chunks 12 ([] @ rest)))"
    using d by (intro tail) (simp_all add: cut_chunks_short)
  ultimately show ?thesis using True cut12_append [of s rest] by (simp add: audio_frame_def)
next
  case False
  let ?k = "length (fst (cut_chunks 12 s))" let ?r = "snd (cut_chunks 12 s)"
  let ?d = "d\<lparr>records_left := Some (int (n - ?k)), partial_bytes := length ?r div 2\<rparr>"
  have "audio_take crc region s d = (audio_frame crc region (fst (cut_chunks 12 s)) ?r, ?d)"
    using d(2) take_records_some(2) [of s n] False by (simp add: audio_take_def)
  moreover have "fst (audio_scan ?r fs ?d) = take (n - ?k) (fst (cut_chunks 12 (?r @ rest)))"
    using d False upper_snd_cut [of 12 s] chunks12.cut_rest [of s] by (intro tail) simp_all
  ultimately show ?thesis using False cut12_append [of s rest] by (simp add: audio_frame_def)
qed

lemma audio_scan_seen:
  assumes "\<forall>f \<in> set fs. 6 \<le> length f" "header_seen d" "records_left d = Some (int n)" "upper b = b"
    and "fst (cut_chunks 12 b) = []" "n = 0 \<longrightarrow> b = []"
  shows "fst (audio_scan b fs d) = take n (fst (cut_chunks 12 (b @ concat (map frame_data fs))))"
  using assms
proof (induction fs arbitrary: b d n)
  case Nil
  then show ?case by simp
next
  case (Cons f fs)
  let ?d = "d\<lparr>last_data_block := au_current_block d\<rparr>"
  have a: "audio_analyze b f d = audio_take (last_of 6 (upper f)) (frame_data f) (b @ frame_data f) ?d"
    using Cons.prems(1,2,4) frame_data_analyze [of f] by (simp add: audio_analyze_def Let_def del: length_upper)
  have "\<exists>a d'. audio_take (last_of 6 (upper f)) (frame_data f) (b @ frame_data f) ?d = (Some a, d') \<and>
    chunks a @ fst (audio_scan (remainder a) fs d') = take n (fst (cut_chunks 12 ((b @ frame_data f) @ concat (map frame_data fs))))"
    using Cons.prems by (intro audio_take_step Cons.IH) simp_all
  then show ?case by (auto simp: a split_def Let_def)
qed

lemma split_link_chunks:
  "filter (\<lambda>rec. length rec = 12) (map (\<lambda>i. slice (i * 12) ((i + 1) * 12) body) [0..<n]) = take n (fst (cut_chunks 12 body))"
proof -
  have "0 < (12 :: nat)" by simp
  then show ?thesis
  proof (induction body arbitrary: n rule: cut_chunks_induct)
    case (short s)
    have "filter (\<lambda>rec. length rec = 12) (map (\<lambda>i. slice (i * 12) ((i + 1) * 12) s) [0..<n]) = []"
      using short by (auto simp: filter_empty_conv)
    then show ?case using short by (simp add: cut_chunks_short)
  next
    case (long t s)
    show ?case
    proof (cases n)
      case (Suc m)
      have u: "[0..<Suc m] = 0 # map Suc [0..<m]" by (simp add: upt_conv_Cons map_Suc_upt del: upt_Suc)
      have sh: "slice ((i + 1) * 12) ((i + 1 + 1) * 12) (t @ s) = slice (i * 12) ((i + 1) * 12) s" for i
        using long(1) by (simp add: slice_def)
      have "map (\<lambda>i. slice (i * 12) ((i + 1) * 12) (t @ s)) [0..<Suc m] =
          t # map (\<lambda>i. slice (i * 12) ((i + 1) * 12) s) [0..<m]"
        unfolding u using long(1) sh by (simp add: slice_def del: upt_Suc)
      then show ?thesis using long Suc by (simp add: cut_chunks_cons del: upt_Suc)
    qed simp
  qed
qed

subsubsection \<open>The header of a growing stream\<close>

lemma leading_FF_append: "leading_FF s + 2 \<le> length s \<Longrightarrow> leading_FF (s @ t) = leading_FF s"
  by (induction s rule: leading_FF.induct) auto

lemma leading_FF_twelve: "take 12 s = replicate 12 CHR ''F'' \<Longrightarrow> 12 \<le> length s \<Longrightarrow> 12 \<le> leading_FF s"
proof -
  assume "take 12 s = replicate 12 CHR ''F''" "12 \<le> length s"
  then have "s = replicate 12 CHR ''F'' @ drop 12 s" by (metis append_take_drop_id)
  then obtain r where "s = replicate 12 CHR ''F'' @ r" by blast
  then show ?thesis by (simp add: numeral_eq_Suc)
qed

lemma header_prefix:
  assumes "header_index s = Some j"
  shows "header_index (s @ t) = Some j" "count_header (s @ t) j = count_header s j"
proof -
  let ?fixed = "\<lambda>s. length s \<ge> HEADER_OFFSET_HEX + 4 \<and> take HEADER_OFFSET_HEX s = replicate HEADER_OFFSET_HEX CHR ''F'' \<and>
      count_header s HEADER_OFFSET_HEX \<noteq> None"
  have o: "HEADER_OFFSET_HEX = 12" by (simp add: HEADER_OFFSET_HEX_def AUDIO_COUNT_ADDRESS_def)
  have c: "count_header (s @ t) i = count_header s i" if "i + 4 \<le> length s" for i
    using that by (simp add: count_header_def slice_def)
  have j: "j + 4 \<le> length s" using assms by (auto simp: header_index_def Let_def split: if_splits)
  show "count_header (s @ t) j = count_header s j" by (rule c [OF j])
  show "header_index (s @ t) = Some j"
  proof (cases "?fixed s")
    case True
    then have "?fixed (s @ t)" using c [of 12] by (simp add: o)
    then show ?thesis using True assms by (simp add: header_index_def)
  next
    case False
    then have jl: "j = leading_FF s" using assms by (simp add: header_index_def Let_def split: if_splits)
    have jl': "leading_FF (s @ t) = j" using leading_FF_append [of s t] j jl by simp
    have "\<not> ?fixed (s @ t)"
    proof
      assume f: "?fixed (s @ t)"
      then have "12 \<le> j" using leading_FF_twelve [of "s @ t"] jl' by (simp add: o)
      then have "16 \<le> length s" using j by simp
      then have "?fixed s" using f c [of 12] by (simp add: o)
      then show False using False by blast
    qed
    then show ?thesis unfolding header_index_def if_not_P [OF \<open>\<not> ?fixed (s @ t)\<close>] Let_def using jl' j by simp
  qed
qed


lemma audio_scan_header:
  assumes "\<forall>f \<in> set fs. 6 \<le> length f" "\<not> header_seen d" "upper b = b" "header_index b = None"
    and "header_index (b @ concat (map frame_data fs)) = Some i"
    and "count_header (b @ concat (map frame_data fs)) i = Some (int n)"
  shows "fst (audio_scan b fs d) = take n (fst (cut_chunks 12 (drop (i + 4) (b @ concat (map frame_data fs)))))"
  using assms
proof (induction fs arbitrary: b d)
  case Nil
  then show ?case by simp
next
  case (Cons f fs)
  let ?d = "d\<lparr>last_data_block := au_current_block d\<rparr>" let ?s = "b @ frame_data f" let ?rest = "concat (map frame_data fs)"
  note fd = frame_data_analyze [of f]
  show ?case
  proof (cases "header_index ?s")
    case None
    then have "audio_analyze b f d = (audio_frame (last_of 6 (upper f)) (frame_data f) [] ?s, ?d)"
      using Cons.prems(1-3) fd by (simp add: audio_analyze_def Let_def del: length_upper)
    moreover have "fst (audio_scan ?s fs ?d) = take n (fst (cut_chunks 12 (drop (i + 4) (?s @ ?rest))))"
      using Cons.prems None by (intro Cons.IH) simp_all
    ultimately show ?thesis by (simp add: audio_frame_def split_def Let_def)
  next
    case (Some j)
    have h: "header_index (?s @ ?rest) = Some j" "count_header (?s @ ?rest) j = count_header ?s j"
      by (rule header_prefix [OF Some])+
    have j: "j = i" "count_header ?s i = Some (int n)" using h Cons.prems(5,6) by simp_all
    have l: "i + 4 \<le> length ?s" using Some j(1) by (auto simp: header_index_def Let_def split: if_splits)
    let ?d' = "?d\<lparr>header_seen := True, records_left := Some (int n)\<rparr>"
    have a: "audio_analyze b f d = audio_take (last_of 6 (upper f)) (frame_data f) (drop (i + 4) ?s) ?d'"
      using Cons.prems(1-3) fd Some j by (simp add: audio_analyze_def Let_def del: length_upper)
    have u: "upper (drop (i + 4) ?s) = drop (i + 4) ?s" 
    proof -
      have "upper (drop (i + 4) ?s) = drop (i + 4) (upper ?s)" by (simp only: upper_def drop_map)
      then show ?thesis using Cons.prems(3) by simp
    qed
    have "\<exists>a d'. audio_take (last_of 6 (upper f)) (frame_data f) (drop (i + 4) ?s) ?d' = (Some a, d') \<and>
      chunks a @ fst (audio_scan (remainder a) fs d') = take n (fst (cut_chunks 12 (drop (i + 4) ?s @ ?rest)))"
      using Cons.prems(1) u by (intro audio_take_step audio_scan_seen) simp_all
    then show ?thesis using l by (auto simp: a split_def Let_def)
  qed
qed

lemma split_link_table_records:
  assumes "upper s = s" "header_index s = Some i" "count_header s i = Some (int n)"
  shows "split_link_table s = take n (fst (cut_chunks 12 (drop (i + 4) s)))"
  using assms split_link_chunks [of "drop (i + 4) s" n]
  by (simp add: split_link_table_def Let_def RECORD_HEX_LEN_def)

lemma count_header_nat: "count_header s i = Some c \<Longrightarrow> c = int (nat c)"
  by (auto simp: count_header_def Let_def split: option.splits if_splits)

lemma upper_concat_data [simp]: "upper (concat (map frame_data fs)) = concat (map frame_data fs)"
  by (induction fs) simp_all

lemma audio_scan_split:
  assumes "\<forall>f \<in> set fs. 6 \<le> length f" "header_index (concat (map frame_data fs)) = Some i"
    and "count_header (concat (map frame_data fs)) i = Some count"
  shows "fst (audio_scan [] fs (new_audio_decoder coord)) = split_link_table (concat (map frame_data fs))"
proof -
  have c: "count_header (concat (map frame_data fs)) i = Some (int (nat count))" using count_header_nat assms(3) by metis
  have n: "header_index [] = None" "\<not> header_seen (new_audio_decoder coord)"
    by (simp_all add: header_index_def new_audio_decoder_def)
  have "fst (audio_scan [] fs (new_audio_decoder coord)) =
      take (nat count) (fst (cut_chunks 12 (drop (i + 4) ([] @ concat (map frame_data fs)))))"
    using assms(2) c by (intro audio_scan_header [OF assms(1) n(2) _ n(1)]) simp_all
  then show ?thesis using split_link_table_records [OF _ assms(2) c] by simp
qed

text \<open>
  The records the audio decoder cuts out of the register answers, one answer after the other, are
  the records of the whole band as \<open>split_link_table\<close> cuts it, wherever the answers split the count
  header and the records, when the band carries a valid count.
\<close>

theorem audio_scan_equals_split:
  assumes "\<forall>f \<in> set fs. 6 \<le> length f" "header_index (concat (map frame_data fs)) = Some i"
    and "count_header (concat (map frame_data fs)) i = Some count"
  shows "fst (audio_scan [] fs (new_audio_decoder coord)) = split_link_table (concat (map frame_data fs)) \<and>
    (\<forall>rec \<in> set (fst (audio_scan [] fs (new_audio_decoder coord))). length rec = RECORD_HEX_LEN) \<and>
    int (length (fst (audio_scan [] fs (new_audio_decoder coord)))) \<le> count"
proof -
  have c: "count_header (concat (map frame_data fs)) i = Some (int (nat count))" using count_header_nat assms(3) by metis
  have "split_link_table (concat (map frame_data fs)) =
      take (nat count) (fst (cut_chunks 12 (drop (i + 4) (concat (map frame_data fs)))))"
    by (rule split_link_table_records [OF _ assms(2) c]) simp
  moreover have "0 \<le> count" using count_header_nat [OF assms(3)] by (metis of_nat_0_le_iff)
  ultimately show ?thesis using audio_scan_split [OF assms] cut_chunks_length [of 12]
    by (auto simp: RECORD_HEX_LEN_def dest!: in_set_takeD)
qed

theorem audio_scan_equals_split_witness:
  "fst (audio_scan [] [''FFFFFFFFFFFF02'' @ ''AAAAAA'', ''00104000050001'' @ ''BBBBBB'', ''204000060101FFFF'' @ ''CCCCCC'']
     (new_audio_decoder None)) = [''104000050001'', ''204000060101'']"
proof -
  let ?fs = "[''FFFFFFFFFFFF02'' @ ''AAAAAA'', ''00104000050001'' @ ''BBBBBB'', ''204000060101FFFF'' @ ''CCCCCC'']"
  have d: "concat (map frame_data ?fs) = ''FFFFFFFFFFFF0200104000050001204000060101FFFF''"
    by (simp add: frame_data_def CRC_LEN_def upper_def)
  have c: "count_header (concat (map frame_data ?fs)) 12 = Some 2"
    unfolding d by (simp add: count_header_def slice_def safe_int_def AUDIO_MAX_RECORDS_def eval_simps)
  have h: "header_index (concat (map frame_data ?fs)) = Some 12"
    using c unfolding d by (simp add: header_index_def HEADER_OFFSET_HEX_def AUDIO_COUNT_ADDRESS_def numeral_eq_Suc)
  have "split_link_table (concat (map frame_data ?fs)) = [''104000050001'', ''204000060101'']"
    using h c unfolding d by (simp add: split_link_table_def RECORD_HEX_LEN_def upper_def slice_def upt_rec)
  then show ?thesis using audio_scan_equals_split [OF _ h c, of None] by simp
qed

subsection \<open>What the simulator encodes is read back\<close>

definition trigger_ok :: "audio_trigger \<Rightarrow> bool" where
  "trigger_ok t \<longleftrightarrow> (\<exists>v < 2 ^ 24. tr_button t = hexw 6 v) \<and> 0 \<le> tr_function t \<and> tr_function t < 256 \<and>
     (0 \<le> tr_target t \<and> tr_target t \<le> MAX_ZONE \<or> tr_target t = OBJECT_POWER)"

definition trigger_of :: "pydict \<Rightarrow> audio_trigger" where
  "trigger_of d = \<lparr>tr_button = str_or_empty (dict_get d ''bus_address''),
     tr_function = the (as_int (dict_get d ''audio_function_raw'')), tr_target = the (as_int (dict_get d ''audio_object_raw''))\<rparr>"

lemma hex_of_eq_Nil: "hex_of bs = [] \<longleftrightarrow> bs = []"
  by (metis hex_of_Nil hex_of_inject)

lemma encode_trigger_bytes:
  assumes "trigger_ok t"
  shows "\<exists>x y z. tr_button t = hex_of [x, y, z] \<and>
    encode_audio_trigger t = hex_of [x, y, z, of_int (tr_function t), of_int (tr_target t), 1]"
proof -
  obtain v where v: "v < 2 ^ 24" "tr_button t = hexw 6 v" using assms by (auto simp: trigger_ok_def)
  have f: "fmt_hex 2 k = byte_hex (of_int k)" if "0 \<le> k" "k < 256" for k
    using that hexw_2_byte [of "nat k"] by (simp add: fmt_hex_nonneg)
  have "hexw 6 v = hexw 2 (v div 65536) @ hexw 2 (v div 256) @ hexw 2 v"
    using hexw_append [of 2 4 v] hexw_append [of 2 2 v] by simp
  then have "hexw 6 v = hex_of [of_nat (v div 65536), of_nat (v div 256), of_nat v]"
    by (simp add: byte_hex_of_nat)
  moreover have "byte_hex 1 = ''01''" by (simp add: byte_hex_def)
  ultimately show ?thesis using assms f [of "tr_function t"] f [of "tr_target t"] v
    by (intro exI [of _ "of_nat (v div 65536)"] exI [of _ "of_nat (v div 256)"] exI [of _ "of_nat v"])
      (auto simp: encode_audio_trigger_def trigger_ok_def MAX_ZONE_def OBJECT_POWER_def)
qed

definition read_trigger :: "coordinator option \<Rightarrow> string option \<Rightarrow> string \<Rightarrow> audio_trigger option" where
  \<comment> \<open>the trigger a record of the band decodes to\<close>
  "read_trigger coord a chunk = (case audio_decode_chunk chunk a (new_audio_decoder coord) of
     Inr [m] \<Rightarrow> Some (trigger_of m) | _ \<Rightarrow> None)"

lemma safe_int_byte: "safe_int (byte_hex (of_int k)) = Some k" if "0 \<le> k" "k < 256" for k
proof -
  have "byte_hex (of_int k) = hexw 2 (nat k)" using that hexw_2_byte [of "nat k"] by simp
  then show ?thesis using that by (simp add: safe_int_def)
qed

lemma audio_decode_trigger:
  assumes t: "trigger_ok t" and b: "tr_button t = hex_of [x, y, z]"
  shows "\<exists>m. audio_decode (hex_of [1, of_int (tr_target t), of_int (tr_function t), z, y, x])
      (map byte_hex [1, of_int (tr_target t), of_int (tr_function t), z, y, x]) context = Inr (Some m) \<and> trigger_of m = t"
proof -
  have one: "byte_hex 1 = ''01''" by (simp add: byte_hex_def)
  have f: "0 \<le> tr_function t" "tr_function t < 256" "0 \<le> tr_target t" "tr_target t < 256"
    "\<not> (MAX_ZONE < tr_target t \<and> tr_target t \<noteq> OBJECT_POWER)"
    using t by (auto simp: trigger_ok_def MAX_ZONE_def OBJECT_POWER_def)
  have n: "\<not> is_all_ff (hex_of [1, of_int (tr_target t), of_int (tr_function t), z, y, x]) (Some RECORD_HEX_LEN)"
    by (simp add: is_all_ff_def Let_def one upper_Cons)
  have l: "last_of 6 (hex_of [1, of_int (tr_target t), of_int (tr_function t), z, y, x]) = hex_of [z, y, x]"
  proof -
    have "hex_of [1, of_int (tr_target t), of_int (tr_function t), z, y, x] =
        hex_of [1, of_int (tr_target t), of_int (tr_function t)] @ hex_of [z, y, x]" by simp
    then show ?thesis by (simp only:) (rule last_of_append, simp)
  qed
  have r: "reverse_hex (hex_of [z, y, x]) = Inr (hex_of [x, y, z])"
    unfolding reverse_hex_def bytes_fromhex_hex_of by simp
  show ?thesis
    unfolding audio_decode_def l r Let_def using n f b one
    by (cases t) (auto simp: safe_int_byte trigger_of_def dict_get_def str_or_empty_def py_str_def as_int_def
      hex_of_eq_Nil simp del: hex_of_Cons)
qed

lemma audio_decode_chunk_bytes:
  "\<exists>context. audio_decode_chunk (hex_of (rev bs)) a (new_audio_decoder coord) =
     Inr (case audio_decode_caught (hex_of bs) (map byte_hex bs) context of None \<Rightarrow> [] | Some m \<Rightarrow> [m])"
proof -
  have "py_strip (hex_of (rev bs)) = hex_of (rev bs)" by (rule py_strip_hex) simp
  then have "\<exists>c. decode_with (Some audio_decode_caught) (hex_of (rev bs)) coord b True n =
      Inr (audio_decode_caught (hex_of bs) (map byte_hex bs) c)" for b n
    by (auto simp: decode_with_def reverse_hex_def normalize_payload_def Let_def)
  then show ?thesis unfolding audio_decode_chunk_def new_audio_decoder_def new_chunker_def
    by (simp add: res_bind_def) (metis sum.case(2))
qed

lemma read_encoded_trigger:
  assumes "trigger_ok t" shows "read_trigger coord a (encode_audio_trigger t) = Some t"
proof -
  obtain x y z where e: "tr_button t = hex_of [x, y, z]"
    "encode_audio_trigger t = hex_of [x, y, z, of_int (tr_function t), of_int (tr_target t), 1]"
    using encode_trigger_bytes [OF assms] by blast
  have r: "encode_audio_trigger t = hex_of (rev [1, of_int (tr_target t), of_int (tr_function t), z, y, x])"
    unfolding e(2) by simp
  obtain c where "audio_decode_chunk (encode_audio_trigger t) a (new_audio_decoder coord) =
     Inr (case audio_decode_caught (hex_of [1, of_int (tr_target t), of_int (tr_function t), z, y, x])
       (map byte_hex [1, of_int (tr_target t), of_int (tr_function t), z, y, x]) c of None \<Rightarrow> [] | Some m \<Rightarrow> [m])"
    unfolding r using audio_decode_chunk_bytes [of "[1, of_int (tr_target t), of_int (tr_function t), z, y, x]" a coord] by blast
  moreover obtain m where "audio_decode (hex_of [1, of_int (tr_target t), of_int (tr_function t), z, y, x])
      (map byte_hex [1, of_int (tr_target t), of_int (tr_function t), z, y, x]) c = Inr (Some m)" "trigger_of m = t"
    using audio_decode_trigger [OF assms e(1)] by blast
  ultimately show ?thesis by (simp add: read_trigger_def audio_decode_caught_def del: hex_of_Cons list.map)
qed

lemma cut_chunks_map:
  "0 < n \<Longrightarrow> \<forall>x \<in> set xs. length (f x) = n \<Longrightarrow> take (length xs) (fst (cut_chunks n (concat (map f xs) @ s))) = map f xs"
  by (induction xs) (simp_all add: cut_chunks_cons)

lemma count_text:
  assumes "0 < c" "c \<le> AUDIO_MAX_RECORDS"
  shows "count_header (replicate 12 CHR ''F'' @ fmt_hex 2 (c AND 0xFF) @ fmt_hex 2 (drop_bit 8 c AND 0xFF) @ s) 12 = Some c"
proof -
  have l: "length (fmt_hex 2 (c AND 0xFF)) = 2" "length (fmt_hex 2 (drop_bit 8 c AND 0xFF)) = 2"
    by (simp_all add: and_255 fmt_hex_nonneg nat_less_iff)
  have p: "py_int16 (fmt_hex 2 (v mod 256)) = Some (v mod 256)" for v
    using py_int16_hexw [of 2 "nat (v mod 256)"] by (simp add: fmt_hex_nonneg)
  have b: "(c mod 256) OR push_bit 8 (drop_bit 8 c mod 256) = c"
  proof -
    have "drop_bit 8 c mod 256 = c div 256" using assms by (simp add: drop_bit_eq_div AUDIO_MAX_RECORDS_def)
    moreover have "push_bit 8 (c div 256) OR c mod 256 = (c div 256) * 2 ^ 8 + c mod 256"
      by (rule or_shift_plus) simp_all
    ultimately show ?thesis by (simp add: or.commute)
  qed
  have s: "slice 12 14 (replicate 12 CHR ''F'' @ u @ v @ s) = u" "slice 14 16 (replicate 12 CHR ''F'' @ u @ v @ s) = v"
    if "length u = 2" "length v = 2" for u v :: string
    using that slice_mid [of "replicate 12 CHR ''F''" 12 14 u "v @ s"] slice_mid [of "replicate 12 CHR ''F'' @ u" 14 16 v s] by simp_all
  show ?thesis using s [OF l] p [of c] p [of "drop_bit 8 c"] b assms
    by (simp add: count_header_def safe_int_def and_255)
qed

lemma audio_stream_header:
  assumes "module_stream s = Inr st" "sp_type s = ''audio_module''" "sp_triggers s \<noteq> []" "int (length (sp_triggers s)) \<le> AUDIO_MAX_RECORDS"
    "list_all trigger_ok (sp_triggers s)"
  shows "header_index (st @ f) = Some 12" "count_header (st @ f) 12 = Some (int (length (sp_triggers s)))"
    "take (length (sp_triggers s)) (fst (cut_chunks 12 (drop 16 (st @ f)))) = map encode_audio_trigger (sp_triggers s)"
proof -
  let ?c = "int (length (sp_triggers s))"
  let ?h = "fmt_hex 2 (?c AND 0xFF) @ fmt_hex 2 (drop_bit 8 ?c AND 0xFF)"
  have st: "st @ f = replicate 12 CHR ''F'' @ fmt_hex 2 (?c AND 0xFF) @ fmt_hex 2 (drop_bit 8 ?c AND 0xFF) @
      (concat (map encode_audio_trigger (sp_triggers s)) @ f)"
    using assms(1,2) by (simp add: module_stream_def Let_def numeral_eq_Suc)
  have l: "length (fmt_hex 2 (?c AND 0xFF)) = 2" "length (fmt_hex 2 (drop_bit 8 ?c AND 0xFF)) = 2"
    by (simp_all add: and_255 fmt_hex_nonneg nat_less_iff)
  show c: "count_header (st @ f) 12 = Some ?c" unfolding st by (rule count_text) (use assms(3,4) in simp_all)
  then show "header_index (st @ f) = Some 12" using l
    unfolding st by (simp add: header_index_def HEADER_OFFSET_HEX_def AUDIO_COUNT_ADDRESS_def)
  have "length (encode_audio_trigger t) = 12" if "trigger_ok t" for t
    using encode_trigger_bytes [OF that] by (auto simp del: hex_of_Cons)
  then show "take (length (sp_triggers s)) (fst (cut_chunks 12 (drop 16 (st @ f)))) = map encode_audio_trigger (sp_triggers s)"
    using assms(5) l unfolding st by (simp add: cut_chunks_map list_all_iff)
qed


text \<open>
  The memory the simulator builds for a declared audio module, cut into records from register
  answers that carry it, decodes to exactly the declared triggers: address on the bus, function and
  object, for every number of records the module has room for.
\<close>

theorem audio_memory_reads_back:
  assumes "sp_type s = ''audio_module''" "sp_memory s = []" "sp_triggers s \<noteq> []"
    and "int (length (sp_triggers s)) \<le> AUDIO_MAX_RECORDS" "list_all trigger_ok (sp_triggers s)"
  shows "\<exists>regs. encode_module s = Inr [(''01'', regs)] \<and>
    (\<forall>fs. (\<forall>f \<in> set fs. 6 \<le> length f) \<longrightarrow> map frame_data fs = map snd regs \<longrightarrow>
       map (read_trigger coord a) (fst (audio_scan [] fs (new_audio_decoder coord))) = map Some (sp_triggers s))"
proof -
  obtain st where st: "module_stream s = Inr st" using assms(1) by (simp add: module_stream_def Let_def)
  have ne: "st \<noteq> []" using st assms(1) by (auto simp: module_stream_def Let_def)
  define regs where "regs = registers (st @ replicate 32 CHR ''F'') 0x38 32"
  have e: "encode_module s = Inr [(''01'', regs)]"
    using assms(1,2) st ne
    by (simp add: encode_module_def encodable_def ENCODABLE_TYPES_def TABLE_START_def register_width_def
      REGISTER_WIDTH_def REGISTER_HEX_def regs_def)
  obtain j where j: "concat (map snd regs) = st @ replicate j CHR ''F''"
    using registers_concat [of 32 "st @ replicate 32 CHR ''F''" "0x38"] by (auto simp: regs_def simp flip: replicate_add)
  have "map (read_trigger coord a) (fst (audio_scan [] fs (new_audio_decoder coord))) = map Some (sp_triggers s)"
    if fs: "\<forall>f \<in> set fs. 6 \<le> length f" "map frame_data fs = map snd regs" for fs
  proof -
    note h = audio_stream_header [OF st assms(1,3,4,5), of "replicate j CHR ''F''"]
    have d: "concat (map frame_data fs) = st @ replicate j CHR ''F''" using fs(2) j by simp
    have "fst (audio_scan [] fs (new_audio_decoder coord)) = split_link_table (st @ replicate j CHR ''F'')"
      using audio_scan_split [OF fs(1)] h(1,2) unfolding d by blast
    also have "\<dots> = map encode_audio_trigger (sp_triggers s)"
      using split_link_table_records [OF _ h(1,2)] h(3) upper_concat_data [of fs] unfolding d by simp
    finally show ?thesis using assms(5) by (simp add: list_all_iff read_encoded_trigger)
  qed
  with e show ?thesis by blast
qed

theorem audio_memory_reads_back_witness:
  "\<exists>regs. encode_module \<lparr>sp_address = ''8334'', sp_type = ''audio_module'', sp_channels = 0, sp_links = [],
      sp_triggers = [\<lparr>tr_button = hexw 6 0x104000, tr_function = 10, tr_target = 2\<rparr>], sp_memory = []\<rparr> = Inr [(''01'', regs)] \<and>
    (\<forall>fs. (\<forall>f \<in> set fs. 6 \<le> length f) \<longrightarrow> map frame_data fs = map snd regs \<longrightarrow>
       map (read_trigger None None) (fst (audio_scan [] fs (new_audio_decoder None))) =
         [Some \<lparr>tr_button = hexw 6 0x104000, tr_function = 10, tr_target = 2\<rparr>])"
proof -
  have "trigger_ok \<lparr>tr_button = hexw 6 0x104000, tr_function = 10, tr_target = 2\<rparr>"
    by (auto simp: trigger_ok_def MAX_ZONE_def OBJECT_POWER_def intro!: exI [of _ "0x104000"])
  then show ?thesis
    using audio_memory_reads_back [of "\<lparr>sp_address = ''8334'', sp_type = ''audio_module'', sp_channels = 0, sp_links = [],
      sp_triggers = [\<lparr>tr_button = hexw 6 0x104000, tr_function = 10, tr_target = 2\<rparr>], sp_memory = []\<rparr>" None None]
    by (simp add: AUDIO_MAX_RECORDS_def del: hexw.simps)
qed

subsection \<open>The blocks past the fixed band\<close>

text \<open>
  The blocks the audio decoder asks for once the fixed band is read start after the last block
  that answered, follow each other without a gap, hold every byte of the records still missing, and
  are not asked for a second time when they bring no answer.
\<close>

theorem audio_extension_covers:
  assumes "header_seen d" "records_left d = Some left" "0 < left" "last_data_block d = Some b" "0 \<le> b"
    and "(b + 1) * 16 + left * 6 - int (partial_bytes d) \<le> AUDIO_TABLE_ADDRESS + AUDIO_MAX_RECORDS * 6"
    and "int (partial_bytes d) < left * 6" "case au_extension_from d of None \<Rightarrow> True | Some f \<Rightarrow> f \<le> b"
  shows "\<exists>last_block. concat (map section_blocks (fst (audio_extension_passes d))) = [b + 1 .. last_block] \<and>
    (b + 1) * 16 + left * 6 - int (partial_bytes d) \<le> (last_block + 1) * 16 \<and> last_block \<le> AUDIO_TABLE_LAST_BLOCK \<and>
    fst (audio_extension_passes (snd (audio_extension_passes d))) = []"
proof -
  let ?pending = "left * 6 - int (partial_bytes d)"
  let ?last = "min (b + 1 + (- (- ?pending div 16) + 1) - 1) AUDIO_TABLE_LAST_BLOCK"
  have L: "AUDIO_TABLE_LAST_BLOCK = 1011" by (simp add: AUDIO_TABLE_LAST_BLOCK_def AUDIO_TABLE_ADDRESS_def AUDIO_MAX_RECORDS_def)
  have b: "(b + 1) * 16 + ?pending \<le> 16184" using assms(6) by (simp add: AUDIO_TABLE_ADDRESS_def AUDIO_MAX_RECORDS_def)
  have p: "0 < ?pending" using assms(7) by simp
  define q where "q = - ?pending div 16"
  have q: "16 * q \<le> - ?pending" "- ?pending < 16 * q + 16" unfolding q_def by simp_all
  have c: "b + 1 \<le> ?last" "(b + 1) * 16 + ?pending \<le> (?last + 1) * 16"
    using p b q unfolding q_def [symmetric] L by (smt (verit))+
  have m: "max ?pending 1 = ?pending" using p by simp
  have e: "audio_extension_passes d = (blocks_to_sections (b + 1) ?last, d\<lparr>au_extension_from := Some (b + 1)\<rparr>)"
    using assms(1-4,8) c(1) m by (auto simp: audio_extension_passes_def Let_def algebra_simps split: option.splits)
  have "?last \<le> 0xFFFF" unfolding L by simp
  then have "concat (map section_blocks (blocks_to_sections (b + 1) ?last)) = [b + 1 .. ?last]"
    using assms(5) unfolding blocks_to_sections_def by (subst blocks_to_sections_loop_covers) simp_all
  moreover have "fst (audio_extension_passes (d\<lparr>au_extension_from := Some (b + 1)\<rparr>)) = []"
    using assms(1-4) by (simp add: audio_extension_passes_def Let_def)
  ultimately show ?thesis using c(2) min.cobounded2 [of "b + 1 + (- (- ?pending div 16) + 1) - 1" AUDIO_TABLE_LAST_BLOCK]
    unfolding e fst_conv snd_conv by (intro exI [of _ "?last"] conjI) (assumption | linarith)+
qed

theorem audio_extension_covers_witness:
  "\<exists>last_block. concat (map section_blocks (fst (audio_extension_passes ((new_audio_decoder None)
        \<lparr>header_seen := True, records_left := Some 10, last_data_block := Some 0x15F, partial_bytes := 4\<rparr>)))) = [0x160 .. last_block] \<and>
    0x1600 + 56 \<le> (last_block + 1) * 16"
proof -
  let ?d = "(new_audio_decoder None)\<lparr>header_seen := True, records_left := Some 10, last_data_block := Some 0x15F, partial_bytes := 4\<rparr>"
  show ?thesis using audio_extension_covers [of ?d 10 "0x15F"]
    by (auto simp: new_audio_decoder_def AUDIO_TABLE_ADDRESS_def AUDIO_MAX_RECORDS_def)
qed

end
