(* ===== verification/Pc_Records.thy ===== *)
theory Pc_Records
  imports Links
begin

section \<open>The records of the controllers\<close>

text \<open>
  \<open>discovery/pc_record_parser.py\<close> and \<open>pc_link_decoder.py\<close>: the 16-byte records the PC-Link and the
  PC-Logic keep of the modules on the bus (registry records) and of the keys that drive them (link
  records), the buffer of registry records of a scan, and the map of output channels that the first
  byte of a link record counts into.
\<close>

subsection \<open>Records\<close>

definition PC_RECORD_HEX_LEN :: nat where "PC_RECORD_HEX_LEN = 32"

definition REGISTRY_MARKER :: int where "REGISTRY_MARKER = 0x03"

definition MODULE_DEVICE_TYPE_CODES :: "int list" where
  "MODULE_DEVICE_TYPE_CODES =
     List.map_filter (\<lambda>(code, info). if dt_category info = ''Module'' then py_int16 code else None) DEVICE_TYPES"

definition OUTPUT_BEARING_DEVICE_TYPES :: "int list" where
  "OUTPUT_BEARING_DEVICE_TYPES = [0x01, 0x02, 0x03, 0x09, 0x31, 0x32]"

record registry_record =
  rr_raw_hex :: string
  rr_device_type :: int
  rr_address :: string
  rr_type_slot :: int

record link_record =
  lr_raw_hex :: string
  lr_channel_index :: int
  lr_mode_byte :: int
  lr_flag_byte :: int
  lr_payload_bytes :: string
  lr_slot :: int

datatype pc_record = Registry registry_record | Link link_record

definition is_empty_record :: "string \<Rightarrow> bool" where
  "is_empty_record chunk_hex \<longleftrightarrow> chunk_hex \<noteq> [] \<and> list_all (\<lambda>c. c = CHR ''F'') (upper chunk_hex)"

definition is_noise_chunk :: "string \<Rightarrow> bool" where
  "is_noise_chunk chunk_hex0 =
     (let chunk_hex = upper (py_strip chunk_hex0) in
      if length chunk_hex \<noteq> PC_RECORD_HEX_LEN then False
      else if list_all (\<lambda>c. c = CHR ''0'') chunk_hex then True
      else slice 2 8 chunk_hex \<noteq> ''000000'')"

fun count_87 :: "string \<Rightarrow> nat" where
  \<comment> \<open>\<open>s.count("87")\<close>; two occurrences cannot overlap\<close>
  "count_87 (x # y # s) = (if x = CHR ''8'' \<and> y = CHR ''7'' then 1 else 0) + count_87 (y # s)"
| "count_87 s = 0"

definition is_cf_address_table_chunk :: "string \<Rightarrow> bool" where
  "is_cf_address_table_chunk chunk_hex0 =
     (let chunk_hex = upper (py_strip chunk_hex0) in
      if length chunk_hex \<noteq> PC_RECORD_HEX_LEN then False
      else if count_87 chunk_hex + count_87 (drop 1 chunk_hex) < 3 then False
      else slice 2 8 chunk_hex \<noteq> ''000000'')"

definition looks_like_registry_shape :: "string \<Rightarrow> string list \<Rightarrow> bool" where
  "looks_like_registry_shape chunk_hex known_module_addresses = (case py_int16 (slice 8 10 chunk_hex) of
       None \<Rightarrow> False
     | Some device_type \<Rightarrow>
         device_type \<in> set MODULE_DEVICE_TYPE_CODES \<and>
         upper (slice 18 20 chunk_hex @ slice 16 18 chunk_hex) \<in>
           set (map (\<lambda>a. upper (py_strip a)) (filter (\<lambda>a. a \<noteq> []) known_module_addresses)))"

definition parse_registry_record :: "string \<Rightarrow> registry_record option" where
  "parse_registry_record chunk_hex =
     (case (py_int16 (slice 8 10 chunk_hex), py_int16 (slice 24 26 chunk_hex)) of
        (Some device_type, Some type_slot) \<Rightarrow>
          Some \<lparr>rr_raw_hex = chunk_hex, rr_device_type = device_type,
                rr_address = upper (slice 18 20 chunk_hex @ slice 16 18 chunk_hex), rr_type_slot = type_slot\<rparr>
      | _ \<Rightarrow> None)"

definition parse_link_record :: "string \<Rightarrow> int \<Rightarrow> link_record option" where
  "parse_link_record chunk_hex marker =
     (case (py_int16 (slice 8 10 chunk_hex), py_int16 (slice 14 16 chunk_hex), py_int16 (slice 24 26 chunk_hex)) of
        (Some mode_byte, Some flag_byte, Some slot) \<Rightarrow>
          let payload_bytes = slice 16 22 chunk_hex;
              payload_all_ff = (payload_bytes \<noteq> [] \<and> list_all (\<lambda>c. c = CHR ''F'') (upper payload_bytes))
          in if marker = 0xFF \<and> mode_byte = 0xFF \<and> flag_byte = 0xFF \<and> payload_all_ff \<and> slot = 0xFF then None
             else Some \<lparr>lr_raw_hex = chunk_hex, lr_channel_index = marker, lr_mode_byte = mode_byte,
                        lr_flag_byte = flag_byte, lr_payload_bytes = payload_bytes, lr_slot = slot\<rparr>
      | _ \<Rightarrow> None)"

definition parse_pc_record :: "string \<Rightarrow> string list option \<Rightarrow> pc_record option" where
  "parse_pc_record chunk_hex0 known_module_addresses =
     (let chunk_hex = upper (py_strip chunk_hex0) in
      if length chunk_hex \<noteq> PC_RECORD_HEX_LEN then None
      else if is_empty_record chunk_hex then None
      else if is_noise_chunk chunk_hex then None
      else (case py_int16 (slice 0 2 chunk_hex) of
          None \<Rightarrow> None
        | Some marker \<Rightarrow>
            if marker = REGISTRY_MARKER then map_option Registry (parse_registry_record chunk_hex)
            else if (case known_module_addresses of None \<Rightarrow> False | Some known \<Rightarrow> looks_like_registry_shape chunk_hex known)
              then map_option Registry (parse_registry_record chunk_hex)
            else map_option Link (parse_link_record chunk_hex marker)))"

subsection \<open>The registry of a scan\<close>

record registry_buffer =
  rb_records :: "registry_record list"
  rb_seen_addresses :: "string list"

definition empty_registry :: registry_buffer where
  "empty_registry = \<lparr>rb_records = [], rb_seen_addresses = []\<rparr>"

definition registry_add :: "registry_record \<Rightarrow> registry_buffer \<Rightarrow> bool \<times> registry_buffer" where
  "registry_add r buf =
     (let addr = upper (rr_address r) in
      if addr \<in> set (rb_seen_addresses buf) then (False, buf)
      else (True, \<lparr>rb_records = rb_records buf @ [r], rb_seen_addresses = addr # rb_seen_addresses buf\<rparr>))"

definition registry_reset :: "registry_buffer \<Rightarrow> registry_buffer" where
  "registry_reset buf = empty_registry"

definition channels_of_record :: "coordinator \<Rightarrow> registry_record \<Rightarrow> nat" where
  \<comment> \<open>how many entries a record contributes: the host's count, else the catalogue's, else none\<close>
  "channels_of_record coord r =
     (if rr_device_type r \<notin> set OUTPUT_BEARING_DEVICE_TYPES then 0
      else let count = (case get_module_channel_count coord (rr_address r) of Inl _ \<Rightarrow> None | Inr n \<Rightarrow> n);
               count = (if (case count of None \<Rightarrow> True | Some n \<Rightarrow> n \<le> 0)
                        then (case map_of DEVICE_TYPES (fmt_hex 2 (rr_device_type r)) of
                                None \<Rightarrow> None | Some info \<Rightarrow> dt_channels info)
                        else count)
           in (case count of None \<Rightarrow> 0 | Some n \<Rightarrow> nat n))"

definition build_flat_channel_map :: "registry_buffer \<Rightarrow> coordinator option \<Rightarrow> (string \<times> int) list" where
  "build_flat_channel_map registry coordinator = (case coordinator of
       None \<Rightarrow> []
     | Some coord \<Rightarrow> concat (map (\<lambda>r. map (\<lambda>ch. (rr_address r, int ch)) [1..<channels_of_record coord r + 1])
                              (rb_records registry)))"

definition resolve_link_target :: "int \<Rightarrow> registry_buffer \<Rightarrow> coordinator option \<Rightarrow> (string \<times> int) option" where
  "resolve_link_target channel_index registry coordinator =
     (if channel_index < 0 then None
      else let flat = build_flat_channel_map registry coordinator in
        if channel_index \<ge> int (length flat) then None else Some (flat ! nat channel_index))"

definition MODE_TABLE_BY_DEVICE_TYPE :: "(int \<times> (int \<times> string) list) list" where
  "MODE_TABLE_BY_DEVICE_TYPE = [(0x01, SWITCH_MODE_MAPPING), (0x09, SWITCH_MODE_MAPPING), (0x31, SWITCH_MODE_MAPPING),
     (0x02, ROLLER_MODE_MAPPING), (0x03, DIMMER_MODE_MAPPING), (0x32, DIMMER_MODE_MAPPING)]"

definition device_type_for_address :: "registry_buffer \<Rightarrow> string \<Rightarrow> int option" where
  "device_type_for_address registry addr =
     map_option rr_device_type (find (\<lambda>r. upper (rr_address r) = upper addr) (rb_records registry))"

definition key_raw_from_flag_byte :: "int \<Rightarrow> int option \<Rightarrow> int option" where
  "key_raw_from_flag_byte flag_byte num_channels = (case num_channels of
       None \<Rightarrow> None
     | Some n \<Rightarrow> (case map_of KEY_MAPPING_MODULE n of
           None \<Rightarrow> None
         | Some mapping \<Rightarrow>
             let high_nibble = fmt_hex 1 (drop_bit 4 flag_byte AND 0xF)
             in map_option fst (find (\<lambda>(key_idx, v). v = high_nibble) mapping)))"

definition link_record_to_decoded_metadata ::
    "link_record \<Rightarrow> registry_buffer \<Rightarrow> coordinator option \<Rightarrow> string option \<Rightarrow> pydict option" where
  "link_record_to_decoded_metadata r registry coordinator source =
     (case resolve_link_target (lr_channel_index r) registry coordinator of
        None \<Rightarrow> None
      | Some (target_address, target_channel) \<Rightarrow>
        (case device_type_for_address registry target_address of
           None \<Rightarrow> None
         | Some dt \<Rightarrow>
           (case map_of MODE_TABLE_BY_DEVICE_TYPE dt of
              None \<Rightarrow> None
            | Some mode_table \<Rightarrow>
              (case map_of mode_table (lr_mode_byte r AND 0x0F) of
                 None \<Rightarrow> None
               | Some mode_label \<Rightarrow>
                 let payload = lr_payload_bytes r in
                 if length payload \<noteq> 6 then None
                 else let button_address = upper (slice 4 6 payload @ slice 2 4 payload @ slice 0 2 payload);
                          num_channels = (case coordinator of
                              None \<Rightarrow> None
                            | Some c \<Rightarrow> (case get_button_channels c button_address of
                                  Inr (Some n) \<Rightarrow> if n > 0 then Some n else None | _ \<Rightarrow> None))
                      in (case key_raw_from_flag_byte (lr_flag_byte r) num_channels of
                            None \<Rightarrow> None
                          | Some key \<Rightarrow> Some ([(''module_address'', PStr target_address), (''channel'', PInt target_channel),
                               (''M'', PStr mode_label), (''T1'', PNone), (''T2'', PNone), (''payload'', PStr (lr_raw_hex r)),
                               (''button_address'', PStr button_address), (''push_button_address'', PStr button_address),
                               (''key_raw'', PInt key)]
                               @ (case source of Some (x # s) \<Rightarrow> [(''record_source'', PStr (x # s))] | _ \<Rightarrow> [])))))))"

subsection \<open>The decoder of the PC-Link\<close>

record scan_counts =
  sc_registry :: nat
  sc_links :: nat
  sc_resolved :: nat

definition zero_counts :: scan_counts where
  "zero_counts = \<lparr>sc_registry = 0, sc_links = 0, sc_resolved = 0\<rparr>"

definition known_module_addresses :: "coordinator option \<Rightarrow> string list" where
  "known_module_addresses coordinator = (case coordinator of
       None \<Rightarrow> []
     | Some c \<Rightarrow> concat (map (\<lambda>(_, module_map). case as_dict module_map of
           None \<Rightarrow> [] | Some d \<Rightarrow> map upper (filter (\<lambda>a. a \<noteq> []) (map fst d))) (dict_module_data c)))"

definition record_source_label :: "string \<Rightarrow> string option" where
  "record_source_label mtype = (if mtype = ''pc_link'' then Some ''pc_link_registry''
     else if mtype = ''pc_logic'' then Some ''pc_logic_registry'' else None)"

definition decode_pc_chunk :: "string \<Rightarrow> string \<Rightarrow> coordinator option \<Rightarrow> registry_buffer \<Rightarrow> scan_counts \<Rightarrow>
    pydict list \<times> registry_buffer \<times> scan_counts" where
  \<comment> \<open>\<open>_decode_and_log\<close> as a decoder calls it, with its registry and counts; the metadata of the commands\<close>
  "decode_pc_chunk chunk0 mtype coordinator registry counts =
     (let chunk_hex = upper (py_strip chunk0) in
      if is_empty_record chunk_hex then ([], registry, counts)
      else if is_cf_address_table_chunk chunk_hex then ([], registry, counts)
      else if is_noise_chunk chunk_hex then ([], registry, counts)
      else (case parse_pc_record chunk_hex (Some (known_module_addresses coordinator)) of
          None \<Rightarrow> ([], registry, counts)
        | Some (Registry r) \<Rightarrow> ([], snd (registry_add r registry), counts\<lparr>sc_registry := sc_registry counts + 1\<rparr>)
        | Some (Link r) \<Rightarrow>
            let counts = counts\<lparr>sc_links := sc_links counts + 1\<rparr> in
            if coordinator = None then ([], registry, counts)
            else (case resolve_link_target (lr_channel_index r) registry coordinator of
                None \<Rightarrow> ([], registry, counts)
              | Some _ \<Rightarrow>
                  let counts = counts\<lparr>sc_resolved := sc_resolved counts + 1\<rparr> in
                  (case link_record_to_decoded_metadata r registry coordinator (record_source_label mtype) of
                     None \<Rightarrow> ([], registry, counts)
                   | Some m \<Rightarrow> ([m], registry, counts)))))"

record pc_link_decoder =
  pl_base :: chunker
  pl_registry :: registry_buffer
  pl_counts :: scan_counts

definition new_pc_link_decoder :: "coordinator option \<Rightarrow> pc_link_decoder" where
  "new_pc_link_decoder coord = \<lparr>pl_base = new_chunker coord ''pc_link'', pl_registry = empty_registry, pl_counts = zero_counts\<rparr>"

definition pc_link_reset_scan_buffers :: "pc_link_decoder \<Rightarrow> pc_link_decoder" where
  "pc_link_reset_scan_buffers d = d\<lparr>pl_base := reset_scan_buffers (pl_base d), pl_counts := zero_counts,
     pl_registry := registry_reset (pl_registry d)\<rparr>"

definition pc_link_decode_chunk :: "string \<Rightarrow> pc_link_decoder \<Rightarrow> pydict list \<times> pc_link_decoder" where
  "pc_link_decode_chunk chunk d =
     (let (cmds, registry, counts) = decode_pc_chunk (upper (py_strip chunk)) (module_type (pl_base d))
            (chunk_coordinator (pl_base d)) (pl_registry d) (pl_counts d)
      in (cmds, d\<lparr>pl_registry := registry, pl_counts := counts\<rparr>))"

subsection \<open>Parsing\<close>

lemma slice_bytes: "slice (2 * i) (2 * j) (hex_of bs) = hex_of (slice i j bs)"
proof -
  have d: "drop (2 * i) (hex_of bs) = hex_of (drop i bs)" for i
  proof (induction i arbitrary: bs)
    case (Suc i)
    then show ?case by (cases bs) (simp_all add: hex_of_def byte_hex_def)
  qed simp
  have t: "take (2 * i) (hex_of bs) = hex_of (take i bs)" for i bs
  proof (induction i arbitrary: bs)
    case (Suc i)
    then show ?case by (cases bs) (simp_all add: hex_of_def byte_hex_def)
  qed simp
  have "2 * j - 2 * i = 2 * (j - i)" by simp
  then show ?thesis by (simp only: slice_def d t)
qed

lemma byte_hex_int: "py_int16 (byte_hex b) = Some (int (unat b))"
proof -
  have "unat b < 16 ^ 2" using unat_byte_less [of b] by simp
  then show ?thesis by (simp add: byte_hex_hexw del: hexw.simps)
qed

lemma hex_byte_Nil [simp]: "hex_of [b] = byte_hex b"
  by simp

lemma hex_of_zeros: "hex_of [0, 0, 0] = ''000000''"
  by (simp add: byte_hex_def)

lemma all_zero_bytes: "list_all (\<lambda>c. c = CHR ''0'') (byte_hex b) \<longleftrightarrow> b = 0"
proof -
  have "hex_dig n = CHR ''0'' \<longleftrightarrow> n = 0" if "n < 16" for n
    using hex_dig_inject [of n 0] that by simp
  then have "list_all (\<lambda>c. c = CHR ''0'') (byte_hex b) \<longleftrightarrow> unat b div 16 = 0 \<and> unat b mod 16 = 0"
    using byte_div_16 [of b] by (simp add: byte_hex_def)
  also have "\<dots> \<longleftrightarrow> unat b = 0" by auto
  finally show ?thesis by (simp add: unat_eq_zero)
qed

lemma all_zero_hex: "list_all (\<lambda>c. c = CHR ''0'') (hex_of bs) \<longleftrightarrow> list_all (\<lambda>b. b = 0) bs"
  by (induction bs) (simp_all add: all_zero_bytes)

lemma all_F_zero: "0 \<in> set bs \<Longrightarrow> \<not> list_all (\<lambda>c. c = CHR ''F'') (hex_of bs)"
proof -
  assume "0 \<in> set bs"
  then obtain us vs where "bs = us @ 0 # vs" by (meson split_list)
  moreover have "byte_hex 0 = ''00''" by (simp add: byte_hex_def)
  ultimately show ?thesis by simp
qed

lemma parse_pc_record_bytes:
  assumes "length bs = 16" "slice 1 4 bs = [0, 0, 0]" "\<not> list_all (\<lambda>b. b = 0) bs"
  shows "parse_pc_record (hex_of bs) known =
    (if bs ! 0 = 3 \<or> (case known of None \<Rightarrow> False | Some ks \<Rightarrow> looks_like_registry_shape (hex_of bs) ks)
     then map_option Registry (parse_registry_record (hex_of bs))
     else map_option Link (parse_link_record (hex_of bs) (int (unat (bs ! 0)))))"
proof -
  have s: "py_strip (hex_of bs) = hex_of bs" by (rule py_strip_hex) simp
  obtain b cs where bs: "bs = b # cs" using assms(1) by (cases bs) auto
  have "0 \<in> set (slice 1 4 bs)" using assms(2) by simp
  then have "0 \<in> set bs" unfolding slice_def by (meson in_set_dropD in_set_takeD)
  then have e: "\<not> is_empty_record (hex_of bs)" by (simp add: is_empty_record_def all_F_zero)
  have "slice 2 8 (hex_of bs) = ''000000''" using slice_bytes [of 1 4 bs] assms(2) hex_of_zeros by simp
  then have n: "\<not> is_noise_chunk (hex_of bs)" using assms(1,3)
    by (simp add: is_noise_chunk_def s PC_RECORD_HEX_LEN_def all_zero_hex)
  have m: "py_int16 (slice 0 2 (hex_of bs)) = Some (int (unat (bs ! 0)))"
    using slice_bytes [of 0 1 bs] by (simp add: bs slice_def byte_hex_int)
  have three: "int (unat (bs ! 0)) = REGISTRY_MARKER \<longleftrightarrow> bs ! 0 = 3"
    by (simp add: REGISTRY_MARKER_def word_uint_eq_iff)
  show ?thesis unfolding parse_pc_record_def s Let_def upper_hex_of using assms(1) e n m three
    by (simp add: PC_RECORD_HEX_LEN_def)
qed

lemma field_of_bytes: "i < length bs \<Longrightarrow> slice (2 * i) (2 * i + 2) (hex_of bs) = byte_hex (bs ! i)"
proof -
  assume i: "i < length bs"
  have "slice (2 * i) (2 * (i + 1)) (hex_of bs) = hex_of (slice i (i + 1) bs)" by (rule slice_bytes)
  moreover have "slice i (i + 1) bs = [bs ! i]" using i by (simp add: slice_def take_Suc hd_drop_conv_nth)
  ultimately show ?thesis by simp
qed

lemma parse_registry_bytes:
  assumes "length bs = 16"
  shows "parse_registry_record (hex_of bs) = Some \<lparr>rr_raw_hex = hex_of bs, rr_device_type = int (unat (bs ! 4)),
    rr_address = hex_of [bs ! 9, bs ! 8], rr_type_slot = int (unat (bs ! 12))\<rparr>"
proof -
  have f: "slice 8 10 (hex_of bs) = byte_hex (bs ! 4)" "slice 16 18 (hex_of bs) = byte_hex (bs ! 8)"
    "slice 18 20 (hex_of bs) = byte_hex (bs ! 9)" "slice 24 26 (hex_of bs) = byte_hex (bs ! 12)"
    using assms field_of_bytes [of 4 bs] field_of_bytes [of 8 bs] field_of_bytes [of 9 bs] field_of_bytes [of 12 bs] by simp_all
  show ?thesis unfolding parse_registry_record_def f by (simp add: byte_hex_int)
qed

lemma all_F_bytes: "list_all (\<lambda>c. c = CHR ''F'') (byte_hex b) \<longleftrightarrow> b = 255"
proof -
  have "hex_dig n = CHR ''F'' \<longleftrightarrow> n = 15" if "n < 16" for n
    using hex_dig_inject [of n 15] that by simp
  then have "list_all (\<lambda>c. c = CHR ''F'') (byte_hex b) \<longleftrightarrow> unat b div 16 = 15 \<and> unat b mod 16 = 15"
    using byte_div_16 [of b] by (simp add: byte_hex_def)
  also have "\<dots> \<longleftrightarrow> unat b = 255" by presburger
  also have "\<dots> \<longleftrightarrow> b = 255" by (simp add: word_unat_eq_iff)
  finally show ?thesis .
qed

lemma parse_link_bytes:
  assumes "length bs = 16"
  shows "parse_link_record (hex_of bs) (int (unat (bs ! 0))) =
   (if {bs ! 0, bs ! 4, bs ! 7, bs ! 8, bs ! 9, bs ! 10, bs ! 12} = {255} then None
    else Some \<lparr>lr_raw_hex = hex_of bs, lr_channel_index = int (unat (bs ! 0)),
      lr_mode_byte = int (unat (bs ! 4)), lr_flag_byte = int (unat (bs ! 7)),
      lr_payload_bytes = hex_of [bs ! 8, bs ! 9, bs ! 10], lr_slot = int (unat (bs ! 12))\<rparr>)"
proof -
  have f: "slice 8 10 (hex_of bs) = byte_hex (bs ! 4)" "slice 14 16 (hex_of bs) = byte_hex (bs ! 7)"
    "slice 24 26 (hex_of bs) = byte_hex (bs ! 12)"
    using assms field_of_bytes [of 4 bs] field_of_bytes [of 7 bs] field_of_bytes [of 12 bs] by simp_all
  have "slice 8 11 bs = [bs ! 8, bs ! 9, bs ! 10]"
    using assms(1) by (simp add: slice_def take_Suc hd_drop_conv_nth numeral_3_eq_3 drop_Suc nth_tl tl_drop)
  then have p: "slice 16 22 (hex_of bs) = hex_of [bs ! 8, bs ! 9, bs ! 10]" using slice_bytes [of 8 11 bs] by simp
  have q: "list_all (\<lambda>c. c = CHR ''F'') (upper (hex_of [bs ! 8, bs ! 9, bs ! 10])) \<longleftrightarrow> bs ! 8 = 255 \<and> bs ! 9 = 255 \<and> bs ! 10 = 255"
    unfolding upper_hex_of by (simp add: all_F_bytes)
  have i: "int (unat b) = 255 \<longleftrightarrow> b = 255" for b :: byte by (simp add: word_uint_eq_iff)
  have ne: "hex_of [bs ! 8, bs ! 9, bs ! 10] \<noteq> []" by (simp add: byte_hex_def)
  show ?thesis unfolding parse_link_record_def f p byte_hex_int option.case prod.case Let_def i q
    using ne by (auto simp del: hex_of_Cons)
qed

lemma registry_shape_bytes:
  assumes "length bs = 16"
  shows "looks_like_registry_shape (hex_of bs) ks \<longleftrightarrow> int (unat (bs ! 4)) \<in> set MODULE_DEVICE_TYPE_CODES \<and>
    hex_of [bs ! 9, bs ! 8] \<in> set (map (\<lambda>a. upper (py_strip a)) (filter (\<lambda>a. a \<noteq> []) ks))"
proof -
  have f: "slice 8 10 (hex_of bs) = byte_hex (bs ! 4)" "slice 16 18 (hex_of bs) = byte_hex (bs ! 8)"
    "slice 18 20 (hex_of bs) = byte_hex (bs ! 9)"
    using assms field_of_bytes [of 4 bs] field_of_bytes [of 8 bs] field_of_bytes [of 9 bs] by simp_all
  show ?thesis unfolding looks_like_registry_shape_def f by (simp add: byte_hex_int)
qed

text \<open>
  What a record of a controller's memory is taken for, byte by byte: a registry record when its
  first byte is the marker or its type byte and address name a known module, with type, address
  (low byte first) and slot; no record when every field is erased; a link record with its six fields
  otherwise.
\<close>

theorem pc_record_layouts:
  assumes "length bs = 16" "slice 1 4 bs = [0, 0, 0]" "\<not> list_all (\<lambda>b. b = 0) bs"
  shows "parse_pc_record (hex_of bs) (Some known) =
    (if bs ! 0 = 3 \<or> int (unat (bs ! 4)) \<in> set MODULE_DEVICE_TYPE_CODES \<and>
          hex_of [bs ! 9, bs ! 8] \<in> set (map (\<lambda>a. upper (py_strip a)) (filter (\<lambda>a. a \<noteq> []) known))
     then Some (Registry \<lparr>rr_raw_hex = hex_of bs, rr_device_type = int (unat (bs ! 4)),
            rr_address = hex_of [bs ! 9, bs ! 8], rr_type_slot = int (unat (bs ! 12))\<rparr>)
     else if {bs ! 0, bs ! 4, bs ! 7, bs ! 8, bs ! 9, bs ! 10, bs ! 12} = {255} then None
     else Some (Link \<lparr>lr_raw_hex = hex_of bs, lr_channel_index = int (unat (bs ! 0)),
            lr_mode_byte = int (unat (bs ! 4)), lr_flag_byte = int (unat (bs ! 7)),
            lr_payload_bytes = hex_of [bs ! 8, bs ! 9, bs ! 10], lr_slot = int (unat (bs ! 12))\<rparr>))"
  unfolding parse_pc_record_bytes [OF assms] option.case registry_shape_bytes [OF assms(1)]
    parse_registry_bytes [OF assms(1)] parse_link_bytes [OF assms(1)] by simp

theorem pc_record_layouts_witness:
  "parse_pc_record (hex_of [4, 0, 0, 0, 1, 0, 0, 0, 0x07, 0x47, 0, 0, 2, 0, 0, 0]) (Some [''4707'']) =
    Some (Registry \<lparr>rr_raw_hex = hex_of [4, 0, 0, 0, 1, 0, 0, 0, 0x07, 0x47, 0, 0, 2, 0, 0, 0], rr_device_type = 1,
      rr_address = hex_of [0x47, 0x07], rr_type_slot = 2\<rparr>)"
proof -
  have s: "slice 1 4 [4, 0, 0, 0, 1, 0, 0, 0, 0x07, 0x47, 0, 0, 2, 0, 0, (0 :: byte)] = [0, 0, 0]" by (simp add: slice_def)
  have a: "hex_of [0x47, 0x07] = ''4707''" by (simp add: byte_hex_def)
  have m: "1 \<in> set MODULE_DEVICE_TYPE_CODES"
    by (simp add: MODULE_DEVICE_TYPE_CODES_def DEVICE_TYPES_def DEVICE_TYPES_output_def map_filter_simps device_info.make_def eval_simps)
  have k: "upper (py_strip ''4707'') = ''4707''" by (simp add: py_strip_hex upper_def)
  show ?thesis using pc_record_layouts [OF _ s, of "[''4707'']"] m k by (simp add: a del: hex_of_Cons)
qed

subsection \<open>The map of output channels\<close>

lemma nth_concat_fwd:
  "i < length (concat (map f xs)) \<Longrightarrow>
   \<exists>pre x post k. xs = pre @ x # post \<and> k < length (f x) \<and> concat (map f xs) ! i = f x ! k \<and> i = length (concat (map f pre)) + k"
proof (induction xs arbitrary: i)
  case (Cons a xs)
  show ?case
  proof (cases "i < length (f a)")
    case True
    then show ?thesis
      by (intro exI [of _ "[]"] exI [of _ a] exI [of _ xs] exI [of _ i]) (simp add: nth_append)
  next
    case False
    then have "i - length (f a) < length (concat (map f xs))" using Cons.prems by simp
    then obtain pre x post k where "xs = pre @ x # post" "k < length (f x)"
      "concat (map f xs) ! (i - length (f a)) = f x ! k" "i - length (f a) = length (concat (map f pre)) + k"
      using Cons.IH by blast
    then show ?thesis using False
      by (intro exI [of _ "a # pre"] exI [of _ x] exI [of _ post] exI [of _ k]) (simp add: nth_append)
  qed
qed simp

lemma nth_concat_bwd: "k < length (f x) \<Longrightarrow> concat (map f (pre @ x # post)) ! (length (concat (map f pre)) + k) = f x ! k"
  by (simp add: nth_append del: length_concat)

lemma nth_concat_blocks:
  "concat (map f xs) ! i = y \<and> i < length (concat (map f xs)) \<longleftrightarrow>
   (\<exists>pre x post k. xs = pre @ x # post \<and> k < length (f x) \<and> f x ! k = y \<and> i = length (concat (map f pre)) + k)"
  (is "?l \<longleftrightarrow> ?r")
proof
  assume ?l then show ?r using nth_concat_fwd [of i f xs] by metis
next
  assume ?r
  then obtain pre x post k where "xs = pre @ x # post" "k < length (f x)" "f x ! k = y" "i = length (concat (map f pre)) + k" by blast
  then show ?l using nth_concat_bwd [of k f x pre post] by simp
qed

lemma resolve_index:
  "resolve_link_target i registry (Some coord) = Some (a, c) \<longleftrightarrow>
   (\<exists>pre r post. rb_records registry = pre @ r # post \<and> a = rr_address r \<and>
      1 \<le> c \<and> c \<le> int (channels_of_record coord r) \<and>
      i = int (sum_list (map (channels_of_record coord) pre)) + c - 1)"
proof -
  let ?f = "\<lambda>r. map (\<lambda>ch. (rr_address r, int ch)) [1..<channels_of_record coord r + 1]"
  have len: "length (concat (map ?f rs)) = sum_list (map (channels_of_record coord) rs)" for rs
    by (induction rs) simp_all
  have "resolve_link_target i registry (Some coord) = Some (a, c) \<longleftrightarrow>
      0 \<le> i \<and> concat (map ?f (rb_records registry)) ! nat i = (a, c) \<and> nat i < length (concat (map ?f (rb_records registry)))"
    by (auto simp: resolve_link_target_def build_flat_channel_map_def Let_def)
  also have "\<dots> \<longleftrightarrow> 0 \<le> i \<and> (\<exists>pre r post k. rb_records registry = pre @ r # post \<and> k < length (?f r) \<and> ?f r ! k = (a, c) \<and>
      nat i = length (concat (map ?f pre)) + k)"
    by (simp only: nth_concat_blocks)
  also have "\<dots> \<longleftrightarrow> (\<exists>pre r post. rb_records registry = pre @ r # post \<and> a = rr_address r \<and>
      1 \<le> c \<and> c \<le> int (channels_of_record coord r) \<and> i = int (sum_list (map (channels_of_record coord) pre)) + c - 1)"
    (is "?l \<longleftrightarrow> ?r")
  proof
    assume ?l
    then obtain pre r post k where "0 \<le> i" "rb_records registry = pre @ r # post" "k < length (?f r)" "?f r ! k = (a, c)"
      "nat i = sum_list (map (channels_of_record coord) pre) + k" unfolding len by blast
    then show ?r by (intro exI [of _ pre] exI [of _ r] exI [of _ post]) (auto simp del: upt_Suc)
  next
    assume ?r
    then obtain pre r post where r: "rb_records registry = pre @ r # post" "a = rr_address r" "1 \<le> c"
      "c \<le> int (channels_of_record coord r)" "i = int (sum_list (map (channels_of_record coord) pre)) + c - 1" by blast
    then show ?l unfolding len
      by (intro conjI exI [of _ pre] exI [of _ r] exI [of _ post] exI [of _ "nat (c - 1)"]) (auto simp del: upt_Suc)
  qed
  finally show ?thesis .
qed


text \<open>
  The channel index of a link record and the output it names: index \<open>i\<close> resolves to a channel of a
  module exactly when that channel stands at position \<open>i\<close> behind all channels of the modules that
  precede it in the registry, modules without outputs counting for nothing.
\<close>

theorem resolve_link_target_iff:
  "resolve_link_target i registry (Some coord) = Some (a, c) \<longleftrightarrow>
   (\<exists>pre r post. rb_records registry = pre @ r # post \<and> a = rr_address r \<and>
      1 \<le> c \<and> c \<le> int (channels_of_record coord r) \<and>
      i = int (sum_list (map (channels_of_record coord) pre)) + c - 1)"
  by (rule resolve_index)

subsection \<open>A scan of a controller\<close>

definition registry_wf :: "registry_buffer \<Rightarrow> bool" where
  "registry_wf buf \<longleftrightarrow> rb_seen_addresses buf = rev (map (\<lambda>r. upper (rr_address r)) (rb_records buf)) \<and>
     distinct (rb_seen_addresses buf)"

lemma registry_wf_distinct: "registry_wf buf \<Longrightarrow> distinct (map (\<lambda>r. upper (rr_address r)) (rb_records buf))"
  unfolding registry_wf_def by (metis distinct_rev)

lemma registry_add_wf:
  "registry_wf buf \<Longrightarrow> registry_wf (snd (registry_add r buf))"
  "set (rb_records buf) \<subseteq> set (rb_records (snd (registry_add r buf)))"
  by (auto simp: registry_add_def registry_wf_def Let_def)

definition command_safe :: "coordinator option \<Rightarrow> registry_buffer \<Rightarrow> pydict \<Rightarrow> bool" where
  \<comment> \<open>the command names a registered module that drives outputs, and one of its channels\<close>
  "command_safe coordinator registry m \<longleftrightarrow> (\<exists>coord r c. coordinator = Some coord \<and> r \<in> set (rb_records registry) \<and>
     dict_get m ''module_address'' = PStr (rr_address r) \<and> dict_get m ''channel'' = PInt c \<and>
     rr_device_type r \<in> set OUTPUT_BEARING_DEVICE_TYPES \<and> 1 \<le> c \<and> c \<le> int (channels_of_record coord r))"

lemma command_safe_mono:
  "command_safe coordinator buf m \<Longrightarrow> set (rb_records buf) \<subseteq> set (rb_records buf') \<Longrightarrow> command_safe coordinator buf' m"
  unfolding command_safe_def by blast

lemma metadata_safe:
  assumes "link_record_to_decoded_metadata r registry coordinator source = Some m"
  shows "command_safe coordinator registry m"
proof -
  obtain a c where t: "resolve_link_target (lr_channel_index r) registry coordinator = Some (a, c)"
    and m: "dict_get m ''module_address'' = PStr a" "dict_get m ''channel'' = PInt c"
    using assms by (auto simp: link_record_to_decoded_metadata_def dict_get_def Let_def split: option.splits if_splits)
  obtain coord where c: "coordinator = Some coord"
    using t by (cases coordinator) (auto simp: resolve_link_target_def build_flat_channel_map_def split: if_splits)
  obtain pre r post where r: "rb_records registry = pre @ r # post" "a = rr_address r" "1 \<le> c" "c \<le> int (channels_of_record coord r)"
    using t unfolding c by (auto simp: resolve_index)
  then have "rr_device_type r \<in> set OUTPUT_BEARING_DEVICE_TYPES" by (auto simp: channels_of_record_def split: if_splits)
  then show ?thesis using r m c by (auto simp: command_safe_def)
qed

lemma decode_pc_chunk_safe:
  assumes "registry_wf buf"
  shows "registry_wf (fst (snd (decode_pc_chunk chunk ty coordinator buf counts)))"
    "set (rb_records buf) \<subseteq> set (rb_records (fst (snd (decode_pc_chunk chunk ty coordinator buf counts))))"
    "\<forall>m \<in> set (fst (decode_pc_chunk chunk ty coordinator buf counts)).
       command_safe coordinator (fst (snd (decode_pc_chunk chunk ty coordinator buf counts))) m"
  using registry_add_wf assms metadata_safe
  by (auto simp: decode_pc_chunk_def Let_def split: option.splits pc_record.splits)

fun pc_link_scan :: "string list \<Rightarrow> pc_link_decoder \<Rightarrow> pydict list \<times> pc_link_decoder" where
  \<comment> \<open>the chunks of a scan, one after the other\<close>
  "pc_link_scan [] d = ([], d)"
| "pc_link_scan (c # cs) d = (let (ms, d) = pc_link_decode_chunk c d; (ms', d) = pc_link_scan cs d in (ms @ ms', d))"

definition scan_safe :: "coordinator option \<Rightarrow> registry_buffer \<Rightarrow> pydict list \<Rightarrow> registry_buffer \<Rightarrow> bool" where
  "scan_safe coordinator buf ms buf' \<longleftrightarrow> registry_wf buf' \<and> set (rb_records buf) \<subseteq> set (rb_records buf') \<and>
     (\<forall>m \<in> set ms. command_safe coordinator buf' m)"

lemma pc_link_scan_step:
  assumes "registry_wf (pl_registry d)"
  shows "scan_safe (chunk_coordinator (pl_base d)) (pl_registry d) (fst (pc_link_scan cs d)) (pl_registry (snd (pc_link_scan cs d)))"
  using assms
proof (induction cs arbitrary: d)
  case Nil
  then show ?case by (simp add: scan_safe_def)
next
  case (Cons c cs)
  obtain ms buf counts where k: "decode_pc_chunk (upper (py_strip c)) (module_type (pl_base d))
      (chunk_coordinator (pl_base d)) (pl_registry d) (pl_counts d) = (ms, buf, counts)" by (metis prod_cases3)
  let ?d = "d\<lparr>pl_registry := buf, pl_counts := counts\<rparr>"
  obtain ms' d' where t: "pc_link_scan cs ?d = (ms', d')" by force
  have s: "pc_link_scan (c # cs) d = (ms @ ms', d')" by (simp add: pc_link_decode_chunk_def k t)
  note one = decode_pc_chunk_safe [OF Cons.prems, of "upper (py_strip c)" "module_type (pl_base d)" "chunk_coordinator (pl_base d)" "pl_counts d",
    unfolded k fst_conv snd_conv]
  have "scan_safe (chunk_coordinator (pl_base d)) buf ms' (pl_registry d')"
    using Cons.IH [of ?d] one(1) by (simp add: t)
  then show ?case unfolding s fst_conv snd_conv using one(2,3)
    by (auto simp: scan_safe_def intro: command_safe_mono)
qed

text \<open>
  Whatever a PC-Link's memory holds, a scan of it registers no module twice, and every link it
  emits names a module that the scan registered, of a type that drives outputs, and one of the
  channels that module has.
\<close>

theorem pc_link_scan_safe:
  "distinct (map (\<lambda>r. upper (rr_address r)) (rb_records (pl_registry (snd (pc_link_scan cs (new_pc_link_decoder coordinator)))))) \<and>
   (\<forall>m \<in> set (fst (pc_link_scan cs (new_pc_link_decoder coordinator))).
      command_safe coordinator (pl_registry (snd (pc_link_scan cs (new_pc_link_decoder coordinator)))) m)"
proof -
  have wf: "registry_wf (pl_registry (new_pc_link_decoder coordinator))"
    by (simp add: new_pc_link_decoder_def empty_registry_def registry_wf_def)
  have c: "chunk_coordinator (pl_base (new_pc_link_decoder coordinator)) = coordinator"
    by (simp add: new_pc_link_decoder_def new_chunker_def)
  show ?thesis using pc_link_scan_step [OF wf, of cs] by (simp add: c scan_safe_def registry_wf_distinct)
qed

theorem pc_link_scan_safe_witness:
  "distinct (map (\<lambda>r. upper (rr_address r)) (rb_records (pl_registry (snd (pc_link_scan
       [''03000000010000000747000001000000'', ''02000000010000004C310B0001000000''] (new_pc_link_decoder None))))))"
  using pc_link_scan_safe [of "[''03000000010000000747000001000000'', ''02000000010000004C310B0001000000'']" None] by simp

end
