(* ===== verification/Pc_Logic.thy ===== *)
theory Pc_Logic
  imports Pc_Records
begin

section \<open>The decoder of the PC-Logic\<close>

text \<open>
  \<open>discovery/pc_logic_decoder.py\<close>: besides the controllers' records, the table of the keys that feed the
  module's own logic (a count at byte 998, six-byte records from byte 1000, read block by block) and the
  table of the frames its logic can put on the bus, found in the stream of its records.
\<close>

definition PC_LOGIC_INPUT_COUNT_ADDRESS :: int where "PC_LOGIC_INPUT_COUNT_ADDRESS = 998"
definition PC_LOGIC_INPUT_TABLE_ADDRESS :: int where "PC_LOGIC_INPUT_TABLE_ADDRESS = 1000"
definition PC_LOGIC_INPUT_MAX_RECORDS :: int where "PC_LOGIC_INPUT_MAX_RECORDS = 1536"
definition INPUT_RECORD_LEN :: nat where "INPUT_RECORD_LEN = 6"
definition INPUT_FIRST_BLOCK :: int where "INPUT_FIRST_BLOCK = PC_LOGIC_INPUT_COUNT_ADDRESS div 16"
definition INPUT_STREAM_OFFSET :: nat where
  "INPUT_STREAM_OFFSET = nat (PC_LOGIC_INPUT_COUNT_ADDRESS - INPUT_FIRST_BLOCK * 16)"
definition INPUT_TABLE_LAST_BLOCK :: int where
  "INPUT_TABLE_LAST_BLOCK = (PC_LOGIC_INPUT_TABLE_ADDRESS + PC_LOGIC_INPUT_MAX_RECORDS * int INPUT_RECORD_LEN - 1) div 16"

definition input_table_last_block :: "int option \<Rightarrow> int" where
  "input_table_last_block count = (case count of
       None \<Rightarrow> INPUT_FIRST_BLOCK + 1
     | Some c \<Rightarrow> if c \<le> 0 then INPUT_FIRST_BLOCK
         else min ((PC_LOGIC_INPUT_TABLE_ADDRESS + c * int INPUT_RECORD_LEN - 1) div 16) INPUT_TABLE_LAST_BLOCK)"

definition decode_input_link :: "byte list \<Rightarrow> pydict option res" where
  "decode_input_link record =
     (if length record \<noteq> INPUT_RECORD_LEN \<or> list_all (\<lambda>b. b = 0xFF) record then Inr None
      else let addr = (int (unat (record ! 0)) * 256 + int (unat (record ! 1))) * 256 + int (unat (record ! 2));
               stored = fmt_hex 6 addr
           in res_bind (reverse_hex stored) (\<lambda>reversed. Inr (Some
                [(''record_address'', PStr stored),
                 (''button_address'', case get_button_address reversed of None \<Rightarrow> PNone | Some b \<Rightarrow> PStr b),
                 (''wire_address'', PStr (fmt_hex 6 (reverse_24 addr))),
                 (''key_code'', PInt (addr AND 0x07)), (''input_index'', PInt (int (unat (record ! 3)))),
                 (''slot'', PInt (int (unat (record ! 4)))), (''mode_raw'', PInt (int (unat (record ! 5)))),
                 (''raw'', PStr (hex_of record)), (''record_source'', PStr ''pc_logic_input_table'')])))"

subsection \<open>The logic outputs\<close>

definition LOGIC_OUTPUT_TABLE_MIN :: nat where "LOGIC_OUTPUT_TABLE_MIN = 8"

definition output_unit :: "string \<Rightarrow> bool" where
  \<comment> \<open>\<open>0000[0-9A-F]{4}87\<close> at the head\<close>
  "output_unit s \<longleftrightarrow> 10 \<le> length s \<and> take 4 s = ''0000'' \<and>
     list_all (\<lambda>c. is_hex c \<and> upper_char c = c) (slice 4 8 s) \<and> slice 8 10 s = ''87''"

function unit_run :: "string \<Rightarrow> nat" where
  \<comment> \<open>how many units the greedy match takes at the head\<close>
  "unit_run s = (if output_unit s then Suc (unit_run (drop 10 s)) else 0)"
  by pat_completeness auto
termination by (relation "measure length") (auto simp: output_unit_def)

declare unit_run.simps [simp del]

function output_runs :: "string \<Rightarrow> string list" where
  \<comment> \<open>\<open>finditer\<close>: the matches from left to right\<close>
  "output_runs s = (if s = [] then []
     else let n = unit_run s in
       if n = 0 then output_runs (tl s) else take (10 * n) s # output_runs (drop (10 * n) s))"
  by pat_completeness auto
termination by (relation "measure length") auto

declare output_runs.simps [simp del]

definition longest_run :: "string list \<Rightarrow> string" where
  \<comment> \<open>the first of the longest\<close>
  "longest_run runs = fold (\<lambda>m best. if length m > length best then m else best) runs []"

definition parse_logic_output_table :: "string \<Rightarrow> string list" where
  "parse_logic_output_table stream_hex =
     (let best = longest_run (output_runs (upper stream_hex));
          entries = map (\<lambda>k. slice (10 * k + 4) (10 * k + 10) best) [0..<(length best + 9) div 10]
      in if length entries \<ge> LOGIC_OUTPUT_TABLE_MIN then entries else [])"

subsection \<open>The decoder\<close>

record pc_logic_decoder =
  lo_base :: chunker
  lo_registry :: registry_buffer
  lo_counts :: scan_counts
  lo_current_block :: "int option"
  input_stream :: "byte list"
  input_count :: "int option"
  input_broken :: bool
  lo_extension_from :: "int option"
  input_links :: "pydict list"
  input_links_by_module :: "(string \<times> pydict list) list"
  chunk_stream :: "string list"
  logic_outputs_by_module :: "(string \<times> string list) list"

definition new_pc_logic_decoder :: "coordinator option \<Rightarrow> pc_logic_decoder" where
  "new_pc_logic_decoder coord = \<lparr>lo_base = new_chunker coord ''pc_logic'', lo_registry = empty_registry,
     lo_counts = zero_counts, lo_current_block = None, input_stream = [], input_count = None, input_broken = False,
     lo_extension_from = None, input_links = [], input_links_by_module = [], chunk_stream = [],
     logic_outputs_by_module = []\<rparr>"

definition pc_logic_reset_scan_buffers :: "pc_logic_decoder \<Rightarrow> pc_logic_decoder" where
  "pc_logic_reset_scan_buffers d0 =
     (let d = d0\<lparr>lo_base := reset_scan_buffers (lo_base d0)\<rparr>;
          d = (case (input_count d, chunk_address (lo_base d)) of
                 (Some _, Some (x # a)) \<Rightarrow>
                   d\<lparr>input_links_by_module := AList.update (x # a) (input_links d) (input_links_by_module d)\<rparr>
               | _ \<Rightarrow> d);
          d = (case chunk_address (lo_base d) of
                 Some (x # a) \<Rightarrow>
                   if chunk_stream d = [] then d
                   else let outputs = parse_logic_output_table (concat (chunk_stream d)) in
                     if outputs = [] then d
                     else d\<lparr>logic_outputs_by_module := AList.update (x # a) outputs (logic_outputs_by_module d)\<rparr>
               | _ \<Rightarrow> d)
      in d\<lparr>lo_counts := zero_counts, lo_registry := registry_reset (lo_registry d), chunk_stream := [],
           lo_current_block := None, input_stream := [], input_count := None, input_broken := False,
           lo_extension_from := None, input_links := []\<rparr>)"

definition pc_block_index :: "string \<Rightarrow> int \<Rightarrow> int option" where
  "pc_block_index sub_byte register = map_option (\<lambda>s. push_bit 8 s OR register) (py_int16 sub_byte)"

definition pc_logic_set_current_block :: "string \<Rightarrow> int \<Rightarrow> pc_logic_decoder \<Rightarrow> pc_logic_decoder" where
  "pc_logic_set_current_block sub_byte register d = d\<lparr>lo_current_block := pc_block_index sub_byte register\<rparr>"

definition pc_logic_extension_passes :: "pc_logic_decoder \<Rightarrow> (string \<times> int list) list \<times> pc_logic_decoder" where
  "pc_logic_extension_passes d = (case input_count d of
       None \<Rightarrow> ([], d)
     | Some count \<Rightarrow>
         if input_broken d \<or> int (length (input_links d)) \<ge> count then ([], d)
         else let have_bytes = length (input_stream d);
                  first = INPUT_FIRST_BLOCK + int (have_bytes div 16)
              in if (case lo_extension_from d of None \<Rightarrow> False | Some f \<Rightarrow> first \<le> f) then ([], d)
                 else let last_read = input_table_last_block (Some count) in
                   if last_read < first then ([], d)
                   else (blocks_to_sections first last_read, d\<lparr>lo_extension_from := Some first\<rparr>))"

function input_loop :: "int \<Rightarrow> byte list \<Rightarrow> pydict list \<Rightarrow> int \<times> pydict list" where
  \<comment> \<open>the loop over the complete records of the stream: the count and the links; decoding a record never
     raises (\<open>decode_input_link_total\<close>)\<close>
  "input_loop count stream links =
     (if int (length links) < count then
        let begin = INPUT_STREAM_OFFSET + 2 + length links * INPUT_RECORD_LEN;
            stop = begin + INPUT_RECORD_LEN
        in if stop > length stream then (count, links)
           else (case decode_input_link (slice begin stop stream) of
                   Inl _ \<Rightarrow> (count, links)
                 | Inr None \<Rightarrow> (int (length links), links)
                 | Inr (Some l) \<Rightarrow> input_loop count stream (links @ [l]))
      else (count, links))"
  by pat_completeness auto
termination by (relation "measure (\<lambda>(count, _, links). nat (count - int (length links)))") auto

declare input_loop.simps [simp del]

definition read_input_count :: "pc_logic_decoder \<Rightarrow> pc_logic_decoder" where
  \<comment> \<open>the count, once its two bytes are in\<close>
  "read_input_count d =
     (let count = int (unat (input_stream d ! INPUT_STREAM_OFFSET)) + 256 * int (unat (input_stream d ! (INPUT_STREAM_OFFSET + 1)))
      in d\<lparr>input_count := Some (if count > PC_LOGIC_INPUT_MAX_RECORDS then 0 else count)\<rparr>)"

definition absorb_input_block :: "int \<Rightarrow> string \<Rightarrow> pc_logic_decoder \<Rightarrow> pc_logic_decoder" where
  "absorb_input_block block data_hex d =
     (if input_broken d then d
      else if block \<noteq> INPUT_FIRST_BLOCK + int (length (input_stream d) div 16) then d\<lparr>input_broken := True\<rparr>
      else (case bytes_fromhex data_hex of
          None \<Rightarrow> d\<lparr>input_broken := True\<rparr>
        | Some bs \<Rightarrow>
            let d = d\<lparr>input_stream := input_stream d @ bs\<rparr> in
            if input_count d = None \<and> length (input_stream d) < INPUT_STREAM_OFFSET + 2 then d
            else let d = (if input_count d = None then read_input_count d else d);
                     (count, links) = input_loop (the (input_count d)) (input_stream d) (input_links d)
                 in d\<lparr>input_count := Some count, input_links := links\<rparr>))"

definition pc_logic_analyze :: "string \<Rightarrow> string \<Rightarrow> pc_logic_decoder \<Rightarrow> frame_analysis option res \<times> pc_logic_decoder" where
  "pc_logic_analyze payload_buffer payload_and_crc0 d =
     (case lo_current_block d of
        Some block \<Rightarrow>
          if INPUT_FIRST_BLOCK \<le> block \<and> block \<le> input_table_last_block (input_count d) then
            let payload_and_crc = upper payload_and_crc0 in
            if length payload_and_crc < 6 then (Inr None, d)
            else let region = but_last 6 payload_and_crc in
              (Inr (Some \<lparr>fa_crc = last_of 6 payload_and_crc, payload_region = region, chunks = [],
                          remainder = payload_buffer, misaligned = False\<rparr>),
               absorb_input_block block region d)
          else let (r, c) = analyze_frame_payload payload_buffer payload_and_crc0 (lo_base d) in (r, d\<lparr>lo_base := c\<rparr>)
      | None \<Rightarrow> let (r, c) = analyze_frame_payload payload_buffer payload_and_crc0 (lo_base d) in (r, d\<lparr>lo_base := c\<rparr>))"

definition pc_logic_decode_chunk :: "string \<Rightarrow> pc_logic_decoder \<Rightarrow> pydict list \<times> pc_logic_decoder" where
  "pc_logic_decode_chunk chunk0 d =
     (let chunk = upper (py_strip chunk0);
          d = d\<lparr>chunk_stream := chunk_stream d @ [chunk]\<rparr>;
          (cmds, registry, counts) = decode_pc_chunk chunk (module_type (lo_base d))
            (chunk_coordinator (lo_base d)) (lo_registry d) (lo_counts d)
      in (cmds, d\<lparr>lo_registry := registry, lo_counts := counts\<rparr>))"

subsection \<open>The input table, read block by block\<close>

lemma hexw_three:
  assumes "x < 256" "y < 256" "z < 256"
  shows "hexw 6 ((x * 256 + y) * 256 + z) = hexw 2 x @ hexw 2 y @ hexw 2 z"
proof -
  let ?n = "(x * 256 + y) * 256 + z"
  have "hexw 6 ?n = hexw 2 (?n div 65536) @ hexw 2 (?n div 256) @ hexw 2 ?n"
    using hexw_append [of 2 4 ?n] hexw_append [of 2 2 ?n] by (simp del: hexw.simps)
  moreover have d: "?n div 256 = x * 256 + y" "(x * 256 + y) div 256 = x" using assms by simp_all
  moreover have "?n mod 256 = z mod 256" by (rule mod_mult_self3)
  then have "?n mod 256 = z" using assms(3) by simp
  moreover have "?n div 65536 = x" using d(1,2) div_mult2_eq [of ?n 256 256] by simp
  moreover have "hexw 2 (x * 256 + y) = hexw 2 y" "hexw 2 ?n = hexw 2 (?n mod 256)"
    using hexw_mod [of 2 "x * 256 + y"] hexw_mod [of 2 ?n] assms by (simp_all del: hexw.simps)
  ultimately show ?thesis by (simp del: hexw.simps)
qed

lemma three_bytes:
  fixes x y z :: nat
  assumes "x < 256" "y < 256" "z < 256" shows "(x * 256 + y) * 256 + z < 16 ^ 6"
proof -
  have "x * 256 + y \<le> 65535" using assms by simp
  then have "(x * 256 + y) * 256 \<le> 65535 * 256" by (rule mult_right_mono) simp
  then show ?thesis using assms(3) by simp
qed

lemma fmt_hex_three: "fmt_hex 6 ((int (unat x) * 256 + int (unat y)) * 256 + int (unat z)) = hex_of [x, y, z]" for x y z :: byte
proof -
  have b: "unat x < 256" "unat y < 256" "unat z < 256" by simp_all
  have i: "(int (unat x) * 256 + int (unat y)) * 256 + int (unat z) = int ((unat x * 256 + unat y) * 256 + unat z)" by simp
  have "(unat x * 256 + unat y) * 256 + unat z < 16 ^ 6" using b by (rule three_bytes)
  then have "fmt_hex 6 (int ((unat x * 256 + unat y) * 256 + unat z)) = hexw 6 ((unat x * 256 + unat y) * 256 + unat z)"
    by (rule fmt_hex_nat) simp
  then show ?thesis unfolding i hexw_three [OF b] by (simp add: byte_hex_hexw del: hexw.simps)
qed

definition input_link_of :: "byte list \<Rightarrow> pydict" where
  \<comment> \<open>the entry of a record that is not erased\<close>
  "input_link_of r = (case decode_input_link r of Inr (Some l) \<Rightarrow> l | _ \<Rightarrow> [])"

definition input_record_ok :: "byte list \<Rightarrow> bool" where
  "input_record_ok r \<longleftrightarrow> length r = 6 \<and> \<not> list_all (\<lambda>b. b = 0xFF) r"

lemma decode_input_link_total: "length r = 6 \<Longrightarrow> \<exists>l. decode_input_link r = Inr l"
proof -
  have "reverse_hex (hex_of [r ! 0, r ! 1, r ! 2]) = Inr (hex_of [r ! 2, r ! 1, r ! 0])"
    unfolding reverse_hex_def bytes_fromhex_hex_of by simp
  then show ?thesis unfolding decode_input_link_def Let_def fmt_hex_three by simp
qed

lemma decode_input_link_ok: "input_record_ok r \<Longrightarrow> decode_input_link r = Inr (Some (input_link_of r))"
proof -
  have "reverse_hex (hex_of [r ! 0, r ! 1, r ! 2]) = Inr (hex_of [r ! 2, r ! 1, r ! 0])"
    unfolding reverse_hex_def bytes_fromhex_hex_of by simp
  then show "input_record_ok r \<Longrightarrow> decode_input_link r = Inr (Some (input_link_of r))"
    unfolding input_link_of_def decode_input_link_def Let_def fmt_hex_three
    by (simp add: input_record_ok_def INPUT_RECORD_LEN_def)
qed

definition complete_records :: "nat \<Rightarrow> nat \<Rightarrow> nat" where
  \<comment> \<open>how many of \<open>n\<close> records a stream of \<open>l\<close> bytes holds completely\<close>
  "complete_records n l = min n ((l - 8) div 6)"

lemma nth_record:
  "\<forall>r \<in> set recs. length r = k \<Longrightarrow> i < length recs \<Longrightarrow> slice (i * k) (i * k + k) (concat recs @ rest) = recs ! i"
proof (induction recs arbitrary: i)
  case (Cons r recs)
  then show ?case by (cases i) (simp_all add: slice_def add.commute)
qed simp

lemma input_loop_step:
  "input_loop count s links =
     (if int (length links) < count then
        if 8 + length links * 6 + 6 > length s then (count, links)
        else (case decode_input_link (slice (8 + length links * 6) (8 + length links * 6 + 6) s) of
                Inl _ \<Rightarrow> (count, links)
              | Inr None \<Rightarrow> (int (length links), links)
              | Inr (Some l) \<Rightarrow> input_loop count s (links @ [l]))
      else (count, links))"
proof -
  have o: "INPUT_STREAM_OFFSET + 2 = 8" "INPUT_RECORD_LEN = 6"
    by (simp_all add: INPUT_STREAM_OFFSET_def INPUT_FIRST_BLOCK_def PC_LOGIC_INPUT_COUNT_ADDRESS_def INPUT_RECORD_LEN_def)
  show ?thesis by (subst input_loop.simps) (simp only: o Let_def)
qed

lemma input_loop_table:
  assumes recs: "\<forall>r \<in> set recs. input_record_ok r" and s: "take l (pre @ c @ concat recs @ rest) = s"
    and l: "length pre = 6" "length c = 2" "l \<le> length (pre @ c @ concat recs @ rest)"
    and i: "i \<le> complete_records (length recs) l"
  shows "input_loop (int (length recs)) s (map input_link_of (take i recs)) =
    (int (length recs), map input_link_of (take (complete_records (length recs) l) recs))"
  using i
proof (induction "complete_records (length recs) l - i" arbitrary: i)
  case 0
  then have i: "i = complete_records (length recs) l" by simp
  have len: "length s = l" using s l(3) by auto
  show ?case
  proof (cases "i < length recs")
    case True
    then have "i = (l - 8) div 6" using i by (simp add: complete_records_def)
    then have "\<not> 8 + i * 6 + 6 \<le> l" by presburger
    then show ?thesis using True len by (subst input_loop_step) (simp flip: i add: min_absorb2)
  next
    case False
    then show ?thesis using i by (subst input_loop_step) (simp add: complete_records_def)
  qed
next
  case (Suc k)
  have lt: "i < length recs" "i < (l - 8) div 6" using Suc(2) by (simp_all add: complete_records_def)
  have len: "length s = l" using s l(3) by auto
  have e: "8 + i * 6 + 6 \<le> l" using lt(2) by presburger
  have "slice (8 + i * 6) (8 + i * 6 + 6) s = slice (8 + i * 6) (8 + i * 6 + 6) (pre @ c @ concat recs @ rest)"
    using e unfolding s [symmetric] slice_def drop_take take_take by (simp add: min_absorb1)
  also have "\<dots> = slice (i * 6) (i * 6 + 6) (concat recs @ rest)" using l(1,2) by (simp add: slice_def)
  also have "\<dots> = recs ! i" using recs lt(1) by (intro nth_record) (auto simp: input_record_ok_def)
  finally have sl: "slice (8 + i * 6) (8 + i * 6 + 6) s = recs ! i" .
  have d: "decode_input_link (recs ! i) = Inr (Some (input_link_of (recs ! i)))"
    using recs lt(1) by (intro decode_input_link_ok) simp
  have t: "map input_link_of (take i recs) @ [input_link_of (recs ! i)] = map input_link_of (take (Suc i) recs)"
    using lt(1) by (simp add: take_Suc_conv_app_nth)
  have "input_loop (int (length recs)) s (map input_link_of (take i recs)) =
      input_loop (int (length recs)) s (map input_link_of (take (Suc i) recs))"
    using lt(1) e len sl d unfolding t [symmetric] by (subst input_loop_step) (simp add: min_absorb2)
  also have "\<dots> = (int (length recs), map input_link_of (take (complete_records (length recs) l) recs))"
  proof (rule Suc(1))
    show "k = complete_records (length recs) l - Suc i" using Suc(2) by simp
    show "Suc i \<le> complete_records (length recs) l" using lt by (simp add: complete_records_def)
  qed
  finally show ?case .
qed

definition read_input_block :: "int \<Rightarrow> byte list \<times> string \<Rightarrow> pc_logic_decoder \<Rightarrow> pc_logic_decoder" where
  \<comment> \<open>one turn of the scan: the block is announced, and its answer (data and checksum) analysed\<close>
  "read_input_block block answer d = snd (pc_logic_analyze [] (hex_of (fst answer) @ snd answer) (d\<lparr>lo_current_block := Some block\<rparr>))"

fun read_input_blocks :: "int \<Rightarrow> (byte list \<times> string) list \<Rightarrow> pc_logic_decoder \<Rightarrow> pc_logic_decoder" where
  "read_input_blocks block [] d = d"
| "read_input_blocks block (a # as) d = read_input_blocks (block + 1) as (read_input_block block a d)"

definition table_image :: "byte list \<Rightarrow> byte list list \<Rightarrow> byte list \<Rightarrow> byte list" where
  \<comment> \<open>the memory from block \<open>0x3E\<close> on: six bytes of something else, the count, the records, what follows\<close>
  "table_image pre recs rest = pre @ [of_nat (length recs), of_nat (length recs div 256)] @ concat recs @ rest"

definition table_state :: "byte list list \<Rightarrow> byte list \<Rightarrow> pc_logic_decoder \<Rightarrow> bool" where
  \<comment> \<open>the decoder has read the stream \<open>s\<close> and knows every record that is complete in it\<close>
  "table_state recs s d \<longleftrightarrow> \<not> input_broken d \<and> input_stream d = s \<and> input_count d = Some (int (length recs)) \<and>
     input_links d = map input_link_of (take (complete_records (length recs) (length s)) recs)"

lemma input_offsets: "INPUT_STREAM_OFFSET = 6" "INPUT_FIRST_BLOCK = 62"
  by (simp_all add: INPUT_STREAM_OFFSET_def INPUT_FIRST_BLOCK_def PC_LOGIC_INPUT_COUNT_ADDRESS_def)

lemma last_block_of_count:
  "0 < n \<Longrightarrow> n \<le> 1536 \<Longrightarrow> input_table_last_block (Some (int n)) = (999 + 6 * int n) div 16"
proof -
  assume n: "0 < n" "n \<le> 1536"
  have "(999 + 6 * int n) div 16 \<le> (999 + 6 * 1536) div 16" using n by (intro zdiv_mono1) simp_all
  then show ?thesis using n
    by (simp add: input_table_last_block_def PC_LOGIC_INPUT_TABLE_ADDRESS_def INPUT_RECORD_LEN_def INPUT_TABLE_LAST_BLOCK_def
      PC_LOGIC_INPUT_MAX_RECORDS_def min_absorb1 algebra_simps)
qed

lemma read_input_block_absorbs:
  assumes "length crc = 6" "62 \<le> block" "block \<le> input_table_last_block (input_count d)"
  shows "read_input_block block (data, crc) d = absorb_input_block block (hex_of data) (d\<lparr>lo_current_block := Some block\<rparr>)"
  using assms by (simp add: read_input_block_def pc_logic_analyze_def input_offsets Let_def)

lemma absorb_known:
  assumes "\<not> input_broken d" "block = 62 + int (length (input_stream d) div 16)" "input_count d = Some n"
  shows "absorb_input_block block (hex_of data) d =
    (let s = input_stream d @ data; (count, links) = input_loop n s (input_links d)
     in d\<lparr>input_stream := s, input_count := Some count, input_links := links\<rparr>)"
  using assms by (simp add: absorb_input_block_def input_offsets Let_def split_def)

lemma absorb_first:
  assumes "\<not> input_broken d" "input_stream d = []" "input_count d = None" "8 \<le> length data" "input_links d = []"
    and "int (unat (data ! 6)) + 256 * int (unat (data ! 7)) = n" "n \<le> 1536"
  shows "absorb_input_block 62 (hex_of data) d =
    (let (count, links) = input_loop n data []
     in d\<lparr>input_stream := data, input_count := Some count, input_links := links\<rparr>)"
  using assms by (simp add: absorb_input_block_def input_offsets Let_def split_def read_input_count_def PC_LOGIC_INPUT_MAX_RECORDS_def)

lemma read_known_block:
  assumes recs: "\<forall>r \<in> set recs. input_record_ok r" "length pre = 6" "recs \<noteq> []" "length recs \<le> 1536"
    and st: "table_state recs s d" "length s mod 16 = 0" and M: "table_image pre recs rest = s @ data @ later"
    and b: "62 + int (length s div 16) \<le> input_table_last_block (Some (int (length recs)))" and crc: "length crc = 6"
  shows "table_state recs (s @ data) (read_input_block (62 + int (length s div 16)) (data, crc) d)"
    "lo_extension_from (read_input_block (62 + int (length s div 16)) (data, crc) d) = lo_extension_from d"
proof -
  let ?d = "d\<lparr>lo_current_block := Some (62 + int (length s div 16))\<rparr>" and ?l = "length (s @ data)"
  have t: "\<not> input_broken ?d" "input_stream ?d = s" "input_count ?d = Some (int (length recs))"
    "input_links ?d = map input_link_of (take (complete_records (length recs) (length s)) recs)"
    using st(1) by (simp_all add: table_state_def)
  have r: "read_input_block (62 + int (length s div 16)) (data, crc) d = absorb_input_block (62 + int (length s div 16)) (hex_of data) ?d"
    using b t(3) by (intro read_input_block_absorbs [OF crc]) simp_all
  have f1: "take ?l (pre @ [of_nat (length recs), of_nat (length recs div 256)] @ concat recs @ rest) = s @ data"
    using M by (simp add: table_image_def)
  have f2: "complete_records (length recs) (length s) \<le> complete_records (length recs) ?l"
    unfolding complete_records_def by (intro min.mono div_le_mono diff_le_mono) simp_all
  have f3: "?l \<le> length (pre @ [of_nat (length recs), of_nat (length recs div 256)] @ concat recs @ rest)"
    using M by (simp only: table_image_def) simp
  have "input_loop (int (length recs)) (s @ data) (input_links ?d) =
      (int (length recs), map input_link_of (take (complete_records (length recs) ?l) recs))"
    unfolding t(4) by (rule input_loop_table [OF recs(1) f1 recs(2) _ f3 f2]) simp
  then have "absorb_input_block (62 + int (length s div 16)) (hex_of data) ?d = ?d\<lparr>input_stream := s @ data,
      input_count := Some (int (length recs)), input_links := map input_link_of (take (complete_records (length recs) ?l) recs)\<rparr>"
    using absorb_known [OF t(1) _ t(3), of "62 + int (length s div 16)" data] t(2) by (simp add: Let_def)
  then show "table_state recs (s @ data) (read_input_block (62 + int (length s div 16)) (data, crc) d)"
    "lo_extension_from (read_input_block (62 + int (length s div 16)) (data, crc) d) = lo_extension_from d"
    unfolding r using t(1) by (simp_all add: table_state_def)
qed

lemma read_known_blocks:
  assumes recs: "\<forall>r \<in> set recs. input_record_ok r" "length pre = 6" "recs \<noteq> []" "length recs \<le> 1536"
    and st: "table_state recs s d" "length s mod 16 = 0" and M: "table_image pre recs rest = s @ concat (map fst as) @ later"
    and b: "61 + int (length s div 16) + int (length as) \<le> input_table_last_block (Some (int (length recs)))"
    and as: "\<forall>a \<in> set as. length (fst a) = 16 \<and> length (snd a) = 6"
  shows "table_state recs (s @ concat (map fst as)) (read_input_blocks (62 + int (length s div 16)) as d) \<and>
    lo_extension_from (read_input_blocks (62 + int (length s div 16)) as d) = lo_extension_from d"
  using st M b as
proof (induction as arbitrary: s d)
  case Nil
  then show ?case by simp
next
  case (Cons a as)
  obtain data crc where a: "a = (data, crc)" "length data = 16" "length crc = 6" using Cons.prems(5) by (cases a) auto
  let ?d = "read_input_block (62 + int (length s div 16)) (data, crc) d"
  have M: "table_image pre recs rest = s @ data @ (concat (map fst as) @ later)" using Cons.prems(3) a(1) by simp
  have "62 + int (length s div 16) \<le> input_table_last_block (Some (int (length recs)))" using Cons.prems(4) by simp
  note one = read_known_block [OF recs Cons.prems(1,2) M this a(3)]
  have l: "length (s @ data) div 16 = length s div 16 + 1" "length (s @ data) mod 16 = 0" using a(2) Cons.prems(2) by simp_all
  have i: "62 + int (length (s @ data) div 16) = 62 + int (length s div 16) + 1" using l(1) by simp
  have "table_state recs ((s @ data) @ concat (map fst as)) (read_input_blocks (62 + int (length (s @ data) div 16)) as ?d) \<and>
    lo_extension_from (read_input_blocks (62 + int (length (s @ data) div 16)) as ?d) = lo_extension_from ?d"
  proof (rule Cons.IH [OF one(1) l(2)])
    show "table_image pre recs rest = (s @ data) @ concat (map fst as) @ later" using M by simp
    show "61 + int (length (s @ data) div 16) + int (length as) \<le> input_table_last_block (Some (int (length recs)))"
      using Cons.prems(4) i by simp
    show "\<forall>a \<in> set as. length (fst a) = 16 \<and> length (snd a) = 6" using Cons.prems(5) by simp
  qed
  then show ?case unfolding i using one(2) by (simp add: a(1))
qed

lemma read_first_block:
  assumes recs: "\<forall>r \<in> set recs. input_record_ok r" "length pre = 6" "recs \<noteq> []" "length recs \<le> 1536"
    and M: "table_image pre recs rest = data @ later" and a: "length data = 16" "length crc = 6"
  shows "table_state recs data (read_input_block 62 (data, crc) (new_pc_logic_decoder coord))"
    "lo_extension_from (read_input_block 62 (data, crc) (new_pc_logic_decoder coord)) = None"
proof -
  let ?n = "length recs" and ?d = "(new_pc_logic_decoder coord)\<lparr>lo_current_block := Some 62\<rparr>"
  have f1: "take (length data) (pre @ [of_nat ?n, of_nat (?n div 256)] @ concat recs @ rest) = data"
    using M by (simp add: table_image_def)
  have f3: "length data \<le> length (pre @ [of_nat ?n, of_nat (?n div 256)] @ concat recs @ rest)"
    using M by (simp only: table_image_def) simp
  have "data ! 6 = (data @ later) ! 6" "data ! 7 = (data @ later) ! 7" using a(1) by (simp_all add: nth_append)
  then have c: "data ! 6 = of_nat ?n" "data ! 7 = of_nat (?n div 256)"
    unfolding M [symmetric] using recs(2) by (simp_all add: table_image_def nth_append)
  have "int (unat (of_nat ?n :: byte)) + 256 * int (unat (of_nat (?n div 256) :: byte)) = int (?n mod 256 + 256 * (?n div 256 mod 256))"
    by (simp add: unat_of_nat del: of_nat_mod)
  also have "\<dots> = int ?n" using recs(4) by simp
  finally have n: "int (unat (data ! 6)) + 256 * int (unat (data ! 7)) = int ?n" unfolding c .
  have r: "read_input_block 62 (data, crc) (new_pc_logic_decoder coord) = absorb_input_block 62 (hex_of data) ?d"
    by (intro read_input_block_absorbs [OF a(2)]) (simp_all add: new_pc_logic_decoder_def input_table_last_block_def input_offsets)
  have "input_loop (int ?n) data (map input_link_of (take 0 recs)) =
      (int ?n, map input_link_of (take (complete_records ?n (length data)) recs))"
    by (rule input_loop_table [OF recs(1) f1 recs(2) _ f3]) simp_all
  then have "absorb_input_block 62 (hex_of data) ?d = ?d\<lparr>input_stream := data, input_count := Some (int ?n),
      input_links := map input_link_of (take (complete_records ?n (length data)) recs)\<rparr>"
    using absorb_first [OF _ _ _ _ _ n, of ?d] a(1) recs(4) by (simp add: new_pc_logic_decoder_def)
  then show "table_state recs data (read_input_block 62 (data, crc) (new_pc_logic_decoder coord))"
    "lo_extension_from (read_input_block 62 (data, crc) (new_pc_logic_decoder coord)) = None"
    unfolding r by (simp_all add: table_state_def new_pc_logic_decoder_def)
qed

lemma extension_of_state:
  assumes st: "table_state recs s d" "length s = 16 * k" "0 < k" "lo_extension_from d = None" and n: "recs \<noteq> []" "length recs \<le> 1536"
    and k: "61 + int k \<le> input_table_last_block (Some (int (length recs)))"
  shows "concat (map section_blocks (fst (pc_logic_extension_passes d))) = [62 + int k .. input_table_last_block (Some (int (length recs)))]"
    "table_state recs s (snd (pc_logic_extension_passes d))"
proof -
  let ?n = "length recs" let ?T = "input_table_last_block (Some (int ?n))"
  have T: "?T = (999 + 6 * int ?n) div 16" using n by (intro last_block_of_count) simp_all
  have links: "length (input_links d) = min ?n ((16 * k - 8) div 6)" using st(1,2) by (simp add: table_state_def complete_records_def)
  have "16 * ?T \<le> 999 + 6 * int ?n" "999 + 6 * int ?n < 16 * ?T + 16" unfolding T by simp_all
  moreover have "?n \<le> (16 * k - 8) div 6 \<longleftrightarrow> 6 * ?n + 8 \<le> 16 * k" using st(3)
    by (simp add: less_eq_div_iff_mult_less_eq le_diff_conv2 mult.commute)
  ultimately have full: "?n \<le> (16 * k - 8) div 6 \<longleftrightarrow> ?T < 62 + int k" by linarith
  have big: "?T \<le> 0xFFFF" unfolding T using n(2) by simp
  have s: "\<not> input_broken d" "length (input_stream d) div 16 = k" "input_count d = Some (int ?n)"
    using st(1,2) by (simp_all add: table_state_def)
  show "concat (map section_blocks (fst (pc_logic_extension_passes d))) = [62 + int k .. ?T]"
  proof (cases "?T < 62 + int k")
    case True
    then show ?thesis using full links s by (simp add: pc_logic_extension_passes_def)
  next
    case False
    then have "\<not> int (length (input_links d)) \<ge> int ?n" using full links by simp
    then have "fst (pc_logic_extension_passes d) = blocks_to_sections (62 + int k) ?T"
      using s st(4) False by (simp add: pc_logic_extension_passes_def input_offsets Let_def)
    then show ?thesis using big by (simp add: blocks_to_sections_def blocks_to_sections_loop_covers)
  qed
  show "table_state recs s (snd (pc_logic_extension_passes d))"
    using st(1) by (auto simp: table_state_def pc_logic_extension_passes_def Let_def split: option.splits)
qed

text \<open>
  The input table of a PC-Logic is read in full: however many of its blocks the fixed band covered
  (at least the first), the blocks the decoder then asks for are exactly the rest of the table, up to
  the block of its last record; once they have answered, the links are the records of the table in
  order, and nothing more is asked for.
\<close>

theorem pc_logic_input_table_read:
  assumes "\<forall>r \<in> set recs. input_record_ok r" "length pre = 6" "recs \<noteq> []" "length recs \<le> 1536"
    and "concat (map fst (band @ extra)) = table_image pre recs rest" "band \<noteq> []"
    and "\<forall>a \<in> set (band @ extra). length (fst a) = 16 \<and> length (snd a) = 6"
    and "61 + int (length (band @ extra)) = input_table_last_block (Some (int (length recs)))"
  shows "let d1 = read_input_blocks 62 band (new_pc_logic_decoder coord);
             (sections, d2) = pc_logic_extension_passes d1;
             d3 = read_input_blocks (62 + int (length band)) extra d2
         in concat (map section_blocks sections) = [62 + int (length band) .. input_table_last_block (Some (int (length recs)))] \<and>
            input_links d3 = map input_link_of recs \<and> fst (pc_logic_extension_passes d3) = []"
proof -
  let ?T = "input_table_last_block (Some (int (length recs)))"
  note recs = assms(1-4)
  obtain data crc more' where band: "band = (data, crc) # more'" "length data = 16" "length crc = 6"
    using assms(6,7) by (cases band) auto
  let ?new = "new_pc_logic_decoder coord" let ?d0 = "read_input_block 62 (data, crc) ?new"
  have M: "table_image pre recs rest = data @ concat (map fst more') @ concat (map fst extra)"
    using assms(5) by (simp add: band(1))
  note first = read_first_block [OF recs M band(2,3), of coord]
  have l16: "length data div 16 = 1" "length data mod 16 = 0" using band(2) by simp_all
  have as: "\<forall>a \<in> set more'. length (fst a) = 16 \<and> length (snd a) = 6" "\<forall>a \<in> set extra. length (fst a) = 16 \<and> length (snd a) = 6"
    using assms(7) band(1) by auto
  have len: "length (concat (map fst as)) = 16 * length as" if "\<forall>a \<in> set as. length (fst a) = 16 \<and> length (snd a) = 6"
    for as :: "(byte list \<times> string) list" using that by (induction as) simp_all
  let ?s = "data @ concat (map fst more')"
  have sl: "length ?s = 16 * length band" using band len [OF as(1)] by simp
  have "table_state recs ?s (read_input_blocks (62 + int (length data div 16)) more' ?d0) \<and>
      lo_extension_from (read_input_blocks (62 + int (length data div 16)) more' ?d0) = lo_extension_from ?d0"
    using M band(1) l16(1) assms(8) by (intro read_known_blocks [OF recs first(1) l16(2) _ _ as(1)]) simp_all
  then have d1: "table_state recs ?s (read_input_blocks 62 band ?new)" "lo_extension_from (read_input_blocks 62 band ?new) = None"
    unfolding l16(1) using first(2) band(1) by simp_all
  have k: "61 + int (length band) \<le> ?T" "0 < length band" using assms(8) band(1) by simp_all
  note ext = extension_of_state [OF d1(1) sl k(2) d1(2) assms(3,4) k(1)]
  obtain sections d2 where e: "pc_logic_extension_passes (read_input_blocks 62 band ?new) = (sections, d2)" by force
  have m16: "length ?s div 16 = length band" "length ?s mod 16 = 0" unfolding sl by simp_all
  have s2: "table_state recs ?s d2" using ext(2) by (simp add: e)
  have "table_state recs (?s @ concat (map fst extra)) (read_input_blocks (62 + int (length ?s div 16)) extra d2)"
    by (rule read_known_blocks [OF recs s2 m16(2) _ _ as(2), where later = "[]", THEN conjunct1]) (use M m16(1) assms(8) in simp_all)
  then have d3: "table_state recs (?s @ concat (map fst extra)) (read_input_blocks (62 + int (length band)) extra d2)"
    unfolding m16(1) .
  have "?T = (999 + 6 * int (length recs)) div 16" using assms(3,4) by (intro last_block_of_count) simp_all
  moreover have "length (?s @ concat (map fst extra)) = 16 * length (band @ extra)" using sl len [OF as(2)] by simp
  ultimately have "length recs \<le> (length (?s @ concat (map fst extra)) - 8) div 6" using assms(8) k(2) by simp
  then have links: "input_links (read_input_blocks (62 + int (length band)) extra d2) = map input_link_of recs"
    using d3 by (simp add: table_state_def complete_records_def)
  moreover have "input_count (read_input_blocks (62 + int (length band)) extra d2) = Some (int (length recs))"
    using d3 by (simp add: table_state_def)
  ultimately have "pc_logic_extension_passes (read_input_blocks (62 + int (length band)) extra d2) =
      ([], read_input_blocks (62 + int (length band)) extra d2)"
    unfolding pc_logic_extension_passes_def by (simp only: option.case) simp
  then show ?thesis using ext(1) links unfolding e Let_def prod.case by simp
qed

theorem pc_logic_input_table_read_witness:
  "let band = [([0, 0, 0, 0, 0, 0, 3, 0, 1, 2, 3, 0, 0, 1, 4, 5], ''AAAAAA'')];
       extra = [([6, 0, 1, 1, 7, 8, 9, 0, 2, 1, 0, 0, 0, 0, 0, 0], ''BBBBBB'')];
       d1 = read_input_blocks 62 band (new_pc_logic_decoder None);
       (sections, d2) = pc_logic_extension_passes d1;
       d3 = read_input_blocks 63 extra d2
   in concat (map section_blocks sections) = [63] \<and>
      input_links d3 = map input_link_of [[1, 2, 3, 0, 0, 1], [4, 5, 6, 0, 1, 1], [7, 8, 9, 0, 2, 1]] \<and>
      fst (pc_logic_extension_passes d3) = []"
proof -
  let ?recs = "[[1, 2, 3, 0, 0, 1], [4, 5, 6, 0, 1, 1], [7, 8, 9, 0, 2, 1]] :: byte list list"
  let ?band = "[([0, 0, 0, 0, 0, 0, 3, 0, 1, 2, 3, 0, 0, 1, 4, 5], ''AAAAAA'')] :: (byte list \<times> string) list"
  let ?extra = "[([6, 0, 1, 1, 7, 8, 9, 0, 2, 1, 0, 0, 0, 0, 0, 0], ''BBBBBB'')] :: (byte list \<times> string) list"
  have t: "input_table_last_block (Some (int (length ?recs))) = 63"
    using last_block_of_count [of 3] by simp
  have m: "concat (map fst (?band @ ?extra)) = table_image [0, 0, 0, 0, 0, 0] ?recs [0, 0, 0, 0, 0, 0]"
    by (simp add: table_image_def)
  have ok: "\<forall>r \<in> set ?recs. input_record_ok r" by (simp add: input_record_ok_def)
  have a: "\<forall>a \<in> set (?band @ ?extra). length (fst a) = 16 \<and> length (snd a) = 6" by simp
  have l: "61 + int (length (?band @ ?extra)) = input_table_last_block (Some (int (length ?recs)))" unfolding t by simp
  have r: "[62 + int (length ?band) .. 63] = [63]" "62 + int (length ?band) = 63" by simp_all
  show ?thesis using pc_logic_input_table_read [OF ok _ _ _ m _ a l, of None] unfolding t r Let_def by simp
qed

end
