(* ===== verification/Scan_Plan.thy ===== *)
theory Scan_Plan
  imports Frames Links
begin

section \<open>What discovery reads, and what it makes of a record\<close>

text \<open>
  The functions at the head of \<open>discovery/discovery.py\<close>: the register ranges read for each family of
  modules, the plan made from the record counts a module reports, the infra-red receivers and their
  slots, the classification of register answers that carry no record, and the mapping from keys to
  outputs that decoded records are collected in.
\<close>

subsection \<open>Plans\<close>

type_synonym scan_section = "string \<times> int list"

fun merge_loop :: "scan_section list \<Rightarrow> (string \<times> int list) list \<Rightarrow> scan_section list" where
  "merge_loop [] seen = []"
| "merge_loop ((sub, regs) # passes) seen =
     (let bucket = (case map_of seen sub of None \<Rightarrow> [] | Some b \<Rightarrow> b);
          new_regs = filter (\<lambda>r. r \<notin> set bucket) regs
      in if new_regs = [] then merge_loop passes seen
         else (sub, new_regs) # merge_loop passes (AList.update sub (bucket @ new_regs) seen))"

definition merge_passes :: "scan_section list \<Rightarrow> scan_section list" where
  "merge_passes passes = merge_loop passes []"

definition full_sweep :: "string list \<Rightarrow> scan_section list" where
  "full_sweep sub_bytes = map (\<lambda>s. (s, [0..0xFF])) sub_bytes"

definition MODULE_SCAN_PROFILES :: "(string \<times> scan_section list) list" where
  "MODULE_SCAN_PROFILES =
     [(''switch_module'', [(''00'', [0x10..0x3F])]),
      (''roller_module'', [(''00'', [0x10..0x3F])]),
      (''dimmer_module'', [(''00'', [0x20..0x3F]), (''01'', [0x20..0x2F])]),
      (''audio_module'', [(''01'', [0x38..0x5F])]),
      (''pc_logic'', [(''00'', [0x06..0x3D]), (''00'', [0x3E, 0x3F]), (''02'', [0xAF..0xEE]), (''03'', [0xE8..0xF4])]),
      (''pc_link'', merge_passes [(''00'', [0x05..0x09] @ [0x3E]), (''01'', [0x70..0x93] @ [0x96]),
         (''04'', [0x65..0x69] @ [0xA3..0xD3])])]"

definition MODULE_SCAN_PROFILES_BROAD_EXTRA :: "(string \<times> scan_section list) list" where
  "MODULE_SCAN_PROFILES_BROAD_EXTRA =
     [(''switch_module'', full_sweep [''00'']), (''roller_module'', full_sweep [''00'']),
      (''dimmer_module'', full_sweep [''00'', ''01'']), (''audio_module'', full_sweep [''00'', ''01'']),
      (''pc_logic'', full_sweep [''00'', ''02'', ''03'']), (''pc_link'', full_sweep [''00'', ''01'', ''04''])]"

definition FF_TERMINATOR_TAIL_HEX :: "(string \<times> nat) list" where
  "FF_TERMINATOR_TAIL_HEX = [(''switch_module'', 12), (''audio_module'', 12), (''roller_module'', 12),
     (''pc_link'', 12), (''pc_logic'', 12), (''dimmer_module'', 6)]"

definition NON_OUTPUT_MODULE_TYPES :: "string list" where
  "NON_OUTPUT_MODULE_TYPES = [''feedback_module'', ''other_module'', ''interface_module'', ''rgb_module'']"

definition scan_passes_for_module_type :: "string option \<Rightarrow> bool \<Rightarrow> scan_section list" where
  "scan_passes_for_module_type mtype broad_scan =
     (case mtype of
        None \<Rightarrow> []
      | Some ty \<Rightarrow>
          if ty = [] then []
          else (case map_of MODULE_SCAN_PROFILES ty of
              None \<Rightarrow> []
            | Some plan \<Rightarrow>
                if plan = [] then []
                else if broad_scan then
                  (case map_of MODULE_SCAN_PROFILES_BROAD_EXTRA ty of
                     None \<Rightarrow> plan | Some extras \<Rightarrow> if extras = [] then plan else merge_passes (plan @ extras))
                else plan))"

definition SWITCH_LINK_BLOCK_END :: int where "SWITCH_LINK_BLOCK_END = 0x70"
definition DIMMER_BANK_RECORDS :: int where "DIMMER_BANK_RECORDS = 0xD9"
definition LINK_TABLE_MODULE_TYPES :: "string list" where
  "LINK_TABLE_MODULE_TYPES = [''switch_module'', ''dimmer_module'', ''roller_module'']"
definition EXTENSION_ROUNDS_LIMIT :: nat where "EXTENSION_ROUNDS_LIMIT = 4"

definition count_driven_passes :: "string option \<Rightarrow> module_status \<Rightarrow> scan_section list option" where
  "count_driven_passes mtype status =
     (let a = int (unat (record_count_a status)); b = int (unat (record_count_b status)) in
      if mtype = Some ''switch_module'' \<or> mtype = Some ''roller_module'' then
        let blocks = - (- (a * 6) div 16) + 1;
            stop = min (0x10 + blocks) SWITCH_LINK_BLOCK_END
        in Some [(''00'', [0x10..stop - 1])]
      else if mtype = Some ''dimmer_module'' then
        let bank0 = min (max a 1) DIMMER_BANK_RECORDS in
        Some ((''00'', [0x20..0x20 + bank0 - 1]) #
          (if b \<noteq> 0 then let bank1 = min b DIMMER_BANK_RECORDS in [(''01'', [0x20..0x20 + bank1 - 1])] else []))
      else None)"

definition wire_sub_byte :: "string \<Rightarrow> string" where
  "wire_sub_byte sub_byte = sub_byte"

subsection \<open>Infra-red receivers\<close>

definition IR_BANK_CYCLE :: "string list" where "IR_BANK_CYCLE = [''C'', ''A'', ''D'', ''B'']"
definition IR_MAX_CHANNEL :: int where "IR_MAX_CHANNEL = 39"

definition decode_ir_channel :: "string option \<Rightarrow> pyval \<Rightarrow> int \<Rightarrow> string option" where
  "decode_ir_channel ir_slot_addr key ir_base_byte =
     (case ir_slot_addr of
        None \<Rightarrow> None
      | Some addr \<Rightarrow>
          if addr = [] \<or> key = PNone then None
          else let a = upper (py_strip addr) in
            if length a \<noteq> 6 then None
            else (case py_int16 (last_of 2 a) of
                None \<Rightarrow> None
              | Some slot_byte \<Rightarrow>
                  let ch = slot_byte - ir_base_byte in
                  if ch < 1 \<or> ch > IR_MAX_CHANNEL then None
                  else (case as_int key of
                      None \<Rightarrow> None
                    | Some k \<Rightarrow> if k < 0 \<or> k > 7 then None
                        else Some (fmt_dec 2 ch @ IR_BANK_CYCLE ! nat (k mod 4)))))"

fun text_in :: "string \<Rightarrow> pyval \<Rightarrow> bool res" where
  \<comment> \<open>\<open>s in v\<close>\<close>
  "text_in s (PDict d) = Inr (s \<in> set (map fst d))"
| "text_in s (PList xs) = Inr (PStr s \<in> set xs)"
| "text_in s (PStr t) = Inr (contains t s)"
| "text_in s v = Inl TypeError"

definition ir_receiver_entry :: "string \<times> pyval \<Rightarrow> (string \<times> int) list \<Rightarrow> (string \<times> int) list res" where
  \<comment> \<open>one button of the loop\<close>
  "ir_receiver_entry e table =
     (case as_dict (snd e) of
        None \<Rightarrow> Inr table
      | Some button \<Rightarrow>
          res_bind (text_in ''IR'' (py_or (dict_get button ''type'') (PStr []))) (\<lambda>ir.
               if \<not> ir then Inr table
               else let addr = upper (py_strip (fst e)) in
                 if length addr \<noteq> 6 then Inr table
                 else (case py_int16 (last_of 2 addr) of
                     None \<Rightarrow> Inr table
                   | Some base_byte \<Rightarrow>
                       Inr (if map_of table (take 4 addr) = None then table @ [(take 4 addr, base_byte)] else table))))"

fun build_ir_receiver_lookup_loop :: "pydict \<Rightarrow> (string \<times> int) list \<Rightarrow> (string \<times> int) list res" where
  "build_ir_receiver_lookup_loop [] table = Inr table"
| "build_ir_receiver_lookup_loop (e # es) table =
     res_bind (ir_receiver_entry e table) (build_ir_receiver_lookup_loop es)"

definition build_ir_receiver_lookup :: "pydict \<Rightarrow> (string \<times> int) list res" where
  "build_ir_receiver_lookup buttons = build_ir_receiver_lookup_loop buttons []"

definition split_ir_button_address ::
    "string option \<Rightarrow> (string \<times> int) list option \<Rightarrow> string option \<times> string option \<times> string option" where
  "split_ir_button_address addr table0 =
     (case addr of
        None \<Rightarrow> (None, None, None)
      | Some s \<Rightarrow>
          if s = [] then (None, None, None)
          else let a = upper (py_strip s) in
            if length a \<noteq> 6 then (Some a, None, None)
            else let table = (case table0 of None \<Rightarrow> [(''0D1C'', 0x80)] | Some t \<Rightarrow> t); prefix = take 4 a in
              (case map_of table prefix of
                 None \<Rightarrow> (Some a, None, None)
               | Some base_byte \<Rightarrow>
                   let physical = prefix @ fmt_hex 2 base_byte in
                   if a = physical then (Some physical, None, None)
                   else (Some physical, Some a, Some (last_of 2 a))))"

subsection \<open>Answers that carry no record\<close>

definition REGISTRY_HEADER_VERSION_MIN :: byte where "REGISTRY_HEADER_VERSION_MIN = 0x49"
definition REGISTRY_HEADER_VERSION_MAX :: byte where "REGISTRY_HEADER_VERSION_MAX = 0x5E"
definition REGISTRY_MAX_RECORDS :: int where "REGISTRY_MAX_RECORDS = 512"
definition ECHO_RAMP_MIN_RUN :: nat where "ECHO_RAMP_MIN_RUN = 6"

fun registry_header_loop :: "byte option \<Rightarrow> byte list \<Rightarrow> int option" where
  \<comment> \<open>the search for the signature, the byte before the window in hand\<close>
  "registry_header_loop prev (x # y # z # rest) =
     (if x = 0x55 \<and> y = 0xAA \<and> z = 0xAA then
        if length rest < 4 then None
        else (case prev of
            None \<Rightarrow> registry_header_loop (Some x) (y # z # rest)
          | Some version \<Rightarrow>
              if REGISTRY_HEADER_VERSION_MIN \<le> version \<and> version \<le> REGISTRY_HEADER_VERSION_MAX then
                let count = int (unat (rest ! 0)) + 256 * int (unat (rest ! 1)) + 65536 * int (unat (rest ! 2))
                              + 16777216 * int (unat (rest ! 3))
                in if 0 < count \<and> count \<le> REGISTRY_MAX_RECORDS then Some count else None
              else registry_header_loop (Some x) (y # z # rest))
      else registry_header_loop (Some x) (y # z # rest))"
| "registry_header_loop prev rest = None"

definition registry_header_count :: "byte list \<Rightarrow> int option" where
  "registry_header_count data = registry_header_loop None data"

fun ramp_loop :: "nat \<Rightarrow> byte list \<Rightarrow> bool" where
  "ramp_loop run (x # y # rest) =
     (if y = x + 1 then if run + 1 \<ge> ECHO_RAMP_MIN_RUN then True else ramp_loop (run + 1) (y # rest)
      else ramp_loop 0 (y # rest))"
| "ramp_loop run rest = False"

definition looks_like_echo_ramp :: "byte list \<Rightarrow> bool" where
  "looks_like_echo_ramp data = (if length data < ECHO_RAMP_MIN_RUN + 1 then False else ramp_loop 0 data)"

definition MODULE_SCAN_TRAILER_PREFIX :: string where "MODULE_SCAN_TRAILER_PREFIX = ''$18''"

definition is_inventory_trailer :: "string \<Rightarrow> bool" where
  "is_inventory_trailer message =
     (if \<not> starts_with message MODULE_SCAN_TRAILER_PREFIX then False
      else let body = slice 3 (length message - 6) message in
        body \<noteq> [] \<and> list_all (\<lambda>c. c = CHR ''F'') (upper body))"

definition upper_hex_digit :: "char \<Rightarrow> bool" where
  \<comment> \<open>\<open>[0-9A-F]\<close>\<close>
  "upper_hex_digit c \<longleftrightarrow> is_hex c \<and> upper_char c = c"

definition classify_cf_pattern :: "string \<Rightarrow> string option" where
  \<comment> \<open>the patterns end in \<open>$\<close>, which one final line feed may follow\<close>
  "classify_cf_pattern addr =
     (let s0 = upper addr;
          s = (if s0 \<noteq> [] \<and> last s0 = char_of (10 :: nat) then butlast s0 else s0)
      in if length s \<noteq> 6 \<or> \<not> list_all upper_hex_digit s then None
         else if take 3 s = ''384'' \<and> s ! 3 \<in> set ''01234567'' then Some ''switch_pair''
         else if take 4 s = ''3880'' then Some ''roller_pair''
         else if take 2 s = ''38'' then Some ''cf_other''
         else None)"

definition CF_SCENE_MODE_MARKERS :: "string list" where "CF_SCENE_MODE_MARKERS = [''light scene'', ''preset'']"

definition is_cf_scene_mode :: "pyval \<Rightarrow> bool" where
  "is_cf_scene_mode mode = (case mode of
       PStr s \<Rightarrow> list_ex (\<lambda>marker. contains (lower s) marker) CF_SCENE_MODE_MARKERS
     | _ \<Rightarrow> False)"

subsection \<open>The mapping from keys to outputs\<close>

type_synonym mapping_key = "string option \<times> pyval \<times> string option"
type_synonym command_mapping = "(mapping_key \<times> pydict list) list"

definition opt_str :: "string option \<Rightarrow> pyval" where
  "opt_str s = (case s of None \<Rightarrow> PNone | Some t \<Rightarrow> PStr t)"

definition opt_or :: "string option \<Rightarrow> string option \<Rightarrow> string option" where
  \<comment> \<open>\<open>a or b\<close>\<close>
  "opt_or a b = (case a of Some (x # s) \<Rightarrow> a | _ \<Rightarrow> b)"

definition truthy :: "string option \<Rightarrow> bool" where
  "truthy s \<longleftrightarrow> s \<noteq> None \<and> s \<noteq> Some []"

definition str_field :: "pydict \<Rightarrow> string \<Rightarrow> string option" where
  \<comment> \<open>an entry that is text or missing, as the decoders set the addresses\<close>
  "str_field d k = as_str (dict_get d k)"

definition normalize_key :: "pyval \<Rightarrow> pyval" where
  \<comment> \<open>a key given as text; \<open>isdigit\<close> on ASCII\<close>
  "normalize_key key = (case key of
       PStr s \<Rightarrow> let t = py_strip s in
         if t \<noteq> [] \<and> list_all (\<lambda>c. 48 \<le> code c \<and> code c \<le> 57) t
         then PInt (fold (\<lambda>c n. 10 * n + (int (code c) - 48)) t 0) else PStr t
     | _ \<Rightarrow> key)"

definition dedupe_key :: "pydict \<Rightarrow> pyval list" where
  "dedupe_key d = map (dict_get d) [''module_address'', ''channel'', ''mode'', ''t1'', ''t2'', ''ir_code'', ''ir_button_address'']"

definition AUDIO_FIELDS :: "string list" where
  "AUDIO_FIELDS = [''audio_function'', ''audio_function_raw'', ''audio_object'', ''audio_object_raw'', ''audio_power'',
     ''audio_zone'', ''audio_zone_raw'', ''description'']"

definition mapping_entry :: "pydict \<Rightarrow> string option \<Rightarrow> (string \<times> int) list option \<Rightarrow> (mapping_key \<times> pydict) option" where
  \<comment> \<open>the key a decoded record is filed under and the output it stands for\<close>
  "mapping_entry decoded module_addr table =
     (let push0 = str_field decoded ''push_button_address'';
          push_resolved = (push0 \<noteq> None);
          button = str_field decoded ''button_address'';
          push = (case push0 of None \<Rightarrow> button | _ \<Rightarrow> push0);
          key0 = (if dict_get decoded ''key_raw'' = PNone then dict_get decoded ''key'' else dict_get decoded ''key_raw'')
      in if push = None \<or> key0 = PNone then None
         else let key = normalize_key key0;
            (physical_push, ir_push_addr, ir_push_slot) = split_ir_button_address push table;
            (physical_btn, ir_btn_addr, ir_btn_slot) = split_ir_button_address button table;
            ir_slot_addr = opt_or ir_btn_addr ir_push_addr;
            ir_base_byte = (case (ir_slot_addr, table) of
                (Some a, Some t) \<Rightarrow> (case map_of t (upper (take 4 a)) of None \<Rightarrow> 0x80 | Some b \<Rightarrow> b)
              | _ \<Rightarrow> 0x80);
            ir_channel = (case ir_slot_addr of None \<Rightarrow> None | Some _ \<Rightarrow> decode_ir_channel ir_slot_addr key ir_base_byte);
            ir_key = opt_or ir_channel (opt_or ir_btn_slot ir_push_slot);
            mapping_address = (if truthy ir_key \<and> truthy physical_btn then physical_btn else physical_push)
         in Some ((mapping_address, key, ir_key),
               [(''module_address'', py_or (dict_get decoded ''module_address'') (opt_str module_addr)),
                (''channel'', dict_get decoded ''channel''), (''mode'', dict_get decoded ''M''),
                (''t1'', dict_get decoded ''T1''), (''t2'', dict_get decoded ''T2''), (''payload'', dict_get decoded ''payload''),
                (''button_address'', opt_str (opt_or physical_btn (opt_or physical_push button))),
                (''ir_button_address'', opt_str (opt_or ir_btn_addr ir_push_addr)),
                (''push_button_address'', if push_resolved then opt_str physical_push else PNone),
                (''ir_code'', opt_str (opt_or ir_channel (opt_or ir_btn_slot ir_push_slot))),
                (''record_source'', dict_get decoded ''record_source'')]
              @ (if py_true (dict_get decoded ''audio_function'') then map (\<lambda>f. (f, dict_get decoded f)) AUDIO_FIELDS else [])
              @ (if py_true (dict_get decoded ''calendar_channel'') then [(''calendar_channel'', dict_get decoded ''calendar_channel'')] else [])))"

definition add_to_command_mapping ::
    "command_mapping \<Rightarrow> pydict \<Rightarrow> string option \<Rightarrow> (string \<times> int) list option \<Rightarrow> command_mapping" where
  "add_to_command_mapping mapping decoded module_addr table =
     (case mapping_entry decoded module_addr table of
        None \<Rightarrow> mapping
      | Some (mapping_key, output) \<Rightarrow>
          let outputs = (case map_of mapping mapping_key of None \<Rightarrow> [] | Some os \<Rightarrow> os) in
          AList.update mapping_key
            (if dedupe_key output \<in> set (map dedupe_key outputs) then outputs else outputs @ [output]) mapping)"

subsection \<open>The plans cover the tables\<close>

lemma merge_loop_seen:
  assumes "\<forall>(s, rs) \<in> set passes. distinct rs"
  shows "distinct (concat (map (\<lambda>(s, rs). map (Pair s) rs) (merge_loop passes seen))) \<and>
    set (concat (map (\<lambda>(s, rs). map (Pair s) rs) (merge_loop passes seen))) =
      {(s, r). (\<exists>rs. (s, rs) \<in> set passes \<and> r \<in> set rs) \<and> (\<forall>b. map_of seen s = Some b \<longrightarrow> r \<notin> set b)}"
  using assms
proof (induction passes seen rule: merge_loop.induct)
  case (1 seen) then show ?case by simp
next
  case (2 sub regs passes seen)
  let ?b = "case map_of seen sub of None \<Rightarrow> [] | Some b \<Rightarrow> b"
  let ?n = "filter (\<lambda>r. r \<notin> set ?b) regs"
  let ?seen = "if ?n = [] then seen else AList.update sub (?b @ ?n) seen"
  have ih: "distinct (concat (map (\<lambda>(s, rs). map (Pair s) rs) (merge_loop passes ?seen))) \<and>
      set (concat (map (\<lambda>(s, rs). map (Pair s) rs) (merge_loop passes ?seen))) =
      {(s, r). (\<exists>rs. (s, rs) \<in> set passes \<and> r \<in> set rs) \<and> (\<forall>b. map_of ?seen s = Some b \<longrightarrow> r \<notin> set b)}"
    using 2 by (cases "?n = []") (simp_all add: Let_def)
  have d: "distinct (map (Pair sub) ?n)" using 2(3) by (simp add: distinct_map inj_on_def)
  have m: "merge_loop ((sub, regs) # passes) seen = (if ?n = [] then [] else [(sub, ?n)]) @ merge_loop passes ?seen"
    by (simp add: Let_def)
  have s: "map_of ?seen s = (if s = sub \<and> ?n \<noteq> [] then Some (?b @ ?n) else map_of seen s)" for s
    by (simp add: update_conv')
  have u: "(\<forall>b. map_of seen sub = Some b \<longrightarrow> r \<notin> set b) \<longleftrightarrow> r \<notin> set ?b" for r
    by (auto split: option.splits)
  show ?case
  proof (cases "?n = []")
    case True
    then have "\<exists>b. map_of seen sub = Some b \<and> r \<in> set b" if "r \<in> set regs" for r
      using that u [of r] by (auto simp: filter_empty_conv)
    note [dest!] = this
    show ?thesis using ih True unfolding m by auto
  next
    case False
    have k: "set (concat (map (\<lambda>(s, rs). map (Pair s) rs) (merge_loop passes ?seen))) =
        {(s, r). (\<exists>rs. (s, rs) \<in> set passes \<and> r \<in> set rs) \<and>
           (if s = sub then r \<notin> set ?b \<and> r \<notin> set ?n else \<forall>b. map_of seen s = Some b \<longrightarrow> r \<notin> set b)}"
    proof -
      have "(\<forall>b. (if s = sub \<and> ?n \<noteq> [] then Some (?b @ ?n) else map_of seen s) = Some b \<longrightarrow> r \<notin> set b) \<longleftrightarrow>
          (if s = sub then r \<notin> set ?b \<and> r \<notin> set ?n else \<forall>b. map_of seen s = Some b \<longrightarrow> r \<notin> set b)" for s r
        using False by (cases "s = sub") simp_all
      then show ?thesis unfolding conjunct2 [OF ih] s by simp
    qed
    have x: "concat (map (\<lambda>(s, rs). map (Pair s) rs) (merge_loop ((sub, regs) # passes) seen)) =
        map (Pair sub) ?n @ concat (map (\<lambda>(s, rs). map (Pair s) rs) (merge_loop passes ?seen))"
      unfolding m using False by simp
    have "distinct (concat (map (\<lambda>(s, rs). map (Pair s) rs) (merge_loop ((sub, regs) # passes) seen)))"
      unfolding x distinct_append k using d ih by auto
    moreover have "set (concat (map (\<lambda>(s, rs). map (Pair s) rs) (merge_loop ((sub, regs) # passes) seen))) =
      {(s, r). (\<exists>rs. (s, rs) \<in> set ((sub, regs) # passes) \<and> r \<in> set rs) \<and> (\<forall>b. map_of seen s = Some b \<longrightarrow> r \<notin> set b)}"
      unfolding x set_append k using u by (auto split: if_splits)
    ultimately show ?thesis by blast
  qed
qed

definition plan_reads :: "scan_section list \<Rightarrow> (string \<times> int) list" where
  \<comment> \<open>the bank and register of every read of a plan\<close>
  "plan_reads passes = concat (map (\<lambda>(s, rs). map (Pair s) rs) passes)"

lemma plan_reads_simps [simp]:
  "plan_reads [] = []" "plan_reads ((s, rs) # ps) = map (Pair s) rs @ plan_reads ps" "plan_reads (ps @ qs) = plan_reads ps @ plan_reads qs"
  by (simp_all add: plan_reads_def)

lemma merge_passes_reads:
  assumes "\<forall>(s, rs) \<in> set passes. distinct rs"
  shows "distinct (plan_reads (merge_passes passes))" "set (plan_reads (merge_passes passes)) = set (plan_reads passes)"
  using merge_loop_seen [OF assms, of "[]"] by (auto simp: plan_reads_def merge_passes_def)

lemma full_sweep_reads: "set (plan_reads (full_sweep banks)) = set banks \<times> {0..255}"
  by (auto simp: plan_reads_def full_sweep_def)

lemma full_sweep_distinct: "\<forall>(s, rs) \<in> set (full_sweep banks). distinct rs" by (auto simp: full_sweep_def)

lemma profile_reads:
  assumes "map_of MODULE_SCAN_PROFILES ty = Some plan"
  shows "distinct (plan_reads plan) \<and> plan_reads plan \<noteq> []"
proof -
  note [simp del] = upto_rec_numeral upto_rec1
  let ?pc = "[(''00'', [0x05..0x09] @ [0x3E]), (''01'', [0x70..0x93] @ [0x96]), (''04'', [0x65..0x69] @ [0xA3..0xD3])]"
  have "distinct (plan_reads (merge_passes ?pc))" "set (plan_reads (merge_passes ?pc)) = set (plan_reads ?pc)"
    using merge_passes_reads [of ?pc] by simp_all
  moreover from this(2) have "plan_reads (merge_passes ?pc) \<noteq> []" by auto
  ultimately show ?thesis using assms unfolding MODULE_SCAN_PROFILES_def
    by (auto simp: distinct_map inj_on_def split: if_splits)
qed

lemma profile_parts:
  assumes "distinct (plan_reads plan)" shows "\<forall>(s, rs) \<in> set plan. distinct rs"
  using assms by (induction plan) (auto simp: distinct_map)

lemma profile_banks:
  assumes "map_of MODULE_SCAN_PROFILES ty = Some plan"
  shows "\<exists>banks. map_of MODULE_SCAN_PROFILES_BROAD_EXTRA ty = Some (full_sweep banks) \<and> fst ` set (plan_reads plan) \<subseteq> set banks \<and> banks \<noteq> []"
proof -
  note [simp del] = upto_rec_numeral upto_rec1
  let ?pc = "[(''00'', [0x05..0x09] @ [0x3E]), (''01'', [0x70..0x93] @ [0x96]), (''04'', [0x65..0x69] @ [0xA3..0xD3])]"
  have "set (plan_reads (merge_passes ?pc)) = set (plan_reads ?pc)"
    using merge_passes_reads(2) [of ?pc] by simp
  then show ?thesis using assms unfolding MODULE_SCAN_PROFILES_def MODULE_SCAN_PROFILES_BROAD_EXTRA_def
    by (auto split: if_splits)
qed

lemma scan_plans:
  "distinct (plan_reads (scan_passes_for_module_type ty broad))"
  "set (plan_reads (scan_passes_for_module_type ty False)) \<union> fst ` set (plan_reads (scan_passes_for_module_type ty False)) \<times> {0..255}
     \<subseteq> set (plan_reads (scan_passes_for_module_type ty True))"
proof -
  consider "\<And>broad. scan_passes_for_module_type ty broad = []"
    | t plan where "ty = Some t" "map_of MODULE_SCAN_PROFILES t = Some plan" "t \<noteq> []"
    by (cases ty; cases "map_of MODULE_SCAN_PROFILES (the ty)"; cases "the ty") (simp_all add: scan_passes_for_module_type_def)
  then have "distinct (plan_reads (scan_passes_for_module_type ty broad)) \<and>
    set (plan_reads (scan_passes_for_module_type ty False)) \<union> fst ` set (plan_reads (scan_passes_for_module_type ty False)) \<times> {0..255}
     \<subseteq> set (plan_reads (scan_passes_for_module_type ty True))"
  proof cases
    case 1 then show ?thesis by simp
  next
    case 2
    have d: "distinct (plan_reads plan)" "plan \<noteq> []" using profile_reads [OF 2(2)] by auto
    obtain banks where b: "map_of MODULE_SCAN_PROFILES_BROAD_EXTRA t = Some (full_sweep banks)" "fst ` set (plan_reads plan) \<subseteq> set banks" "banks \<noteq> []"
      using profile_banks [OF 2(2)] by blast
    have p: "scan_passes_for_module_type ty br = (if br then merge_passes (plan @ full_sweep banks) else plan)" for br
      using 2 d b by (auto simp: scan_passes_for_module_type_def full_sweep_def)
    have "\<forall>(s, rs) \<in> set (plan @ full_sweep banks). distinct rs"
      using profile_parts [OF d(1)] full_sweep_distinct [of banks] by (auto simp: case_prod_beta)
    note m = merge_passes_reads [OF this]
    show ?thesis unfolding p using m d b(2) by (auto simp: full_sweep_reads)
  qed
  then show "distinct (plan_reads (scan_passes_for_module_type ty broad))"
    "set (plan_reads (scan_passes_for_module_type ty False)) \<union> fst ` set (plan_reads (scan_passes_for_module_type ty False)) \<times> {0..255}
     \<subseteq> set (plan_reads (scan_passes_for_module_type ty True))" by blast+
qed

lemma link_blocks_cover:
  fixes a x :: int
  assumes "0 \<le> a" "a \<le> 255" "0 \<le> x" "x < a * 6"
  shows "0x10 \<le> (256 + x) div 16 \<and> (256 + x) div 16 < min (0x10 + (- (- (a * 6) div 16) + 1)) SWITCH_LINK_BLOCK_END"
proof -
  let ?q = "(256 + x) div 16" and ?c = "- (a * 6) div 16"
  have "16 * ?q \<le> 256 + x" "256 + x < 16 * ?q + 16" "16 * ?c \<le> - (a * 6)" "- (a * 6) < 16 * ?c + 16" by presburger+
  then show ?thesis using assms unfolding SWITCH_LINK_BLOCK_END_def by linarith
qed

lemma count_plan_switch:
  assumes "ty = ''switch_module'' \<or> ty = ''roller_module''" "r < unat (record_count_a st)" "x = 256 + 6 * int r + i" "0 \<le> i" "i < 6"
  shows "\<exists>passes. count_driven_passes (Some ty) st = Some passes \<and> distinct (plan_reads passes) \<and>
     set (plan_reads passes) \<subseteq> {''00''} \<times> {0x10..0x6F} \<and> (''00'', x div 16) \<in> set (plan_reads passes)"
proof -
  note [simp del] = upto_rec_numeral upto_rec1
  let ?a = "int (unat (record_count_a st))"
  have a: "0 \<le> ?a" "?a \<le> 255" using uint_lt2p [of "record_count_a st"] by auto
  have "0 \<le> 6 * int r + i" "6 * int r + i < ?a * 6" using assms by linarith+
  note c = link_blocks_cover [OF a this]
  show ?thesis unfolding count_driven_passes_def Let_def using assms(1) c assms(3)
    by (auto simp: distinct_map inj_on_def SWITCH_LINK_BLOCK_END_def add.assoc)
qed

text \<open>
  Every plan reads each register of each bank at most once, and the broad plan of a module reads whatever
  its normal plan reads and every register of the banks the normal plan touches.
\<close>

theorem scan_plans_read_once:
  "distinct (plan_reads (scan_passes_for_module_type ty broad)) \<and>
   set (plan_reads (scan_passes_for_module_type ty False)) \<union> fst ` set (plan_reads (scan_passes_for_module_type ty False)) \<times> {0..255}
     \<subseteq> set (plan_reads (scan_passes_for_module_type ty True))"
  using scan_plans by blast

text \<open>
  C30. The plan made from the record count a switch or roller module reports reads each register once, stays
  inside the link-table band, and holds the block of every byte of every announced record.
\<close>

theorem count_plan_covers_table:
  assumes "ty = ''switch_module'' \<or> ty = ''roller_module''" "r < unat (record_count_a st)" "0 \<le> i" "i < 6"
  shows "\<exists>passes. count_driven_passes (Some ty) st = Some passes \<and> distinct (plan_reads passes) \<and>
     set (plan_reads passes) \<subseteq> {''00''} \<times> {0x10..0x6F} \<and> (''00'', (256 + 6 * int r + i) div 16) \<in> set (plan_reads passes)"
  using count_plan_switch [OF assms(1,2) refl assms(3,4)] .

definition full_table_status :: module_status where
  "full_table_status = \<lparr>address = ''C9A5'', eeprom_error = False, type_code = 0x02, record_count_a = 255, record_count_b = 255, raw = []\<rparr>"

theorem count_plan_covers_table_witness:
  "\<exists>passes. count_driven_passes (Some ''roller_module'') full_table_status = Some passes \<and> distinct (plan_reads passes) \<and>
     set (plan_reads passes) \<subseteq> {''00''} \<times> {0x10..0x6F} \<and> (''00'', (256 + 6 * int 254 + 5) div 16) \<in> set (plan_reads passes)"
  by (rule count_plan_covers_table) (simp_all add: full_table_status_def)

lemma dimmer_second_bank_short:
  assumes "record_count_b st = 0xDA"
  shows "\<exists>passes. count_driven_passes (Some ''dimmer_module'') st = Some passes \<and>
     (''01'', 0x20 + 0xD8) \<in> set (plan_reads passes) \<and> (''01'', 0x20 + 0xD9) \<notin> set (plan_reads passes)"
  using assms by (simp add: count_driven_passes_def Let_def DIMMER_BANK_RECORDS_def image_iff del: upto_rec_numeral upto_rec1)

subsection \<open>The mapping holds each output once\<close>

definition mapping_wf :: "command_mapping \<Rightarrow> bool" where
  "mapping_wf m \<longleftrightarrow> distinct (map fst m) \<and> list_all (\<lambda>(k, os). os \<noteq> [] \<and> distinct (map dedupe_key os)) m"

lemma mapping_wf_lookup: "mapping_wf m \<Longrightarrow> map_of m k = Some os \<Longrightarrow> os \<noteq> [] \<and> distinct (map dedupe_key os)"
  by (auto simp: mapping_wf_def list_all_iff dest: map_of_SomeD)

lemma mapping_wf_update:
  assumes "mapping_wf m" "os \<noteq> []" "distinct (map dedupe_key os)"
  shows "mapping_wf (AList.update k os m)"
proof -
  have "distinct (map fst (AList.update k os m))" using assms(1) distinct_update by (auto simp: mapping_wf_def)
  moreover have "v \<noteq> [] \<and> distinct (map dedupe_key v)" if "(k', v) \<in> set (AList.update k os m)" for k' v
  proof -
    have "map_of (AList.update k os m) k' = Some v" using that calculation by simp
    then show ?thesis using assms mapping_wf_lookup by (auto simp: update_conv' split: if_splits)
  qed
  ultimately show ?thesis by (auto simp: mapping_wf_def list_all_iff)
qed

lemma add_mapping:
  assumes "mapping_wf m"
  shows "mapping_wf (add_to_command_mapping m d a t)"
    "add_to_command_mapping (add_to_command_mapping m d a t) d a t = add_to_command_mapping m d a t"
    "map_of m k' = Some os' \<Longrightarrow> \<exists>new. map_of (add_to_command_mapping m d a t) k' = Some (os' @ new)"
proof -
  show "mapping_wf (add_to_command_mapping m d a t)"
  proof (cases "mapping_entry d a t")
    case None then show ?thesis using assms by (simp add: add_to_command_mapping_def)
  next
    case (Some e)
    obtain k out where e: "e = (k, out)" by fastforce
    let ?os = "case map_of m k of None \<Rightarrow> [] | Some os \<Rightarrow> os"
    have "distinct (map dedupe_key ?os)" using mapping_wf_lookup [OF assms, of k] by (cases "map_of m k") auto
    then show ?thesis unfolding add_to_command_mapping_def Some option.case e prod.case Let_def
      by (intro mapping_wf_update [OF assms]) (cases "map_of m k"; auto)+
  qed
  show "add_to_command_mapping (add_to_command_mapping m d a t) d a t = add_to_command_mapping m d a t"
    by (cases "mapping_entry d a t") (simp_all add: add_to_command_mapping_def Let_def split_def update_conv')
  show "\<exists>new. map_of (add_to_command_mapping m d a t) k' = Some (os' @ new)" if "map_of m k' = Some os'"
    using that by (cases "mapping_entry d a t") (auto simp: add_to_command_mapping_def Let_def split_def update_conv')
qed

lemma fold_add_mapping:
  assumes "mapping_wf m" shows "mapping_wf (fold (\<lambda>d acc. add_to_command_mapping acc d a t) ds m)"
  using assms by (induction ds arbitrary: m) (simp_all add: add_mapping(1))

text \<open>
  The mapping from keys to outputs never holds an output twice under a key, however many records are
  added to it; adding a record again changes nothing; and what is filed under a key stays, in its order.
\<close>

theorem mapping_files_each_output_once:
  assumes "mapping_wf m"
  shows "mapping_wf (fold (\<lambda>d acc. add_to_command_mapping acc d a t) ds m) \<and>
    add_to_command_mapping (add_to_command_mapping m d a t) d a t = add_to_command_mapping m d a t \<and>
    (map_of m k = Some outputs \<longrightarrow> (\<exists>new. map_of (add_to_command_mapping m d a t) k = Some (outputs @ new)))"
  using fold_add_mapping [OF assms] add_mapping(2,3) [OF assms] by blast

definition example_record :: pydict where
  "example_record = [(''push_button_address'', PStr ''1D4E2C''), (''key_raw'', PInt 1), (''channel'', PInt 3), (''M'', PStr ''M01'')]"

theorem mapping_files_each_output_once_witness:
  "\<exists>m outputs new. map_of m (Some ''1D4E2C'', PInt 1, None) = Some outputs \<and>
     mapping_wf (fold (\<lambda>d acc. add_to_command_mapping acc d (Some ''C9A5'') None) [example_record, example_record] m) \<and>
     add_to_command_mapping (add_to_command_mapping m example_record (Some ''C9A5'') None) example_record (Some ''C9A5'') None =
       add_to_command_mapping m example_record (Some ''C9A5'') None \<and>
     map_of (add_to_command_mapping m example_record (Some ''C9A5'') None) (Some ''1D4E2C'', PInt 1, None) = Some (outputs @ new)"
proof -
  let ?m = "[((Some ''1D4E2C'', PInt 1, None), [example_record])] :: command_mapping"
  have w: "mapping_wf ?m" "map_of ?m (Some ''1D4E2C'', PInt 1, None) = Some [example_record]" by (simp_all add: mapping_wf_def)
  show ?thesis
    using mapping_files_each_output_once [OF w(1), of "Some ''C9A5''" None "[example_record, example_record]" example_record
        "(Some ''1D4E2C'', PInt 1, None)" "[example_record]"] w(2) by blast
qed

end
