(* ===== verification/Register_Scan.thy ===== *)
theory Register_Scan
  imports Scan_Plan Audio_Table Pc_Logic Exchange
begin

section \<open>The register scan of one module\<close>

text \<open>
  The part of \<open>discovery/discovery.py\<close> that reads a module: the decoders it chooses from, what it does
  with one answer (\<open>parse_module_inventory_response\<close>), the exchange for one register with its retries,
  the loop over a pass, and the passes of a module with their extension and the test whether the link
  table was read in full. The bus answers through \<open>respond\<close>: what happens, in the order of the event
  loop, after a command is sent. What the scan tells the host's progress callback is collected; log lines, the
  save callbacks, and the merge of links into the host's button store are not part of the state.
\<close>

subsection \<open>Decoders\<close>

datatype decoder =
    OutputDecoder chunker
  | PcLogicDecoder pc_logic_decoder
  | PcLinkDecoder pc_link_decoder
  | AudioDecoder audio_decoder

fun decoder_base :: "decoder \<Rightarrow> chunker" where
  "decoder_base (OutputDecoder c) = c"
| "decoder_base (PcLogicDecoder d) = lo_base d"
| "decoder_base (PcLinkDecoder d) = pl_base d"
| "decoder_base (AudioDecoder d) = au_base d"

fun map_base :: "(chunker \<Rightarrow> chunker) \<Rightarrow> decoder \<Rightarrow> decoder" where
  \<comment> \<open>an operation every decoder inherits\<close>
  "map_base f (OutputDecoder c) = OutputDecoder (f c)"
| "map_base f (PcLogicDecoder d) = PcLogicDecoder (d\<lparr>lo_base := f (lo_base d)\<rparr>)"
| "map_base f (PcLinkDecoder d) = PcLinkDecoder (d\<lparr>pl_base := f (pl_base d)\<rparr>)"
| "map_base f (AudioDecoder d) = AudioDecoder (d\<lparr>au_base := f (au_base d)\<rparr>)"

fun decoder_reset :: "decoder \<Rightarrow> decoder" where
  "decoder_reset (OutputDecoder c) = OutputDecoder (reset_scan_buffers c)"
| "decoder_reset (PcLogicDecoder d) = PcLogicDecoder (pc_logic_reset_scan_buffers d)"
| "decoder_reset (PcLinkDecoder d) = PcLinkDecoder (pc_link_reset_scan_buffers d)"
| "decoder_reset (AudioDecoder d) = AudioDecoder (audio_reset_scan_buffers d)"

fun decoder_set_block :: "string \<Rightarrow> int \<Rightarrow> decoder \<Rightarrow> decoder" where
  "decoder_set_block sub reg (PcLogicDecoder d) = PcLogicDecoder (pc_logic_set_current_block sub reg d)"
| "decoder_set_block sub reg (AudioDecoder d) = AudioDecoder (audio_set_current_block sub reg d)"
| "decoder_set_block sub reg d = d"

fun decoder_extension :: "decoder \<Rightarrow> scan_section list \<times> decoder" where
  "decoder_extension (PcLogicDecoder d) = (let (s, d) = pc_logic_extension_passes d in (s, PcLogicDecoder d))"
| "decoder_extension (AudioDecoder d) = (let (s, d) = audio_extension_passes d in (s, AudioDecoder d))"
| "decoder_extension d = ([], d)"

fun decoder_analyze :: "string \<Rightarrow> string \<Rightarrow> decoder \<Rightarrow> frame_analysis option res \<times> decoder" where
  "decoder_analyze buffer p (OutputDecoder c) = (let (r, c) = analyze_frame_payload buffer p c in (r, OutputDecoder c))"
| "decoder_analyze buffer p (PcLogicDecoder d) = (let (r, d) = pc_logic_analyze buffer p d in (r, PcLogicDecoder d))"
| "decoder_analyze buffer p (PcLinkDecoder d) =
     (let (r, c) = analyze_frame_payload buffer p (pl_base d) in (r, PcLinkDecoder (d\<lparr>pl_base := c\<rparr>)))"
| "decoder_analyze buffer p (AudioDecoder d) = (let (r, d) = audio_analyze buffer p d in (Inr r, AudioDecoder d))"

definition opt_int :: "int option \<Rightarrow> pyval" where
  "opt_int i = (case i of None \<Rightarrow> PNone | Some n \<Rightarrow> PInt n)"

definition metadata_of :: "string \<Rightarrow> decoded \<Rightarrow> pydict" where
  \<comment> \<open>the dictionary of an output module's decoder\<close>
  "metadata_of mtype d =
     [(''payload'', PStr (payload d)), (''button_address'', opt_str (button_address d)),
      (''push_button_address'', opt_str (push_button_address d)), (''calendar_channel'', opt_str (calendar_channel d)),
      (''key_raw'', PInt (key_raw d)), (''channel_raw'', PInt (channel_raw d)), (''channel'', PInt (channel d)),
      (''mode_raw'', PInt (mode_raw d)), (''t1_raw'', opt_int (t1_raw d)), (''t2_raw'', opt_int (t2_raw d))]
     @ (if mtype = ''dimmer_module'' then [] else [(''chain_raw'', opt_int (chain_raw d))])
     @ [(''K'', PInt (key_raw d)), (''C'', opt_str (label_C d)), (''T1'', opt_str (label_T1 d)),
        (''T2'', opt_str (label_T2 d)), (''M'', opt_str (label_M d)), (''record_source'', PStr (record_source d))]"

fun decoder_decode :: "string \<Rightarrow> string \<Rightarrow> decoder \<Rightarrow> pydict list res \<times> decoder" where
  \<comment> \<open>\<open>decode\<close>, which strips the chunk and passes the module's address\<close>
  "decoder_decode chunk addr (OutputDecoder c) =
     ((case chunker_decode chunk (Some addr) c of
         Inl e \<Rightarrow> Inl e | Inr ds \<Rightarrow> Inr (map (metadata_of (module_type c)) ds)), OutputDecoder c)"
| "decoder_decode chunk addr (PcLogicDecoder d) =
     (let (ms, d) = pc_logic_decode_chunk (upper (py_strip chunk)) d in (Inr ms, PcLogicDecoder d))"
| "decoder_decode chunk addr (PcLinkDecoder d) =
     (let (ms, d) = pc_link_decode_chunk (upper (py_strip chunk)) d in (Inr ms, PcLinkDecoder d))"
| "decoder_decode chunk addr (AudioDecoder d) =
     (audio_decode_chunk (upper (py_strip chunk)) (Some addr) d, AudioDecoder d)"

definition all_decoders :: "coordinator option \<Rightarrow> decoder list" where
  "all_decoders coord = [OutputDecoder (new_chunker coord ''dimmer_module''), OutputDecoder (new_chunker coord ''switch_module''),
     OutputDecoder (new_chunker coord ''roller_module''), PcLogicDecoder (new_pc_logic_decoder coord),
     PcLinkDecoder (new_pc_link_decoder coord), AudioDecoder (new_audio_decoder coord)]"

subsection \<open>State\<close>

record scan_report =
  at_register :: int
  reported_total :: int
  reported_sent :: int

record discovery =
  ds_coordinator :: coordinator
  ds_discovery_module :: bool
  ds_discovery_module_address :: "string option"
  ds_discovered :: "(string \<times> pydict) list"
  ds_has_store :: bool
  ds_ir_table :: "(string \<times> int) list option res"
  ds_decoders :: "decoder list"
  ds_module_address :: "string option"
  ds_module_type :: "string option"
  ds_module_channels :: "int option"
  ds_payload_buffer :: string
  ds_response_index :: nat
  ds_scan_active :: bool
  ds_trailer_seen :: bool
  ds_scan_event :: bool
  ds_ff_streak :: nat
  ds_missed_acks :: nat
  ds_expected_records :: "int option"
  ds_decoded_records :: nat
  ds_corrupt_link_tables :: "string list"
  ds_timer :: bool
  ds_found_data :: bool
  ds_consecutive_empties :: nat
  ds_commands :: "pydict list"
  ds_mapping :: command_mapping
  pg_register_total :: int
  pg_registers_sent :: int
  pg_module_register_total :: int
  pg_decoded_records :: nat
  pg_reports :: "scan_report list"

text \<open>
  \<open>pg_reports\<close> collects what the scan has told the host's \<open>on_progress\<close>: of each progress object its register
  and its two counters.
  \<open>ds_ir_table\<close> is \<open>build_ir_receiver_lookup\<close> of the host's button store, or its exception;
  \<open>ds_commands\<close> collects the metadata of all commands decoded in the scan, and \<open>ds_mapping\<close> is
  \<open>_accumulated_command_mapping\<close>. \<open>ds_timer\<close>: the module's inactivity timer is armed.
\<close>

definition DEVICE_INVENTORY_ANSWER :: "string list" where "DEVICE_INVENTORY_ANSWER = [''$2E'', ''$1E'']"
definition MODULE_SCAN_RETRY_LIMIT :: nat where "MODULE_SCAN_RETRY_LIMIT = 1"
definition MODULE_SCAN_CONSECUTIVE_GIVE_UP_LIMIT :: nat where "MODULE_SCAN_CONSECUTIVE_GIVE_UP_LIMIT = 8"
definition MODULE_SCAN_FF_TERMINATOR_STREAK_LIMIT :: nat where "MODULE_SCAN_FF_TERMINATOR_STREAK_LIMIT = 3"

definition decoder_index :: "discovery \<Rightarrow> nat option" where
  \<comment> \<open>\<open>_get_decoder\<close>: the place of the first decoder that handles the module's type\<close>
  "decoder_index ds = (case ds_module_type ds of
       None \<Rightarrow> None
     | Some ty \<Rightarrow> (case filter (\<lambda>i. can_handle ty (decoder_base (ds_decoders ds ! i))) [0..<length (ds_decoders ds)] of
           [] \<Rightarrow> None | i # _ \<Rightarrow> Some i))"

definition on_decoder :: "nat \<Rightarrow> (decoder \<Rightarrow> decoder) \<Rightarrow> discovery \<Rightarrow> discovery" where
  "on_decoder i f ds = ds\<lparr>ds_decoders := (ds_decoders ds)[i := f (ds_decoders ds ! i)]\<rparr>"

definition resolve_module_type :: "string \<Rightarrow> pydict \<Rightarrow> discovery \<Rightarrow> string option" where
  "resolve_module_type addr device ds =
     opt_or (get_module_type (ds_coordinator ds) addr) (str_field device ''module_type'')"

fun py_any_in :: "string \<Rightarrow> pyval list \<Rightarrow> bool res" where
  "py_any_in s [] = Inr False"
| "py_any_in s (v # vs) = res_bind (text_in s v) (\<lambda>b. if b then Inr True else py_any_in s vs)"

definition is_known_module_address :: "string \<Rightarrow> discovery \<Rightarrow> bool res" where
  "is_known_module_address addr ds = py_any_in (upper addr) (map snd (dict_module_data (ds_coordinator ds)))"

definition module_channels :: "string \<Rightarrow> discovery \<Rightarrow> int option res" where
  \<comment> \<open>the first of the coordinator's count (0 for a module it does not know) and the inventory's that is
     not \<open>None\<close>\<close>
  "module_channels addr ds =
     res_bind (is_known_module_address addr ds) (\<lambda>known.
     res_bind (if known then get_module_channel_count (ds_coordinator ds) addr else Inr (Some 0)) (\<lambda>count.
       Inr (case count of
           Some n \<Rightarrow> Some n
         | None \<Rightarrow> (case map_of (ds_discovered ds) addr of None \<Rightarrow> None | Some d \<Rightarrow> as_int (dict_get d ''channels'')))))"

subsection \<open>One answer\<close>

definition notify_scan_frame :: "string \<Rightarrow> discovery \<Rightarrow> discovery" where
  "notify_scan_frame message ds =
     (if \<not> ds_scan_active ds then ds
      else (if is_inventory_trailer message then ds\<lparr>ds_trailer_seen := True\<rparr> else ds)\<lparr>ds_scan_event := True\<rparr>)"

fun merge_outputs :: "pydict list \<Rightarrow> pydict list \<Rightarrow> pydict list" where
  "merge_outputs bucket [] = bucket"
| "merge_outputs bucket (x # xs) = merge_outputs (if x \<in> set bucket then bucket else bucket @ [x]) xs"

fun accumulate_mapping :: "command_mapping \<Rightarrow> command_mapping \<Rightarrow> command_mapping" where
  "accumulate_mapping acc [] = acc"
| "accumulate_mapping acc ((k, os) # m) =
     accumulate_mapping (AList.update k (merge_outputs (case map_of acc k of None \<Rightarrow> [] | Some b \<Rightarrow> b) os) acc) m"

definition with_push_address :: "pydict \<Rightarrow> pydict" where
  \<comment> \<open>the command's metadata once the button's address stands in for a missing push-button address\<close>
  "with_push_address m =
     (if dict_get m ''push_button_address'' = PNone \<and> dict_get m ''button_address'' \<noteq> PNone
      then dict_set m ''push_button_address'' (dict_get m ''button_address'') else m)"

definition handle_decoded_commands :: "string \<Rightarrow> pydict list \<Rightarrow> discovery \<Rightarrow> unit res \<times> discovery" where
  "handle_decoded_commands addr commands ds =
     (let ds = ds\<lparr>pg_decoded_records := pg_decoded_records ds + length commands\<rparr>;
          scanned = (case opt_or (ds_discovery_module_address ds) (opt_or (ds_module_address ds) (Some [])) of
                       None \<Rightarrow> [] | Some a \<Rightarrow> a);
          ds = (if addr \<noteq> [] \<and> upper addr = upper scanned
                then ds\<lparr>ds_decoded_records := ds_decoded_records ds + length commands\<rparr> else ds)
      in (case (if ds_has_store ds then ds_ir_table ds else Inr None) of
            Inl e \<Rightarrow> (Inl e, ds)
          | Inr table \<Rightarrow>
              let usable = filter (\<lambda>m. dict_get m ''push_button_address'' \<noteq> PNone) (map with_push_address commands);
                  mapping = (if addr = [] then []
                             else fold (\<lambda>m acc. add_to_command_mapping acc m (Some addr) table) usable []);
                  ds = ds\<lparr>ds_commands := ds_commands ds @ usable\<rparr>
              in (Inr (), if ds_has_store ds then ds\<lparr>ds_mapping := accumulate_mapping (ds_mapping ds) mapping\<rparr> else ds)))"

fun decode_chunks :: "string list \<Rightarrow> string \<Rightarrow> decoder \<Rightarrow> pydict list res \<times> decoder" where
  \<comment> \<open>the loop over the chunks of an answer: erased ones are skipped\<close>
  "decode_chunks [] addr d = (Inr [], d)"
| "decode_chunks (c # cs) addr d =
     (let chunk = upper (py_strip c) in
      if chunk = [] \<or> list_all (\<lambda>x. x = CHR ''F'') chunk then decode_chunks cs addr d
      else (case decoder_decode chunk addr d of
          (Inl e, d) \<Rightarrow> (Inl e, d)
        | (Inr ms, d) \<Rightarrow> (case decode_chunks cs addr d of
              (Inl e, d) \<Rightarrow> (Inl e, d) | (Inr ms', d) \<Rightarrow> (Inr (ms @ ms'), d))))"

definition count_empty_register :: "string \<Rightarrow> bool \<Rightarrow> discovery \<Rightarrow> discovery" where
  \<comment> \<open>the streak of empty registers that ends a pass\<close>
  "count_empty_register region decoded_any ds =
     (case (case ds_module_type ds of None \<Rightarrow> None | Some ty \<Rightarrow> map_of FF_TERMINATOR_TAIL_HEX ty) of
        None \<Rightarrow> ds
      | Some tail_len \<Rightarrow>
          if \<not> decoded_any \<and> tail_len \<le> length region \<and> last_of tail_len region = replicate tail_len CHR ''F''
          then let streak = ds_ff_streak ds + 1 in
            ds\<lparr>ds_ff_streak := streak,
               ds_trailer_seen := (ds_trailer_seen ds \<or> MODULE_SCAN_FF_TERMINATOR_STREAK_LIMIT \<le> streak)\<rparr>
          else ds\<lparr>ds_ff_streak := 0\<rparr>)"

definition check_early_termination :: "bool \<Rightarrow> discovery \<Rightarrow> discovery" where
  \<comment> \<open>it never ends the scan; it counts\<close>
  "check_early_termination had_data ds =
     (if had_data then ds\<lparr>ds_found_data := True, ds_consecutive_empties := 0\<rparr>
      else if ds_found_data ds then ds\<lparr>ds_consecutive_empties := ds_consecutive_empties ds + 1\<rparr> else ds)"

definition reset_module_context :: "discovery \<Rightarrow> discovery" where
  "reset_module_context ds = ds\<lparr>ds_payload_buffer := [], ds_module_address := None, ds_module_type := None,
     ds_module_channels := None, ds_found_data := False, ds_consecutive_empties := 0, ds_response_index := 0,
     ds_decoders := map decoder_reset (ds_decoders ds)\<rparr>"

definition finalize_module :: "discovery \<Rightarrow> discovery" where
  \<comment> \<open>\<open>_finalize_discovery\<close> up to the choice between the next module and the end of the run\<close>
  "finalize_module ds = reset_module_context
     (ds\<lparr>ds_timer := False, ds_discovery_module := False, ds_discovery_module_address := None\<rparr>)"

definition take_analysis :: "string \<Rightarrow> frame_analysis \<Rightarrow> discovery \<Rightarrow> discovery" where
  \<comment> \<open>what the analysis of an answer leaves for the next one\<close>
  "take_analysis addr a ds =
     ds\<lparr>ds_module_address := Some addr, ds_payload_buffer := remainder a,
        ds_corrupt_link_tables := (if misaligned a then List.insert addr (ds_corrupt_link_tables ds)
                                   else ds_corrupt_link_tables ds),
        ds_response_index := ds_response_index ds + 1\<rparr>"

definition finish_answer :: "string \<Rightarrow> bool \<Rightarrow> discovery \<Rightarrow> discovery" where
  \<comment> \<open>after the records of an answer are handled\<close>
  "finish_answer region decoded_any ds0 =
     (let ds = check_early_termination decoded_any (count_empty_register region decoded_any ds0)
      in if \<not> ds_discovery_module ds then finalize_module ds
         else if ds_scan_active ds then ds else ds\<lparr>ds_timer := True\<rparr>)"

definition handle_commands :: "string \<Rightarrow> frame_analysis \<Rightarrow> pydict list \<Rightarrow> discovery \<Rightarrow> discovery" where
  "handle_commands addr a commands ds =
     (case (if commands = [] then (Inr (), ds) else handle_decoded_commands addr commands ds) of
        (Inl _, ds) \<Rightarrow> ds
      | (Inr _, ds) \<Rightarrow> finish_answer (payload_region a) (commands \<noteq> []) ds)"

definition after_analysis :: "string \<Rightarrow> nat \<Rightarrow> frame_analysis \<Rightarrow> discovery \<Rightarrow> discovery" where
  \<comment> \<open>from the analysis of an answer to the end of its handling, or to the step that raises\<close>
  "after_analysis addr i a ds0 =
     (let ds = take_analysis addr a ds0;
          (r, d) = decode_chunks (chunks a) addr (ds_decoders ds ! i);
          ds = on_decoder i (\<lambda>_. d) ds
      in case r of Inl _ \<Rightarrow> ds | Inr commands \<Rightarrow> handle_commands addr a commands ds)"

definition analyze_answer :: "string \<Rightarrow> string \<Rightarrow> int option \<Rightarrow> discovery \<Rightarrow> discovery" where
  \<comment> \<open>an answer of the module at \<open>addr\<close>, whose channel count is known by now\<close>
  "analyze_answer addr payload_and_crc channels ds0 =
     (let ds = ds0\<lparr>ds_module_channels := channels\<rparr> in
      case decoder_index ds of
        None \<Rightarrow> ds\<lparr>ds_timer := True\<rparr>
      | Some i \<Rightarrow>
          let ds = on_decoder i (map_base (set_module_channel_count channels \<circ> set_module_address (Some addr))) ds;
              (r, d) = decoder_analyze (ds_payload_buffer ds) payload_and_crc (ds_decoders ds ! i);
              ds = on_decoder i (\<lambda>_. d) ds
          in (case r of
                Inl _ \<Rightarrow> ds
              | Inr None \<Rightarrow> ds\<lparr>ds_timer := True\<rparr>
              | Inr (Some a) \<Rightarrow> after_analysis addr i a ds))"

definition identify_module :: "string \<Rightarrow> discovery \<Rightarrow> discovery" where
  \<comment> \<open>the type of the module, when it is not known yet\<close>
  "identify_module addr ds0 =
     (let ds = ds0\<lparr>ds_module_address := Some addr\<rparr>;
          device = (case map_of (ds_discovered ds) addr of None \<Rightarrow> [] | Some d \<Rightarrow> d)
      in if ds_module_type ds = None then ds\<lparr>ds_module_type := resolve_module_type addr device ds\<rparr> else ds)"

definition parse_module_inventory_response :: "string \<Rightarrow> discovery \<Rightarrow> discovery" where
  \<comment> \<open>in a scan of a module (\<open>InventoryQueryType.MODULE\<close>)\<close>
  "parse_module_inventory_response message ds0 =
     (let ds = notify_scan_frame message ds0 in
      if \<not> list_ex (starts_with message) DEVICE_INVENTORY_ANSWER then ds
      else let frame_body = drop 3 message in
        if length frame_body < 4 then ds
        else (case reverse_hex (upper (take 4 frame_body)) of
            Inl _ \<Rightarrow> ds
          | Inr addr \<Rightarrow>
              let ds = identify_module addr ds
              in (case module_channels addr ds of
                    Inl _ \<Rightarrow> ds
                  | Inr channels \<Rightarrow> analyze_answer addr (drop 4 frame_body) channels ds)))"

subsection \<open>One register\<close>

definition deliver_frame :: "string \<Rightarrow> listener \<Rightarrow> discovery \<Rightarrow> listener \<times> discovery" where
  \<comment> \<open>the listener's event callback is \<open>parse_module_inventory_response\<close>\<close>
  "deliver_frame f lst ds = (let (outs, lst) = dispatch_message f lst in
     (lst, fold (\<lambda>out ds. case out of EventCallback m \<Rightarrow> parse_module_inventory_response m ds | _ \<Rightarrow> ds) outs ds))"

fun deliver_all :: "string list \<Rightarrow> listener \<Rightarrow> discovery \<Rightarrow> listener \<times> discovery" where
  "deliver_all [] lst ds = (lst, ds)"
| "deliver_all (f # fs) lst ds = (let (lst, ds) = deliver_frame f lst ds in deliver_all fs lst ds)"

fun await_matching_ack :: "string \<Rightarrow> happening list \<Rightarrow> listener \<Rightarrow> discovery \<Rightarrow> bool \<times> happening list \<times> listener \<times> discovery" where
  "await_matching_ack ack [] lst ds = (False, [], lst, ds)"
| "await_matching_ack ack (Expire # hs) lst ds = (False, hs, lst, ds)"
| "await_matching_ack ack (Frame f # hs) lst ds =
     (let (lst, ds) = deliver_frame f lst ds in await_matching_ack ack hs lst ds)"
| "await_matching_ack ack (Wake # hs) lst ds = (case response_queue lst of
       [] \<Rightarrow> await_matching_ack ack hs lst ds
     | msg # q \<Rightarrow> let lst = lst\<lparr>response_queue := q\<rparr> in
         if starts_with msg ack then (True, hs, lst, ds) else await_matching_ack ack hs lst ds)"

fun await_scan_event :: "happening list \<Rightarrow> listener \<Rightarrow> discovery \<Rightarrow> happening list \<times> listener \<times> discovery" where
  \<comment> \<open>until the event is set, or the time is up\<close>
  "await_scan_event [] lst ds = ([], lst, ds)"
| "await_scan_event (Expire # hs) lst ds = (hs, lst, ds)"
| "await_scan_event (Frame f # hs) lst ds = (let (lst, ds) = deliver_frame f lst ds in await_scan_event hs lst ds)"
| "await_scan_event (Wake # hs) lst ds = (if ds_scan_event ds then (hs, lst, ds) else await_scan_event hs lst ds)"

type_synonym 'e bus = "string \<Rightarrow> 'e \<Rightarrow> happening list option \<times> 'e"

definition read_attempt :: "'e bus \<Rightarrow> string \<Rightarrow> 'e \<Rightarrow> listener \<Rightarrow> discovery \<Rightarrow> bool \<times> 'e \<times> listener \<times> discovery" where
  \<comment> \<open>the bus answers \<open>None\<close> when sending raises. What an attempt leaves of the happenings reaches the
     listener once it no longer awaits a response\<close>
  "read_attempt respond command env lst0 ds0 =
     (let lst = lst0\<lparr>response_queue := [], awaiting_response := True\<rparr>;
          ds = ds0\<lparr>ds_scan_event := False\<rparr>
      in case respond command env of
           (None, env) \<Rightarrow> (False, env, lst\<lparr>awaiting_response := False\<rparr>, ds)
         | (Some hs, env) \<Rightarrow>
             let (acked, hs, lst, ds) = await_matching_ack (''$05'' @ slice 3 5 command) hs lst ds;
                 (hs, lst, ds) = (if acked \<and> \<not> ds_scan_event ds then await_scan_event hs lst ds else (hs, lst, ds));
                 (lst, ds) = deliver_all (frames_in hs) (lst\<lparr>awaiting_response := False\<rparr>) ds
             in (acked, env, lst, ds))"

fun read_register_once :: "nat \<Rightarrow> 'e bus \<Rightarrow> string \<Rightarrow> 'e \<Rightarrow> listener \<Rightarrow> discovery \<Rightarrow> bool \<times> 'e \<times> listener \<times> discovery" where
  \<comment> \<open>with \<open>n\<close> attempts left\<close>
  "read_register_once 0 respond command env lst ds =
     (False, env, lst\<lparr>response_queue := []\<rparr>, ds\<lparr>ds_payload_buffer := []\<rparr>)"
| "read_register_once (Suc n) respond command env lst ds =
     (case read_attempt respond command env lst ds of
        (True, env, lst, ds) \<Rightarrow> (True, env, lst, ds)
      | (False, env, lst, ds) \<Rightarrow> read_register_once n respond command env lst ds)"

subsection \<open>One pass\<close>

definition emit_progress :: "int \<Rightarrow> discovery \<Rightarrow> discovery" where
  \<comment> \<open>the call after a register was read\<close>
  "emit_progress reg ds = ds\<lparr>pg_reports := pg_reports ds @
     [\<lparr>at_register = reg, reported_total = pg_register_total ds, reported_sent = pg_registers_sent ds\<rparr>]\<rparr>"

definition drop_unused :: "int \<Rightarrow> int \<Rightarrow> int \<Rightarrow> discovery \<Rightarrow> discovery" where
  \<comment> \<open>a pass that ends early gives its unused reads back\<close>
  "drop_unused pass_total pre_pass_sent registers_sent ds =
     (let unused = max 0 (pass_total - registers_sent);
          total = max (pre_pass_sent + registers_sent) (pg_module_register_total ds - unused)
      in ds\<lparr>pg_module_register_total := total, pg_register_total := total\<rparr>)"

definition set_block :: "nat option \<Rightarrow> string \<Rightarrow> int \<Rightarrow> discovery \<Rightarrow> discovery" where
  \<comment> \<open>the decoder chosen at the start of the pass is told which block the next answer is for\<close>
  "set_block tracker sub reg ds = (case tracker of None \<Rightarrow> ds | Some i \<Rightarrow> on_decoder i (decoder_set_block sub reg) ds)"

fun scan_loop :: "'e bus \<Rightarrow> nat option \<Rightarrow> string \<Rightarrow> string \<Rightarrow> int \<Rightarrow> int \<Rightarrow> int list \<Rightarrow> int \<Rightarrow> nat \<Rightarrow> 'e \<Rightarrow> listener \<Rightarrow> discovery \<Rightarrow>
    unit res \<times> 'e \<times> listener \<times> discovery" where
  "scan_loop respond tracker base sub pass_total pre_pass_sent [] registers_sent give_ups env lst ds = (Inr (), env, lst, ds)"
| "scan_loop respond tracker base sub pass_total pre_pass_sent (reg # regs) registers_sent give_ups env lst ds =
     (if ds_trailer_seen ds then (Inr (), env, lst, drop_unused pass_total pre_pass_sent registers_sent ds)
      else (case make_pc_link_inventory_command (base @ fmt_hex 2 reg @ sub) of
          Inl e \<Rightarrow> (Inl e, env, lst, ds)
        | Inr command \<Rightarrow>
            let ds = set_block tracker sub reg ds;
                (ack_ok, env, lst, ds) = read_register_once (MODULE_SCAN_RETRY_LIMIT + 1) respond command env lst ds;
                registers_sent = registers_sent + 1;
                ds = emit_progress reg (ds\<lparr>pg_registers_sent := pg_registers_sent ds + 1\<rparr>)
            in if ack_ok
               then scan_loop respond tracker base sub pass_total pre_pass_sent regs registers_sent 0 env lst ds
               else let give_ups = give_ups + 1; ds = ds\<lparr>ds_missed_acks := ds_missed_acks ds + 1\<rparr> in
                 if give_ups \<ge> MODULE_SCAN_CONSECUTIVE_GIVE_UP_LIMIT
                 then (Inr (), env, lst, drop_unused pass_total pre_pass_sent registers_sent ds)
                 else scan_loop respond tracker base sub pass_total pre_pass_sent regs registers_sent give_ups env lst ds))"

definition begin_pass :: "int \<Rightarrow> discovery \<Rightarrow> discovery" where
  "begin_pass pass_total ds =
     (let ds = ds\<lparr>ds_scan_active := True, ds_trailer_seen := False, ds_ff_streak := 0, ds_scan_event := False, ds_timer := False\<rparr>;
          ds = (if pg_module_register_total ds = 0
                then ds\<lparr>pg_module_register_total := pass_total, pg_registers_sent := 0\<rparr> else ds)
      in ds\<lparr>pg_register_total := pg_module_register_total ds\<rparr>)"

definition end_pass :: "discovery \<Rightarrow> discovery" where
  "end_pass ds = ds\<lparr>ds_scan_active := False, ds_trailer_seen := False, ds_ff_streak := 0\<rparr>"

definition scan_module_registers :: "'e bus \<Rightarrow> string \<Rightarrow> int list \<Rightarrow> string \<Rightarrow> 'e \<Rightarrow> listener \<Rightarrow> discovery \<Rightarrow>
    unit res \<times> 'e \<times> listener \<times> discovery" where
  "scan_module_registers respond base command_range sub env lst ds =
     (let pass_total = int (length command_range);
          ds = begin_pass pass_total ds;
          (r, env, lst, ds) = scan_loop respond (decoder_index ds) base sub pass_total (pg_registers_sent ds) command_range 0 0 env lst ds
      in (r, env, lst, end_pass ds))"

subsection \<open>The passes of a module\<close>

fun run_passes :: "'e bus \<Rightarrow> string \<Rightarrow> scan_section list \<Rightarrow> 'e \<Rightarrow> listener \<Rightarrow> discovery \<Rightarrow>
    unit res \<times> 'e \<times> listener \<times> discovery" where
  "run_passes respond base [] env lst ds = (Inr (), env, lst, ds)"
| "run_passes respond base ((sub, regs) # passes) env lst ds =
     (case scan_module_registers respond base regs (wire_sub_byte sub) env lst ds of
        (Inl e, env, lst, ds) \<Rightarrow> (Inl e, env, lst, ds)
      | (Inr _, env, lst, ds) \<Rightarrow> run_passes respond base passes env lst ds)"

definition planned_registers :: "scan_section list \<Rightarrow> int" where
  "planned_registers passes = int (sum_list (map (\<lambda>(sub, regs). length regs) passes))"

fun run_extension_passes :: "nat \<Rightarrow> 'e bus \<Rightarrow> string \<Rightarrow> 'e \<Rightarrow> listener \<Rightarrow> discovery \<Rightarrow>
    unit res \<times> 'e \<times> listener \<times> discovery" where
  \<comment> \<open>with \<open>n\<close> rounds left\<close>
  "run_extension_passes 0 respond base env lst ds = (Inr (), env, lst, ds)"
| "run_extension_passes (Suc n) respond base env lst ds = (case decoder_index ds of
       None \<Rightarrow> (Inr (), env, lst, ds)
     | Some i \<Rightarrow>
         let (extra, d) = decoder_extension (ds_decoders ds ! i); ds = on_decoder i (\<lambda>_. d) ds in
         if extra = [] then (Inr (), env, lst, ds)
         else let ds = ds\<lparr>pg_module_register_total := pg_module_register_total ds + planned_registers extra\<rparr> in
           (case run_passes respond base extra env lst ds of
              (Inl e, env, lst, ds) \<Rightarrow> (Inl e, env, lst, ds)
            | (Inr _, env, lst, ds) \<Rightarrow> run_extension_passes n respond base env lst ds))"

definition new_discovery :: "coordinator \<Rightarrow> bool \<Rightarrow> (string \<times> int) list option res \<Rightarrow> discovery" where
  "new_discovery coord has_store table =
     \<lparr>ds_coordinator = coord, ds_discovery_module = False, ds_discovery_module_address = None, ds_discovered = [],
      ds_has_store = has_store, ds_ir_table = table, ds_decoders = all_decoders (Some coord), ds_module_address = None,
      ds_module_type = None, ds_module_channels = None, ds_payload_buffer = [], ds_response_index = 0, ds_scan_active = False,
      ds_trailer_seen = False, ds_scan_event = False, ds_ff_streak = 0, ds_missed_acks = 0, ds_expected_records = None,
      ds_decoded_records = 0, ds_corrupt_link_tables = [], ds_timer = False, ds_found_data = False, ds_consecutive_empties = 0,
      ds_commands = [], ds_mapping = [], pg_register_total = 0, pg_registers_sent = 0, pg_module_register_total = 0,
      pg_decoded_records = 0, pg_reports = []\<rparr>"

definition enter_module :: "string \<Rightarrow> discovery \<Rightarrow> discovery res" where
  \<comment> \<open>the start of \<open>_query_module_inventory_inner\<close> for one module, its address normalised\<close>
  "enter_module addr ds0 =
     (let ds = ds0\<lparr>ds_module_address := Some addr\<rparr>;
          device = (case map_of (ds_discovered ds) addr of None \<Rightarrow> [] | Some d \<Rightarrow> d);
          ds = (if ds_discovery_module ds then ds
                else ds\<lparr>ds_discovery_module := True, ds_discovery_module_address := Some addr\<rparr>);
          ds = (if ds_module_type ds = None then ds\<lparr>ds_module_type := resolve_module_type addr device ds\<rparr> else ds)
      in res_bind (module_channels addr ds) (\<lambda>channels. Inr (ds\<lparr>ds_module_channels := channels\<rparr>)))"

definition count_bounded_passes :: "module_status option \<Rightarrow> discovery \<Rightarrow> scan_section list \<times> discovery" where
  \<comment> \<open>\<open>None\<close>: the module did not report its status\<close>
  "count_bounded_passes reported ds = (case reported of
       None \<Rightarrow> ([], ds)
     | Some status \<Rightarrow> (case count_driven_passes (ds_module_type ds) status of
           None \<Rightarrow> ([], ds)
         | Some passes \<Rightarrow>
             let b = int (unat (record_count_b status));
                 second = (if 0 < b \<and> b < 0xFF then b else 0)
             in (passes, ds\<lparr>ds_expected_records := Some (int (unat (record_count_a status)) + second)\<rparr>)))"

definition link_table_incomplete :: "string \<Rightarrow> bool \<Rightarrow> discovery \<Rightarrow> string option" where
  "link_table_incomplete addr count_driven ds =
     (if \<not> count_driven then Some ''scanned with the fixed band''
      else if ds_missed_acks ds \<noteq> 0 then Some (fmt_dec 1 (int (ds_missed_acks ds)) @ '' register read(s) unanswered'')
      else if upper addr \<in> set (ds_corrupt_link_tables ds) then Some ''link table flagged as corrupt''
      else (case ds_expected_records ds of
          None \<Rightarrow> Some ''record count unknown''
        | Some expected \<Rightarrow>
            if int (ds_decoded_records ds) < expected
            then Some (fmt_dec 1 (int (ds_decoded_records ds)) @ '' of '' @ fmt_dec 1 expected @ '' announced record(s) decoded'')
            else None))"

definition base_command_of :: "string \<Rightarrow> string option \<Rightarrow> string" where
  \<comment> \<open>the read function of the family and the module's address, low byte first\<close>
  "base_command_of addr mtype =
     (if mtype = Some ''dimmer_module'' then ''22'' else ''10'') @ slice 2 4 addr @ take 2 addr"

datatype scan_outcome =
    NoPlan
  | Scanned
  | LinkTable bool "string option"

definition scan_module :: "'e bus \<Rightarrow> bool \<Rightarrow> module_status option \<Rightarrow> string \<Rightarrow> 'e \<Rightarrow> listener \<Rightarrow> discovery \<Rightarrow>
    scan_outcome res \<times> 'e \<times> listener \<times> discovery" where
  \<comment> \<open>\<open>_query_module_inventory_inner\<close> from the choice of the plan to the test of the link table: for an
     output module, whether the plan was sized by the counts, and why its table cannot be taken as complete\<close>
  "scan_module respond broad_scan reported addr env lst ds =
     (let base = base_command_of addr (ds_module_type ds);
          ds = ds\<lparr>ds_expected_records := None, ds_decoded_records := 0\<rparr>;
          (counted, ds) = (if broad_scan then ([], ds) else count_bounded_passes reported ds);
          count_driven = (counted \<noteq> []);
          ds = ds\<lparr>ds_missed_acks := 0\<rparr>;
          passes = (if counted = [] then scan_passes_for_module_type (ds_module_type ds) broad_scan else counted)
      in if passes = [] then (Inr NoPlan, env, lst, ds)
         else
           let ds = ds\<lparr>pg_module_register_total := planned_registers passes, pg_registers_sent := 0\<rparr>
           in (case run_passes respond base passes env lst ds of
                 (Inl e, env, lst, ds) \<Rightarrow> (Inl e, env, lst, ds)
               | (Inr _, env, lst, ds) \<Rightarrow>
                   (case run_extension_passes EXTENSION_ROUNDS_LIMIT respond base env lst ds of
                      (Inl e, env, lst, ds) \<Rightarrow> (Inl e, env, lst, ds)
                    | (Inr _, env, lst, ds) \<Rightarrow>
                        (Inr (if ds_module_type ds \<in> Some ` set LINK_TABLE_MODULE_TYPES
                              then LinkTable count_driven (link_table_incomplete addr count_driven ds) else Scanned),
                         env, lst, ds))))"

subsection \<open>The channel count of a module the host does not know\<close>

lemma unknown_module_has_no_channels:
  assumes "is_known_module_address addr ds = Inr False"
  shows "module_channels addr ds = Inr (Some 0)"
    "ctx_module_channel_count ctx = Some 0 \<Longrightarrow> \<not> channel_ok ctx ch"
    "ctx_module_channel_count ctx = Some 0 \<Longrightarrow> switch_decode p raw_bytes ctx = None"
  using assms
  by (simp_all add: module_channels_def channel_ok_def switch_decode_def Let_def split: option.splits prod.splits)

subsection \<open>What an answer leaves alone\<close>

definition progress_of :: "discovery \<Rightarrow> int \<times> int \<times> int \<times> nat \<times> scan_report list" where
  \<comment> \<open>what only the scan itself changes\<close>
  "progress_of ds = (pg_register_total ds, pg_registers_sent ds, pg_module_register_total ds, ds_missed_acks ds, pg_reports ds)"

lemma progress_of_simps [simp]:
  "progress_of (ds\<lparr>ds_scan_event := b\<rparr>) = progress_of ds"
  "progress_of (ds\<lparr>ds_payload_buffer := s\<rparr>) = progress_of ds"
  "progress_of (ds\<lparr>ds_timer := b\<rparr>) = progress_of ds"
  "progress_of (ds\<lparr>ds_module_address := a\<rparr>) = progress_of ds"
  "progress_of (ds\<lparr>ds_module_type := a\<rparr>) = progress_of ds"
  "progress_of (ds\<lparr>ds_module_channels := c\<rparr>) = progress_of ds"
  "progress_of (on_decoder i f ds) = progress_of ds"
  "progress_of (set_block tr sub reg ds) = progress_of ds"
  by (simp_all add: progress_of_def on_decoder_def set_block_def split: option.splits)

lemma notify_progress [simp]: "progress_of (notify_scan_frame m ds) = progress_of ds"
  by (simp add: progress_of_def notify_scan_frame_def)

lemma handle_progress: "handle_decoded_commands a cs ds = (r, ds') \<Longrightarrow> progress_of ds' = progress_of ds"
  by (auto simp: progress_of_def handle_decoded_commands_def Let_def split: sum.splits if_splits)

lemma handle_progress_snd [simp]: "progress_of (snd (handle_decoded_commands a cs ds)) = progress_of ds"
  using handle_progress by (metis prod.collapse)

lemma finalize_progress [simp]: "progress_of (finalize_module ds) = progress_of ds"
  by (simp add: progress_of_def finalize_module_def reset_module_context_def)

lemma count_progress [simp]: "progress_of (count_empty_register g b ds) = progress_of ds" "progress_of (check_early_termination b ds) = progress_of ds"
  by (simp_all add: progress_of_def count_empty_register_def check_early_termination_def Let_def split: option.splits)

lemma take_analysis_progress [simp]: "progress_of (take_analysis addr a ds) = progress_of ds"
  by (simp add: take_analysis_def progress_of_def)

lemma finish_progress [simp]: "progress_of (finish_answer g b ds) = progress_of ds"
  by (simp add: finish_answer_def Let_def)

lemma handle_commands_progress [simp]: "progress_of (handle_commands addr a cs ds) = progress_of ds"
  unfolding handle_commands_def by (auto simp: handle_progress split: prod.splits sum.splits)

lemma after_progress [simp]: "progress_of (after_analysis addr i a ds) = progress_of ds"
  unfolding after_analysis_def Let_def by (simp split: prod.splits sum.splits)

lemma analyze_answer_progress [simp]: "progress_of (analyze_answer addr p c ds) = progress_of ds"
  unfolding analyze_answer_def Let_def by (simp split: prod.splits sum.splits option.splits)

lemma identify_progress [simp]: "progress_of (identify_module addr ds) = progress_of ds"
  by (simp add: identify_module_def Let_def)

lemma parse_progress [simp]: "progress_of (parse_module_inventory_response m ds) = progress_of ds"
  unfolding parse_module_inventory_response_def Let_def by (simp split: sum.splits)

lemma deliver_frame_progress: "progress_of (snd (deliver_frame f lst ds)) = progress_of ds"
proof -
  have "progress_of (fold (\<lambda>out ds. case out of EventCallback m \<Rightarrow> parse_module_inventory_response m ds | _ \<Rightarrow> ds) outs ds) = progress_of ds" for outs
    by (induction outs arbitrary: ds) (auto split: listener_out.splits)
  then show ?thesis by (simp add: deliver_frame_def split_def Let_def)
qed

lemma deliver_all_progress: "progress_of (snd (deliver_all fs lst ds)) = progress_of ds"
  by (induction fs lst ds rule: deliver_all.induct) (auto simp: Let_def split_def deliver_frame_progress)

lemma await_ack_progress: "progress_of (snd (snd (snd (await_matching_ack ack hs lst ds)))) = progress_of ds"
  by (induction ack hs lst ds rule: await_matching_ack.induct) (auto simp: Let_def split_def deliver_frame_progress split: list.splits)

lemma await_event_progress: "progress_of (snd (snd (await_scan_event hs lst ds))) = progress_of ds"
  by (induction hs lst ds rule: await_scan_event.induct) (auto simp: Let_def split_def deliver_frame_progress)

lemma read_attempt_progress: "progress_of (snd (snd (snd (read_attempt respond c env lst ds)))) = progress_of ds"
proof (cases "respond c env")
  case (Pair o1 env1)
  show ?thesis
  proof (cases o1)
    case None then show ?thesis using Pair by (simp add: read_attempt_def Let_def)
  next
    case (Some hs)
    let ?l = "lst\<lparr>response_queue := [], awaiting_response := True\<rparr>"
    obtain b hs1 lst1 ds1 where a: "await_matching_ack (''$05'' @ slice 3 5 c) hs ?l (ds\<lparr>ds_scan_event := False\<rparr>) = (b, hs1, lst1, ds1)"
      by (metis prod_cases4)
    have p1: "progress_of ds1 = progress_of ds"
      using await_ack_progress [of "''$05'' @ slice 3 5 c" hs ?l "ds\<lparr>ds_scan_event := False\<rparr>"] unfolding a by simp
    obtain hs2 lst2 ds2 where e: "(if b \<and> \<not> ds_scan_event ds1 then await_scan_event hs1 lst1 ds1 else (hs1, lst1, ds1)) = (hs2, lst2, ds2)"
      by (metis prod_cases3)
    have p2: "progress_of ds2 = progress_of ds"
      using e p1 await_event_progress [of hs1 lst1 ds1] by (auto split: if_splits)
    show ?thesis using deliver_all_progress [of "frames_in hs2" "lst2\<lparr>awaiting_response := False\<rparr>" ds2] p2
      unfolding read_attempt_def Let_def Pair Some option.case prod.case a e by (simp add: split_def)
  qed
qed

lemma read_once_progress: "progress_of (snd (snd (snd (read_register_once n respond c env lst ds)))) = progress_of ds"
proof (induction n arbitrary: env lst ds)
  case (Suc n)
  obtain b env1 lst1 ds1 where a: "read_attempt respond c env lst ds = (b, env1, lst1, ds1)" by (metis prod_cases4)
  then have "progress_of ds1 = progress_of ds" using read_attempt_progress [of respond c env lst ds] by simp
  then show ?case using Suc [of env1 lst1 ds1] by (cases b) (simp_all add: a)
qed simp

definition counted_bus :: "'e bus \<Rightarrow> (nat \<times> 'e) bus" where
  \<comment> \<open>a bus that counts what is sent on it\<close>
  "counted_bus respond = (\<lambda>c (k, env). let (hs, env') = respond c env in (hs, (k + 1, env')))"

lemma read_attempt_counted: "fst (fst (snd (read_attempt (counted_bus respond) c (k, env) lst ds))) = k + 1"
  by (cases "respond c env"; cases "fst (respond c env)") (simp_all add: read_attempt_def counted_bus_def Let_def split_def)

lemma read_once_counted:
  "k \<le> fst (fst (snd (read_register_once n (counted_bus respond) c (k, env) lst ds))) \<and>
   fst (fst (snd (read_register_once n (counted_bus respond) c (k, env) lst ds))) \<le> k + n"
proof (induction n arbitrary: k env lst ds)
  case (Suc n)
  obtain b k1 env1 lst1 ds1 where a: "read_attempt (counted_bus respond) c (k, env) lst ds = (b, (k1, env1), lst1, ds1)" by (metis prod_cases4 prod.collapse)
  then have "k1 = k + 1" using read_attempt_counted [of respond c k env lst ds] by simp
  then show ?case using Suc [of "k + 1" env1 lst1 ds1] by (cases b) (simp_all add: a)
qed simp

subsection \<open>A scan reads what it announces\<close>

definition within :: "nat \<Rightarrow> scan_report list \<Rightarrow> int \<Rightarrow> nat \<times> 'e \<Rightarrow> discovery \<Rightarrow> bool" where
  \<comment> \<open>in a scan begun after \<open>k\<close> commands and these reports, with \<open>rest\<close> reads to come\<close>
  "within k before rest ke ds \<longleftrightarrow> 0 \<le> pg_registers_sent ds \<and>
     pg_registers_sent ds + rest = pg_module_register_total ds \<and> int (fst ke) \<le> int k + 2 * pg_registers_sent ds \<and>
     (\<exists>new. pg_reports ds = before @ new \<and> map reported_sent new = [1..pg_registers_sent ds] \<and>
        list_all (\<lambda>p. reported_sent p \<le> reported_total p) new)"

definition outcome :: "nat \<Rightarrow> scan_report list \<Rightarrow> int \<Rightarrow> 'a res \<Rightarrow> nat \<times> 'e \<Rightarrow> discovery \<Rightarrow> bool" where
  \<comment> \<open>a scan that fails has reads left\<close>
  "outcome k before rest r ke ds = (case r of
     Inl _ \<Rightarrow> \<exists>more. 0 \<le> more \<and> within k before more ke ds | Inr _ \<Rightarrow> within k before rest ke ds)"

definition told :: "discovery \<Rightarrow> bool" where
  \<comment> \<open>the total the reports carry is the module's\<close>
  "told ds \<longleftrightarrow> pg_register_total ds = pg_module_register_total ds"

lemma progress_fields:
  assumes "progress_of ds = progress_of ds'"
  shows "pg_registers_sent ds = pg_registers_sent ds'" "pg_module_register_total ds = pg_module_register_total ds'"
    "pg_register_total ds = pg_register_total ds'" "ds_missed_acks ds = ds_missed_acks ds'" "pg_reports ds = pg_reports ds'"
  using assms by (simp_all add: progress_of_def)

lemma within_cong:
  assumes "pg_registers_sent ds = pg_registers_sent ds'" "pg_module_register_total ds = pg_module_register_total ds'"
    "pg_reports ds = pg_reports ds'"
  shows "within k before rest ke ds \<longleftrightarrow> within k before rest ke ds'"
  using assms by (simp add: within_def)

lemma within_missed [simp]: "within k before rest ke (ds\<lparr>ds_missed_acks := x\<rparr>) \<longleftrightarrow> within k before rest ke ds"
  by (rule within_cong) simp_all

lemma within_more:
  "within k before (a + rest) ke (ds\<lparr>pg_module_register_total := pg_module_register_total ds + a\<rparr>) \<longleftrightarrow>
   within k before rest ke ds"
proof -
  have "pg_registers_sent ds + (a + rest) = pg_module_register_total ds + a \<longleftrightarrow>
      pg_registers_sent ds + rest = pg_module_register_total ds" by linarith
  then show ?thesis by (simp add: within_def)
qed

lemma within_end: "within k before rest ke (end_pass ds) \<longleftrightarrow> within k before rest ke ds"
  by (rule within_cong) (simp_all add: end_pass_def)

lemma outcome_end: "outcome k before rest r ke (end_pass ds) \<longleftrightarrow> outcome k before rest r ke ds"
  by (cases r) (simp_all add: outcome_def within_end)

lemma outcome_Inl: "within k before rest ke ds \<Longrightarrow> 0 \<le> rest \<Longrightarrow> outcome k before rest' (Inl e) ke ds"
  by (auto simp: outcome_def)

lemma outcome_Inr [simp]: "outcome k before rest (Inr x) ke ds \<longleftrightarrow> within k before rest ke ds"
  by (simp add: outcome_def)

lemma drop_within:
  assumes "within k before (int l + rest) ke ds" "0 \<le> rest" "pg_registers_sent ds = pre + n" "tot = n + int l"
  shows "within k before rest ke (drop_unused tot pre n ds)" "told (drop_unused tot pre n ds)"
  using assms by (auto simp: within_def drop_unused_def told_def Let_def)

lemma emit_within:
  assumes "within k before (1 + rest) ke ds" "told ds" "0 \<le> rest" "int (fst ke') \<le> int (fst ke) + 2"
  shows "within k before rest ke' (emit_progress reg (ds\<lparr>pg_registers_sent := pg_registers_sent ds + 1\<rparr>))"
    "told (emit_progress reg (ds\<lparr>pg_registers_sent := pg_registers_sent ds + 1\<rparr>))"
proof -
  obtain new where new: "pg_reports ds = before @ new" "map reported_sent new = [1..pg_registers_sent ds]"
    "list_all (\<lambda>p. reported_sent p \<le> reported_total p) new" and s: "0 \<le> pg_registers_sent ds"
    using assms(1) unfolding within_def by blast
  have "[1..pg_registers_sent ds + 1] = [1..pg_registers_sent ds] @ [pg_registers_sent ds + 1]"
    using s by (subst upto_rec2) simp_all
  then show "within k before rest ke' (emit_progress reg (ds\<lparr>pg_registers_sent := pg_registers_sent ds + 1\<rparr>))"
    using assms new by (simp add: within_def told_def emit_progress_def)
  show "told (emit_progress reg (ds\<lparr>pg_registers_sent := pg_registers_sent ds + 1\<rparr>))"
    using assms(2) by (simp add: told_def emit_progress_def)
qed

lemma emit_fields [simp]:
  "pg_registers_sent (emit_progress reg ds) = pg_registers_sent ds" "ds_missed_acks (emit_progress reg ds) = ds_missed_acks ds"
  by (simp_all add: emit_progress_def)

lemma scan_loop_within:
  assumes "within k before (int (length regs) + rest) ke ds" "told ds" "0 \<le> rest"
    and "pg_registers_sent ds = pre + n" "tot = n + int (length regs)"
  shows "case scan_loop (counted_bus respond) tr base sub tot pre regs n g ke lst ds of (r, ke', lst', ds') \<Rightarrow>
    outcome k before rest r ke' ds' \<and> told ds'"
  using assms
proof (induction regs arbitrary: n g ke lst ds)
  case Nil then show ?case by simp
next
  case (Cons reg regs)
  show ?case
  proof (cases "ds_trailer_seen ds")
    case True
    then show ?thesis using drop_within [OF Cons.prems(1,3,4,5)] by simp
  next
    case False
    show ?thesis
    proof (cases "make_pc_link_inventory_command (base @ fmt_hex 2 reg @ sub)")
      case (Inl e)
      then show ?thesis using outcome_Inl [OF Cons.prems(1)] Cons.prems(2,3) False by simp
    next
      case (Inr c)
      obtain k1 env1 where ke: "ke = (k1, env1)" by fastforce
      obtain b k2 env2 lst2 ds2 where a: "read_register_once (MODULE_SCAN_RETRY_LIMIT + 1) (counted_bus respond) c ke lst (set_block tr sub reg ds) = (b, (k2, env2), lst2, ds2)"
        by (metis prod_cases4 prod.collapse)
      have p: "progress_of ds2 = progress_of ds"
        using read_once_progress [of "MODULE_SCAN_RETRY_LIMIT + 1" "counted_bus respond" c ke lst "set_block tr sub reg ds"] unfolding a by simp
      note f = progress_fields [OF p]
      have k2: "int (fst (k2, env2)) \<le> int (fst ke) + 2"
        using read_once_counted [of k1 "MODULE_SCAN_RETRY_LIMIT + 1" respond c env1 lst "set_block tr sub reg ds"]
        unfolding ke [symmetric] a by (simp add: MODULE_SCAN_RETRY_LIMIT_def ke)
      have w: "within k before (1 + (int (length regs) + rest)) ke ds2" "told ds2"
        using Cons.prems(1,2) f by (simp_all add: within_cong [OF f(1,2,5)] told_def add.assoc)
      have nn: "0 \<le> int (length regs) + rest" using Cons.prems(3) by simp
      let ?ds3 = "emit_progress reg (ds2\<lparr>pg_registers_sent := pg_registers_sent ds2 + 1\<rparr>)"
      note e = emit_within [OF w nn k2, of reg]
      have s: "pg_registers_sent ?ds3 = pre + (n + 1)" using Cons.prems(4) f by simp
      have t: "tot = n + 1 + int (length regs)" using Cons.prems(5) by simp
      let ?ds4 = "?ds3\<lparr>ds_missed_acks := ds_missed_acks ds2 + 1\<rparr>"
      have e4: "within k before (int (length regs) + rest) (k2, env2) ?ds4" "told ?ds4"
        using e by (simp_all add: told_def)
      have s4: "pg_registers_sent ?ds4 = pre + (n + 1)" using s by simp
      show ?thesis
        using Cons.IH [OF e Cons.prems(3) s t, where g = 0 and lst = lst2]
          Cons.IH [OF e4 Cons.prems(3) s4 t, where g = "g + 1" and lst = lst2]
          drop_within [OF e4(1) Cons.prems(3) s4 t] False Inr a
        by (simp add: Let_def)
    qed
  qed
qed

lemma scan_pass_within:
  assumes "within k before (int (length regs) + rest) ke ds" "0 \<le> rest"
  shows "case scan_module_registers (counted_bus respond) base regs sub ke lst ds of (r, ke', lst', ds') \<Rightarrow>
    outcome k before rest r ke' ds' \<and> told ds'"
proof -
  let ?ds = "begin_pass (int (length regs)) ds"
  have w: "within k before (int (length regs) + rest) ke ?ds" "told ?ds"
    using assms by (auto simp: within_def begin_pass_def told_def Let_def)
  obtain r ke' lst' ds' where s: "scan_loop (counted_bus respond) (decoder_index ?ds) base sub (int (length regs)) (pg_registers_sent ?ds) regs 0 0 ke lst ?ds = (r, ke', lst', ds')"
    by (metis prod_cases4)
  have "outcome k before rest r ke' ds' \<and> told ds'"
    using scan_loop_within [OF w assms(2), of "pg_registers_sent ?ds" 0 "int (length regs)" respond "decoder_index ?ds" base sub 0 lst] by (simp add: s)
  then have "outcome k before rest r ke' (end_pass ds') \<and> told (end_pass ds')"
    unfolding outcome_end by (simp add: told_def end_pass_def)
  then show ?thesis unfolding scan_module_registers_def Let_def s by simp
qed

lemma run_passes_within:
  assumes "within k before (planned_registers passes + rest) ke ds" "0 \<le> rest"
  shows "case run_passes (counted_bus respond) base passes ke lst ds of (r, ke', lst', ds') \<Rightarrow>
    outcome k before rest r ke' ds' \<and> (passes \<noteq> [] \<or> told ds \<longrightarrow> told ds')"
  using assms
proof (induction passes arbitrary: ke lst ds)
  case Nil then show ?case by (simp add: planned_registers_def)
next
  case (Cons p passes)
  obtain sub regs where p: "p = (sub, regs)" by fastforce
  have pl: "planned_registers (p # passes) + rest = int (length regs) + (planned_registers passes + rest)"
    by (simp add: planned_registers_def p)
  have nn: "0 \<le> planned_registers passes + rest" using Cons.prems(2) by (simp add: planned_registers_def)
  obtain r ke1 lst1 ds1 where s: "scan_module_registers (counted_bus respond) base regs (wire_sub_byte sub) ke lst ds = (r, ke1, lst1, ds1)"
    by (metis prod_cases4)
  have w: "outcome k before (planned_registers passes + rest) r ke1 ds1" "told ds1"
    using scan_pass_within [OF Cons.prems(1) [unfolded pl] nn, of respond base "wire_sub_byte sub" lst] by (simp_all add: s)
  show ?case
  proof (cases r)
    case (Inl e)
    then show ?thesis using w by (simp add: p s outcome_def)
  next
    case (Inr x)
    then have "within k before (planned_registers passes + rest) ke1 ds1" using w(1) by simp
    from Cons.IH [OF this Cons.prems(2), of lst1] show ?thesis using w(2) Inr
      by (auto simp: p s split: prod.splits)
  qed
qed

lemma extension_within:
  assumes "within k before 0 ke ds" "told ds"
  shows "case run_extension_passes n (counted_bus respond) base ke lst ds of (r, ke', lst', ds') \<Rightarrow>
    outcome k before 0 r ke' ds' \<and> told ds'"
  using assms
proof (induction n arbitrary: ke lst ds)
  case 0 then show ?case by simp
next
  case (Suc n)
  show ?case
  proof (cases "decoder_index ds")
    case None then show ?thesis using Suc.prems by simp
  next
    case (Some i)
    obtain extra d where e: "decoder_extension (ds_decoders ds ! i) = (extra, d)" by fastforce
    let ?ds = "on_decoder i (\<lambda>_. d) ds"
    let ?ds' = "?ds\<lparr>pg_module_register_total := pg_module_register_total ?ds + planned_registers extra\<rparr>"
    have "within k before 0 ke ?ds \<longleftrightarrow> within k before 0 ke ds"
      by (rule within_cong) (simp_all add: on_decoder_def)
    then have w0: "within k before 0 ke ?ds" "told ?ds" using Suc.prems by (simp_all add: on_decoder_def told_def)
    obtain r ke1 lst1 ds1 where s: "run_passes (counted_bus respond) base extra ke lst ?ds' = (r, ke1, lst1, ds1)" by (metis prod_cases4)
    have "within k before (planned_registers extra + 0) ke ?ds'" using w0(1) by (simp only: within_more)
    then have w: "outcome k before 0 r ke1 ds1" "extra \<noteq> [] \<Longrightarrow> told ds1"
      using run_passes_within [of k before extra 0 ke ?ds' respond base lst] by (simp_all add: s)
    show ?thesis
    proof (cases "extra = []")
      case True
      then show ?thesis using w0 Some e by (simp add: Let_def)
    next
      case False
      then show ?thesis using w Some e s Suc.IH [of ke1 ds1 lst1]
        by (cases r) (simp_all add: Let_def outcome_def)
    qed
  qed
qed

lemma scan_module_within:
  "case scan_module (counted_bus respond) broad reported addr (k, env) lst ds of (r, ke, lst', ds') \<Rightarrow>
     if r = Inr NoPlan then fst ke = k \<and> pg_reports ds' = pg_reports ds
     else outcome k (pg_reports ds) 0 r ke ds' \<and> told ds'"
proof -
  let ?base = "base_command_of addr (ds_module_type ds)"
  let ?ds = "ds\<lparr>ds_expected_records := None, ds_decoded_records := 0\<rparr>"
  obtain counted_passes ds1 where c: "(if broad then ([], ?ds) else count_bounded_passes reported ?ds) = (counted_passes, ds1)" by fastforce
  have r1: "pg_reports ds1 = pg_reports ds"
    using c by (auto simp: count_bounded_passes_def Let_def split: if_splits option.splits)
  let ?ds1 = "ds1\<lparr>ds_missed_acks := 0\<rparr>"
  let ?passes = "if counted_passes = [] then scan_passes_for_module_type (ds_module_type ?ds1) broad else counted_passes"
  let ?ds2 = "?ds1\<lparr>pg_module_register_total := planned_registers ?passes, pg_registers_sent := 0\<rparr>"
  obtain r ke lst1 ds3 where s: "run_passes (counted_bus respond) ?base ?passes (k, env) lst ?ds2 = (r, ke, lst1, ds3)" by (metis prod_cases4)
  have "within k (pg_reports ds) (planned_registers ?passes + 0) (k, env) ?ds2" using r1 by (simp add: within_def)
  then have w: "outcome k (pg_reports ds) 0 r ke ds3" "?passes \<noteq> [] \<Longrightarrow> told ds3"
    using run_passes_within [of k "pg_reports ds" ?passes 0 "(k, env)" ?ds2 respond ?base lst] by (simp_all add: s)
  obtain r' ke' lst2 ds4 where x: "run_extension_passes EXTENSION_ROUNDS_LIMIT (counted_bus respond) ?base ke lst1 ds3 = (r', ke', lst2, ds4)" by (metis prod_cases4)
  show ?thesis
  proof (cases "?passes = []")
    case True
    then show ?thesis unfolding scan_module_def Let_def c prod.case using r1 by simp
  next
    case False
    have t: "told ds3" using w(2) False .
    show ?thesis
    proof (cases r)
      case (Inl e)
      then show ?thesis unfolding scan_module_def Let_def c prod.case if_not_P [OF False] s
        using w(1) t by (simp add: outcome_def)
    next
      case (Inr u)
      then have "outcome k (pg_reports ds) 0 r' ke' ds4 \<and> told ds4"
        using extension_within [of k "pg_reports ds" ke ds3 EXTENSION_ROUNDS_LIMIT respond ?base lst1] w(1) t by (simp add: x)
      then show ?thesis unfolding scan_module_def Let_def c prod.case if_not_P [OF False] s Inr sum.case x
        by (cases r') (simp_all add: outcome_def)
    qed
  qed
qed

text \<open>
  C29. Whatever the bus does, a scan of a module reports its progress once for each register it reads: the counts
  it reports are 1, 2, 3 and so on, and none is greater than the total reported with it, extensions and passes cut
  short included. In the end the count of reads is the number of reports; the total it would report is the
  module's own and is not below that count, and is equal to it when the scan was not ended by an error. It sends
  at most two commands for each register counted. Without a plan it sends and reports nothing.
\<close>

theorem scan_progress_bounded:
  "case scan_module (counted_bus respond) broad reported addr (0, env) lst ds of (r, (k, env'), lst', ds') \<Rightarrow>
     if r = Inr NoPlan then k = 0 \<and> pg_reports ds' = pg_reports ds
     else \<exists>new. pg_reports ds' = pg_reports ds @ new \<and> map reported_sent new = [1..pg_registers_sent ds'] \<and>
       list_all (\<lambda>p. reported_sent p \<le> reported_total p) new \<and>
       pg_register_total ds' = pg_module_register_total ds' \<and>
       (case r of Inl _ \<Rightarrow> pg_registers_sent ds' \<le> pg_register_total ds' | Inr _ \<Rightarrow> pg_registers_sent ds' = pg_register_total ds') \<and>
       int (length new) = pg_registers_sent ds' \<and> int k \<le> 2 * pg_registers_sent ds'"
proof -
  obtain r k env' lst' ds' where s: "scan_module (counted_bus respond) broad reported addr (0, env) lst ds = (r, (k, env'), lst', ds')"
    by (metis prod_cases4 prod.collapse)
  note fin = scan_module_within [where respond = respond and broad = broad and reported = reported and addr = addr
    and k = 0 and env = env and lst = lst and ds = ds, unfolded s prod.case]
  show ?thesis
  proof (cases "r = Inr NoPlan")
    case True
    then show ?thesis using fin by (simp add: s)
  next
    case False
    then have o: "outcome 0 (pg_reports ds) 0 r (k, env') ds'" "told ds'" using fin by simp_all
    then obtain rest where w: "within 0 (pg_reports ds) rest (k, env') ds'" "0 \<le> rest" "case r of Inl _ \<Rightarrow> True | Inr _ \<Rightarrow> rest = 0"
      by (cases r) (auto simp: outcome_def)
    then obtain new where new: "pg_reports ds' = pg_reports ds @ new" "map reported_sent new = [1..pg_registers_sent ds']"
      "list_all (\<lambda>p. reported_sent p \<le> reported_total p) new"
      by (auto simp: within_def)
    have "int (length new) = pg_registers_sent ds'"
      using arg_cong [OF new(2), of length] w(1) by (simp add: within_def)
    moreover have "case r of Inl _ \<Rightarrow> pg_registers_sent ds' \<le> pg_register_total ds' | Inr _ \<Rightarrow> pg_registers_sent ds' = pg_register_total ds'"
      using w o(2) by (cases r) (simp_all add: within_def told_def)
    moreover have "int k \<le> 2 * pg_registers_sent ds'" using w(1) by (simp add: within_def)
    ultimately show ?thesis using False new o(2) unfolding s prod.case if_not_P [OF False] told_def by blast
  qed
qed

end
