(* ===== verification/Scan_Answers.thy ===== *)
theory Scan_Answers
  imports Register_Scan
begin

section \<open>What the answers to a scan make of the discovery state\<close>

text \<open>
  Lemmas on the operations of \<open>Register_Scan\<close>: what one register answer of a module with six-byte link
  records does to the state, and that reading a register delivers the answer of a bus that acknowledges
  and answers, however the listener and the scan are scheduled.
\<close>


subsection \<open>The records of a module's registers\<close>

definition register_frame :: "nat \<Rightarrow> byte list \<Rightarrow> string" where
  \<comment> \<open>the answer to a register read\<close>
  "register_frame a bs = frame_text (of_nat a # of_nat (a div 256) # bs)"

lemma register_frame_parts:
  assumes "length bs = 16"
  shows "starts_with (register_frame a bs) ''$2E''" "register_frame a bs \<noteq> []"
    "take 4 (drop 3 (register_frame a bs)) = byte_hex (of_nat a) @ byte_hex (of_nat (a div 256))"
    "\<exists>crc. length crc = CRC_LEN \<and> upper crc = crc \<and> drop 4 (drop 3 (register_frame a bs)) = hex_of bs @ crc"
    "\<not> is_inventory_trailer (register_frame a bs)"
proof -
  let ?c = "hexw 4 (nat (crc1_bytes (of_nat a # of_nat (a div 256) # bs)))"
  have h: "register_frame a bs = ''$2E'' @ byte_hex (of_nat a) @ byte_hex (of_nat (a div 256)) @ hex_of bs @ ?c @
      hexw 2 (nat (calc_crc2 (''$2E'' @ hex_of (of_nat a # of_nat (a div 256) # bs) @ ?c)))"
    using assms by (simp add: register_frame_def frame_text_split eval_simps)
  show "starts_with (register_frame a bs) ''$2E''" "register_frame a bs \<noteq> []" unfolding h by simp_all
  show "take 4 (drop 3 (register_frame a bs)) = byte_hex (of_nat a) @ byte_hex (of_nat (a div 256))" unfolding h by simp
  show "\<exists>crc. length crc = CRC_LEN \<and> upper crc = crc \<and> drop 4 (drop 3 (register_frame a bs)) = hex_of bs @ crc"
    unfolding h by (intro exI [of _ "?c @ hexw 2 (nat (calc_crc2 (''$2E'' @ hex_of (of_nat a # of_nat (a div 256) # bs) @ ?c)))"])
      (simp add: CRC_LEN_def)
  show "\<not> is_inventory_trailer (register_frame a bs)"
    unfolding h by (simp add: is_inventory_trailer_def MODULE_SCAN_TRAILER_PREFIX_def)
qed

record scan_setting =
  st_type :: string
  st_coordinator :: coordinator
  st_address :: nat
  st_count :: int
  st_decoder :: nat
  st_table :: "(string \<times> int) list option"

definition st_addr :: "scan_setting \<Rightarrow> string" where "st_addr s = hexw 4 (st_address s)"

definition scan_ready :: "scan_setting \<Rightarrow> discovery \<Rightarrow> bool" where
  \<comment> \<open>a scan of the module is under way\<close>
  "scan_ready s ds \<longleftrightarrow> ds_coordinator ds = st_coordinator s \<and> ds_discovery_module ds \<and>
     ds_discovery_module_address ds = Some (st_addr s) \<and> ds_module_type ds = Some (st_type s) \<and>
     (if ds_has_store ds then ds_ir_table ds else Inr None) = Inr (st_table s) \<and>
     decoder_index ds = Some (st_decoder s)"

definition scan_decoder :: "scan_setting \<Rightarrow> bool \<Rightarrow> discovery \<Rightarrow> bool" where
  \<comment> \<open>its decoder is the family's, whose table was not found misaligned\<close>
  "scan_decoder s decided ds \<longleftrightarrow> (\<exists>c. ds_decoders ds ! st_decoder s = OutputDecoder c \<and> module_type c = st_type s \<and>
     chunk_coordinator c = Some (st_coordinator s) \<and> \<not> module_misaligned c \<and> stream_alignment_decided c = decided)"

definition module_known :: "scan_setting \<Rightarrow> bool" where
  "module_known s \<longleftrightarrow> st_address s < 65536 \<and> map_of CHUNK_LENGTHS (st_type s) = Some 12 \<and> map_of FF_TERMINATOR_TAIL_HEX (st_type s) = Some 12 \<and>
     get_module_channel_count (st_coordinator s) (st_addr s) = Inr (Some (st_count s)) \<and>
     py_any_in (st_addr s) (map snd (dict_module_data (st_coordinator s))) = Inr True"

lemma decoder_index_cong:
  "ds_module_type ds = ds_module_type ds' \<Longrightarrow> ds_decoders ds = ds_decoders ds' \<Longrightarrow> decoder_index ds = decoder_index ds'"
  by (simp add: decoder_index_def cong: option.case_cong)

lemma decoder_index_update [simp]:
  "decoder_index (ds\<lparr>ds_found_data := b\<rparr>) = decoder_index ds"
  "decoder_index (ds\<lparr>ds_consecutive_empties := n\<rparr>) = decoder_index ds"
  "decoder_index (ds\<lparr>ds_ff_streak := n\<rparr>) = decoder_index ds"
  "decoder_index (ds\<lparr>ds_trailer_seen := b\<rparr>) = decoder_index ds"
  "decoder_index (ds\<lparr>ds_payload_buffer := t\<rparr>) = decoder_index ds"
  "decoder_index (ds\<lparr>ds_module_address := v\<rparr>) = decoder_index ds"
  "decoder_index (ds\<lparr>ds_corrupt_link_tables := cs\<rparr>) = decoder_index ds"
  "decoder_index (ds\<lparr>ds_response_index := n\<rparr>) = decoder_index ds"
  "decoder_index (ds\<lparr>ds_commands := ms\<rparr>) = decoder_index ds"
  "decoder_index (ds\<lparr>ds_decoded_records := n\<rparr>) = decoder_index ds"
  "decoder_index (ds\<lparr>pg_decoded_records := n\<rparr>) = decoder_index ds"
  "decoder_index (ds\<lparr>ds_mapping := mp\<rparr>) = decoder_index ds"
  "decoder_index (ds\<lparr>ds_scan_event := b\<rparr>) = decoder_index ds"
  "decoder_index (ds\<lparr>ds_module_channels := w\<rparr>) = decoder_index ds"
  "decoder_index (ds\<lparr>ds_timer := b\<rparr>) = decoder_index ds"
  "decoder_index (ds\<lparr>ds_scan_active := b\<rparr>) = decoder_index ds"
  "decoder_index (ds\<lparr>ds_missed_acks := n\<rparr>) = decoder_index ds"
  "decoder_index (ds\<lparr>ds_expected_records := w\<rparr>) = decoder_index ds"
  "decoder_index (ds\<lparr>pg_register_total := z\<rparr>) = decoder_index ds"
  "decoder_index (ds\<lparr>pg_registers_sent := z\<rparr>) = decoder_index ds"
  "decoder_index (ds\<lparr>pg_reports := u\<rparr>) = decoder_index ds"
  "decoder_index (ds\<lparr>pg_module_register_total := z\<rparr>) = decoder_index ds"
  by (intro decoder_index_cong; simp)+

lemma scan_ready_update [simp]:
  "scan_ready s (ds\<lparr>ds_found_data := b\<rparr>) = scan_ready s ds"
  "scan_ready s (ds\<lparr>ds_consecutive_empties := n\<rparr>) = scan_ready s ds"
  "scan_ready s (ds\<lparr>ds_ff_streak := n\<rparr>) = scan_ready s ds"
  "scan_ready s (ds\<lparr>ds_trailer_seen := b\<rparr>) = scan_ready s ds"
  "scan_ready s (ds\<lparr>ds_payload_buffer := t\<rparr>) = scan_ready s ds"
  "scan_ready s (ds\<lparr>ds_module_address := v\<rparr>) = scan_ready s ds"
  "scan_ready s (ds\<lparr>ds_corrupt_link_tables := cs\<rparr>) = scan_ready s ds"
  "scan_ready s (ds\<lparr>ds_response_index := n\<rparr>) = scan_ready s ds"
  "scan_ready s (ds\<lparr>ds_commands := ms\<rparr>) = scan_ready s ds"
  "scan_ready s (ds\<lparr>ds_decoded_records := n\<rparr>) = scan_ready s ds"
  "scan_ready s (ds\<lparr>pg_decoded_records := n\<rparr>) = scan_ready s ds"
  "scan_ready s (ds\<lparr>ds_mapping := mp\<rparr>) = scan_ready s ds"
  "scan_ready s (ds\<lparr>ds_scan_event := b\<rparr>) = scan_ready s ds"
  "scan_ready s (ds\<lparr>ds_module_channels := w\<rparr>) = scan_ready s ds"
  "scan_ready s (ds\<lparr>ds_timer := b\<rparr>) = scan_ready s ds"
  "scan_ready s (ds\<lparr>ds_scan_active := b\<rparr>) = scan_ready s ds"
  "scan_ready s (ds\<lparr>ds_missed_acks := n\<rparr>) = scan_ready s ds"
  "scan_ready s (ds\<lparr>ds_expected_records := w\<rparr>) = scan_ready s ds"
  "scan_ready s (ds\<lparr>pg_register_total := z\<rparr>) = scan_ready s ds"
  "scan_ready s (ds\<lparr>pg_registers_sent := z\<rparr>) = scan_ready s ds"
  "scan_ready s (ds\<lparr>pg_reports := u\<rparr>) = scan_ready s ds"
  "scan_ready s (ds\<lparr>pg_module_register_total := z\<rparr>) = scan_ready s ds"
  by (simp_all add: scan_ready_def cong: if_cong)

lemma scan_decoder_update [simp]:
  "scan_decoder s d (ds\<lparr>ds_found_data := b\<rparr>) = scan_decoder s d ds"
  "scan_decoder s d (ds\<lparr>ds_consecutive_empties := n\<rparr>) = scan_decoder s d ds"
  "scan_decoder s d (ds\<lparr>ds_ff_streak := n\<rparr>) = scan_decoder s d ds"
  "scan_decoder s d (ds\<lparr>ds_trailer_seen := b\<rparr>) = scan_decoder s d ds"
  "scan_decoder s d (ds\<lparr>ds_payload_buffer := t\<rparr>) = scan_decoder s d ds"
  "scan_decoder s d (ds\<lparr>ds_module_address := v\<rparr>) = scan_decoder s d ds"
  "scan_decoder s d (ds\<lparr>ds_corrupt_link_tables := cs\<rparr>) = scan_decoder s d ds"
  "scan_decoder s d (ds\<lparr>ds_response_index := n\<rparr>) = scan_decoder s d ds"
  "scan_decoder s d (ds\<lparr>ds_commands := ms\<rparr>) = scan_decoder s d ds"
  "scan_decoder s d (ds\<lparr>ds_decoded_records := n\<rparr>) = scan_decoder s d ds"
  "scan_decoder s d (ds\<lparr>pg_decoded_records := n\<rparr>) = scan_decoder s d ds"
  "scan_decoder s d (ds\<lparr>ds_mapping := mp\<rparr>) = scan_decoder s d ds"
  "scan_decoder s d (ds\<lparr>ds_scan_event := b\<rparr>) = scan_decoder s d ds"
  "scan_decoder s d (ds\<lparr>ds_module_channels := w\<rparr>) = scan_decoder s d ds"
  "scan_decoder s d (ds\<lparr>ds_timer := b\<rparr>) = scan_decoder s d ds"
  "scan_decoder s d (ds\<lparr>ds_scan_active := b\<rparr>) = scan_decoder s d ds"
  "scan_decoder s d (ds\<lparr>ds_missed_acks := n\<rparr>) = scan_decoder s d ds"
  "scan_decoder s d (ds\<lparr>ds_expected_records := w\<rparr>) = scan_decoder s d ds"
  "scan_decoder s d (ds\<lparr>pg_register_total := z\<rparr>) = scan_decoder s d ds"
  "scan_decoder s d (ds\<lparr>pg_registers_sent := z\<rparr>) = scan_decoder s d ds"
  "scan_decoder s d (ds\<lparr>pg_reports := u\<rparr>) = scan_decoder s d ds"
  "scan_decoder s d (ds\<lparr>pg_module_register_total := z\<rparr>) = scan_decoder s d ds"
  by (simp_all add: scan_decoder_def)

lemma decoder_index_less:
  assumes "decoder_index ds = Some i" shows "i < length (ds_decoders ds)"
proof -
  obtain ty where "ds_module_type ds = Some ty" using assms by (auto simp: decoder_index_def split: option.splits)
  then obtain r where "filter (\<lambda>i. can_handle ty (decoder_base (ds_decoders ds ! i))) [0..<length (ds_decoders ds)] = i # r"
    using assms by (auto simp: decoder_index_def split: list.splits)
  then have "i \<in> set (filter (\<lambda>i. can_handle ty (decoder_base (ds_decoders ds ! i))) [0..<length (ds_decoders ds)])" by simp
  then show ?thesis by simp
qed

lemma decoder_index_on:
  assumes "module_type (decoder_base (f (ds_decoders ds ! i))) = module_type (decoder_base (ds_decoders ds ! i))"
  shows "decoder_index (on_decoder i f ds) = decoder_index ds"
proof -
  have "module_type (decoder_base ((ds_decoders ds)[i := f (ds_decoders ds ! i)] ! j)) = module_type (decoder_base (ds_decoders ds ! j))"
    if "j < length (ds_decoders ds)" for j
    using assms that by (cases "i = j") simp_all
  then have "filter (\<lambda>j. can_handle ty (decoder_base ((ds_decoders ds)[i := f (ds_decoders ds ! i)] ! j))) [0..<length (ds_decoders ds)] =
      filter (\<lambda>j. can_handle ty (decoder_base (ds_decoders ds ! j))) [0..<length (ds_decoders ds)]" for ty
    by (intro filter_cong) (simp_all add: can_handle_def)
  then show ?thesis by (simp add: decoder_index_def on_decoder_def cong: option.case_cong)
qed

lemma hex_chunk_same: "list_all is_hex s \<Longrightarrow> upper s = s \<Longrightarrow> upper (py_strip s) = s"
  by (simp add: py_strip_hex)

definition chunk_commands :: "scan_setting \<Rightarrow> string \<Rightarrow> decoded list" where
  \<comment> \<open>what a record of the table decodes to\<close>
  "chunk_commands s chunk =
     (if list_all (\<lambda>x. x = CHR ''F'') chunk then []
      else (case decode_command_payload chunk (st_type s) (Some (st_coordinator s)) (Some (st_addr s)) True (Some (st_count s)) of
          Inr (Some d) \<Rightarrow> [d] | _ \<Rightarrow> []))"

definition chunk_ok :: "scan_setting \<Rightarrow> string \<Rightarrow> bool" where
  "chunk_ok s chunk \<longleftrightarrow> list_all is_hex chunk \<and> upper chunk = chunk \<and> chunk \<noteq> [] \<and>
     (\<not> list_all (\<lambda>x. x = CHR ''F'') chunk \<longrightarrow>
        (\<exists>d. decode_command_payload chunk (st_type s) (Some (st_coordinator s)) (Some (st_addr s)) True (Some (st_count s)) = Inr (Some d) \<and>
           button_address d \<noteq> None))"

lemma st_addr_cons: "\<exists>x xs. st_addr s = x # xs"
  unfolding st_addr_def by (metis length_hexw list.exhaust list.size(3) numeral_eq_one_iff semiring_norm(85) zero_neq_numeral)

lemma decode_chunks_output:
  assumes "\<forall>c \<in> set cs. chunk_ok s c" "module_type ch = st_type s" "chunk_coordinator ch = Some (st_coordinator s)"
    "chunk_channel_count ch = Some (st_count s)"
  shows "decode_chunks cs (st_addr s) (OutputDecoder ch) =
    (Inr (map (metadata_of (st_type s)) (concat (map (chunk_commands s) cs))), OutputDecoder ch)"
  using assms(1)
proof (induction cs)
  case Nil then show ?case by simp
next
  case (Cons c cs)
  obtain x xs where a: "st_addr s = x # xs" using st_addr_cons by blast
  have ok: "chunk_ok s c" using Cons.prems by simp
  then have u: "upper (py_strip c) = c" "c \<noteq> []" by (simp_all add: chunk_ok_def hex_chunk_same)
  show ?case
  proof (cases "list_all (\<lambda>x. x = CHR ''F'') c")
    case True
    then show ?thesis using Cons by (simp add: u chunk_commands_def)
  next
    case False
    then obtain d where d: "decode_command_payload c (st_type s) (Some (st_coordinator s)) (Some (st_addr s)) True (Some (st_count s)) = Inr (Some d)"
      using ok by (auto simp: chunk_ok_def)
    have "chunker_decode c (Some (st_addr s)) ch = Inr [d]"
      using d a assms(2-4) by (simp add: chunker_decode_def u decode_chunk_def)
    then show ?thesis using Cons False d by (simp add: u chunk_commands_def assms(2))
  qed
qed

definition link_commands :: "scan_setting \<Rightarrow> string list \<Rightarrow> decoded list" where
  "link_commands s cs = concat (map (chunk_commands s) cs)"

lemma with_push_usable: "button_address d \<noteq> None \<Longrightarrow> dict_get (with_push_address (metadata_of ty d)) ''push_button_address'' \<noteq> PNone"
  by (auto simp: with_push_address_def metadata_of_def dict_get_def dict_set_def opt_str_def split: option.splits)

lemma handle_links:
  assumes "scan_ready s ds" "\<forall>d \<in> set cmds. button_address d \<noteq> None"
  shows "\<exists>m p. handle_decoded_commands (st_addr s) (map (metadata_of (st_type s)) cmds) ds = (Inr (),
    ds\<lparr>pg_decoded_records := p, ds_decoded_records := ds_decoded_records ds + length cmds,
       ds_commands := ds_commands ds @ map (with_push_address \<circ> metadata_of (st_type s)) cmds, ds_mapping := m\<rparr>)"
proof -
  obtain x xs where a: "st_addr s = x # xs" using st_addr_cons by blast
  have f: "filter (\<lambda>m. dict_get m ''push_button_address'' \<noteq> PNone) (map with_push_address (map (metadata_of (st_type s)) cmds)) =
      map (with_push_address \<circ> metadata_of (st_type s)) cmds"
    using assms(2) with_push_usable by (induction cmds) simp_all
  have t: "(if ds_has_store ds then ds_ir_table ds else Inr None) = Inr (st_table s)" "ds_discovery_module_address ds = Some (x # xs)"
    using assms(1) by (simp_all add: scan_ready_def a)
  let ?ds = "ds\<lparr>pg_decoded_records := pg_decoded_records ds + length cmds\<rparr>"
  show ?thesis
  proof (cases "ds_has_store ds")
    case True
    then show ?thesis unfolding handle_decoded_commands_def f using t
      by (simp add: a opt_or_def Let_def) (intro exI, rule refl)
  next
    case False
    then show ?thesis unfolding handle_decoded_commands_def f using t
      by (simp add: a opt_or_def Let_def) (intro exI [of _ "ds_mapping ds"] exI, simp)
  qed
qed

definition step_result :: "scan_setting \<Rightarrow> string \<Rightarrow> decoded list \<Rightarrow> discovery \<Rightarrow> discovery \<Rightarrow> bool" where
  "step_result s buf cmds ds ds' \<longleftrightarrow> scan_ready s ds' \<and> scan_decoder s True ds' \<and> ds_scan_active ds' \<and>
     ds_scan_event ds' = ds_scan_event ds \<and> ds_payload_buffer ds' = buf \<and>
     ds_commands ds' = ds_commands ds @ map (with_push_address \<circ> metadata_of (st_type s)) cmds \<and>
     ds_decoded_records ds' = ds_decoded_records ds + length cmds \<and> ds_corrupt_link_tables ds' = ds_corrupt_link_tables ds \<and>
     ds_expected_records ds' = ds_expected_records ds \<and> progress_of ds' = progress_of ds \<and>
     (if cmds = [] then ds_ff_streak ds' \<le> ds_ff_streak ds + 1 else ds_ff_streak ds' = 0) \<and>
     (ds_trailer_seen ds' \<longrightarrow> ds_trailer_seen ds \<or> cmds = [] \<and> 2 \<le> ds_ff_streak ds)"

lemma step_result_address [simp]: "step_result s buf cmds (ds\<lparr>ds_module_address := v\<rparr>) ds' = step_result s buf cmds ds ds'"
  by (simp add: step_result_def)

lemma finish_step:
  assumes "scan_ready s ds" "scan_decoder s True ds" "ds_scan_active ds" "map_of FF_TERMINATOR_TAIL_HEX (st_type s) = Some 12"
  shows "step_result s (ds_payload_buffer ds) [] ds (finish_answer region False ds)"
    "ds_ff_streak (finish_answer region True ds) = 0 \<and> ds_trailer_seen (finish_answer region True ds) = ds_trailer_seen ds \<and>
     step_result s (ds_payload_buffer ds) [] ds (finish_answer region True ds)"
proof -
  have d: "ds_module_type ds = Some (st_type s)" "ds_discovery_module ds" using assms(1) by (simp_all add: scan_ready_def)
  show "step_result s (ds_payload_buffer ds) [] ds (finish_answer region False ds)"
    using assms d by (auto simp: step_result_def finish_answer_def count_empty_register_def
      check_early_termination_def Let_def MODULE_SCAN_FF_TERMINATOR_STREAK_LIMIT_def progress_of_def)
  show "ds_ff_streak (finish_answer region True ds) = 0 \<and> ds_trailer_seen (finish_answer region True ds) = ds_trailer_seen ds \<and>
     step_result s (ds_payload_buffer ds) [] ds (finish_answer region True ds)"
    using assms d by (auto simp: step_result_def finish_answer_def count_empty_register_def
      check_early_termination_def Let_def progress_of_def)
qed

lemma commands_step:
  assumes "scan_ready s ds" "scan_decoder s True ds" "ds_scan_active ds" "map_of FF_TERMINATOR_TAIL_HEX (st_type s) = Some 12"
    and "\<forall>d \<in> set cmds. button_address d \<noteq> None"
  shows "step_result s (ds_payload_buffer ds) cmds ds (handle_commands (st_addr s) a (map (metadata_of (st_type s)) cmds) ds)"
proof (cases "cmds = []")
  case True
  then show ?thesis using finish_step(1) [OF assms(1-4)] by (simp add: handle_commands_def)
next
  case False
  obtain m p where h: "handle_decoded_commands (st_addr s) (map (metadata_of (st_type s)) cmds) ds = (Inr (),
    ds\<lparr>pg_decoded_records := p, ds_decoded_records := ds_decoded_records ds + length cmds,
       ds_commands := ds_commands ds @ map (with_push_address \<circ> metadata_of (st_type s)) cmds, ds_mapping := m\<rparr>)"
    (is "_ = (_, ?ds)")
    using handle_links [OF assms(1,5)] by blast
  have d: "scan_ready s ?ds" "scan_decoder s True ?ds" "ds_scan_active ?ds" using assms(1-3) by simp_all
  have p: "progress_of ?ds = progress_of ds" by (simp add: progress_of_def)
  show ?thesis using finish_step(2) [OF d assms(4), of "payload_region a"] False p
    by (simp add: handle_commands_def h step_result_def)
qed

lemma on_decoder_ready:
  assumes "scan_ready s ds" "module_type (decoder_base (f (ds_decoders ds ! st_decoder s))) = module_type (decoder_base (ds_decoders ds ! st_decoder s))"
  shows "scan_ready s (on_decoder (st_decoder s) f ds)"
    "ds_decoders (on_decoder (st_decoder s) f ds) ! st_decoder s = f (ds_decoders ds ! st_decoder s)"
proof -
  have i: "decoder_index ds = Some (st_decoder s)" using assms(1) by (simp add: scan_ready_def)
  then show "scan_ready s (on_decoder (st_decoder s) f ds)"
    using assms(1) decoder_index_on [of f ds "st_decoder s", OF assms(2)] by (simp add: scan_ready_def on_decoder_def cong: if_cong)
  show "ds_decoders (on_decoder (st_decoder s) f ds) ! st_decoder s = f (ds_decoders ds ! st_decoder s)"
    using decoder_index_less [OF i] by (simp add: on_decoder_def)
qed

lemma looks_misaligned_cong:
  "module_type c = module_type c' \<Longrightarrow> chunk_coordinator c = chunk_coordinator c' \<Longrightarrow> looks_misaligned c x = looks_misaligned c' x"
  by (simp add: looks_misaligned_def cong: option.case_cong)

lemma analyze_step:
  assumes "module_type c = ty" "map_of CHUNK_LENGTHS ty = Some 12" "\<not> module_misaligned c" "length crc = CRC_LEN" "upper crc = crc" "upper block = block"
    and "upper buf = buf" "stream_alignment_decided c \<or> buf = [] \<and> looks_misaligned c block = Inr False"
  shows "\<exists>a. analyze_frame_payload buf (block @ crc) c = (Inr (Some a), c\<lparr>stream_alignment_decided := True\<rparr>) \<and>
    chunks a = fst (cut_chunks 12 (buf @ block)) \<and> remainder a = snd (cut_chunks 12 (buf @ block)) \<and> \<not> misaligned a"
proof -
  have u: "upper (block @ crc) = block @ crc" "upper (buf @ block) = buf @ block" using assms(5-7) by (simp_all add: upper_def)
  have m: "looks_misaligned (c\<lparr>stream_alignment_decided := True\<rparr>) block = looks_misaligned c block"
    by (rule looks_misaligned_cong) simp_all
  have "decide_alignment buf (buf @ block) c = (Inr (), c\<lparr>stream_alignment_decided := True\<rparr>)"
    using assms(8) m by (auto simp: decide_alignment_def Let_def)
  moreover have "take (length (block @ crc) - CRC_LEN) (block @ crc) = block" "\<not> length (block @ crc) < CRC_LEN"
    using assms(4) by simp_all
  ultimately show ?thesis unfolding analyze_frame_payload_def Let_def u
    using assms(1-3) by (simp only: u prod.case sum.case if_False) (simp add: split_def)
qed

lemma answer_step:
  assumes "scan_ready s ds" "scan_decoder s decided ds" "ds_scan_active ds" "module_known s"
    and "length crc = CRC_LEN" "upper crc = crc" "upper block = block" "upper (ds_payload_buffer ds) = ds_payload_buffer ds"
    and "decided \<or> ds_payload_buffer ds = [] \<and> looks_misaligned (new_chunker (Some (st_coordinator s)) (st_type s)) block = Inr False"
    and "\<forall>c \<in> set (fst (cut_chunks 12 (ds_payload_buffer ds @ block))). chunk_ok s c"
  shows "step_result s (snd (cut_chunks 12 (ds_payload_buffer ds @ block)))
    (link_commands s (fst (cut_chunks 12 (ds_payload_buffer ds @ block)))) ds
    (analyze_answer (st_addr s) (block @ crc) (Some (st_count s)) ds)"
proof -
  let ?i = "st_decoder s" and ?cs = "fst (cut_chunks 12 (ds_payload_buffer ds @ block))" and ?r = "snd (cut_chunks 12 (ds_payload_buffer ds @ block))"
  let ?cmds = "link_commands s ?cs" and ?ty = "st_type s"
  obtain c where c: "ds_decoders ds ! ?i = OutputDecoder c" "module_type c = ?ty" "chunk_coordinator c = Some (st_coordinator s)"
    "\<not> module_misaligned c" "stream_alignment_decided c = decided" using assms(2) by (auto simp: scan_decoder_def)
  let ?ds1 = "ds\<lparr>ds_module_channels := Some (st_count s)\<rparr>"
  let ?f = "map_base (set_module_channel_count (Some (st_count s)) \<circ> set_module_address (Some (st_addr s)))"
  let ?c = "set_module_channel_count (Some (st_count s)) (set_module_address (Some (st_addr s)) c)"
  let ?ds2 = "on_decoder ?i ?f ?ds1"
  have c': "module_type ?c = ?ty" "chunk_coordinator ?c = Some (st_coordinator s)" "\<not> module_misaligned ?c" "stream_alignment_decided ?c = decided"
    "chunk_channel_count ?c = Some (st_count s)"
    using c by (simp_all add: set_module_channel_count_def set_module_address_def)
  have k: "map_of CHUNK_LENGTHS ?ty = Some 12" "map_of FF_TERMINATOR_TAIL_HEX ?ty = Some 12" using assms(4) by (simp_all add: module_known_def)
  have r1: "scan_ready s ?ds1" using assms(1) by simp
  have r2: "scan_ready s ?ds2" "ds_decoders ?ds2 ! ?i = OutputDecoder ?c"
    using on_decoder_ready [OF r1, of ?f] c c' by simp_all
  have b2: "ds_payload_buffer ?ds2 = ds_payload_buffer ds" by (simp add: on_decoder_def)
  have "looks_misaligned ?c block = looks_misaligned (new_chunker (Some (st_coordinator s)) ?ty) block"
    using c' by (intro looks_misaligned_cong) (simp_all add: new_chunker_def)
  then obtain a where a: "analyze_frame_payload (ds_payload_buffer ds) (block @ crc) ?c = (Inr (Some a), ?c\<lparr>stream_alignment_decided := True\<rparr>)"
    "chunks a = ?cs" "remainder a = ?r" "\<not> misaligned a"
    using analyze_step [OF c'(1) k(1) c'(3) assms(5-8)] assms(9) c'(4) by auto
  let ?d = "OutputDecoder (?c\<lparr>stream_alignment_decided := True\<rparr>)"
  let ?ds3 = "on_decoder ?i (\<lambda>_. ?d) ?ds2"
  have r3: "scan_ready s ?ds3" "ds_decoders ?ds3 ! ?i = ?d"
    using on_decoder_ready [OF r2(1), of "\<lambda>_. ?d"] r2(2) by simp_all
  let ?ds4 = "take_analysis (st_addr s) a ?ds3"
  have r4: "scan_ready s ?ds4" "ds_decoders ?ds4 ! ?i = ?d" using r3 by (simp_all add: take_analysis_def)
  have dc: "decode_chunks ?cs (st_addr s) ?d = (Inr (map (metadata_of ?ty) ?cmds), ?d)"
    using decode_chunks_output [OF assms(10), of "?c\<lparr>stream_alignment_decided := True\<rparr>"] c' by (simp add: link_commands_def)
  let ?ds5 = "on_decoder ?i (\<lambda>_. ?d) ?ds4"
  have r5: "scan_ready s ?ds5" "ds_decoders ?ds5 ! ?i = ?d"
    using on_decoder_ready [OF r4(1), of "\<lambda>_. ?d"] r4(2) by simp_all
  then have d5: "scan_decoder s True ?ds5" using c' by (simp add: scan_decoder_def)
  have a5: "ds_scan_active ?ds5" "ds_payload_buffer ?ds5 = ?r" "ds_commands ?ds5 = ds_commands ds" "ds_decoded_records ?ds5 = ds_decoded_records ds"
    "ds_corrupt_link_tables ?ds5 = ds_corrupt_link_tables ds" "ds_expected_records ?ds5 = ds_expected_records ds" "progress_of ?ds5 = progress_of ds"
    "ds_ff_streak ?ds5 = ds_ff_streak ds" "ds_trailer_seen ?ds5 = ds_trailer_seen ds" "ds_scan_event ?ds5 = ds_scan_event ds"
    using assms(3) a by (simp_all add: on_decoder_def take_analysis_def progress_of_def)
  have u: "\<forall>d \<in> set ?cmds. button_address d \<noteq> None"
    using assms(10) by (auto simp: link_commands_def chunk_commands_def chunk_ok_def split: sum.splits option.splits)
  have "analyze_answer (st_addr s) (block @ crc) (Some (st_count s)) ds = handle_commands (st_addr s) a (map (metadata_of ?ty) ?cmds) ?ds5"
    using r1 r2(2) a b2 dc r4(2) by (simp add: analyze_answer_def after_analysis_def scan_ready_def)
  moreover have "step_result s ?r ?cmds ds (handle_commands (st_addr s) a (map (metadata_of ?ty) ?cmds) ?ds5)"
    using commands_step [OF r5(1) d5 a5(1) k(2) u, of a] unfolding step_result_def a5 .
  ultimately show ?thesis by simp
qed

lemma register_step:
  assumes "scan_ready s ds" "scan_decoder s decided ds" "ds_scan_active ds" "module_known s" "length bs = 16"
    and "upper (ds_payload_buffer ds) = ds_payload_buffer ds"
    and "decided \<or> ds_payload_buffer ds = [] \<and> looks_misaligned (new_chunker (Some (st_coordinator s)) (st_type s)) (hex_of bs) = Inr False"
    and "\<forall>c \<in> set (fst (cut_chunks 12 (ds_payload_buffer ds @ hex_of bs))). chunk_ok s c"
  shows "step_result s (snd (cut_chunks 12 (ds_payload_buffer ds @ hex_of bs)))
    (link_commands s (fst (cut_chunks 12 (ds_payload_buffer ds @ hex_of bs)))) (ds\<lparr>ds_scan_event := True\<rparr>)
    (parse_module_inventory_response (register_frame (st_address s) bs) ds)"
proof -
  note f = register_frame_parts [OF assms(5), of "st_address s"]
  obtain crc where crc: "length crc = CRC_LEN" "upper crc = crc" "drop 4 (drop 3 (register_frame (st_address s) bs)) = hex_of bs @ crc"
    using f(4) by blast
  have n: "notify_scan_frame (register_frame (st_address s) bs) ds = ds\<lparr>ds_scan_event := True\<rparr>"
    using assms(3) f(5) by (simp add: notify_scan_frame_def)
  have l: "\<not> length (drop 3 (register_frame (st_address s) bs)) < 4" using assms(5) by (simp add: register_frame_def)
  have "upper (take 4 (drop 3 (register_frame (st_address s) bs))) = hex_of [of_nat (st_address s), of_nat (st_address s div 256)]"
  proof -
    have "byte_hex x @ byte_hex y = hex_of [x, y]" for x y by simp
    then show ?thesis unfolding f(3) by (simp only: upper_hex_of)
  qed
  moreover have "reverse_hex (hex_of [of_nat (st_address s), of_nat (st_address s div 256)]) = Inr (st_addr s)"
    by (simp only: reverse_hex_def bytes_fromhex_hex_of) (simp add: st_addr_def byte_hex_append)
  ultimately have r: "reverse_hex (upper (take 4 (drop 3 (register_frame (st_address s) bs)))) = Inr (st_addr s)" by simp
  let ?ds = "ds\<lparr>ds_scan_event := True, ds_module_address := Some (st_addr s)\<rparr>"
  have i: "identify_module (st_addr s) (ds\<lparr>ds_scan_event := True\<rparr>) = ?ds"
    using assms(1) by (simp add: identify_module_def scan_ready_def)
  have "upper (st_addr s) = st_addr s" by (simp add: st_addr_def)
  then have m: "module_channels (st_addr s) ?ds = Inr (Some (st_count s))"
    using assms(1,4) by (simp add: module_channels_def is_known_module_address_def module_known_def scan_ready_def)
  have "list_ex (starts_with (register_frame (st_address s) bs)) DEVICE_INVENTORY_ANSWER"
    using f(1) by (simp add: DEVICE_INVENTORY_ANSWER_def)
  then have "parse_module_inventory_response (register_frame (st_address s) bs) ds = analyze_answer (st_addr s) (hex_of bs @ crc) (Some (st_count s)) ?ds"
    using n l r i m crc(3) by (simp add: parse_module_inventory_response_def Let_def)
  moreover have "step_result s (snd (cut_chunks 12 (ds_payload_buffer ?ds @ hex_of bs)))
    (link_commands s (fst (cut_chunks 12 (ds_payload_buffer ?ds @ hex_of bs)))) ?ds (analyze_answer (st_addr s) (hex_of bs @ crc) (Some (st_count s)) ?ds)"
    using assms by (intro answer_step [where decided = decided]) (simp_all add: crc)
  ultimately show ?thesis by simp
qed



subsection \<open>Reading one register\<close>

lemma frames_in_wakes [simp]: "frames_in (replicate k Wake) = []"
  by (induction k) auto

lemma deliver_register_ack:
  assumes "awaiting_response lst" "length (response_queue lst) < QUEUE_SIZE"
  shows "\<exists>lst'. deliver_frame ''$0510'' lst ds = (lst', ds) \<and> response_queue lst' = response_queue lst @ [''$0510''] \<and> awaiting_response lst'"
  using assms by (auto simp: deliver_frame_def dispatch_message_def mark_device_answered_def route_def on_other_response_def
    enqueue_response_def Let_def)

lemma register_frame_valid: "length bs = 16 \<Longrightarrow> validate_crc (register_frame a bs)"
  by (simp add: register_frame_def validate_crc_accepts_length)

lemma deliver_register:
  assumes "length bs = 16" "awaiting_response lst" "length (response_queue lst) < QUEUE_SIZE"
  shows "\<exists>lst'. deliver_frame (register_frame a bs) lst ds = (lst', parse_module_inventory_response (register_frame a bs) ds) \<and>
    response_queue lst' = response_queue lst @ [register_frame a bs] \<and> awaiting_response lst'"
proof -
  define m where "m = register_frame a bs"
  have m: "m \<noteq> []" "starts_with m ''$2E''" "validate_crc m"
    using register_frame_parts(1,2) [OF assms(1), of a] register_frame_valid [OF assms(1), of a] by (simp_all add: m_def)
  obtain r where r: "m = ''$2E'' @ r" using m(2) starts_with_iff by blast
  have "route m l = on_discovery_frame m l" for l by (simp add: route_def r)
  then show ?thesis using m assms(2,3) unfolding m_def [symmetric]
    by (auto simp: deliver_frame_def dispatch_message_def mark_device_answered_def on_discovery_frame_def enqueue_response_def Let_def)
qed

definition answered :: "nat \<Rightarrow> byte list \<Rightarrow> happening list \<Rightarrow> bool" where
  \<comment> \<open>the acknowledgement, then the register, however the listener and the scan are scheduled meanwhile\<close>
  "answered a bs hs \<longleftrightarrow> (\<exists>i j k. hs = replicate i Wake @ Frame ''$0510'' # replicate j Wake @ Frame (register_frame a bs) # replicate (Suc k) Wake)"

lemma await_ack_wakes [simp]:
  "response_queue lst = [] \<Longrightarrow> await_matching_ack ack (replicate i Wake @ hs) lst ds = await_matching_ack ack hs lst ds"
  by (induction i) simp_all

lemma await_event_wakes [simp]:
  "\<not> ds_scan_event ds \<Longrightarrow> await_scan_event (replicate i Wake @ hs) lst ds = await_scan_event hs lst ds"
  by (induction i) simp_all

lemma read_attempt_answered:
  assumes "respond c env = (Some hs, env')" "answered a bs hs" "slice 3 5 c = ''10''" "length bs = 16"
    and "ds_scan_event (parse_module_inventory_response (register_frame a bs) (ds\<lparr>ds_scan_event := False\<rparr>))"
  shows "\<exists>lst'. read_attempt respond c env lst ds =
    (True, env', lst', parse_module_inventory_response (register_frame a bs) (ds\<lparr>ds_scan_event := False\<rparr>))"
proof -
  let ?ack = "''$0510''" and ?m = "register_frame a bs" and ?ds = "ds\<lparr>ds_scan_event := False\<rparr>"
  let ?ds' = "parse_module_inventory_response ?m ?ds"
  let ?l = "lst\<lparr>response_queue := [], awaiting_response := True\<rparr>"
  obtain i j k where hs: "hs = replicate i Wake @ Frame ?ack # replicate j Wake @ Frame ?m # replicate (Suc k) Wake"
    using assms(2) by (auto simp: answered_def)
  obtain l1 where l1: "deliver_frame ?ack ?l ?ds = (l1, ?ds)" "response_queue l1 = [?ack]" "awaiting_response l1"
    using deliver_register_ack [of ?l ?ds] by (auto simp: QUEUE_SIZE_def)
  have d: "\<exists>l'. deliver_frame ?m l ?ds = (l', ?ds') \<and> response_queue l' = response_queue l @ [?m] \<and> awaiting_response l'"
    if "awaiting_response l" "length (response_queue l) \<le> 1" for l
    using that by (intro deliver_register [OF assms(4)]) (simp_all add: QUEUE_SIZE_def)
  obtain l2 where a: "\<exists>n. (case await_matching_ack ?ack hs ?l ?ds of (ok, hs, l, dx) \<Rightarrow>
      if ok \<and> \<not> ds_scan_event dx then (case await_scan_event hs l dx of (hs, l, dx) \<Rightarrow> (ok, hs, l, dx)) else (ok, hs, l, dx)) = (True, replicate n Wake, l2, ?ds')"
  proof (cases j)
    case 0
    obtain l where l: "deliver_frame ?m l1 ?ds = (l, ?ds')" "response_queue l = [?ack, ?m]" using d [OF l1(3)] l1(2) by auto
    show ?thesis using assms(5) by (intro that [of "l\<lparr>response_queue := [?m]\<rparr>"] exI [of _ k]) (simp add: hs 0 l1 l)
  next
    case (Suc j')
    let ?l1 = "l1\<lparr>response_queue := []\<rparr>"
    obtain l where l: "deliver_frame ?m ?l1 ?ds = (l, ?ds')" using d [of ?l1] l1(3) by auto
    show ?thesis using assms(5) by (intro that [of l] exI [of _ k]) (simp add: hs Suc l1 l)
  qed
  then obtain n where "(case await_matching_ack ?ack hs ?l ?ds of (ok, hs, l, dx) \<Rightarrow>
      if ok \<and> \<not> ds_scan_event dx then (case await_scan_event hs l dx of (hs, l, dx) \<Rightarrow> (ok, hs, l, dx)) else (ok, hs, l, dx)) = (True, replicate n Wake, l2, ?ds')" by blast
  then show ?thesis using assms(1,3)
    by (auto simp: read_attempt_def Let_def split: prod.splits if_splits)
qed


end
