(* ===== verification/Gateway_Scan.thy ===== *)
theory Gateway_Scan
  imports Scan_Answers Sim_Gateway
begin

section \<open>Scanning a simulated module\<close>

text \<open>
  The register scan of \<open>Register_Scan\<close> against the gateway of \<open>Sim_Gateway\<close>. What the scan needs of
  a bus is the locale \<open>register_bus\<close>: a register read is acknowledged and answered with the bytes of the
  table. The gateway provides it for a module built from a declaration, whatever the scheduling, and the
  scan then hands on exactly the declared links.
\<close>


subsection \<open>Reading a table of records\<close>

definition register_query :: "nat \<Rightarrow> nat \<Rightarrow> string" where
  \<comment> \<open>the command for one register of bank 0\<close>
  "register_query a reg = frame_text [0x10, of_nat a, of_nat (a div 256), of_nat reg, 0]"

lemma register_query_made:
  assumes "a < 65536" "reg < 256" "ty \<noteq> ''dimmer_module''"
  shows "make_pc_link_inventory_command (base_command_of (hexw 4 a) (Some ty) @ fmt_hex 2 (int reg) @ ''00'') = Inr (register_query a reg)"
    "slice 3 5 (register_query a reg) = ''10''"
proof -
  let ?p = "[0x10, of_nat a, of_nat (a div 256), of_nat reg, 0] :: byte list"
  have s: "byte_hex (of_nat (a div 256)) @ byte_hex (of_nat a) = hexw 4 a" by (rule byte_hex_append)
  then have "slice 2 4 (hexw 4 a) = byte_hex (of_nat a)" "take 2 (hexw 4 a) = byte_hex (of_nat (a div 256))"
    by (simp_all add: slice_def flip: s)
  moreover have "fmt_hex 2 (int reg) = byte_hex (of_nat reg)" using assms(2) by (simp add: fmt_hex_nat hexw_2_byte)
  moreover have "''10'' = byte_hex 0x10" "''00'' = byte_hex 0" by (simp_all add: byte_hex_def)
  ultimately have p: "base_command_of (hexw 4 a) (Some ty) @ fmt_hex 2 (int reg) @ ''00'' = hex_of ?p"
    using assms(3) by (simp add: base_command_of_def)
  show "make_pc_link_inventory_command (base_command_of (hexw 4 a) (Some ty) @ fmt_hex 2 (int reg) @ ''00'') = Inr (register_query a reg)"
    unfolding p make_pc_link_inventory_command_def register_query_def frame_text_def
    using int_to_hex_crc1 [of ?p] int_to_hex_crc2
    by (simp add: int_to_hex_def Let_def eval_simps del: hex_of_Cons hex_of_Nil)
  show "slice 3 5 (register_query a reg) = ''10''"
    using frame_parts(3) [of "tl ?p" "0x10"] by (simp add: register_query_def byte_hex_def [of "0x10"])
qed

lemma cut_records:
  "\<forall>r \<in> set recs. length r = n \<Longrightarrow> 0 < n \<Longrightarrow> m \<le> n * length recs \<Longrightarrow> fst (cut_chunks n (take m (concat recs))) = take (m div n) recs"
proof (induction recs arbitrary: m)
  case Nil then show ?case by (simp add: cut_chunks_short)
next
  case (Cons r recs)
  show ?case
  proof (cases "m < n")
    case True
    then show ?thesis using Cons.prems by (simp add: cut_chunks_short)
  next
    case False
    then have "take m (concat (r # recs)) = r @ take (m - n) (concat recs)" using Cons.prems by simp
    moreover have "m div n = Suc ((m - n) div n)" using False Cons.prems(2) by (simp add: le_div_geq)
    moreover have "fst (cut_chunks n (take (m - n) (concat recs))) = take ((m - n) div n) recs"
      using Cons False by (intro Cons.IH) auto
    ultimately show ?thesis using Cons.prems(1,2) by (simp add: cut_chunks_cons)
  qed
qed

definition table_ready :: "scan_setting \<Rightarrow> string list \<Rightarrow> nat \<Rightarrow> pydict list \<Rightarrow> nat \<Rightarrow> discovery \<Rightarrow> bool" where
  \<comment> \<open>\<open>k\<close> registers of a table with \<open>n\<close> links at the head of its records are read\<close>
  "table_ready s recs n before k ds \<longleftrightarrow> scan_ready s ds \<and> scan_decoder s (0 < k) ds \<and> ds_scan_active ds \<and>
     ds_payload_buffer ds = snd (cut_chunks 12 (take (32 * k) (concat recs))) \<and>
     ds_commands ds = before @ map (with_push_address \<circ> metadata_of (st_type s)) (link_commands s (take (32 * k div 12) recs)) \<and>
     ds_decoded_records ds = length (link_commands s (take (32 * k div 12) recs)) \<and>
     ds_missed_acks ds = 0 \<and> ds_ff_streak ds \<le> k - (6 * n + 15) div 16 \<and> \<not> ds_trailer_seen ds"

lemma link_commands_append [simp]: "link_commands s (xs @ ys) = link_commands s xs @ link_commands s ys"
  by (simp add: link_commands_def)

lemma table_step:
  assumes "table_ready s recs n before k ds" "module_known s" "\<forall>r \<in> set recs. length r = 12 \<and> chunk_ok s r"
    and "32 * (k + 1) \<le> 12 * length recs" "hex_of bs = slice (32 * k) (32 * (k + 1)) (concat recs)" "length bs = 16"
    and "\<forall>r \<in> set (take n recs). chunk_commands s r \<noteq> []" "n \<le> length recs" "k \<le> (6 * n + 15) div 16"
    and "0 < k \<or> looks_misaligned (new_chunker (Some (st_coordinator s)) (st_type s)) (hex_of bs) = Inr False"
  defines "ds' \<equiv> parse_module_inventory_response (register_frame (st_address s) bs) (ds\<lparr>ds_scan_event := False\<rparr>)"
  shows "table_ready s recs n before (k + 1) ds'" "ds_scan_event ds'" "ds_corrupt_link_tables ds' = ds_corrupt_link_tables ds"
    "ds_expected_records ds' = ds_expected_records ds" "progress_of ds' = progress_of ds"
proof -
  let ?S = "concat recs"
  have len: "\<forall>r \<in> set recs. length r = 12" using assms(3) by blast
  have lS: "length ?S = 12 * length recs" using len by (induction recs) auto
  have up: "upper ?S = ?S" using assms(3) by (induction recs) (auto simp: chunk_ok_def)
  have blk: "take (32 * (k + 1)) ?S = take (32 * k) ?S @ hex_of bs"
    unfolding assms(5) slice_def by (metis le_add1 le_add_diff_inverse mult_le_mono2 take_add take_drop add.commute)
  have ub: "upper (snd (cut_chunks 12 (take (32 * k) ?S))) = snd (cut_chunks 12 (take (32 * k) ?S))"
    using upper_snd_cut [of 12 "take (32 * k) ?S"] up by (metis upper_def take_map zero_less_numeral)
  have f: "fst (cut_chunks 12 (take (32 * k) ?S)) = take (32 * k div 12) recs"
    "fst (cut_chunks 12 (take (32 * (k + 1)) ?S)) = take (32 * (k + 1) div 12) recs"
    using assms(4) by (intro cut_records len; simp)+
  let ?b = "ds_payload_buffer ds"
  have b: "?b = snd (cut_chunks 12 (take (32 * k) ?S))" using assms(1) by (simp add: table_ready_def)
  have cut: "fst (cut_chunks 12 (take (32 * k) ?S @ hex_of bs)) = take (32 * k div 12) recs @ fst (cut_chunks 12 (?b @ hex_of bs))"
    "snd (cut_chunks 12 (take (32 * k) ?S @ hex_of bs)) = snd (cut_chunks 12 (?b @ hex_of bs))"
    using chunks12.cut_append [of "take (32 * k) ?S" "hex_of bs"] f(1) by (simp_all add: b)
  let ?new = "fst (cut_chunks 12 (?b @ hex_of bs))"
  have new: "take (32 * (k + 1) div 12) recs = take (32 * k div 12) recs @ ?new" using f(2) cut(1) by (simp only: blk)
  then have sub: "set ?new \<subseteq> set recs" by (metis Un_upper2 set_append set_take_subset subset_trans)
  then have ok: "\<forall>c \<in> set ?new. chunk_ok s c" using assms(3) by blast
  have r: "scan_ready s ds" "scan_decoder s (0 < k) ds" "ds_scan_active ds" using assms(1) by (simp_all add: table_ready_def)
  have al: "0 < k \<or> ?b = [] \<and> looks_misaligned (new_chunker (Some (st_coordinator s)) (st_type s)) (hex_of bs) = Inr False"
    using assms(10) b by (cases "k = 0") (simp_all add: cut_chunks_short)
  have st: "step_result s (snd (cut_chunks 12 (?b @ hex_of bs))) (link_commands s ?new) (ds\<lparr>ds_scan_event := False, ds_scan_event := True\<rparr>) ds'"
    unfolding ds'_def
    using register_step [where ds = "ds\<lparr>ds_scan_event := False\<rparr>" and decided = "0 < k" and s = s and bs = bs] r assms(2,6) ub b al ok by simp
  have ne: "link_commands s ?new \<noteq> []" if "k < (6 * n + 15) div 16"
  proof -
    let ?i = "32 * k div 12"
    have "Suc k * 16 \<le> 6 * n + 15" using Suc_leI [OF that] by (simp add: less_eq_div_iff_mult_less_eq)
    then have i: "?i < n" by (simp add: div_less_iff_less_mult)
    let ?j = "32 * (k + 1) div 12"
    have "(32 * k + 12) div 12 \<le> ?j" by (intro div_le_mono) simp
    then have ij: "?i < ?j" by simp
    have "?new = drop ?i (take ?j recs)" unfolding new using i assms(8) by simp
    moreover have "length (take ?j recs) > ?i" using i ij assms(8) by simp
    ultimately have "take ?j recs ! ?i \<in> set ?new" by (metis Cons_nth_drop_Suc list.set_intros(1))
    then have "recs ! ?i \<in> set ?new" using ij by simp
    moreover have "chunk_commands s (recs ! ?i) \<noteq> []" using assms(7,8) i by (metis in_set_conv_nth length_take min.absorb2 nth_take)
    ultimately show ?thesis by (auto simp: link_commands_def)
  qed
  show "ds_scan_event ds'" "ds_corrupt_link_tables ds' = ds_corrupt_link_tables ds"
    "ds_expected_records ds' = ds_expected_records ds" "progress_of ds' = progress_of ds"
    using st by (simp_all add: step_result_def)
  show "table_ready s recs n before (k + 1) ds'"
  proof -
    have "ds_ff_streak ds' \<le> k + 1 - (6 * n + 15) div 16 \<and> \<not> ds_trailer_seen ds'"
      using st ne assms(1,9) by (cases "k < (6 * n + 15) div 16") (auto simp: step_result_def table_ready_def split: if_splits)
    moreover have "snd (cut_chunks 12 (take (32 * (k + 1)) ?S)) = snd (cut_chunks 12 (?b @ hex_of bs))" unfolding blk by (rule cut(2))
    ultimately show ?thesis using st assms(1) unfolding table_ready_def new
      by (simp add: step_result_def progress_of_def)
  qed
qed



definition register_data :: "byte list list \<Rightarrow> nat \<Rightarrow> byte list" where
  \<comment> \<open>the bytes of register \<open>0x10 + k\<close> of a table stored as these records\<close>
  "register_data recs k = slice (16 * k) (16 * (k + 1)) (concat recs)"

lemma hex_of_take_drop: "hex_of (take n bs) = take (2 * n) (hex_of bs)" "hex_of (drop n bs) = drop (2 * n) (hex_of bs)"
  by (induction bs arbitrary: n; case_tac n; simp)+

lemma hex_of_slice: "hex_of (slice i j bs) = slice (2 * i) (2 * j) (hex_of bs)"
  by (simp add: slice_def hex_of_take_drop diff_mult_distrib2)

lemma hex_of_concat: "hex_of (concat recs) = concat (map hex_of recs)"
  by (induction recs) simp_all

lemma register_data_hex: "hex_of (register_data recs k) = slice (32 * k) (32 * (k + 1)) (concat (map hex_of recs))"
  using hex_of_slice [of "16 * k" "16 * (k + 1)" "concat recs"] by (simp add: register_data_def hex_of_concat)

lemma length_concat_6: "\<forall>r \<in> set recs. length r = 6 \<Longrightarrow> length (concat recs) = 6 * length recs"
  by (induction recs) auto

locale register_bus =
  fixes respond :: "'e bus" and serving :: "'e \<Rightarrow> bool" and a :: nat and recs :: "byte list list"
  assumes answers: "serving env \<Longrightarrow> 16 * (k + 1) \<le> length (concat recs) \<Longrightarrow> k < 96 \<Longrightarrow>
    \<exists>hs env'. respond (register_query a (16 + k)) env = (Some hs, env') \<and> answered a (register_data recs k) hs \<and> serving env'"
begin

lemma read_table_register:
  assumes "serving env" "16 * (k + 1) \<le> length (concat recs)" "k < 96" "length (register_data recs k) = 16" "a < 65536"
    and "ds_scan_event (parse_module_inventory_response (register_frame a (register_data recs k)) (ds\<lparr>ds_scan_event := False\<rparr>))"
  shows "\<exists>env' lst'. serving env' \<and> read_register_once (Suc n) respond (register_query a (16 + k)) env lst ds =
    (True, env', lst', parse_module_inventory_response (register_frame a (register_data recs k)) (ds\<lparr>ds_scan_event := False\<rparr>))"
proof -
  obtain hs env' where h: "respond (register_query a (16 + k)) env = (Some hs, env')" "answered a (register_data recs k) hs" "serving env'"
    using answers [OF assms(1-3)] by blast
  have "slice 3 5 (register_query a (16 + k)) = ''10''"
    using register_query_made(2) [of a "16 + k" "[]"] assms(3,5) by simp
  from read_attempt_answered [where respond = respond and c = "register_query a (16 + k)" and env = env and ds = ds and lst = lst, OF h(1,2) this assms(4,6)]
  obtain lst' where "read_attempt respond (register_query a (16 + k)) env lst ds =
    (True, env', lst', parse_module_inventory_response (register_frame a (register_data recs k)) (ds\<lparr>ds_scan_event := False\<rparr>))" by blast
  then show ?thesis using h(3) by simp
qed

lemma table_loop:
  assumes "serving env" "st_address s = a" "st_type s \<noteq> ''dimmer_module''"
    and "table_ready s (map hex_of recs) n before k ds" "module_known s" "\<forall>r \<in> set recs. length r = 6 \<and> chunk_ok s (hex_of r)"
    and "\<forall>r \<in> set (take n recs). chunk_commands s (hex_of r) \<noteq> []" "n \<le> length recs"
    and "16 * (k + m) \<le> 6 * length recs" "k + m \<le> (6 * n + 15) div 16 + 1" "k + m \<le> 96"
    and "k = 0 \<longrightarrow> looks_misaligned (new_chunker (Some (st_coordinator s)) (st_type s)) (hex_of (register_data recs 0)) = Inr False"
  shows "\<exists>env' lst' ds'. scan_loop respond (Some (st_decoder s)) (base_command_of (st_addr s) (Some (st_type s))) ''00'' tot pre
      (map (\<lambda>j. int (16 + j)) [k..<k + m]) sent0 0 env lst ds = (Inr (), env', lst', ds') \<and> serving env' \<and>
    table_ready s (map hex_of recs) n before (k + m) ds' \<and> ds_corrupt_link_tables ds' = ds_corrupt_link_tables ds \<and>
    ds_expected_records ds' = ds_expected_records ds"
  using assms(1,4,9-12)
proof (induction m arbitrary: k sent0 env lst ds)
  case 0 then show ?case by simp
next
  case (Suc m)
  let ?recs = "map hex_of recs"
  have lS: "length (concat recs) = 6 * length recs" using assms(6) by (intro length_concat_6) blast
  have rl: "\<forall>r \<in> set ?recs. length r = 12 \<and> chunk_ok s r" "\<forall>r \<in> set (take n ?recs). chunk_commands s r \<noteq> []"
    using assms(6,7) by (auto simp: take_map)
  have data: "hex_of (register_data recs k) = slice (32 * k) (32 * (k + 1)) (concat ?recs)" "length (register_data recs k) = 16"
    using Suc.prems(3) lS by (simp_all add: register_data_hex) (simp add: register_data_def)
  have tr: "scan_ready s ds" "scan_decoder s (0 < k) ds" "\<not> ds_trailer_seen ds" using Suc.prems(2) by (simp_all add: table_ready_def)
  let ?f = "parse_module_inventory_response (register_frame (st_address s) (register_data recs k))"
  have e: "(ds\<lparr>ds_scan_event := False\<rparr>) = ds\<lparr>ds_scan_event := False\<rparr>" by simp
  let ?ds1 = "?f (ds\<lparr>ds_scan_event := False\<rparr>)"
  have al: "0 < k \<or> looks_misaligned (new_chunker (Some (st_coordinator s)) (st_type s)) (hex_of (register_data recs k)) = Inr False"
    using Suc.prems(6) by (cases "k = 0") auto
  have b: "32 * (k + 1) \<le> 12 * length ?recs" "n \<le> length ?recs" "k \<le> (6 * n + 15) div 16" using Suc.prems(3,4) assms(8) by simp_all
  note step = table_step [OF Suc.prems(2) assms(5) rl(1) b(1) data rl(2) b(2,3) al]
  have set: "set_block (Some (st_decoder s)) ''00'' (int (16 + k)) ds = ds"
  proof -
    obtain c where "ds_decoders ds ! st_decoder s = OutputDecoder c" using tr(2) by (auto simp: scan_decoder_def)
    then have "(ds_decoders ds)[st_decoder s := OutputDecoder c] = ds_decoders ds" by (metis list_update_id)
    with \<open>ds_decoders ds ! st_decoder s = OutputDecoder c\<close> show ?thesis by (simp add: set_block_def on_decoder_def)
  qed
  have bnd: "16 * (k + 1) \<le> length (concat recs)" "k < 96" "a < 65536" using Suc.prems(3) lS Suc.prems(5) assms(2,5) by (simp_all add: module_known_def)
  obtain env1 lst1 where r: "serving env1"
    "read_register_once (MODULE_SCAN_RETRY_LIMIT + 1) respond (register_query a (16 + k)) env lst ds = (True, env1, lst1, ?ds1)"
    using read_table_register [OF Suc.prems(1) bnd(1,2) data(2) bnd(3), of ds "MODULE_SCAN_RETRY_LIMIT" lst] step(2) assms(2) by auto
  have q: "make_pc_link_inventory_command (base_command_of (st_addr s) (Some (st_type s)) @ fmt_hex 2 (int (16 + k)) @ ''00'') = Inr (register_query a (16 + k))"
    using register_query_made(1) [OF bnd(3), of "16 + k"] bnd(2) assms(2,3) by (simp add: st_addr_def)
  let ?ds2 = "emit_progress (16 + int k) (?ds1\<lparr>pg_registers_sent := pg_registers_sent ?ds1 + 1\<rparr>)"
  have t2: "table_ready s (map hex_of recs) n before (Suc k) ?ds2" using step(1) by (simp add: table_ready_def emit_progress_def)
  have "map (\<lambda>j. int (16 + j)) [k..<k + Suc m] = int (16 + k) # map (\<lambda>j. int (16 + j)) [Suc k..<Suc k + m]"
    by (simp add: upt_conv_Cons)
  moreover obtain env' lst' ds' where "scan_loop respond (Some (st_decoder s)) (base_command_of (st_addr s) (Some (st_type s))) ''00'' tot pre
      (map (\<lambda>j. int (16 + j)) [Suc k..<Suc k + m]) (sent0 + 1) 0 env1 lst1 ?ds2 = (Inr (), env', lst', ds')" "serving env'"
    "table_ready s (map hex_of recs) n before (Suc k + m) ds'" "ds_corrupt_link_tables ds' = ds_corrupt_link_tables ?ds2" "ds_expected_records ds' = ds_expected_records ?ds2"
    using Suc.IH [OF r(1) t2, of "sent0 + 1" lst1] Suc.prems(3-5) by auto
  ultimately show ?case using tr(3) q set r(2) step(3,4) by (auto simp: Let_def emit_progress_def)
qed

lemma table_pass:
  assumes "serving env" "st_address s = a" "st_type s \<noteq> ''dimmer_module''"
    and "scan_ready s ds" "scan_decoder s False ds" "ds_payload_buffer ds = []" "ds_decoded_records ds = 0" "ds_missed_acks ds = 0"
    and "module_known s" "\<forall>r \<in> set recs. length r = 6 \<and> chunk_ok s (hex_of r)"
    and "\<forall>r \<in> set (take n recs). chunk_commands s (hex_of r) \<noteq> []" "n \<le> length recs"
    and "16 * m \<le> 6 * length recs" "m \<le> (6 * n + 15) div 16 + 1" "m \<le> 96"
    and "looks_misaligned (new_chunker (Some (st_coordinator s)) (st_type s)) (hex_of (register_data recs 0)) = Inr False"
  shows "\<exists>env' lst' ds'. scan_module_registers respond (base_command_of (st_addr s) (Some (st_type s)))
      (map (\<lambda>j. int (16 + j)) [0..<m]) ''00'' env lst ds = (Inr (), env', lst', ds') \<and> scan_ready s ds' \<and>
    scan_decoder s (0 < m) ds' \<and> ds_commands ds' = ds_commands ds @
      map (with_push_address \<circ> metadata_of (st_type s)) (link_commands s (map hex_of (take (32 * m div 12) recs))) \<and>
    ds_decoded_records ds' = length (link_commands s (map hex_of (take (32 * m div 12) recs))) \<and> ds_missed_acks ds' = 0 \<and>
    ds_corrupt_link_tables ds' = ds_corrupt_link_tables ds \<and> ds_expected_records ds' = ds_expected_records ds"
proof -
  let ?ds = "begin_pass (int m) ds"
  have i: "decoder_index ?ds = Some (st_decoder s)" using assms(4) by (simp add: begin_pass_def scan_ready_def Let_def)
  have t: "table_ready s (map hex_of recs) n (ds_commands ds) 0 ?ds"
    using assms(4-8) by (simp add: table_ready_def begin_pass_def Let_def cut_chunks_short link_commands_def)
  have f: "ds_corrupt_link_tables ?ds = ds_corrupt_link_tables ds" "ds_expected_records ?ds = ds_expected_records ds"
    by (simp_all add: begin_pass_def Let_def)
  obtain env' lst' ds' where l: "scan_loop respond (Some (st_decoder s)) (base_command_of (st_addr s) (Some (st_type s))) ''00'' (int m) (pg_registers_sent ?ds)
      (map (\<lambda>j. int (16 + j)) [0..<m]) 0 0 env lst ?ds = (Inr (), env', lst', ds')" "table_ready s (map hex_of recs) n (ds_commands ds) m ds'"
    "ds_corrupt_link_tables ds' = ds_corrupt_link_tables ds" "ds_expected_records ds' = ds_expected_records ds"
    using table_loop [OF assms(1-3) t assms(9-12), of m "int m" "pg_registers_sent ?ds" 0 lst] assms(13-16) unfolding f by auto
  show ?thesis using l i by (simp add: scan_module_registers_def Let_def end_pass_def table_ready_def take_map)
qed

end

definition table_blocks :: "nat \<Rightarrow> nat" where
  \<comment> \<open>the registers read of a table with \<open>n\<close> links\<close>
  "table_blocks n = min ((6 * n + 15) div 16 + 1) 96"

lemma div_16_bounds: "16 * ((x :: nat) div 16) \<le> x" "x < 16 * (x div 16) + 16"
  by presburger+

lemma table_blocks_bounds:
  assumes "n \<le> 255"
  shows "table_blocks n \<le> (6 * n + 15) div 16 + 1" "table_blocks n \<le> 96" "0 < table_blocks n" "n \<le> 32 * table_blocks n div 12"
proof -
  have "12 * n \<le> 32 * (q + 1)" if "6 * n + 15 < 16 * q + 16" for q using that by simp
  from this [OF div_16_bounds(2)] have "12 * n \<le> 32 * table_blocks n" using assms by (simp add: table_blocks_def min_def)
  then show "n \<le> 32 * table_blocks n div 12" by (simp add: less_eq_div_iff_mult_less_eq)
qed (simp_all add: table_blocks_def)

lemma ceil_16: "- (- (int n * 6) div 16) = int ((6 * n + 15) div 16)"
proof -
  let ?c = "- (int n * 6) div 16" and ?q = "(6 * n + 15) div 16"
  have "16 * ?q \<le> 6 * n + 15" "6 * n + 15 < 16 * ?q + 16" by (rule div_16_bounds)+
  moreover have "16 * (x div 16) \<le> x \<and> x < 16 * (x div 16) + 16" for x :: int by presburger
  then have "16 * ?c \<le> - (int n * 6)" "- (int n * 6) < 16 * ?c + 16" by blast+
  ultimately show ?thesis by linarith
qed

lemma counted_stop: "min (0x10 + (- (- (int n * 6) div 16) + 1)) SWITCH_LINK_BLOCK_END - 1 = 15 + int (table_blocks n)"
proof -
  have "min (0x10 + (int q + 1)) 0x70 - 1 = 15 + int (min (q + 1) 96)" for q by (simp add: min_def)
  then show ?thesis unfolding ceil_16 SWITCH_LINK_BLOCK_END_def table_blocks_def .
qed

lemma block_range: "map (\<lambda>j. int (16 + j)) [0..<m] = [16..15 + int m]"
proof (induction m)
  case (Suc m)
  have "[16..15 + int (Suc m)] = [16..15 + int m] @ [16 + int m]"
    using upto_rec2 [of 16 "16 + int m"] by simp
  then show ?case using Suc by simp
qed simp

lemma counted_plan:
  assumes "ty = ''switch_module'' \<or> ty = ''roller_module''" "unat (record_count_a st) = n"
  shows "count_driven_passes (Some ty) st = Some [(''00'', map (\<lambda>j. int (16 + j)) [0..<table_blocks n])]"
proof -
  have a: "int (unat (record_count_a st)) = int n" using assms(2) by simp
  have t: "Some ty = Some ''switch_module'' \<or> Some ty = Some ''roller_module''" using assms(1) by simp
  show ?thesis unfolding count_driven_passes_def Let_def a if_P [OF t] counted_stop block_range ..
qed

lemma counted_passes:
  assumes "ds_module_type ds = Some ty" "ty = ''switch_module'' \<or> ty = ''roller_module''" "unat (record_count_a st) = n" "record_count_b st = 0xFF"
  shows "count_bounded_passes (Some st) ds =
    ([(''00'', map (\<lambda>j. int (16 + j)) [0..<table_blocks n])], ds\<lparr>ds_expected_records := Some (int n)\<rparr>)"
  using assms(1,3,4) counted_plan [OF assms(2,3)] by (simp add: count_bounded_passes_def Let_def)

lemma table_commands:
  assumes "\<forall>r \<in> set (take n recs). length (chunk_commands s (hex_of r)) = 1" "\<forall>r \<in> set (drop n recs). chunk_commands s (hex_of r) = []"
    and "n \<le> j" "n \<le> length recs"
  shows "link_commands s (map hex_of (take j recs)) = link_commands s (map hex_of (take n recs))"
    "length (link_commands s (map hex_of (take n recs))) = n"
proof -
  have "take j recs = take n recs @ take (j - n) (drop n recs)"
    using assms(3) by (metis le_add_diff_inverse take_add)
  moreover have "link_commands s (map hex_of (take k (drop n recs))) = []" for k
    using assms(2) by (auto simp: link_commands_def dest: in_set_takeD)
  ultimately show "link_commands s (map hex_of (take j recs)) = link_commands s (map hex_of (take n recs))" by simp
  have "length (link_commands s (map hex_of xs)) = length xs" if "\<forall>r \<in> set xs. length (chunk_commands s (hex_of r)) = 1" for xs
    using that by (induction xs) (simp_all add: link_commands_def)
  then show "length (link_commands s (map hex_of (take n recs))) = n" using assms(1,4) by simp
qed

lemma output_extension:
  assumes "scan_ready s ds" "scan_decoder s decided ds"
  shows "run_extension_passes k respond base env lst ds = (Inr (), env, lst, ds)"
proof (cases k)
  case (Suc k')
  obtain c where c: "ds_decoders ds ! st_decoder s = OutputDecoder c" using assms(2) by (auto simp: scan_decoder_def)
  then have "(ds_decoders ds)[st_decoder s := OutputDecoder c] = ds_decoders ds" by (metis list_update_id)
  moreover have "decoder_index ds = Some (st_decoder s)" using assms(1) by (simp add: scan_ready_def)
  ultimately show ?thesis using c Suc by (simp add: on_decoder_def)
qed simp

lemma scan_module_counted:
  assumes "register_bus respond serving a recs" "serving env" "st_address s = a" "st_type s = ''switch_module'' \<or> st_type s = ''roller_module''"
    and "scan_ready s ds" "scan_decoder s False ds" "ds_payload_buffer ds = []" "st_addr s \<notin> set (ds_corrupt_link_tables ds)"
    and "module_known s" "\<forall>r \<in> set recs. length r = 6 \<and> chunk_ok s (hex_of r)"
    and "\<forall>r \<in> set (take n recs). length (chunk_commands s (hex_of r)) = 1" "\<forall>r \<in> set (drop n recs). chunk_commands s (hex_of r) = []"
    and "256 \<le> length recs" "unat (record_count_a st) = n" "record_count_b st = 0xFF"
    and "looks_misaligned (new_chunker (Some (st_coordinator s)) (st_type s)) (hex_of (register_data recs 0)) = Inr False"
  shows "\<exists>env' lst' ds'. scan_module respond False (Some st) (st_addr s) env lst ds = (Inr (LinkTable True None), env', lst', ds') \<and>
    ds_commands ds' = ds_commands ds @ map (with_push_address \<circ> metadata_of (st_type s)) (link_commands s (map hex_of (take n recs)))"
proof -
  let ?m = "table_blocks n" and ?base = "base_command_of (st_addr s) (Some (st_type s))"
  let ?regs = "map (\<lambda>j. int (16 + j)) [0..<?m]"
  have n: "n \<le> 255" using assms(14) unat_byte_less [of "record_count_a st"] by simp
  note m = table_blocks_bounds [OF n]
  let ?start = "ds\<lparr>ds_expected_records := None, ds_decoded_records := 0\<rparr>"
  let ?ds = "?start\<lparr>ds_expected_records := Some (int n), ds_missed_acks := 0, pg_module_register_total := planned_registers [(''00'', ?regs)], pg_registers_sent := 0\<rparr>"
  have ty: "ds_module_type ds = Some (st_type s)" using assms(5) by (simp add: scan_ready_def)
  then have cb: "count_bounded_passes (Some st) ?start = ([(''00'', ?regs)], ?start\<lparr>ds_expected_records := Some (int n)\<rparr>)"
    by (intro counted_passes [OF _ assms(4,14,15)]) simp
  have nd: "st_type s \<noteq> ''dimmer_module''" using assms(4) by auto
  have ne: "\<forall>r \<in> set (take n recs). chunk_commands s (hex_of r) \<noteq> []" using assms(11) by fastforce
  have r: "scan_ready s ?ds" "scan_decoder s False ?ds" using assms(5,6) by simp_all
  have d: "ds_payload_buffer ?ds = []" "ds_decoded_records ?ds = 0" "ds_missed_acks ?ds = 0" "n \<le> length recs" "16 * ?m \<le> 6 * length recs"
    using assms(7,13) n m(2) by simp_all
  obtain env' lst' ds' where p: "scan_module_registers respond ?base ?regs ''00'' env lst ?ds = (Inr (), env', lst', ds')"
    "scan_ready s ds'" "scan_decoder s (0 < ?m) ds'"
    "ds_commands ds' = ds_commands ?ds @ map (with_push_address \<circ> metadata_of (st_type s)) (link_commands s (map hex_of (take (32 * ?m div 12) recs)))"
    "ds_decoded_records ds' = length (link_commands s (map hex_of (take (32 * ?m div 12) recs)))" "ds_missed_acks ds' = 0"
    "ds_corrupt_link_tables ds' = ds_corrupt_link_tables ?ds" "ds_expected_records ds' = ds_expected_records ?ds"
    using register_bus.table_pass [OF assms(1-3) nd r d(1-3) assms(9,10) ne d(4,5) m(1,2) assms(16), of lst] by blast
  note tk = table_commands [OF assms(11,12) m(4) d(4)]
  have ty': "ds_module_type ds' = Some (st_type s)" "upper (st_addr s) = st_addr s" using p(2) by (simp_all add: scan_ready_def st_addr_def)
  have lt: "link_table_incomplete (st_addr s) True ds' = None"
    using p(5-8) tk assms(8) ty'(2) by (simp add: link_table_incomplete_def)
  have x: "run_extension_passes EXTENSION_ROUNDS_LIMIT respond ?base env' lst' ds' = (Inr (), env', lst', ds')"
    by (rule output_extension [OF p(2,3)])
  have rp: "run_passes respond ?base [(''00'', ?regs)] env lst ?ds = (Inr (), env', lst', ds')"
    using p(1) by (simp add: wire_sub_byte_def)
  have o: "Some (st_type s) \<in> Some ` set LINK_TABLE_MODULE_TYPES" using assms(4) by (auto simp: LINK_TABLE_MODULE_TYPES_def)
  have "scan_module respond False (Some st) (st_addr s) env lst ds = (Inr (LinkTable True None), env', lst', ds')"
  proof -
    show ?thesis unfolding scan_module_def Let_def ty if_False cb prod.case
      using rp x lt ty' o by (simp del: run_passes.simps)
  qed
  then show ?thesis using p(4) tk(1) by simp
qed



subsection \<open>The gateway as the bus of a scan\<close>

definition gateway_bus :: "rat \<Rightarrow> (gateway \<Rightarrow> nat \<times> nat \<times> nat) \<Rightarrow> gateway bus" where
  \<comment> \<open>\<open>sched\<close> says how often the waiting scan gets to run before, between and after the frames\<close>
  "gateway_bus now sched command gw = (case handle now command gw of
       (Inl e, gw') \<Rightarrow> (Some [], gw')
     | (Inr frames, gw') \<Rightarrow> (case sched gw of (i, j, k) \<Rightarrow>
         (Some (replicate i Wake @ concat (map (\<lambda>f. Frame f # replicate j Wake) frames) @ replicate (Suc k) Wake), gw')))"

definition gateway_serving :: "nat \<Rightarrow> byte list list \<Rightarrow> gateway \<Rightarrow> bool" where
  \<comment> \<open>the gateway holds the module, whose registers are those of the table\<close>
  "gateway_serving a recs gw \<longleftrightarrow> gw_pending_acks gw = [] \<and> (\<exists>m. map_of (gw_modules gw) (hexw 4 a) = Some m \<and>
     (\<forall>k < 96. 16 * (k + 1) \<le> length (concat recs) \<longrightarrow> read_register m ''00'' (int (16 + k)) = hex_of (register_data recs k)))"

lemma handle_register_query:
  assumes "map_of (gw_modules gw) (hexw 4 a) = Some m" "read_register m ''00'' (int reg) = hex_of bs" "reg < 256" "length bs \<le> 100"
  shows "\<exists>gw'. handle now (register_query a reg) gw = (Inr (gw_pending_acks gw @ [''$0510'', register_frame a bs]), gw') \<and>
    gw_pending_acks gw' = [] \<and> map_of (gw_modules gw') (hexw 4 a) = Some m"
proof -
  let ?p = "of_nat a # of_nat (a div 256) # [of_nat reg, 0] :: byte list"
  have k: "map_of (gw_modules gw) (wire_key (take 4 (hex_of ?p))) = Some m" using assms(1) by (simp only: wire_key_low_first)
  have f: "byte_hex 0x10 \<in> set MODULE_FUNCTIONS" using group_functions by auto
  have h: "hex_of ?p = (byte_hex (of_nat a) @ byte_hex (of_nat (a div 256))) @ byte_hex (of_nat reg) @ ''00''"
    by (simp add: byte_hex_def [of 0])
  have "slice 4 6 (hex_of ?p) = byte_hex (of_nat reg)" "slice 6 8 (hex_of ?p) = ''00''" unfolding h by (simp_all add: slice_def)
  moreover have "py_int16 (byte_hex (of_nat reg)) = Some (int reg)" using assms(3) by (simp add: byte_hex_of_nat)
  moreover have "sim_frame (take 4 (hex_of ?p) @ hex_of bs) = Inr (register_frame a bs)"
  proof -
    have "take 4 (hex_of ?p) @ hex_of bs = hex_of (of_nat a # of_nat (a div 256) # bs)" by simp
    then show ?thesis using assms(4) by (simp only: register_frame_def) (rule sim_frame_text, simp)
  qed
  ultimately have ans: "answer (byte_hex 0x10) m (hex_of ?p) = (Inr (register_frame a bs), m)"
    using assms(2) unfolding group_functions(5) by (simp add: answer_def Let_def FUNC_STATUS_def GET_OUTPUT_GROUPS_def SET_OUTPUT_GROUPS_def)
  have ne: "register_frame a bs \<noteq> []" by (simp add: register_frame_def frame_text_split)
  have l: "length ?p \<le> 120" by simp
  show ?thesis unfolding register_query_def handle_frame [OF l f k] ans wire_key_low_first Let_def prod.case sum.case
    using ne assms(1) group_functions(5) by (simp add: update_conv')
qed

interpretation gateway_scan: register_bus "gateway_bus now sched" "gateway_serving a recs" a recs for now sched a recs
proof
  fix env k
  assume s: "gateway_serving a recs env" "16 * (k + 1) \<le> length (concat recs)" "k < 96"
  then obtain m where m: "map_of (gw_modules env) (hexw 4 a) = Some m" "gw_pending_acks env = []"
    "\<forall>k < 96. 16 * (k + 1) \<le> length (concat recs) \<longrightarrow> read_register m ''00'' (int (16 + k)) = hex_of (register_data recs k)"
    by (auto simp: gateway_serving_def)
  have "length (register_data recs k) \<le> 100" by (simp add: register_data_def)
  then obtain gw' where h: "handle now (register_query a (16 + k)) env = (Inr [''$0510'', register_frame a (register_data recs k)], gw')"
    "gw_pending_acks gw' = []" "map_of (gw_modules gw') (hexw 4 a) = Some m"
    using handle_register_query [OF m(1), of "16 + k" "register_data recs k" now] m(2,3) s(2,3) by auto
  have e: "replicate j Wake @ replicate (Suc l) Wake = replicate (Suc (j + l)) Wake" for j l
    using replicate_add [of j "Suc l" Wake] by simp
  obtain i j l where "sched env = (i, j, l)" by (metis prod_cases3)
  then show "\<exists>hs env'. gateway_bus now sched (register_query a (16 + k)) env = (Some hs, env') \<and>
      answered a (register_data recs k) hs \<and> gateway_serving a recs env'"
    using h m(3)
    by (intro exI [of _ "replicate i Wake @ Frame ''$0510'' # replicate j Wake @ Frame (register_frame a (register_data recs k)) # replicate (Suc (j + l)) Wake"] exI [of _ gw'])
      (auto simp: gateway_bus_def gateway_serving_def answered_def e simp del: replicate_Suc)
qed

subsection \<open>The registers of a declared module\<close>

lemma registers_lookup:
  assumes "0 < w"
  shows "map_of (registers S first w) (first + int k) = (if w * k < length S then Some (ljust_F w (slice (w * k) (w * (k + 1)) S)) else None)"
proof (induction k arbitrary: S first)
  case 0
  show ?case using assms by (subst registers.simps) (simp add: slice_def)
next
  case (Suc k)
  show ?case
  proof (cases "S = []")
    case True
    then show ?thesis by (subst registers.simps) simp
  next
    case False
    have "map_of (registers S first w) (first + int (Suc k)) = map_of (registers (drop w S) (first + 1) w) ((first + 1) + int k)"
      using assms False by (subst registers.simps) (simp add: algebra_simps)
    also have "\<dots> = (if w * k < length (drop w S) then Some (ljust_F w (slice (w * k) (w * (k + 1)) (drop w S))) else None)" by (rule Suc)
    finally show ?thesis using assms by (simp add: slice_def less_diff_conv add.commute)
  qed
qed

lemma padded_slice:
  assumes "i + w \<le> length s + q"
  shows "ljust_F w (slice i (i + w) (s @ replicate p CHR ''F'')) = slice i (i + w) (s @ replicate q CHR ''F'')"
proof (rule nth_equalityI)
  show "length (ljust_F w (slice i (i + w) (s @ replicate p CHR ''F''))) = length (slice i (i + w) (s @ replicate q CHR ''F''))"
    using assms by (simp add: ljust_F_def)
  fix j assume "j < length (ljust_F w (slice i (i + w) (s @ replicate p CHR ''F'')))"
  then have "j < w" using assms by (simp add: ljust_F_def)
  then show "ljust_F w (slice i (i + w) (s @ replicate p CHR ''F'')) ! j = slice i (i + w) (s @ replicate q CHR ''F'') ! j"
    using assms by (auto simp: ljust_F_def slice_def nth_append intro!: nth_replicate diff_less_mono)
qed

definition link_record_bytes :: "string \<Rightarrow> link \<Rightarrow> byte list" where
  \<comment> \<open>the six bytes a link is stored as\<close>
  "link_record_bytes mtype l = (case bytes_fromhex (encoded mtype l) of None \<Rightarrow> [] | Some bs \<Rightarrow> bs)"

definition module_records :: "string \<Rightarrow> link list \<Rightarrow> byte list list" where
  \<comment> \<open>the records of a module's table with unused ones behind them\<close>
  "module_records mtype ls = map (link_record_bytes mtype) ls @ replicate 256 (replicate 6 0xFF)"

lemma link_record_hex:
  assumes "link_ok mtype (Some n) l" "mtype = ''switch_module'' \<or> mtype = ''roller_module''"
  shows "hex_of (link_record_bytes mtype l) = encoded mtype l" "length (link_record_bytes mtype l) = 6"
proof -
  from encode_link_bytes(1) [OF assms(1)] obtain v where "encode_link l mtype = Inr (hex_of (rev (link_head mtype l @ stored v)))" by blast
  moreover have "mtype \<noteq> ''dimmer_module''" using assms(2) by auto
  ultimately have e: "encoded mtype l = hex_of (rev (link_head mtype l @ stored v))" by (simp add: encoded_def)
  have b: "link_record_bytes mtype l = rev (link_head mtype l @ stored v)"
    unfolding link_record_bytes_def e by (simp only: bytes_fromhex_hex_of option.case)
  show "hex_of (link_record_bytes mtype l) = encoded mtype l" unfolding b e ..
  show "length (link_record_bytes mtype l) = 6" unfolding b by simp
qed

lemma module_registers:
  assumes "new_module spec = Inr m" "sp_type spec = ''switch_module'' \<or> sp_type spec = ''roller_module''" "sp_memory spec = []"
    and "sp_links spec \<noteq> []" "list_all (link_ok (sp_type spec) (Some count)) (sp_links spec)" "16 * (k + 1) \<le> length (concat (module_records (sp_type spec) (sp_links spec)))"
  shows "read_register m ''00'' (int (16 + k)) = hex_of (register_data (module_records (sp_type spec) (sp_links spec)) k)"
proof -
  let ?ty = "sp_type spec" and ?ls = "sp_links spec"
  let ?enc = "concat (map (encoded ?ty) ?ls)"
  have ok: "\<forall>l \<in> set ?ls. link_ok ?ty (Some count) l" using assms(5) by (simp add: list_all_iff)
  have nd: "?ty \<noteq> ''dimmer_module''" "?ty \<noteq> ''audio_module''" using assms(2) by auto
  have "concat_res (map (\<lambda>l. encode_link l ?ty) ?ls) = Inr ?enc"
    using ok nd(1) by (intro concat_res_all) (blast intro: encoded_Inr(1))
  then have st: "module_stream spec = Inr ?enc" using nd by (simp add: module_stream_def)
  have hx: "map hex_of (map (link_record_bytes ?ty) ?ls) = map (encoded ?ty) ?ls"
    using ok link_record_hex(1) [OF _ assms(2)] by simp blast
  have S: "concat (map hex_of (module_records ?ty ?ls)) = ?enc @ replicate 3072 CHR ''F''"
  proof -
    have "concat (replicate n (replicate 12 x)) = replicate (12 * n) x" for n :: nat and x :: char
      by (induction n) (simp_all flip: replicate_add)
    then show ?thesis unfolding module_records_def map_append hx using filler_bytes [of 6] by simp
  qed
  obtain l ls where l: "?ls = l # ls" using assms(4) by (cases ?ls) simp_all
  have "length (encoded ?ty l) = 12" using link_record_hex [OF _ assms(2), of count l] ok l by (metis length_hex_of list.set_intros(1) mult_2 numeral_Bit0)
  then have ne: "?enc \<noteq> []" using l by auto
  have e: "encode_module spec = Inr [(''00'', registers (?enc @ replicate 32 CHR ''F'') 0x10 32)]"
    using assms(2,3) st ne nd
    by (auto simp: encode_module_def encodable_def ENCODABLE_TYPES_def TABLE_START_def register_width_def
      REGISTER_WIDTH_def REGISTER_HEX_def)
  have w: "register_width ?ty = 32" using assms(2) by (auto simp: register_width_def REGISTER_WIDTH_def REGISTER_HEX_def)
  have m: "sm_memory m = [(''00'', registers (?enc @ replicate 32 CHR ''F'') 0x10 32)]" "sm_register_hex m = 32"
    using assms(1) e w by (auto simp: new_module_def)
  have len: "32 * k + 32 \<le> length ?enc + 3072"
  proof -
    have "length (concat (map hex_of rs)) = 2 * length (concat rs)" for rs by (metis hex_of_concat length_hex_of)
    then show ?thesis using assms(6) arg_cong [OF S, of length] by simp
  qed
  have e32: "32 * (k + 1) = 32 * k + 32" by simp
  note r = registers_lookup [of 32 "?enc @ replicate 32 CHR ''F''" 16 k, unfolded e32]
  have "upper ''00'' = ''00''" by (simp add: upper_def)
  then have "read_register m ''00'' (int (16 + k)) =
      (if 32 * k < length ?enc + 32 then ljust_F 32 (slice (32 * k) (32 * k + 32) (?enc @ replicate 32 CHR ''F'')) else replicate 32 CHR ''F'')"
    using r m by (simp add: read_register_def)
  also have "\<dots> = ljust_F 32 (slice (32 * k) (32 * k + 32) (?enc @ replicate 32 CHR ''F''))"
    by (simp add: ljust_F_def slice_def)
  also have "\<dots> = slice (32 * k) (32 * k + 32) (?enc @ replicate 3072 CHR ''F'')" by (rule padded_slice [OF len])
  also have "\<dots> = hex_of (register_data (module_records ?ty ?ls) k)"
    unfolding register_data_hex S by (simp add: algebra_simps)
  finally show ?thesis .
qed



lemma link_chunk:
  assumes "link_ok (st_type s) (Some (st_count s)) l" "st_type s = ''switch_module'' \<or> st_type s = ''roller_module''"
  shows "chunk_ok s (hex_of (link_record_bytes (st_type s) l))"
    "\<exists>d. chunk_commands s (hex_of (link_record_bytes (st_type s) l)) = [d] \<and> reading_of d = declared (st_type s) l"
proof -
  let ?c = "hex_of (link_record_bytes (st_type s) l)"
  have l12: "length ?c = 12" using link_record_hex(2) [OF assms] by simp
  then have c: "?c \<noteq> []" by (metis list.size(3) zero_neq_numeral)
  have rd: "read_record (st_type s) (Some (st_coordinator s)) (Some (st_addr s)) (st_count s) ?c = Some (declared (st_type s) l)"
    using assms(2)
  proof
    assume t: "st_type s = ''switch_module''"
    show ?thesis unfolding link_record_hex(1) [OF assms] unfolding t
      by (rule switch_table.read_encode) (use assms(1) t in simp)
  next
    assume t: "st_type s = ''roller_module''"
    show ?thesis unfolding link_record_hex(1) [OF assms] unfolding t
      by (rule roller_table.read_encode) (use assms(1) t in simp)
  qed
  then obtain d where d: "decode_command_payload ?c (st_type s) (Some (st_coordinator s)) (Some (st_addr s)) True (Some (st_count s)) = Inr (Some d)"
    "reading_of d = declared (st_type s) l" by (auto simp: read_record_def split: sum.splits option.splits)
  have "lk_button l \<noteq> []"
  proof -
    obtain v where "lk_button l = hexw 6 v" using assms(1) by (auto simp: link_ok_def)
    then have "length (lk_button l) = 6" by simp
    then show ?thesis by auto
  qed
  then have b: "button_address d \<noteq> None" using d(2) by (auto simp: reading_of_def declared_def)
  have f: "\<not> list_all (\<lambda>x. x = CHR ''F'') ?c"
  proof
    assume "list_all (\<lambda>x. x = CHR ''F'') ?c"
    then have "replicate (length ?c) CHR ''F'' = ?c" by (intro replicate_length_same) (simp add: list_all_iff)
    then have "?c = replicate 12 CHR ''F''" unfolding l12 by simp
    then show False using rd read_filler_12 [OF assms(2)] by simp
  qed
  show "chunk_ok s ?c" using d(1) b c by (simp add: chunk_ok_def)
  show "\<exists>d. chunk_commands s ?c = [d] \<and> reading_of d = declared (st_type s) l" using d f by (simp add: chunk_commands_def)
qed

lemma filler_chunk: "chunk_ok s (hex_of (replicate 6 0xFF))" "chunk_commands s (hex_of (replicate 6 0xFF)) = []"
proof -
  have "hex_of (replicate 6 0xFF) = replicate 12 CHR ''F''" using filler_bytes [of 6] by simp
  then show "chunk_ok s (hex_of (replicate 6 0xFF))" "chunk_commands s (hex_of (replicate 6 0xFF)) = []"
    by (simp_all add: chunk_ok_def chunk_commands_def list_all_iff upper_def)
qed

lemma links_commands:
  assumes "list_all (link_ok (st_type s) (Some (st_count s))) ls" "st_type s = ''switch_module'' \<or> st_type s = ''roller_module''"
  shows "map reading_of (link_commands s (map hex_of (map (link_record_bytes (st_type s)) ls))) = map (declared (st_type s)) ls"
  using assms(1)
proof (induction ls)
  case (Cons l ls)
  then obtain d where "chunk_commands s (hex_of (link_record_bytes (st_type s) l)) = [d]" "reading_of d = declared (st_type s) l"
    using link_chunk(2) [of s l] assms(2) by auto
  then show ?case using Cons by (simp add: link_commands_def)
qed (simp add: link_commands_def)

text \<open>
  C28. A whole scan over the simulated bus: when the gateway holds a switch or roller module built from a
  declaration of one to 255 links with valid fields, the module reported its record count, the host knows the module,
  the scan enters it with clean buffers and the first register read does not look misaligned, then however the frames
  and the waiting scan interleave, the scan reads the table to its end without a register missed, finds it complete,
  and the records it hands on are exactly the declared links, in their order, each with its \<open>t2\<close> byte as the chain index.
\<close>

theorem simulated_scan_reads_links:
  assumes "new_module spec = Inr m" "sp_type spec = ''switch_module'' \<or> sp_type spec = ''roller_module''" "sp_memory spec = []"
    and "sp_links spec \<noteq> []" "length (sp_links spec) \<le> 255" "list_all (link_ok (sp_type spec) (Some (st_count s))) (sp_links spec)"
    and "map_of (gw_modules gw) (st_addr s) = Some m" "gw_pending_acks gw = []" "st_type s = sp_type spec"
    and "unat (record_count_a st) = length (sp_links spec)" "record_count_b st = 0xFF"
    and "module_known s" "scan_ready s ds" "scan_decoder s False ds" "ds_payload_buffer ds = []" "st_addr s \<notin> set (ds_corrupt_link_tables ds)"
    and "looks_misaligned (new_chunker (Some (st_coordinator s)) (st_type s)) (read_register m ''00'' 0x10) = Inr False"
  shows "\<exists>gw' lst' ds' records. scan_module (gateway_bus now sched) False (Some st) (st_addr s) gw lst ds =
      (Inr (LinkTable True None), gw', lst', ds') \<and>
    ds_commands ds' = ds_commands ds @ map (with_push_address \<circ> metadata_of (st_type s)) records \<and>
    map reading_of records = map (declared (st_type s)) (sp_links spec)"
proof -
  let ?ls = "sp_links spec" and ?ty = "sp_type spec" and ?a = "st_address s"
  let ?recs = "module_records ?ty ?ls"
  note ty = assms(2) [folded assms(9)]
  have ok: "\<forall>l \<in> set ?ls. link_ok (st_type s) (Some (st_count s)) l" using assms(6,9) by (simp add: list_all_iff)
  note reg = module_registers [OF assms(1-4,6)]
  have "16 \<le> length (concat ?recs)" by (simp add: module_records_def length_concat sum_list_replicate)
  then have r0: "read_register m ''00'' 0x10 = hex_of (register_data ?recs 0)" using reg [of 0] by simp
  have serving: "gateway_serving ?a ?recs gw"
    using assms(7,8) reg by (auto simp: gateway_serving_def st_addr_def)
  have tk: "take (length ?ls) ?recs = map (link_record_bytes ?ty) ?ls" "drop (length ?ls) ?recs = replicate 256 (replicate 6 0xFF)"
    by (simp_all add: module_records_def)
  have a: "\<forall>r \<in> set ?recs. length r = 6 \<and> chunk_ok s (hex_of r)"
    using ok link_chunk(1) [OF _ ty] link_record_hex(2) [OF _ ty] filler_chunk(1) by (auto simp: module_records_def assms(9))
  have b: "\<forall>r \<in> set (take (length ?ls) ?recs). length (chunk_commands s (hex_of r)) = 1"
    unfolding tk using ok link_chunk(2) [OF _ ty] by (fastforce simp: assms(9))
  have c: "\<forall>r \<in> set (drop (length ?ls) ?recs). chunk_commands s (hex_of r) = []"
    unfolding tk using filler_chunk(2) by auto
  have d: "256 \<le> length ?recs" by (simp add: module_records_def)
  obtain gw' lst' ds' where "scan_module (gateway_bus now sched) False (Some st) (st_addr s) gw lst ds = (Inr (LinkTable True None), gw', lst', ds')"
    "ds_commands ds' = ds_commands ds @ map (with_push_address \<circ> metadata_of (st_type s)) (link_commands s (map hex_of (take (length ?ls) ?recs)))"
    using scan_module_counted [OF gateway_scan.register_bus_axioms serving refl ty assms(13-16,12) a b c d assms(10,11) assms(17) [unfolded r0], of now sched lst] by blast
  moreover have "map reading_of (link_commands s (map hex_of (take (length ?ls) ?recs))) = map (declared (st_type s)) ?ls"
    unfolding tk using links_commands [of s ?ls, OF _ ty] assms(6) by (simp add: assms(9))
  ultimately show ?thesis by blast
qed

subsection \<open>A concrete scan\<close>

lemma count_known_silent:
  assumes "get_button_channels coord = (\<lambda>_. Inr None)"
  shows "count_known coord (fst (cut_chunks 12 (hex_of bs))) = Inr 0"
proof (induction "length bs" arbitrary: bs rule: less_induct)
  case less
  have kb: "known_button coord (hex_of hs) = Inr False" for hs
    using assms by (simp add: known_button_def reverse_hex_def split: option.splits)
  show ?case
  proof (cases "length bs < 6")
    case True then show ?thesis by (simp add: cut_chunks_short)
  next
    case False
    have "count_known coord (fst (cut_chunks 12 (hex_of (drop 6 bs)))) = Inr 0" using False by (intro less) simp
    moreover have "fst (cut_chunks 12 (hex_of bs)) = hex_of (take 6 bs) # fst (cut_chunks 12 (hex_of (drop 6 bs)))"
      using False by (simp add: cut_chunks_long hex_of_take_drop)
    moreover have "take 6 (hex_of (take 6 bs)) = hex_of (take 3 bs)" by (simp add: hex_of_take_drop)
    ultimately show ?thesis using kb [of "take 3 bs"] by simp
  qed
qed

lemma silent_host_aligned:
  assumes "get_button_channels coord = (\<lambda>_. Inr None)"
  shows "looks_misaligned (new_chunker (Some coord) ty) (hex_of bs) = Inr False"
proof -
  have h: "hits coord (hex_of bs) (2 * j) = Inr 0" for j
    using count_known_silent [OF assms, of "drop j bs"] by (simp add: hits_def hex_of_take_drop)
  have "hits coord (hex_of bs) 0 = Inr 0" "hits coord (hex_of bs) 2 = Inr 0" "hits coord (hex_of bs) 4 = Inr 0"
    "hits coord (hex_of bs) 6 = Inr 0" "hits coord (hex_of bs) 8 = Inr 0" "hits coord (hex_of bs) 10 = Inr 0"
    using h [of 0] h [of 1] h [of 2] h [of 3] h [of 4] h [of 5] by simp_all
  then show ?thesis by (simp add: looks_misaligned_def new_chunker_def shifted_is_better_def Let_def)
qed

definition example_link :: link where
  "example_link = \<lparr>lk_button = ''16E2C4'', lk_channel = 3, lk_mode = 1, lk_key = 1, lk_t1 = 0, lk_t2 = 4\<rparr>"

definition example_host :: coordinator where
  "example_host = \<lparr>get_button_channels = (\<lambda>_. Inr None), get_module_channel_count = (\<lambda>_. Inr (Some 12)),
     get_module_type = (\<lambda>_. Some ''switch_module''), dict_module_data = [(''switch_module'', PDict [(''C9A5'', PDict [])])]\<rparr>"

definition example_setting :: scan_setting where
  "example_setting = \<lparr>st_type = ''switch_module'', st_coordinator = example_host, st_address = 0xC9A5, st_count = 12,
     st_decoder = 1, st_table = None\<rparr>"

definition example_spec :: module_spec where
  "example_spec = example_module ''C9A5'' ''switch_module'' [example_link]"

definition example_status :: module_status where
  "example_status = \<lparr>address = ''C9A5'', eeprom_error = False, type_code = 0x10, record_count_a = 1, record_count_b = 0xFF, raw = []\<rparr>"

lemma example_addr: "st_addr example_setting = ''C9A5''"
  by (simp add: st_addr_def example_setting_def eval_simps)

lemma example_entered:
  "\<exists>ds. enter_module ''C9A5'' (new_discovery example_host False (Inr None)) = Inr ds \<and> scan_ready example_setting ds \<and>
     scan_decoder example_setting False ds \<and> ds_payload_buffer ds = [] \<and> ds_corrupt_link_tables ds = [] \<and> ds_commands ds = []"
proof -
  have u: "upper ''C9A5'' = ''C9A5''" by (simp add: upper_def)
  have r: "[0..<6] = [0, 1, 2, 3, 4, 5::nat]" by (simp add: upt_rec)
  have i: "decoder_index ds = Some 1" if "ds_module_type ds = Some ''switch_module''" "ds_decoders ds = all_decoders (Some example_host)" for ds
    unfolding decoder_index_def that by (simp add: all_decoders_def can_handle_def new_chunker_def r)
  let ?ds = "(new_discovery example_host False (Inr None))\<lparr>ds_module_address := Some ''C9A5'', ds_discovery_module := True,
     ds_discovery_module_address := Some ''C9A5'', ds_module_type := Some ''switch_module'', ds_module_channels := Some 12\<rparr>"
  have "get_module_type example_host ''C9A5'' = Some ''switch_module''" "get_module_channel_count example_host ''C9A5'' = Inr (Some 12)"
    "py_any_in ''C9A5'' (map snd (dict_module_data example_host)) = Inr True"
    by (simp_all add: example_host_def)
  then have "enter_module ''C9A5'' (new_discovery example_host False (Inr None)) = Inr ?ds"
    by (simp add: enter_module_def new_discovery_def resolve_module_type_def opt_or_def module_channels_def is_known_module_address_def u)
  moreover have "scan_ready example_setting ?ds"
    using i [of ?ds] example_addr by (simp add: scan_ready_def new_discovery_def) (simp add: example_setting_def)
  moreover have "scan_decoder example_setting False ?ds"
    by (simp add: scan_decoder_def new_discovery_def example_setting_def all_decoders_def new_chunker_def)
  ultimately show ?thesis by (intro exI [of _ ?ds]) (simp add: new_discovery_def)
qed

lemma example_built:
  "\<exists>m gw. new_module example_spec = Inr m \<and>
     new_gateway \<lparr>in_modules = [example_spec], in_gateway_address = ''86F5'', in_gateway_family = ''pc_link''\<rparr> PRESS_DEBOUNCE = Inr gw \<and>
     map_of (gw_modules gw) ''C9A5'' = Some m \<and> gw_pending_acks gw = []"
proof -
  have ok: "link_ok ''switch_module'' (Some 12) example_link" unfolding example_link_def by (rule link_ok_example) simp
  have "encode_link example_link ''switch_module'' = Inr (encoded ''switch_module'' example_link)"
    by (rule encoded_Inr(1) [OF ok]) simp
  then have "module_stream example_spec = Inr (encoded ''switch_module'' example_link)"
    by (simp add: module_stream_def example_spec_def example_module_def)
  then have "\<exists>mem. encode_module example_spec = Inr mem"
    by (simp add: encode_module_def encodable_def ENCODABLE_TYPES_def TABLE_START_def Let_def example_spec_def example_module_def)
  then obtain mem where "encode_module example_spec = Inr mem" by blast
  then show ?thesis by (simp add: new_module_def new_gateway_def) (simp add: example_spec_def example_module_def)
qed

theorem simulated_scan_reads_links_witness:
  "\<exists>gw ds gw' lst' ds' records.
     new_gateway \<lparr>in_modules = [example_spec], in_gateway_address = ''86F5'', in_gateway_family = ''pc_link''\<rparr> PRESS_DEBOUNCE = Inr gw \<and>
     enter_module ''C9A5'' (new_discovery example_host False (Inr None)) = Inr ds \<and>
     scan_module (gateway_bus 0 (\<lambda>_. (1, 0, 2))) False (Some example_status) ''C9A5'' gw (listener_init False False None) ds =
       (Inr (LinkTable True None), gw', lst', ds') \<and>
     ds_commands ds' = map (with_push_address \<circ> metadata_of ''switch_module'') records \<and> map reading_of records = [declared ''switch_module'' example_link]"
proof -
  obtain m gw where gw: "new_module example_spec = Inr m"
    "new_gateway \<lparr>in_modules = [example_spec], in_gateway_address = ''86F5'', in_gateway_family = ''pc_link''\<rparr> PRESS_DEBOUNCE = Inr gw"
    "map_of (gw_modules gw) (st_addr example_setting) = Some m" "gw_pending_acks gw = []"
    using example_built by (auto simp: example_addr)
  obtain ds where ds: "enter_module ''C9A5'' (new_discovery example_host False (Inr None)) = Inr ds" "scan_ready example_setting ds"
    "scan_decoder example_setting False ds" "ds_payload_buffer ds = []" "ds_corrupt_link_tables ds = []" "ds_commands ds = []"
    using example_entered by blast
  have sp: "sp_type example_spec = ''switch_module''" "sp_memory example_spec = []" "sp_links example_spec = [example_link]"
    by (simp_all add: example_spec_def example_module_def)
  have st: "st_type example_setting = ''switch_module''" "st_count example_setting = 12" "st_coordinator example_setting = example_host"
    by (simp_all add: example_setting_def)
  have ok: "list_all (link_ok (sp_type example_spec) (Some (st_count example_setting))) (sp_links example_spec)"
    using link_ok_example [of "''switch_module''"] by (simp add: sp st example_link_def)
  have mk: "module_known example_setting"
    by (simp add: module_known_def example_setting_def example_host_def CHUNK_LENGTHS_def FF_TERMINATOR_TAIL_HEX_def st_addr_def eval_simps)
  have "read_register m ''00'' (int (16 + 0)) = hex_of (register_data (module_records (sp_type example_spec) (sp_links example_spec)) 0)"
    using sp ok by (intro module_registers [OF gw(1)]) (simp_all add: module_records_def length_concat sum_list_replicate)
  then have mis: "looks_misaligned (new_chunker (Some (st_coordinator example_setting)) (st_type example_setting)) (read_register m ''00'' 0x10) = Inr False"
    using silent_host_aligned [of example_host] by (simp add: st example_host_def)
  have nc: "st_addr example_setting \<notin> set (ds_corrupt_link_tables ds)" by (simp add: ds(5))
  have "\<exists>gw' lst' ds' records. scan_module (gateway_bus 0 (\<lambda>_. (1, 0, 2))) False (Some example_status) (st_addr example_setting) gw
        (listener_init False False None) ds = (Inr (LinkTable True None), gw', lst', ds') \<and>
      ds_commands ds' = ds_commands ds @ map (with_push_address \<circ> metadata_of (st_type example_setting)) records \<and>
      map reading_of records = map (declared (st_type example_setting)) (sp_links example_spec)"
    by (rule simulated_scan_reads_links [OF gw(1) _ sp(2) _ _ ok gw(3,4) _ _ _ mk ds(2,3,4) nc mis]) (simp_all add: sp st example_status_def)
  then show ?thesis using gw(2) ds(1) unfolding example_addr ds(6) sp st by auto
qed

end
