(* ===== verification/PyIter.thy ===== *)
theory PyIter
  imports PyVal
begin

section \<open>Loops over dynamically typed values\<close>

text \<open>
  The loops the store functions are made of: a fold that stops at the first exception, a
  collecting loop, iteration over \<open>v or []\<close>, the dictionaries among the items of a list, the
  items of a dictionary, and dictionaries as values that are changed at one key.
\<close>

fun fold_res :: "('a \<Rightarrow> 's \<Rightarrow> 's res) \<Rightarrow> 'a list \<Rightarrow> 's \<Rightarrow> 's res" where
  "fold_res f [] s = Inr s"
| "fold_res f (x # xs) s = res_bind (f x s) (fold_res f xs)"

fun map_res :: "('a \<Rightarrow> 'b res) \<Rightarrow> 'a list \<Rightarrow> 'b list res" where
  "map_res f [] = Inr []"
| "map_res f (x # xs) = res_bind (f x) (\<lambda>y. res_bind (map_res f xs) (\<lambda>ys. Inr (y # ys)))"

definition collect_res :: "('a \<Rightarrow> 'b list res) \<Rightarrow> 'a list \<Rightarrow> 'b list res" where
  "collect_res f xs = res_bind (map_res f xs) (\<lambda>yss. Inr (concat yss))"

definition iter_or_empty :: "pyval \<Rightarrow> pyval list res" where
  \<comment> \<open>what \<open>for x in v or []\<close> goes through\<close>
  "iter_or_empty v = py_iter (py_or v (PList []))"

definition dicts_of :: "pyval list \<Rightarrow> pydict list" where
  "dicts_of vs = List.map_filter as_dict vs"

definition dict_pop :: "pydict \<Rightarrow> string \<Rightarrow> pydict" where
  \<comment> \<open>\<open>d.pop(k, None)\<close>\<close>
  "dict_pop d k = filter (\<lambda>(k', _). k' \<noteq> k) d"

definition py_in :: "pyval \<Rightarrow> string list \<Rightarrow> bool res" where
  \<comment> \<open>membership in a \<open>frozenset\<close> of strings; lists and dictionaries cannot be hashed\<close>
  "py_in v names = (case v of PList _ \<Rightarrow> Inl TypeError | PDict _ \<Rightarrow> Inl TypeError
     | PStr s \<Rightarrow> Inr (s \<in> set names) | _ \<Rightarrow> Inr False)"

definition optional :: "string option \<Rightarrow> pyval" where
  "optional v = (case v of None \<Rightarrow> PNone | Some s \<Rightarrow> PStr s)"

definition dict_default :: "pydict \<Rightarrow> string \<Rightarrow> pyval \<Rightarrow> pydict" where
  \<comment> \<open>\<open>d.setdefault(k, v)\<close>\<close>
  "dict_default d k v = (case map_of d k of None \<Rightarrow> dict_set d k v | Some _ \<Rightarrow> d)"

fun dec_digits :: "nat \<Rightarrow> bool \<Rightarrow> string \<Rightarrow> nat option" where
  \<comment> \<open>decimal digits with single underscores between them; \<open>prev\<close>: the last character was a digit\<close>
  "dec_digits acc prev [] = (if prev then Some acc else None)"
| "dec_digits acc prev (c # cs) =
     (if c = CHR ''_'' then (if prev then dec_digits acc False cs else None)
      else if 48 \<le> code c \<and> code c \<le> 57 then dec_digits (10 * acc + (code c - 48)) True cs else None)"

definition py_int10 :: "string \<Rightarrow> int option" where
  \<comment> \<open>\<open>int(s)\<close>, \<open>None\<close> for its \<open>ValueError\<close>\<close>
  "py_int10 s = (case split_sign (py_strip s) of (neg, u) \<Rightarrow>
     map_option (\<lambda>n. if neg then - int n else int n) (dec_digits 0 False u))"

definition py_int :: "pyval \<Rightarrow> int option" where
  \<comment> \<open>\<open>int(v)\<close>, \<open>None\<close> for its \<open>TypeError\<close> or \<open>ValueError\<close>\<close>
  "py_int v = (case v of PStr s \<Rightarrow> py_int10 s | _ \<Rightarrow> as_int v)"

lemma as_dict_simps [simp]: "as_dict (PDict d) = Some d" "as_dict PNone = None"
  "as_dict (PStr s) = None" "as_dict (PList xs) = None" "as_dict (PInt i) = None" "as_dict (PBool b) = None"
  by (simp_all add: as_dict_def)

lemma as_dict_Some [simp]: "as_dict v = Some d \<longleftrightarrow> v = PDict d"
  by (cases v) simp_all

lemma as_list_simps [simp]: "as_list (PList xs) = Some xs" "as_list PNone = None"
  "as_list (PStr s) = None" "as_list (PDict d) = None" "as_list (PInt i) = None" "as_list (PBool b) = None"
  by (simp_all add: as_list_def)

lemma as_list_Some [simp]: "as_list v = Some xs \<longleftrightarrow> v = PList xs"
  by (cases v) simp_all

lemma as_str_simps [simp]: "as_str (PStr s) = Some s" "as_str PNone = None"
  by (simp_all add: as_str_def)

lemma as_str_Some [simp]: "as_str v = Some s \<longleftrightarrow> v = PStr s"
  by (cases v) (simp_all add: as_str_def)

lemma as_int_simps [simp]: "as_int (PInt i) = Some i" "as_int PNone = None" "as_int (PStr s) = None"
  by (simp_all add: as_int_def)

lemma py_or_dict [simp]: "py_or (PDict d) (PDict []) = PDict d"
  by (simp add: py_or_def py_true_def)

lemma iter_or_empty_simps [simp]:
  "iter_or_empty PNone = Inr []" "iter_or_empty (PList xs) = Inr xs"
  by (cases xs; simp add: iter_or_empty_def py_iter_def)+

lemma dicts_of_simps [simp]: "dicts_of [] = []"
  "dicts_of (v # vs) = (case as_dict v of None \<Rightarrow> dicts_of vs | Some d \<Rightarrow> d # dicts_of vs)"
  by (simp_all add: dicts_of_def List.map_filter_simps del: as_dict_Some split: option.split)

lemma set_dicts_of [simp]: "d \<in> set (dicts_of vs) \<longleftrightarrow> PDict d \<in> set vs"
proof (induction vs)
  case (Cons v vs)
  then show ?case by (cases v) auto
qed simp

lemma map_res_Inr: "map_res f xs = Inr ys \<longleftrightarrow> list_all2 (\<lambda>x y. f x = Inr y) xs ys"
  by (induction xs arbitrary: ys) (auto simp: res_bind_Inr_iff list_all2_Cons1)

lemma collect_res_simps [simp]: "collect_res f [] = Inr []"
  "collect_res f (x # xs) = res_bind (f x) (\<lambda>ys. res_bind (collect_res f xs) (\<lambda>zs. Inr (ys @ zs)))"
  by (cases "f x"; cases "map_res f xs"; simp add: collect_res_def)+

lemma collect_res_set:
  "collect_res f xs = Inr ys \<Longrightarrow> y \<in> set ys \<longleftrightarrow> (\<exists>x zs. x \<in> set xs \<and> f x = Inr zs \<and> y \<in> set zs)"
proof (induction xs arbitrary: ys)
  case Nil
  then show ?case by simp
next
  case (Cons x xs)
  then obtain us vs where "f x = Inr us" "collect_res f xs = Inr vs" "ys = us @ vs"
    by (auto simp: res_bind_Inr_iff)
  with Cons.IH[of vs] show ?case by auto
qed

lemma dict_get_pop: "dict_get (dict_pop d k) k' = (if k' = k then PNone else dict_get d k')"
  by (induction d) (auto simp: dict_pop_def dict_get_def)

lemma dict_pop_idem [simp]: "dict_pop (dict_pop d k) k = dict_pop d k"
  by (simp add: dict_pop_def)

lemma dict_set_same: "map_of d k = Some v \<Longrightarrow> dict_set d k v = d"
  by (induction d) (auto simp: dict_set_def split: if_splits)

lemma map_of_dict_set [simp]: "map_of (dict_set d k v) k' = (if k' = k then Some v else map_of d k')"
  by (simp add: dict_set_def update_conv')

lemma map_of_dict_pop: "map_of (dict_pop d k) k' = (if k' = k then None else map_of d k')"
  by (induction d) (auto simp: dict_pop_def)

lemma dict_default_map_of: "map_of (dict_default d k v) k' =
    (if k' = k \<and> map_of d k = None then Some v else map_of d k')"
  by (simp add: dict_default_def split: option.split)

lemma dict_get_map_of: "dict_get d k \<noteq> PNone \<Longrightarrow> map_of d k = Some (dict_get d k)"
  by (auto simp: dict_get_def split: option.splits)

lemma fold_settles:
  assumes idem: "\<And>x s. x \<in> set xs \<Longrightarrow> f x (f x s) = f x s"
    and stays: "\<And>x y s. x \<in> set xs \<Longrightarrow> y \<in> set xs \<Longrightarrow> f x s = s \<Longrightarrow> f x (f y s) = f y s"
  shows "fold f xs (fold f xs s) = fold f xs s"
proof -
  have keep: "f x (fold f ys t) = fold f ys t" if "f x t = t" "x \<in> set xs" "set ys \<subseteq> set xs" for x ys t
    using that by (induction ys arbitrary: t) (simp_all add: stays)
  have settled: "\<forall>x\<in>set ys. f x (fold f ys t) = fold f ys t" if "set ys \<subseteq> set xs" for ys t
    using that by (induction ys arbitrary: t) (auto simp: idem keep)
  have fixed: "fold f ys t = t" if "\<forall>x\<in>set ys. f x t = t" for ys t
    using that by (induction ys) simp_all
  show ?thesis using fixed[of xs "fold f xs s"] settled[of xs s] by simp
qed

lemma fold_res_append:
  "fold_res f (xs @ ys) s = res_bind (fold_res f xs s) (fold_res f ys)"
  by (induction xs arbitrary: s) (simp_all add: res_bind_def split: sum.split)

lemma fold_res_invariant:
  assumes "fold_res f xs s = Inr t" "P s" "\<And>x u v. x \<in> set xs \<Longrightarrow> P u \<Longrightarrow> f x u = Inr v \<Longrightarrow> P v"
  shows "P t"
  using assms by (induction xs arbitrary: s) (auto simp: res_bind_Inr_iff)

end
