(* ===== verification/Store.thy ===== *)
theory Store
  imports PyIter Rgb "HOL-Library.List_Lexorder" "HOL-Library.Char_ord"
begin

section \<open>Reading the stores: what drives what, and what is left\<close>

text \<open>
  \<open>discovery/store.py\<close>: the pure functions a host asks the button store, the module store and
  the central functions with. A store is a dictionary of dynamically typed values, as the host
  loaded it from its file; the functions skip what has not the expected shape, and raise where the
  code would. The functions that change a store in place return it changed; after an exception
  the half-changed store is not modelled. The values of a store form a tree (no list or dictionary
  occurs in it twice), as a loaded JSON file does.
\<close>

type_synonym member = "string \<times> int \<times> string"

definition REGISTRY_SOURCES :: "string list" where
  "REGISTRY_SOURCES = [''pc_link_registry'', ''pc_logic_registry'']"

definition INPUT_ONLY_BUTTON_TYPES :: "string list" where
  "INPUT_ONLY_BUTTON_TYPES =
     map (\<lambda>c. case map_of DEVICE_TYPES c of Some i \<Rightarrow> dt_name i | None \<Rightarrow> []) [''43'', ''44'']"

definition STATUS_ACTIVE :: string where "STATUS_ACTIVE = ''active''"
definition STATUS_LEGACY_ORPHAN :: string where "STATUS_LEGACY_ORPHAN = ''legacy_orphan''"
definition STATUS_LEGACY_UNDECODED :: string where "STATUS_LEGACY_UNDECODED = ''legacy_undecoded''"
definition STATUS_SYNTHESIZED_INPUT :: string where "STATUS_SYNTHESIZED_INPUT = ''synthesized_input''"
definition STATUS_INPUT_ONLY :: string where "STATUS_INPUT_ONLY = ''input_only''"

definition LEGACY_STATUSES :: "string list" where
  "LEGACY_STATUSES = [STATUS_LEGACY_UNDECODED, STATUS_LEGACY_ORPHAN]"

definition LEGACY_KEEP_KEY :: string where "LEGACY_KEEP_KEY = ''legacy_keep''"

lemmas status_names = STATUS_ACTIVE_def STATUS_LEGACY_ORPHAN_def STATUS_LEGACY_UNDECODED_def
  STATUS_SYNTHESIZED_INPUT_def STATUS_INPUT_ONLY_def

subsection \<open>Member sets\<close>

definition is_dec :: "char \<Rightarrow> bool" where
  "is_dec c \<longleftrightarrow> 48 \<le> code c \<and> code c \<le> 57"

definition mode_code :: "pyval \<Rightarrow> string option" where
  "mode_code mode = (case as_str mode of None \<Rightarrow> None
     | Some text \<Rightarrow> (case py_strip text of [] \<Rightarrow> None
         | c # r \<Rightarrow> if upper_char c = CHR ''M'' \<and> takeWhile is_dec r \<noteq> []
                    then Some (upper (c # takeWhile is_dec r)) else None))"

definition output_member :: "pyval \<Rightarrow> member option" where
  "output_member v = (case as_dict v of None \<Rightarrow> None
     | Some out \<Rightarrow> (case (as_str (dict_get out ''module_address''), as_int (dict_get out ''channel''),
                        mode_code (dict_get out ''mode'')) of
           (Some m, Some ch, Some c) \<Rightarrow> Some (upper m, ch, c)
         | _ \<Rightarrow> None))"

definition member_set_from_outputs :: "pyval \<Rightarrow> member set res" where
  "member_set_from_outputs outputs =
     res_bind (iter_or_empty outputs) (\<lambda>vs. Inr (set (List.map_filter output_member vs)))"

definition or_empty :: "pydict option \<Rightarrow> pydict" where
  \<comment> \<open>\<open>cf or {}\<close>\<close>
  "or_empty cf = (case cf of None \<Rightarrow> [] | Some d \<Rightarrow> d)"

definition cf_member_set :: "pydict option \<Rightarrow> member set res" where
  "cf_member_set cf = member_set_from_outputs (dict_get (or_empty cf) ''outputs'')"

subsection \<open>What a button drives\<close>

definition op_point_items :: "pydict \<Rightarrow> (string \<times> pyval) list" where
  \<comment> \<open>the operation points of a plate; none when they are not a dictionary\<close>
  "op_point_items phys = (case as_dict (py_or (dict_get phys ''operation_points'') (PDict [])) of
     None \<Rightarrow> [] | Some d \<Rightarrow> d)"

definition op_points :: "pydict \<Rightarrow> pydict list" where
  "op_points phys = dicts_of (map snd (op_point_items phys))"

definition links_of :: "pydict \<Rightarrow> pydict list res" where
  "links_of op_point = res_bind (iter_or_empty (dict_get op_point ''linked_modules'')) (\<lambda>vs. Inr (dicts_of vs))"

definition outputs_of :: "pydict \<Rightarrow> pydict list res" where
  "outputs_of link = res_bind (iter_or_empty (dict_get link ''outputs'')) (\<lambda>vs. Inr (dicts_of vs))"

definition linked_module :: "pydict \<Rightarrow> string list" where
  "linked_module link = (let addr = dict_get link ''module_address'' in
     if py_true addr then [upper (py_str addr)] else [])"

definition collect_button_linked_modules :: "pydict \<Rightarrow> string set res" where
  "collect_button_linked_modules phys = res_bind
     (collect_res (\<lambda>op_point. res_bind (links_of op_point) (\<lambda>ls. Inr (concat (map linked_module ls)))) (op_points phys))
     (\<lambda>ms. Inr (set ms))"

definition collect_button_outputs :: "pydict \<Rightarrow> pydict list res" where
  "collect_button_outputs phys =
     collect_res (\<lambda>op_point. res_bind (links_of op_point) (collect_res outputs_of)) (op_points phys)"

fun all_res :: "('a \<Rightarrow> bool res) \<Rightarrow> 'a list \<Rightarrow> bool res" where
  \<comment> \<open>\<open>all(f(x) for x in xs)\<close>\<close>
  "all_res f [] = Inr True"
| "all_res f (x # xs) = res_bind (f x) (\<lambda>b. if b then all_res f xs else Inr False)"

definition all_outputs_registry_sourced :: "pydict list \<Rightarrow> bool res" where
  "all_outputs_registry_sourced outputs = (if outputs = [] then Inr False
     else all_res (\<lambda>out. py_in (dict_get out ''record_source'') REGISTRY_SOURCES) outputs)"

definition has_pc_logic_module :: "pydict option \<Rightarrow> bool" where
  "has_pc_logic_module module_data = (case as_dict (dict_get (or_empty module_data) ''nikobus_module'') of
       None \<Rightarrow> False
     | Some modules \<Rightarrow> list_ex (\<lambda>m. dict_get m ''module_type'' = PStr ''pc_logic'') (dicts_of (map snd modules)))"

definition classify_button_status :: "pydict \<Rightarrow> string set \<Rightarrow> bool \<Rightarrow> string res" where
  "classify_button_status phys remaining_modules has_pc_logic =
     (if py_true (dict_get phys ''pc_logic_parent_address'') then Inr STATUS_SYNTHESIZED_INPUT
      else res_bind (py_in (dict_get phys ''type'') INPUT_ONLY_BUTTON_TYPES) (\<lambda>interface.
        if interface \<or> py_true (dict_get phys ''calendar_channel'') then Inr STATUS_INPUT_ONLY
        else res_bind (collect_button_linked_modules phys) (\<lambda>linked.
          res_bind (collect_button_outputs phys) (\<lambda>outputs.
            if outputs = [] then Inr STATUS_LEGACY_UNDECODED
            else res_bind (if has_pc_logic then Inr False else all_outputs_registry_sourced outputs) (\<lambda>residue.
              if residue then Inr STATUS_LEGACY_ORPHAN
              else if linked \<inter> remaining_modules = {} then Inr STATUS_LEGACY_ORPHAN
              else Inr STATUS_ACTIVE)))))"

record inventory_reconciliation =
  evicted :: "string list"
  remaining :: "string set"
  has_pc_logic :: bool
  status_counts :: "(string \<times> nat) list"

definition new_reconciliation :: inventory_reconciliation where
  "new_reconciliation = \<lparr>evicted = [], remaining = {}, has_pc_logic = False,
     status_counts = [(STATUS_ACTIVE, 0), (STATUS_LEGACY_ORPHAN, 0), (STATUS_LEGACY_UNDECODED, 0),
       (STATUS_SYNTHESIZED_INPUT, 0), (STATUS_INPUT_ONLY, 0)]\<rparr>"

definition count_status :: "string \<Rightarrow> (string \<times> nat) list \<Rightarrow> (string \<times> nat) list" where
  "count_status st cs = AList.update st ((case map_of cs st of None \<Rightarrow> 0 | Some n \<Rightarrow> n) + 1) cs"

definition file_button :: "string \<Rightarrow> pydict \<Rightarrow> pydict" where
  \<comment> \<open>the status written into a button's entry, and the keep flag it loses\<close>
  "file_button st phys = (let phys' = dict_set phys ''status'' (PStr st) in
     if st \<in> set LEGACY_STATUSES then phys' else dict_pop phys' LEGACY_KEEP_KEY)"

fun file_buttons :: "string set \<Rightarrow> bool \<Rightarrow> pydict \<Rightarrow> (string \<times> nat) list \<Rightarrow> (pydict \<times> (string \<times> nat) list) res" where
  "file_buttons rem logic [] cs = Inr ([], cs)"
| "file_buttons rem logic ((a, v) # bs) cs = (case as_dict v of
       None \<Rightarrow> res_bind (file_buttons rem logic bs cs) (\<lambda>(bs', cs'). Inr ((a, v) # bs', cs'))
     | Some phys \<Rightarrow> res_bind (classify_button_status phys rem logic) (\<lambda>st.
         res_bind (file_buttons rem logic bs (count_status st cs)) (\<lambda>(bs', cs').
           Inr ((a, PDict (file_button st phys)) # bs', cs'))))"

definition reconcile_inventory ::
  "pydict \<Rightarrow> pydict \<Rightarrow> string list \<Rightarrow> bool \<Rightarrow> (pydict \<times> pydict \<times> inventory_reconciliation) res" where
  "reconcile_inventory modules buttons absent evict =
     (let absent_set = set (map upper absent);
        gone = (\<lambda>(addr, _). evict \<and> upper addr \<in> absent_set);
        modules' = filter (\<lambda>m. \<not> gone m) modules;
        rem = set (map (upper \<circ> fst) modules');
        logic = has_pc_logic_module (Some [(''nikobus_module'', PDict modules')])
      in res_bind (file_buttons rem logic buttons (status_counts new_reconciliation)) (\<lambda>(buttons', cs).
        Inr (modules', buttons', \<lparr>evicted = map (upper \<circ> fst) (filter gone modules), remaining = rem,
          has_pc_logic = logic, status_counts = cs\<rparr>)))"


subsection \<open>The keys that drive an output\<close>

definition named_op_points :: "pydict \<Rightarrow> (string \<times> pydict) list" where
  "named_op_points phys =
     List.map_filter (\<lambda>(key_label, v). map_option (Pair key_label) (as_dict v)) (op_point_items phys)"

definition index_entry :: "string \<Rightarrow> string \<Rightarrow> pydict \<Rightarrow> pydict \<Rightarrow> pydict" where
  "index_entry physical_addr key_label op_point out =
     (let bus_addr = py_or (dict_get op_point ''bus_address'') (PStr []) in
      [(''bus_address'', bus_addr),
       (''description'', py_or (dict_get op_point ''description'') (PStr (''Button '' @ py_str bus_addr))),
       (''mode'', dict_get out ''mode''), (''t1'', dict_get out ''t1''), (''t2'', dict_get out ''t2''),
       (''wall_button_address'', PStr physical_addr), (''wall_button_key'', PStr key_label)])"

definition link_entries :: "string \<Rightarrow> string \<Rightarrow> pydict \<Rightarrow> pydict \<Rightarrow> ((string \<times> int) \<times> pydict) list res" where
  \<comment> \<open>what one link of an operation point adds to the index\<close>
  "link_entries physical_addr key_label op_point link =
     (let module_address = dict_get link ''module_address'' in
      if \<not> py_true module_address then Inr []
      else res_bind (outputs_of link) (\<lambda>outs. Inr (List.map_filter (\<lambda>out.
        map_option (\<lambda>ch. ((upper (py_str module_address), ch), index_entry physical_addr key_label op_point out))
          (as_int (dict_get out ''channel''))) outs)))"

definition button_entries :: "string \<times> pydict \<Rightarrow> ((string \<times> int) \<times> pydict) list res" where
  "button_entries b = collect_res (\<lambda>(key_label, op_point).
     res_bind (links_of op_point) (collect_res (link_entries (fst b) key_label op_point)))
     (named_op_points (snd b))"

definition file_under :: "'k \<times> 'v \<Rightarrow> ('k \<times> 'v list) list \<Rightarrow> ('k \<times> 'v list) list" where
  \<comment> \<open>\<open>index.setdefault(k, []).append(v)\<close>\<close>
  "file_under kv index = AList.update (fst kv)
     ((case map_of index (fst kv) of None \<Rightarrow> [] | Some vs \<Rightarrow> vs) @ [snd kv]) index"

definition stored_buttons :: "pydict option \<Rightarrow> (string \<times> pydict) list" where
  "stored_buttons button_data = (case as_dict (dict_get (or_empty button_data) ''nikobus_button'') of
       None \<Rightarrow> []
     | Some buttons \<Rightarrow> List.map_filter (\<lambda>(a, v). map_option (Pair a) (as_dict v)) buttons)"

definition build_controlled_by_index :: "pydict option \<Rightarrow> ((string \<times> int) \<times> pydict list) list res" where
  "build_controlled_by_index button_data =
     res_bind (collect_res button_entries (stored_buttons button_data)) (\<lambda>es. Inr (fold file_under es []))"

subsection \<open>What each address fires\<close>

definition text_or_none :: "pyval \<Rightarrow> pyval" where
  "text_or_none v = (case as_str v of None \<Rightarrow> PNone | Some s \<Rightarrow> PStr s)"

definition route_output :: "string \<Rightarrow> pydict \<Rightarrow> ((string \<times> int \<times> string) \<times> pydict) option" where
  \<comment> \<open>an output with a channel and a mode, under the key duplicates are recognised by\<close>
  "route_output md out = (case (as_int (dict_get out ''channel''), as_str (dict_get out ''mode'')) of
       (Some ch, Some mode) \<Rightarrow> Some ((upper md, ch, mode),
         [(''module_address'', PStr (upper md)), (''channel'', dict_get out ''channel''), (''mode'', PStr mode),
          (''t1'', text_or_none (dict_get out ''t1'')), (''t2'', text_or_none (dict_get out ''t2''))])
     | _ \<Rightarrow> None)"

definition link_routes :: "pydict \<Rightarrow> ((string \<times> int \<times> string) \<times> pydict) list res" where
  "link_routes link = (case as_str (dict_get link ''module_address'') of
       None \<Rightarrow> Inr []
     | Some md \<Rightarrow> res_bind (outputs_of link) (\<lambda>outs. Inr (List.map_filter (route_output md) outs)))"

fun keep_first :: "'k list \<Rightarrow> ('k \<times> 'v) list \<Rightarrow> 'v list" where
  \<comment> \<open>the values whose key was not seen before\<close>
  "keep_first seen [] = []"
| "keep_first seen ((k, v) # kvs) = (if k \<in> set seen then keep_first seen kvs else v # keep_first (k # seen) kvs)"

type_synonym routing = "(member set \<times> (string list \<times> pydict list)) list"

definition route_op_point :: "pydict \<Rightarrow> routing \<Rightarrow> routing res" where
  "route_op_point op graph = (case as_str (dict_get op ''bus_address'') of
       None \<Rightarrow> Inr graph
     | Some addr \<Rightarrow> if addr = [] then Inr graph
         else res_bind (links_of op) (\<lambda>ls. res_bind (collect_res link_routes ls) (\<lambda>routes.
           let outputs = keep_first [] routes in
           res_bind (member_set_from_outputs (PList (map PDict outputs))) (\<lambda>members.
             if members = {} then Inr graph
             else (let entry = (case map_of graph members of None \<Rightarrow> ([], outputs) | Some e \<Rightarrow> e)
               in Inr (AList.update members (fst entry @ [upper addr], snd entry) graph))))))"

definition route_plate :: "string \<times> pydict \<Rightarrow> routing \<Rightarrow> routing res" where
  \<comment> \<open>here operation points that are neither absent nor a dictionary are an error\<close>
  "route_plate b graph = (case as_dict (py_or (dict_get (snd b) ''operation_points'') (PDict [])) of
       None \<Rightarrow> Inl AttributeError
     | Some d \<Rightarrow> fold_res route_op_point (dicts_of (map snd d)) graph)"

definition build_routing_graph :: "pydict option \<Rightarrow> routing res" where
  "build_routing_graph button_data = res_bind (fold_res route_plate (stored_buttons button_data) [])
     (\<lambda>graph. Inr (map (\<lambda>(m, a, os). (m, sorted_list_of_set (set a), os)) graph))"

subsection \<open>Central functions\<close>

record cf_output_member =
  of_module :: string
  of_channel :: int
  of_mode :: string
  of_t1 :: "string option"
  of_t2 :: "string option"

record cf_broadcast =
  cf_bus_address :: string
  cf_pattern :: string
  cf_outputs :: "cf_output_member list"
  cf_triggered_by :: "string list"

definition flat_output :: "cf_output_member \<Rightarrow> pydict" where
  "flat_output m = [(''module_address'', PStr (upper (of_module m))), (''channel'', PInt (of_channel m)),
     (''mode'', PStr (of_mode m)), (''t1'', optional (of_t1 m)), (''t2'', optional (of_t2 m))]"

definition flat_broadcast :: "cf_broadcast \<Rightarrow> pydict" where
  "flat_broadcast cf = (let bus = upper (cf_bus_address cf) in
     [(''bus_address'', PStr bus), (''pattern'', PStr (cf_pattern cf)),
      (''outputs'', PList (map (PDict \<circ> flat_output) (cf_outputs cf))),
      (''triggered_by'', PList (map (PStr \<circ> upper) (if cf_triggered_by cf = [] then [bus] else cf_triggered_by cf)))])"

definition flatten_cf_broadcasts :: "(string \<times> cf_broadcast) list \<Rightarrow> pydict" where
  "flatten_cf_broadcasts broadcasts =
     fold (\<lambda>(addr, cf) flat. dict_set flat (upper addr) (PDict (flat_broadcast cf))) broadcasts []"

definition is_roller_member :: "pyval \<Rightarrow> bool" where
  "is_roller_member mode = (case as_str mode of None \<Rightarrow> False
     | Some t \<Rightarrow> let text = lower t in contains text ''open'' \<or> contains text ''close'' \<or> contains text ''stop'')"

definition is_pure_roller_cf :: "pydict option \<Rightarrow> bool" where
  "is_pure_roller_cf cf = (case as_list (dict_get (or_empty cf) ''outputs'') of
       None \<Rightarrow> False
     | Some outputs \<Rightarrow> (let members = dicts_of outputs in
         members \<noteq> [] \<and> list_all (\<lambda>out. is_roller_member (dict_get out ''mode'')) members))"

definition BUTTON_BACKED_SCENE_PATTERNS :: "string list" where
  "BUTTON_BACKED_SCENE_PATTERNS = [''light_scene'', ''nkb_scene'']"

definition is_button_backed_cf :: "pydict option \<Rightarrow> bool" where
  "is_button_backed_cf cf \<longleftrightarrow> str_or_empty (dict_get (or_empty cf) ''pattern'') \<in> set BUTTON_BACKED_SCENE_PATTERNS"

record cover_member =
  cover_module :: string
  cover_channel :: pyval
  open_time :: pyval
  close_time :: pyval

definition add_cover :: "pyval \<Rightarrow> ((string \<times> int) \<times> cover_member) list \<Rightarrow> ((string \<times> int) \<times> cover_member) list" where
  "add_cover v members = (case as_dict v of None \<Rightarrow> members
     | Some out \<Rightarrow> (case (as_str (dict_get out ''module_address''), as_int (dict_get out ''channel'')) of
         (Some md, Some ch) \<Rightarrow> (let mode = dict_get out ''mode'' in
            if \<not> is_roller_member mode then members
            else (let text = lower (py_str mode);
                has_open = contains text ''open'';
                has_close = contains text ''close'' \<or> contains text ''stop'';
                key = (upper md, ch);
                m = (case map_of members key of Some m \<Rightarrow> m
                  | None \<Rightarrow> \<lparr>cover_module = upper md, cover_channel = dict_get out ''channel'',
                             open_time = PNone, close_time = PNone\<rparr>);
                t1 = dict_get out ''t1'';
                m = (if has_open \<and> open_time m = PNone then m\<lparr>open_time := t1\<rparr> else m);
                m = (if has_close \<and> close_time m = PNone then m\<lparr>close_time := t1\<rparr> else m)
              in AList.update key m members))
       | _ \<Rightarrow> members))"

definition cf_cover_members :: "pydict option \<Rightarrow> cover_member list res" where
  "cf_cover_members cf = res_bind (iter_or_empty (dict_get (or_empty cf) ''outputs''))
     (\<lambda>os. Inr (map snd (fold add_cover os [])))"


subsection \<open>The project file's colour-controller links\<close>

record rgb_link =
  rl_module_address :: string
  rl_button_address :: string
  rl_key :: string
  rl_bus_address :: string
  rl_mode :: "int option"
  rl_mode_text :: string

definition link_mode_label :: "rgb_link \<Rightarrow> string" where
  "link_mode_label l = (case rl_mode l of None \<Rightarrow> rl_mode_text l | Some m \<Rightarrow> rgb_mode_text m)"

definition rgb_record :: "rgb_link \<Rightarrow> pydict" where
  "rgb_record l =
     [(''bus_address'', PStr (upper (rl_bus_address l))), (''button_address'', PStr (upper (rl_button_address l))),
      (''key'', PStr (rl_key l)), (''mode'', case rl_mode l of None \<Rightarrow> PNone | Some m \<Rightarrow> PInt m),
      (''mode_label'', PStr (link_mode_label l)),
      (''role'', optional (Option.bind (rl_mode l) (\<lambda>m. rgb_key_role m (rl_key l))))]"

definition knows_controller :: "pydict \<Rightarrow> string \<Rightarrow> bool" where
  "knows_controller modules a = (case as_dict (dict_get modules a) of
     None \<Rightarrow> False | Some m \<Rightarrow> dict_get m ''module_type'' = PStr ''rgb_module'')"

definition is_block_of :: "string \<Rightarrow> pyval \<Rightarrow> bool" where
  "is_block_of a b = (case as_dict b of None \<Rightarrow> False
     | Some d \<Rightarrow> upper (str_or_empty (dict_get d ''module_address'')) = a)"

definition drives_channel_1 :: "pyval \<Rightarrow> bool" where
  "drives_channel_1 v = (case as_dict v of None \<Rightarrow> False | Some d \<Rightarrow> as_int (dict_get d ''channel'') = Some 1)"

definition rgb_output :: "rgb_link \<Rightarrow> pyval" where
  "rgb_output l = PDict [(''channel'', PInt 1), (''mode'', PStr (link_mode_label l)),
     (''button_address'', PStr (upper (rl_bus_address l))), (''record_source'', PStr ''nkb'')]"

definition fill_block :: "rgb_link \<Rightarrow> pydict \<Rightarrow> pydict" where
  \<comment> \<open>channel 1 recorded in a block, once\<close>
  "fill_block l block = (let outs = (case as_list (dict_get block ''outputs'') of None \<Rightarrow> [] | Some os \<Rightarrow> os) in
     dict_set block ''outputs'' (PList (if list_ex drives_channel_1 outs then outs else outs @ [rgb_output l])))"

fun fill_first :: "string \<Rightarrow> rgb_link \<Rightarrow> pyval list \<Rightarrow> pyval list" where
  \<comment> \<open>the controller's first block filled; a new block at the end when it has none\<close>
  "fill_first a l [] = [PDict (fill_block l [(''module_address'', PStr a), (''outputs'', PList [])])]"
| "fill_first a l (b # bs) = (if is_block_of a b
     then (case b of PDict d \<Rightarrow> PDict (fill_block l d) | _ \<Rightarrow> b) # bs
     else b # fill_first a l bs)"

definition link_op_point :: "string \<Rightarrow> rgb_link \<Rightarrow> pydict \<Rightarrow> pydict" where
  "link_op_point a l op_point = dict_set op_point ''linked_modules''
     (PList (fill_first a l (case as_list (dict_get op_point ''linked_modules'') of None \<Rightarrow> [] | Some bs \<Rightarrow> bs)))"

definition link_plate :: "rgb_link \<Rightarrow> pydict \<Rightarrow> pydict" where
  \<comment> \<open>the link on the plate key's operation point, where the button store has one\<close>
  "link_plate l buttons = (case as_dict (dict_get buttons (upper (rl_button_address l))) of
       None \<Rightarrow> buttons
     | Some phys \<Rightarrow> (case as_dict (dict_get phys ''operation_points'') of
           None \<Rightarrow> buttons
         | Some ops \<Rightarrow> (case as_dict (dict_get ops (rl_key l)) of
               None \<Rightarrow> buttons
             | Some op_point \<Rightarrow> dict_set buttons (upper (rl_button_address l))
                 (PDict (dict_set phys ''operation_points''
                   (PDict (dict_set ops (rl_key l)
                     (PDict (link_op_point (upper (rl_module_address l)) l op_point)))))))))"

type_synonym rgb_records = "(string \<times> pydict list) list"

definition note_record :: "rgb_link \<Rightarrow> rgb_records \<Rightarrow> rgb_records" where
  "note_record l by_module = (let a = upper (rl_module_address l);
       records = (case map_of by_module a of None \<Rightarrow> [] | Some rs \<Rightarrow> rs) in
     AList.update a (if rgb_record l \<in> set records then records else records @ [rgb_record l]) by_module)"

definition apply_link :: "pydict \<Rightarrow> rgb_link \<Rightarrow> pydict \<times> rgb_records \<times> nat \<Rightarrow> pydict \<times> rgb_records \<times> nat" where
  "apply_link modules l = (\<lambda>(buttons, by_module, applied).
     if knows_controller modules (upper (rl_module_address l))
     then (link_plate l buttons, note_record l by_module, applied + 1)
     else (buttons, by_module, applied))"

definition write_records :: "string \<times> pydict list \<Rightarrow> pydict \<Rightarrow> pydict" where
  "write_records ar modules = (case as_dict (dict_get modules (fst ar)) of None \<Rightarrow> modules
     | Some m \<Rightarrow> dict_set modules (fst ar) (PDict (dict_set m ''rgb_links'' (PList (map PDict (snd ar))))))"

definition apply_rgb_links :: "pydict \<Rightarrow> pydict \<Rightarrow> rgb_link list \<Rightarrow> pydict \<times> pydict \<times> nat" where
  "apply_rgb_links modules buttons links =
     (case fold (apply_link modules) links (buttons, [], 0) of (buttons', by_module, applied) \<Rightarrow>
        (fold write_records by_module modules, buttons', applied))"

subsection \<open>Settling the inventory\<close>

lemma classify_cong:
  assumes "\<And>k. k \<in> {''pc_logic_parent_address'', ''type'', ''calendar_channel'', ''operation_points''} \<Longrightarrow>
    dict_get p k = dict_get q k"
  shows "classify_button_status p = classify_button_status q"
proof -
  have "op_points p = op_points q" using assms by (simp add: op_points_def op_point_items_def)
  then show ?thesis using assms by (intro ext) (simp add: classify_button_status_def
    collect_button_linked_modules_def collect_button_outputs_def cong: if_cong)
qed

lemma file_button_get: "k \<noteq> ''status'' \<Longrightarrow> k \<noteq> LEGACY_KEEP_KEY \<Longrightarrow> dict_get (file_button st p) k = dict_get p k"
  by (simp add: file_button_def Let_def dict_get_pop)

lemma classify_filed: "classify_button_status (file_button st p) = classify_button_status p"
  by (rule classify_cong) (auto simp: file_button_get LEGACY_KEEP_KEY_def)

lemma file_button_idem [simp]: "file_button st (file_button st p) = file_button st p"
  by (simp add: file_button_def Let_def dict_set_same map_of_dict_pop LEGACY_KEEP_KEY_def)

lemma file_buttons_again:
  "file_buttons rem logic bs cs = Inr (bs', cs') \<Longrightarrow> file_buttons rem logic bs' cs = Inr (bs', cs')"
proof (induction bs arbitrary: bs' cs)
  case Nil
  then show ?case by simp
next
  case (Cons b bs)
  obtain a v where b: "b = (a, v)" by (cases b)
  show ?case
  proof (cases "as_dict v")
    case None
    then show ?thesis using Cons b by (auto simp: res_bind_Inr_iff)
  next
    case (Some phys)
    then show ?thesis using Cons b by (auto simp: res_bind_Inr_iff classify_filed)
  qed
qed

definition button_count :: "pydict \<Rightarrow> nat" where
  "button_count bs = length (filter (\<lambda>(_, v). as_dict v \<noteq> None) bs)"

lemma sum_count_status: "sum_list (map snd (count_status st cs)) = sum_list (map snd cs) + 1"
proof -
  have "sum_list (map snd (AList.update st v cs)) + (case map_of cs st of None \<Rightarrow> 0 | Some n \<Rightarrow> n)
      = sum_list (map snd cs) + v" for v :: nat
    by (induction cs) auto
  from this[of "(case map_of cs st of None \<Rightarrow> 0 | Some n \<Rightarrow> n) + 1"] show ?thesis by (simp add: count_status_def)
qed

lemma file_buttons_facts:
  "file_buttons rem logic bs cs = Inr (bs', cs') \<Longrightarrow>
     sum_list (map snd cs') = sum_list (map snd cs) + button_count bs \<and>
     list_all2 (\<lambda>(a, v) (a', v'). a' = a \<and> (case as_dict v of None \<Rightarrow> v' = v
       | Some phys \<Rightarrow> \<exists>st. classify_button_status phys rem logic = Inr st \<and> v' = PDict (file_button st phys))) bs bs'"
proof (induction bs arbitrary: bs' cs)
  case Nil
  then show ?case by (simp add: button_count_def)
next
  case (Cons b bs)
  obtain a v where b: "b = (a, v)" by (cases b)
  show ?case
  proof (cases "as_dict v")
    case None
    then show ?thesis using Cons b by (auto simp: res_bind_Inr_iff button_count_def)
  next
    case (Some phys)
    then obtain st bs'' where st: "classify_button_status phys rem logic = Inr st"
      and r: "file_buttons rem logic bs (count_status st cs) = Inr (bs'', cs')"
      and bs': "bs' = (a, PDict (file_button st phys)) # bs''"
      using Cons.prems b by (auto simp: res_bind_Inr_iff)
    show ?thesis using Cons.IH[OF r] Some st bs' b by (auto simp: button_count_def sum_count_status)
  qed
qed

definition is_gone :: "string list \<Rightarrow> bool \<Rightarrow> string \<times> pyval \<Rightarrow> bool" where
  "is_gone absent evict m \<longleftrightarrow> evict \<and> upper (fst m) \<in> set (map upper absent)"

lemma reconcile_Inr:
  "reconcile_inventory modules buttons absent evict = Inr (ms, bs, r) \<longleftrightarrow>
     ms = filter (\<lambda>m. \<not> is_gone absent evict m) modules \<and>
     evicted r = map (upper \<circ> fst) (filter (is_gone absent evict) modules) \<and>
     remaining r = set (map (upper \<circ> fst) ms) \<and>
     has_pc_logic r = has_pc_logic_module (Some [(''nikobus_module'', PDict ms)]) \<and>
     file_buttons (remaining r) (has_pc_logic r) buttons (status_counts new_reconciliation) = Inr (bs, status_counts r)"
proof -
  have g: "(\<lambda>(addr, _). evict \<and> upper addr \<in> set (map upper absent)) = is_gone absent evict"
    by (auto simp: is_gone_def)
  show ?thesis
    unfolding reconcile_inventory_def Let_def g by (cases r) (auto simp: res_bind_Inr_iff)
qed

lemma reconcile_again:
  assumes "reconcile_inventory modules buttons absent evict = Inr (ms, bs, r)"
  shows "reconcile_inventory ms bs absent evict = Inr (ms, bs, r\<lparr>evicted := []\<rparr>)"
proof -
  from assms have ms: "ms = filter (\<lambda>m. \<not> is_gone absent evict m) modules"
    by (simp only: reconcile_Inr)
  have "filter (\<lambda>m. \<not> is_gone absent evict m) ms = ms" "filter (is_gone absent evict) ms = []"
    unfolding ms by (simp_all add: filter_empty_conv)
  moreover from assms file_buttons_again
  have "file_buttons (remaining r) (has_pc_logic r) bs (status_counts new_reconciliation) = Inr (bs, status_counts r)"
    unfolding reconcile_Inr by blast
  ultimately show ?thesis using assms unfolding reconcile_Inr by simp
qed

text \<open>
  C34. Settling the stores after a scan. A module leaves the store exactly when eviction is asked for
  and the probe named it absent; the evicted addresses are those, in store order. Every button
  keeps its place and gets the status the classification gives it against the remaining modules; an
  entry that is not a button is untouched, and the counts add up to the number of buttons.
  Settling the settled stores again, with the same absentees, changes neither store.
\<close>

theorem reconcile_settles:
  assumes "reconcile_inventory modules buttons absent evict = Inr (ms, bs, r)"
  shows "ms = filter (\<lambda>m. \<not> is_gone absent evict m) modules \<and>
     evicted r = map (upper \<circ> fst) (filter (is_gone absent evict) modules) \<and>
     remaining r = set (map (upper \<circ> fst) ms) \<and>
     sum_list (map snd (status_counts r)) = button_count buttons \<and>
     list_all2 (\<lambda>(a, v) (a', v'). a' = a \<and> (case as_dict v of None \<Rightarrow> v' = v
       | Some phys \<Rightarrow> \<exists>st. classify_button_status phys (remaining r) (has_pc_logic r) = Inr st \<and>
           v' = PDict (file_button st phys))) buttons bs \<and>
     reconcile_inventory ms bs absent evict = Inr (ms, bs, r\<lparr>evicted := []\<rparr>)"
proof -
  from assms have f: "file_buttons (remaining r) (has_pc_logic r) buttons (status_counts new_reconciliation) =
      Inr (bs, status_counts r)"
    unfolding reconcile_Inr by (elim conjE)
  have "sum_list (map snd (status_counts r)) = button_count buttons"
    using file_buttons_facts[OF f] by (simp add: new_reconciliation_def)
  then show ?thesis using file_buttons_facts[OF f] reconcile_again[OF assms] assms
    unfolding reconcile_Inr by blast
qed

definition example_plate :: "string \<Rightarrow> pydict" where
  \<comment> \<open>a plate whose key 1A drives channel 1 of a module\<close>
  "example_plate md = [(''legacy_keep'', PBool True), (''operation_points'', PDict [(''1A'', PDict [(''bus_address'', PStr ''8EC5A8''),
     (''linked_modules'', PList [PDict [(''module_address'', PStr md), (''outputs'', PList [PDict [(''channel'', PInt 1),
       (''mode'', PStr ''M02 (On)'')]])]])])])]"

definition example_settled :: "pydict \<times> pydict \<times> inventory_reconciliation" where
  "example_settled = ([(''0E6C'', PDict [])],
     [(''1D2F31'', PDict (dict_pop (example_plate ''0e6c'') ''legacy_keep'' @ [(''status'', PStr ''active'')])),
      (''1D2F32'', PDict (example_plate ''9105'' @ [(''status'', PStr ''legacy_orphan'')]))],
     \<lparr>evicted = [''9105''], remaining = {''0E6C''}, has_pc_logic = False,
      status_counts = [(''active'', 1), (''legacy_orphan'', 1), (''legacy_undecoded'', 0), (''synthesized_input'', 0),
        (''input_only'', 0)]\<rparr>)"

lemma example_reconciled:
  "reconcile_inventory [(''0E6C'', PDict []), (''9105'', PDict [])]
     [(''1D2F31'', PDict (example_plate ''0e6c'')), (''1D2F32'', PDict (example_plate ''9105''))] [''9105''] True =
   Inr (fst example_settled, fst (snd example_settled), snd (snd example_settled))"
proof -
  have c: "classify_button_status (example_plate md) rem logic =
      Inr (if upper md \<in> rem then STATUS_ACTIVE else STATUS_LEGACY_ORPHAN)" if "md \<noteq> []" for md rem logic
    using that by (simp add: classify_button_status_def example_plate_def py_true_def py_in_def
      collect_button_linked_modules_def collect_button_outputs_def op_points_def op_point_items_def
      links_of_def outputs_of_def linked_module_def all_outputs_registry_sourced_def REGISTRY_SOURCES_def py_str_def
      cong: if_cong)
  have u: "upper ''0e6c'' = ''0E6C''" "upper ''9105'' = ''9105''" "upper ''0E6C'' = ''0E6C''"
    by (simp_all add: upper_def eval_simps)
  have f: "file_button STATUS_ACTIVE (example_plate md) = dict_pop (example_plate md) ''legacy_keep'' @ [(''status'', PStr ''active'')]"
    "file_button STATUS_LEGACY_ORPHAN (example_plate md) = example_plate md @ [(''status'', PStr ''legacy_orphan'')]" for md
    by (simp_all add: file_button_def status_names LEGACY_STATUSES_def LEGACY_KEEP_KEY_def example_plate_def
      dict_set_def dict_pop_def)
  show ?thesis
    by (simp add: reconcile_Inr example_settled_def is_gone_def c u f has_pc_logic_module_def or_empty_def
      count_status_def new_reconciliation_def) (simp add: status_names)
qed

theorem reconcile_settles_witness:
  "reconcile_inventory [(''0E6C'', PDict []), (''9105'', PDict [])]
     [(''1D2F31'', PDict (example_plate ''0e6c'')), (''1D2F32'', PDict (example_plate ''9105''))] [''9105''] True =
     Inr (fst example_settled, fst (snd example_settled), snd (snd example_settled)) \<and>
   reconcile_inventory (fst example_settled) (fst (snd example_settled)) [''9105''] True =
     Inr (fst example_settled, fst (snd example_settled), (snd (snd example_settled))\<lparr>evicted := []\<rparr>)"
  using reconcile_settles[OF example_reconciled] example_reconciled by blast

subsection \<open>Applying the links of a project file twice\<close>

lemma dict_get_is_dict: "dict_get d k = PDict v \<Longrightarrow> map_of d k = Some (PDict v)"
  using dict_get_map_of[of d k] by simp

lemma fill_block_settled: "fill_block l d = d \<longleftrightarrow> (\<exists>outs. map_of d ''outputs'' = Some (PList outs) \<and> list_ex drives_channel_1 outs)"
proof
  assume f: "fill_block l d = d"
  define outs where "outs = (case as_list (dict_get d ''outputs'') of None \<Rightarrow> [] | Some os \<Rightarrow> os)"
  have "map_of (fill_block l d) ''outputs'' =
      Some (PList (if list_ex drives_channel_1 outs then outs else outs @ [rgb_output l]))"
    by (simp add: fill_block_def outs_def Let_def)
  with f have m: "map_of d ''outputs'' = Some (PList (if list_ex drives_channel_1 outs then outs else outs @ [rgb_output l]))"
    by simp
  then have e: "as_list (dict_get d ''outputs'') =
      Some (if list_ex drives_channel_1 outs then outs else outs @ [rgb_output l])"
    by (simp add: dict_get_def)
  have "outs = (if list_ex drives_channel_1 outs then outs else outs @ [rgb_output l])"
    by (subst outs_def) (simp only: e option.case)
  with m show "\<exists>outs. map_of d ''outputs'' = Some (PList outs) \<and> list_ex drives_channel_1 outs"
    by (auto split: if_splits)
next
  assume "\<exists>outs. map_of d ''outputs'' = Some (PList outs) \<and> list_ex drives_channel_1 outs"
  then show "fill_block l d = d"
    by (auto simp: fill_block_def dict_get_def intro!: dict_set_same)
qed

lemma drives_rgb_output [simp]: "drives_channel_1 (rgb_output l)"
  by (simp add: drives_channel_1_def rgb_output_def)

lemma fill_block_fills [simp]: "fill_block k (fill_block l d) = fill_block l d"
proof -
  have "\<exists>outs. map_of (fill_block l d) ''outputs'' = Some (PList outs) \<and> list_ex drives_channel_1 outs"
    by (simp add: fill_block_def Let_def)
  then show ?thesis using fill_block_settled by blast
qed

lemma fill_block_address [simp]: "dict_get (fill_block l d) ''module_address'' = dict_get d ''module_address''"
  by (simp add: fill_block_def Let_def)

lemma is_block_filled [simp]: "is_block_of a (PDict (fill_block l d)) = is_block_of a (PDict d)"
  by (simp add: is_block_of_def)

lemma is_block_dict: "is_block_of a b \<Longrightarrow> \<exists>d. b = PDict d"
  by (simp add: is_block_of_def split: option.splits)

lemma fill_first_idem: "upper a = a \<Longrightarrow> fill_first a l (fill_first a l bs) = fill_first a l bs"
proof (induction bs)
  case Nil
  then show ?case by (simp add: is_block_of_def)
next
  case (Cons b bs)
  then show ?case using is_block_dict[of a b] by auto
qed

lemma fill_first_stays: "fill_first a l bs = bs \<Longrightarrow> fill_first a l (fill_first c k bs) = fill_first c k bs"
proof (induction bs)
  case Nil
  then show ?case by simp
next
  case (Cons b bs)
  show ?case
  proof (cases "is_block_of c b")
    case True
    then obtain d where "b = PDict d" using is_block_dict by blast
    with True Cons.prems show ?thesis by (auto split: if_splits)
  next
    case False
    with Cons show ?thesis by (auto split: if_splits)
  qed
qed

definition blocks_of :: "pydict \<Rightarrow> pyval list" where
  "blocks_of op = (case as_list (dict_get op ''linked_modules'') of None \<Rightarrow> [] | Some bs \<Rightarrow> bs)"

lemma link_op_point_alt: "link_op_point a l op = dict_set op ''linked_modules'' (PList (fill_first a l (blocks_of op)))"
  by (simp add: link_op_point_def blocks_of_def)

lemma blocks_of_linked [simp]: "blocks_of (link_op_point a l op) = fill_first a l (blocks_of op)"
  by (simp add: link_op_point_alt blocks_of_def)

lemma link_op_point_settled:
  "link_op_point a l op = op \<longleftrightarrow> map_of op ''linked_modules'' = Some (PList (fill_first a l (blocks_of op)))"
proof
  assume "link_op_point a l op = op"
  then show "map_of op ''linked_modules'' = Some (PList (fill_first a l (blocks_of op)))"
    by (metis link_op_point_alt map_of_dict_set)
qed (simp add: link_op_point_alt dict_set_same)

lemma link_op_point_linked [simp]:
  "map_of (link_op_point a l op) ''linked_modules'' = Some (PList (fill_first a l (blocks_of op)))"
  by (simp add: link_op_point_alt)

lemma link_op_point_idem: "upper a = a \<Longrightarrow> link_op_point a l (link_op_point a l op) = link_op_point a l op"
  by (simp add: link_op_point_settled fill_first_idem)

lemma link_op_point_stays:
  assumes "link_op_point a l op = op"
  shows "link_op_point a l (link_op_point c k op) = link_op_point c k op"
proof -
  have "fill_first a l (blocks_of op) = blocks_of op"
    using assms by (metis blocks_of_linked)
  then show ?thesis by (simp add: link_op_point_settled fill_first_stays)
qed

definition key_point :: "string \<Rightarrow> string \<Rightarrow> pydict \<Rightarrow> pydict option" where
  \<comment> \<open>the operation point of a plate's key\<close>
  "key_point plate key buttons = Option.bind (as_dict (dict_get buttons plate)) (\<lambda>phys.
     Option.bind (as_dict (dict_get phys ''operation_points'')) (\<lambda>ops. as_dict (dict_get ops key)))"

definition set_key_point :: "string \<Rightarrow> string \<Rightarrow> pydict \<Rightarrow> pydict \<Rightarrow> pydict" where
  "set_key_point plate key buttons op = (case as_dict (dict_get buttons plate) of None \<Rightarrow> buttons
     | Some phys \<Rightarrow> (case as_dict (dict_get phys ''operation_points'') of None \<Rightarrow> buttons
       | Some ops \<Rightarrow> dict_set buttons plate (PDict (dict_set phys ''operation_points'' (PDict (dict_set ops key (PDict op)))))))"

lemma link_plate_alt: "link_plate l bs = (case key_point (upper (rl_button_address l)) (rl_key l) bs of None \<Rightarrow> bs
   | Some op \<Rightarrow> set_key_point (upper (rl_button_address l)) (rl_key l) bs (link_op_point (upper (rl_module_address l)) l op))"
  by (simp add: link_plate_def key_point_def set_key_point_def split: option.split)

lemma set_key_point_same: "key_point p k bs = Some op \<Longrightarrow> set_key_point p k bs op = bs"
  by (auto simp: key_point_def set_key_point_def bind_eq_Some_conv dict_set_same dict_get_is_dict)

lemma key_point_set: "key_point p k bs = Some op0 \<Longrightarrow>
    key_point p' k' (set_key_point p k bs op) = (if p' = p \<and> k' = k then Some op else key_point p' k' bs)"
  by (auto simp: key_point_def set_key_point_def bind_eq_Some_conv)

definition points_to :: "rgb_link \<Rightarrow> pydict \<Rightarrow> pydict option" where
  "points_to l bs = key_point (upper (rl_button_address l)) (rl_key l) bs"

definition link_point :: "rgb_link \<Rightarrow> pydict \<Rightarrow> pydict" where
  "link_point l = link_op_point (upper (rl_module_address l)) l"

lemma points_to_linked: "points_to l (link_plate k bs) =
    (if upper (rl_button_address l) = upper (rl_button_address k) \<and> rl_key l = rl_key k
     then map_option (link_point k) (points_to l bs) else points_to l bs)"
proof (cases "points_to k bs")
  case None
  then show ?thesis by (simp add: points_to_def link_plate_alt)
next
  case (Some op)
  then show ?thesis by (simp add: points_to_def link_plate_alt key_point_set link_point_def)
qed

lemma link_plate_settled:
  "link_plate l bs = bs \<longleftrightarrow> (case points_to l bs of None \<Rightarrow> True | Some op \<Rightarrow> link_point l op = op)"
proof (cases "points_to l bs")
  case None
  then show ?thesis by (simp add: points_to_def link_plate_alt)
next
  case (Some op)
  have "link_point l op = op" if "link_plate l bs = bs"
    using points_to_linked[of l l bs] Some that by simp
  moreover have "link_plate l bs = bs" if "link_point l op = op"
    using Some that by (simp add: points_to_def link_plate_alt link_point_def set_key_point_same)
  ultimately show ?thesis using Some by auto
qed

lemma link_plate_idem: "link_plate l (link_plate l bs) = link_plate l bs"
  by (simp add: link_plate_settled points_to_linked link_point_def link_op_point_idem split: option.split)

lemma link_plate_stays:
  assumes "link_plate l bs = bs"
  shows "link_plate l (link_plate k bs) = link_plate k bs"
  using assms by (auto simp: link_plate_settled points_to_linked link_point_def link_op_point_stays
    split: option.splits)

lemma apply_link_fold:
  "fold (apply_link modules) ls (bs, rs, n) =
     (let known = filter (\<lambda>l. knows_controller modules (upper (rl_module_address l))) ls
      in (fold link_plate known bs, fold note_record known rs, n + length known))"
  by (induction ls arbitrary: bs rs n) (simp_all add: apply_link_def Let_def)

definition recorded :: "pydict \<Rightarrow> rgb_link list \<Rightarrow> rgb_link list" where
  \<comment> \<open>the links to the controllers the module store knows\<close>
  "recorded modules = filter (\<lambda>l. knows_controller modules (upper (rl_module_address l)))"

lemma apply_rgb_links_alt:
  "apply_rgb_links modules buttons links = (let known = recorded modules links in
     (fold write_records (fold note_record known []) modules, fold link_plate known buttons, length known))"
  by (simp add: apply_rgb_links_def apply_link_fold recorded_def Let_def)

lemma knows_written: "knows_controller (write_records ar modules) a = knows_controller modules a"
  by (simp add: knows_controller_def write_records_def del: as_dict_Some split: option.split)

lemma knows_written_all: "knows_controller (fold write_records rs modules) a = knows_controller modules a"
  by (induction rs arbitrary: modules) (simp_all add: knows_written)

lemma note_record_distinct: "distinct (map fst rs) \<Longrightarrow> distinct (map fst (note_record l rs))"
  by (simp add: note_record_def Let_def distinct_update)

lemma noted_distinct: "distinct (map fst rs) \<Longrightarrow> distinct (map fst (fold note_record ls rs))"
  by (induction ls arbitrary: rs) (simp_all add: note_record_distinct)

lemma write_records_settled:
  "write_records ar ms = ms \<longleftrightarrow> (case as_dict (dict_get ms (fst ar)) of None \<Rightarrow> True
     | Some m \<Rightarrow> map_of m ''rgb_links'' = Some (PList (map PDict (snd ar))))"
proof (cases "as_dict (dict_get ms (fst ar))")
  case None
  then show ?thesis by (simp add: write_records_def)
next
  case (Some m)
  let ?m = "dict_set m ''rgb_links'' (PList (map PDict (snd ar)))"
  have g: "dict_get ms (fst ar) = PDict m" using Some by simp
  have "map_of m ''rgb_links'' = Some (PList (map PDict (snd ar)))" if "write_records ar ms = ms"
  proof -
    have "dict_get (write_records ar ms) (fst ar) = PDict ?m" using Some by (simp add: write_records_def)
    with that g have "?m = m" by simp
    then show ?thesis by (metis map_of_dict_set)
  qed
  moreover have "write_records ar ms = ms" if "map_of m ''rgb_links'' = Some (PList (map PDict (snd ar)))"
    using that g by (simp add: write_records_def dict_set_same dict_get_is_dict)
  ultimately show ?thesis using Some by auto
qed

lemma write_records_again:
  assumes "distinct (map fst rs)"
  shows "fold write_records rs (fold write_records rs ms) = fold write_records rs ms"
proof (rule fold_settles)
  fix ar s assume "ar \<in> set rs"
  show "write_records ar (write_records ar s) = write_records ar s"
    by (simp add: write_records_settled del: as_dict_Some split: option.split)
      (simp add: write_records_def del: as_dict_Some split: option.split)
next
  fix ar br s assume r: "ar \<in> set rs" "br \<in> set rs" "write_records ar s = s"
  show "write_records ar (write_records br s) = write_records br s"
  proof (cases "fst ar = fst br")
    case True
    with r assms have "ar = br" by (metis distinct_map inj_onD)
    with r show ?thesis by simp
  next
    case False
    then have "dict_get (write_records br s) (fst ar) = dict_get s (fst ar)"
      by (simp add: write_records_def split: option.split)
    with r show ?thesis by (simp add: write_records_settled)
  qed
qed

text \<open>
  Writing a project file's colour-controller links into the stores a second time changes
  neither store and reports the same number of applied links.
\<close>

theorem rgb_links_apply_once:
  "let (ms, bs, n) = apply_rgb_links modules buttons links in apply_rgb_links ms bs links = (ms, bs, n)"
proof -
  define known where "known = recorded modules links"
  define rs where "rs = fold note_record known []"
  have again: "recorded (fold write_records rs modules) links = known"
    by (simp add: known_def recorded_def knows_written_all)
  have "fold write_records rs (fold write_records rs modules) = fold write_records rs modules"
    by (rule write_records_again) (simp add: rs_def noted_distinct)
  moreover have "fold link_plate known (fold link_plate known buttons) = fold link_plate known buttons"
    by (rule fold_settles) (simp_all add: link_plate_idem link_plate_stays)
  ultimately show ?thesis
    by (simp add: apply_rgb_links_alt Let_def again flip: known_def rs_def)
qed

subsection \<open>The index of what controls an output\<close>

lemma in_map_filter: "y \<in> set (List.map_filter f xs) \<longleftrightarrow> (\<exists>x\<in>set xs. f x = Some y)"
  by (induction xs) (auto simp: List.map_filter_simps split: option.split)

lemma fold_file_under:
  "map_of (fold file_under es index) k =
     (let vs = (case map_of index k of None \<Rightarrow> [] | Some vs \<Rightarrow> vs) @ map snd (filter (\<lambda>e. fst e = k) es)
      in if map_of index k = None \<and> vs = [] then None else Some vs)"
proof (induction es arbitrary: index)
  case Nil
  then show ?case by (simp split: option.split)
next
  case (Cons e es)
  then show ?case by (auto simp: file_under_def update_conv' Let_def split: option.splits)
qed

lemma fold_file_under_distinct: "distinct (map fst index) \<Longrightarrow> distinct (map fst (fold file_under es index))"
  by (induction es arbitrary: index) (simp_all add: file_under_def distinct_update)

definition path_to_output :: "pydict option \<Rightarrow> string \<Rightarrow> string \<Rightarrow> pydict \<Rightarrow> string \<Rightarrow> pydict \<Rightarrow> bool" where
  \<comment> \<open>the button store holds, under a plate and a key label, an operation point with a link to a module
     and an output under it\<close>
  "path_to_output data plate label op md out \<longleftrightarrow> (\<exists>phys links link outs.
     (plate, phys) \<in> set (stored_buttons data) \<and> (label, PDict op) \<in> set (op_point_items phys) \<and>
     links_of op = Inr links \<and> link \<in> set links \<and> py_true (dict_get link ''module_address'') \<and>
     md = upper (py_str (dict_get link ''module_address'')) \<and> outputs_of link = Inr outs \<and> out \<in> set outs)"

lemma in_named: "(k, op) \<in> set (named_op_points phys) \<longleftrightarrow> (k, PDict op) \<in> set (op_point_items phys)"
  by (force simp: named_op_points_def in_map_filter)

lemma in_link_entries:
  "link_entries plate label op link = Inr es \<Longrightarrow>
   (((m, ch), e) \<in> set es \<longleftrightarrow> py_true (dict_get link ''module_address'') \<and> m = upper (py_str (dict_get link ''module_address'')) \<and>
     (\<exists>outs out. outputs_of link = Inr outs \<and> out \<in> set outs \<and> as_int (dict_get out ''channel'') = Some ch \<and>
       e = index_entry plate label op out))"
  by (fastforce simp: link_entries_def Let_def res_bind_Inr_iff in_map_filter split: if_splits)

lemma collect_res_ok: "collect_res f xs = Inr ys \<Longrightarrow> x \<in> set xs \<Longrightarrow> \<exists>zs. f x = Inr zs"
  by (induction xs arbitrary: ys) (auto simp: res_bind_Inr_iff)

definition point_entries :: "string \<Rightarrow> string \<times> pydict \<Rightarrow> ((string \<times> int) \<times> pydict) list res" where
  "point_entries plate = (\<lambda>(label, op). res_bind (links_of op) (collect_res (link_entries plate label op)))"

lemma button_entries_points: "button_entries b = collect_res (point_entries (fst b)) (named_op_points (snd b))"
  by (simp add: button_entries_def point_entries_def)

lemma in_point_entries:
  assumes "point_entries plate (label, op) = Inr es"
  shows "((m, ch), e) \<in> set es \<longleftrightarrow> (\<exists>links link outs out. links_of op = Inr links \<and> link \<in> set links \<and>
     py_true (dict_get link ''module_address'') \<and> m = upper (py_str (dict_get link ''module_address'')) \<and>
     outputs_of link = Inr outs \<and> out \<in> set outs \<and> as_int (dict_get out ''channel'') = Some ch \<and>
     e = index_entry plate label op out)" (is "_ \<longleftrightarrow> ?r")
proof -
  from assms obtain links where l: "links_of op = Inr links"
    and c: "collect_res (link_entries plate label op) links = Inr es"
    by (auto simp: point_entries_def res_bind_Inr_iff)
  show ?thesis
  proof
    assume "((m, ch), e) \<in> set es"
    then obtain link us where u: "link \<in> set links" "link_entries plate label op link = Inr us" "((m, ch), e) \<in> set us"
      unfolding collect_res_set[OF c] by blast
    from u(3) show ?r unfolding in_link_entries[OF u(2)] using l u(1) by blast
  next
    assume ?r
    then obtain link where k: "link \<in> set links" and r: "py_true (dict_get link ''module_address'') \<and>
        m = upper (py_str (dict_get link ''module_address'')) \<and> (\<exists>outs out. outputs_of link = Inr outs \<and>
          out \<in> set outs \<and> as_int (dict_get out ''channel'') = Some ch \<and> e = index_entry plate label op out)"
      using l by auto
    obtain us where u: "link_entries plate label op link = Inr us" using collect_res_ok[OF c k] by blast
    from r have "((m, ch), e) \<in> set us" unfolding in_link_entries[OF u] .
    with k u show "((m, ch), e) \<in> set es" unfolding collect_res_set[OF c] by blast
  qed
qed

lemma in_index_entries:
  assumes c: "collect_res button_entries (stored_buttons data) = Inr es"
  shows "((m, ch), e) \<in> set es \<longleftrightarrow> (\<exists>plate label op out. path_to_output data plate label op m out \<and>
     as_int (dict_get out ''channel'') = Some ch \<and> e = index_entry plate label op out)"
    (is "?l \<longleftrightarrow> ?r")
proof
  assume ?l
  then obtain plate phys zs where b: "(plate, phys) \<in> set (stored_buttons data)"
      "button_entries (plate, phys) = Inr zs" "((m, ch), e) \<in> set zs"
    unfolding collect_res_set[OF c] by auto
  then obtain label op ws where p: "(label, op) \<in> set (named_op_points phys)"
      "point_entries plate (label, op) = Inr ws" "((m, ch), e) \<in> set ws"
    using collect_res_set[of "point_entries plate" "named_op_points phys" zs]
    by (auto simp: button_entries_points)
  from b p show ?r unfolding path_to_output_def in_point_entries[OF p(2)] in_named by blast
next
  assume ?r
  then obtain plate label op out phys links link outs where
      s: "(plate, phys) \<in> set (stored_buttons data)" and n: "(label, op) \<in> set (named_op_points phys)"
    and o: "as_int (dict_get out ''channel'') = Some ch" "e = index_entry plate label op out" "links_of op = Inr links"
      "link \<in> set links" "py_true (dict_get link ''module_address'')" "outputs_of link = Inr outs"
      "out \<in> set outs" "m = upper (py_str (dict_get link ''module_address''))"
    unfolding path_to_output_def in_named by blast
  obtain zs where z: "button_entries (plate, phys) = Inr zs" using collect_res_ok[OF c s] by blast
  then have cz: "collect_res (point_entries plate) (named_op_points phys) = Inr zs"
    by (simp add: button_entries_points)
  obtain ws where w: "point_entries plate (label, op) = Inr ws" using collect_res_ok[OF cz n] by blast
  have "((m, ch), e) \<in> set ws" unfolding in_point_entries[OF w] using o by blast
  then have "((m, ch), e) \<in> set zs" unfolding collect_res_set[OF cz] using n w by blast
  then show ?l unfolding collect_res_set[OF c] using s z by blast
qed

text \<open>
  C35. The index of what controls an output: each pair of module and channel occurs once, none is
  listed without a key, and an entry stands under a pair exactly when the button store holds a plate
  with an operation point whose link to that module has an output on that channel; the entry names
  that plate, key and output.
\<close>

theorem controlled_by_index_complete:
  assumes "build_controlled_by_index data = Inr index"
  shows "distinct (map fst index) \<and> (\<forall>k. map_of index k \<noteq> Some []) \<and>
    (\<forall>m ch e. (\<exists>es. map_of index (m, ch) = Some es \<and> e \<in> set es) \<longleftrightarrow>
       (\<exists>plate label op out. path_to_output data plate label op m out \<and>
          as_int (dict_get out ''channel'') = Some ch \<and> e = index_entry plate label op out))"
proof -
  from assms obtain es where c: "collect_res button_entries (stored_buttons data) = Inr es"
    and i: "index = fold file_under es []"
    by (auto simp: build_controlled_by_index_def res_bind_Inr_iff)
  have m: "map_of index k = (let vs = map snd (filter (\<lambda>e. fst e = k) es) in if vs = [] then None else Some vs)" for k
    by (simp add: i fold_file_under)
  have "(\<exists>vs. map_of index (md, ch) = Some vs \<and> e \<in> set vs) \<longleftrightarrow> ((md, ch), e) \<in> set es" for md ch e
    by (force simp: m Let_def filter_empty_conv)
  moreover have "map_of index k \<noteq> Some []" for k by (simp add: m Let_def)
  ultimately show ?thesis using fold_file_under_distinct[of "[]" es] in_index_entries[OF c] by (simp add: i)
qed

definition example_index :: "((string \<times> int) \<times> pydict list) list" where
  "example_index = [((''0E6C'', 1), [index_entry ''1D2F31'' ''1A''
     [(''bus_address'', PStr ''8EC5A8''), (''linked_modules'', PList [PDict [(''module_address'', PStr ''0e6c''),
       (''outputs'', PList [PDict [(''channel'', PInt 1), (''mode'', PStr ''M02 (On)'')]])]])]
     [(''channel'', PInt 1), (''mode'', PStr ''M02 (On)'')]])]"

lemma example_indexed:
  "build_controlled_by_index (Some [(''nikobus_button'', PDict [(''1D2F31'', PDict (example_plate ''0e6c''))])]) =
     Inr example_index"
  by (simp add: build_controlled_by_index_def stored_buttons_def or_empty_def button_entries_points point_entries_def
    named_op_points_def op_point_items_def example_plate_def links_of_def link_entries_def py_true_def outputs_of_def
    List.map_filter_simps example_index_def file_under_def upper_def eval_simps py_str_def)

theorem controlled_by_index_complete_witness:
  "build_controlled_by_index (Some [(''nikobus_button'', PDict [(''1D2F31'', PDict (example_plate ''0e6c''))])]) =
     Inr example_index \<and> distinct (map fst example_index) \<and> (\<forall>k. map_of example_index k \<noteq> Some [])"
  using controlled_by_index_complete[OF example_indexed] example_indexed by blast

subsection \<open>The members of a shutter function\<close>

definition cover_key :: "pyval \<Rightarrow> (string \<times> int) option" where
  \<comment> \<open>the module and channel of a shutter output\<close>
  "cover_key v = (case as_dict v of None \<Rightarrow> None
     | Some out \<Rightarrow> (case (as_str (dict_get out ''module_address''), as_int (dict_get out ''channel'')) of
         (Some md, Some ch) \<Rightarrow> if is_roller_member (dict_get out ''mode'') then Some (upper md, ch) else None
       | _ \<Rightarrow> None))"

definition first_sightings :: "'a list \<Rightarrow> 'a list" where
  "first_sightings xs = rev (remdups (rev xs))"

lemma first_sightings_snoc [simp]:
  "first_sightings [] = []" "first_sightings (xs @ [x]) = (if x \<in> set xs then first_sightings xs else first_sightings xs @ [x])"
  by (simp_all add: first_sightings_def)

lemma set_first_sightings [simp]: "set (first_sightings xs) = set xs"
  by (simp add: first_sightings_def)

lemma update_keys: "map fst (AList.update k v xs) = (if k \<in> fst ` set xs then map fst xs else map fst xs @ [k])"
  by (induction xs) auto

lemma add_cover_keys: "map fst (add_cover v ms) =
    (case cover_key v of None \<Rightarrow> map fst ms | Some k \<Rightarrow> if k \<in> fst ` set ms then map fst ms else map fst ms @ [k])"
  by (auto simp: add_cover_def cover_key_def Let_def update_keys split: option.splits)

lemma cover_keys: "map fst (fold add_cover vs []) = first_sightings (List.map_filter cover_key vs)"
proof (induction vs rule: rev_induct)
  case Nil
  then show ?case by (simp add: List.map_filter_simps)
next
  case (snoc v vs)
  then have "fst ` set (fold add_cover vs []) = set (List.map_filter cover_key vs)"
    by (metis list.set_map set_first_sightings)
  with snoc show ?case by (simp add: add_cover_keys List.map_filter_def split: option.split)
qed

definition opens :: "pydict \<Rightarrow> bool" where
  "opens out = contains (lower (py_str (dict_get out ''mode''))) ''open''"

definition closes :: "pydict \<Rightarrow> bool" where
  "closes out = (let text = lower (py_str (dict_get out ''mode'')) in contains text ''close'' \<or> contains text ''stop'')"

definition first_given :: "pyval list \<Rightarrow> pyval" where
  "first_given ts = (case filter (\<lambda>t. t \<noteq> PNone) ts of [] \<Rightarrow> PNone | t # _ \<Rightarrow> t)"

lemma first_given_snoc [simp]: "first_given [] = PNone"
  "first_given (ts @ [t]) = (if first_given ts = PNone then t else first_given ts)"
proof -
  show "first_given [] = PNone" by (simp add: first_given_def)
  show "first_given (ts @ [t]) = (if first_given ts = PNone then t else first_given ts)"
    by (induction ts) (auto simp: first_given_def)
qed

definition first_time :: "(pydict \<Rightarrow> bool) \<Rightarrow> string \<times> int \<Rightarrow> pyval list \<Rightarrow> pyval" where
  \<comment> \<open>the first run time given by a record of the channel for the direction, if any\<close>
  "first_time dir k vs = first_given (map (\<lambda>d. dict_get d ''t1'')
     (filter dir (dicts_of (filter (\<lambda>v. cover_key v = Some k) vs))))"

definition first_channel :: "string \<times> int \<Rightarrow> pyval list \<Rightarrow> pyval" where
  \<comment> \<open>the channel as the first record of the pair spells it\<close>
  "first_channel k vs = (case dicts_of (filter (\<lambda>v. cover_key v = Some k) vs) of [] \<Rightarrow> PNone
     | d # _ \<Rightarrow> dict_get d ''channel'')"

lemma dicts_of_append [simp]: "dicts_of (xs @ ys) = dicts_of xs @ dicts_of ys"
  by (induction xs) (auto split: option.split)

lemma first_time_snoc: "first_time dir k (vs @ [v]) =
    (if cover_key v = Some k \<and> (\<exists>d. v = PDict d \<and> dir d) \<and> first_time dir k vs = PNone
     then dict_get (the (as_dict v)) ''t1'' else first_time dir k vs)"
  by (auto simp: first_time_def as_dict_def split: pyval.split)

lemma cover_key_dict: "cover_key v = Some k \<Longrightarrow> \<exists>d. v = PDict d"
  by (cases v) (simp_all add: cover_key_def)

lemma first_channel_snoc: "first_channel k (vs @ [v]) =
    (if cover_key v = Some k \<and> k \<notin> set (List.map_filter cover_key vs) then dict_get (the (as_dict v)) ''channel''
     else first_channel k vs)"
proof (cases "k \<in> set (List.map_filter cover_key vs)")
  case True
  then obtain w where w: "w \<in> set vs" "cover_key w = Some k" by (auto simp: in_map_filter)
  moreover obtain d where "w = PDict d" using cover_key_dict[OF w(2)] by blast
  ultimately have "d \<in> set (dicts_of (filter (\<lambda>v. cover_key v = Some k) vs))" by simp
  then have "dicts_of (filter (\<lambda>v. cover_key v = Some k) vs) \<noteq> []"
    by (metis empty_iff list.set(1))
  with True show ?thesis by (auto simp: first_channel_def split: list.split option.split)
next
  case False
  then have "filter (\<lambda>v. cover_key v = Some k) vs = []" by (auto simp: filter_empty_conv in_map_filter)
  with False cover_key_dict[of v k] show ?thesis by (auto simp: first_channel_def)
qed

definition cover_of :: "pyval list \<Rightarrow> string \<times> int \<Rightarrow> cover_member" where
  "cover_of vs k = \<lparr>cover_module = fst k, cover_channel = first_channel k vs,
     open_time = first_time opens k vs, close_time = first_time closes k vs\<rparr>"

lemma first_time_none: "k \<notin> set (List.map_filter cover_key vs) \<Longrightarrow> first_time dir k vs = PNone"
  by (auto simp: first_time_def in_map_filter cong: filter_cong)

definition give_times :: "pydict \<Rightarrow> cover_member \<Rightarrow> cover_member" where
  "give_times d m = m\<lparr>open_time := (if opens d \<and> open_time m = PNone then dict_get d ''t1'' else open_time m),
     close_time := (if closes d \<and> close_time m = PNone then dict_get d ''t1'' else close_time m)\<rparr>"

lemma add_cover_alt:
  assumes "cover_key (PDict d) = Some k"
  shows "add_cover (PDict d) ms = AList.update k (give_times d (case map_of ms k of Some m \<Rightarrow> m
     | None \<Rightarrow> \<lparr>cover_module = fst k, cover_channel = dict_get d ''channel'', open_time = PNone, close_time = PNone\<rparr>)) ms"
  using assms by (auto simp: add_cover_def cover_key_def give_times_def Let_def opens_def closes_def split: option.splits)

lemma cover_of_snoc:
  assumes "cover_key (PDict d) = Some k"
  shows "cover_of (vs @ [PDict d]) k = give_times d (if k \<in> set (List.map_filter cover_key vs) then cover_of vs k
     else \<lparr>cover_module = fst k, cover_channel = dict_get d ''channel'', open_time = PNone, close_time = PNone\<rparr>)"
  using assms first_time_none[of k vs]
  by (simp add: cover_of_def give_times_def first_time_snoc first_channel_snoc)

lemma add_cover_none: "cover_key v = None \<Longrightarrow> add_cover v ms = ms"
  by (auto simp: add_cover_def cover_key_def Let_def split: option.splits)

lemma cover_of_other: "cover_key v \<noteq> Some k \<Longrightarrow> cover_of (vs @ [v]) k = cover_of vs k"
  by (simp add: cover_of_def first_time_snoc first_channel_snoc)

lemma set_map_filter_snoc:
  "set (List.map_filter f (xs @ [x])) = set (List.map_filter f xs) \<union> set_option (f x)"
  by (auto simp: in_map_filter)

lemma covers_map_of:
  "map_of (fold add_cover vs []) k = (if k \<in> set (List.map_filter cover_key vs) then Some (cover_of vs k) else None)"
proof (induction vs arbitrary: k rule: rev_induct)
  case Nil
  then show ?case by (simp add: List.map_filter_simps)
next
  case (snoc v vs)
  show ?case
  proof (cases "cover_key v")
    case None
    then show ?thesis by (simp add: add_cover_none snoc cover_of_other set_map_filter_snoc)
  next
    case (Some c)
    then obtain d where d: "v = PDict d" using cover_key_dict by blast
    have c: "cover_key (PDict d) = Some c" using Some d by simp
    show ?thesis unfolding d set_map_filter_snoc c
      by (cases "k = c") (simp_all add: add_cover_alt[OF c] update_conv' snoc cover_of_snoc[OF c] cover_of_other c)
  qed
qed

lemma alist_by_keys: "distinct (map fst xs) \<Longrightarrow> map snd xs = map (\<lambda>k. the (map_of xs k)) (map fst xs)"
  by (simp only: map_map map_eq_conv) (auto simp: map_of_is_SomeI)

text \<open>
  The members of a shutter function: one cover for each pair of module and channel some shutter
  output names, in the order of first sighting, with the first open time and the first close time the
  outputs of that pair give for each direction.
\<close>

theorem cover_members_by_channel:
  assumes "iter_or_empty (dict_get (or_empty cf) ''outputs'') = Inr vs"
  shows "cf_cover_members cf = Inr (map (cover_of vs) (first_sightings (List.map_filter cover_key vs))) \<and>
    distinct (first_sightings (List.map_filter cover_key vs))"
proof -
  let ?keys = "first_sightings (List.map_filter cover_key vs)"
  have d: "distinct ?keys" by (simp add: first_sightings_def)
  have "map snd (fold add_cover vs []) = map (\<lambda>k. the (map_of (fold add_cover vs []) k)) ?keys"
    using alist_by_keys[of "fold add_cover vs []"] d by (simp add: cover_keys)
  also have "\<dots> = map (cover_of vs) ?keys" by (simp add: covers_map_of)
  finally show ?thesis using assms d by (simp add: cf_cover_members_def)
qed

definition example_function :: pydict where
  "example_function = [(''outputs'', PList [
     PDict [(''module_address'', PStr ''9105''), (''channel'', PInt 2), (''mode'', PStr ''M02 (Open)''), (''t1'', PStr ''30s'')],
     PDict [(''module_address'', PStr ''0e6c''), (''channel'', PInt 1), (''mode'', PStr ''M01 (On)''), (''t1'', PNone)],
     PDict [(''module_address'', PStr ''9105''), (''channel'', PInt 2), (''mode'', PStr ''M03 (Close)''), (''t1'', PStr ''25s'')]])]"

theorem cover_members_by_channel_witness:
  "cf_cover_members (Some example_function) =
     Inr [\<lparr>cover_module = ''9105'', cover_channel = PInt 2, open_time = PStr ''30s'', close_time = PStr ''25s''\<rparr>]"
proof -
  have "iter_or_empty (dict_get (or_empty (Some example_function)) ''outputs'') = Inr (case as_list (dict_get example_function ''outputs'') of
      Some vs \<Rightarrow> vs | None \<Rightarrow> [])"
    by (simp add: or_empty_def example_function_def)
  note c = cover_members_by_channel[OF this]
  have "(let vs = (case as_list (dict_get example_function ''outputs'') of Some vs \<Rightarrow> vs | None \<Rightarrow> [])
      in map (cover_of vs) (first_sightings (List.map_filter cover_key vs))) =
      [\<lparr>cover_module = ''9105'', cover_channel = PInt 2, open_time = PStr ''30s'', close_time = PStr ''25s''\<rparr>]"
    by code_simp
  with c show ?thesis by (simp add: Let_def)
qed

end
