(* ===== verification/Plate_Keys.thy ===== *)
theory Plate_Keys
  imports PyIter Addresses Scan_Plan
begin

section \<open>The keys of the plates in the button store\<close>

text \<open>
  \<open>discovery/fileio.py\<close>, the functions a stored plate's keys are found by: the labels of the
  keys against the key indices of the link records, the search for the key that sends a bus address,
  the two layouts of a two-button plate, and the address an infrared receiver sends for a code.
  A key index that is looked up in a table is hashable, as the keys of the discovery's mapping are.
\<close>

definition normalize_address :: "pyval \<Rightarrow> string" where
  "normalize_address v = (case as_str v of None \<Rightarrow> [] | Some s \<Rightarrow> upper (py_strip s))"

fun key_of_value :: "('k \<times> string) list \<Rightarrow> string \<Rightarrow> 'k option" where
  \<comment> \<open>the first key a table maps to a value\<close>
  "key_of_value [] h = None"
| "key_of_value ((k, v) # kvs) h = (if v = h then Some k else key_of_value kvs h)"

definition layout_tables :: "pyval \<Rightarrow> ((string \<times> string) list \<times> (int \<times> string) list) option" where
  \<comment> \<open>the label table and the index table of a channel count, when it has both\<close>
  "layout_tables channels = (case py_int channels of None \<Rightarrow> None
     | Some n \<Rightarrow> (case (map_of KEY_MAPPING n, map_of KEY_MAPPING_MODULE n) of
           (Some labels, Some raws) \<Rightarrow> if labels = [] \<or> raws = [] then None else Some (labels, raws)
         | _ \<Rightarrow> None))"

definition key_label_to_raw :: "pyval \<Rightarrow> pyval \<Rightarrow> int option" where
  "key_label_to_raw channels key_label = (case as_str key_label of None \<Rightarrow> None
     | Some s \<Rightarrow> if py_strip s = [] then None
         else (case layout_tables channels of None \<Rightarrow> None
           | Some (labels, raws) \<Rightarrow> (case map_of labels (py_strip s) of None \<Rightarrow> None
               | Some h \<Rightarrow> key_of_value raws h)))"

definition key_raw_to_label :: "pyval \<Rightarrow> pyval \<Rightarrow> string option" where
  "key_raw_to_label channels key_no = (case layout_tables channels of None \<Rightarrow> None
     | Some (labels, raws) \<Rightarrow> (case Option.bind (as_int key_no) (map_of raws) of None \<Rightarrow> None
         | Some h \<Rightarrow> key_of_value labels h))"

subsection \<open>Finding an operation point\<close>

type_synonym op_point_at = "string \<times> string \<times> pydict"

definition the_buttons :: "pydict \<Rightarrow> pydict option" where
  "the_buttons button_data = as_dict (dict_get button_data ''nikobus_button'')"

definition ensure_buttons_dict :: "pydict \<Rightarrow> pydict \<times> pydict" where
  \<comment> \<open>the button data with its store made a dictionary, and that store\<close>
  "ensure_buttons_dict button_data = (case the_buttons button_data of
     Some buttons \<Rightarrow> (button_data, buttons)
   | None \<Rightarrow> (dict_set button_data ''nikobus_button'' (PDict []), []))"

fun point_with_address :: "string \<Rightarrow> string \<Rightarrow> (string \<times> pyval) list \<Rightarrow> op_point_at option" where
  "point_with_address target plate [] = None"
| "point_with_address target plate ((key_label, v) # ops) = (case as_dict v of
       Some op_point \<Rightarrow> if normalize_address (dict_get op_point ''bus_address'') = target
         then Some (plate, key_label, op_point) else point_with_address target plate ops
     | None \<Rightarrow> point_with_address target plate ops)"

definition dict_points :: "pydict \<Rightarrow> (string \<times> pyval) list" where
  \<comment> \<open>the operation points of a plate, none when they are no dictionary\<close>
  "dict_points phys = (case as_dict (dict_get phys ''operation_points'') of None \<Rightarrow> [] | Some ops \<Rightarrow> ops)"

fun plate_with_address :: "string \<Rightarrow> (string \<times> pyval) list \<Rightarrow> op_point_at option" where
  "plate_with_address target [] = None"
| "plate_with_address target ((plate, v) # bs) = (case as_dict v of
       Some phys \<Rightarrow> (case point_with_address target plate (dict_points phys) of
           Some r \<Rightarrow> Some r | None \<Rightarrow> plate_with_address target bs)
     | None \<Rightarrow> plate_with_address target bs)"

definition find_operation_point :: "pydict \<Rightarrow> pyval \<Rightarrow> op_point_at option" where
  "find_operation_point button_data bus_address = (case the_buttons button_data of None \<Rightarrow> None
     | Some buttons \<Rightarrow> let target = normalize_address bus_address in
         if target = [] then None else plate_with_address target buttons)"

definition IR_OP_POINT_PREFIX :: string where "IR_OP_POINT_PREFIX = ''IR:''"

definition IR_BANK_TO_KEY_INDEX :: "(char \<times> int) list" where
  "IR_BANK_TO_KEY_INDEX = [(CHR ''C'', 0), (CHR ''A'', 1), (CHR ''D'', 2), (CHR ''B'', 3)]"

definition ir_op_point_key :: "string \<Rightarrow> string" where
  "ir_op_point_key ir_code = IR_OP_POINT_PREFIX @ ir_code"

definition find_ir_operation_point :: "pydict \<Rightarrow> pyval \<Rightarrow> string \<Rightarrow> op_point_at option" where
  "find_ir_operation_point button_data receiver_address ir_code = (case the_buttons button_data of None \<Rightarrow> None
     | Some buttons \<Rightarrow> let receiver = normalize_address receiver_address in
         if receiver = [] \<or> ir_code = [] then None
         else (case as_dict (dict_get buttons receiver) of None \<Rightarrow> None
           | Some physical \<Rightarrow> (case as_dict (dict_get (dict_points physical) (ir_op_point_key ir_code)) of None \<Rightarrow> None
               | Some op_point \<Rightarrow> Some (receiver, ir_op_point_key ir_code, op_point))))"

subsection \<open>Two-button plates\<close>

fun glob :: "string \<Rightarrow> string \<Rightarrow> bool" where
  \<comment> \<open>\<open>fnmatchcase(s, p)\<close> for patterns whose only wildcards are \<open>*\<close> and \<open>?\<close>, as the models' are\<close>
  "glob s [] = (s = [])"
| "glob [] (p # ps) = (p = CHR ''*'' \<and> glob [] ps)"
| "glob (c # s) (p # ps) =
     (if p = CHR ''*'' then glob (c # s) ps \<or> glob s (p # ps)
      else (p = CHR ''?'' \<or> p = c) \<and> glob s ps)"

definition model_patterns :: "string \<Rightarrow> string list" where
  "model_patterns device_type = (case map_of DEVICE_TYPES device_type of None \<Rightarrow> []
     | Some spec \<Rightarrow> filter (\<lambda>p. p \<noteq> []) (map (\<lambda>p. case p of None \<Rightarrow> [] | Some m \<Rightarrow> upper (py_strip m))
         [Some (dt_model spec), dt_model_alt spec, dt_model_alt_legacy spec]))"

definition has_per_plate_key_layout :: "pyval \<Rightarrow> bool" where
  "has_per_plate_key_layout entry = (case as_dict entry of None \<Rightarrow> False
     | Some e \<Rightarrow> if as_int (dict_get e ''channels'') \<noteq> Some 2 then False
         else if upper (str_or_empty (dict_get e ''device_type'')) \<in> set PER_PLATE_LAYOUT_TYPES then True
         else let model = upper (py_strip (str_or_empty (dict_get e ''model''))) in
           if model = [] then False
           else list_ex (\<lambda>t. list_ex (glob model) (model_patterns t)) PER_PLATE_LAYOUT_TYPES)"

definition two_button_bus_addresses :: "string \<Rightarrow> string \<Rightarrow> (string \<times> string) list res" where
  "two_button_bus_addresses physical layout = (let converted = convert_nikobus_address physical in
     case py_int16 (take 1 converted) of None \<Rightarrow> Inl ValueError
     | Some nibble \<Rightarrow> (case map_of TWO_BUTTON_LAYOUTS layout of None \<Rightarrow> Inl KeyError
         | Some offsets \<Rightarrow> map_res (\<lambda>(label, offset). case py_int16 offset of None \<Rightarrow> Inl ValueError
             | Some off \<Rightarrow> Inr (label, fmt_hex 1 ((nibble + off) AND 0xF) @ drop 1 converted)) offsets))"

definition known_two_button_layout :: "pyval \<Rightarrow> string option res" where
  "known_two_button_layout entry = (case as_dict entry of None \<Rightarrow> Inr None
     | Some e \<Rightarrow> res_bind (py_in (dict_get e ''key_layout'') (map fst TWO_BUTTON_LAYOUTS))
         (\<lambda>known. Inr (if known then as_str (dict_get e ''key_layout'') else None)))"

definition push_button_text :: "string \<Rightarrow> string \<Rightarrow> string" where
  "push_button_text label bus = ''Push button '' @ label @ '' #N'' @ bus"

definition move_key :: "string \<Rightarrow> string \<Rightarrow> pydict \<Rightarrow> pydict \<times> bool" where
  \<comment> \<open>a key's operation point put at a bus address, its generated description with it\<close>
  "move_key label bus op = (let previous = upper (str_or_empty (dict_get op ''bus_address'')) in
     if previous = bus then (op, False)
     else let description = dict_get op ''description''; op' = dict_set op ''bus_address'' (PStr bus) in
       (if \<not> py_true description \<or> description = PStr (push_button_text label previous)
        then dict_set op' ''description'' (PStr (push_button_text label bus)) else op', True))"

definition place_key :: "string \<times> string \<Rightarrow> pydict \<times> bool \<Rightarrow> (pydict \<times> bool) res" where
  "place_key = (\<lambda>(label, bus) (ops, changed). let ops' = dict_default ops label (PDict []) in
     (case as_dict (dict_get ops' label) of None \<Rightarrow> Inl AttributeError
      | Some op \<Rightarrow> (case move_key label bus op of (op', moved) \<Rightarrow>
          Inr (dict_set ops' label (PDict op'), changed \<or> moved))))"

definition file_layout :: "string \<Rightarrow> pydict \<times> bool \<Rightarrow> pydict \<times> bool" where
  \<comment> \<open>the layout kept in the entry: the right pair by name, the generic one by no name\<close>
  "file_layout layout = (\<lambda>(entry, changed).
     if layout = TWO_BUTTON_LAYOUT_RIGHT_PAIR
     then (dict_set entry ''key_layout'' (PStr layout), changed \<or> dict_get entry ''key_layout'' \<noteq> PStr layout)
     else if map_of entry ''key_layout'' \<noteq> None then (dict_pop entry ''key_layout'', True)
     else (entry, changed))"

definition apply_two_button_layout :: "string \<Rightarrow> pydict \<Rightarrow> string \<Rightarrow> (pydict \<times> bool) res" where
  "apply_two_button_layout physical entry layout = res_bind (two_button_bus_addresses physical layout) (\<lambda>addresses.
     let entry1 = dict_default entry ''operation_points'' (PDict []) in
     (case as_dict (dict_get entry1 ''operation_points'') of None \<Rightarrow> Inl AttributeError
      | Some ops \<Rightarrow> res_bind (fold_res place_key addresses (ops, False)) (\<lambda>(ops', changed).
          Inr (file_layout layout (dict_set entry1 ''operation_points'' (PDict ops'), changed)))))"

definition REGISTRY_RECORD_SOURCES :: "string list" where
  "REGISTRY_RECORD_SOURCES = [''pc_link_registry'', ''pc_logic_registry'']"

definition from_registry :: "pydict \<Rightarrow> bool" where
  "from_registry out = (case as_str (dict_get out ''record_source'') of None \<Rightarrow> False
     | Some s \<Rightarrow> s \<in> set REGISTRY_RECORD_SOURCES)"

definition note_index :: "string option \<Rightarrow> int \<Rightarrow> pydict \<Rightarrow> (string \<times> int list) list \<Rightarrow> (string \<times> int list) list" where
  \<comment> \<open>the key index an output's record names, under the plate it names\<close>
  "note_index push key out indices = (if from_registry out then indices
     else let own = normalize_address (dict_get out ''button_address'');
            plate = (if own \<noteq> [] then own else normalize_address (opt_str push))
       in if plate = [] then indices
          else AList.update plate (List.insert key (case map_of indices plate of None \<Rightarrow> [] | Some ks \<Rightarrow> ks)) indices)"

definition indices_by_plate :: "command_mapping \<Rightarrow> (string \<times> int list) list" where
  "indices_by_plate mapping = fold (\<lambda>((push, key_no, ir), outs) indices.
     if ir \<noteq> None then indices
     else (case py_int key_no of None \<Rightarrow> indices | Some key \<Rightarrow> fold (note_index push key) outs indices)) mapping []"

definition matching_layouts :: "int list \<Rightarrow> string list" where
  "matching_layouts indices = map fst (filter (\<lambda>(_, family). set indices \<subseteq> set family) TWO_BUTTON_LAYOUT_KEY_INDICES)"

definition settle_plate :: "string \<times> int list \<Rightarrow> pydict \<Rightarrow> pydict res" where
  "settle_plate = (\<lambda>(plate, indices) buttons. case as_dict (dict_get buttons plate) of None \<Rightarrow> Inr buttons
     | Some entry \<Rightarrow> if \<not> has_per_plate_key_layout (PDict entry) then Inr buttons
         else (case matching_layouts indices of
             [layout] \<Rightarrow> res_bind (apply_two_button_layout plate entry layout)
               (\<lambda>(entry', _). Inr (dict_set buttons plate (PDict entry')))
           | _ \<Rightarrow> Inr buttons))"

definition settle_two_button_layouts :: "pydict \<Rightarrow> command_mapping \<Rightarrow> pydict res" where
  "settle_two_button_layouts buttons mapping = fold_res settle_plate (indices_by_plate mapping) buttons"

subsection \<open>Infrared codes\<close>

definition generated_ir_description :: "string \<Rightarrow> string" where
  "generated_ir_description ir_code = ''IR code '' @ ir_code @ '' #I'' @ ir_code"

definition compute_ir_bus_address :: "string \<Rightarrow> string \<Rightarrow> string option" where
  "compute_ir_bus_address receiver_address ir_code =
     (if receiver_address = [] \<or> length ir_code < 2 then None
      else let receiver = upper (py_strip receiver_address) in
        if length receiver \<noteq> 6 then None
        else (case map_of IR_BANK_TO_KEY_INDEX (upper_char (last ir_code)) of None \<Rightarrow> None
          | Some key_index \<Rightarrow> (case py_int10 (butlast ir_code) of None \<Rightarrow> None
            | Some code_no \<Rightarrow> if code_no < 1 \<or> code_no > 39 then None
              else (case py_int16 (last_of 2 receiver) of None \<Rightarrow> None
                | Some base_byte \<Rightarrow> let slot_byte = base_byte + code_no in
                    if slot_byte > 0xFF then None
                    else let converted = convert_nikobus_address (take 4 receiver @ fmt_hex 2 slot_byte) in
                      if length converted \<noteq> 6 then None
                      else (case Option.bind (map_of KEY_MAPPING_MODULE 4) (\<lambda>m. map_of m key_index) of None \<Rightarrow> None
                        | Some add_hex \<Rightarrow> map_option upper (add_first_nibble converted add_hex))))))"

definition ensure_ir_op_point :: "pydict \<Rightarrow> string \<Rightarrow> string \<Rightarrow> pydict" where
  \<comment> \<open>the receiver's entry with the operation point of the code in it\<close>
  "ensure_ir_op_point physical receiver ir_code = (let ops = dict_points physical;
       bus = (case compute_ir_bus_address receiver ir_code of Some (c # cs) \<Rightarrow> [(''bus_address'', PStr (c # cs))] | _ \<Rightarrow> []);
       k = ir_op_point_key ir_code; auto = generated_ir_description ir_code;
       op_point = (case as_dict (dict_get ops k) of
           None \<Rightarrow> [(''ir_code'', PStr ir_code), (''description'', PStr auto)] @ bus
         | Some op \<Rightarrow> let op1 = dict_set op ''ir_code'' (PStr ir_code);
               op2 = fold (\<lambda>(f, v) o'. dict_set o' f v) bus op1;
               desc = dict_get op2 ''description''
             in if \<not> py_true desc \<or> desc = PStr auto then dict_set op2 ''description'' (PStr auto) else op2)
     in dict_set physical ''operation_points'' (PDict (dict_set ops k (PDict op_point))))"

subsection \<open>Labels and key indices\<close>

lemma key_tables_inverse:
  "list_all (\<lambda>c. list_all (\<lambda>k. case key_raw_to_label (PInt c) (PInt k) of None \<Rightarrow> True
     | Some l \<Rightarrow> key_label_to_raw (PInt c) (PStr l) = Some k) [0..7]) (map fst KEY_MAPPING)"
  by code_simp

lemma key_labels_inverse:
  "list_all (\<lambda>(c, m). list_all (\<lambda>(l, h). key_label_to_raw (PInt c) (PStr l) \<noteq> None \<and>
     Option.bind (key_label_to_raw (PInt c) (PStr l)) (\<lambda>k. key_raw_to_label (PInt c) (PInt k)) = Some l) m) KEY_MAPPING"
  by code_simp

lemma module_keys_small: "map_of KEY_MAPPING_MODULE c = Some m \<Longrightarrow> map_of m k = Some h \<Longrightarrow> k \<in> set [0..7]"
proof -
  have "list_all (\<lambda>(c, m). list_all (\<lambda>(k, h). k \<in> set [0..7]) m) KEY_MAPPING_MODULE" by code_simp
  moreover assume "map_of KEY_MAPPING_MODULE c = Some m" "map_of m k = Some h"
  ultimately show ?thesis by (fastforce simp: list_all_iff dest!: map_of_SomeD)
qed

lemma key_raw_to_label_cases:
  assumes "key_raw_to_label (PInt c) (PInt k) = Some l"
  shows "c \<in> set (map fst KEY_MAPPING)" "k \<in> set [0..7]"
proof -
  from assms obtain labels raws h where t: "layout_tables (PInt c) = Some (labels, raws)" "map_of raws k = Some h"
    by (auto simp: key_raw_to_label_def split: option.splits)
  then have m: "map_of KEY_MAPPING c = Some labels" "map_of KEY_MAPPING_MODULE c = Some raws"
    by (auto simp: layout_tables_def py_int_def split: option.splits if_splits)
  from m(1) show "c \<in> set (map fst KEY_MAPPING)" by (force dest: map_of_SomeD)
  from m(2) t(2) show "k \<in> set [0..7]" by (rule module_keys_small)
qed

text \<open>
  For every channel count, the label of a key index reads back as that index, and every label of a
  plate has an index that reads back as the label.
\<close>

theorem key_label_roundtrip:
  "(key_raw_to_label (PInt c) (PInt k) = Some l \<longrightarrow> key_label_to_raw (PInt c) (PStr l) = Some k) \<and>
   (map_of KEY_MAPPING c = Some m \<longrightarrow> map_of m l = Some h \<longrightarrow>
     (\<exists>k. key_label_to_raw (PInt c) (PStr l) = Some k \<and> key_raw_to_label (PInt c) (PInt k) = Some l))"
proof (intro conjI impI)
  assume a: "key_raw_to_label (PInt c) (PInt k) = Some l"
  show "key_label_to_raw (PInt c) (PStr l) = Some k"
    using key_tables_inverse[unfolded list_all_iff, THEN bspec, OF key_raw_to_label_cases(1)[OF a], THEN bspec,
      OF key_raw_to_label_cases(2)[OF a]] a by simp
next
  assume "map_of KEY_MAPPING c = Some m" "map_of m l = Some h"
  then have "key_label_to_raw (PInt c) (PStr l) \<noteq> None \<and>
     Option.bind (key_label_to_raw (PInt c) (PStr l)) (\<lambda>k. key_raw_to_label (PInt c) (PInt k)) = Some l"
    using key_labels_inverse by (auto simp: list_all_iff dest!: map_of_SomeD)
  then show "\<exists>k. key_label_to_raw (PInt c) (PStr l) = Some k \<and> key_raw_to_label (PInt c) (PInt k) = Some l"
    by (auto simp: bind_eq_Some_conv)
qed

theorem key_label_roundtrip_witness:
  "key_raw_to_label (PInt 8) (PInt 4) = Some ''1C'' \<and> key_label_to_raw (PInt 8) (PStr ''1C'') = Some 4"
proof -
  have "key_raw_to_label (PInt 8) (PInt 4) = Some ''1C''" by code_simp
  then show ?thesis using key_label_roundtrip[of 8 4 "''1C''"] by blast
qed

subsection \<open>The two layouts of a two-button plate\<close>

definition layout_index :: "string \<Rightarrow> string \<Rightarrow> int" where
  \<comment> \<open>the key index the records of a plate in a layout name a key by\<close>
  "layout_index layout label = (if layout = TWO_BUTTON_LAYOUT_RIGHT_PAIR then (if label = ''1A'' then 0 else 2)
     else (if label = ''1A'' then 1 else 3))"

lemma add_first_nibble_alt:
  "add_first_nibble converted add = (case (py_int16 (take 1 converted), py_int16 add) of
     (Some nibble, Some a) \<Rightarrow> Some (fmt_hex 1 ((nibble + a) AND 0xF) @ drop 1 converted) | _ \<Rightarrow> None)"
proof (cases converted)
  case Nil
  have "py_int16 [] = None" by code_simp
  with Nil show ?thesis by (simp add: add_first_nibble_def)
qed (simp add: add_first_nibble_def split: option.split)

lemma two_button_frames:
  assumes "two_button_bus_addresses plate layout = Inr addresses"
  shows "layout \<in> {TWO_BUTTON_LAYOUT_GENERIC, TWO_BUTTON_LAYOUT_RIGHT_PAIR} \<and> map fst addresses = [''1A'', ''1B''] \<and>
    (\<forall>(label, bus) \<in> set addresses. record_bus_address plate (Some (layout_index layout label)) = Some bus)"
proof -
  have n: "py_int16 ''8'' = Some 8" "py_int16 ''C'' = Some 12" "py_int16 ''0'' = Some 0" "py_int16 ''4'' = Some 4"
    by (simp_all add: py_int16_hex hex_nat_def)
  from assms obtain nibble offsets where p: "py_int16 (take 1 (convert_nikobus_address plate)) = Some nibble"
    and l: "map_of TWO_BUTTON_LAYOUTS layout = Some offsets"
    by (auto simp: two_button_bus_addresses_def Let_def split: option.splits)
  have "layout \<in> {TWO_BUTTON_LAYOUT_GENERIC, TWO_BUTTON_LAYOUT_RIGHT_PAIR}"
    using l by (auto simp: TWO_BUTTON_LAYOUTS_def split: if_splits)
  then show ?thesis using assms p
    by (auto simp: two_button_bus_addresses_def Let_def TWO_BUTTON_LAYOUTS_def TWO_BUTTON_LAYOUT_GENERIC_def
      TWO_BUTTON_LAYOUT_RIGHT_PAIR_def n layout_index_def record_bus_address_def KEY_MAPPING_MODULE_def add_first_nibble_alt)
qed

lemma layout_index_family:
  assumes "map_of TWO_BUTTON_LAYOUT_KEY_INDICES layout = Some family" "k \<in> set family"
  shows "\<exists>label \<in> {''1A'', ''1B''}. layout_index layout label = k"
  using assms by (auto simp: TWO_BUTTON_LAYOUT_KEY_INDICES_def layout_index_def TWO_BUTTON_LAYOUT_GENERIC_def
    TWO_BUTTON_LAYOUT_RIGHT_PAIR_def split: if_splits)

lemma move_key_bus: "move_key label bus op = (op', moved) \<Longrightarrow> bus = upper bus \<Longrightarrow> bus \<noteq> [] \<Longrightarrow>
    upper (str_or_empty (dict_get op' ''bus_address'')) = bus \<and> move_key label bus op' = (op', False)"
  by (auto simp: move_key_def Let_def split: if_splits)

lemma place_key_facts:
  assumes "place_key (label, bus) (ops, ch) = Inr (ops', ch')" "bus = upper bus" "bus \<noteq> []"
  shows "\<exists>op. map_of ops' label = Some (PDict op) \<and> upper (str_or_empty (dict_get op ''bus_address'')) = bus \<and>
      move_key label bus op = (op, False)"
    and "l \<noteq> label \<Longrightarrow> map_of ops' l = map_of ops l"
proof -
  from assms(1) obtain op op' moved where "move_key label bus op = (op', moved)"
    and o: "ops' = dict_set (dict_default ops label (PDict [])) label (PDict op')"
    by (auto simp: place_key_def Let_def split: option.splits prod.splits)
  with move_key_bus assms(2,3) show "\<exists>op. map_of ops' label = Some (PDict op) \<and>
      upper (str_or_empty (dict_get op ''bus_address'')) = bus \<and> move_key label bus op = (op, False)"
    by simp
  show "l \<noteq> label \<Longrightarrow> map_of ops' l = map_of ops l" by (simp add: o dict_default_map_of)
qed

lemma place_key_again:
  assumes "map_of ops label = Some (PDict op)" "move_key label bus op = (op, False)"
  shows "place_key (label, bus) (ops, ch) = Inr (ops, ch)"
  using assms by (simp add: place_key_def dict_default_def dict_get_def dict_set_same)

lemma convert_hexw:
  assumes "py_int16 t = Some p" "0 \<le> p" "p \<le> 0xFFFFFF"
  shows "\<exists>v. convert_nikobus_address t = hexw 6 v"
proof -
  have s: "drop_bit 21 p AND 7 \<le> 7" by (rule AND_upper2) simp
  have r: "0 \<le> reverse_bits p 21" "reverse_bits p 21 < 2097152" using reverse_bits_bounds[of p 21] by simp_all
  have d: "0 \<le> drop_bit 21 p AND 7" by simp
  have b: "0 \<le> push_bit 1 (reverse_bits p 21) + (drop_bit 21 p AND 7)"
      "push_bit 1 (reverse_bits p 21) + (drop_bit 21 p AND 7) < 2 ^ (4 * 6)"
  proof -
    have "reverse_bits p 21 * 2 + (drop_bit 21 p AND 7) < 16777216" using r s by linarith
    then show "push_bit 1 (reverse_bits p 21) + (drop_bit 21 p AND 7) < 2 ^ (4 * 6)" by (simp add: push_bit_eq_mult)
    show "0 \<le> push_bit 1 (reverse_bits p 21) + (drop_bit 21 p AND 7)" using r d by (simp add: push_bit_eq_mult)
  qed
  show ?thesis using assms fmt_hex_int[OF b]
    by (auto simp: convert_nikobus_address_def convert_loop_reverse Let_def)
qed

lemma convert_readable:
  assumes "py_int16 (take 1 (convert_nikobus_address t)) = Some n"
  shows "\<exists>v. convert_nikobus_address t = hexw 6 v"
proof (cases "py_int16 t")
  case None
  have "py_int16 ''['' = None" by code_simp
  then show ?thesis using assms None by (simp add: convert_nikobus_address_def)
next
  case (Some p)
  have "py_int16 ''['' = None" by code_simp
  then have "0 \<le> p \<and> p \<le> 0xFFFFFF"
    using assms Some by (auto simp: convert_nikobus_address_def split: if_splits)
  then show ?thesis using convert_hexw[OF Some] by blast
qed

lemma map_res_set: "map_res f xs = Inr ys \<Longrightarrow> y \<in> set ys \<Longrightarrow> \<exists>x \<in> set xs. f x = Inr y"
  by (induction xs arbitrary: ys) (auto simp: res_bind_Inr_iff)

lemma two_button_upper:
  assumes "two_button_bus_addresses plate layout = Inr addresses" "(label, bus) \<in> set addresses"
  shows "bus = upper bus \<and> bus \<noteq> []"
proof -
  obtain n offsets where n: "py_int16 (take 1 (convert_nikobus_address plate)) = Some n"
    and m: "map_res (\<lambda>(label, offset). case py_int16 offset of None \<Rightarrow> Inl ValueError
        | Some off \<Rightarrow> Inr (label, fmt_hex 1 ((n + off) AND 0xF) @ drop 1 (convert_nikobus_address plate))) offsets = Inr addresses"
    using assms(1) by (auto simp: two_button_bus_addresses_def Let_def split: option.splits)
  obtain v where v: "convert_nikobus_address plate = hexw 6 v" using convert_readable[OF n] by blast
  have d: "upper (drop 1 (hexw 6 v)) = drop 1 (hexw 6 v)" using upper_hexw[of 6 v] by (simp add: upper_def drop_map[symmetric])
  from map_res_set[OF m assms(2)] obtain off where "bus = fmt_hex 1 ((n + off) AND 0xF) @ drop 1 (hexw 6 v)"
    unfolding v by (fastforce split: option.splits)
  moreover have "fmt_hex 1 ((n + off) AND 0xF) = hexw 1 (nat ((n + off) AND 0xF))"
    by (rule fmt_hex_int) (simp_all add: and_15)
  ultimately show ?thesis using d by (simp add: upper_Cons)
qed

lemma two_keys_placed:
  assumes "fold_res place_key [(''1A'', b1), (''1B'', b2)] (ops, False) = Inr (ops', ch)"
    and b: "b1 = upper b1" "b1 \<noteq> []" "b2 = upper b2" "b2 \<noteq> []"
  shows "(\<forall>(label, bus) \<in> {(''1A'', b1), (''1B'', b2)}. \<exists>op. map_of ops' label = Some (PDict op) \<and>
      upper (str_or_empty (dict_get op ''bus_address'')) = bus) \<and>
    (\<forall>l. l \<notin> {''1A'', ''1B''} \<longrightarrow> map_of ops' l = map_of ops l) \<and>
    fold_res place_key [(''1A'', b1), (''1B'', b2)] (ops', False) = Inr (ops', False)"
proof -
  from assms(1) obtain ops1 c1 where p1: "place_key (''1A'', b1) (ops, False) = Inr (ops1, c1)"
    and p2: "place_key (''1B'', b2) (ops1, c1) = Inr (ops', ch)"
    by (auto simp: res_bind_Inr_iff)
  from place_key_facts(1)[OF p1 b(1,2)] obtain op1 where o1: "map_of ops1 ''1A'' = Some (PDict op1)"
      "upper (str_or_empty (dict_get op1 ''bus_address'')) = b1" "move_key ''1A'' b1 op1 = (op1, False)" by blast
  from place_key_facts(1)[OF p2 b(3,4)] obtain op2 where o2: "map_of ops' ''1B'' = Some (PDict op2)"
      "upper (str_or_empty (dict_get op2 ''bus_address'')) = b2" "move_key ''1B'' b2 op2 = (op2, False)" by blast
  have o1': "map_of ops' ''1A'' = Some (PDict op1)" using place_key_facts(2)[OF p2 b(3,4), of "''1A''"] o1 by simp
  have "map_of ops' l = map_of ops l" if "l \<notin> {''1A'', ''1B''}" for l
    using that place_key_facts(2)[OF p1 b(1,2), of l] place_key_facts(2)[OF p2 b(3,4), of l] by simp
  then show ?thesis using o1 o1' o2 by (simp add: place_key_again)
qed

lemma file_layout_map_of: "map_of (fst (file_layout layout (e, c))) f =
    (if f = ''key_layout'' then (if layout = TWO_BUTTON_LAYOUT_RIGHT_PAIR then Some (PStr layout) else None) else map_of e f)"
  by (simp add: file_layout_def map_of_dict_pop)

lemma layout_applied:
  assumes "apply_two_button_layout plate entry layout = Inr (entry', ch)"
  shows "(\<forall>label \<in> {''1A'', ''1B''}. \<exists>op. map_of (dict_points entry') label = Some (PDict op) \<and>
      Some (upper (str_or_empty (dict_get op ''bus_address''))) = record_bus_address plate (Some (layout_index layout label))) \<and>
    (\<forall>l. l \<notin> {''1A'', ''1B''} \<longrightarrow> map_of (dict_points entry') l = map_of (dict_points entry) l) \<and>
    (\<forall>f. f \<notin> {''operation_points'', ''key_layout''} \<longrightarrow> map_of entry' f = map_of entry f) \<and>
    apply_two_button_layout plate entry' layout = Inr (entry', False)"
proof -
  define entry1 where "entry1 = dict_default entry ''operation_points'' (PDict [])"
  from assms obtain addresses ops ops' c where a: "two_button_bus_addresses plate layout = Inr addresses"
    and ops: "dict_get entry1 ''operation_points'' = PDict ops" and f: "fold_res place_key addresses (ops, False) = Inr (ops', c)"
    and e0: "(entry', ch) = file_layout layout (dict_set entry1 ''operation_points'' (PDict ops'), c)"
    unfolding apply_two_button_layout_def entry1_def[symmetric] Let_def
    by (auto simp: res_bind_Inr_iff split: option.splits)
  from e0 have e: "entry' = fst (file_layout layout (dict_set entry1 ''operation_points'' (PDict ops'), c))"
    by (metis fst_conv)
  from two_button_frames[OF a] obtain b1 b2 where addr: "addresses = [(''1A'', b1), (''1B'', b2)]"
    and r: "record_bus_address plate (Some (layout_index layout ''1A'')) = Some b1"
      "record_bus_address plate (Some (layout_index layout ''1B'')) = Some b2"
    by (auto simp: map_eq_Cons_conv)
  have b: "b1 = upper b1" "b1 \<noteq> []" "b2 = upper b2" "b2 \<noteq> []"
    using two_button_upper[OF a, of "''1A''" b1] two_button_upper[OF a, of "''1B''" b2] by (simp_all add: addr)
  note placed = two_keys_placed[OF f[unfolded addr] b]
  have op': "map_of entry' ''operation_points'' = Some (PDict ops')"
    by (simp add: e file_layout_map_of)
  then have points: "dict_points entry' = ops'" by (simp add: dict_points_def dict_get_def)
  have "map_of entry' f = map_of entry f" if "f \<notin> {''operation_points'', ''key_layout''}" for f
    using that by (simp add: e entry1_def file_layout_map_of dict_default_map_of)
  moreover have "dict_points entry = ops"
    using ops by (cases "map_of entry ''operation_points''")
      (auto simp: entry1_def dict_default_def dict_points_def dict_get_def)
  moreover have "apply_two_button_layout plate entry' layout = Inr (entry', False)"
  proof -
    have "dict_default entry' ''operation_points'' (PDict []) = entry'" by (simp add: dict_default_def op')
    moreover have "dict_set entry' ''operation_points'' (PDict ops') = entry'" using op' by (rule dict_set_same)
    moreover have "map_of entry' ''key_layout'' = (if layout = TWO_BUTTON_LAYOUT_RIGHT_PAIR then Some (PStr layout) else None)"
      by (simp add: e file_layout_map_of)
    ultimately show ?thesis using placed op'
      by (simp add: apply_two_button_layout_def a addr dict_get_def dict_set_same file_layout_def)
  qed
  ultimately show ?thesis using placed r by (auto simp: points)
qed

lemma matching_layoutD:
  assumes "matching_layouts indices = [layout]"
  shows "\<exists>family. map_of TWO_BUTTON_LAYOUT_KEY_INDICES layout = Some family \<and> set indices \<subseteq> set family"
proof -
  have "layout \<in> set (matching_layouts indices)" using assms by simp
  then obtain family where f: "(layout, family) \<in> set TWO_BUTTON_LAYOUT_KEY_INDICES" "set indices \<subseteq> set family"
    unfolding matching_layouts_def by force
  have "distinct (map fst TWO_BUTTON_LAYOUT_KEY_INDICES)" by code_simp
  from map_of_is_SomeI[OF this f(1)] f(2) show ?thesis by (intro exI conjI)
qed

text \<open>
  C36. Settling the layout of a two-button plate. When the link records of a plate whose layout
  is not known use the key indices of one layout only, the plate's entry ends with a key for every
  index the records use, under the bus address the modules listen for at that index; its other keys and
  fields stay, no other plate changes, and settling again changes nothing.
\<close>

theorem settled_plate_answers_records:
  assumes "settle_plate (plate, indices) buttons = Inr buttons'"
    and "dict_get buttons plate = PDict entry" "has_per_plate_key_layout (PDict entry)"
    and "matching_layouts indices = [layout]"
  shows "\<exists>entry'. dict_get buttons' plate = PDict entry' \<and>
    (\<forall>k \<in> set indices. \<exists>label op. map_of (dict_points entry') label = Some (PDict op) \<and>
       Some (upper (str_or_empty (dict_get op ''bus_address''))) = record_bus_address plate (Some k)) \<and>
    (\<forall>l. l \<notin> {''1A'', ''1B''} \<longrightarrow> map_of (dict_points entry') l = map_of (dict_points entry) l) \<and>
    (\<forall>f. f \<notin> {''operation_points'', ''key_layout''} \<longrightarrow> map_of entry' f = map_of entry f) \<and>
    (\<forall>p. p \<noteq> plate \<longrightarrow> map_of buttons' p = map_of buttons p) \<and>
    settle_plate (plate, indices) buttons' = Inr buttons'"
proof -
  have e: "settle_plate (plate, indices) buttons = res_bind (apply_two_button_layout plate entry layout)
      (\<lambda>(entry', _). Inr (dict_set buttons plate (PDict entry')))"
    by (simp add: settle_plate_def assms(2-4))
  then obtain r where r: "apply_two_button_layout plate entry layout = Inr r"
    using assms(1) res_bind_Inr_iff by metis
  obtain entry' ch where rp: "r = (entry', ch)" by (cases r)
  have a: "apply_two_button_layout plate entry layout = Inr (entry', ch)" using r rp by simp
  have b: "buttons' = dict_set buttons plate (PDict entry')" using e assms(1) by (simp add: a)
  note l = layout_applied[OF a]
  have others: "\<And>f. f \<notin> {''operation_points'', ''key_layout''} \<Longrightarrow> map_of entry' f = map_of entry f" using l by blast
  obtain family where f: "map_of TWO_BUTTON_LAYOUT_KEY_INDICES layout = Some family" "set indices \<subseteq> set family"
    using matching_layoutD[OF assms(4)] by blast
  have keys: "\<exists>label op. map_of (dict_points entry') label = Some (PDict op) \<and>
       Some (upper (str_or_empty (dict_get op ''bus_address''))) = record_bus_address plate (Some k)" if "k \<in> set indices" for k
  proof -
    from that f(2) have "k \<in> set family" by blast
    then obtain label where "label \<in> {''1A'', ''1B''}" "layout_index layout label = k"
      using layout_index_family[OF f(1)] by blast
    with conjunct1[OF l] show ?thesis by blast
  qed
  have "has_per_plate_key_layout (PDict entry')"
  proof -
    have "dict_get entry' k = dict_get entry k" if "k \<in> {''channels'', ''device_type'', ''model''}" for k
      using that others[of k] by (auto simp: dict_get_def)
    then have "has_per_plate_key_layout (PDict entry') = has_per_plate_key_layout (PDict entry)"
      by (simp add: has_per_plate_key_layout_def cong: if_cong)
    with assms(3) show ?thesis by (simp only:)
  qed
  moreover have "apply_two_button_layout plate entry' layout = Inr (entry', False)" using l by blast
  ultimately have "settle_plate (plate, indices) buttons' = Inr buttons'"
    unfolding b by (simp add: settle_plate_def assms(4) dict_set_same)
  moreover have "dict_get buttons' plate = PDict entry'" "\<forall>p. p \<noteq> plate \<longrightarrow> map_of buttons' p = map_of buttons p"
    by (simp_all add: b)
  moreover have "\<forall>k \<in> set indices. \<exists>label op. map_of (dict_points entry') label = Some (PDict op) \<and>
       Some (upper (str_or_empty (dict_get op ''bus_address''))) = record_bus_address plate (Some k)"
    by (intro ballI keys)
  ultimately show ?thesis using conjunct1[OF conjunct2[OF l]] conjunct1[OF conjunct2[OF conjunct2[OF l]]]
    by (intro exI[of _ entry'] conjI) assumption+
qed

definition example_two_button :: pydict where
  "example_two_button = [(''channels'', PInt 2), (''device_type'', PStr ''04''), (''operation_points'', PDict [])]"

lemma two_button_total:
  assumes "py_int16 plate = Some p" "0 \<le> p" "p \<le> 0xFFFFFF"
    "layout \<in> {TWO_BUTTON_LAYOUT_GENERIC, TWO_BUTTON_LAYOUT_RIGHT_PAIR}"
  shows "\<exists>b1 b2. two_button_bus_addresses plate layout = Inr [(''1A'', b1), (''1B'', b2)]"
proof -
  obtain v where v: "convert_nikobus_address plate = hexw 6 v" using convert_hexw[OF assms(1-3)] by blast
  have n: "py_int16 ''8'' = Some 8" "py_int16 ''C'' = Some 12" "py_int16 ''0'' = Some 0" "py_int16 ''4'' = Some 4"
    by (simp_all add: py_int16_hex hex_nat_def)
  have "take 1 (hexw 6 v) = hexw 1 (v div 16 ^ 5)" by (simp add: hexw_6_head hexw_1)
  moreover have "py_int16 (hexw 1 m) = Some (int (m mod 16))" for m by (simp add: py_int16_hexw[of 1, simplified])
  ultimately have "py_int16 (take 1 (hexw 6 v)) = Some (int (v div 16 ^ 5 mod 16))" by (simp only:)
  then show ?thesis using assms(4)
    by (auto simp: two_button_bus_addresses_def v Let_def TWO_BUTTON_LAYOUTS_def TWO_BUTTON_LAYOUT_GENERIC_def
      TWO_BUTTON_LAYOUT_RIGHT_PAIR_def n)
qed

lemma example_settled_plate:
  "\<exists>buttons'. settle_plate (''0D1C80'', [0]) [(''0D1C80'', PDict example_two_button)] = Inr buttons'"
proof -
  have h: "has_per_plate_key_layout (PDict example_two_button)" by code_simp
  have m: "matching_layouts [0] = [TWO_BUTTON_LAYOUT_RIGHT_PAIR]" by code_simp
  have "py_int16 ''0D1C80'' = Some 0x0D1C80" by (simp add: eval_simps)
  then obtain b1 b2 where "two_button_bus_addresses ''0D1C80'' TWO_BUTTON_LAYOUT_RIGHT_PAIR = Inr [(''1A'', b1), (''1B'', b2)]"
    using two_button_total[of "''0D1C80''" _ TWO_BUTTON_LAYOUT_RIGHT_PAIR] by auto
  then have "\<exists>r. apply_two_button_layout ''0D1C80'' example_two_button TWO_BUTTON_LAYOUT_RIGHT_PAIR = Inr r"
    by (simp add: apply_two_button_layout_def example_two_button_def dict_default_def place_key_def split: prod.splits)
  then show ?thesis by (auto simp: settle_plate_def h m)
qed

theorem settled_plate_answers_records_witness:
  "\<exists>buttons' entry'. settle_plate (''0D1C80'', [0]) [(''0D1C80'', PDict example_two_button)] = Inr buttons' \<and>
     dict_get buttons' ''0D1C80'' = PDict entry' \<and>
     (\<exists>label op. map_of (dict_points entry') label = Some (PDict op) \<and>
       Some (upper (str_or_empty (dict_get op ''bus_address''))) = record_bus_address ''0D1C80'' (Some 0))"
proof -
  obtain bs where s: "settle_plate (''0D1C80'', [0]) [(''0D1C80'', PDict example_two_button)] = Inr bs"
    using example_settled_plate by blast
  have "has_per_plate_key_layout (PDict example_two_button)" by code_simp
  moreover have "matching_layouts [0] = [TWO_BUTTON_LAYOUT_RIGHT_PAIR]" by code_simp
  moreover have "dict_get [(''0D1C80'', PDict example_two_button)] ''0D1C80'' = PDict example_two_button" by simp
  ultimately show ?thesis using settled_plate_answers_records[OF s] s by (metis list.set_intros(1))
qed

subsection \<open>The address of an infrared code\<close>

lemma two_digit_codes: "list_all (\<lambda>n. py_int10 (fmt_dec 2 n) = Some n \<and> length (fmt_dec 2 n) = 2) [1..39]"
  by code_simp

lemma bank_index: "k \<in> set [0..7] \<Longrightarrow> \<exists>b. IR_BANK_CYCLE ! nat (k mod 4) = [b] \<and>
    map_of IR_BANK_TO_KEY_INDEX (upper_char b) = Some (k mod 4)"
proof -
  have "list_all (\<lambda>k. list_ex (\<lambda>b. IR_BANK_CYCLE ! nat (k mod 4) = [b] \<and>
      map_of IR_BANK_TO_KEY_INDEX (upper_char b) = Some (k mod 4)) ''CADB'') [0..7]" by code_simp
  moreover assume "k \<in> set [0..7]"
  ultimately show ?thesis by (force simp: list_all_iff list_ex_iff)
qed

text \<open>
  The bus address stored for an infrared code is the frame the modules listen for: for a code the
  decoder reads from a link record that names slot address and key index, the address
  computed from the receiver and the code is the frame of that record.
\<close>

theorem ir_code_address_agrees:
  assumes "slot < 2 ^ 24" "0 \<le> base" "base \<le> 255" "0 \<le> k" "k \<le> 7"
    and "decode_ir_channel (Some (hexw 6 slot)) (PInt k) base = Some ir_code"
  shows "compute_ir_bus_address (hexw 4 (slot div 256) @ hexw 2 (nat base)) ir_code =
    record_bus_address (hexw 6 slot) (Some (k mod 4))"
proof -
  let ?receiver = "hexw 4 (slot div 256) @ hexw 2 (nat base)"
  let ?ch = "int (slot mod 256) - base"
  have slot: "hexw 6 slot = hexw 4 (slot div 256) @ hexw 2 slot" by (rule hexw_6_eval)
  have strip: "py_strip (hexw w n) = hexw w n" for w n by (simp add: py_strip_hex)
  have low: "py_int16 (last_of 2 (hexw 6 slot)) = Some (int (slot mod 256))" by (simp add: slot)
  obtain b where b: "IR_BANK_CYCLE ! nat (k mod 4) = [b]" "map_of IR_BANK_TO_KEY_INDEX (upper_char b) = Some (k mod 4)"
    using bank_index[of k] assms(4,5) by auto
  have "hexw 6 slot \<noteq> []" using length_hexw[of 6 slot] by (metis length_0_conv zero_neq_numeral)
  then have code: "ir_code = fmt_dec 2 ?ch @ [b]" and ch: "1 \<le> ?ch" "?ch \<le> 39"
    using assms(4-6) b(1) by (auto simp: decode_ir_channel_def strip low Let_def IR_MAX_CHANNEL_def split: if_splits)
  have two: "py_int10 (fmt_dec 2 ?ch) = Some ?ch" "length (fmt_dec 2 ?ch) = 2"
    using two_digit_codes ch by (simp_all add: list_all_iff)
  have receiver: "upper (py_strip ?receiver) = ?receiver" "length ?receiver = 6" by (simp_all add: py_strip_hex)
  have base: "py_int16 (last_of 2 ?receiver) = Some base"
    using assms(2,3) by (simp add: py_int16_hexw[of 2, simplified])
  have slot_back: "take 4 ?receiver @ fmt_hex 2 (base + ?ch) = hexw 6 slot"
  proof -
    have "fmt_hex 2 (int (slot mod 256)) = hexw 2 slot"
    proof -
      have "slot mod 256 = 16 * (slot div 16 mod 16) + slot mod 16" using mod_mult2_eq[of slot 16 16] by simp
      then have "slot mod 256 div 16 = slot div 16 mod 16" "slot mod 256 mod 16 = slot mod 16" by simp_all
      then show ?thesis by (simp add: fmt_hex_nat) (simp add: hexw_eval)
    qed
    then show ?thesis by (simp add: slot)
  qed
  obtain v where v: "convert_nikobus_address (hexw 6 slot) = hexw 6 v"
    using convert_hexw[of "hexw 6 slot" "int slot"] assms(1) by auto
  have k: "map_of KEY_MAPPING_MODULE 4 = Some [(0, ''0''), (1, ''8''), (2, ''4''), (3, ''C'')]"
    by (simp add: KEY_MAPPING_MODULE_def)
  have "k mod 4 = 0 \<or> k mod 4 = 1 \<or> k mod 4 = 2 \<or> k mod 4 = 3" by presburger
  then obtain h where h: "map_of [(0, ''0''), (1, ''8''), (2, ''4''), (3, ''C'')] (k mod 4) = Some h" by auto
  with k have kh: "Option.bind (map_of KEY_MAPPING_MODULE 4) (\<lambda>m. map_of m (k mod 4)) = Some h" by simp
  have ne: "hexw 4 n \<noteq> []" for n using length_hexw[of 4 n] by (metis length_0_conv zero_neq_numeral)
  have low_bound: "base + ?ch \<le> 255" using mod_less_divisor[of 256 slot] by linarith
  have up: "map_option upper (add_first_nibble (hexw 6 v) h) = add_first_nibble (hexw 6 v) h"
  proof (cases "add_first_nibble (hexw 6 v) h")
    case (Some r)
    then obtain n m where r: "r = fmt_hex 1 ((n + m) AND 0xF) @ hexw 5 v"
      by (auto simp: add_first_nibble_def hexw_6_head split: option.splits)
    have "fmt_hex 1 ((n + m) AND 0xF) = hexw 1 (nat ((n + m) AND 0xF))"
      by (rule fmt_hex_int) (simp_all add: and_15)
    with Some r show ?thesis by (simp add: upper_Cons)
  qed simp
  have "compute_ir_bus_address ?receiver ir_code = map_option upper (add_first_nibble (hexw 6 v) h)"
    unfolding compute_ir_bus_address_def code Let_def receiver
    using ch two base slot_back low_bound by (simp add: b kh v ne)
  moreover have "record_bus_address (hexw 6 slot) (Some (k mod 4)) = add_first_nibble (hexw 6 v) h"
    using h by (auto simp: record_bus_address_def k v split: if_splits)
  ultimately show ?thesis by (simp only: up)
qed

theorem ir_code_address_agrees_witness:
  "decode_ir_channel (Some (hexw 6 0x0D1C8A)) (PInt 3) 0x80 = Some ''10B'' \<and>
   compute_ir_bus_address (hexw 4 (0x0D1C8A div 256) @ hexw 2 (nat 0x80)) ''10B'' =
     record_bus_address (hexw 6 0x0D1C8A) (Some (3 mod 4))"
proof -
  have h: "hexw 6 0x0D1C8A = ''0D1C8A''" by (simp add: eval_simps)
  have "decode_ir_channel (Some ''0D1C8A'') (PInt 3) 0x80 = Some ''10B''" by code_simp
  then have d: "decode_ir_channel (Some (hexw 6 0x0D1C8A)) (PInt 3) 0x80 = Some ''10B''" by (simp only: h)
  show ?thesis by (rule conjI[OF d ir_code_address_agrees[OF _ _ _ _ _ d]]) simp_all
qed

end
