(* ===== verification/Link_Merge.thy ===== *)
theory Link_Merge
  imports Store Plate_Keys
begin

section \<open>Merging the links of the modules into the button store\<close>

text \<open>
  \<open>discovery/fileio.py\<close>, \<open>merge_linked_modules\<close> and what it calls: the indices over the button
  store, the resolution of a link record to an operation point, the entries synthesized for audio
  triggers and calendar channels, the links and outputs filed under an operation point, their
  sorting, and the mirroring of paired keys. The discovery's mapping is the one
  \<open>add_to_command_mapping\<close> builds: triples of address, key and infrared code to lists of output
  dictionaries. An operation point is named by its plate's address and its key label and changed in
  place through them. Values that are compared are None, numbers or text, as the decoders write them,
  and are compared structurally.
\<close>

subsection \<open>Indices over the button store\<close>

type_synonym point_name = "string \<times> string"

definition if_absent :: "'k \<Rightarrow> 'v \<Rightarrow> ('k \<times> 'v) list \<Rightarrow> ('k \<times> 'v) list" where
  \<comment> \<open>\<open>index.setdefault(k, v)\<close>\<close>
  "if_absent k v index = (case map_of index k of None \<Rightarrow> index @ [(k, v)] | Some _ \<Rightarrow> index)"

definition index_point :: "string \<Rightarrow> pyval \<Rightarrow> string \<times> pyval \<Rightarrow> (string \<times> point_name) list \<Rightarrow> (string \<times> point_name) list" where
  "index_point phys channels = (\<lambda>(key_label, v) index. case as_dict v of None \<Rightarrow> index
     | Some op_point \<Rightarrow> let bus_addr = normalize_address (dict_get op_point ''bus_address'') in
         if bus_addr = [] then index
         else let index1 = if_absent bus_addr (phys, key_label) index in
           if as_int channels = Some 8 \<and> length bus_addr = 6
           then (case py_int16 bus_addr of None \<Rightarrow> index1
             | Some n \<Rightarrow> if_absent (fmt_hex 6 ((n + 1) AND 0xFFFFFF)) (phys, key_label) index1)
           else index1)"

definition index_plate :: "string \<times> pyval \<Rightarrow> (string \<times> point_name) list \<Rightarrow> (string \<times> point_name) list" where
  "index_plate = (\<lambda>(plate, v) index. case as_dict v of None \<Rightarrow> index
     | Some button \<Rightarrow> let phys = normalize_address (PStr plate) in
         if phys = [] then index
         else fold (index_point phys (dict_get button ''channels'')) (dict_points button) index)"

definition build_bus_to_op_index :: "pydict \<Rightarrow> (string \<times> point_name) list" where
  "build_bus_to_op_index buttons = fold index_plate buttons []"

definition easywave_windows :: "string \<Rightarrow> int \<Rightarrow> (string \<times> string) list \<Rightarrow> (string \<times> string) list" where
  "easywave_windows normalized base look = fold (\<lambda>offset. if_absent (fmt_hex 6 ((base + offset) AND 0xFFFFFF)) normalized)
     (filter (\<lambda>offset. offset AND 7 < 6) [0..31]) look"

definition build_easywave_52_lookup :: "pydict \<Rightarrow> (string \<times> string) list" where
  "build_easywave_52_lookup buttons = fold (\<lambda>(plate, v) look. case as_dict v of None \<Rightarrow> look
     | Some entry \<Rightarrow> if as_int (dict_get entry ''channels'') \<noteq> Some 52 then look
         else let normalized = normalize_address (PStr plate) in
           if length normalized \<noteq> 6 then look
           else (case py_int16 normalized of None \<Rightarrow> look | Some base \<Rightarrow> easywave_windows normalized base look)) buttons []"

definition build_ir_base_lookup :: "pydict \<Rightarrow> (string \<times> int) list res" where
  "build_ir_base_lookup buttons = fold_res (\<lambda>(plate, v) look. case as_dict v of None \<Rightarrow> Inr look
     | Some button \<Rightarrow> res_bind (text_in ''IR'' (py_or (dict_get button ''type'') (PStr []))) (\<lambda>ir.
         let addr = normalize_address (PStr plate) in
         if \<not> ir \<or> length addr \<noteq> 6 then Inr look
         else (case py_int16 (last_of 2 addr) of None \<Rightarrow> Inr look
           | Some base_byte \<Rightarrow> Inr (if_absent (take 4 addr) base_byte look)))) buttons []"

subsection \<open>Resolving a link record\<close>

definition points_or_error :: "pydict \<Rightarrow> pydict res" where
  \<comment> \<open>\<open>entry.get("operation_points") or {}\<close>, used as a dictionary\<close>
  "points_or_error phys = of_option AttributeError (as_dict (py_or (dict_get phys ''operation_points'') (PDict [])))"

definition point_hit :: "string \<Rightarrow> string \<Rightarrow> pydict \<Rightarrow> point_name option res" where
  "point_hit plate label buttons = (case as_dict (dict_get buttons plate) of None \<Rightarrow> Inr None
     | Some phys \<Rightarrow> res_bind (points_or_error phys) (\<lambda>ops.
         Inr (if as_dict (dict_get ops label) = None then None else Some (plate, label))))"

definition labelled_hit :: "string \<Rightarrow> string option \<Rightarrow> pydict \<Rightarrow> point_name option res" where
  "labelled_hit plate label buttons = (case label of None \<Rightarrow> Inr None
     | Some l \<Rightarrow> if l = [] then Inr None else point_hit plate l buttons)"

definition or_else :: "'a option res \<Rightarrow> 'a option res \<Rightarrow> 'a option res" where
  \<comment> \<open>the second attempt where the first finds nothing\<close>
  "or_else a b = res_bind a (\<lambda>r. case r of None \<Rightarrow> b | Some _ \<Rightarrow> Inr r)"

definition resolve_easywave_52 :: "string \<Rightarrow> pyval \<Rightarrow> pydict \<Rightarrow> (string \<times> string) list \<Rightarrow> point_name option res" where
  "resolve_easywave_52 normalized key buttons look = (case map_of look normalized of None \<Rightarrow> Inr None
     | Some plate \<Rightarrow> if plate = [] \<or> as_dict (dict_get buttons plate) = None then Inr None
         else (case (py_int16 normalized, py_int16 plate) of
             (Some n, Some p) \<Rightarrow> let offset = (n - p) AND 0xFFFFFF in
               if offset \<ge> 32 then Inr None
               else let ch = drop_bit 3 offset + 1; slot = offset AND 7;
                   key_int = (case py_int key of None \<Rightarrow> 1 | Some k \<Rightarrow> k);
                   label = (if slot < 3 then Some (int_str ch @ ''.'' @ int_str (slot + 1) @ ''A'')
                     else if slot = 3 then Some (int_str ch @ ''.'' @ int_str (if key_int \<noteq> 0 then 4 else 5) @ ''A'')
                     else if slot = 4 then Some (int_str ch @ ''A'')
                     else if slot = 5 then Some (int_str ch @ ''C'') else None)
                 in labelled_hit plate label buttons
           | _ \<Rightarrow> Inr None))"

fun label_with_frame :: "string \<Rightarrow> pydict \<Rightarrow> string option" where
  "label_with_frame frame [] = None"
| "label_with_frame frame ((label, v) # ops) = (case as_dict v of
       Some op \<Rightarrow> if upper (str_or_empty (dict_get op ''bus_address'')) = frame then Some label else label_with_frame frame ops
     | None \<Rightarrow> label_with_frame frame ops)"

definition sibling_key :: "pyval \<Rightarrow> string option" where
  \<comment> \<open>the key label of a record that names the second address of an eight-key plate\<close>
  "sibling_key key = Option.bind (py_int key) (\<lambda>k. key_raw_to_label (PInt 8) (PInt (k mod 4 + 4)))"

definition sibling_hit :: "string \<Rightarrow> pyval \<Rightarrow> pydict \<Rightarrow> point_name option res" where
  "sibling_hit plate key buttons = (case as_dict (dict_get buttons plate) of None \<Rightarrow> Inr None
     | Some candidate \<Rightarrow> if as_int (dict_get candidate ''channels'') = Some 8
         then labelled_hit plate (sibling_key key) buttons else Inr None)"

definition direct_hit :: "string \<Rightarrow> pyval \<Rightarrow> pydict \<Rightarrow> point_name option res" where
  "direct_hit normalized key buttons = (case as_dict (dict_get buttons normalized) of None \<Rightarrow> Inr None
     | Some physical \<Rightarrow> or_else
         (case record_bus_address normalized (py_int key) of None \<Rightarrow> Inr None
          | Some frame \<Rightarrow> res_bind (points_or_error physical) (\<lambda>ops.
              Inr (map_option (Pair normalized) (label_with_frame frame ops))))
         (if map_of DEVICE_TYPE_KEY_MAPPING (upper (str_or_empty (dict_get physical ''device_type''))) \<noteq> None then Inr None
          else labelled_hit normalized (key_raw_to_label (dict_get physical ''channels'') key) buttons))"

definition bus_hit :: "string option \<Rightarrow> pydict \<Rightarrow> (string \<times> point_name) list \<Rightarrow> point_name option res" where
  "bus_hit bus buttons bus_to_op = (case Option.bind bus (map_of bus_to_op) of None \<Rightarrow> Inr None
     | Some (plate, label) \<Rightarrow> point_hit plate label buttons)"

definition ir_slot_hit :: "string \<Rightarrow> pyval \<Rightarrow> pydict \<Rightarrow> (string \<times> int) list \<Rightarrow> point_name option res" where
  "ir_slot_hit normalized key buttons ir_base = (if length normalized \<noteq> 6 then Inr None
     else (case map_of ir_base (take 4 normalized) of None \<Rightarrow> Inr None
       | Some base_byte \<Rightarrow> let base_addr = take 4 normalized @ fmt_hex 2 base_byte in
           (case as_dict (dict_get buttons base_addr) of None \<Rightarrow> Inr None
            | Some physical \<Rightarrow> labelled_hit base_addr (key_raw_to_label (dict_get physical ''channels'') key) buttons)))"

definition converted_hit :: "string \<Rightarrow> pyval \<Rightarrow> pydict \<Rightarrow> point_name option res" where
  \<comment> \<open>a store keyed by converted addresses\<close>
  "converted_hit normalized key buttons = (if length normalized \<noteq> 6 then Inr None
     else let converted = normalize_address (PStr (convert_nikobus_address normalized)) in
       if converted = [] \<or> converted = normalized then Inr None
       else or_else
         (case as_dict (dict_get buttons converted) of None \<Rightarrow> Inr None
          | Some physical \<Rightarrow> labelled_hit converted (key_raw_to_label (dict_get physical ''channels'') key) buttons)
         (case py_int16 normalized of None \<Rightarrow> Inr None
          | Some n \<Rightarrow> let sib = normalize_address (PStr (convert_nikobus_address (fmt_hex 6 ((n - 1) AND 0xFFFFFF)))) in
              if sib = [] then Inr None else sibling_hit sib key buttons))"

definition resolve_operation_point :: "string \<Rightarrow> pyval \<Rightarrow> pydict \<Rightarrow> (string \<times> point_name) list \<Rightarrow> (string \<times> int) list \<Rightarrow>
    (string \<times> string) list \<Rightarrow> point_name option res" where
  "resolve_operation_point push key buttons bus_to_op ir_base easywave =
     (let normalized = normalize_address (PStr push); frame = record_bus_address normalized (py_int key) in
      if normalized = [] then Inr None
      else or_else (if easywave = [] then Inr None else resolve_easywave_52 normalized key buttons easywave)
        (or_else (direct_hit normalized key buttons)
        (or_else (if virtual_button_class normalized \<noteq> None then bus_hit frame buttons bus_to_op else Inr None)
        (or_else (case py_int16 normalized of None \<Rightarrow> Inr None
           | Some n \<Rightarrow> sibling_hit (fmt_hex 6 ((n - 1) AND 0xFFFFFF)) key buttons)
        (or_else (bus_hit (Some normalized) buttons bus_to_op)
        (or_else (if frame = Some normalized then Inr None else bus_hit frame buttons bus_to_op)
        (or_else (ir_slot_hit normalized key buttons ir_base)
          (converted_hit normalized key buttons))))))))"

definition resolve_ir_receiver_address :: "string \<Rightarrow> pydict \<Rightarrow> (string \<times> int) list \<Rightarrow> string option" where
  "resolve_ir_receiver_address push buttons ir_base = (let normalized = normalize_address (PStr push) in
     if normalized = [] then None
     else if as_dict (dict_get buttons normalized) \<noteq> None then Some normalized
     else if length normalized \<noteq> 6 then None
     else (case map_of ir_base (take 4 normalized) of None \<Rightarrow> None
       | Some base_byte \<Rightarrow> let base_addr = take 4 normalized @ fmt_hex 2 base_byte in
           if as_dict (dict_get buttons base_addr) \<noteq> None then Some base_addr else None))"

subsection \<open>Synthesized entries\<close>

definition CALENDAR_CHANNEL_TYPE :: string where "CALENDAR_CHANNEL_TYPE = ''PC-Link Calendar Channel''"
definition CALENDAR_OP_POINT_KEY :: string where "CALENDAR_OP_POINT_KEY = ''CAL''"
definition AUDIO_TRIGGER_TYPE :: string where "AUDIO_TRIGGER_TYPE = ''Audio Trigger''"
definition AUDIO_OP_POINT_KEY :: string where "AUDIO_OP_POINT_KEY = ''AUD''"

definition calendar_label :: "pydict list \<Rightarrow> string option" where
  "calendar_label outputs = map_option (\<lambda>out. py_str (dict_get out ''calendar_channel''))
     (find (\<lambda>out. py_true (dict_get out ''calendar_channel'')) outputs)"

definition audio_link :: "pydict list \<Rightarrow> pydict option" where
  "audio_link outputs = find (\<lambda>out. py_true (dict_get out ''audio_function'')) outputs"

definition entry_defaults :: "string \<Rightarrow> string \<Rightarrow> string \<Rightarrow> string \<Rightarrow> pydict \<Rightarrow> pydict" where
  \<comment> \<open>the fields both kinds of synthesized entry start with\<close>
  "entry_defaults description kind model plate entry = fold (\<lambda>(k, v) e. dict_default e k v)
     [(''description'', PStr description), (''discovered_name'', PStr description), (''type'', PStr kind),
      (''model'', PStr model), (''address'', PStr plate), (''channels'', PInt 1), (''channels_count'', PInt 1),
      (''discovered'', PBool True)] entry"

definition the_entry :: "pydict \<Rightarrow> string \<Rightarrow> pydict" where
  "the_entry buttons plate = (case as_dict (dict_get buttons plate) of None \<Rightarrow> [] | Some e \<Rightarrow> e)"

definition put_point :: "string \<Rightarrow> string \<Rightarrow> string \<Rightarrow> pydict \<Rightarrow> pydict" where
  \<comment> \<open>the entry with its one operation point under the key, at the bus address\<close>
  "put_point key bus description entry = (let ops = dict_points entry;
       op = (case as_dict (dict_get ops key) of None \<Rightarrow> [] | Some o' \<Rightarrow> o')
     in dict_set entry ''operation_points'' (PDict (dict_set ops key
          (PDict (dict_default (dict_set op ''bus_address'' (PStr bus)) ''description'' (PStr description))))))"

definition ensure_audio_op_point :: "pydict \<Rightarrow> string \<Rightarrow> pydict \<Rightarrow> pydict \<times> point_name" where
  "ensure_audio_op_point buttons address0 out =
     (let plate = normalize_address (PStr address0);
          description = py_str (py_or (dict_get out ''description'') (PStr ''Audio trigger''));
          entry1 = entry_defaults description AUDIO_TRIGGER_TYPE ''05-205'' plate (the_entry buttons plate);
          entry2 = fold (\<lambda>(k, v) e. dict_set e k v)
            [(''audio_function'', dict_get out ''audio_function''), (''audio_function_raw'', dict_get out ''audio_function_raw''),
             (''audio_object'', dict_get out ''audio_object''), (''audio_object_raw'', dict_get out ''audio_object_raw''),
             (''audio_power'', PBool (py_true (dict_get out ''audio_power''))), (''audio_zone'', dict_get out ''audio_zone''),
             (''audio_zone_raw'', dict_get out ''audio_zone_raw'')] entry1;
          entry3 = (if py_true (dict_get out ''module_address'')
            then dict_set entry2 ''audio_module_address'' (PStr (upper (py_str (dict_get out ''module_address'')))) else entry2)
      in (dict_set buttons plate (PDict (put_point AUDIO_OP_POINT_KEY plate description entry3)), (plate, AUDIO_OP_POINT_KEY)))"

definition ensure_calendar_op_point :: "pydict \<Rightarrow> string \<Rightarrow> string \<Rightarrow> pydict \<times> point_name" where
  "ensure_calendar_op_point buttons address0 label =
     (let plate = normalize_address (PStr address0);
          entry1 = entry_defaults (''PC-Link calendar channel '' @ label) CALENDAR_CHANNEL_TYPE ''05-200'' plate (the_entry buttons plate);
          entry2 = dict_set entry1 ''calendar_channel'' (PStr label)
      in (dict_set buttons plate (PDict (put_point CALENDAR_OP_POINT_KEY plate (''Calendar channel '' @ label @ '' (PC-Link)'') entry2)),
          (plate, CALENDAR_OP_POINT_KEY)))"

subsection \<open>Stripping a module's links\<close>

definition is_target_block :: "string set \<Rightarrow> pyval \<Rightarrow> bool" where
  "is_target_block targets b = (case as_dict b of None \<Rightarrow> False
     | Some block \<Rightarrow> upper (str_or_empty (dict_get block ''module_address'')) \<in> targets)"

definition block_size :: "pyval \<Rightarrow> nat" where
  \<comment> \<open>the number of outputs of a block\<close>
  "block_size b = (case as_dict b of None \<Rightarrow> 0
     | Some block \<Rightarrow> (case as_list (dict_get block ''outputs'') of None \<Rightarrow> 0 | Some os \<Rightarrow> length os))"

definition strip_point :: "string set \<Rightarrow> pyval \<Rightarrow> pyval \<times> nat" where
  "strip_point targets v = (case as_dict v of None \<Rightarrow> (v, 0)
     | Some op_point \<Rightarrow> (case as_list (dict_get op_point ''linked_modules'') of None \<Rightarrow> (v, 0)
         | Some blocks \<Rightarrow> let kept = filter (\<lambda>b. \<not> is_target_block targets b) blocks in
             (if length kept \<noteq> length blocks then PDict (dict_set op_point ''linked_modules'' (PList kept)) else v,
              sum_list (map block_size (filter (is_target_block targets) blocks)))))"

definition strip_plate :: "string set \<Rightarrow> pyval \<Rightarrow> pyval \<times> nat" where
  "strip_plate targets v = (case as_dict v of None \<Rightarrow> (v, 0)
     | Some entry \<Rightarrow> (case as_dict (dict_get entry ''operation_points'') of None \<Rightarrow> (v, 0)
         | Some ops \<Rightarrow> let stripped = map (\<lambda>(k, p). (k, strip_point targets p)) ops in
             (PDict (dict_set entry ''operation_points'' (PDict (map (\<lambda>(k, p, n). (k, p)) stripped))),
              sum_list (map (\<lambda>(k, p, n). n) stripped))))"

definition strip_module_links :: "pydict \<Rightarrow> string list \<Rightarrow> pydict \<times> nat" where
  "strip_module_links button_data module_addresses = (let targets = set (map upper module_addresses) in
     if targets = {} then (button_data, 0)
     else let (data, buttons) = ensure_buttons_dict button_data;
         stripped = map (\<lambda>(a, v). (a, strip_plate targets v)) buttons
       in (dict_set data ''nikobus_button'' (PDict (map (\<lambda>(a, v, n). (a, v)) stripped)),
           sum_list (map (\<lambda>(a, v, n). n) stripped)))"

subsection \<open>Filing outputs under an operation point\<close>

definition output_entry :: "pydict \<Rightarrow> pyval \<Rightarrow> pydict" where
  "output_entry out ir_code = (let get = dict_get out in
     [(''channel'', get ''channel''), (''mode'', get ''mode''), (''t1'', get ''t1''), (''t2'', get ''t2''),
      (''payload'', get ''payload''), (''button_address'', get ''button_address'')]
     @ (if py_true (get ''ir_button_address'') then [(''ir_button_address'', get ''ir_button_address'')] else [])
     @ (if py_true ir_code then [(''ir_code'', ir_code)] else [])
     @ (if py_true (get ''record_source'') then [(''record_source'', get ''record_source'')] else [])
     @ map (\<lambda>f. (f, get f)) (filter (\<lambda>f. get f \<noteq> PNone) [''audio_function'', ''audio_object'', ''audio_zone'']))"

definition output_dedupe_key :: "pydict \<Rightarrow> pyval list" where
  "output_dedupe_key out = map (dict_get out) [''channel'', ''mode'', ''t1'', ''t2'', ''ir_code'', ''ir_button_address'']"

definition has_output :: "pyval list \<Rightarrow> pyval list \<Rightarrow> bool" where
  \<comment> \<open>an output with the key is among the stored ones\<close>
  "has_output key outs = list_ex (\<lambda>d. output_dedupe_key d = key) (dicts_of outs)"

definition own_table :: pyval where "own_table = PStr ''output_module_table''"

definition upgrade_source :: "pyval list \<Rightarrow> pyval \<Rightarrow> pyval" where
  "upgrade_source key v = (case as_dict v of None \<Rightarrow> v
     | Some d \<Rightarrow> if output_dedupe_key d = key \<and> dict_get d ''record_source'' \<noteq> own_table
         then PDict (dict_set d ''record_source'' own_table) else v)"

definition add_output :: "pydict \<Rightarrow> pyval list \<Rightarrow> pyval list \<times> nat \<times> bool" where
  \<comment> \<open>the outputs of a block after one record: what they are, how many were added, whether any changed\<close>
  "add_output entry outs = (let key = output_dedupe_key entry in
     if \<not> has_output key outs then (outs @ [PDict entry], 1, True)
     else if dict_get entry ''record_source'' = own_table
     then (map (upgrade_source key) outs, 0, map (upgrade_source key) outs \<noteq> outs)
     else (outs, 0, False))"

definition names_module :: "pyval \<Rightarrow> pyval \<Rightarrow> bool" where
  "names_module md b = (case as_dict b of None \<Rightarrow> False | Some d \<Rightarrow> dict_get d ''module_address'' = md)"

definition block_outputs :: "pydict \<Rightarrow> pyval list" where
  "block_outputs block = (case as_list (dict_get block ''outputs'') of None \<Rightarrow> [] | Some os \<Rightarrow> os)"

fun add_to_block :: "pyval \<Rightarrow> pydict \<Rightarrow> pyval list \<Rightarrow> pyval list \<times> nat \<times> nat \<times> bool" where
  \<comment> \<open>the record in the module's first block, or in a new one at the end; blocks, links and outputs added, changed\<close>
  "add_to_block md entry [] = (case add_output entry [] of (outs, n, _) \<Rightarrow>
     ([PDict [(''module_address'', md), (''outputs'', PList outs)]], 1, n, True))"
| "add_to_block md entry (b # bs) = (if names_module md b
     then (case as_dict b of None \<Rightarrow> (b # bs, 0, 0, False)
       | Some block \<Rightarrow> (case add_output entry (block_outputs block) of (outs, n, changed) \<Rightarrow>
           (PDict (dict_set block ''outputs'' (PList outs)) # bs, 0, n, changed)))
     else (case add_to_block md entry bs of (bs', l, n, changed) \<Rightarrow> (b # bs', l, n, changed)))"

definition file_output :: "string option \<Rightarrow> pydict \<Rightarrow> pyval list \<times> nat \<times> nat \<times> bool \<Rightarrow> pyval list \<times> nat \<times> nat \<times> bool" where
  "file_output ir_from_key out = (\<lambda>(blocks, links, outs, updated). let md = dict_get out ''module_address'' in
     if md = PNone then (blocks, links, outs, updated)
     else (case add_to_block md (output_entry out (py_or (dict_get out ''ir_code'') (opt_str ir_from_key))) blocks of
       (blocks', l, n, changed) \<Rightarrow> (blocks', links + l, outs + n, updated \<or> changed)))"

subsection \<open>Sorting as Python sorts\<close>

definition number_of :: "pyval \<Rightarrow> int option" where
  "number_of v = as_int v"

definition value_less :: "pyval \<Rightarrow> pyval \<Rightarrow> bool option" where
  \<comment> \<open>\<open>v < w\<close> for text and numbers, \<open>None\<close> for its \<open>TypeError\<close>\<close>
  "value_less v w = (case (v, w) of (PStr s, PStr t) \<Rightarrow> Some (s < t)
     | _ \<Rightarrow> (case (number_of v, number_of w) of (Some m, Some n) \<Rightarrow> Some (m < n) | _ \<Rightarrow> None))"

fun tuple_less :: "pyval list \<Rightarrow> pyval list \<Rightarrow> bool option" where
  \<comment> \<open>tuples of one length: the first components that differ decide\<close>
  "tuple_less (x # xs) (y # ys) = (if x = y then tuple_less xs ys else value_less x y)"
| "tuple_less _ _ = Some False"

fun insert_by :: "('a \<Rightarrow> pyval list) \<Rightarrow> 'a \<Rightarrow> 'a list \<Rightarrow> 'a list" where
  "insert_by key x [] = [x]"
| "insert_by key x (y # ys) = (if tuple_less (key y) (key x) = Some True then y # insert_by key x ys else x # y # ys)"

definition sort_by :: "('a \<Rightarrow> pyval list) \<Rightarrow> 'a list \<Rightarrow> 'a list res" where
  \<comment> \<open>a stable sort; keys that cannot be compared raise, since any two neighbours of the result are compared\<close>
  "sort_by key xs = (if list_ex (\<lambda>x. list_ex (\<lambda>y. tuple_less (key x) (key y) = None) xs) xs then Inl TypeError
     else Inr (foldr (insert_by key) xs []))"

definition get_or :: "pydict \<Rightarrow> string \<Rightarrow> pyval \<Rightarrow> pyval" where
  \<comment> \<open>\<open>d.get(k, v)\<close>\<close>
  "get_or d k v = (case map_of d k of None \<Rightarrow> v | Some w \<Rightarrow> w)"

definition block_key :: "pyval \<Rightarrow> pyval list" where
  "block_key b = [case as_dict b of None \<Rightarrow> PStr [] | Some d \<Rightarrow> get_or d ''module_address'' (PStr [])]"

definition output_key :: "pyval \<Rightarrow> pyval list" where
  "output_key v = (case as_dict v of None \<Rightarrow> [PInt (- 1), PStr [], PStr [], PStr []]
     | Some d \<Rightarrow> [if dict_get d ''channel'' = PNone then PInt (- 1) else dict_get d ''channel'', get_or d ''mode'' (PStr []),
         py_or (dict_get d ''ir_code'') (PStr []), py_or (dict_get d ''ir_button_address'') (PStr [])])"

definition sort_block :: "pyval \<Rightarrow> pyval res" where
  "sort_block b = (case as_dict b of None \<Rightarrow> Inr b
     | Some block \<Rightarrow> res_bind (sort_by output_key (block_outputs block)) (\<lambda>outs.
         Inr (PDict (dict_set block ''outputs'' (PList outs)))))"

definition sort_blocks :: "pyval list \<Rightarrow> pyval list res" where
  "sort_blocks blocks = res_bind (sort_by block_key blocks) (map_res sort_block)"

definition file_outputs :: "string option \<Rightarrow> pydict list \<Rightarrow> pydict \<Rightarrow> (pydict \<times> nat \<times> nat \<times> bool) res" where
  \<comment> \<open>the outputs of one mapping entry filed under an operation point\<close>
  "file_outputs ir_from_key outs op_point =
     (let blocks = (case as_list (dict_get op_point ''linked_modules'') of None \<Rightarrow> [] | Some bs \<Rightarrow> bs) in
      (case fold (file_output ir_from_key) outs (blocks, 0, 0, False) of (blocks', links, added, updated) \<Rightarrow>
        res_bind (if updated then sort_blocks blocks' else Inr blocks') (\<lambda>blocks''.
          Inr (dict_set op_point ''linked_modules'' (PList blocks''), links, added, updated))))"

subsection \<open>Paired keys\<close>

definition TWO_BUTTON_PAIRS :: "(string \<times> string list) list" where
  "TWO_BUTTON_PAIRS =
     [(''1A'', [''1B'']), (''1B'', [''1A'']), (''1C'', [''1D'']), (''1D'', [''1C'']),
      (''2A'', [''2B'']), (''2B'', [''2A'']), (''2C'', [''2D'']), (''2D'', [''2C''])]
     @ concat (map (\<lambda>ch. [(ch @ ''A'', [ch @ ''B'']), (ch @ ''B'', [ch @ ''A''])]) [''3'', ''4''])
     @ concat (map (\<lambda>ch. concat (map (\<lambda>row. [(ch @ ''.'' @ row @ ''A'', [ch @ ''.'' @ row @ ''B'']),
          (ch @ ''.'' @ row @ ''B'', [ch @ ''.'' @ row @ ''A''])]) [''1'', ''2'', ''3'', ''4'', ''5''])) [''1'', ''2'', ''3'', ''4''])"

definition FOUR_BUTTON_GROUPS :: "(string \<times> string list) list" where
  "FOUR_BUTTON_GROUPS = [(''1A'', [''1B'', ''1C'', ''1D'']), (''2A'', [''2B'', ''2C'', ''2D''])]"

definition mode_named :: "(int \<times> string) list \<Rightarrow> int \<Rightarrow> string" where
  \<comment> \<open>an entry of a mode table that is there\<close>
  "mode_named table n = (case map_of table n of Some t \<Rightarrow> t | None \<Rightarrow> [])"

definition TWO_BUTTON_MODE_TEXTS :: "string list" where
  "TWO_BUTTON_MODE_TEXTS = [mode_named DIMMER_MODE_MAPPING 0, mode_named ROLLER_MODE_MAPPING 0, mode_named SWITCH_MODE_MAPPING 0]"

definition FOUR_BUTTON_MODE_TEXTS :: "string list" where
  "FOUR_BUTTON_MODE_TEXTS = [mode_named DIMMER_MODE_MAPPING 1]"

definition peers_for_mirror :: "string \<Rightarrow> pyval \<Rightarrow> string list" where
  "peers_for_mirror source_key mode_text = (case as_str mode_text of None \<Rightarrow> []
     | Some t \<Rightarrow> if t \<in> set TWO_BUTTON_MODE_TEXTS
         then (case map_of TWO_BUTTON_PAIRS source_key of None \<Rightarrow> [] | Some ps \<Rightarrow> ps)
         else if t \<in> set FOUR_BUTTON_MODE_TEXTS
         then (case map_of FOUR_BUTTON_GROUPS source_key of None \<Rightarrow> [] | Some ps \<Rightarrow> ps) else [])"

fun mirror_into :: "pyval \<Rightarrow> pydict \<Rightarrow> pyval list \<Rightarrow> pyval list \<times> nat" where
  \<comment> \<open>a copy of the output in the module's first block of the peer, unless it has its like\<close>
  "mirror_into md out [] = ([PDict [(''module_address'', md), (''outputs'', PList [PDict out])]], 1)"
| "mirror_into md out (b # bs) = (if names_module md b
     then (case as_dict b of None \<Rightarrow> (b # bs, 0)
       | Some block \<Rightarrow> let outs = block_outputs block in
           if has_output (output_dedupe_key out) outs then (PDict (dict_set block ''outputs'' (PList outs)) # bs, 0)
           else (PDict (dict_set block ''outputs'' (PList (outs @ [PDict out]))) # bs, 1))
     else (case mirror_into md out bs of (bs', n) \<Rightarrow> (b # bs', n)))"

definition mirror_peer :: "pyval \<Rightarrow> pydict \<Rightarrow> string \<Rightarrow> pydict \<times> nat \<Rightarrow> pydict \<times> nat" where
  "mirror_peer md out peer = (\<lambda>(ops, n). case as_dict (dict_get ops peer) of None \<Rightarrow> (ops, n)
     | Some op \<Rightarrow> (case mirror_into md out (case as_list (dict_get op ''linked_modules'') of None \<Rightarrow> [] | Some bs \<Rightarrow> bs) of
         (bs', k) \<Rightarrow> (dict_set ops peer (PDict (dict_set op ''linked_modules'' (PList bs'))), n + k)))"

definition source_outputs :: "pydict \<Rightarrow> (pyval \<times> pydict) list" where
  \<comment> \<open>the outputs of an operation point, each with the module of its block\<close>
  "source_outputs op = (case as_list (dict_get op ''linked_modules'') of None \<Rightarrow> []
     | Some blocks \<Rightarrow> concat (map (\<lambda>block. let md = dict_get block ''module_address'' in
         if \<not> py_true md then [] else map (Pair md) (dicts_of (block_outputs block))) (dicts_of blocks)))"

definition mirror_key :: "string \<Rightarrow> pydict \<times> nat \<Rightarrow> pydict \<times> nat" where
  \<comment> \<open>one key's outputs to its peers; a key is never its own peer, so its own links do not change meanwhile\<close>
  "mirror_key key = (\<lambda>(ops, n). case as_dict (dict_get ops key) of None \<Rightarrow> (ops, n)
     | Some op \<Rightarrow> fold (\<lambda>(md, out). fold (mirror_peer md out) (peers_for_mirror key (get_or out ''mode'' (PStr []))))
         (source_outputs op) (ops, n))"

definition mirror_plate :: "pyval \<Rightarrow> pyval \<times> nat" where
  "mirror_plate v = (case as_dict v of None \<Rightarrow> (v, 0)
     | Some entry \<Rightarrow> (case as_dict (dict_get entry ''operation_points'') of None \<Rightarrow> (v, 0)
         | Some ops \<Rightarrow> (case fold mirror_key (map fst ops) (ops, 0) of (ops', n) \<Rightarrow>
             (PDict (dict_set entry ''operation_points'' (PDict ops')), n))))"

definition mirror_paired_button_links :: "pydict \<Rightarrow> pydict \<times> nat" where
  "mirror_paired_button_links buttons = (let mirrored = map (\<lambda>(a, v). (a, mirror_plate v)) buttons in
     (map (\<lambda>(a, v, n). (a, v)) mirrored, sum_list (map (\<lambda>(a, v, n). n) mirrored)))"

subsection \<open>The merge\<close>

record merge_state =
  merged :: pydict
  updated_buttons :: nat
  links_added :: nat
  outputs_added :: nat
  unmatched :: "string list"

definition is_superseded :: "string set \<Rightarrow> pydict \<Rightarrow> bool" where
  \<comment> \<open>a controller's copy of a record of a module whose own table was read\<close>
  "is_superseded authoritative out \<longleftrightarrow> from_registry out \<and>
     upper (str_or_empty (dict_get out ''module_address'')) \<in> authoritative"

definition audio_point :: "string \<Rightarrow> pydict \<Rightarrow> pydict \<Rightarrow> (string \<times> point_name) list \<Rightarrow> pydict \<times> point_name" where
  \<comment> \<open>the wall key that sends the trigger's frame, else an entry of its own\<close>
  "audio_point push out buttons bus_to_op =
     (case Option.bind (map_of bus_to_op (normalize_address (PStr push)))
         (\<lambda>(plate, label). map_option (\<lambda>_. (plate, label)) (key_point plate label buttons)) of
        Some name \<Rightarrow> (buttons, name)
      | None \<Rightarrow> ensure_audio_op_point buttons push out)"

definition place_mapping :: "string \<Rightarrow> pyval \<Rightarrow> string option \<Rightarrow> pydict list \<Rightarrow> pydict \<Rightarrow> (string \<times> point_name) list \<Rightarrow>
    (string \<times> int) list \<Rightarrow> (string \<times> string) list \<Rightarrow> (pydict \<times> point_name option) res" where
  \<comment> \<open>the store with the operation point an entry of the mapping goes to, and that point\<close>
  "place_mapping push key ir outs buttons bus_to_op ir_base easywave =
     (if truthy ir
      then Inr (case resolve_ir_receiver_address push buttons ir_base of None \<Rightarrow> (buttons, None)
        | Some receiver \<Rightarrow> (dict_set buttons receiver (PDict (ensure_ir_op_point (the_entry buttons receiver) receiver (the ir))),
            Some (receiver, ir_op_point_key (the ir))))
      else (case audio_link outs of
          Some out \<Rightarrow> (case audio_point push out buttons bus_to_op of (buttons', name) \<Rightarrow> Inr (buttons', Some name))
        | None \<Rightarrow> (case calendar_label outs of
              Some label \<Rightarrow> (case ensure_calendar_op_point buttons push label of (buttons', name) \<Rightarrow> Inr (buttons', Some name))
            | None \<Rightarrow> res_bind (resolve_operation_point push key buttons bus_to_op ir_base easywave)
                (\<lambda>name. Inr (buttons, name)))))"

definition merge_entry :: "string set \<Rightarrow> (string \<times> point_name) list \<Rightarrow> (string \<times> int) list \<Rightarrow> (string \<times> string) list \<Rightarrow>
    mapping_key \<times> pydict list \<Rightarrow> merge_state \<Rightarrow> merge_state res" where
  "merge_entry authoritative bus_to_op ir_base easywave = (\<lambda>((push, key, ir), outs0) st.
     let outs = filter (\<lambda>out. \<not> is_superseded authoritative out) outs0 in
     (case push of None \<Rightarrow> Inr st
      | Some p \<Rightarrow> if outs = [] then Inr st
          else res_bind (place_mapping p key ir outs (merged st) bus_to_op ir_base easywave) (\<lambda>(buttons, name).
            case Option.bind name (\<lambda>(plate, label). map_option (Pair (plate, label)) (key_point plate label buttons)) of
              None \<Rightarrow> let normalized = normalize_address (PStr p) in
                Inr (st\<lparr>merged := buttons,
                  unmatched := if normalized = [] then unmatched st else List.insert normalized (unmatched st)\<rparr>)
            | Some ((plate, label), op) \<Rightarrow> res_bind (file_outputs ir outs op) (\<lambda>(op', links, added, updated).
                Inr (st\<lparr>merged := set_key_point plate label buttons op',
                  updated_buttons := updated_buttons st + (if updated then 1 else 0),
                  links_added := links_added st + links, outputs_added := outputs_added st + added\<rparr>)))))"

definition merge_linked_modules :: "pydict \<Rightarrow> command_mapping \<Rightarrow> string list \<Rightarrow> (pydict \<times> nat \<times> nat \<times> nat \<times> string list) res" where
  "merge_linked_modules button_data mapping authoritative_modules =
     (let authoritative = set (map upper authoritative_modules); (data, buttons0) = ensure_buttons_dict button_data in
      res_bind (settle_two_button_layouts buttons0 mapping) (\<lambda>buttons.
        res_bind (build_ir_base_lookup buttons) (\<lambda>ir_base.
          res_bind (fold_res (merge_entry authoritative (build_bus_to_op_index buttons) ir_base (build_easywave_52_lookup buttons))
              mapping \<lparr>merged = buttons, updated_buttons = 0, links_added = 0, outputs_added = 0, unmatched = []\<rparr>) (\<lambda>st.
            (case mirror_paired_button_links (merged st) of (buttons', mirrored) \<Rightarrow>
              Inr (dict_set data ''nikobus_button'' (PDict buttons'), updated_buttons st, links_added st,
                outputs_added st + mirrored, unmatched st))))))"

end
