(* ===== verification/Link_Facts.thy ===== *)
theory Link_Facts
  imports Link_Merge
begin

section \<open>What the merge of the links keeps\<close>

text \<open>
  The facts about \<open>Link_Merge\<close>: a resolved record names a key of the store, stripping leaves exactly
  the blocks of other modules, and filing outputs a second time adds nothing.
\<close>

subsection \<open>A resolved record names a stored key\<close>

definition in_store :: "pydict \<Rightarrow> point_name option \<Rightarrow> bool" where
  "in_store buttons r \<longleftrightarrow> (case r of None \<Rightarrow> True | Some (plate, label) \<Rightarrow> key_point plate label buttons \<noteq> None)"

lemma in_store_None [simp]: "in_store buttons None"
  by (simp add: in_store_def)

lemma points_or_error_dict: "points_or_error phys = Inr ops \<Longrightarrow> ops \<noteq> [] \<Longrightarrow> dict_get phys ''operation_points'' = PDict ops"
  by (auto simp: points_or_error_def py_or_def split: if_splits)

lemma point_hit_in: "point_hit plate label buttons = Inr r \<Longrightarrow> in_store buttons r"
proof -
  assume h: "point_hit plate label buttons = Inr r"
  show ?thesis
  proof (cases r)
    case (Some name)
    then obtain phys ops op where "dict_get buttons plate = PDict phys" "points_or_error phys = Inr ops"
        "dict_get ops label = PDict op" "name = (plate, label)"
      using h by (auto simp: point_hit_def res_bind_Inr_iff split: option.splits if_splits)
    moreover from this(3) have "ops \<noteq> []" by auto
    ultimately show ?thesis using Some points_or_error_dict by (simp add: in_store_def key_point_def)
  qed simp
qed

lemma labelled_hit_in: "labelled_hit plate label buttons = Inr r \<Longrightarrow> in_store buttons r"
  by (auto simp: labelled_hit_def point_hit_in split: option.splits if_splits)

lemma or_else_in:
  "or_else a b = Inr r \<Longrightarrow> (\<And>r. a = Inr r \<Longrightarrow> in_store buttons r) \<Longrightarrow> (\<And>r. b = Inr r \<Longrightarrow> in_store buttons r) \<Longrightarrow>
   in_store buttons r"
  by (auto simp: or_else_def res_bind_Inr_iff split: option.splits)

lemma label_with_frame_in: "label_with_frame frame ops = Some label \<Longrightarrow>
    \<exists>op. (label, PDict op) \<in> set ops \<and> upper (str_or_empty (dict_get op ''bus_address'')) = frame"
  by (induction frame ops rule: label_with_frame.induct) (auto split: option.splits if_splits)

lemma easywave_hit_in: "resolve_easywave_52 n key buttons look = Inr r \<Longrightarrow> in_store buttons r"
  by (auto simp: resolve_easywave_52_def Let_def labelled_hit_in split: option.splits if_splits simp del: labelled_hit_def)

lemma sibling_hit_in: "sibling_hit plate key buttons = Inr r \<Longrightarrow> in_store buttons r"
  by (auto simp: sibling_hit_def labelled_hit_in split: option.splits if_splits)

lemma bus_hit_in: "bus_hit bus buttons idx = Inr r \<Longrightarrow> in_store buttons r"
  by (auto simp: bus_hit_def point_hit_in split: option.splits prod.splits)

lemma ir_slot_hit_in: "ir_slot_hit n key buttons base = Inr r \<Longrightarrow> in_store buttons r"
  by (auto simp: ir_slot_hit_def Let_def labelled_hit_in split: option.splits if_splits)

lemma distinct_items_get: "distinct (map fst ops) \<Longrightarrow> (k, v) \<in> set ops \<Longrightarrow> dict_get ops k = v"
  by (simp add: dict_get_def map_of_is_SomeI)

definition points_wf :: "pydict \<Rightarrow> bool" where
  \<comment> \<open>no key label twice on a plate: the operation points are a dictionary\<close>
  "points_wf buttons \<longleftrightarrow> (\<forall>plate phys ops. dict_get buttons plate = PDict phys \<longrightarrow>
     dict_get phys ''operation_points'' = PDict ops \<longrightarrow> distinct (map fst ops))"

lemma direct_hit_in:
  assumes "points_wf buttons" "direct_hit n key buttons = Inr r"
  shows "in_store buttons r"
proof (cases "as_dict (dict_get buttons n)")
  case None
  then show ?thesis using assms by (simp add: direct_hit_def)
next
  case (Some phys)
  then have p: "dict_get buttons n = PDict phys" by simp
  have f: "in_store buttons (map_option (Pair n) (label_with_frame frame ops))" if "points_or_error phys = Inr ops" for frame ops
  proof (cases "label_with_frame frame ops")
    case (Some label)
    then obtain op where o: "(label, PDict op) \<in> set ops" using label_with_frame_in by blast
    then have "ops \<noteq> []" by auto
    with points_or_error_dict[OF that] have d: "dict_get phys ''operation_points'' = PDict ops" by blast
    with assms(1) p have "distinct (map fst ops)" by (auto simp: points_wf_def)
    from distinct_items_get[OF this o] Some p d show ?thesis by (simp add: in_store_def key_point_def)
  qed simp
  show ?thesis
    using assms(2) unfolding direct_hit_def Some option.case
  proof (rule or_else_in)
    fix r assume "(case record_bus_address n (py_int key) of None \<Rightarrow> Inr None
        | Some frame \<Rightarrow> res_bind (points_or_error phys) (\<lambda>ops. Inr (map_option (Pair n) (label_with_frame frame ops)))) = Inr r"
    then show "in_store buttons r" using f by (auto simp: res_bind_Inr_iff split: option.splits)
  next
    fix r assume "(if map_of DEVICE_TYPE_KEY_MAPPING (upper (str_or_empty (dict_get phys ''device_type''))) \<noteq> None then Inr None
        else labelled_hit n (key_raw_to_label (dict_get phys ''channels'') key) buttons) = Inr r"
    then show "in_store buttons r" using labelled_hit_in by (auto split: if_splits)
  qed
qed

lemma converted_hit_in: "converted_hit n key buttons = Inr r \<Longrightarrow> in_store buttons r"
  unfolding converted_hit_def Let_def
  by (auto split: if_splits option.splits elim!: or_else_in intro: labelled_hit_in sibling_hit_in)

lemma resolve_in_store:
  assumes "points_wf buttons" "resolve_operation_point push key buttons idx base easy = Inr r"
  shows "in_store buttons r"
proof -
  note hits = direct_hit_in[OF assms(1)] easywave_hit_in bus_hit_in sibling_hit_in ir_slot_hit_in converted_hit_in
  show ?thesis
    using assms(2) unfolding resolve_operation_point_def Let_def
    by (auto split: if_splits option.splits elim!: or_else_in intro: hits)
qed

lemma label_with_frame_found: "(label, PDict op) \<in> set ops \<Longrightarrow> upper (str_or_empty (dict_get op ''bus_address'')) = frame \<Longrightarrow>
    \<exists>l. label_with_frame frame ops = Some l"
  by (induction frame ops rule: label_with_frame.induct) (auto split: option.split)

text \<open>
  C37. Resolving a link record. Whatever attempt succeeds, the key it names is an operation point of the
  store, never an invented one. When the plate the record names is in the store with a key that sends the
  frame the module listens for, the record goes to such a key of that plate.
\<close>

theorem resolution_finds_the_key:
  assumes "points_wf buttons" "normalize_address (PStr push) = plate"
  shows "(resolve_operation_point push key buttons idx base easy = Inr (Some (p, l)) \<longrightarrow> key_point p l buttons \<noteq> None) \<and>
    (dict_get buttons plate = PDict phys \<and> plate \<noteq> [] \<and> map_of easy plate = None \<and>
       dict_get phys ''operation_points'' = PDict ops \<and> (label, PDict op) \<in> set ops \<and>
       record_bus_address plate (py_int key) = Some (upper (str_or_empty (dict_get op ''bus_address''))) \<longrightarrow>
     (\<exists>l op'. resolve_operation_point push key buttons idx base easy = Inr (Some (plate, l)) \<and>
       key_point plate l buttons = Some op' \<and>
       upper (str_or_empty (dict_get op' ''bus_address'')) = upper (str_or_empty (dict_get op ''bus_address''))))"
proof (intro conjI impI)
  assume "resolve_operation_point push key buttons idx base easy = Inr (Some (p, l))"
  from resolve_in_store[OF assms(1) this] show "key_point p l buttons \<noteq> None" by (simp add: in_store_def)
next
  let ?frame = "upper (str_or_empty (dict_get op ''bus_address''))"
  assume a: "dict_get buttons plate = PDict phys \<and> plate \<noteq> [] \<and> map_of easy plate = None \<and>
       dict_get phys ''operation_points'' = PDict ops \<and> (label, PDict op) \<in> set ops \<and>
       record_bus_address plate (py_int key) = Some ?frame"
  obtain l where l: "label_with_frame ?frame ops = Some l" using label_with_frame_found a by blast
  then obtain op' where o: "(l, PDict op') \<in> set ops" "upper (str_or_empty (dict_get op' ''bus_address'')) = ?frame"
    using label_with_frame_in by blast
  have "distinct (map fst ops)" using assms(1) a by (auto simp: points_wf_def)
  from distinct_items_get[OF this o(1)] have k: "key_point plate l buttons = Some op'" using a by (simp add: key_point_def)
  have "ops \<noteq> []" using a by auto
  then have "points_or_error phys = Inr ops" using a by (simp add: points_or_error_def)
  then have "direct_hit plate key buttons = Inr (Some (plate, l))"
    using a l by (simp add: direct_hit_def or_else_def)
  moreover have "(if easy = [] then Inr None else resolve_easywave_52 plate key buttons easy) = Inr None"
    using a by (simp add: resolve_easywave_52_def)
  ultimately have "resolve_operation_point push key buttons idx base easy = Inr (Some (plate, l))"
    using a assms(2) by (simp add: resolve_operation_point_def or_else_def Let_def)
  with k o(2) show "\<exists>l op'. resolve_operation_point push key buttons idx base easy = Inr (Some (plate, l)) \<and>
       key_point plate l buttons = Some op' \<and> upper (str_or_empty (dict_get op' ''bus_address'')) = ?frame"
    by blast
qed

definition example_wall :: pydict where
  "example_wall = [(''0D1C80'', PDict [(''channels'', PInt 4), (''operation_points'',
     PDict [(''1A'', PDict [(''bus_address'', PStr ''804E2C'')]), (''1C'', PDict [(''bus_address'', PStr ''004E2C'')])])])]"

lemma example_wall_wf: "points_wf example_wall"
  by (auto simp: points_wf_def example_wall_def split: if_splits)

lemma example_converted: "convert_nikobus_address ''0D1C80'' = ''004E2C''"
proof -
  have p: "py_int16 ''0D1C80'' = Some (int 0x0D1C80)" by (simp add: eval_simps)
  have "reverse_bits 0x0D1C80 22 = 0x004E2C" by (simp add: reverse_bits_def reverse_loop_numeral)
  then show ?thesis using convert_nikobus_address_plate[OF p] by (simp add: eval_simps)
qed

lemma example_frame: "record_bus_address ''0D1C80'' (Some 1) = Some ''804E2C''"
proof -
  have "add_first_nibble ''004E2C'' ''8'' = Some ''804E2C''" by code_simp
  then show ?thesis by (simp add: record_bus_address_def KEY_MAPPING_MODULE_def example_converted)
qed

theorem resolution_finds_the_key_witness:
  "\<exists>l op'. resolve_operation_point ''0d1c80'' (PInt 1) example_wall [] [] [] = Inr (Some (''0D1C80'', l)) \<and>
     key_point ''0D1C80'' l example_wall = Some op' \<and> upper (str_or_empty (dict_get op' ''bus_address'')) = ''804E2C''"
proof -
  let ?ops = "[(''1A'', PDict [(''bus_address'', PStr ''804E2C'')]), (''1C'', PDict [(''bus_address'', PStr ''004E2C'')])]"
  have n: "normalize_address (PStr ''0d1c80'') = ''0D1C80''" by code_simp
  have u: "upper (str_or_empty (dict_get [(''bus_address'', PStr ''804E2C'')] ''bus_address'')) = ''804E2C''"
    by (simp add: upper_def eval_simps)
  have i: "py_int (PInt 1) = Some 1" by (simp add: py_int_def)
  have "dict_get example_wall ''0D1C80'' = PDict [(''channels'', PInt 4), (''operation_points'', PDict ?ops)]"
    by (simp add: example_wall_def)
  moreover have "(''1A'', PDict [(''bus_address'', PStr ''804E2C'')]) \<in> set ?ops" by simp
  ultimately show ?thesis
    using resolution_finds_the_key[OF example_wall_wf n, of "PInt 1" "[]" "[]" "[]" "''0D1C80''" "''1A''"
      "[(''channels'', PInt 4), (''operation_points'', PDict ?ops)]" ?ops "''1A''" "[(''bus_address'', PStr ''804E2C'')]"]
    unfolding u i example_frame by simp
qed

subsection \<open>Stripping\<close>

lemma strip_point_again: "strip_point targets (fst (strip_point targets v)) = (fst (strip_point targets v), 0)"
proof (cases v)
  case (PDict op)
  show ?thesis
  proof (cases "as_list (dict_get op ''linked_modules'')")
    case None
    then show ?thesis by (simp add: PDict strip_point_def)
  next
    case (Some blocks)
    have e: "filter (is_target_block targets) (filter (\<lambda>b. \<not> is_target_block targets b) blocks) = []"
      by (simp add: filter_empty_conv)
    show ?thesis
    proof (cases "length (filter (\<lambda>b. \<not> is_target_block targets b) blocks) = length blocks")
      case True
      then have "filter (\<lambda>b. \<not> is_target_block targets b) blocks = blocks"
        by (metis filter_id_conv length_filter_less linorder_neq_iff)
      then show ?thesis using Some e by (simp add: PDict strip_point_def Let_def)
    next
      case False
      then show ?thesis using Some e by (simp add: PDict strip_point_def Let_def)
    qed
  qed
qed (simp_all add: strip_point_def)

lemma mapped_fst: "map (\<lambda>(a, v, n). (a, v)) (map (\<lambda>(a, v). (a, f v)) d) = map (\<lambda>(a, v). (a, fst (f v))) d"
  "map (\<lambda>(a, v, n). n) (map (\<lambda>(a, v). (a, f v)) d) = map (\<lambda>(a, v). snd (f v)) d"
  by (simp_all add: case_prod_unfold)

lemma map_of_mapped: "map_of (map (\<lambda>(a, v). (a, g v)) d) k = map_option g (map_of d k)"
  by (induction d) auto

lemma strip_plate_again: "strip_plate targets (fst (strip_plate targets v)) = (fst (strip_plate targets v), 0)"
proof (cases v)
  case (PDict entry)
  show ?thesis
  proof (cases "as_dict (dict_get entry ''operation_points'')")
    case None
    then show ?thesis by (simp add: PDict strip_plate_def)
  next
    case (Some ops)
    have "map (\<lambda>(k, p). (k, fst (strip_point targets (fst (strip_point targets p))))) ops =
        map (\<lambda>(k, p). (k, fst (strip_point targets p))) ops"
      by (simp add: strip_point_again case_prod_unfold)
    moreover have "sum_list (map (\<lambda>(k, p). snd (strip_point targets (fst (strip_point targets p)))) ops) = 0"
      by (simp add: strip_point_again case_prod_unfold)
    ultimately show ?thesis using Some
      by (simp add: PDict strip_plate_def Let_def mapped_fst comp_def case_prod_unfold dict_set_same)
  qed
qed (simp_all add: strip_plate_def)

definition unlinked :: "string set \<Rightarrow> pydict \<Rightarrow> pydict" where
  \<comment> \<open>an operation point without its blocks of the given modules\<close>
  "unlinked targets op = (case as_list (dict_get op ''linked_modules'') of None \<Rightarrow> op
     | Some blocks \<Rightarrow> dict_set op ''linked_modules'' (PList (filter (\<lambda>b. \<not> is_target_block targets b) blocks)))"

lemma filter_same_length: "length (filter P xs) = length xs \<Longrightarrow> filter P xs = xs"
  by (metis filter_id_conv length_filter_less linorder_neq_iff)

lemma strip_point_dict: "fst (strip_point targets (PDict op)) = PDict (unlinked targets op)"
proof (cases "as_list (dict_get op ''linked_modules'')")
  case (Some blocks)
  then have "map_of op ''linked_modules'' = Some (PList blocks)"
    using dict_get_map_of[of op "''linked_modules''"] by simp
  then show ?thesis using Some filter_same_length[of "\<lambda>b. \<not> is_target_block targets b" blocks]
    by (auto simp: strip_point_def unlinked_def Let_def dict_set_same)
qed (simp add: strip_point_def unlinked_def)

lemma strip_point_not_dict: "as_dict v = None \<Longrightarrow> strip_point targets v = (v, 0)"
  and strip_plate_not_dict: "as_dict v = None \<Longrightarrow> strip_plate targets v = (v, 0)"
  by (simp_all add: strip_point_def strip_plate_def)

lemma dict_get_mapped: "g PNone = PNone \<Longrightarrow> dict_get (map (\<lambda>(a, v). (a, g v)) d) k = g (dict_get d k)"
  by (simp add: dict_get_def map_of_mapped split: option.split)

lemma as_dict_stripped: "as_dict (fst (strip_point targets v)) = map_option (unlinked targets) (as_dict v)"
  by (cases v) (simp_all add: strip_point_dict strip_point_not_dict)

lemma stripped_key_point:
  "key_point plate label (map (\<lambda>(a, v). (a, fst (strip_plate targets v))) buttons) =
   map_option (unlinked targets) (key_point plate label buttons)"
proof -
  have p: "fst (strip_plate targets PNone) = PNone" "fst (strip_point targets PNone) = PNone"
    by (simp_all add: strip_plate_not_dict strip_point_not_dict)
  show ?thesis
  proof (cases "dict_get buttons plate")
    case (PDict entry)
    show ?thesis
    proof (cases "as_dict (dict_get entry ''operation_points'')")
      case None
      then show ?thesis by (simp add: key_point_def dict_get_mapped p PDict strip_plate_def)
    next
      case (Some ops)
      then show ?thesis
        by (simp add: key_point_def dict_get_mapped p PDict strip_plate_def Let_def mapped_fst as_dict_stripped del: as_dict_Some map_map)
    qed
  qed (simp_all add: key_point_def dict_get_mapped p strip_plate_not_dict)
qed

lemma strip_alt:
  assumes "ms \<noteq> []" "the_buttons data = Some buttons"
  shows "strip_module_links data ms = (let targets = set (map upper ms) in
    (dict_set data ''nikobus_button'' (PDict (map (\<lambda>(a, v). (a, fst (strip_plate targets v))) buttons)),
     sum_list (map (\<lambda>(a, v). snd (strip_plate targets v)) buttons)))"
  using assms by (simp add: strip_module_links_def ensure_buttons_dict_def Let_def mapped_fst del: map_map)

text \<open>
  Stripping the links of modules leaves every operation point with exactly its blocks of other modules, in
  order, and everything else of it; stripping again finds nothing to remove and changes nothing.
\<close>

theorem strip_removes_module_links:
  assumes "ms \<noteq> []" "the_buttons data = Some buttons" "strip_module_links data ms = (data', n)"
  shows "\<exists>buttons'. the_buttons data' = Some buttons' \<and>
    (\<forall>plate label. key_point plate label buttons' = map_option (unlinked (set (map upper ms))) (key_point plate label buttons)) \<and>
    strip_module_links data' ms = (data', 0)"
proof -
  let ?t = "set (map upper ms)"
  let ?buttons = "map (\<lambda>(a, v). (a, fst (strip_plate ?t v))) buttons"
  have data': "data' = dict_set data ''nikobus_button'' (PDict ?buttons)"
    using assms by (simp add: strip_alt Let_def)
  have b: "the_buttons data' = Some ?buttons" by (simp add: data' the_buttons_def)
  have "map (\<lambda>(a, v). (a, fst (strip_plate ?t (fst (strip_plate ?t v))))) buttons = ?buttons"
    by (simp add: strip_plate_again)
  moreover have "sum_list (map (\<lambda>(a, v). snd (strip_plate ?t (fst (strip_plate ?t v)))) buttons) = 0"
    by (simp add: strip_plate_again case_prod_unfold)
  ultimately have "strip_module_links data' ms = (data', 0)"
    unfolding strip_alt[OF assms(1) b] Let_def by (simp add: data' comp_def case_prod_unfold dict_set_same)
  with b show ?thesis by (auto simp: stripped_key_point)
qed

definition example_linked :: pydict where
  "example_linked = [(''nikobus_button'', PDict [(''0D1C80'', PDict [(''operation_points'', PDict [(''1A'',
     PDict [(''linked_modules'', PList [PDict [(''module_address'', PStr ''0e6c''), (''outputs'', PList [PDict []])],
       PDict [(''module_address'', PStr ''9105'')]])])])])])]"

theorem strip_removes_module_links_witness:
  "\<exists>data' buttons'. strip_module_links example_linked [''0E6C''] = (data', 1) \<and> the_buttons data' = Some buttons' \<and>
    strip_module_links data' [''0E6C''] = (data', 0)"
proof -
  have "the_buttons example_linked = Some (the (the_buttons example_linked))" by (simp add: the_buttons_def example_linked_def)
  moreover have "strip_module_links example_linked [''0E6C''] = (fst (strip_module_links example_linked [''0E6C'']), 1)"
    by code_simp
  ultimately show ?thesis using strip_removes_module_links[of "[''0E6C'']" example_linked] by blast
qed

subsection \<open>Filing the same outputs again\<close>

definition output_filed :: "pydict \<Rightarrow> pyval list \<Rightarrow> bool" where
  \<comment> \<open>the outputs hold the like of the entry, with its source when the source is the module itself\<close>
  "output_filed entry outs \<longleftrightarrow> has_output (output_dedupe_key entry) outs \<and>
     (dict_get entry ''record_source'' = own_table \<longrightarrow> (\<forall>v \<in> set outs. upgrade_source (output_dedupe_key entry) v = v))"

lemma upgrade_key: "as_dict v = Some d \<Longrightarrow> \<exists>d'. as_dict (upgrade_source k v) = Some d' \<and> output_dedupe_key d' = output_dedupe_key d"
  by (auto simp: upgrade_source_def output_dedupe_key_def)

lemma upgrade_not_dict: "as_dict v = None \<Longrightarrow> upgrade_source k v = v"
  by (simp add: upgrade_source_def)

lemma upgrade_again: "upgrade_source k v = v \<Longrightarrow> upgrade_source k (upgrade_source k' v) = upgrade_source k' v"
  by (cases v) (auto simp: upgrade_source_def split: if_splits)

lemma upgrade_idem: "upgrade_source k (upgrade_source k v) = upgrade_source k v"
  by (cases v) (auto simp: upgrade_source_def)

lemma has_output_iff: "has_output k outs \<longleftrightarrow> (\<exists>d. PDict d \<in> set outs \<and> output_dedupe_key d = k)"
  by (auto simp: has_output_def list_ex_iff)

lemma upgrade_dict: "\<exists>d'. upgrade_source k (PDict d) = PDict d' \<and> output_dedupe_key d' = output_dedupe_key d"
  by (simp add: upgrade_source_def output_dedupe_key_def)

lemma has_output_upgraded: "has_output k outs \<Longrightarrow> has_output k (map (upgrade_source k') outs)"
  unfolding has_output_iff using upgrade_dict[of k'] by (metis image_eqI set_map)

lemma upgrade_other: "output_dedupe_key d \<noteq> k \<Longrightarrow> upgrade_source k (PDict d) = PDict d"
  by (simp add: upgrade_source_def)

lemma add_output_filed: "output_filed entry (fst (add_output entry outs))"
proof (cases "has_output (output_dedupe_key entry) outs")
  case True
  then show ?thesis
    by (auto simp: add_output_def Let_def output_filed_def has_output_upgraded upgrade_idem)
next
  case False
  then have "upgrade_source (output_dedupe_key entry) v = v" if "v \<in> set outs" for v
    using that by (cases v) (auto simp: has_output_iff upgrade_other upgrade_not_dict)
  moreover have "dict_get entry ''record_source'' = own_table \<Longrightarrow>
      upgrade_source (output_dedupe_key entry) (PDict entry) = PDict entry"
    by (simp add: upgrade_source_def)
  ultimately show ?thesis using False by (auto simp: add_output_def Let_def output_filed_def has_output_iff)
qed

lemma add_output_stays: "output_filed e outs \<Longrightarrow> output_filed e (fst (add_output e' outs))"
proof (cases "has_output (output_dedupe_key e') outs")
  case True
  assume "output_filed e outs"
  with True show ?thesis
    by (auto simp: add_output_def Let_def output_filed_def has_output_upgraded upgrade_again)
next
  case False
  assume f: "output_filed e outs"
  with False have "output_dedupe_key e' \<noteq> output_dedupe_key e" by (auto simp: output_filed_def)
  with f False show ?thesis
    by (auto simp: add_output_def Let_def output_filed_def has_output_iff upgrade_other)
qed

lemma add_output_filed_same: "output_filed e outs \<Longrightarrow> add_output e outs = (outs, 0, False)"
  by (simp add: add_output_def Let_def output_filed_def map_idI)

lemma output_filed_set: "set outs = set outs' \<Longrightarrow> output_filed e outs = output_filed e outs'"
  by (simp add: output_filed_def has_output_iff)

definition entry_filed :: "pyval \<Rightarrow> pydict \<Rightarrow> pyval list \<Rightarrow> bool" where
  "entry_filed md e blocks \<longleftrightarrow> (case filter (names_module md) blocks of [] \<Rightarrow> False
     | b # _ \<Rightarrow> output_filed e (block_outputs (case as_dict b of Some d \<Rightarrow> d | None \<Rightarrow> [])))"

lemma names_module_dict: "names_module md b \<Longrightarrow> \<exists>d. b = PDict d"
  by (simp add: names_module_def split: option.splits)

lemma names_module_filled [simp]: "names_module md (PDict (dict_set d ''outputs'' v)) = names_module md (PDict d)"
  by (simp add: names_module_def)

lemma block_outputs_set [simp]: "block_outputs (dict_set d ''outputs'' (PList outs)) = outs"
  by (simp add: block_outputs_def)

lemma filed_outputs: "output_filed e (block_outputs d) \<Longrightarrow> dict_set d ''outputs'' (PList (block_outputs d)) = d"
proof -
  assume "output_filed e (block_outputs d)"
  then have "block_outputs d \<noteq> []" by (auto simp: output_filed_def has_output_iff)
  then have "dict_get d ''outputs'' = PList (block_outputs d)"
    by (auto simp: block_outputs_def split: option.splits)
  then show ?thesis using dict_get_map_of[of d "''outputs''"] by (simp add: dict_set_same)
qed

lemma add_to_block_filed: "entry_filed md e (fst (add_to_block md e blocks))"
proof (induction blocks)
  case Nil
  have "names_module md (PDict [(''module_address'', md), (''outputs'', v)])" for v by (simp add: names_module_def)
  moreover have "block_outputs [(''module_address'', md), (''outputs'', PList outs)] = outs" for outs by (simp add: block_outputs_def)
  ultimately show ?case using add_output_filed[of e "[]"]
    by (auto simp: entry_filed_def case_prod_unfold)
next
  case (Cons b bs)
  show ?case
  proof (cases "names_module md b")
    case True
    then obtain d where b: "b = PDict d" using names_module_dict by blast
    show ?thesis using True add_output_filed[of e "block_outputs d"] by (simp add: b entry_filed_def case_prod_unfold)
  next
    case False
    with Cons show ?thesis by (simp add: entry_filed_def case_prod_unfold)
  qed
qed

lemma add_to_block_stays: "entry_filed md e blocks \<Longrightarrow> entry_filed md e (fst (add_to_block md' e' blocks))"
proof (induction blocks)
  case Nil
  then show ?case by (simp add: entry_filed_def)
next
  case (Cons b bs)
  show ?case
  proof (cases "names_module md' b")
    case True
    then obtain d where b: "b = PDict d" using names_module_dict by blast
    show ?thesis using True Cons.prems add_output_stays[of e "block_outputs d" e']
      by (auto simp: b entry_filed_def case_prod_unfold)
  next
    case False
    with Cons show ?thesis by (auto simp: entry_filed_def case_prod_unfold)
  qed
qed

lemma add_to_block_filed_same: "entry_filed md e blocks \<Longrightarrow> add_to_block md e blocks = (blocks, 0, 0, False)"
proof (induction blocks)
  case Nil
  then show ?case by (simp add: entry_filed_def)
next
  case (Cons b bs)
  show ?case
  proof (cases "names_module md b")
    case True
    then obtain d where b: "b = PDict d" using names_module_dict by blast
    with True Cons.prems have "output_filed e (block_outputs d)" by (simp add: entry_filed_def)
    then show ?thesis using True by (simp add: b add_output_filed_same filed_outputs)
  next
    case False
    with Cons show ?thesis by (simp add: entry_filed_def)
  qed
qed

lemma tuple_less_same [simp]: "tuple_less xs xs = Some False"
  by (induction xs) simp_all

lemma filter_insert_by:
  assumes "\<And>y. P y \<Longrightarrow> key y = k"
  shows "filter P (insert_by key x ys) = (if P x then x # filter P ys else filter P ys)"
proof (induction ys)
  case (Cons y ys)
  show ?case
  proof (cases "P x \<and> P y")
    case True
    then have "key x = k" "key y = k" using assms by blast+
    then show ?thesis using True by simp
  qed (use Cons in auto)
qed simp

lemma filter_sorted:
  assumes "\<And>y. P y \<Longrightarrow> key y = k"
  shows "filter P (foldr (insert_by key) xs []) = filter P xs"
  by (induction xs) (simp_all add: filter_insert_by[OF assms])

lemma set_insert_by [simp]: "set (insert_by key x ys) = insert x (set ys)"
  by (induction ys) auto

lemma set_sorted: "sort_by key xs = Inr ys \<Longrightarrow> set ys = set xs"
proof -
  have "set (foldr (insert_by key) xs []) = set xs" by (induction xs) auto
  then show "sort_by key xs = Inr ys \<Longrightarrow> set ys = set xs" by (auto simp: sort_by_def split: if_splits)
qed

lemma names_module_key: "md \<noteq> PNone \<Longrightarrow> names_module md b \<Longrightarrow> block_key b = [md]"
  using dict_get_map_of by (force simp: names_module_def block_key_def get_or_def split: option.splits)

lemma sort_block_names: "sort_block b = Inr b' \<Longrightarrow> names_module md b' = names_module md b"
  by (cases b) (auto simp: sort_block_def res_bind_Inr_iff)

lemma filter_map_res:
  "map_res f xs = Inr ys \<Longrightarrow> (\<And>x y. f x = Inr y \<Longrightarrow> P y = P x) \<Longrightarrow> map_res f (filter P xs) = Inr (filter P ys)"
  by (induction xs arbitrary: ys) (auto simp: res_bind_Inr_iff)

lemma sort_blocks_filed:
  assumes "md \<noteq> PNone" "entry_filed md e blocks" "sort_blocks blocks = Inr blocks'"
  shows "entry_filed md e blocks'"
proof -
  obtain sorted where s: "sort_by block_key blocks = Inr sorted" and m: "map_res sort_block sorted = Inr blocks'"
    using assms(3) by (auto simp: sort_blocks_def res_bind_Inr_iff)
  have f: "filter (names_module md) sorted = filter (names_module md) blocks"
    using s filter_sorted[of "names_module md" block_key "[md]"] names_module_key[OF assms(1)]
    by (auto simp: sort_by_def split: if_splits)
  then have m': "map_res sort_block (filter (names_module md) blocks) = Inr (filter (names_module md) blocks')"
    using filter_map_res[OF m] sort_block_names by metis
  obtain b bs where b: "filter (names_module md) blocks = b # bs"
    using assms(2) by (auto simp: entry_filed_def split: list.splits)
  then have "names_module md b" by (metis Cons_eq_filterD)
  then obtain d where d: "b = PDict d" using names_module_dict by blast
  with m' b obtain outs bs' where o: "sort_by output_key (block_outputs d) = Inr outs"
    and f': "filter (names_module md) blocks' = PDict (dict_set d ''outputs'' (PList outs)) # bs'"
    by (auto simp: sort_block_def res_bind_Inr_iff dest: sym)
  have "output_filed e (block_outputs d)" using assms(2) by (simp add: entry_filed_def b d)
  then have "output_filed e outs" using output_filed_set[OF set_sorted[OF o]] by simp
  then show ?thesis by (simp add: entry_filed_def f')
qed

definition out_entry :: "string option \<Rightarrow> pydict \<Rightarrow> pydict" where
  "out_entry ir out = output_entry out (py_or (dict_get out ''ir_code'') (opt_str ir))"

definition out_filed :: "string option \<Rightarrow> pyval list \<Rightarrow> pydict \<Rightarrow> bool" where
  "out_filed ir blocks out \<longleftrightarrow> dict_get out ''module_address'' = PNone \<or>
     entry_filed (dict_get out ''module_address'') (out_entry ir out) blocks"

lemma file_output_blocks: "fst (file_output ir out (blocks, l, n, u)) =
    (if dict_get out ''module_address'' = PNone then blocks
     else fst (add_to_block (dict_get out ''module_address'') (out_entry ir out) blocks))"
  by (simp add: file_output_def out_entry_def Let_def case_prod_unfold)

lemma file_outputs_filed:
  "(\<forall>out \<in> set done_outs. out_filed ir blocks out) \<Longrightarrow>
   \<forall>out \<in> set done_outs \<union> set outs. out_filed ir (fst (fold (file_output ir) outs (blocks, l, n, u))) out"
proof (induction outs arbitrary: blocks l n u done_outs)
  case Nil
  then show ?case by simp
next
  case (Cons out outs)
  obtain blocks' l' n' u' where f: "file_output ir out (blocks, l, n, u) = (blocks', l', n', u')"
    by (metis prod_cases4)
  then have b: "blocks' = (if dict_get out ''module_address'' = PNone then blocks
     else fst (add_to_block (dict_get out ''module_address'') (out_entry ir out) blocks))"
    using file_output_blocks[of ir out blocks l n u] by simp
  have "\<forall>o' \<in> set (out # done_outs). out_filed ir blocks' o'"
    using Cons.prems by (auto simp: b out_filed_def add_to_block_filed add_to_block_stays)
  from Cons.IH[OF this, of l' n' u'] show ?case by (simp add: f)
qed

lemma file_filed_same:
  "\<forall>out \<in> set outs. out_filed ir blocks out \<Longrightarrow> fold (file_output ir) outs (blocks, l, n, u) = (blocks, l, n, u)"
  by (induction outs) (auto simp: file_output_def out_filed_def out_entry_def Let_def add_to_block_filed_same)

text \<open>
  C38. Filing a module's outputs under an operation point a second time, as every repeated scan does,
  adds no link and no output and leaves the operation point as it is, whatever the first filing found there
  and whichever way its links were sorted.
\<close>

theorem refiling_adds_nothing:
  assumes "file_outputs ir outs op = Inr (op', links, added, updated)"
  shows "file_outputs ir outs op' = Inr (op', 0, 0, False)"
proof -
  define blocks where "blocks = (case as_list (dict_get op ''linked_modules'') of None \<Rightarrow> [] | Some bs \<Rightarrow> bs)"
  obtain bs' l n u where f: "fold (file_output ir) outs (blocks, 0, 0, False) = (bs', l, n, u)" by (metis prod_cases4)
  with assms obtain bs'' where s: "(if u then sort_blocks bs' else Inr bs') = Inr bs''"
    and op': "op' = dict_set op ''linked_modules'' (PList bs'')"
    by (auto simp: file_outputs_def Let_def blocks_def res_bind_Inr_iff split: prod.splits)
  have "\<forall>out \<in> set outs. out_filed ir bs' out"
    using file_outputs_filed[of "[]" ir blocks outs 0 0 False] by (simp add: f)
  then have "\<forall>out \<in> set outs. out_filed ir bs'' out"
    using s by (auto simp: out_filed_def intro: sort_blocks_filed split: if_splits)
  from file_filed_same[OF this] show ?thesis
    by (simp add: file_outputs_def op' dict_set_same)
qed

definition example_outputs :: "pydict list" where
  "example_outputs =
     [[(''module_address'', PStr ''9105''), (''channel'', PInt 2), (''mode'', PStr ''M01''), (''record_source'', PStr ''pc_link_registry'')],
      [(''module_address'', PStr ''0E6C''), (''channel'', PInt 1), (''mode'', PStr ''M02'')],
      [(''module_address'', PStr ''9105''), (''channel'', PInt 2), (''mode'', PStr ''M01''), (''record_source'', own_table)]]"

lemma example_filing:
  "\<exists>op' u. file_outputs None example_outputs [] = Inr (op', 2, 2, u)"
proof -
  have "(case file_outputs None example_outputs [] of Inr (op', l, n, u) \<Rightarrow> l = 2 \<and> n = 2 | Inl e \<Rightarrow> False)"
    by code_simp
  then show ?thesis by (auto split: sum.splits)
qed

theorem refiling_adds_nothing_witness:
  "\<exists>op' u. file_outputs None example_outputs [] = Inr (op', 2, 2, u) \<and>
     file_outputs None example_outputs op' = Inr (op', 0, 0, False)"
  using example_filing refiling_adds_nothing by blast

end
