(* ===== verification/Device_Merge.thy ===== *)
theory Device_Merge
  imports Plate_Keys
begin

section \<open>Merging discovered devices into the stores\<close>

text \<open>
  \<open>discovery/fileio.py\<close>: \<open>merge_discovered_modules\<close> and \<open>merge_discovered_buttons\<close>, which enter
  what the inventory found into the module store and the button store of the host. The fields the
  user owns are kept, the fields the discovery owns are refreshed. Descriptions in the module store are
  text, and the module type of a device is what the inventory sets, text.
\<close>

subsection \<open>Modules\<close>

definition MODULE_TYPE_ORDER :: "string list" where
  "MODULE_TYPE_ORDER = [''switch_module'', ''dimmer_module'', ''roller_module'', ''pc_link'', ''pc_logic'',
     ''feedback_module'', ''other_module'']"

definition DESCRIPTION_PREFIX :: "(string \<times> string) list" where
  "DESCRIPTION_PREFIX =
     [(''switch_module'', ''switch_module_s''), (''dimmer_module'', ''dimmer_module_d''),
      (''roller_module'', ''roller_module_r''), (''pc_link'', ''pc_link_''), (''pc_logic'', ''pc_logic_''),
      (''feedback_module'', ''feedback_module_''), (''rgb_module'', ''rgb_module_''), (''other_module'', ''other_module_'')]"

definition INPUT_MODULE_TYPES :: "string list" where "INPUT_MODULE_TYPES = [''pc_logic'', ''interface_module'']"
definition CHANNELLESS_MODULE_TYPES :: "string list" where
  "CHANNELLESS_MODULE_TYPES = [''pc_logic'', ''interface_module'']"

definition default_channel :: "string \<Rightarrow> nat \<Rightarrow> pyval" where
  "default_channel mt index = PDict [(''description'', PStr (''not_in_use ''
     @ (if mt \<in> set INPUT_MODULE_TYPES then ''input'' else ''output'') @ ''_'' @ int_str (int index)))]"

definition kept_channel :: "string \<Rightarrow> pydict \<Rightarrow> pyval res" where
  \<comment> \<open>an existing channel, its generated description renamed on an input module\<close>
  "kept_channel mt ch = (if mt \<notin> set INPUT_MODULE_TYPES then Inr (PDict ch)
     else (case (case map_of ch ''description'' of None \<Rightarrow> PStr [] | Some v \<Rightarrow> v) of
         PStr desc \<Rightarrow> if starts_with desc ''not_in_use output_''
           then Inr (PDict (dict_set ch ''description'' (PStr (''not_in_use input_'' @ drop (length ''not_in_use output_'') desc))))
           else Inr (PDict ch)
       | _ \<Rightarrow> Inl AttributeError))"

definition pad_channels :: "string \<Rightarrow> pyval \<Rightarrow> int \<Rightarrow> pyval list res" where
  "pad_channels mt existing channels_count =
     (let source = (case as_list existing of None \<Rightarrow> [] | Some xs \<Rightarrow> xs) in
      if channels_count \<le> 0 then Inr source
      else map_res (\<lambda>idx. case (if idx < length source then as_dict (source ! idx) else None) of
          Some ch \<Rightarrow> kept_channel mt ch
        | None \<Rightarrow> Inr (default_channel mt (idx + 1))) [0..<max (nat channels_count) (length source)])"

definition refresh_discovered_info :: "int \<Rightarrow> pydict \<Rightarrow> pyval" where
  "refresh_discovered_info channels_count device = PDict
     ([(''name'', py_or (dict_get device ''discovered_name'')
         (case map_of device ''description'' of None \<Rightarrow> PStr [] | Some v \<Rightarrow> v)),
       (''device_type'', dict_get device ''device_type'')]
      @ (if channels_count > 0 then [(''channels_count'', PInt channels_count)] else [])
      @ (case as_list (dict_get device ''logic_outputs'') of
           Some (x # xs) \<Rightarrow> [(''logic_outputs'', PList (map (PStr \<circ> upper \<circ> py_str) (x # xs)))] | _ \<Rightarrow> []))"

definition first_free :: "string \<Rightarrow> pyval list \<Rightarrow> string" where
  \<comment> \<open>the loop that counts up from 1 while the description is taken; one of the first \<open>n + 1\<close> is free\<close>
  "first_free prefix taken = (case filter (\<lambda>s. PStr s \<notin> set taken)
       (map (\<lambda>i. prefix @ int_str (int i)) [1..<length taken + 2]) of s # _ \<Rightarrow> s | [] \<Rightarrow> [])"

definition taken_descriptions :: "pydict \<Rightarrow> string \<Rightarrow> pyval list" where
  "taken_descriptions modules mt = map (\<lambda>m. dict_get m ''description'')
     (filter (\<lambda>m. dict_get m ''module_type'' = PStr mt) (dicts_of (map snd modules)))"

definition generate_description :: "pydict \<Rightarrow> string \<Rightarrow> string" where
  "generate_description modules mt =
     first_free (case map_of DESCRIPTION_PREFIX mt of Some p \<Rightarrow> p | None \<Rightarrow> mt @ ''_'')
       (taken_descriptions modules mt)"

definition device_channels :: "pydict \<Rightarrow> int" where
  "device_channels device = (case py_int (if dict_get device ''channels_count'' = PNone
       then py_or (dict_get device ''channels'') (PInt 0) else dict_get device ''channels_count'') of None \<Rightarrow> 0 | Some n \<Rightarrow> n)"

definition device_module_type :: "pydict \<Rightarrow> string" where
  "device_module_type device = (case map_of device ''module_type'' of Some (PStr s) \<Rightarrow> s | _ \<Rightarrow> ''other_module'')"

definition model_text :: "pydict \<Rightarrow> pyval" where
  "model_text device = py_or (dict_get device ''model'') (PStr [])"

definition refreshed_module :: "pydict \<Rightarrow> pydict \<Rightarrow> pydict res" where
  \<comment> \<open>the entry of a known module with the fields discovery owns refreshed\<close>
  "refreshed_module device entry = (let mt = device_module_type device; n = device_channels device;
       e1 = dict_set entry ''module_type'' (PStr mt);
       e2 = (if py_true (model_text device) \<and> dict_get e1 ''model'' \<noteq> model_text device
         then dict_set e1 ''model'' (model_text device) else e1);
       e3 = dict_set e2 ''discovered_info'' (refresh_discovered_info n device)
     in if mt \<in> set CHANNELLESS_MODULE_TYPES then Inr (dict_pop e3 ''channels'')
        else if n > 0 then res_bind (pad_channels mt
            (case map_of e3 ''channels'' of None \<Rightarrow> PList [] | Some v \<Rightarrow> v) n) (\<lambda>chs. Inr (dict_set e3 ''channels'' (PList chs)))
        else Inr e3)"

definition new_module_entry :: "pydict \<Rightarrow> pydict \<Rightarrow> pydict res" where
  "new_module_entry modules device = (let mt = device_module_type device; n = device_channels device;
       e = [(''module_type'', PStr mt), (''description'', PStr (generate_description modules mt)),
         (''model'', model_text device), (''discovered_info'', refresh_discovered_info n device)]
     in if mt \<notin> set CHANNELLESS_MODULE_TYPES \<and> n > 0
        then res_bind (pad_channels mt (PList []) n) (\<lambda>chs. Inr (e @ [(''channels'', PList chs)])) else Inr e)"

definition merge_module :: "string \<times> pyval \<Rightarrow> pydict \<times> nat \<times> nat \<Rightarrow> (pydict \<times> nat \<times> nat) res" where
  "merge_module = (\<lambda>(_, v) (modules, added, updated). case as_dict v of None \<Rightarrow> Inr (modules, added, updated)
     | Some device \<Rightarrow> let a = normalize_address (dict_get device ''address'') in
         if dict_get device ''category'' \<noteq> PStr ''Module'' \<or> a = [] then Inr (modules, added, updated)
         else (case as_dict (dict_get modules a) of
             Some entry \<Rightarrow> res_bind (refreshed_module device entry) (\<lambda>e.
               Inr (dict_set modules a (PDict e), added, updated + 1))
           | None \<Rightarrow> res_bind (new_module_entry modules device) (\<lambda>e.
               Inr (dict_set modules a (PDict e), added + 1, updated))))"

definition merge_discovered_modules :: "pydict \<Rightarrow> pydict \<Rightarrow> (pydict \<times> nat \<times> nat) res" where
  "merge_discovered_modules module_data discovered =
     (let (data, modules) = (case as_dict (dict_get module_data ''nikobus_module'') of
          Some ms \<Rightarrow> (module_data, ms) | None \<Rightarrow> (dict_set module_data ''nikobus_module'' (PDict []), []))
      in res_bind (fold_res merge_module discovered (modules, 0, 0)) (\<lambda>(modules', added, updated).
        Inr (dict_set data ''nikobus_module'' (PDict modules'), added, updated)))"

definition find_module :: "pydict \<Rightarrow> pyval \<Rightarrow> (string \<times> pydict) option" where
  "find_module module_data a = (case as_dict (dict_get module_data ''nikobus_module'') of None \<Rightarrow> None
     | Some modules \<Rightarrow> let target = normalize_address a in
         if target = [] then None else map_option (Pair target) (as_dict (dict_get modules target)))"

subsection \<open>Buttons\<close>

definition easywave_keys :: "string list" where
  "easywave_keys = concat (map (\<lambda>ch. [ch @ ''A'', ch @ ''B'', ch @ ''C'']
     @ concat (map (\<lambda>row. [ch @ ''.'' @ row @ ''A'', ch @ ''.'' @ row @ ''B'']) [''1'', ''2'', ''3'', ''4'', ''5'']))
     [''1'', ''2'', ''3'', ''4''])"

definition BUTTON_KEYS_BY_CHANNEL_COUNT :: "(int \<times> string list) list" where
  "BUTTON_KEYS_BY_CHANNEL_COUNT =
     [(1, [''1A'']), (2, [''1A'', ''1B'']), (4, [''1A'', ''1B'', ''1C'', ''1D'']),
      (8, [''1A'', ''1B'', ''1C'', ''1D'', ''2A'', ''2B'', ''2C'', ''2D'']), (52, easywave_keys)]"

definition ends_with :: "string \<Rightarrow> string \<Rightarrow> bool" where
  "ends_with s t \<longleftrightarrow> length t \<le> length s \<and> last_of (length t) s = t"

definition is_generated :: "string \<Rightarrow> pyval \<Rightarrow> bool res" where
  \<comment> \<open>\<open>not current or current.endswith(suffix)\<close>\<close>
  "is_generated suffix current = (if \<not> py_true current then Inr True
     else (case as_str current of None \<Rightarrow> Inl AttributeError | Some s \<Rightarrow> Inr (ends_with s suffix)))"

definition copy_fields :: "string list \<Rightarrow> pydict \<Rightarrow> pydict \<Rightarrow> pydict" where
  \<comment> \<open>the fields the device has, copied into the entry\<close>
  "copy_fields names device entry = fold (\<lambda>f e. case map_of device f of None \<Rightarrow> e | Some v \<Rightarrow> dict_set e f v) names entry"

definition collides :: "pyval \<Rightarrow> bool" where
  \<comment> \<open>a stored button of the inventory, not an entry of a remote code\<close>
  "collides existing = (case as_dict existing of None \<Rightarrow> False
     | Some e \<Rightarrow> map_of e ''remote_transmitter_bus_address'' = None \<and>
         dict_get e ''type'' \<noteq> PNone \<and> dict_get e ''type'' \<noteq> PStr ''Remote Code'')"

definition merge_remote :: "string \<Rightarrow> pydict \<Rightarrow> pyval \<Rightarrow> pydict \<Rightarrow> pydict res" where
  \<comment> \<open>a remote code with a bus address of its own\<close>
  "merge_remote plate device rt_bus buttons =
     (if collides (dict_get buttons plate) then Inr buttons
      else let description = py_or (dict_get device ''description'') (PStr []); model = py_or (dict_get device ''model'') (PStr []);
          generated = (if py_true description then description else PStr (''Remote '' @ plate));
          buttons1 = dict_default buttons plate (PDict [(''type'', PStr ''Remote Code''),
            (''model'', py_or model (PStr ''Remote Code'')), (''channels'', PInt 1), (''description'', generated),
            (''operation_points'', PDict [])])
        in (case as_dict (dict_get buttons1 plate) of None \<Rightarrow> Inl TypeError
          | Some e0 \<Rightarrow> let e1 = dict_set e0 ''channels'' (PInt 1);
              e2 = (if py_true (dict_get e1 ''description'') then e1 else dict_set e1 ''description'' generated);
              e3 = copy_fields [''remote_transmitter_address'', ''remote_transmitter_suffix'', ''remote_transmitter_bus_address''] device e2;
              ops = dict_default (dict_points e3) ''1A'' (PDict [])
            in (case as_dict (dict_get ops ''1A'') of None \<Rightarrow> Inl TypeError
              | Some op0 \<Rightarrow> let op1 = dict_set op0 ''bus_address'' rt_bus;
                  op2 = (if py_true (dict_get op1 ''description'') then op1
                    else dict_set op1 ''description'' (PStr (''Remote code '' @ py_str rt_bus)))
                in Inr (dict_set buttons1 plate (PDict (dict_set e3 ''operation_points'' (PDict (dict_set ops ''1A'' (PDict op2)))))))))"

definition key_layout_of :: "string \<Rightarrow> pydict \<Rightarrow> int \<Rightarrow> pyval \<Rightarrow> ((string \<times> string) list \<times> string option \<times> string option) res" where
  \<comment> \<open>the offsets of a device's keys, the type byte they follow, and the layout the plate was found in\<close>
  "key_layout_of plate device n existing =
     (let mapping = (case map_of KEY_MAPPING n of None \<Rightarrow> [] | Some m \<Rightarrow> m) in
      if dict_get device ''pc_logic_parent_address'' \<noteq> PNone
      then Inr ((case map_of PC_LOGIC_KEY_MAPPING n of Some m \<Rightarrow> m | None \<Rightarrow> mapping), None, None)
      else let device_type = upper (str_or_empty (dict_get device ''device_type'')) in
        (case map_of DEVICE_TYPE_KEY_MAPPING device_type of
           Some m \<Rightarrow> Inr (m, Some device_type, None)
         | None \<Rightarrow> if device_type \<in> set PER_PLATE_LAYOUT_TYPES \<and> n = 2
             then res_bind (known_two_button_layout existing) (\<lambda>layout.
               res_bind (of_option KeyError (map_of TWO_BUTTON_LAYOUTS
                   (case layout of Some (c # cs) \<Rightarrow> c # cs | _ \<Rightarrow> TWO_BUTTON_LAYOUT_GENERIC))) (\<lambda>m.
                 Inr (m, Some device_type, if layout = Some TWO_BUTTON_LAYOUT_RIGHT_PAIR then layout else None)))
             else Inr (mapping, None, None)))"

definition has_generated_text :: "string \<Rightarrow> string \<Rightarrow> bool \<Rightarrow> pydict \<Rightarrow> bool res" where
  \<comment> \<open>no description, or the generated one: for this address, or for the one a corrected layout replaces\<close>
  "has_generated_text key_label bus by_nibble op = (let previous = str_or_empty (dict_get op ''bus_address''); current = dict_get op ''description'' in
     res_bind (is_generated (''#N'' @ bus) current) (\<lambda>own.
       Inr (own \<or> (by_nibble \<and> previous \<noteq> [] \<and> current = PStr (push_button_text key_label previous)))))"

definition put_address :: "string \<Rightarrow> string \<Rightarrow> bool \<Rightarrow> pydict \<Rightarrow> pydict" where
  "put_address key_label bus again op = (let op1 = dict_set op ''bus_address'' (PStr bus) in
     if again then dict_set op1 ''description'' (PStr (push_button_text key_label bus)) else op1)"

definition refresh_point :: "string \<Rightarrow> string \<Rightarrow> bool \<Rightarrow> pydict \<Rightarrow> pydict res" where
  \<comment> \<open>a key's operation point at its address; its description regenerated while it is a generated one\<close>
  "refresh_point key_label bus by_nibble ops =
     (let ops1 = dict_default ops key_label (PDict [(''bus_address'', PStr bus),
            (''description'', PStr (push_button_text key_label bus))])
      in (case as_dict (dict_get ops1 key_label) of
            None \<Rightarrow> Inl (if by_nibble then AttributeError else TypeError)
          | Some op \<Rightarrow> res_bind (has_generated_text key_label bus by_nibble op) (\<lambda>again.
              Inr (dict_set ops1 key_label (PDict (put_address key_label bus again op))))))"

definition key_addresses :: "int \<Rightarrow> string list \<Rightarrow> (string \<times> string) list \<Rightarrow> int \<Rightarrow> string \<Rightarrow> (nat \<times> string \<times> string) list res" where
  \<comment> \<open>the keys of a device with their number from 1 and their bus address\<close>
  "key_addresses n keys mapping nibble converted =
     (case map_of KEY_MAPPING_FIRST_BYTE n of
        Some first_bytes \<Rightarrow> Inr (List.map_filter (\<lambda>(idx, key_label).
          map_option (\<lambda>h. (idx, key_label, normalize_address (PStr (upper h @ drop 2 converted)))) (map_of first_bytes key_label))
          (zip [1..<length keys + 1] keys))
      | None \<Rightarrow> map_res (\<lambda>(idx, key_label, h). case py_int16 h of None \<Rightarrow> Inl ValueError
          | Some add \<Rightarrow> Inr (idx, key_label, normalize_address (PStr (fmt_hex 1 ((nibble + add) AND 0xF) @ drop 1 converted))))
          (List.map_filter (\<lambda>(idx, key_label). map_option (\<lambda>h. (idx, key_label, h)) (map_of mapping key_label))
            (zip [1..<length keys + 1] keys)))"

definition PROVENANCE_KEYS :: "string list" where
  "PROVENANCE_KEYS = [''pc_logic_parent_address'', ''pc_logic_parent_type'', ''pc_logic_slot_index'',
     ''remote_transmitter_address'', ''remote_transmitter_suffix'', ''virtual_button'', ''virtual_class'', ''virtual_parent_address'']"

definition set_if :: "bool \<Rightarrow> string \<Rightarrow> pyval \<Rightarrow> pydict \<Rightarrow> pydict" where
  "set_if b k v e = (if b then dict_set e k v else e)"

definition refresh_plate :: "string \<Rightarrow> pydict \<Rightarrow> int \<Rightarrow> string option \<Rightarrow> string option \<Rightarrow> pydict \<Rightarrow> pydict res" where
  \<comment> \<open>the fields of a plate's entry after the upsert, up to its operation points\<close>
  "refresh_plate plate device n by_type layout entry =
     (let description = py_or (dict_get device ''description'') (PStr []); model = py_or (dict_get device ''model'') (PStr []);
          generated = PStr (if py_true description then py_str description @ '' #N'' @ plate else ''#N'' @ plate);
          e1 = dict_set entry ''type'' (py_or description (py_or (dict_get entry ''type'') (PStr [])));
          e2 = dict_set e1 ''model'' (py_or model (py_or (dict_get e1 ''model'') (PStr [])));
          e3 = dict_set e2 ''channels'' (py_or (PInt n) (dict_get e2 ''channels''));
          e4 = set_if (py_true (dict_get device ''component_number'')) ''component_number'' (dict_get device ''component_number'') e3;
          e5 = set_if (by_type \<noteq> None) ''device_type'' (opt_str by_type) e4;
          e6 = set_if (layout \<noteq> None) ''key_layout'' (opt_str layout) e5;
          e7 = copy_fields PROVENANCE_KEYS device e6
      in res_bind (is_generated (''#N'' @ plate) (dict_get e7 ''description'')) (\<lambda>own.
        Inr (set_if own ''description'' generated e7)))"

definition new_plate :: "string \<Rightarrow> pydict \<Rightarrow> int \<Rightarrow> pyval" where
  "new_plate plate device n = (let description = py_or (dict_get device ''description'') (PStr []) in
     PDict [(''type'', description), (''model'', py_or (dict_get device ''model'') (PStr [])), (''channels'', PInt n),
       (''description'', PStr (if py_true description then py_str description @ '' #N'' @ plate else ''#N'' @ plate)),
       (''operation_points'', PDict [])])"

definition channels_data :: "(nat \<times> string \<times> string) list \<Rightarrow> pyval" where
  "channels_data keys = PDict (map (\<lambda>(idx, key_label, bus). (''channel_'' @ int_str (int idx),
     PDict [(''key'', PStr key_label), (''address'', PStr bus)])) keys)"

definition merge_plate :: "string \<Rightarrow> pydict \<Rightarrow> int \<Rightarrow> string list \<Rightarrow> pydict \<Rightarrow> (pydict \<times> pydict) res" where
  \<comment> \<open>a device of the inventory with keys: the store and the device afterwards\<close>
  "merge_plate plate device n keys buttons = res_bind (key_layout_of plate device n (dict_get buttons plate)) (\<lambda>(mapping, by_type, layout).
     let converted = convert_nikobus_address plate in
     (case py_int16 (take 1 converted) of None \<Rightarrow> Inr (buttons, device)
      | Some nibble \<Rightarrow> let buttons1 = dict_default buttons plate (new_plate plate device n) in
          (case as_dict (dict_get buttons1 plate) of
             None \<Rightarrow> Inl (if py_true (dict_get device ''description'') then TypeError else AttributeError)
           | Some e0 \<Rightarrow> res_bind (refresh_plate plate device n by_type layout e0) (\<lambda>e1.
               res_bind (key_addresses n keys mapping nibble converted) (\<lambda>addresses.
                 res_bind (fold_res (\<lambda>(idx, key_label, bus). refresh_point key_label bus (map_of KEY_MAPPING_FIRST_BYTE n = None))
                     addresses (dict_points e1)) (\<lambda>ops.
                   Inr (dict_set buttons1 plate (PDict (dict_set e1 ''operation_points'' (PDict ops))),
                     dict_set device ''channels_data'' (channels_data addresses))))))))"

definition merge_button :: "string \<times> pydict \<Rightarrow> pydict \<times> (string \<times> pydict) list \<Rightarrow> (pydict \<times> (string \<times> pydict) list) res" where
  "merge_button = (\<lambda>(a, device) (buttons, devices). let plate = normalize_address (PStr a) in
     if dict_get device ''category'' \<noteq> PStr ''Button'' \<or> plate = [] then Inr (buttons, devices @ [(a, device)])
     else let rt_bus = dict_get device ''remote_transmitter_bus_address'' in
       if rt_bus \<noteq> PNone then res_bind (merge_remote plate device rt_bus buttons) (\<lambda>bs. Inr (bs, devices @ [(a, device)]))
       else (case Option.bind (as_int (if map_of device ''channels'' = None then PInt 0 else dict_get device ''channels''))
             (\<lambda>n. map_option (Pair n) (map_of BUTTON_KEYS_BY_CHANNEL_COUNT n)) of
           None \<Rightarrow> Inr (buttons, devices @ [(a, device)])
         | Some (n, keys) \<Rightarrow> res_bind (merge_plate plate device n keys buttons) (\<lambda>(bs, device').
             Inr (bs, devices @ [(a, device')]))))"

definition merge_discovered_buttons :: "pydict \<Rightarrow> (string \<times> pydict) list \<Rightarrow> (pydict \<times> (string \<times> pydict) list) res" where
  "merge_discovered_buttons button_data discovered = (let (data, buttons) = ensure_buttons_dict button_data in
     res_bind (fold_res merge_button discovered (buttons, [])) (\<lambda>(bs, devices).
       Inr (dict_set data ''nikobus_button'' (PDict bs), devices)))"

subsection \<open>Module descriptions\<close>

lemma dec_value_to_dec: "foldl (\<lambda>a c. 10 * a + (code c - 48)) 0 (to_dec n) = n"
proof (induction n rule: less_induct)
  case (less n)
  show ?case
  proof (cases "n < 10")
    case True
    then show ?thesis by (simp add: to_dec.simps[of n] code_hex_dig)
  next
    case False
    then have "foldl (\<lambda>a c. 10 * a + (code c - 48)) 0 (to_dec (n div 10)) = n div 10" using less by simp
    moreover have "code (hex_dig (n mod 10)) - 48 = n mod 10"
      using code_hex_dig[of "n mod 10"] mod_less_divisor[of 10 n] by simp
    ultimately show ?thesis using False by (simp add: to_dec.simps[of n])
  qed
qed

lemma to_dec_inject: "to_dec m = to_dec n \<longleftrightarrow> m = n"
  using dec_value_to_dec by metis

lemma to_dec_nonempty: "to_dec n \<noteq> []"
  by (simp add: to_dec.simps[of n])

lemma int_str_nat: "int_str (int n) = to_dec n"
proof -
  have "1 - length (to_dec n) = 0" using to_dec_nonempty[of n] by (cases "to_dec n") simp_all
  then show ?thesis by (simp add: int_str_def fmt_dec_def zfill_def)
qed

lemma first_free_is_free: "PStr (first_free prefix taken) \<notin> set taken"
proof -
  define names where "names = map (\<lambda>i. prefix @ int_str (int i)) [1..<length taken + 2]"
  have d: "distinct names" "length names = length taken + 1"
    by (simp_all add: names_def distinct_map inj_on_def int_str_nat to_dec_inject del: upt_Suc)
  have "filter (\<lambda>s. PStr s \<notin> set taken) names \<noteq> []"
  proof
    assume "filter (\<lambda>s. PStr s \<notin> set taken) names = []"
    then have s: "PStr ` set names \<subseteq> set taken" by (auto simp: filter_empty_conv)
    have "card (PStr ` set names) = length taken + 1"
      using d by (simp add: card_image inj_on_def distinct_card)
    then show False using card_mono[OF _ s] card_length[of taken] by simp
  qed
  then obtain s ss where f: "filter (\<lambda>s. PStr s \<notin> set taken) names = s # ss"
    by (cases "filter (\<lambda>s. PStr s \<notin> set taken) names") auto
  then have "s \<in> set (filter (\<lambda>s. PStr s \<notin> set taken) names)" by simp
  then have "PStr s \<notin> set taken" by simp
  moreover have "first_free prefix taken = s" unfolding first_free_def names_def[symmetric] f by simp
  ultimately show ?thesis by simp
qed

subsection \<open>What the merge keeps\<close>

definition channels_kept :: "pydict \<Rightarrow> pydict \<Rightarrow> bool" where
  \<comment> \<open>the stored channels are there, at their places and as they were\<close>
  "channels_kept e e' \<longleftrightarrow> (\<forall>chs. dict_get e ''channels'' = PList chs \<longrightarrow> (\<exists>chs'. dict_get e' ''channels'' = PList chs' \<and>
     length chs \<le> length chs' \<and> (\<forall>i < length chs. as_dict (chs ! i) \<noteq> None \<longrightarrow> chs' ! i = chs ! i)))"

lemma channels_kept_refl [simp]: "channels_kept e e"
  by (simp add: channels_kept_def)

lemma channels_kept_trans: "channels_kept a b \<Longrightarrow> channels_kept b c \<Longrightarrow> channels_kept a c"
proof (unfold channels_kept_def, intro allI impI)
  fix chs
  assume ab: "\<forall>chs. dict_get a ''channels'' = PList chs \<longrightarrow> (\<exists>chs'. dict_get b ''channels'' = PList chs' \<and>
      length chs \<le> length chs' \<and> (\<forall>i < length chs. as_dict (chs ! i) \<noteq> None \<longrightarrow> chs' ! i = chs ! i))"
    and bc: "\<forall>chs. dict_get b ''channels'' = PList chs \<longrightarrow> (\<exists>chs'. dict_get c ''channels'' = PList chs' \<and>
      length chs \<le> length chs' \<and> (\<forall>i < length chs. as_dict (chs ! i) \<noteq> None \<longrightarrow> chs' ! i = chs ! i))"
    and "dict_get a ''channels'' = PList chs"
  then obtain bs where b: "dict_get b ''channels'' = PList bs" "length chs \<le> length bs"
      "\<forall>i < length chs. as_dict (chs ! i) \<noteq> None \<longrightarrow> bs ! i = chs ! i" by blast
  with bc obtain cs where "dict_get c ''channels'' = PList cs" "length bs \<le> length cs"
      "\<forall>i < length bs. as_dict (bs ! i) \<noteq> None \<longrightarrow> cs ! i = bs ! i" by blast
  with b show "\<exists>chs'. dict_get c ''channels'' = PList chs' \<and> length chs \<le> length chs' \<and>
      (\<forall>i < length chs. as_dict (chs ! i) \<noteq> None \<longrightarrow> chs' ! i = chs ! i)"
    by (intro exI[of _ cs]) auto
qed

lemma kept_channel_output: "mt \<notin> set CHANNELLESS_MODULE_TYPES \<Longrightarrow> kept_channel mt ch = Inr (PDict ch)"
  by (simp add: kept_channel_def CHANNELLESS_MODULE_TYPES_def INPUT_MODULE_TYPES_def)

lemma map_res_nth: "map_res f xs = Inr ys \<Longrightarrow> length ys = length xs \<and> (\<forall>i < length xs. f (xs ! i) = Inr (ys ! i))"
  by (simp add: map_res_Inr list_all2_conv_all_nth)

lemma pad_keeps:
  assumes "pad_channels mt (PList chs) n = Inr out" "0 < n" "mt \<notin> set CHANNELLESS_MODULE_TYPES"
  shows "length chs \<le> length out \<and> nat n \<le> length out \<and> (\<forall>i < length chs. as_dict (chs ! i) \<noteq> None \<longrightarrow> out ! i = chs ! i)"
proof -
  let ?f = "\<lambda>idx. case (if idx < length chs then as_dict (chs ! idx) else None) of
      Some ch \<Rightarrow> kept_channel mt ch | None \<Rightarrow> Inr (default_channel mt (idx + 1))"
  have m: "map_res ?f [0..<max (nat n) (length chs)] = Inr out" using assms(1,2) by (simp add: pad_channels_def)
  have l: "length out = max (nat n) (length chs)" using map_res_nth[OF m] by simp
  have "out ! i = chs ! i" if i: "i < length chs" and a: "as_dict (chs ! i) \<noteq> None" for i
  proof -
    obtain d where d: "chs ! i = PDict d" using a by auto
    have "?f i = Inr (out ! i)" using map_res_nth[OF m] i by (metis add_0 length_upt less_max_iff_disj minus_nat.diff_0 nth_upt)
    then show ?thesis using i d kept_channel_output[OF assms(3)] by simp
  qed
  with l show ?thesis by auto
qed

definition owned_by_discovery :: "string list" where
  "owned_by_discovery = [''module_type'', ''model'', ''discovered_info'', ''channels'']"

lemma refreshed_keeps:
  assumes "refreshed_module device entry = Inr e"
  shows "\<forall>f. f \<notin> set owned_by_discovery \<longrightarrow> map_of e f = map_of entry f"
    and "device_module_type device \<notin> set CHANNELLESS_MODULE_TYPES \<Longrightarrow> channels_kept entry e"
proof -
  show "\<forall>f. f \<notin> set owned_by_discovery \<longrightarrow> map_of e f = map_of entry f"
    using assms by (auto simp: refreshed_module_def Let_def owned_by_discovery_def map_of_dict_pop res_bind_Inr_iff split: if_splits)
  assume t: "device_module_type device \<notin> set CHANNELLESS_MODULE_TYPES"
  show "channels_kept entry e"
    unfolding channels_kept_def
  proof (intro allI impI)
    fix chs assume c: "dict_get entry ''channels'' = PList chs"
    then have m: "map_of entry ''channels'' = Some (PList chs)" using dict_get_map_of[of entry "''channels''"] by simp
    show "\<exists>chs'. dict_get e ''channels'' = PList chs' \<and> length chs \<le> length chs' \<and>
        (\<forall>i < length chs. as_dict (chs ! i) \<noteq> None \<longrightarrow> chs' ! i = chs ! i)"
    proof (cases "0 < device_channels device")
      case True
      then obtain out where "pad_channels (device_module_type device) (PList chs) (device_channels device) = Inr out"
          "dict_get e ''channels'' = PList out"
        using assms t m by (auto simp: refreshed_module_def Let_def res_bind_Inr_iff split: if_splits)
      with pad_keeps[OF this(1) True t] show ?thesis by blast
    next
      case False
      then show ?thesis using assms t c by (auto simp: refreshed_module_def Let_def split: if_splits)
    qed
  qed
qed

lemma merge_module_step:
  assumes "merge_module dv (ms, added, updated) = Inr (ms', added', updated')"
  shows "ms' = ms \<and> added' = added \<and> updated' = updated \<or>
    (\<exists>device a e. snd dv = PDict device \<and> a = normalize_address (dict_get device ''address'') \<and>
       ms' = dict_set ms a (PDict e) \<and> added' + updated' = added + updated + 1 \<and>
       (\<forall>entry. dict_get ms a = PDict entry \<longrightarrow> refreshed_module device entry = Inr e) \<and>
       (as_dict (dict_get ms a) = None \<longrightarrow> new_module_entry ms device = Inr e))"
proof (cases "as_dict (snd dv)")
  case None
  then show ?thesis using assms by (simp add: merge_module_def case_prod_unfold)
next
  case (Some device)
  then show ?thesis using assms
    by (auto simp: merge_module_def case_prod_unfold Let_def res_bind_Inr_iff split: if_splits option.splits)
qed

lemma new_module_described:
  assumes "new_module_entry ms device = Inr e"
  shows "dict_get e ''description'' = PStr (generate_description ms (device_module_type device))"
  using assms by (auto simp: new_module_entry_def Let_def res_bind_Inr_iff split: if_splits)

definition turns_channelless :: "pydict \<Rightarrow> string \<Rightarrow> bool" where
  \<comment> \<open>a discovered device makes the module at the address one without channels\<close>
  "turns_channelless discovered a \<longleftrightarrow> (\<exists>device. PDict device \<in> set (map snd discovered) \<and>
     normalize_address (dict_get device ''address'') = a \<and> device_module_type device \<in> set CHANNELLESS_MODULE_TYPES)"

lemma merge_fold_keeps:
  assumes "fold_res merge_module discovered (ms, x, y) = Inr (ms', x', y')" "dict_get ms a = PDict entry"
  shows "\<exists>entry'. dict_get ms' a = PDict entry' \<and>
    (\<forall>f. f \<notin> set owned_by_discovery \<longrightarrow> map_of entry' f = map_of entry f) \<and>
    (\<not> turns_channelless discovered a \<longrightarrow> channels_kept entry entry')"
  using assms
proof (induction discovered arbitrary: ms x y entry)
  case Nil
  then show ?case by simp
next
  case (Cons dv discovered)
  obtain ms1 x1 y1 where s: "merge_module dv (ms, x, y) = Inr (ms1, x1, y1)"
    and r: "fold_res merge_module discovered (ms1, x1, y1) = Inr (ms', x', y')"
    using Cons.prems(1) by (auto simp: res_bind_Inr_iff)
  have later: "turns_channelless discovered a \<Longrightarrow> turns_channelless (dv # discovered) a"
    by (auto simp: turns_channelless_def)
  obtain e1 where e1: "dict_get ms1 a = PDict e1" "\<forall>f. f \<notin> set owned_by_discovery \<longrightarrow> map_of e1 f = map_of entry f"
      "\<not> turns_channelless (dv # discovered) a \<longrightarrow> channels_kept entry e1"
  proof (cases "dict_get ms1 a = dict_get ms a")
    case True
    then show ?thesis using that[of entry] Cons.prems(2) by simp
  next
    case False
    then obtain device e where d: "snd dv = PDict device" "a = normalize_address (dict_get device ''address'')"
        "refreshed_module device entry = Inr e" "dict_get ms1 a = PDict e"
      using merge_module_step[OF s] Cons.prems(2) by (auto split: if_splits)
    show ?thesis
    proof (rule that)
      show "dict_get ms1 a = PDict e" by (rule d(4))
      show "\<forall>f. f \<notin> set owned_by_discovery \<longrightarrow> map_of e f = map_of entry f" by (rule refreshed_keeps(1)[OF d(3)])
      show "\<not> turns_channelless (dv # discovered) a \<longrightarrow> channels_kept entry e"
        using refreshed_keeps(2)[OF d(3)] d(1,2) by (auto simp: turns_channelless_def)
    qed
  qed
  from Cons.IH[OF r e1(1)] obtain e2 where "dict_get ms' a = PDict e2"
      "\<forall>f. f \<notin> set owned_by_discovery \<longrightarrow> map_of e2 f = map_of e1 f" "\<not> turns_channelless discovered a \<longrightarrow> channels_kept e1 e2"
    by blast
  then show ?case using e1 later channels_kept_trans by (intro exI[of _ e2]) auto
qed

text \<open>
  C40. Merging the modules of a scan into the store. Every stored module stays, with every field that is not the
  discovery's (its description above all) as it was, and, unless a scan found a module without
  channels there, with every stored channel at its place as it was and none lost. The description
  given to a new module is free among those of its type: the counter always finds one.
\<close>

theorem module_merge_keeps_user_data:
  assumes "dict_get module_data ''nikobus_module'' = PDict ms"
    and "merge_discovered_modules module_data discovered = Inr (data', added, updated)"
  shows "\<exists>ms'. dict_get data' ''nikobus_module'' = PDict ms' \<and>
    (\<forall>a entry. dict_get ms a = PDict entry \<longrightarrow> (\<exists>entry'. dict_get ms' a = PDict entry' \<and>
       (\<forall>f. f \<notin> set owned_by_discovery \<longrightarrow> map_of entry' f = map_of entry f) \<and>
       (\<not> turns_channelless discovered a \<longrightarrow> channels_kept entry entry'))) \<and>
    (\<forall>any device e. new_module_entry any device = Inr e \<longrightarrow>
       dict_get e ''description'' \<notin> set (taken_descriptions any (device_module_type device)))"
proof -
  obtain ms' where m: "fold_res merge_module discovered (ms, 0, 0) = Inr (ms', added, updated)"
    and d: "data' = dict_set module_data ''nikobus_module'' (PDict ms')"
    using assms by (auto simp: merge_discovered_modules_def res_bind_Inr_iff)
  have "dict_get e ''description'' \<notin> set (taken_descriptions any (device_module_type device))"
    if "new_module_entry any device = Inr e" for any device e
    using new_module_described[OF that] first_free_is_free by (simp add: generate_description_def)
  then show ?thesis using merge_fold_keeps[OF m] by (simp add: d)
qed

definition example_modules :: pydict where
  "example_modules = [(''nikobus_module'', PDict [(''0E6C'', PDict [(''module_type'', PStr ''switch_module''),
     (''description'', PStr ''Kitchen''), (''channels'', PList [PDict [(''description'', PStr ''Sink'')]])])])]"

definition example_found :: pydict where
  "example_found = [(''0E6C'', PDict [(''category'', PStr ''Module''), (''address'', PStr ''0e6c''),
     (''module_type'', PStr ''switch_module''), (''channels'', PInt 2)]),
     (''9105'', PDict [(''category'', PStr ''Module''), (''address'', PStr ''9105''), (''module_type'', PStr ''roller_module'')])]"

theorem module_merge_keeps_user_data_witness:
  "\<exists>data' ms' entry'. merge_discovered_modules example_modules example_found = Inr (data', 1, 1) \<and>
     dict_get data' ''nikobus_module'' = PDict ms' \<and> dict_get ms' ''0E6C'' = PDict entry' \<and>
     map_of entry' ''description'' = Some (PStr ''Kitchen'')"
proof -
  have "(case merge_discovered_modules example_modules example_found of Inr (d, a, u) \<Rightarrow> a = 1 \<and> u = 1 | Inl e \<Rightarrow> False)"
    by code_simp
  then obtain data' where m: "merge_discovered_modules example_modules example_found = Inr (data', 1, 1)"
    by (auto split: sum.splits)
  let ?ms = "[(''0E6C'', PDict [(''module_type'', PStr ''switch_module''), (''description'', PStr ''Kitchen''),
     (''channels'', PList [PDict [(''description'', PStr ''Sink'')]])])]"
  let ?entry = "[(''module_type'', PStr ''switch_module''), (''description'', PStr ''Kitchen''),
     (''channels'', PList [PDict [(''description'', PStr ''Sink'')]])]"
  have g: "dict_get example_modules ''nikobus_module'' = PDict ?ms" by (simp add: example_modules_def)
  obtain ms' where p: "dict_get data' ''nikobus_module'' = PDict ms'"
    and k: "\<forall>a entry. dict_get ?ms a = PDict entry \<longrightarrow> (\<exists>entry'. dict_get ms' a = PDict entry' \<and>
       (\<forall>f. f \<notin> set owned_by_discovery \<longrightarrow> map_of entry' f = map_of entry f) \<and>
       (\<not> turns_channelless example_found a \<longrightarrow> channels_kept entry entry'))"
    using module_merge_keeps_user_data[OF g m] by (elim exE conjE) assumption
  have "dict_get ?ms ''0E6C'' = PDict ?entry" by simp
  from k[rule_format, OF this] obtain entry' where e: "dict_get ms' ''0E6C'' = PDict entry'"
    and f: "\<forall>f. f \<notin> set owned_by_discovery \<longrightarrow> map_of entry' f = map_of ?entry f" by (elim exE conjE) assumption
  have "map_of entry' ''description'' = Some (PStr ''Kitchen'')"
    using f[rule_format, of "''description''"] by (simp add: owned_by_discovery_def)
  with m p e show ?thesis by (intro exI conjI)
qed

subsection \<open>The keys of a merged plate\<close>

definition keeps_links :: "pyval \<Rightarrow> string \<Rightarrow> string \<Rightarrow> pydict \<Rightarrow> bool" where
  \<comment> \<open>the operation point \<open>op\<close> has the bus address, what the stored one had but its address and description,
     and its description unless that was a generated one\<close>
  "keeps_links stored label bus op \<longleftrightarrow> dict_get op ''bus_address'' = PStr bus \<and>
     (\<forall>op0. stored = PDict op0 \<longrightarrow> (\<forall>f. f \<notin> {''bus_address'', ''description''} \<longrightarrow> map_of op f = map_of op0 f) \<and>
       (\<forall>s. dict_get op0 ''description'' = PStr s \<longrightarrow> s \<noteq> [] \<longrightarrow> \<not> ends_with s (''#N'' @ bus) \<longrightarrow>
          s \<noteq> push_button_text label (str_or_empty (dict_get op0 ''bus_address'')) \<longrightarrow> dict_get op ''description'' = PStr s))"

lemma refresh_point_facts:
  assumes "refresh_point label bus nib ops = Inr ops'"
  shows "\<exists>op. map_of ops' label = Some (PDict op) \<and> keeps_links (dict_get ops label) label bus op"
    and "l \<noteq> label \<Longrightarrow> map_of ops' l = map_of ops l"
proof -
  define ops1 where "ops1 = dict_default ops label (PDict [(''bus_address'', PStr bus), (''description'', PStr (push_button_text label bus))])"
  from assms obtain op0 again where o: "dict_get ops1 label = PDict op0"
    and g: "has_generated_text label bus nib op0 = Inr again"
    and r: "ops' = dict_set ops1 label (PDict (put_address label bus again op0))"
    by (auto simp: refresh_point_def ops1_def[symmetric] Let_def res_bind_Inr_iff split: option.splits)
  show "l \<noteq> label \<Longrightarrow> map_of ops' l = map_of ops l" by (simp add: r ops1_def dict_default_map_of)
  have "keeps_links (dict_get ops label) label bus (put_address label bus again op0)"
  proof (cases "dict_get ops label")
    case (PDict old)
    then have "map_of ops label = Some (PDict old)" using dict_get_map_of[of ops label] by simp
    then have "old = op0" using o PDict by (simp add: ops1_def dict_default_def)
    then show ?thesis using g
      by (auto simp: keeps_links_def PDict put_address_def has_generated_text_def is_generated_def py_true_def Let_def res_bind_Inr_iff)
  qed (simp_all add: keeps_links_def put_address_def Let_def)
  then show "\<exists>op. map_of ops' label = Some (PDict op) \<and> keeps_links (dict_get ops label) label bus op"
    by (simp add: r)
qed

lemma refresh_points_facts:
  assumes "fold_res (\<lambda>(idx :: nat, label, bus). refresh_point label bus nib) addresses ops = Inr ops'"
    and "distinct (map (\<lambda>(idx, label, bus). label) addresses)"
  shows "(\<forall>(idx, label, bus) \<in> set addresses. \<exists>op. map_of ops' label = Some (PDict op) \<and>
      keeps_links (dict_get ops label) label bus op) \<and>
    (\<forall>l. l \<notin> set (map (\<lambda>(idx, label, bus). label) addresses) \<longrightarrow> map_of ops' l = map_of ops l)"
  using assms
proof (induction addresses arbitrary: ops)
  case Nil
  then show ?case by simp
next
  case (Cons a addresses)
  obtain idx label bus where a: "a = (idx, label, bus)" by (cases a)
  from Cons.prems obtain ops1 where r: "refresh_point label bus nib ops = Inr ops1"
    and f: "fold_res (\<lambda>(idx :: nat, label, bus). refresh_point label bus nib) addresses ops1 = Inr ops'"
    by (auto simp: a res_bind_Inr_iff)
  have d: "distinct (map (\<lambda>(idx, label, bus). label) addresses)" "label \<notin> set (map (\<lambda>(idx, label, bus). label) addresses)"
    using Cons.prems(2) by (simp_all add: a)
  note ih = Cons.IH[OF f d(1)]
  have g: "dict_get ops1 l = dict_get ops l" if "l \<noteq> label" for l
    using refresh_point_facts(2)[OF r that] by (simp add: dict_get_def)
  have same: "map_of ops' label = map_of ops1 label" using ih d(2) by blast
  have "\<exists>op. map_of ops' l = Some (PDict op) \<and> keeps_links (dict_get ops l) l b op" if "(i, l, b) \<in> set addresses" for i l b
  proof -
    have "l \<noteq> label" using that d(2) by force
    moreover have "\<exists>op. map_of ops' l = Some (PDict op) \<and> keeps_links (dict_get ops1 l) l b op" using ih that by blast
    ultimately show ?thesis using g by simp
  qed
  moreover have "map_of ops' l = map_of ops l" if "l \<notin> set (map (\<lambda>(idx, label, bus). label) (a # addresses))" for l
    using that ih refresh_point_facts(2)[OF r, of l] by (simp add: a)
  ultimately show ?case using refresh_point_facts(1)[OF r] same by (auto simp: a)
qed

lemma map_filter_Cons: "List.map_filter f (x # xs) = (case f x of None \<Rightarrow> List.map_filter f xs | Some y \<Rightarrow> y # List.map_filter f xs)"
  by (simp add: List.map_filter_simps)

lemma labels_subset: "(i, l, h) \<in> set (List.map_filter (\<lambda>(idx, l). map_option (\<lambda>h. (idx, l, h)) (map_of m l)) xs) \<Longrightarrow>
    l \<in> set (map snd xs) \<and> map_of m l = Some h"
  by (induction xs) (auto simp: map_filter_Cons List.map_filter_simps split: option.splits)

lemma labels_complete: "(i, l) \<in> set xs \<Longrightarrow> map_of m l = Some h \<Longrightarrow>
    (i, l, h) \<in> set (List.map_filter (\<lambda>(idx, l). map_option (\<lambda>h. (idx, l, h)) (map_of m l)) xs)"
  by (induction xs) (auto simp: map_filter_Cons List.map_filter_simps split: option.splits)

lemma distinct_labels:
  "distinct (map snd xs) \<Longrightarrow>
   distinct (map (\<lambda>(idx, label, bus). label) (List.map_filter (\<lambda>(idx, l). map_option (\<lambda>h. (idx, l, h)) (map_of m l)) xs))"
proof (induction xs)
  case (Cons x xs)
  obtain i l where x: "x = (i, l)" by (cases x)
  have "l \<notin> set (map (\<lambda>(idx, label, bus). label) (List.map_filter (\<lambda>(idx, l). map_option (\<lambda>h. (idx, l, h)) (map_of m l)) xs))"
    using Cons.prems labels_subset[of _ l _ m xs] by (auto simp: x)
  then show ?case using Cons by (simp add: x map_filter_Cons split: option.split)
qed (simp add: List.map_filter_simps)

lemma copy_fields_other: "f \<notin> set names \<Longrightarrow> map_of (copy_fields names device e) f = map_of e f"
  unfolding copy_fields_def by (induction names arbitrary: e) (auto split: option.split)

lemma set_if_other: "f \<noteq> k \<Longrightarrow> map_of (set_if b k v e) f = map_of e f"
  by (simp add: set_if_def)

lemma refresh_plate_points: "refresh_plate plate device n by_type layout e = Inr e' \<Longrightarrow> dict_points e' = dict_points e"
  by (auto simp: refresh_plate_def Let_def res_bind_Inr_iff dict_points_def dict_get_def set_if_other copy_fields_other
    PROVENANCE_KEYS_def)

lemma button_keys_distinct: "map_of BUTTON_KEYS_BY_CHANNEL_COUNT n = Some keys \<Longrightarrow> distinct keys"
proof -
  have "list_all (\<lambda>(n, keys). distinct keys) BUTTON_KEYS_BY_CHANNEL_COUNT" by code_simp
  then show "map_of BUTTON_KEYS_BY_CHANNEL_COUNT n = Some keys \<Longrightarrow> distinct keys"
    by (auto simp: list_all_iff dest!: map_of_SomeD)
qed

lemma map_res_elem: "map_res f xs = Inr ys \<Longrightarrow> x \<in> set xs \<Longrightarrow> \<exists>y. f x = Inr y \<and> y \<in> set ys"
  by (induction xs arbitrary: ys) (auto simp: res_bind_Inr_iff)

lemma key_addresses_labels:
  assumes "key_addresses n keys mapping nibble converted = Inr addresses" "map_of KEY_MAPPING_FIRST_BYTE n = None"
    "distinct keys" "py_int16 (take 1 converted) = Some nibble"
  shows "distinct (map (\<lambda>(idx, label, bus). label) addresses) \<and>
    (\<forall>label \<in> set keys. \<forall>h. map_of mapping label = Some h \<longrightarrow> (\<exists>idx frame. add_first_nibble converted h = Some frame \<and>
       (idx, label, normalize_address (PStr frame)) \<in> set addresses))"
proof -
  let ?xs = "List.map_filter (\<lambda>(idx, l). map_option (\<lambda>h. (idx, l, h)) (map_of mapping l)) (zip [1..<length keys + 1] keys)"
  let ?f = "\<lambda>(idx :: nat, key_label :: string, h). case py_int16 h of None \<Rightarrow> Inl ValueError
     | Some add \<Rightarrow> Inr (idx, key_label, normalize_address (PStr (fmt_hex 1 ((nibble + add) AND 0xF) @ drop 1 converted)))"
  have m: "map_res ?f ?xs = Inr addresses" using assms(1,2) by (simp add: key_addresses_def)
  have l: "map (\<lambda>(idx, label, bus). label) ys = map (\<lambda>(idx, label, h). label) xs" if "map_res ?f xs = Inr ys" for xs ys
    using that by (induction xs arbitrary: ys) (auto simp: res_bind_Inr_iff split: option.splits)
  have z: "map snd (zip [1..<length keys + 1] keys) = keys" by (simp del: upt_Suc)
  have d: "distinct (map (\<lambda>(idx, label, bus). label) addresses)"
    unfolding l[OF m] using distinct_labels[of "zip [1..<length keys + 1] keys" mapping] assms(3) by (simp add: z del: upt_Suc)
  have "\<exists>idx frame. add_first_nibble converted h = Some frame \<and> (idx, label, normalize_address (PStr frame)) \<in> set addresses"
    if k: "label \<in> set keys" and h: "map_of mapping label = Some h" for label h
  proof -
    have "label \<in> set (map snd (zip [1..<length keys + 1] keys))" unfolding z by (rule k)
    then obtain idx where "(idx, label) \<in> set (zip [1..<length keys + 1] keys)" by auto
    from labels_complete[OF this h] have i: "(idx, label, h) \<in> set ?xs" .
    obtain y where y: "?f (idx, label, h) = Inr y" "y \<in> set addresses" using map_res_elem[OF m i] by blast
    then obtain add where "py_int16 h = Some add"
        "y = (idx, label, normalize_address (PStr (fmt_hex 1 ((nibble + add) AND 0xF) @ drop 1 converted)))"
      by (auto split: option.splits)
    with y(2) assms(4) show ?thesis by (auto simp: add_first_nibble_alt)
  qed
  with d show ?thesis by blast
qed

definition stored_plate :: "pydict \<Rightarrow> string \<Rightarrow> pydict" where
  "stored_plate buttons plate = (case as_dict (dict_get buttons plate) of None \<Rightarrow> [] | Some e \<Rightarrow> e)"

text \<open>
  C39. Merging a plate of the inventory into the button store. Every key of the plate's layout ends with an
  operation point at the frame the layout gives it; a key that was stored keeps its links and every
  other field, and its description unless that was a generated one. No other plate changes.
\<close>

theorem merged_plate_sends_frames:
  assumes "map_of BUTTON_KEYS_BY_CHANNEL_COUNT n = Some keys" "map_of KEY_MAPPING_FIRST_BYTE n = None"
    and "py_int16 (take 1 (convert_nikobus_address plate)) = Some nibble"
    and "key_layout_of plate device n (dict_get buttons plate) = Inr (mapping, by_type, layout)"
    and "merge_plate plate device n keys buttons = Inr (bs, device')"
  shows "\<exists>entry'. dict_get bs plate = PDict entry' \<and>
    (\<forall>label \<in> set keys. \<forall>h. map_of mapping label = Some h \<longrightarrow> (\<exists>op frame.
       map_of (dict_points entry') label = Some (PDict op) \<and> add_first_nibble (convert_nikobus_address plate) h = Some frame \<and>
       keeps_links (dict_get (dict_points (stored_plate buttons plate)) label) label (normalize_address (PStr frame)) op)) \<and>
    (\<forall>p. p \<noteq> plate \<longrightarrow> map_of bs p = map_of buttons p)"
proof -
  let ?converted = "convert_nikobus_address plate"
  define buttons1 where "buttons1 = dict_default buttons plate (new_plate plate device n)"
  obtain e0 e1 addresses ops where e0: "dict_get buttons1 plate = PDict e0"
    and e1: "refresh_plate plate device n by_type layout e0 = Inr e1"
    and ad: "key_addresses n keys mapping nibble ?converted = Inr addresses"
    and f: "fold_res (\<lambda>(idx, key_label, bus). refresh_point key_label bus True) addresses (dict_points e1) = Inr ops"
    and bs: "bs = dict_set buttons1 plate (PDict (dict_set e1 ''operation_points'' (PDict ops)))"
    using assms(2-5) by (auto simp: merge_plate_def Let_def buttons1_def[symmetric] res_bind_Inr_iff split: option.splits)
  have points: "dict_points e1 = dict_points (stored_plate buttons plate)"
  proof -
    have "dict_points e0 = dict_points (stored_plate buttons plate)"
    proof (cases "map_of buttons plate")
      case None
      then show ?thesis using e0 by (auto simp: buttons1_def dict_default_def new_plate_def stored_plate_def dict_points_def Let_def dict_get_def)
    next
      case (Some v)
      then show ?thesis using e0 by (simp add: buttons1_def dict_default_def stored_plate_def)
    qed
    then show ?thesis using refresh_plate_points[OF e1] by simp
  qed
  note k = key_addresses_labels[OF ad assms(2) button_keys_distinct[OF assms(1)] assms(3)]
  note r = refresh_points_facts[OF f conjunct1[OF k]]
  have "\<exists>op frame. map_of ops label = Some (PDict op) \<and> add_first_nibble ?converted h = Some frame \<and>
       keeps_links (dict_get (dict_points (stored_plate buttons plate)) label) label (normalize_address (PStr frame)) op"
    if a: "label \<in> set keys" and b: "map_of mapping label = Some h" for label h
  proof -
    obtain idx frame where i: "add_first_nibble ?converted h = Some frame" "(idx, label, normalize_address (PStr frame)) \<in> set addresses"
      using conjunct2[OF k] a b by blast
    from bspec[OF conjunct1[OF r] i(2)] i(1) show ?thesis by (auto simp: points)
  qed
  moreover have "dict_points (dict_set e1 ''operation_points'' (PDict ops)) = ops" by (simp add: dict_points_def)
  moreover have "\<forall>p. p \<noteq> plate \<longrightarrow> map_of bs p = map_of buttons p" by (simp add: bs buttons1_def dict_default_map_of)
  ultimately show ?thesis by (auto simp: bs)
qed

definition example_device :: pydict where
  "example_device = [(''category'', PStr ''Button''), (''description'', PStr ''Bus push button''), (''channels'', PInt 2), (''device_type'', PStr ''21'')]"

lemma example_plate_converted: "convert_nikobus_address ''0D1C80'' = ''004E2C''"
proof -
  have p: "py_int16 ''0D1C80'' = Some (int 0x0D1C80)" by (simp add: eval_simps)
  have "reverse_bits 0x0D1C80 22 = 0x004E2C" by (simp add: reverse_bits_def reverse_loop_numeral)
  then show ?thesis using convert_nikobus_address_plate[OF p] by (simp add: eval_simps)
qed

lemma example_layout:
  "key_layout_of ''0D1C80'' example_device 2 (dict_get [] ''0D1C80'') = Inr ([(''1A'', ''8''), (''1B'', ''C'')], None, None)"
  by code_simp

lemma example_nibble: "py_int16 (take 1 (convert_nikobus_address ''0D1C80'')) = Some 0"
  unfolding example_plate_converted by code_simp

lemma inr_cases: "(case r of Inr _ \<Rightarrow> True | Inl _ \<Rightarrow> False) \<Longrightarrow> \<exists>x. r = Inr x"
  by (cases r) simp_all

lemma example_plate_merged: "\<exists>bs device'. merge_plate ''0D1C80'' example_device 2 [''1A'', ''1B''] [] = Inr (bs, device')"
proof -
  let ?e = "the (as_dict (new_plate ''0D1C80'' example_device 2))"
  have "(case refresh_plate ''0D1C80'' example_device 2 None None ?e of Inr _ \<Rightarrow> True | Inl _ \<Rightarrow> False)" by code_simp
  then obtain e where e: "refresh_plate ''0D1C80'' example_device 2 None None ?e = Inr e" using inr_cases by blast
  have "dict_points ?e = []" by code_simp
  then have p: "dict_points e = []" using refresh_plate_points[OF e] by simp
  have a: "key_addresses 2 [''1A'', ''1B''] [(''1A'', ''8''), (''1B'', ''C'')] 0 ''004E2C'' = Inr [(1, ''1A'', ''804E2C''), (2, ''1B'', ''C04E2C'')]"
    by code_simp
  have "(case fold_res (\<lambda>(idx :: nat, key_label, bus). refresh_point key_label bus True)
      [(1, ''1A'', ''804E2C''), (2, ''1B'', ''C04E2C'')] [] of Inr _ \<Rightarrow> True | Inl _ \<Rightarrow> False)" by code_simp
  then obtain ops where o: "fold_res (\<lambda>(idx :: nat, key_label, bus). refresh_point key_label bus True)
      [(1, ''1A'', ''804E2C''), (2, ''1B'', ''C04E2C'')] [] = Inr ops" using inr_cases by blast
  have d: "dict_get (dict_default [] ''0D1C80'' (new_plate ''0D1C80'' example_device 2)) ''0D1C80'' = PDict ?e"
    by (simp add: dict_default_def new_plate_def Let_def)
  have f: "map_of KEY_MAPPING_FIRST_BYTE 2 = None" by (simp add: KEY_MAPPING_FIRST_BYTE_def)
  have n: "py_int16 (take 1 ''004E2C'') = Some 0" by code_simp
  have t: "(None = None) = True" by simp
  show ?thesis unfolding merge_plate_def example_layout Let_def n option.case res_bind_simps prod.case d as_dict_simps e
      example_plate_converted a p f t o by blast
qed

theorem merged_plate_sends_frames_witness:
  "\<exists>bs device' entry' op frame. merge_plate ''0D1C80'' example_device 2 [''1A'', ''1B''] [] = Inr (bs, device') \<and>
     dict_get bs ''0D1C80'' = PDict entry' \<and> map_of (dict_points entry') ''1B'' = Some (PDict op) \<and>
     add_first_nibble ''004E2C'' ''C'' = Some frame \<and> dict_get op ''bus_address'' = PStr (normalize_address (PStr frame))"
proof -
  obtain bs device' where m: "merge_plate ''0D1C80'' example_device 2 [''1A'', ''1B''] [] = Inr (bs, device')"
    using example_plate_merged by blast
  have k: "map_of BUTTON_KEYS_BY_CHANNEL_COUNT 2 = Some [''1A'', ''1B'']" by code_simp
  have f: "map_of KEY_MAPPING_FIRST_BYTE 2 = None" by (simp add: KEY_MAPPING_FIRST_BYTE_def)
  obtain entry' where e: "dict_get bs ''0D1C80'' = PDict entry'"
    and a: "\<forall>label \<in> set [''1A'', ''1B'']. \<forall>h. map_of [(''1A'', ''8''), (''1B'', ''C'')] label = Some h \<longrightarrow> (\<exists>op frame.
       map_of (dict_points entry') label = Some (PDict op) \<and> add_first_nibble (convert_nikobus_address ''0D1C80'') h = Some frame \<and>
       keeps_links (dict_get (dict_points (stored_plate [] ''0D1C80'')) label) label (normalize_address (PStr frame)) op)"
    using merged_plate_sends_frames[OF k f example_nibble example_layout m] by (elim exE conjE) assumption
  have "''1B'' \<in> set [''1A'', ''1B'']" "map_of [(''1A'', ''8''), (''1B'', ''C'')] ''1B'' = Some ''C''" by simp_all
  from a[rule_format, OF this] obtain op frame where o: "map_of (dict_points entry') ''1B'' = Some (PDict op)"
      "add_first_nibble (convert_nikobus_address ''0D1C80'') ''C'' = Some frame"
    and kl: "keeps_links (dict_get (dict_points (stored_plate [] ''0D1C80'')) ''1B'') ''1B'' (normalize_address (PStr frame)) op"
    by (elim exE conjE)
  have "dict_get op ''bus_address'' = PStr (normalize_address (PStr frame))" using kl by (simp only: keeps_links_def)
  with m e o show ?thesis unfolding example_plate_converted by (intro exI conjI)
qed

end
