(* ===== verification/Connection.thy ===== *)
theory Connection
  imports Complex_Main Listener PyIter
begin

section \<open>The connection\<close>

text \<open>
  \<open>connection.py\<close>: opening the transport, the handshake, the presence probe with the gateway's
  identity, reconnecting with backoff, and the guarded \<open>send\<close> and \<open>read\<close>.
  What the outside does is a parameter: \<open>world k\<close> is the outcome of opening the transport
  for the k-th time, and an opened port comes with the frames that will arrive on it, each at
  its time, and with the fate of every write. Time is counted in milliseconds since the port
  was opened. The reader's errors stay: a read after one meets it again. Cancellation of the
  awaiting task is not modelled, and the host's callbacks are taken to return.
\<close>

subsection \<open>The transport and the state\<close>

datatype arrival =
    Data string       \<comment> \<open>bytes up to a carriage return\<close>
  | EndOfStream       \<comment> \<open>\<open>IncompleteReadError\<close>\<close>
  | Overrun           \<comment> \<open>\<open>LimitOverrunError\<close>\<close>
  | Broken            \<comment> \<open>\<open>OSError\<close>\<close>

record port =
  arrivals :: "(nat \<times> arrival) list"
  write_fails :: "nat \<Rightarrow> bool"

datatype open_result = Opened port | OpenFails exn

datatype target = Tcp string int | Serial string

record connection =
  transport :: "port option"   \<comment> \<open>\<open>_reader\<close> and \<open>_writer\<close>, which are set and cleared together\<close>
  is_connected :: bool
  bus_answered :: "bool option"
  gateway_address :: "string option"
  gateway_family :: "string option"
  clock :: nat
  lines_sent :: "string list"  \<comment> \<open>what was written to the open port\<close>
  opens :: nat

definition connection_init :: connection where
  "connection_init = \<lparr>transport = None, is_connected = False, bus_answered = None, gateway_address = None,
     gateway_family = None, clock = 0, lines_sent = [], opens = 0\<rparr>"

definition COMMANDS_HANDSHAKE :: "string list" where
  "COMMANDS_HANDSHAKE = [''++++'', ''ATH0'', ''ATZ'', ''$10110000B8CF9D'', ''#L0'', ''#E0'', ''#L0'', ''#E1'']"

definition EXPECTED_HANDSHAKE_RESPONSE :: string where "EXPECTED_HANDSHAKE_RESPONSE = ''$0511''"
definition PRESENCE_PROBE_COMMAND :: string where "PRESENCE_PROBE_COMMAND = ''#A''"
definition PRESENCE_PROBE_TIMEOUT :: nat where "PRESENCE_PROBE_TIMEOUT = 3000"
definition PRESENCE_PROBE_ATTEMPTS :: nat where "PRESENCE_PROBE_ATTEMPTS = 3"
definition PRESENCE_PROBE_SETTLE :: nat where "PRESENCE_PROBE_SETTLE = 1000"
definition PRESENCE_PROBE_IDENTITY_WAIT :: nat where "PRESENCE_PROBE_IDENTITY_WAIT = 500"

definition connection_target :: "string \<Rightarrow> target res" where
  \<comment> \<open>a \<open>host:port\<close> pair, or the path of a serial device\<close>
  "connection_target text =
     (if CHR '':'' \<in> set text \<and> \<not> starts_with text ''/''
      then (case py_int10 (drop (find_from 0 CHR '':'' text + 1) text) of
              None \<Rightarrow> Inl ValueError
            | Some number \<Rightarrow> Inr (Tcp (take (find_from 0 CHR '':'' text) text) number))
      else Inr (Serial text))"

definition py_ascii :: "string \<Rightarrow> string" where
  \<comment> \<open>\<open>data.decode("ascii", errors="ignore")\<close>\<close>
  "py_ascii = filter (\<lambda>c. code c < 128)"

definition looks_like_nikobus_frame :: "string \<Rightarrow> bool" where
  "looks_like_nikobus_frame text =
     (if starts_with text ''#N'' \<and> 8 \<le> length text then True
      else if starts_with text ''$'' \<and> 5 \<le> length text
      then (case py_int16 (slice 1 3 text) of
              None \<Rightarrow> False
            | Some declared \<Rightarrow> 5 \<le> declared \<and> (int (length text) = declared - 1 \<or> length text = 5))
      else False)"

definition proves_presence :: "string \<Rightarrow> bool" where
  "proves_presence text \<longleftrightarrow> contains text EXPECTED_HANDSHAKE_RESPONSE \<or> looks_like_nikobus_frame text"

subsection \<open>Sending, reading and closing\<close>

definition disconnect :: "connection \<Rightarrow> connection" where
  "disconnect st = st\<lparr>transport := None, is_connected := False\<rparr>"

definition send :: "string \<Rightarrow> connection \<Rightarrow> unit res \<times> connection" where
  "send command st =
     (case transport st of
        None \<Rightarrow> (Inl NikobusConnectionError, st)
      | Some p \<Rightarrow> if \<not> is_connected st then (Inl NikobusConnectionError, st)
          else (let line = py_strip command in
            if list_ex (\<lambda>c. 128 \<le> code c) line then (Inl ValueError, st)
            else if write_fails p (length (lines_sent st)) then (Inl NikobusSendError, disconnect st)
            else (Inr (), st\<lparr>lines_sent := lines_sent st @ [line]\<rparr>)))"

definition pending :: "connection \<Rightarrow> (nat \<times> arrival) list" where
  "pending st = (case transport st of None \<Rightarrow> [] | Some p \<Rightarrow> arrivals p)"

definition take_arrival :: "connection \<Rightarrow> (arrival \<times> connection) option" where
  \<comment> \<open>\<open>readuntil(b"\r")\<close>; \<open>None\<close> when it never returns\<close>
  "take_arrival st = (case pending st of
       [] \<Rightarrow> None
     | (t, a) # rest \<Rightarrow> Some (a, st\<lparr>clock := max (clock st) t,
         transport := map_option (\<lambda>p. case a of Data _ \<Rightarrow> p\<lparr>arrivals := rest\<rparr> | _ \<Rightarrow> p) (transport st)\<rparr>))"

definition wait_until :: "nat \<Rightarrow> connection \<Rightarrow> arrival option \<times> connection" where
  \<comment> \<open>\<open>wait_for(readuntil(b"\r"), deadline - now)\<close>, \<open>None\<close> for its \<open>TimeoutError\<close>\<close>
  "wait_until deadline st = (case pending st of
       (t, a) # rest \<Rightarrow> if t < deadline then map_prod Some id (the (take_arrival st))
                       else (None, st\<lparr>clock := max (clock st) deadline\<rparr>)
     | [] \<Rightarrow> (None, st\<lparr>clock := max (clock st) deadline\<rparr>))"

definition read :: "connection \<Rightarrow> (string res \<times> connection) option" where
  "read st =
     (if \<not> is_connected st \<or> transport st = None then Some (Inl NikobusConnectionError, st)
      else (case take_arrival st of
              None \<Rightarrow> None
            | Some (Data s, st) \<Rightarrow> Some (Inr s, st)
            | Some (_, st) \<Rightarrow> Some (Inl NikobusReadError, disconnect st)))"

subsection \<open>The presence probe\<close>

definition note_identity :: "string \<Rightarrow> connection \<Rightarrow> bool \<times> connection" where
  "note_identity frame st =
     (if \<not> starts_with frame ''$18'' \<or> length frame < 23 then (False, st)
      else (let payload = reply_payload frame in
        if length payload < 7 then (False, st)
        else (case parse_module_status payload (byte_hex_lower (payload ! 1) @ byte_hex_lower (payload ! 0)) of
                Inl _ \<Rightarrow> (False, st)
              | Inr status \<Rightarrow> (case family_name (type_code status) of
                    None \<Rightarrow> (False, st)
                  | Some family \<Rightarrow> (True, st\<lparr>gateway_address := Some (upper (address status)),
                                            gateway_family := Some family\<rparr>)))))"

fun note_first :: "string list \<Rightarrow> connection \<Rightarrow> bool \<times> connection" where
  "note_first [] st = (False, st)"
| "note_first (f # fs) st = (case note_identity (CHR ''$'' # f) st of
     (True, st) \<Rightarrow> (True, st) | (False, st) \<Rightarrow> note_first fs st)"

lemma take_arrival_data:
  "take_arrival st = Some (Data s, st') \<Longrightarrow> length (pending st') < length (pending st)"
  by (auto simp: take_arrival_def pending_def split: list.splits option.splits arrival.splits)

lemma wait_until_data:
  "wait_until deadline st = (Some (Data s), st') \<Longrightarrow> length (pending st') < length (pending st)"
  by (auto simp: wait_until_def take_arrival_def pending_def split: list.splits option.splits arrival.splits if_splits)

function await_identity :: "nat \<Rightarrow> connection \<Rightarrow> connection" where
  "await_identity deadline st =
     (if deadline \<le> clock st then st
      else (case wait_until deadline st of
              (Some (Data s), st') \<Rightarrow>
                (case note_first (tl (split_on CHR ''$'' (py_strip (py_ascii s)))) st' of
                   (True, st'') \<Rightarrow> st''
                 | (False, _) \<Rightarrow> await_identity deadline st')
            | (_, st') \<Rightarrow> st'))"
  by pat_completeness auto
termination
  by (relation "measure (\<lambda>(d, st). length (pending st))")
     (auto dest!: sym [of _ "wait_until _ _"] dest: wait_until_data)

declare await_identity.simps [simp del]

definition read_gateway_identity :: "string \<Rightarrow> connection \<Rightarrow> connection" where
  "read_gateway_identity first st =
     (case note_first (tl (split_on CHR ''$'' first)) st of
        (True, st) \<Rightarrow> st
      | (False, st) \<Rightarrow> await_identity (clock st + PRESENCE_PROBE_IDENTITY_WAIT) st)"

function await_proof :: "nat \<Rightarrow> connection \<Rightarrow> string option res \<times> connection" where
  \<comment> \<open>the inner loop of \<open>_probe\<close>: the frame that proves presence, if one comes before the deadline\<close>
  "await_proof deadline st =
     (if deadline \<le> clock st then (Inr None, st)
      else (case wait_until deadline st of
              (Some (Data s), st') \<Rightarrow>
                (if proves_presence (py_strip (py_ascii s)) then (Inr (Some (py_strip (py_ascii s))), st')
                 else await_proof deadline st')
            | (Some Broken, st') \<Rightarrow> (Inl OSError, st')
            | (_, st') \<Rightarrow> (Inr None, st')))"
  by pat_completeness auto
termination
  by (relation "measure (\<lambda>(d, st). length (pending st))")
     (auto dest!: sym [of _ "wait_until _ _"] dest: wait_until_data)

declare await_proof.simps [simp del]

fun probe_attempts :: "nat \<Rightarrow> connection \<Rightarrow> bool res \<times> connection" where
  "probe_attempts 0 st = (Inr False, st\<lparr>bus_answered := Some False\<rparr>)"
| "probe_attempts (Suc n) st =
     (case send PRESENCE_PROBE_COMMAND st of
        (Inl e, st) \<Rightarrow> (Inl e, st)
      | (Inr _, st) \<Rightarrow>
          (case await_proof (clock st + PRESENCE_PROBE_TIMEOUT) st of
             (Inl e, st) \<Rightarrow> (Inl e, st)
           | (Inr (Some text), st) \<Rightarrow> (Inr True, read_gateway_identity text (st\<lparr>bus_answered := Some True\<rparr>))
           | (Inr None, st) \<Rightarrow> probe_attempts n st))"

definition probe :: "connection \<Rightarrow> bool res \<times> connection" where
  "probe st = probe_attempts PRESENCE_PROBE_ATTEMPTS (st\<lparr>clock := clock st + PRESENCE_PROBE_SETTLE\<rparr>)"

subsection \<open>Connecting\<close>

fun send_each :: "string list \<Rightarrow> connection \<Rightarrow> unit res \<times> connection" where
  "send_each [] st = (Inr (), st)"
| "send_each (cmd # cmds) st = (case send cmd st of
     (Inl e, st) \<Rightarrow> (Inl NikobusConnectionError, st)
   | (Inr _, st) \<Rightarrow> send_each cmds (st\<lparr>clock := clock st + 200\<rparr>))"

definition handshake :: "connection \<Rightarrow> unit res \<times> connection" where
  "handshake = send_each COMMANDS_HANDSHAKE"

definition open_port :: "(target \<Rightarrow> nat \<Rightarrow> open_result) \<Rightarrow> string \<Rightarrow> connection \<Rightarrow> unit res \<times> connection" where
  "open_port world text st = (case connection_target text of
       Inl e \<Rightarrow> (Inl e, st)
     | Inr tgt \<Rightarrow> (let st' = st\<lparr>opens := opens st + 1\<rparr> in case world tgt (opens st) of
           OpenFails e \<Rightarrow> (Inl e, st')
         | Opened p \<Rightarrow> (Inr (), st'\<lparr>transport := Some p, is_connected := True, clock := 0, lines_sent := []\<rparr>)))"

definition greet :: "connection \<Rightarrow> unit res \<times> connection" where
  \<comment> \<open>the handshake and the probe; whatever they raise, the connection is closed first\<close>
  "greet st = (case handshake st of
       (Inl e, st) \<Rightarrow> (Inl e, disconnect st)
     | (Inr _, st) \<Rightarrow> (case probe st of
           (Inl e, st) \<Rightarrow> (Inl e, disconnect st)
         | (Inr _, st) \<Rightarrow> (Inr (), st)))"

definition close_first :: "connection \<Rightarrow> connection" where
  "close_first st = (if transport st \<noteq> None then disconnect st else st)"

definition connect :: "(target \<Rightarrow> nat \<Rightarrow> open_result) \<Rightarrow> string \<Rightarrow> connection \<Rightarrow> unit res \<times> connection" where
  "connect world text st0 =
     (case (case open_port world text (close_first st0) of (Inl e, st) \<Rightarrow> (Inl e, st) | (Inr _, st) \<Rightarrow> greet st) of
        (Inl e, st) \<Rightarrow> if e = OSError then (Inl NikobusConnectionError, st\<lparr>is_connected := False\<rparr>)
                       else (Inl e, st)
      | (Inr _, st) \<Rightarrow> (Inr (), st))"

partial_function (option) reconnect_loop ::
  "(target \<Rightarrow> nat \<Rightarrow> open_result) \<Rightarrow> string \<Rightarrow> rat \<Rightarrow> nat \<Rightarrow> rat \<Rightarrow> (nat \<times> rat) list \<Rightarrow> connection \<Rightarrow>
   (nat \<times> (nat \<times> rat) list \<times> connection) option" where
  "reconnect_loop world text max_delay attempt delay calls st =
     (case connect world text st of
        (Inr _, st') \<Rightarrow> Some (attempt + 1, calls @ [(attempt + 1, delay)], st')
      | (Inl _, st') \<Rightarrow> reconnect_loop world text max_delay (attempt + 1) (min (delay * 2) max_delay)
                          (calls @ [(attempt + 1, delay)]) st')"

definition reconnect_with_backoff where
  \<comment> \<open>the number of attempts and the calls of \<open>on_attempt\<close>; \<open>None\<close> when no attempt ever succeeds\<close>
  "reconnect_with_backoff world text initial_delay max_delay st =
     reconnect_loop world text max_delay 0 initial_delay [] st"

definition ping :: "(target \<Rightarrow> nat \<Rightarrow> open_result) \<Rightarrow> string \<Rightarrow> connection \<Rightarrow> bool res \<times> connection" where
  "ping world text st0 =
     (case (if is_connected st0 then (Inr (), st0) else connect world text st0) of
        (Inl e, st) \<Rightarrow> (Inl e, st)
      | (Inr _, st) \<Rightarrow> (case send ''#E1'' st of
            (Inl e, st) \<Rightarrow> (Inl NikobusConnectionError, st)
          | (Inr _, st) \<Rightarrow> (Inr True, st)))"

subsection \<open>The state of the connection\<close>

inductive connection_step :: "(target \<Rightarrow> nat \<Rightarrow> open_result) \<Rightarrow> string \<Rightarrow> connection \<Rightarrow> connection \<Rightarrow> bool"
  for world :: "target \<Rightarrow> nat \<Rightarrow> open_result" and url :: string where
  step_connect: "connect world url st = (r, st') \<Longrightarrow> connection_step world url st st'"
| step_send: "send command st = (r, st') \<Longrightarrow> connection_step world url st st'"
| step_read: "read st = Some (r', st') \<Longrightarrow> connection_step world url st st'"
| step_ping: "ping world url st = (r'', st') \<Longrightarrow> connection_step world url st st'"
| step_disconnect: "connection_step world url st (disconnect st)"
| step_reconnect: "reconnect_with_backoff world url first cap st = Some (n, calls, st') \<Longrightarrow> connection_step world url st st'"

definition connection_ok :: "connection \<Rightarrow> bool" where
  "connection_ok st \<longleftrightarrow> (is_connected st \<longleftrightarrow> transport st \<noteq> None)"

definition known_identity :: "string option \<Rightarrow> string option \<Rightarrow> bool" where
  \<comment> \<open>no identity, or a family of the table with an address of two bytes in upper case\<close>
  "known_identity family addr \<longleftrightarrow> (case family of
       None \<Rightarrow> addr = None
     | Some name \<Rightarrow> name \<in> fst ` set FAMILY_SIGNATURES \<and> (\<exists>a b :: byte. addr = Some (byte_hex a @ byte_hex b)))"

definition identity_ok :: "connection \<Rightarrow> bool" where
  "identity_ok st \<longleftrightarrow> known_identity (gateway_family st) (gateway_address st)"

definition connection_good :: "connection \<Rightarrow> bool" where
  "connection_good st \<longleftrightarrow> connection_ok st \<and> identity_ok st"

lemma disconnect_simps [simp]: "transport (disconnect st) = None" "is_connected (disconnect st) = False"
  "bus_answered (disconnect st) = bus_answered st" "gateway_address (disconnect st) = gateway_address st"
  "gateway_family (disconnect st) = gateway_family st" "opens (disconnect st) = opens st"
  "lines_sent (disconnect st) = lines_sent st"
  by (simp_all add: disconnect_def)

lemma send_result: "send command st = (Inr u, st') \<Longrightarrow>
    is_connected st \<and> transport st \<noteq> None \<and> st' = st\<lparr>lines_sent := lines_sent st @ [py_strip command]\<rparr>"
  by (auto simp: send_def Let_def split: option.splits if_splits)

lemma identity_ok_cong: "gateway_family st' = gateway_family st \<Longrightarrow> gateway_address st' = gateway_address st \<Longrightarrow>
    identity_ok st' = identity_ok st"
  by (simp add: identity_ok_def)

lemma identity_ok_disconnect [simp]: "identity_ok (disconnect st) = identity_ok st"
  by (rule identity_ok_cong) simp_all

lemma connection_good_disconnect [simp]: "connection_good (disconnect st) = identity_ok st"
  by (simp add: connection_good_def connection_ok_def)

lemma connection_good_update [simp]: "connection_good (st\<lparr>clock := t\<rparr>) = connection_good st"
  "connection_good (st\<lparr>lines_sent := ls\<rparr>) = connection_good st" "connection_good (st\<lparr>bus_answered := v\<rparr>) = connection_good st"
  "connection_good (st\<lparr>opens := n\<rparr>) = connection_good st"
  by (simp_all add: connection_good_def connection_ok_def identity_ok_def)

lemma send_good: "send command st = (r, st') \<Longrightarrow> connection_good st \<Longrightarrow> connection_good st'"
  by (auto simp: send_def Let_def split: option.splits if_splits) (simp add: connection_good_def)

lemma take_arrival_good: "take_arrival st = Some (a, st') \<Longrightarrow> connection_good st \<Longrightarrow> connection_good st'"
  by (auto simp: take_arrival_def connection_good_def connection_ok_def identity_ok_def split: list.splits option.splits)

lemma wait_until_good: "wait_until deadline st = (a, st') \<Longrightarrow> connection_good st \<Longrightarrow> connection_good st'"
  by (auto simp: wait_until_def take_arrival_def connection_good_def connection_ok_def identity_ok_def
      split: list.splits option.splits if_splits)

lemma upper_byte_hex_lower: "upper (byte_hex_lower b) = byte_hex b"
  by (simp add: byte_hex_lower_def byte_hex_def upper_def byte_div_16)

lemma upper_upper_bytes: "upper (upper (byte_hex_lower a @ byte_hex_lower b)) = byte_hex a @ byte_hex b"
  by (simp add: upper_byte_hex_lower)

lemma family_name_known: "family_name s = Some f \<Longrightarrow> f \<in> fst ` set FAMILY_SIGNATURES"
  by (auto simp: family_name_def find_Some_iff) (metis fst_conv image_eqI nth_mem)

lemma known_identity_noted:
  "family_name s = Some f \<Longrightarrow> known_identity (Some f) (Some (upper (upper (byte_hex_lower a @ byte_hex_lower b))))"
  unfolding known_identity_def upper_upper_bytes by (auto dest: family_name_known)

lemma note_identity_good: "note_identity f st = (b, st') \<Longrightarrow> connection_good st \<Longrightarrow> connection_good st'"
  by (auto simp: note_identity_def Let_def connection_good_def connection_ok_def identity_ok_def parse_module_status_def
      simp del: upper_append upper_upper intro!: known_identity_noted split: if_splits sum.splits option.splits)

lemma note_identity_False: "note_identity f st = (False, st') \<Longrightarrow> st' = st"
  by (auto simp: note_identity_def Let_def split: if_splits sum.splits option.splits)

lemma note_first_good: "note_first fs st = (b, st') \<Longrightarrow> connection_good st \<Longrightarrow> connection_good st'"
  by (induction fs arbitrary: st) (auto split: prod.splits bool.splits dest: note_identity_good)

lemma await_identity_good: "connection_good st \<Longrightarrow> connection_good (await_identity deadline st)"
proof (induction deadline st rule: await_identity.induct)
  case (1 deadline st)
  obtain a st' where w: "wait_until deadline st = (a, st')" by fastforce
  then have good: "connection_good st'" using 1(2) by (rule wait_until_good)
  show ?case
  proof (cases "deadline \<le> clock st")
    case True
    with 1(2) show ?thesis by (simp add: await_identity.simps)
  next
    case False
    show ?thesis
      using good 1(1) [OF False w [symmetric]] False w
      by (subst await_identity.simps)
        (auto split: option.split arrival.split prod.split bool.split dest: note_first_good)
  qed
qed

lemma read_gateway_identity_good: "connection_good st \<Longrightarrow> connection_good (read_gateway_identity first st)"
  by (auto simp: read_gateway_identity_def split: prod.split bool.split
      dest: note_first_good intro: await_identity_good)

lemma await_proof_good: "await_proof deadline st = (r, st') \<Longrightarrow> connection_good st \<Longrightarrow> connection_good st'"
proof (induction deadline st rule: await_proof.induct)
  case (1 deadline st)
  obtain a u where w: "wait_until deadline st = (a, u)" by fastforce
  then have good: "connection_good u" using 1(3) by (rule wait_until_good)
  show ?case
  proof (cases "deadline \<le> clock st")
    case True
    with 1 show ?thesis by (simp add: await_proof.simps)
  next
    case False
    show ?thesis
      using 1(2) good 1(1) [OF False w [symmetric]] False w
      by (subst (asm) await_proof.simps) (auto split: option.splits arrival.splits if_splits)
  qed
qed

lemma probe_attempts_good: "probe_attempts n st = (r, st') \<Longrightarrow> connection_good st \<Longrightarrow> connection_good st'"
  by (induction n arbitrary: st)
    (auto split: prod.splits sum.splits option.splits dest!: send_good await_proof_good intro: read_gateway_identity_good)

lemma send_each_good: "send_each cmds st = (r, st') \<Longrightarrow> connection_good st \<Longrightarrow> connection_good st'"
  by (induction cmds arbitrary: st) (auto split: prod.splits sum.splits dest: send_good)

lemma greet_good: "greet st = (r, st') \<Longrightarrow> connection_good st \<Longrightarrow> connection_good st'"
  unfolding greet_def handshake_def probe_def
  by (auto split: prod.splits sum.splits dest!: send_each_good probe_attempts_good)
    (simp_all add: connection_good_def)

lemma open_port_good: "open_port world url st = (r, st') \<Longrightarrow> connection_good st \<Longrightarrow> connection_good st'"
  by (auto simp: open_port_def Let_def split: sum.splits open_result.splits)
    (simp add: connection_good_def connection_ok_def identity_ok_def)

lemma connection_ok_disconnect [simp]: "connection_ok (disconnect st)"
  by (simp add: connection_ok_def)

lemma wait_until_connected: "wait_until deadline st = (a, st') \<Longrightarrow> is_connected st' = is_connected st"
  by (auto simp: wait_until_def take_arrival_def split: list.splits if_splits)

lemma note_identity_connected: "note_identity f st = (b, st') \<Longrightarrow> is_connected st' = is_connected st"
  by (auto simp: note_identity_def Let_def split: if_splits sum.splits option.splits)

lemma note_first_connected: "note_first fs st = (b, st') \<Longrightarrow> is_connected st' = is_connected st"
  by (induction fs arbitrary: st) (auto split: prod.splits bool.splits dest: note_identity_connected)

lemma await_identity_connected [simp]: "is_connected (await_identity deadline st) = is_connected st"
proof (induction deadline st rule: await_identity.induct)
  case (1 deadline st)
  obtain a u where w: "wait_until deadline st = (a, u)" by fastforce
  show ?case
    using 1 [OF _ w [symmetric]] w wait_until_connected [OF w]
    by (subst await_identity.simps) (auto split: option.split arrival.split prod.split bool.split dest: note_first_connected)
qed

lemma read_gateway_identity_connected [simp]: "is_connected (read_gateway_identity first st) = is_connected st"
  by (auto simp: read_gateway_identity_def split: prod.split bool.split dest: note_first_connected)

lemma await_proof_connected: "await_proof deadline st = (r, st') \<Longrightarrow> is_connected st' = is_connected st"
proof (induction deadline st rule: await_proof.induct)
  case (1 deadline st)
  obtain a u where w: "wait_until deadline st = (a, u)" by fastforce
  show ?case
    using 1(2) 1(1) [OF _ w [symmetric]] w wait_until_connected [OF w]
    by (subst (asm) await_proof.simps) (auto split: option.splits arrival.splits if_splits)
qed

lemma probe_attempts_connected: "probe_attempts n st = (Inr b, st') \<Longrightarrow> is_connected st' = is_connected st"
  by (induction n arbitrary: st)
    (auto split: prod.splits sum.splits option.splits dest!: send_result await_proof_connected)

lemma send_each_connected: "send_each cmds st = (Inr b, st') \<Longrightarrow> is_connected st' = is_connected st"
  by (induction cmds arbitrary: st) (auto split: prod.splits sum.splits dest!: send_result)

lemma greet_connected: "greet st = (Inr b, st') \<Longrightarrow> is_connected st' = is_connected st"
  by (auto simp: greet_def handshake_def probe_def split: prod.splits sum.splits
      dest!: probe_attempts_connected send_each_connected)

lemma open_port_connected: "open_port world url st = (Inr b, st') \<Longrightarrow> is_connected st'"
  by (auto simp: open_port_def Let_def split: sum.splits open_result.splits)

lemma not_connected_good [simp]: "transport st = None \<Longrightarrow> connection_good (st\<lparr>is_connected := False\<rparr>) = identity_ok st"
  by (simp add: connection_good_def connection_ok_def identity_ok_def)

lemma greet_error: "greet st = (Inl e, st') \<Longrightarrow> transport st' = None \<and> \<not> is_connected st'"
  by (auto simp: greet_def split: prod.splits sum.splits)

lemma open_port_error: "open_port world url st = (Inl e, st') \<Longrightarrow> transport st' = transport st \<and> is_connected st' = is_connected st"
  by (auto simp: open_port_def Let_def split: sum.splits open_result.splits)

lemma close_first_closed: "connection_good st \<Longrightarrow> connection_good (close_first st) \<and> transport (close_first st) = None"
  by (auto simp: close_first_def connection_good_def)

lemma connect_cases:
  assumes "connect world url st = (r, st')" "connection_good st"
  shows "connection_good st' \<and> (case r of Inr _ \<Rightarrow> is_connected st' | Inl _ \<Rightarrow> \<not> is_connected st' \<and> transport st' = None)"
proof -
  note closed = close_first_closed [OF assms(2)]
  obtain r1 st1 where o: "open_port world url (close_first st) = (r1, st1)" by fastforce
  then have good: "connection_good st1" using closed by (blast intro: open_port_good)
  show ?thesis
  proof (cases r1)
    case (Inl e)
    then have st1: "transport st1 = None" "\<not> is_connected st1" using open_port_error o closed by (auto simp: connection_good_def connection_ok_def)
    with good have "identity_ok st1" by (simp add: connection_good_def)
    with good st1 assms(1) o Inl show ?thesis by (auto simp: connect_def split: if_splits)
  next
    case (Inr u)
    obtain r2 st2 where g: "greet st1 = (r2, st2)" by fastforce
    then have good2: "connection_good st2" using good by (rule greet_good)
    show ?thesis
    proof (cases r2)
      case (Inl e)
      with greet_error g have st2: "transport st2 = None" "\<not> is_connected st2" by auto
      with good2 have "identity_ok st2" by (simp add: connection_good_def)
      with good2 st2 assms(1) o Inr g Inl show ?thesis by (auto simp: connect_def split: if_splits)
    next
      case r2: (Inr v)
      have "is_connected st2" using greet_connected open_port_connected g o Inr r2 by auto
      with good2 assms(1) o Inr g r2 show ?thesis by (auto simp: connect_def split: if_splits)
    qed
  qed
qed

lemma read_good: "read st = Some (r, st') \<Longrightarrow> connection_good st \<Longrightarrow> connection_good st'"
  by (auto simp: read_def split: if_splits option.splits arrival.splits dest!: take_arrival_good)
    (simp_all add: connection_good_def)

lemma ping_good: "ping world url st = (r, st') \<Longrightarrow> connection_good st \<Longrightarrow> connection_good st'"
  by (auto simp: ping_def split: if_splits prod.splits sum.splits dest!: connect_cases send_good)

lemma reconnect_loop_good:
  assumes "reconnect_loop world url cap n delay calls st = Some res"
  shows "connection_good st \<longrightarrow> connection_good (snd (snd res)) \<and> is_connected (snd (snd res))"
proof (rule reconnect_loop.raw_induct [OF _ assms])
  fix loop world url cap n delay calls st y
  assume again: "\<And>world url cap n delay calls st y. loop world url cap n delay calls st = Some y \<Longrightarrow>
      connection_good st \<longrightarrow> connection_good (snd (snd y)) \<and> is_connected (snd (snd y))"
    and body: "(case connect world url st of
        (Inl _, st') \<Rightarrow> loop world url cap (n + 1) (min (delay * 2) cap) (calls @ [(n + 1, delay)]) st'
      | (Inr _, st') \<Rightarrow> Some (n + 1, calls @ [(n + 1, delay)], st')) = Some y"
  obtain r u where c: "connect world url st = (r, u)" by fastforce
  show "connection_good st \<longrightarrow> connection_good (snd (snd y)) \<and> is_connected (snd (snd y))"
    using body again connect_cases [OF c] c by (cases r) auto
qed

lemma connection_step_good: "connection_step world url st st' \<Longrightarrow> connection_good st \<Longrightarrow> connection_good st'"
  by (induction rule: connection_step.induct)
    (auto dest: connect_cases send_good read_good ping_good reconnect_loop_good
      simp: reconnect_with_backoff_def, simp add: connection_good_def)

lemma connection_steps_good: "(connection_step world url)\<^sup>*\<^sup>* st st' \<Longrightarrow> connection_good st \<Longrightarrow> connection_good st'"
  by (induction rule: rtranclp_induct) (auto dest: connection_step_good)

text \<open>
  C10. In every state reached by any sequence of connects, pings, sends, reads, reconnects and
  disconnects, whatever the port and the bus do, the connection counts as connected exactly when a
  transport is open, and the recorded gateway identity is either absent or a family of the
  signature table with an address of four upper-case hexadecimal digits.
\<close>

theorem connection_state_typed:
  assumes "(connection_step world url)\<^sup>*\<^sup>* connection_init st"
  shows "(is_connected st \<longleftrightarrow> transport st \<noteq> None) \<and>
    (case gateway_family st of
       None \<Rightarrow> gateway_address st = None
     | Some name \<Rightarrow> name \<in> fst ` set FAMILY_SIGNATURES \<and>
         (\<exists>a b :: byte. gateway_address st = Some (byte_hex a @ byte_hex b)))"
proof -
  have "connection_good connection_init"
    by (simp add: connection_good_def connection_ok_def identity_ok_def known_identity_def connection_init_def)
  from connection_steps_good [OF assms this] show ?thesis
    by (simp add: connection_good_def connection_ok_def identity_ok_def known_identity_def)
qed

subsection \<open>Failed connects\<close>

definition notes_of :: "connection \<Rightarrow> bool option \<times> string option \<times> string option" where
  "notes_of st = (bus_answered st, gateway_address st, gateway_family st)"

lemma notes_disconnect [simp]: "notes_of (disconnect st) = notes_of st"
  by (simp add: notes_of_def)

lemma notes_update [simp]: "notes_of (st\<lparr>clock := t\<rparr>) = notes_of st" "notes_of (st\<lparr>lines_sent := ls\<rparr>) = notes_of st"
  "notes_of (st\<lparr>transport := p\<rparr>) = notes_of st" "notes_of (st\<lparr>is_connected := b\<rparr>) = notes_of st" "notes_of (st\<lparr>opens := n\<rparr>) = notes_of st"
  by (simp_all add: notes_of_def)

lemma send_notes: "send c st = (r, st') \<Longrightarrow> notes_of st' = notes_of st"
  by (auto simp: send_def Let_def split: option.splits if_splits)

lemma wait_until_notes: "wait_until deadline st = (a, st') \<Longrightarrow> notes_of st' = notes_of st"
  by (auto simp: wait_until_def take_arrival_def split: list.splits if_splits)

lemma await_proof_notes: "await_proof deadline st = (r, st') \<Longrightarrow> notes_of st' = notes_of st"
proof (induction deadline st rule: await_proof.induct)
  case (1 deadline st)
  obtain a u where w: "wait_until deadline st = (a, u)" by fastforce
  show ?case
    using 1(2) 1(1) [OF _ w [symmetric]] w wait_until_notes [OF w]
    by (subst (asm) await_proof.simps) (auto split: option.splits arrival.splits if_splits)
qed

lemma await_proof_error: "await_proof deadline st = (Inl e, st') \<Longrightarrow> e = OSError"
proof (induction deadline st rule: await_proof.induct)
  case (1 deadline st)
  obtain a u where w: "wait_until deadline st = (a, u)" by fastforce
  show ?case
    using 1(2) 1(1) [OF _ w [symmetric]] w
    by (subst (asm) await_proof.simps) (auto split: option.splits arrival.splits if_splits)
qed

lemma send_error: "send c st = (Inl e, st') \<Longrightarrow> list_all (\<lambda>x. code x < 128) (py_strip c) \<Longrightarrow>
    e \<in> {NikobusConnectionError, NikobusSendError}"
  by (auto simp: send_def Let_def list_ex_iff list_all_iff split: option.splits if_splits)

lemma probe_command_ascii [simp]: "list_all (\<lambda>x. code x < 128) (py_strip PRESENCE_PROBE_COMMAND)"
  by code_simp

lemma probe_attempts_error: "probe_attempts n st = (Inl e, st') \<Longrightarrow>
    e \<in> {NikobusConnectionError, NikobusSendError, OSError} \<and> notes_of st' = notes_of st"
proof (induction n arbitrary: st)
  case (Suc n)
  obtain r1 st1 where s: "send PRESENCE_PROBE_COMMAND st = (r1, st1)" by fastforce
  obtain r2 st2 where a: "await_proof (clock st1 + PRESENCE_PROBE_TIMEOUT) st1 = (r2, st2)" by fastforce
  from Suc.prems Suc.IH [of st2] s a send_notes [OF s] await_proof_notes [OF a] show ?case
    by (auto split: sum.splits option.splits dest: await_proof_error send_error)
qed simp

lemma send_each_error: "send_each cmds st = (Inl e, st') \<Longrightarrow> e = NikobusConnectionError \<and> notes_of st' = notes_of st"
proof (induction cmds arbitrary: st)
  case (Cons c cmds)
  obtain r1 st1 where s: "send c st = (r1, st1)" by fastforce
  from Cons.prems Cons.IH [of "st1\<lparr>clock := clock st1 + 200\<rparr>"] s send_notes [OF s] show ?case
    by (auto split: sum.splits)
qed simp

lemma send_each_notes: "send_each cmds st = (r, st') \<Longrightarrow> notes_of st' = notes_of st"
proof (induction cmds arbitrary: st)
  case (Cons c cmds)
  obtain r1 st1 where s: "send c st = (r1, st1)" by fastforce
  from Cons.prems Cons.IH [of "st1\<lparr>clock := clock st1 + 200\<rparr>"] s send_notes [OF s] show ?case
    by (auto split: sum.splits)
qed simp

lemma greet_failure: "greet st = (Inl e, st') \<Longrightarrow>
    e \<in> {NikobusConnectionError, NikobusSendError, OSError} \<and> notes_of st' = notes_of st"
  unfolding greet_def handshake_def probe_def
  by (auto split: prod.splits sum.splits dest!: probe_attempts_error send_each_error dest: send_each_notes)

lemma close_first_simps [simp]: "opens (close_first st) = opens st" "notes_of (close_first st) = notes_of st"
  by (simp_all add: close_first_def)

lemma connection_target_error: "connection_target url = Inl e \<Longrightarrow> e = ValueError"
  by (auto simp: connection_target_def split: if_splits option.splits)

text \<open>
  C11. A connect that fails leaves the connection closed and neither the presence verdict nor the
  gateway identity touched. When opening a transport raises only operating-system errors, it raises
  a connection or send error of the library, or the \<open>ValueError\<close> of a malformed port number,
  before any transport is opened.
\<close>

theorem failed_connect_leaves_closed:
  assumes steps: "(connection_step world url)\<^sup>*\<^sup>* connection_init st"
    and opener: "\<And>tgt k e. world tgt k = OpenFails e \<Longrightarrow> e = OSError"
    and failed: "connect world url st = (Inl e, st')"
  shows "\<not> is_connected st' \<and> transport st' = None \<and> notes_of st' = notes_of st \<and>
    (e \<in> {NikobusConnectionError, NikobusSendError} \<or>
     e = ValueError \<and> connection_target url = Inl ValueError \<and> opens st' = opens st)"
proof -
  have "connection_good connection_init"
    by (simp add: connection_good_def connection_ok_def identity_ok_def known_identity_def connection_init_def)
  then have "connection_good st" by (rule connection_steps_good [OF steps])
  then have closed: "\<not> is_connected st' \<and> transport st' = None" using connect_cases [OF failed] by simp
  obtain r1 st1 where o: "open_port world url (close_first st) = (r1, st1)" by fastforce
  obtain r2 st2 where g: "greet st1 = (r2, st2)" by fastforce
  show ?thesis
  proof (cases r1)
    case (Inl f)
    with o opener have "notes_of st1 = notes_of st \<and>
        (f = OSError \<or> f = ValueError \<and> connection_target url = Inl ValueError \<and> opens st1 = opens st)"
      by (auto simp: open_port_def Let_def split: sum.splits open_result.splits dest: connection_target_error)
    with failed o Inl closed show ?thesis by (auto simp: connect_def split: if_splits)
  next
    case (Inr u)
    with o have "notes_of st1 = notes_of st"
      by (auto simp: open_port_def Let_def split: sum.splits open_result.splits)
    with failed o Inr closed g greet_failure [of st1] show ?thesis
      by (auto simp: connect_def split: if_splits sum.splits)
  qed
qed

definition answering_port :: port where
  "answering_port = \<lparr>arrivals = [(1700, Data ''#X''), (1900, Data ''$18F58600500F3FFFAC61FE'')], write_fails = (\<lambda>_. False)\<rparr>"

definition failing_port :: port where
  "failing_port = \<lparr>arrivals = [], write_fails = (\<lambda>k. k = 2)\<rparr>"

lemma example_failed:
  "fst (connect (\<lambda>_ _. Opened failing_port) ''/dev/ttyUSB0'' connection_init) = Inl NikobusConnectionError"
  by code_simp

lemma example_connected:
  "gateway_address (snd (connect (\<lambda>_ _. Opened answering_port) ''10.0.0.5:2000'' connection_init)) = Some ''86F5''"
  by code_simp

theorem failed_connect_leaves_closed_witness:
  "\<exists>st'. connect (\<lambda>_ _. Opened failing_port) ''/dev/ttyUSB0'' connection_init = (Inl NikobusConnectionError, st') \<and>
     \<not> is_connected st' \<and> transport st' = None \<and> notes_of st' = notes_of connection_init"
proof -
  let ?w = "\<lambda>_ _. Opened failing_port"
  obtain st' where c: "connect ?w ''/dev/ttyUSB0'' connection_init = (Inl NikobusConnectionError, st')"
    using example_failed by (metis prod.collapse)
  have "(connection_step ?w ''/dev/ttyUSB0'')\<^sup>*\<^sup>* connection_init connection_init" by simp
  from failed_connect_leaves_closed [OF this _ c] c show ?thesis by auto
qed

theorem connection_state_typed_witness:
  "\<exists>st. (connection_step (\<lambda>_ _. Opened answering_port) ''10.0.0.5:2000'')\<^sup>*\<^sup>* connection_init st \<and>
     gateway_address st = Some ''86F5'' \<and> (is_connected st \<longleftrightarrow> transport st \<noteq> None) \<and>
     (case gateway_family st of
       None \<Rightarrow> gateway_address st = None
     | Some name \<Rightarrow> name \<in> fst ` set FAMILY_SIGNATURES \<and>
         (\<exists>a b :: byte. gateway_address st = Some (byte_hex a @ byte_hex b)))"
proof -
  let ?w = "\<lambda>_ _. Opened answering_port" and ?u = "''10.0.0.5:2000''"
  obtain r st where c: "connect ?w ?u connection_init = (r, st)" by fastforce
  then have s: "(connection_step ?w ?u)\<^sup>*\<^sup>* connection_init st" by (blast intro: step_connect)
  have "gateway_address st = Some ''86F5''" using example_connected c by simp
  with connection_state_typed [OF s] s show ?thesis by blast
qed

subsection \<open>The verdict of the probe\<close>

definition is_proof :: "arrival \<Rightarrow> bool" where
  "is_proof a \<longleftrightarrow> (case a of Data s \<Rightarrow> proves_presence (py_strip (py_ascii s)) | _ \<Rightarrow> False)"

definition sound_port :: "port \<Rightarrow> bool" where
  \<comment> \<open>every write goes through, and frames arrive in order of time without an error of the reader\<close>
  "sound_port p \<longleftrightarrow> (\<forall>k. \<not> write_fails p k) \<and> (\<forall>x \<in> set (arrivals p). \<exists>s. snd x = Data s) \<and>
     sorted (map fst (arrivals p))"

definition ready :: "connection \<Rightarrow> bool" where
  "ready st \<longleftrightarrow> is_connected st \<and> (\<exists>p. transport st = Some p \<and> sound_port p)"

lemma ready_update [simp]: "ready (st\<lparr>clock := t\<rparr>) = ready st" "ready (st\<lparr>lines_sent := ls\<rparr>) = ready st"
  "ready (st\<lparr>bus_answered := v\<rparr>) = ready st" "ready (st\<lparr>opens := n\<rparr>) = ready st"
  "pending (st\<lparr>clock := t\<rparr>) = pending st" "pending (st\<lparr>lines_sent := ls\<rparr>) = pending st"
  by (simp_all add: ready_def pending_def)

lemma send_ready: "ready st \<Longrightarrow> list_all (\<lambda>x. code x < 128) (py_strip c) \<Longrightarrow>
    send c st = (Inr (), st\<lparr>lines_sent := lines_sent st @ [py_strip c]\<rparr>)"
  by (auto simp: ready_def send_def sound_port_def list_ex_iff list_all_iff Let_def) (auto simp: not_le [symmetric])

lemma wait_until_ready:
  assumes "ready st" "wait_until deadline st = (a, st')" "clock st < deadline"
  shows "ready st' \<and> lines_sent st' = lines_sent st \<and> bus_answered st' = bus_answered st \<and>
    (case pending st of
       [] \<Rightarrow> a = None \<and> pending st' = [] \<and> clock st' = deadline
     | (t, x) # rest \<Rightarrow>
         if t < deadline then a = Some x \<and> (\<exists>s. x = Data s) \<and> pending st' = rest \<and> clock st' < deadline
         else a = None \<and> pending st' = (t, x) # rest \<and> clock st' = deadline)"
  using assms
  by (auto simp: ready_def sound_port_def wait_until_def take_arrival_def pending_def split: list.splits if_splits)

lemma pending_sorted: "ready st \<Longrightarrow> sorted (map fst (pending st))"
  by (auto simp: ready_def sound_port_def pending_def)

lemma await_proof_ready:
  assumes "await_proof deadline st = (r, st')" "ready st" "clock st < deadline"
  shows "ready st' \<and> lines_sent st' = lines_sent st \<and> bus_answered st' = bus_answered st \<and>
    (case r of
       Inl e \<Rightarrow> False
     | Inr None \<Rightarrow> clock st' = deadline \<and> pending st' = filter (\<lambda>x. deadline \<le> fst x) (pending st) \<and>
         \<not> (\<exists>x \<in> set (pending st). fst x < deadline \<and> is_proof (snd x))
     | Inr (Some text) \<Rightarrow> \<exists>x \<in> set (pending st). fst x < deadline \<and> is_proof (snd x))"
  using assms
proof (induction deadline st rule: await_proof.induct)
  case (1 deadline st)
  obtain a u where w: "wait_until deadline st = (a, u)" by fastforce
  note w' = wait_until_ready [OF 1(3) w 1(4)]
  show ?case
  proof (cases "pending st")
    case Nil
    with 1(2,4) w w' show ?thesis by (subst (asm) await_proof.simps) auto
  next
    case (Cons x rest)
    obtain t y where x: "x = (t, y)" by fastforce
    have later: "\<forall>z \<in> set rest. t \<le> fst z" using pending_sorted [OF 1(3)] Cons x by auto
    show ?thesis
    proof (cases "t < deadline")
      case False
      with Cons x later have after: "\<forall>z \<in> set (pending st). deadline \<le> fst z" by auto
      then have "filter (\<lambda>x. deadline \<le> fst x) (pending st) = pending st" by simp
      moreover from after have "\<not> (\<exists>z \<in> set (pending st). fst z < deadline \<and> is_proof (snd z))" by (meson leD)
      moreover have "r = Inr None" "st' = u"
        using 1(2,4) w w' False Cons x by (subst (asm) await_proof.simps, simp)+
      ultimately show ?thesis using w' False Cons x by simp
    next
      case True
      with Cons x w' obtain s where s: "a = Some (Data s)" "y = Data s" "pending u = rest" "clock u < deadline" by auto
      show ?thesis
      proof (cases "is_proof y")
        case True
        with \<open>t < deadline\<close> Cons x w' s 1(2,4) w show ?thesis
          by (subst (asm) await_proof.simps) (auto simp: is_proof_def)
      next
        case False
        then have "await_proof deadline u = (r, st')"
          using 1(2,4) w s by (subst (asm) await_proof.simps) (simp add: is_proof_def)
        with 1(1) [of a u "Data s" s] False \<open>t < deadline\<close> Cons x w' s 1(4) w show ?thesis
          by (auto simp: is_proof_def split: option.splits sum.splits)
      qed
    qed
  qed
qed

lemma note_identity_keeps: "note_identity f st = (b, st') \<Longrightarrow> ready st' = ready st \<and> lines_sent st' = lines_sent st \<and> bus_answered st' = bus_answered st"
  by (auto simp: note_identity_def Let_def ready_def split: if_splits sum.splits option.splits)

lemma note_first_keeps: "note_first fs st = (b, st') \<Longrightarrow> ready st' = ready st \<and> lines_sent st' = lines_sent st \<and> bus_answered st' = bus_answered st"
  by (induction fs arbitrary: st) (auto split: prod.splits bool.splits dest!: note_identity_keeps)

lemma wait_until_keeps: "wait_until deadline st = (a, st') \<Longrightarrow> lines_sent st' = lines_sent st \<and> bus_answered st' = bus_answered st"
  by (auto simp: wait_until_def take_arrival_def split: list.splits if_splits)

lemma await_identity_keeps [simp]: "lines_sent (await_identity deadline st) = lines_sent st \<and> bus_answered (await_identity deadline st) = bus_answered st"
proof (induction deadline st rule: await_identity.induct)
  case (1 deadline st)
  obtain a u where w: "wait_until deadline st = (a, u)" by fastforce
  show ?case
    using 1 [OF _ w [symmetric]] w wait_until_keeps [OF w]
    by (auto simp: await_identity.simps [of deadline st]
        split: option.split arrival.split prod.split bool.split dest!: note_first_keeps)
qed

lemma read_gateway_identity_keeps [simp]:
  "lines_sent (read_gateway_identity first st) = lines_sent st"
  "bus_answered (read_gateway_identity first st) = bus_answered st"
  by (auto simp: read_gateway_identity_def split: prod.split bool.split dest!: note_first_keeps)

definition proof_before :: "nat \<Rightarrow> (nat \<times> arrival) list \<Rightarrow> bool" where
  "proof_before t xs \<longleftrightarrow> (\<exists>x \<in> set xs. fst x < t \<and> is_proof (snd x))"

lemma proof_before_later: "\<not> proof_before t xs \<Longrightarrow>
    proof_before (t + d) (filter (\<lambda>x. t \<le> fst x) xs) = proof_before (t + d) xs"
  by (simp add: proof_before_def) (metis fst_conv snd_conv prod.collapse not_less)

lemma probe_line [simp]: "py_strip PRESENCE_PROBE_COMMAND = ''#A''"
  by code_simp

lemma probe_attempts_ready:
  assumes "ready st"
  shows "\<exists>st' k b. probe_attempts n st = (Inr b, st') \<and> k \<le> n \<and> (0 < n \<longrightarrow> 0 < k) \<and>
    lines_sent st' = lines_sent st @ replicate k ''#A'' \<and> bus_answered st' = Some b \<and>
    b = (0 < n \<and> proof_before (clock st + n * 3000) (pending st)) \<and> (\<not> b \<longrightarrow> k = n)"
  using assms
proof (induction n arbitrary: st)
  case 0
  show ?case by simp (rule exI [of _ False], simp)
next
  case (Suc n)
  define st1 where "st1 = st\<lparr>lines_sent := lines_sent st @ [''#A'']\<rparr>"
  have s: "send PRESENCE_PROBE_COMMAND st = (Inr (), st1)"
    using send_ready [OF Suc.prems probe_command_ascii] by (simp add: st1_def)
  have st1: "ready st1" "clock st1 = clock st" "pending st1 = pending st" using Suc.prems by (simp_all add: st1_def)
  obtain r st2 where a: "await_proof (clock st1 + PRESENCE_PROBE_TIMEOUT) st1 = (r, st2)" by fastforce
  have late: "clock st1 < clock st1 + PRESENCE_PROBE_TIMEOUT" by (simp add: PRESENCE_PROBE_TIMEOUT_def)
  note w = await_proof_ready [OF a st1(1) late]
  then obtain hit where r: "r = Inr hit" by (cases r) auto
  show ?case
  proof (cases hit)
    case (Some found)
    with w r st1 have "proof_before (clock st + Suc n * 3000) (pending st)"
      by (force simp: proof_before_def PRESENCE_PROBE_TIMEOUT_def)
    with Some s a r w show ?thesis by (intro exI [of _ "Suc 0"] exI) (auto simp: st1_def)
  next
    case None
    with w r have st2: "ready st2" "clock st2 = clock st + 3000" "pending st2 = filter (\<lambda>x. clock st + 3000 \<le> fst x) (pending st)"
      "\<not> proof_before (clock st + 3000) (pending st)" "lines_sent st2 = lines_sent st @ [''#A'']"
      using st1 by (auto simp: PRESENCE_PROBE_TIMEOUT_def proof_before_def) (simp add: st1_def)
    have same: "proof_before (clock st2 + n * 3000) (pending st2) = proof_before (clock st + Suc n * 3000) (pending st)"
      using proof_before_later [OF st2(4), of "n * 3000"] st2(2,3) by (simp add: algebra_simps)
    obtain st' k b where ih: "probe_attempts n st2 = (Inr b, st')" "k \<le> n" "lines_sent st' = lines_sent st2 @ replicate k ''#A''"
      "bus_answered st' = Some b" "b = (0 < n \<and> proof_before (clock st2 + n * 3000) (pending st2))" "\<not> b \<longrightarrow> k = n"
      using Suc.IH [OF st2(1)] by blast
    have "b = proof_before (clock st + Suc n * 3000) (pending st)" using ih(5) same st2(4) by (cases "n = 0") auto
    with ih None s a r st2(5) show ?thesis by (intro exI [of _ st'] exI [of _ "Suc k"] exI [of _ b]) simp
  qed
qed

lemma send_each_ready: "ready st \<Longrightarrow> \<forall>c \<in> set cmds. py_strip c = c \<and> list_all (\<lambda>x. code x < 128) c \<Longrightarrow>
    send_each cmds st = (Inr (), st\<lparr>lines_sent := lines_sent st @ cmds, clock := clock st + 200 * length cmds\<rparr>)"
  by (induction cmds arbitrary: st) (simp_all add: send_ready algebra_simps)

lemma handshake_lines: "\<forall>c \<in> set COMMANDS_HANDSHAKE. py_strip c = c \<and> list_all (\<lambda>x. code x < 128) c"
  "length COMMANDS_HANDSHAKE = 8"
  by code_simp+

lemma connect_sound_port:
  assumes "connection_target url = Inr tgt" "world tgt (opens st) = Opened p" "sound_port p"
  shows "\<exists>st' k. connect world url st = (Inr (), st') \<and> is_connected st' \<and> 0 < k \<and> k \<le> 3 \<and>
    lines_sent st' = COMMANDS_HANDSHAKE @ replicate k ''#A'' \<and>
    bus_answered st' = Some (proof_before 11600 (arrivals p)) \<and>
    (\<not> proof_before 11600 (arrivals p) \<longrightarrow> k = 3)"
proof -
  define st1 where "st1 = (close_first st)\<lparr>opens := opens st + 1, transport := Some p, is_connected := True, clock := 0, lines_sent := []\<rparr>"
  have o: "open_port world url (close_first st) = (Inr (), st1)"
    using assms by (simp add: open_port_def st1_def)
  have r1: "ready st1" using assms(3) by (simp add: ready_def st1_def)
  define st2 where "st2 = st1\<lparr>lines_sent := COMMANDS_HANDSHAKE, clock := 2600\<rparr>"
  have h: "handshake st1 = (Inr (), st1\<lparr>lines_sent := COMMANDS_HANDSHAKE, clock := 1600\<rparr>)"
    using send_each_ready [OF r1 handshake_lines(1)] handshake_lines(2) by (simp add: handshake_def st1_def)
  have r2: "ready st2" "clock st2 = 2600" "pending st2 = arrivals p" "lines_sent st2 = COMMANDS_HANDSHAKE"
    using r1 by (simp_all add: st2_def pending_def st1_def)
  obtain st' k b where p: "probe_attempts 3 st2 = (Inr b, st')" "k \<le> 3" "0 < k"
    "lines_sent st' = COMMANDS_HANDSHAKE @ replicate k ''#A''" "bus_answered st' = Some b"
    "b = proof_before 11600 (arrivals p)" "\<not> b \<longrightarrow> k = 3"
    using probe_attempts_ready [OF r2(1), of 3] r2 by auto
  have g: "greet st1 = (Inr (), st')"
    using h p(1) by (simp add: greet_def probe_def PRESENCE_PROBE_ATTEMPTS_def PRESENCE_PROBE_SETTLE_def st2_def)
  have "is_connected st'" using greet_connected [OF g] by (simp add: st1_def)
  with p o g show ?thesis by (simp add: connect_def)
qed

text \<open>
  C12. On a port whose writes go through, connecting succeeds with a fresh transport, sends the eight
  handshake lines and then one to three probes, and calls the device present exactly when a frame
  that proves it arrives in the 11.6 seconds the handshake and the probes take: no frame that comes
  between two attempts is missed, and a silent port gets all three probes and still stays connected.
\<close>

theorem probe_verdict:
  assumes "connection_target url = Inr tgt" "world tgt (opens st) = Opened p" "sound_port p"
  shows "\<exists>st' k. connect world url st = (Inr (), st') \<and> is_connected st' \<and> 0 < k \<and> k \<le> 3 \<and>
    lines_sent st' = COMMANDS_HANDSHAKE @ replicate k ''#A'' \<and>
    bus_answered st' = Some (\<exists>x \<in> set (arrivals p). fst x < 11600 \<and> is_proof (snd x)) \<and>
    (\<not> (\<exists>x \<in> set (arrivals p). fst x < 11600 \<and> is_proof (snd x)) \<longrightarrow> k = 3)"
  using connect_sound_port [where world = world and st = st, OF assms] by (simp add: proof_before_def)

lemma example_sound: "sound_port answering_port" "connection_target ''10.0.0.5:2000'' = Inr (Tcp ''10.0.0.5'' 2000)"
  "is_proof (Data ''$18F58600500F3FFFAC61FE'')"
  by (simp add: sound_port_def answering_port_def) code_simp+

theorem probe_verdict_witness:
  "\<exists>st' k. connect (\<lambda>_ _. Opened answering_port) ''10.0.0.5:2000'' connection_init = (Inr (), st') \<and> k \<le> 3 \<and>
     lines_sent st' = COMMANDS_HANDSHAKE @ replicate k ''#A'' \<and> bus_answered st' = Some True"
proof -
  have "\<exists>x \<in> set (arrivals answering_port). fst x < 11600 \<and> is_proof (snd x)"
    using example_sound(3) by (simp add: answering_port_def)
  with probe_verdict [where world = "\<lambda>_ _. Opened answering_port" and st = connection_init, OF example_sound(2) refl example_sound(1)] show ?thesis by auto
qed

subsection \<open>Reconnecting\<close>

lemma send_opens: "send c st = (r, st') \<Longrightarrow> opens st' = opens st"
  by (auto simp: send_def Let_def split: option.splits if_splits)

lemma wait_until_opens: "wait_until deadline st = (a, st') \<Longrightarrow> opens st' = opens st"
  by (auto simp: wait_until_def take_arrival_def split: list.splits if_splits)

lemma note_first_opens: "note_first fs st = (b, st') \<Longrightarrow> opens st' = opens st"
proof (induction fs arbitrary: st)
  case (Cons f fs)
  obtain b u where n: "note_identity (CHR ''$'' # f) st = (b, u)" by fastforce
  then have "opens u = opens st" by (auto simp: note_identity_def Let_def split: if_splits sum.splits option.splits)
  with Cons n show ?case by (auto split: bool.splits)
qed simp

lemma await_identity_opens [simp]: "opens (await_identity deadline st) = opens st"
proof (induction deadline st rule: await_identity.induct)
  case (1 deadline st)
  obtain a u where w: "wait_until deadline st = (a, u)" by fastforce
  show ?case
    using 1 [OF _ w [symmetric]] w wait_until_opens [OF w]
    by (subst await_identity.simps) (auto split: option.split arrival.split prod.split bool.split dest: note_first_opens)
qed

lemma read_gateway_identity_opens [simp]: "opens (read_gateway_identity first st) = opens st"
  by (auto simp: read_gateway_identity_def split: prod.split bool.split dest: note_first_opens)

lemma await_proof_opens: "await_proof deadline st = (r, st') \<Longrightarrow> opens st' = opens st"
proof (induction deadline st rule: await_proof.induct)
  case (1 deadline st)
  obtain a u where w: "wait_until deadline st = (a, u)" by fastforce
  show ?case
    using 1(2) 1(1) [OF _ w [symmetric]] w wait_until_opens [OF w]
    by (subst (asm) await_proof.simps) (auto split: option.splits arrival.splits if_splits)
qed

lemma probe_attempts_opens: "probe_attempts n st = (r, st') \<Longrightarrow> opens st' = opens st"
  by (induction n arbitrary: st)
    (auto split: prod.splits sum.splits option.splits dest!: send_opens await_proof_opens)

lemma send_each_opens: "send_each cmds st = (r, st') \<Longrightarrow> opens st' = opens st"
  by (induction cmds arbitrary: st) (auto split: prod.splits sum.splits dest!: send_opens)

lemma greet_opens: "greet st = (r, st') \<Longrightarrow> opens st' = opens st"
  by (auto simp: greet_def handshake_def probe_def split: prod.splits sum.splits
      dest!: probe_attempts_opens send_each_opens)

lemma connect_opens: "connection_target url = Inr tgt \<Longrightarrow> connect world url st = (r, st') \<Longrightarrow> opens st' = opens st + 1"
  by (auto simp: connect_def open_port_def Let_def split: open_result.splits prod.splits sum.splits if_splits dest!: greet_opens)

lemma connect_success: "connect world url st = (Inr v, st') \<Longrightarrow> is_connected st'"
  by (auto simp: connect_def split: prod.splits sum.splits if_splits dest: open_port_connected greet_connected)

fun delays :: "rat \<Rightarrow> rat \<Rightarrow> nat \<Rightarrow> rat" where
  "delays cap d 0 = d"
| "delays cap d (Suc k) = delays cap (min (d * 2) cap) k"

lemma delays_closed: "0 \<le> d \<Longrightarrow> d \<le> cap \<Longrightarrow> delays cap d k = min (d * 2 ^ k) cap"
proof (induction k arbitrary: d)
  case (Suc k)
  show ?case
  proof (cases "d * 2 \<le> cap")
    case True
    with Suc show ?thesis by (simp add: mult.assoc)
  next
    case False
    have "cap \<le> cap * 2 ^ k" "d * 2 \<le> d * 2 * 2 ^ k"
      using Suc.prems mult_left_mono [of "1 :: rat" "2 ^ k" cap] mult_left_mono [of "1 :: rat" "2 ^ k" "d * 2"] by auto
    with False have "min (cap * 2 ^ k) cap = cap" "min (d * 2 ^ Suc k) cap = cap" by (simp_all add: min_absorb2 mult.assoc)
    with False Suc.IH [of cap] Suc.prems show ?thesis by (simp add: min_absorb2)
  qed
qed simp

definition attempt_calls :: "rat \<Rightarrow> rat \<Rightarrow> nat \<Rightarrow> nat \<Rightarrow> (nat \<times> rat) list" where
  "attempt_calls cap d n m = map (\<lambda>i. (n + i + 1, delays cap d i)) [0..<m]"

lemma attempt_calls_Suc: "attempt_calls cap d n (Suc m) = (n + 1, d) # attempt_calls cap (min (d * 2) cap) (n + 1) m"
  by (simp add: attempt_calls_def map_upt_Suc del: upt_Suc)

lemma reconnect_loop_reaches:
  assumes "connection_target url = Inr tgt" "world tgt (opens st + k) = Opened p" "sound_port p"
  shows "\<exists>m st'. m \<le> k \<and> is_connected st' \<and> opens st' = opens st + m + 1 \<and>
    reconnect_loop world url cap n d calls st = Some (n + m + 1, calls @ attempt_calls cap d n (m + 1), st')"
  using assms(2)
proof (induction k arbitrary: n d calls st)
  case 0
  obtain st' where "connect world url st = (Inr (), st')" "is_connected st'"
    using connect_sound_port [where world = world and st = st, OF assms(1) _ assms(3)] 0 by auto
  then show ?case
    using connect_opens [OF assms(1)]
    by (intro exI [of _ 0] exI [of _ st']) (simp add: reconnect_loop.simps [of world url cap n d calls st] attempt_calls_def)
next
  case (Suc k)
  obtain r u where c: "connect world url st = (r, u)" by fastforce
  note o = connect_opens [OF assms(1) c]
  show ?case
  proof (cases r)
    case (Inl e)
    have "world tgt (opens u + k) = Opened p" using Suc.prems o by simp
    from Suc.IH [OF this, of "n + 1" "min (d * 2) cap" "calls @ [(n + 1, d)]"] obtain m st' where
      "m \<le> k" "is_connected st'" "opens st' = opens u + m + 1"
      "reconnect_loop world url cap (n + 1) (min (d * 2) cap) (calls @ [(n + 1, d)]) u =
        Some (n + 1 + m + 1, (calls @ [(n + 1, d)]) @ attempt_calls cap (min (d * 2) cap) (n + 1) (m + 1), st')" by blast
    with c Inl o show ?thesis
      by (intro exI [of _ "Suc m"] exI [of _ st'])
        (simp add: reconnect_loop.simps [of world url cap n d calls st] attempt_calls_Suc [of cap d n "Suc m"])
  next
    case (Inr v)
    have "is_connected u" using c Inr connect_success by blast
    with c Inr o show ?thesis
      by (intro exI [of _ 0] exI [of _ u]) (simp add: reconnect_loop.simps [of world url cap n d calls st] attempt_calls_def)
  qed
qed

text \<open>
  C13. Whatever the attempts before it met, reconnecting reaches a working port: when some later opening
  yields a port whose writes go through, the loop ends connected at that opening or earlier, returns
  the number of openings it took, and has announced every attempt with its delay, which doubles
  from the initial one up to the maximum.
\<close>

theorem reconnect_reaches_port:
  assumes "connection_target url = Inr tgt" "world tgt (opens st + k) = Opened p" "sound_port p"
    and "0 \<le> initial" "initial \<le> cap"
  shows "\<exists>m st'. m \<le> k \<and> is_connected st' \<and> opens st' = opens st + m + 1 \<and>
    reconnect_with_backoff world url initial cap st =
      Some (m + 1, map (\<lambda>i. (i + 1, min (initial * 2 ^ i) cap)) [0..<m + 1], st')"
proof -
  obtain m st' where "m \<le> k" "is_connected st'" "opens st' = opens st + m + 1"
    "reconnect_loop world url cap 0 initial [] st = Some (m + 1, attempt_calls cap initial 0 (m + 1), st')"
    using reconnect_loop_reaches [where world = world and st = st and n = 0 and calls = "[]" and d = initial and cap = cap, OF assms(1,2,3)] by auto
  then show ?thesis
    using delays_closed [OF assms(4,5)]
    by (intro exI [of _ m] exI [of _ st']) (simp add: reconnect_with_backoff_def attempt_calls_def)
qed

theorem reconnect_reaches_port_witness:
  "\<exists>m st'. m \<le> 4 \<and> is_connected st' \<and>
    reconnect_with_backoff (\<lambda>_ k. if k < 4 then OpenFails OSError else Opened answering_port) ''10.0.0.5:2000'' 1 30 connection_init =
      Some (m + 1, map (\<lambda>i. (i + 1, min (2 ^ i) 30)) [0..<m + 1], st')"
proof -
  let ?w = "\<lambda>_ k. if k < 4 then OpenFails OSError else Opened answering_port"
  have "?w (Tcp ''10.0.0.5'' 2000) (opens connection_init + 4) = Opened answering_port" by (simp add: connection_init_def)
  from reconnect_reaches_port [where world = ?w and st = connection_init and cap = 30 and initial = 1, OF example_sound(2) this example_sound(1)]
  show ?thesis by (simp del: upt_Suc) blast
qed

lemma reconnect_loop_needs_port:
  assumes "reconnect_loop world url cap n delay calls st = Some res"
  shows "\<exists>tgt k p. world tgt k = Opened p"
proof (rule reconnect_loop.raw_induct [OF _ assms])
  fix loop world url cap n delay calls st y
  assume again: "\<And>world url cap n delay calls st y. loop world url cap n delay calls st = Some y \<Longrightarrow>
      \<exists>tgt k p. world tgt k = Opened p"
    and body: "(case connect world url st of
        (Inl _, st') \<Rightarrow> loop world url cap (n + 1) (min (delay * 2) cap) (calls @ [(n + 1, delay)]) st'
      | (Inr _, st') \<Rightarrow> Some (n + 1, calls @ [(n + 1, delay)], st')) = Some y"
  obtain r u where c: "connect world url st = (r, u)" by fastforce
  show "\<exists>tgt k p. world tgt k = Opened p"
  proof (cases r)
    case (Inl e)
    with body c again show ?thesis by simp
  next
    case (Inr v)
    with c show ?thesis
      by (auto simp: connect_def open_port_def Let_def split: prod.splits sum.splits open_result.splits if_splits)
  qed
qed

lemma reconnect_without_port:
  assumes "\<And>tgt k p. world tgt k \<noteq> Opened p"
  shows "reconnect_with_backoff world url initial cap st = None"
  using reconnect_loop_needs_port [of world url cap 0 initial "[]" st] assms
  by (cases "reconnect_with_backoff world url initial cap st") (auto simp: reconnect_with_backoff_def)

end
