(* ===== verification/Module_Image.thy ===== *)
theory Module_Image
  imports Addresses Frames PyIter
begin

section \<open>Module images\<close>

text \<open>
  The maintenance half of \<open>api.py\<close>: the checksum a module computes over its programming image, its
  prediction from a change alone, and reading an image block by block. The command handler's
  \<open>query\<close> is a parameter: \<open>query n func addr args\<close> is the reply payload of the n-th query, or its error.
  Offsets are Python integers, and a byte of the change is addressed as Python indexes a
  \<open>bytearray\<close>, from the end when the offset is negative.
\<close>

definition MODULE_IMAGE_SIZES :: "(string \<times> nat) list" where
  "MODULE_IMAGE_SIZES = [(''switch_module'', 0x700), (''roller_module'', 0x700), (''dimmer_module'', 0xFD0)]"

definition MODULE_CRC_RANGES :: "(string \<times> (nat \<times> nat) list) list" where
  "MODULE_CRC_RANGES = [(''dimmer_module'', [(0x000, 0x7FA), (0x800, 0xFD0)])]"

definition MODULE_VOLATILE_RANGES :: "(string \<times> (nat \<times> nat) list) list" where
  "MODULE_VOLATILE_RANGES = [(''dimmer_module'', [(0x7E3, 0x7FA)])]"

definition covered :: "byte list \<Rightarrow> string \<Rightarrow> byte list" where
  "covered img module_type = (case map_of MODULE_CRC_RANGES module_type of
       None \<Rightarrow> img
     | Some ranges \<Rightarrow> concat (map (\<lambda>(a, b). slice a b img) ranges))"

definition image_crc :: "byte list \<Rightarrow> string \<Rightarrow> int res" where
  "image_crc img module_type = calc_crc1 (hex_of_lower (covered img module_type))"

definition covered_length :: "string \<Rightarrow> nat option" where
  "covered_length module_type = (case map_of MODULE_IMAGE_SIZES module_type of
       None \<Rightarrow> None
     | Some extent \<Rightarrow> (case map_of MODULE_CRC_RANGES module_type of
           None \<Rightarrow> Some extent
         | Some ranges \<Rightarrow> Some (sum_list (map (\<lambda>(a, b). b - a) ranges))))"

fun position_in :: "(nat \<times> nat) list \<Rightarrow> nat \<Rightarrow> int \<Rightarrow> int option" where
  "position_in [] position offset = None"
| "position_in ((a, b) # ranges) position offset =
     (if int a \<le> offset \<and> offset < int b then Some (int position + offset - int a)
      else position_in ranges (position + (b - a)) offset)"

definition covered_position :: "string \<Rightarrow> int \<Rightarrow> int option" where
  "covered_position module_type offset = (case map_of MODULE_CRC_RANGES module_type of
       None \<Rightarrow> Some offset
     | Some ranges \<Rightarrow> position_in ranges 0 offset)"

definition xor_at :: "byte list \<Rightarrow> int \<Rightarrow> byte \<Rightarrow> byte list res" where
  \<comment> \<open>\<open>delta[position] ^= x\<close>\<close>
  "xor_at delta position x =
     (let k = (if position < 0 then position + int (length delta) else position) in
      if 0 \<le> k \<and> k < int (length delta) then Inr (delta[nat k := delta ! nat k XOR x]) else Inl IndexError)"

definition note_change :: "string \<Rightarrow> int \<times> byte \<Rightarrow> byte list \<Rightarrow> byte list res" where
  "note_change module_type = (\<lambda>(offset, x) delta. case covered_position module_type offset of
       None \<Rightarrow> Inr delta | Some position \<Rightarrow> xor_at delta position x)"

definition changes_at :: "int \<Rightarrow> byte list \<Rightarrow> byte list \<Rightarrow> (int \<times> byte) list" where
  "changes_at offset before after =
     map (\<lambda>index. (offset + int index, before ! index XOR after ! index)) [0..<length before]"

fun note_changes :: "string \<Rightarrow> (int \<times> byte list) list \<Rightarrow> (int \<times> byte list) list \<Rightarrow> byte list \<Rightarrow> byte list option res" where
  \<comment> \<open>\<open>None\<close> when the two maps do not describe the same bytes\<close>
  "note_changes module_type [] new_bytes delta = Inr (Some delta)"
| "note_changes module_type ((offset, before) # old_bytes) new_bytes delta =
     (case map_of new_bytes offset of
        None \<Rightarrow> Inl KeyError
      | Some after \<Rightarrow>
          if length after \<noteq> length before then Inr None
          else res_bind (fold_res (note_change module_type) (changes_at offset before after) delta)
                 (note_changes module_type old_bytes new_bytes))"

definition predict_module_crc ::
  "string \<Rightarrow> int \<Rightarrow> (int \<times> byte list) list \<Rightarrow> (int \<times> byte list) list \<Rightarrow> int option res" where
  "predict_module_crc module_type old_crc old_bytes new_bytes =
     (case covered_length module_type of
        None \<Rightarrow> Inr None
      | Some n \<Rightarrow>
          if set (map fst old_bytes) \<noteq> set (map fst new_bytes) then Inr None
          else res_bind (note_changes module_type old_bytes new_bytes (replicate n 0)) (\<lambda>change.
            case change of
              None \<Rightarrow> Inr None
            | Some delta \<Rightarrow>
                if \<not> list_ex (\<lambda>x. x \<noteq> 0) delta then Inr (Some old_crc)
                else res_bind (calc_crc1 (hex_of_lower delta)) (\<lambda>moved.
                  res_bind (calc_crc1 (hex_of_lower (replicate n 0))) (\<lambda>zero.
                    Inr (Some (old_crc XOR moved XOR zero))))))"

subsection \<open>The prediction\<close>

definition covered_offsets :: "string \<Rightarrow> nat list" where
  "covered_offsets module_type = (if module_type = ''dimmer_module'' then [0..<0x7FA] @ [0x800..<0xFD0] else [0..<0x700])"

lemma image_sizes: "map_of MODULE_IMAGE_SIZES mt = Some extent \<longleftrightarrow>
    mt \<in> {''switch_module'', ''roller_module''} \<and> extent = 0x700 \<or> mt = ''dimmer_module'' \<and> extent = 0xFD0"
  by (auto simp: MODULE_IMAGE_SIZES_def)

lemma slice_offsets: "b \<le> length xs \<Longrightarrow> slice a b xs = map (nth xs) [a..<b]"
  by (rule nth_equalityI) (auto simp: slice_def)

lemma family_cases:
  assumes "map_of MODULE_IMAGE_SIZES mt = Some extent"
  obtains "mt \<noteq> ''dimmer_module''" "map_of MODULE_CRC_RANGES mt = None" "extent = 0x700" "covered_offsets mt = [0..<0x700]"
  | "mt = ''dimmer_module''" "map_of MODULE_CRC_RANGES mt = Some [(0, 0x7FA), (0x800, 0xFD0)]" "extent = 0xFD0"
    "covered_offsets mt = [0..<0x7FA] @ [0x800..<0xFD0]"
  using assms by (auto simp: image_sizes MODULE_CRC_RANGES_def covered_offsets_def simp del: upt_rec_numeral)

lemma covered_alt:
  assumes "map_of MODULE_IMAGE_SIZES mt = Some extent" "length img = extent"
  shows "covered img mt = map (nth img) (covered_offsets mt)"
  using assms(1)
proof (cases rule: family_cases)
  case 1
  with assms(2) map_nth [of img] show ?thesis by (simp add: covered_def del: upt_rec_numeral)
next
  case 2
  with assms(2) show ?thesis by (simp add: covered_def slice_offsets del: upt_rec_numeral)
qed

lemma covered_length_alt:
  assumes "map_of MODULE_IMAGE_SIZES mt = Some extent"
  shows "covered_length mt = Some (length (covered_offsets mt))"
  using assms
proof (cases rule: family_cases)
  case 1
  with assms show ?thesis by (simp add: covered_length_def del: upt_rec_numeral)
next
  case 2
  with assms have "map_of MODULE_IMAGE_SIZES ''dimmer_module'' = Some 0xFD0" by simp
  with 2 show ?thesis by (simp add: covered_length_def del: upt_rec_numeral)
qed

lemma distinct_covered [simp]: "distinct (covered_offsets mt)"
  by (simp add: covered_offsets_def del: upt_rec_numeral)

lemma covered_position_alt:
  assumes "map_of MODULE_IMAGE_SIZES mt = Some extent" "i < extent"
  shows "(\<exists>k < length (covered_offsets mt). covered_position mt (int i) = Some (int k) \<and> covered_offsets mt ! k = i) \<or>
    covered_position mt (int i) = None \<and> i \<notin> set (covered_offsets mt)"
  using assms(1)
proof (cases rule: family_cases)
  case 1
  with assms(2) show ?thesis
    by (intro disjI1 exI [of _ i]) (simp add: covered_position_def del: upt_rec_numeral)
next
  case 2
  consider "i < 0x7FA" | "0x7FA \<le> i" "i < 0x800" | "0x800 \<le> i" by linarith
  then show ?thesis
  proof cases
    case 1
    with 2 show ?thesis
      by (intro disjI1 exI [of _ i]) (simp add: covered_position_def nth_append del: upt_rec_numeral)
  next
    case 2
    with \<open>map_of MODULE_CRC_RANGES mt = _\<close> \<open>covered_offsets mt = _\<close> show ?thesis
      by (intro disjI2) (simp add: covered_position_def del: upt_rec_numeral)
  next
    case 3
    obtain j where j: "i = 0x800 + j" "j < 0x7D0" using 3 assms(2) 2(3) le_Suc_ex by auto
    with 2 show ?thesis
      by (intro disjI1 exI [of _ "0x7FA + j"]) (simp add: covered_position_def nth_append del: upt_rec_numeral)
  qed
qed

lemma xor_at_nat: "k < length delta \<Longrightarrow> xor_at delta (int k) x = Inr (delta[k := delta ! k XOR x])"
  by (simp add: xor_at_def)

lemma update_mapped: "distinct xs \<Longrightarrow> k < length xs \<Longrightarrow> (map f xs)[k := v] = map (f(xs ! k := v)) xs"
  by (rule nth_equalityI) (auto simp: nth_list_update nth_eq_iff_index_eq)

lemma note_change_mapped:
  assumes "map_of MODULE_IMAGE_SIZES mt = Some extent" "i < extent"
  shows "note_change mt (int i, x) (map f (covered_offsets mt)) = Inr (map (f(i := f i XOR x)) (covered_offsets mt))"
  using covered_position_alt [OF assms] by (auto simp: note_change_def xor_at_nat update_mapped)

definition after_changes :: "(nat \<times> byte) list \<Rightarrow> (nat \<Rightarrow> byte) \<Rightarrow> nat \<Rightarrow> byte" where
  "after_changes cs f = fold (\<lambda>(i, x) f. f(i := f i XOR x)) cs f"

lemma note_change_run:
  assumes "map_of MODULE_IMAGE_SIZES mt = Some extent" "\<forall>(i, x) \<in> set cs. i < extent"
  shows "fold_res (note_change mt) (map (\<lambda>(i, x). (int i, x)) cs) (map f (covered_offsets mt)) =
    Inr (map (after_changes cs f) (covered_offsets mt))"
  using assms(2)
  by (induction cs arbitrary: f) (auto simp: note_change_mapped [OF assms(1)] after_changes_def)

lemma after_changes_lookup:
  "distinct (map fst cs) \<Longrightarrow> after_changes cs f i = (case map_of cs i of None \<Rightarrow> f i | Some x \<Rightarrow> f i XOR x)"
proof (induction cs arbitrary: f)
  case (Cons c cs)
  obtain j x where c: "c = (j, x)" by fastforce
  have "map_of cs j = None" using Cons.prems c by (force simp: map_of_eq_None_iff)
  with Cons c show ?case by (auto simp: after_changes_def split: option.splits)
qed (simp add: after_changes_def)

definition touched :: "(nat \<times> nat) list \<Rightarrow> nat list" where
  \<comment> \<open>the offsets of a list of regions, each a start and a length\<close>
  "touched regions = concat (map (\<lambda>(a, n). [a..<a + n]) regions)"

definition bytes_at :: "byte list \<Rightarrow> (nat \<times> nat) list \<Rightarrow> (int \<times> byte list) list" where
  "bytes_at img regions = map (\<lambda>(a, n). (int a, slice a (a + n) img)) regions"

definition differences :: "byte list \<Rightarrow> byte list \<Rightarrow> nat list \<Rightarrow> (nat \<times> byte) list" where
  "differences xs ys = map (\<lambda>i. (i, xs ! i XOR ys ! i))"

lemma changes_at_region:
  assumes "a + n \<le> length xs" "a + n \<le> length ys"
  shows "changes_at (int a) (slice a (a + n) xs) (slice a (a + n) ys) =
    map (\<lambda>(i, x). (int i, x)) (differences xs ys [a..<a + n])"
  using assms by (intro nth_equalityI) (simp_all add: changes_at_def differences_def slice_offsets del: upt_Suc)

lemma note_changes_regions:
  assumes "map_of MODULE_IMAGE_SIZES mt = Some extent" "length xs = extent" "length ys = extent"
    and "\<forall>(a, n) \<in> set regions. a + n \<le> extent \<and> map_of new_bytes (int a) = Some (slice a (a + n) ys)"
  shows "note_changes mt (bytes_at xs regions) new_bytes (map f (covered_offsets mt)) =
    Inr (Some (map (after_changes (differences xs ys (touched regions)) f) (covered_offsets mt)))"
  using assms(4)
proof (induction regions arbitrary: f)
  case Nil
  then show ?case by (simp add: bytes_at_def touched_def differences_def after_changes_def)
next
  case (Cons r regions)
  obtain a n where r: "r = (a, n)" by fastforce
  have bound: "a + n \<le> extent" "map_of new_bytes (int a) = Some (slice a (a + n) ys)" using Cons.prems r by auto
  have "\<forall>(i, x) \<in> set (differences xs ys [a..<a + n]). i < extent" using bound by (auto simp: differences_def)
  note run = note_change_run [OF assms(1) this]
  have "after_changes (differences xs ys (touched (r # regions))) f =
      after_changes (differences xs ys (touched regions)) (after_changes (differences xs ys [a..<a + n]) f)"
    by (simp add: touched_def differences_def after_changes_def r)
  with Cons bound r assms(2,3) show ?case
    by (simp add: bytes_at_def changes_at_region run length_slice)
qed

lemma crc16_linear:
  assumes "length xs = length ys"
  shows "crc16 ys = crc16 xs XOR (crc16 (map2 (XOR) xs ys) XOR crc16 (replicate (length xs) 0))"
proof -
  have "map2 (XOR) xs (map2 (XOR) (map2 (XOR) xs ys) (replicate (length xs) 0)) = ys"
    using assms by (intro nth_equalityI) (simp_all add: xor.assoc [symmetric])
  with c16.run_mix3 [of xs "map2 (XOR) xs ys" "replicate (length xs) 0" "0xFFFF"] assms show ?thesis
    by (simp add: crc16_def)
qed

lemma calc_crc1_lower: "calc_crc1 (hex_of_lower bs) = Inr (uint (crc16 bs))"
  by (simp add: calc_crc1_def bytes_fromhex_hex_of_lower crc1_bytes_crc16)

lemma predicted_crc:
  assumes "covered_length mt = Some (length xs)" "length ys = length xs"
    and "set (map fst old_bytes) = set (map fst new_bytes)"
    and "note_changes mt old_bytes new_bytes (replicate (length xs) 0) = Inr (Some delta)" "delta = map2 (XOR) xs ys"
  shows "predict_module_crc mt (uint (crc16 xs)) old_bytes new_bytes = Inr (Some (uint (crc16 ys)))"
proof -
  have result: "predict_module_crc mt (uint (crc16 xs)) old_bytes new_bytes =
      (if \<not> list_ex (\<lambda>x. x \<noteq> 0) delta then Inr (Some (uint (crc16 xs)))
       else Inr (Some (uint (crc16 xs) XOR uint (crc16 delta) XOR uint (crc16 (replicate (length xs) 0)))))"
    unfolding predict_module_crc_def assms(1,3,4) option.case calc_crc1_lower res_bind_simps by simp
  show ?thesis
  proof (cases "list_ex (\<lambda>x. x \<noteq> 0) delta")
    case True
    have "uint (crc16 ys) = uint (crc16 xs) XOR uint (crc16 delta) XOR uint (crc16 (replicate (length xs) 0))"
      unfolding assms(5) by (subst crc16_linear [OF assms(2) [symmetric]]) (simp only: uint_xor xor.assoc)
    with True show ?thesis unfolding result by simp
  next
    case False
    then have "\<forall>x \<in> set delta. x = 0" by (simp add: list_ex_iff)
    then have "\<forall>i < length xs. xs ! i XOR ys ! i = 0" using assms(2) unfolding assms(5) by (auto simp: set_zip)
    then have "xs = ys" using assms(2) by (intro nth_equalityI) (simp_all add: word_xor_eq_0)
    with False show ?thesis unfolding result by simp
  qed
qed

lemma differences_lookup:
  "map_of (differences xs ys is) i = (if i \<in> set is then Some (xs ! i XOR ys ! i) else None)"
  by (induction "is") (auto simp: differences_def)

text \<open>
  C25. The predicted checksum is the one the module reports: for two images of a known family that, where
  the checksum looks, differ only inside some regions that do not overlap, the prediction from the
  old checksum and the regions' bytes before and now is the checksum of the new image, whatever the rest
  of the image holds and whatever changed where the checksum does not look.
\<close>

theorem predicted_crc_agrees:
  assumes "map_of MODULE_IMAGE_SIZES mt = Some extent" "length old_img = extent" "length new_img = extent"
    and regions: "distinct (touched regions)" "\<forall>(a, n) \<in> set regions. a + n \<le> extent" "distinct (map fst regions)"
    and elsewhere: "\<forall>i \<in> set (covered_offsets mt) - set (touched regions). old_img ! i = new_img ! i"
    and reported: "image_crc old_img mt = Inr old_crc"
  shows "\<exists>new_crc. image_crc new_img mt = Inr new_crc \<and>
    predict_module_crc mt old_crc (bytes_at old_img regions) (bytes_at new_img regions) = Inr (Some new_crc)"
proof -
  define xs ys where "xs = covered old_img mt" and "ys = covered new_img mt"
  note xs = covered_alt [OF assms(1,2), folded xs_def] and ys = covered_alt [OF assms(1,3), folded ys_def]
  have keys: "distinct (map fst (bytes_at new_img regions))" "set (map fst (bytes_at old_img regions)) = set (map fst (bytes_at new_img regions))"
    using regions(3) by (auto simp: bytes_at_def case_prod_beta' distinct_map inj_on_def image_image)
  have known: "\<forall>(a, n) \<in> set regions. a + n \<le> extent \<and> map_of (bytes_at new_img regions) (int a) = Some (slice a (a + n) new_img)"
    using regions(2) keys(1) by (auto intro!: map_of_is_SomeI simp: bytes_at_def)
  have final: "after_changes (differences old_img new_img (touched regions)) (\<lambda>_. 0) i = old_img ! i XOR new_img ! i"
    if "i \<in> set (covered_offsets mt)" for i
    using that elsewhere regions(1) after_changes_lookup [of "differences old_img new_img (touched regions)" "\<lambda>_. 0" i]
    by (auto simp: differences_lookup) (simp_all add: differences_def comp_def)
  have "note_changes mt (bytes_at old_img regions) (bytes_at new_img regions) (replicate (length xs) 0) = Inr (Some (map2 (XOR) xs ys))"
    using note_changes_regions [OF assms(1,2,3) known, of "\<lambda>_. 0"] final
    by (auto simp: xs ys map_replicate_const zip_map1 zip_map2 zip_same_conv_map cong: map_cong)
  then have "predict_module_crc mt (uint (crc16 xs)) (bytes_at old_img regions) (bytes_at new_img regions) = Inr (Some (uint (crc16 ys)))"
    using covered_length_alt [OF assms(1)] keys(2) by (intro predicted_crc) (simp_all add: xs ys)
  then show ?thesis using reported by (simp add: image_crc_def calc_crc1_lower xs_def ys_def)
qed

theorem predicted_crc_agrees_witness:
  "\<exists>old_crc new_crc. image_crc (replicate 0xFD0 0) ''dimmer_module'' = Inr old_crc \<and>
     image_crc ((replicate 0xFD0 0)[0x7EE := 200, 0x7FB := 1]) ''dimmer_module'' = Inr new_crc \<and>
     predict_module_crc ''dimmer_module'' old_crc (bytes_at (replicate 0xFD0 0) [(0x7E3, 2), (0x7EE, 12)])
       (bytes_at ((replicate 0xFD0 0)[0x7EE := 200, 0x7FB := 1]) [(0x7E3, 2), (0x7EE, 12)]) = Inr (Some new_crc)"
proof -
  let ?old = "replicate 0xFD0 (0 :: byte)" and ?new = "(replicate 0xFD0 (0 :: byte))[0x7EE := 200, 0x7FB := 1]"
  let ?regions = "[(0x7E3, 2), (0x7EE, 12)] :: (nat \<times> nat) list"
  have t: "touched ?regions = [0x7E3..<0x7E5] @ [0x7EE..<0x7FA]" by (simp add: touched_def)
  have d: "distinct (touched ?regions)" unfolding t by (auto simp del: upt_rec_numeral)
  have same: "\<forall>i \<in> set (covered_offsets ''dimmer_module'') - set (touched ?regions). ?old ! i = ?new ! i"
    unfolding t by (auto simp: covered_offsets_def nth_list_update simp del: upt_rec_numeral)
  have sizes: "map_of MODULE_IMAGE_SIZES ''dimmer_module'' = Some 0xFD0" "length ?old = 0xFD0" "length ?new = 0xFD0"
    by (simp_all add: MODULE_IMAGE_SIZES_def)
  obtain c where c: "image_crc ?old ''dimmer_module'' = Inr c" by (simp add: image_crc_def calc_crc1_lower)
  from predicted_crc_agrees [OF sizes d _ _ same c] c show ?thesis by auto
qed

subsection \<open>Reading an image\<close>

type_synonym querier = "nat \<Rightarrow> int \<Rightarrow> string \<Rightarrow> byte list \<Rightarrow> byte list res"

definition block_format :: "string \<Rightarrow> int \<times> nat" where
  "block_format module_type = (if module_type = ''dimmer_module'' then (FUNC_READ_BLOCK8, 8) else (FUNC_READ_BLOCK16, 16))"

definition read_block :: "querier \<Rightarrow> nat \<Rightarrow> string \<Rightarrow> string \<Rightarrow> int \<Rightarrow> byte list res" where
  \<comment> \<open>the data of one block, behind the two bytes of the echoed address\<close>
  "read_block query n addr module_type block = (case block_format module_type of (func, block_size) \<Rightarrow>
     res_bind (make_block_index_args block) (\<lambda>args.
     res_bind (query n func addr args) (\<lambda>payload.
       if length (drop 2 payload) \<noteq> block_size then Inl NikobusError else Inr (drop 2 payload))))"

fun read_blocks :: "querier \<Rightarrow> nat \<Rightarrow> string \<Rightarrow> string \<Rightarrow> int list \<Rightarrow> byte list \<Rightarrow> byte list res \<times> nat" where
  \<comment> \<open>the blocks' data appended, and how many blocks were read in full\<close>
  "read_blocks query n addr module_type [] acc = (Inr acc, 0)"
| "read_blocks query n addr module_type (block # blocks) acc =
     (case read_block query n addr module_type block of
        Inl e \<Rightarrow> (Inl e, 0)
      | Inr data \<Rightarrow> apsnd Suc (read_blocks query (Suc n) addr module_type blocks (acc @ data)))"

definition read_module_memory :: "querier \<Rightarrow> string \<Rightarrow> string \<Rightarrow> byte list res \<times> (nat \<times> nat) list" where
  \<comment> \<open>the image, and the calls of \<open>progress\<close>\<close>
  "read_module_memory query addr module_type =
     (case map_of MODULE_IMAGE_SIZES module_type of
        None \<Rightarrow> (Inl NikobusError, [])
      | Some extent \<Rightarrow>
          (let total = extent div snd (block_format module_type);
               (r, finished) = read_blocks query 0 addr module_type (map int [0..<total]) []
           in (r, map (\<lambda>k. (k + 1, total)) [0..<finished])))"

definition read_module_range :: "querier \<Rightarrow> string \<Rightarrow> string \<Rightarrow> nat \<Rightarrow> nat \<Rightarrow> byte list res" where
  \<comment> \<open>for \<open>start \<le> end\<close>\<close>
  "read_module_range query addr module_type a b =
     (if map_of MODULE_IMAGE_SIZES module_type = None then Inl NikobusError
      else (let block_size = snd (block_format module_type);
                first = a div block_size; final = (int b - 1) div int block_size
            in res_bind (fst (read_blocks query 0 addr module_type [int first..final] []))
                 (\<lambda>data. Inr (slice (a - first * block_size) (a - first * block_size + (b - a)) data))))"

definition get_module_crc :: "querier \<Rightarrow> nat \<Rightarrow> string \<Rightarrow> int res" where
  "get_module_crc query n addr = res_bind (query n FUNC_MODULE_CRC addr [0]) parse_module_crc"

definition verify_module_memory :: "querier \<Rightarrow> string \<Rightarrow> string \<Rightarrow> byte list option \<Rightarrow> (bool \<times> int \<times> int) res" where
  "verify_module_memory query addr module_type known =
     (let (r, n) = (case known of
          Some img \<Rightarrow> (Inr img, 0)
        | None \<Rightarrow> (case read_module_memory query addr module_type of (r, calls) \<Rightarrow> (r, length calls)))
      in res_bind r (\<lambda>img. res_bind (image_crc img module_type) (\<lambda>computed.
           res_bind (get_module_crc query n addr) (\<lambda>reported. Inr (reported = computed, reported, computed)))))"

definition read_module_volatile :: "(nat \<Rightarrow> querier) \<Rightarrow> string \<Rightarrow> string \<Rightarrow> (nat \<times> byte list) list res" where
  \<comment> \<open>\<open>queries k\<close> answers the queries of the k-th range\<close>
  "read_module_volatile queries addr module_type =
     map_res (\<lambda>(k, a, b). res_bind (read_module_range (queries k) addr module_type a b) (\<lambda>bs. Inr (a, bs)))
       (enumerate 0 (case map_of MODULE_VOLATILE_RANGES module_type of None \<Rightarrow> [] | Some rs \<Rightarrow> rs))"

definition serves :: "querier \<Rightarrow> string \<Rightarrow> string \<Rightarrow> byte list \<Rightarrow> bool" where
  \<comment> \<open>a module that answers every block query with its address and the block of its image, and its
      checksum query with the checksum of the image\<close>
  "serves query addr module_type img \<longleftrightarrow>
     (\<forall>n block. block < length img div snd (block_format module_type) \<longrightarrow>
        (\<exists>echo. length echo = 2 \<and> query n (fst (block_format module_type)) addr
            [word_of_int (int block AND 0xFF), word_of_int (drop_bit 8 (int block))] =
          Inr (echo @ slice (block * snd (block_format module_type)) (Suc block * snd (block_format module_type)) img))) \<and>
     (\<forall>n. \<exists>payload. query n FUNC_MODULE_CRC addr [0] = Inr payload \<and>
        parse_module_crc payload = image_crc img module_type)"

lemma block_format_simps: "snd (block_format mt) = (if mt = ''dimmer_module'' then 8 else 16)"
  by (simp add: block_format_def)

lemma slice_append: "a \<le> b \<Longrightarrow> b \<le> c \<Longrightarrow> slice a b xs @ slice b c xs = slice a c xs"
  using take_add [of "b - a" "c - b" "drop a xs"] by (simp add: slice_def add.commute)

lemma read_block_served:
  assumes "serves query addr mt img" "block < length img div snd (block_format mt)" "block \<le> 0xFFFF"
  shows "read_block query n addr mt (int block) =
    Inr (slice (block * snd (block_format mt)) (Suc block * snd (block_format mt)) img)"
proof -
  obtain func bs where f: "block_format mt = (func, bs)" by fastforce
  have "0 < bs" using block_format_simps [of mt] f by (auto split: if_splits)
  have "block * bs + bs \<le> length img"
  proof -
    have "Suc block * bs \<le> (length img div bs) * bs" using assms(2) f by (intro mult_le_mono1) simp
    also have "\<dots> \<le> length img" by simp
    finally show ?thesis by simp
  qed
  then have l: "length (slice (block * bs) (Suc block * bs) img) = bs" by simp
  obtain echo where e: "length echo = 2" "query n func addr [word_of_int (int block AND 0xFF), word_of_int (drop_bit 8 (int block))] =
      Inr (echo @ slice (block * bs) (Suc block * bs) img)"
    using assms(1,2) f unfolding serves_def by fastforce
  have "make_block_index_args (int block) = Inr [word_of_int (int block AND 0xFF), word_of_int (drop_bit 8 (int block))]"
    using assms(3) by (simp add: make_block_index_args_def)
  then show ?thesis using e l f by (simp add: read_block_def)
qed

lemma read_blocks_served:
  assumes "serves query addr mt img" "bs = snd (block_format mt)" "j \<le> length img div bs" "j \<le> 0x10000" "i \<le> j"
  shows "read_blocks query n addr mt (map int [i..<j]) acc = (Inr (acc @ slice (i * bs) (j * bs) img), j - i)"
  using assms(5)
proof (induction "j - i" arbitrary: i n acc)
  case 0
  then show ?case by (simp add: slice_def)
next
  case (Suc k)
  then have i: "i < j" by simp
  have b: "read_block query n addr mt (int i) = Inr (slice (i * bs) (Suc i * bs) img)"
    using read_block_served [OF assms(1), of i n] i assms(2,3,4) by simp
  have s: "slice (i * bs) (Suc i * bs) img @ slice (Suc i * bs) (j * bs) img = slice (i * bs) (j * bs) img"
    using i mult_le_mono1 [of "Suc i" j bs] by (intro slice_append) auto
  have "read_blocks query (Suc n) addr mt (map int [Suc i..<j]) (acc @ slice (i * bs) (Suc i * bs) img) =
      (Inr ((acc @ slice (i * bs) (Suc i * bs) img) @ slice (Suc i * bs) (j * bs) img), j - Suc i)"
    using Suc by (intro Suc.hyps(1)) auto
  then show ?case unfolding upt_conv_Cons [OF i] list.map read_blocks.simps b sum.case using s i by simp
qed

lemma slice_slice: "b \<le> d \<Longrightarrow> a \<le> b \<Longrightarrow> c \<le> a \<Longrightarrow> slice (a - c) (b - c) (slice c d xs) = slice a b xs"
  by (simp add: slice_def drop_take min_def)

lemma module_extent_blocks:
  assumes "map_of MODULE_IMAGE_SIZES mt = Some extent"
  shows "extent = extent div snd (block_format mt) * snd (block_format mt)" "extent div snd (block_format mt) \<le> 0x10000"
    "0 < snd (block_format mt)"
  using assms by (auto simp: image_sizes block_format_def)

lemma map_int_upto: "map int [i..<Suc j] = [int i..int j]"
proof (cases "i \<le> j")
  case True
  then show ?thesis by (intro nth_equalityI) (auto simp: nth_append simp del: upt_Suc)
qed simp

lemma read_range_served:
  assumes "serves query addr mt img" "map_of MODULE_IMAGE_SIZES mt = Some (length img)" "a \<le> b" "b \<le> length img"
  shows "read_module_range query addr mt a b = Inr (slice a b img)"
proof -
  define bs where "bs = snd (block_format mt)"
  note blocks = module_extent_blocks [OF assms(2), folded bs_def]
  show ?thesis
  proof (cases b)
    case 0
    with assms(3) blocks(3) show ?thesis
      by (simp add: read_module_range_def assms(2) bs_def [symmetric] slice_def Let_def zdiv_eq_0_iff div_neg_pos_less0)
  next
    case (Suc c)
    define j where "j = c div bs + 1"
    have final: "(int b - 1) div int bs = int (c div bs)" using Suc by (simp add: zdiv_int)
    have upto: "[int (a div bs)..int (c div bs)] = map int [a div bs..<j]"
      by (simp only: j_def map_int_upto Suc_eq_plus1 [symmetric])
    have "c div bs < length img div bs" using Suc assms(4) blocks by (metis Suc_le_lessD div_less_iff_less_mult)
    then have j: "j \<le> length img div bs" "j \<le> 0x10000" using blocks(2) by (simp_all add: j_def)
    have i: "a div bs \<le> j" using assms(3) Suc blocks(3) div_le_mono [of a "c + bs" bs] by (simp add: j_def div_add_self2)
    have reach: "b \<le> j * bs"
      using Suc dividend_less_div_times [OF blocks(3), of c] by (simp add: j_def algebra_simps)
    have "a div bs * bs \<le> a" by simp
    with read_blocks_served [OF assms(1) bs_def j i, of 0 "[]"] reach show ?thesis
      by (simp add: read_module_range_def assms(2) bs_def [symmetric] Let_def final upto slice_slice assms(3))
  qed
qed

text \<open>
  C26. Reading the memory of a module that answers every block query with that block of its image gives the
  image back, with one progress report per block; reading a range gives exactly those bytes of it, whatever the
  blocks it begins and ends in; and verifying it finds the module's own checksum equal to the computed one.
\<close>

theorem memory_read_reassembles:
  assumes "serves query addr mt img" "map_of MODULE_IMAGE_SIZES mt = Some (length img)" "a \<le> b" "b \<le> length img"
  shows "read_module_memory query addr mt =
      (Inr img, map (\<lambda>k. (k + 1, length img div snd (block_format mt))) [0..<length img div snd (block_format mt)]) \<and>
    read_module_range query addr mt a b = Inr (slice a b img) \<and>
    (\<exists>crc. image_crc img mt = Inr crc \<and> verify_module_memory query addr mt None = Inr (True, crc, crc))"
proof -
  define bs where "bs = snd (block_format mt)"
  note blocks = module_extent_blocks [OF assms(2), folded bs_def]
  have "slice 0 (length img div bs * bs) img = img" using blocks(1) by (simp add: slice_def)
  then have all: "read_module_memory query addr mt = (Inr img, map (\<lambda>k. (k + 1, length img div bs)) [0..<length img div bs])"
    using read_blocks_served [OF assms(1) bs_def order.refl blocks(2), of 0 0 "[]"]
    by (simp add: read_module_memory_def assms(2) bs_def [symmetric] Let_def)
  obtain payload where reply: "query (length img div bs) FUNC_MODULE_CRC addr [0] = Inr payload"
    "parse_module_crc payload = image_crc img mt"
    using assms(1) unfolding serves_def by blast
  have "image_crc img mt = Inr (uint (crc16 (covered img mt)))" by (simp add: image_crc_def calc_crc1_lower)
  then show ?thesis using all reply read_range_served [OF assms]
    by (simp add: verify_module_memory_def get_module_crc_def bs_def [symmetric])
qed

definition image_server :: "byte list \<Rightarrow> string \<Rightarrow> querier" where
  "image_server img mt n func addr args = (case args of
       [b] \<Rightarrow> (case image_crc img mt of Inl e \<Rightarrow> Inl e
         | Inr crc \<Rightarrow> Inr (replicate 5 0 @ [word_of_int crc, word_of_int (crc div 256)]))
     | [low, high] \<Rightarrow> (let k = unat low + 256 * unat high; bs = snd (block_format mt)
         in Inr ([1, 2] @ slice (k * bs) (Suc k * bs) img))
     | _ \<Rightarrow> Inl ValueError)"

lemma block_index_bytes: "k \<le> 0xFFFF \<Longrightarrow>
    unat (word_of_int (int k AND 0xFF) :: byte) + 256 * unat (word_of_int (drop_bit 8 (int k)) :: byte) = k"
proof -
  assume k: "k \<le> 0xFFFF"
  have "int k AND 0xFF = int k mod 256" using take_bit_eq_mask [of 8 "int k"] by (simp add: take_bit_eq_mod mask_eq_exp_minus_1)
  then have a: "unat (word_of_int (int k AND 0xFF) :: byte) = k mod 256"
    by (simp add: unat_eq_nat_uint uint_word_of_int nat_mod_distrib)
  have "unat (word_of_int (drop_bit 8 (int k)) :: byte) = k div 256"
    using k by (simp add: unat_eq_nat_uint uint_word_of_int drop_bit_eq_div nat_mod_distrib nat_div_distrib)
  with a show ?thesis by simp
qed

lemma crc_bytes: "0 \<le> c \<Longrightarrow> c < 65536 \<Longrightarrow>
    uint (word_of_int c :: byte) OR push_bit 8 (uint (word_of_int (c div 256) :: byte)) = c"
proof -
  assume c: "0 \<le> c" "c < 65536"
  have "push_bit 8 (c div 256) OR c mod 256 = c" using or_shift_plus [of "c mod 256" 8 "c div 256"] by simp
  then show ?thesis using c by (simp add: uint_word_of_int or.commute)
qed

lemma image_server_serves:
  assumes "map_of MODULE_IMAGE_SIZES mt = Some (length img)"
  shows "serves (image_server img mt) addr mt img"
proof -
  have "k \<le> 0xFFFF" if "k < length img div snd (block_format mt)" for k
    using that module_extent_blocks(2) [OF assms] by linarith
  moreover obtain c where "image_crc img mt = Inr c" "0 \<le> c" "c < 65536"
    using uint_bounded [of "crc16 (covered img mt)"] by (simp add: image_crc_def calc_crc1_lower)
  ultimately show ?thesis
    unfolding serves_def
    by (auto simp: image_server_def block_index_bytes Let_def parse_module_crc_def crc_bytes nth_append
        intro!: exI [of _ "[1, 2]"])
qed

theorem memory_read_reassembles_witness:
  "fst (read_module_memory (image_server (map of_nat [0..<0x700]) ''switch_module'') ''C9A5'' ''switch_module'') =
      Inr (map of_nat [0..<0x700]) \<and>
    read_module_range (image_server (map of_nat [0..<0x700]) ''switch_module'') ''C9A5'' ''switch_module'' 0x6FA 0x6FC =
      Inr (slice 0x6FA 0x6FC (map of_nat [0..<0x700])) \<and>
    (\<exists>crc. verify_module_memory (image_server (map of_nat [0..<0x700]) ''switch_module'') ''C9A5'' ''switch_module'' None =
      Inr (True, crc, crc))"
proof -
  have l: "map_of MODULE_IMAGE_SIZES ''switch_module'' = Some (length (map of_nat [0..<0x700] :: byte list))"
    by (simp add: MODULE_IMAGE_SIZES_def del: upt_rec_numeral)
  have r: "0x6FA \<le> (0x6FC :: nat)" "0x6FC \<le> length (map of_nat [0..<0x700] :: byte list)" by simp_all
  from memory_read_reassembles [OF image_server_serves [OF l] l r, of "''C9A5''"] show ?thesis by auto
qed

end
