(* ===== verification/Api.thy ===== *)
theory Api
  imports Frames PyIter
begin

section \<open>The host's operations\<close>

text \<open>
  The other half of \<open>api.py\<close>: switches, lights and covers. What an operation does to the bus and to the
  state buffer is the sequence of its calls of the command handler, in order (\<open>deed\<close>). The handler is a
  parameter, \<open>desk\<close>: \<open>answer tr addr group\<close> is what reading a module group returns after the calls \<open>tr\<close>, and
  \<open>refuses tr d\<close> is the exception the call \<open>d\<close> raises then, if any. Waiting for the press to leave the
  interface, and the pause after it, only pass time.
\<close>

datatype deed =
    ReadGroup string int
  | StoreState string int int
  | SetOutput string int int
  | Queue string             \<comment> \<open>a line of text queued for the bus\<close>
  | SetModule string "int option"
  | Completed                \<comment> \<open>the completion handler called by the operation itself\<close>

record desk =
  answer :: "deed list \<Rightarrow> string \<Rightarrow> int \<Rightarrow> string res"
  refuses :: "deed list \<Rightarrow> deed \<Rightarrow> exn option"
  press_repeat :: pyval
  module_data :: pydict
  completion :: bool         \<comment> \<open>a completion handler is given\<close>

type_synonym 'a act = "deed list \<Rightarrow> 'a res \<times> deed list"

definition give :: "'a \<Rightarrow> 'a act" where
  "give x tr = (Inr x, tr)"

definition fail_with :: "exn \<Rightarrow> 'a act" where
  "fail_with e tr = (Inl e, tr)"

definition and_then :: "'a act \<Rightarrow> ('a \<Rightarrow> 'b act) \<Rightarrow> 'b act" where
  "and_then m f tr = (case m tr of (Inl e, tr') \<Rightarrow> (Inl e, tr') | (Inr x, tr') \<Rightarrow> f x tr')"

definition perform :: "desk \<Rightarrow> deed \<Rightarrow> unit act" where
  "perform w d tr = (case refuses w tr d of Some e \<Rightarrow> (Inl e, tr) | None \<Rightarrow> (Inr (), tr @ [d]))"

definition STATE_OFF_api :: int where "STATE_OFF_api = 0x00"
definition STATE_ON_api :: int where "STATE_ON_api = 0xFF"
definition STATE_OPEN_api :: int where "STATE_OPEN_api = 0x01"
definition STATE_CLOSE_api :: int where "STATE_CLOSE_api = 0x02"
definition DEFAULT_PRESS_REPEAT :: int where "DEFAULT_PRESS_REPEAT = 3"

subsection \<open>Channels and presses\<close>

definition get_default :: "pydict \<Rightarrow> string \<Rightarrow> pyval \<Rightarrow> pyval" where
  \<comment> \<open>\<open>d.get(k, default)\<close>\<close>
  "get_default d k v = (case map_of d k of None \<Rightarrow> v | Some u \<Rightarrow> u)"

definition as_info :: "pyval \<Rightarrow> pydict res" where
  \<comment> \<open>\<open>chan if chan else {}\<close>, on which every caller calls \<open>get\<close>\<close>
  "as_info chan = (if \<not> py_true chan then Inr [] else of_option AttributeError (as_dict chan))"

definition py_item :: "pyval \<Rightarrow> int \<Rightarrow> pyval option" where
  \<comment> \<open>\<open>v[i]\<close>, \<open>None\<close> for its \<open>IndexError\<close>, \<open>KeyError\<close> or \<open>TypeError\<close>\<close>
  "py_item v i =
     (let xs = (case v of PList xs \<Rightarrow> xs | PStr s \<Rightarrow> map (\<lambda>c. PStr [c]) s | _ \<Rightarrow> []);
          k = (if i < 0 then i + int (length xs) else i)
      in if 0 \<le> k \<and> k < int (length xs) then Some (xs ! nat k) else None)"

definition get_channel_info :: "desk \<Rightarrow> string \<Rightarrow> string \<Rightarrow> int \<Rightarrow> pydict res" where
  "get_channel_info w module_key addr ch =
     res_bind (of_option AttributeError (as_dict (get_default (module_data w) module_key (PDict [])))) (\<lambda>modules.
     res_bind (of_option AttributeError (as_dict (get_default modules addr (PDict [])))) (\<lambda>entry.
       case py_item (get_default entry ''channels'' (PList [])) (ch - 1) of
         None \<Rightarrow> Inr []
       | Some chan \<Rightarrow> as_info chan))"

definition press_command :: "desk \<Rightarrow> pyval \<Rightarrow> string" where
  "press_command w bus_addr =
     (let repeats = (case py_int (press_repeat w) of None \<Rightarrow> DEFAULT_PRESS_REPEAT | Some n \<Rightarrow> max 1 n);
          cr = [char_of (13 :: nat)]
      in join cr (replicate (nat repeats) (''#N'' @ py_str bus_addr @ cr @ ''#E1'')))"

definition press_button :: "desk \<Rightarrow> pyval \<Rightarrow> unit act" where
  "press_button w bus_addr = perform w (Queue (press_command w bus_addr))"

definition has_feedback_key :: "desk \<Rightarrow> string \<Rightarrow> string \<Rightarrow> int \<Rightarrow> bool res" where
  "has_feedback_key w module_key addr ch = res_bind (get_channel_info w module_key addr ch) (\<lambda>info.
     Inr (py_true (py_or (dict_get info ''led_on'') (dict_get info ''led_off''))))"

subsection \<open>Feedback keys\<close>

definition read_errors :: "exn set" where
  \<comment> \<open>the library's exceptions, \<open>ValueError\<close>, and \<open>TimeoutError\<close>, for which the library's own stands\<close>
  "read_errors = {NikobusConnectionError, NikobusSendError, NikobusTimeoutError, NikobusReadError,
     NikobusDataError, NikobusError, ValueError}"

fun store_image :: "desk \<Rightarrow> string \<Rightarrow> int \<Rightarrow> byte list \<Rightarrow> unit act" where
  "store_image w addr ch [] = give ()"
| "store_image w addr ch (b # bs) = and_then (perform w (StoreState addr ch (uint b))) (\<lambda>_. store_image w addr (ch + 1) bs)"

definition read_channel :: "desk \<Rightarrow> string \<Rightarrow> int \<Rightarrow> bool option act" where
  "read_channel w addr ch tr0 =
     (let g = (if ch \<le> 6 then 1 else 2); tr = tr0 @ [ReadGroup addr g] in
      case answer w tr addr g of
        Inl e \<Rightarrow> if e \<in> read_errors then (Inr None, tr) else (Inl e, tr)
      | Inr state_hex \<Rightarrow>
          (case bytes_fromhex (take 12 state_hex) of
             None \<Rightarrow> (Inr None, tr)
           | Some img \<Rightarrow>
               if length img < 6 then (Inr None, tr)
               else and_then (store_image w addr (if g = 1 then 1 else 7) img)
                 (\<lambda>_. give (Some (uint (img ! nat ((ch - 1) mod 6)) \<noteq> STATE_OFF_api))) tr))"

definition complete :: "desk \<Rightarrow> unit act" where
  "complete w = (if completion w then perform w Completed else give ())"

definition switch_by_key :: "desk \<Rightarrow> string \<Rightarrow> int \<Rightarrow> bool \<Rightarrow> pyval \<Rightarrow> bool option \<Rightarrow> bool act" where
  "switch_by_key w addr ch want_on key known =
     (let target = (if want_on then STATE_ON_api else STATE_OFF_api) in
      and_then (case known of None \<Rightarrow> read_channel w addr ch | Some b \<Rightarrow> give (Some b)) (\<lambda>current.
        case current of
          None \<Rightarrow> and_then (perform w (SetOutput addr ch target)) (\<lambda>_. give False)
        | Some on \<Rightarrow>
            if on = want_on then and_then (complete w) (\<lambda>_. give True)
            else and_then (press_button w key) (\<lambda>_.
              and_then (read_channel w addr ch) (\<lambda>after.
                if after = Some want_on then and_then (complete w) (\<lambda>_. give True)
                else and_then (perform w (SetOutput addr ch target)) (\<lambda>_. give (after \<noteq> None))))))"

definition dispatch_action :: "desk \<Rightarrow> string \<Rightarrow> string \<Rightarrow> int \<Rightarrow> int \<Rightarrow> string \<Rightarrow> unit act" where
  "dispatch_action w module_key addr ch target_state cmd_key =
     (case get_channel_info w module_key addr ch of
        Inl e \<Rightarrow> fail_with e
      | Inr info \<Rightarrow>
          (let bus_cmd = dict_get info cmd_key in
           if py_true bus_cmd \<and> module_key = ''switch_module''
           then and_then (switch_by_key w addr ch (target_state \<noteq> STATE_OFF_api) bus_cmd None) (\<lambda>_. give ())
           else if py_true bus_cmd
           then and_then (press_button w bus_cmd) (\<lambda>_. perform w (StoreState addr ch target_state))
           else perform w (SetOutput addr ch target_state)))"

definition turn_on_switch :: "desk \<Rightarrow> string \<Rightarrow> int \<Rightarrow> unit act" where
  "turn_on_switch w addr ch = dispatch_action w ''switch_module'' addr ch STATE_ON_api ''led_on''"

definition turn_off_switch :: "desk \<Rightarrow> string \<Rightarrow> int \<Rightarrow> unit act" where
  "turn_off_switch w addr ch = dispatch_action w ''switch_module'' addr ch STATE_OFF_api ''led_off''"

definition toggle_switch :: "desk \<Rightarrow> string \<Rightarrow> int \<Rightarrow> bool option act" where
  "toggle_switch w addr ch =
     (case get_channel_info w ''switch_module'' addr ch of
        Inl e \<Rightarrow> fail_with e
      | Inr info \<Rightarrow>
          (let on_key = dict_get info ''led_on''; off_key = dict_get info ''led_off'' in
           and_then (read_channel w addr ch) (\<lambda>current.
             case current of
               None \<Rightarrow>
                 if py_true on_key \<and> on_key = off_key then and_then (press_button w on_key) (\<lambda>_. give None)
                 else give None
             | Some on \<Rightarrow>
                 (let want_on = (\<not> on); key = (if want_on then on_key else off_key) in
                  if py_true key
                  then and_then (switch_by_key w addr ch want_on key (Some on)) (\<lambda>_. give (Some want_on))
                  else and_then (perform w (SetOutput addr ch (if want_on then STATE_ON_api else STATE_OFF_api)))
                         (\<lambda>_. give (Some want_on))))))"

subsection \<open>Lights, covers and whole modules\<close>

definition turn_light :: "desk \<Rightarrow> string \<Rightarrow> int \<Rightarrow> string \<Rightarrow> bool \<Rightarrow> int \<Rightarrow> int \<Rightarrow> unit act" where
  \<comment> \<open>the key is pressed when the light is on (\<open>pressed_when\<close>) or when it is off\<close>
  "turn_light w addr ch cmd_key pressed_when current_brightness value =
     (case get_channel_info w ''dimmer_module'' addr ch of
        Inl e \<Rightarrow> fail_with e
      | Inr info \<Rightarrow>
          (let key = dict_get info cmd_key in
           and_then
             (if py_true key
              then and_then (read_channel w addr ch) (\<lambda>current.
                     let is_on = (case current of None \<Rightarrow> current_brightness > 0 | Some b \<Rightarrow> b)
                     in if is_on = pressed_when then press_button w key else give ())
              else give ())
             (\<lambda>_. perform w (SetOutput addr ch value))))"

definition turn_on_light :: "desk \<Rightarrow> string \<Rightarrow> int \<Rightarrow> int \<Rightarrow> int \<Rightarrow> unit act" where
  "turn_on_light w addr ch brightness current_brightness =
     turn_light w addr ch ''led_on'' False current_brightness (max 0 (min 255 brightness))"

definition turn_off_light :: "desk \<Rightarrow> string \<Rightarrow> int \<Rightarrow> int \<Rightarrow> unit act" where
  "turn_off_light w addr ch current_brightness =
     turn_light w addr ch ''led_off'' True current_brightness STATE_OFF_api"

definition open_cover :: "desk \<Rightarrow> string \<Rightarrow> int \<Rightarrow> unit act" where
  "open_cover w addr ch = dispatch_action w ''roller_module'' addr ch STATE_OPEN_api ''led_on''"

definition close_cover :: "desk \<Rightarrow> string \<Rightarrow> int \<Rightarrow> unit act" where
  "close_cover w addr ch = dispatch_action w ''roller_module'' addr ch STATE_CLOSE_api ''led_off''"

definition stop_cover :: "desk \<Rightarrow> string \<Rightarrow> int \<Rightarrow> string \<Rightarrow> unit act" where
  "stop_cover w addr ch direction =
     (case get_channel_info w ''roller_module'' addr ch of
        Inl e \<Rightarrow> fail_with e
      | Inr info \<Rightarrow>
          (let bus_cmd = dict_get info (if direction = ''opening'' then ''led_on'' else ''led_off'') in
           if py_true bus_cmd
           then and_then (press_button w bus_cmd) (\<lambda>_. perform w (StoreState addr ch STATE_OFF_api))
           else perform w (SetOutput addr ch STATE_OFF_api)))"

fun count_in :: "string \<Rightarrow> pyval list \<Rightarrow> int option" where
  "count_in addr [] = None"
| "count_in addr (v # vs) =
     (case as_dict v of
        None \<Rightarrow> count_in addr vs
      | Some modules \<Rightarrow>
          (case as_dict (py_or (dict_get modules (upper addr)) (dict_get modules addr)) of
             None \<Rightarrow> count_in addr vs
           | Some entry \<Rightarrow>
               (case as_list (dict_get entry ''channels'') of
                  None \<Rightarrow> count_in addr vs
                | Some chans \<Rightarrow> Some (int (length chans)))))"

definition module_channel_count :: "desk \<Rightarrow> string \<Rightarrow> int option" where
  "module_channel_count w addr = count_in addr (map snd (module_data w))"

definition set_output_states_for_module :: "desk \<Rightarrow> string \<Rightarrow> int option \<Rightarrow> unit act" where
  "set_output_states_for_module w addr num_channels =
     perform w (SetModule addr (case num_channels of
       None \<Rightarrow> module_channel_count w addr
     | Some n \<Rightarrow> if n = 0 then module_channel_count w addr else Some n))"

subsection \<open>A module behind the handler\<close>

definition deed_effect :: "(string \<Rightarrow> byte list \<Rightarrow> byte list) \<Rightarrow> string \<Rightarrow> deed \<Rightarrow> byte list \<Rightarrow> byte list" where
  \<comment> \<open>what a call does to the twelve outputs of a module; \<open>push\<close> is what the installation does on a queued line\<close>
  "deed_effect push addr d st = (case d of
       SetOutput a ch v \<Rightarrow> if a = addr then st[nat (ch - 1) := word_of_int v] else st
     | Queue line \<Rightarrow> push line st
     | _ \<Rightarrow> st)"

definition outputs_after :: "(string \<Rightarrow> byte list \<Rightarrow> byte list) \<Rightarrow> string \<Rightarrow> byte list \<Rightarrow> deed list \<Rightarrow> byte list" where
  "outputs_after push addr st tr = fold (deed_effect push addr) tr st"

definition is_on :: "byte list \<Rightarrow> int \<Rightarrow> bool" where
  "is_on st ch \<longleftrightarrow> st ! nat (ch - 1) \<noteq> 0"

definition output_group :: "byte list \<Rightarrow> int \<Rightarrow> byte list" where
  "output_group st g = (if g = 1 then slice 0 6 st else slice 6 12 st)"

definition reads_outputs :: "desk \<Rightarrow> (string \<Rightarrow> byte list \<Rightarrow> byte list) \<Rightarrow> string \<Rightarrow> byte list \<Rightarrow> bool" where
  \<comment> \<open>no call is refused, and reading a group returns its outputs as they are then, or fails\<close>
  "reads_outputs w push addr st \<longleftrightarrow> length st = 12 \<and> (\<forall>line xs. length xs = 12 \<longrightarrow> length (push line xs) = 12) \<and>
     (\<forall>tr d. refuses w tr d = None) \<and>
     (\<forall>tr g. answer w tr addr g = Inr (hex_of (output_group (outputs_after push addr st tr) g)) \<or>
             (\<exists>e \<in> read_errors. answer w tr addr g = Inl e))"

definition quiet :: "deed \<Rightarrow> bool" where
  "quiet d \<longleftrightarrow> (case d of ReadGroup _ _ \<Rightarrow> True | StoreState _ _ _ \<Rightarrow> True | Completed \<Rightarrow> True | _ \<Rightarrow> False)"

definition presses :: "deed list \<Rightarrow> nat" where
  "presses tr = length (filter (\<lambda>d. case d of Queue _ \<Rightarrow> True | _ \<Rightarrow> False) tr)"

lemma act_simps [simp]: "give x tr = (Inr x, tr)" "fail_with e tr = (Inl e, tr)"
  "and_then m f tr = (case m tr of (Inl e, tr') \<Rightarrow> (Inl e, tr') | (Inr x, tr') \<Rightarrow> f x tr')"
  by (simp_all add: give_def fail_with_def and_then_def)

lemma perform_accepted: "reads_outputs w push addr st \<Longrightarrow> perform w d tr = (Inr (), tr @ [d])"
  by (simp add: perform_def reads_outputs_def)

lemma outputs_after_simps [simp]:
  "outputs_after push addr st [] = st"
  "outputs_after push addr st (tr @ tr') = outputs_after push addr (outputs_after push addr st tr) tr'"
  "outputs_after push addr st (d # tr) = outputs_after push addr (deed_effect push addr d st) tr"
  by (simp_all add: outputs_after_def)

lemma quiet_outputs: "list_all quiet ops \<Longrightarrow> outputs_after push addr st ops = st"
  by (induction ops arbitrary: st) (auto simp: deed_effect_def quiet_def split: deed.splits)

lemma presses_simps [simp]: "presses [] = 0" "presses (d # tr) = (case d of Queue _ \<Rightarrow> 1 | _ \<Rightarrow> 0) + presses tr"
  "presses (tr @ tr') = presses tr + presses tr'"
  by (simp_all add: presses_def split: deed.split)

lemma quiet_presses: "list_all quiet ops \<Longrightarrow> presses ops = 0"
  by (induction ops) (auto simp: quiet_def split: deed.splits)

lemma length_outputs_after: "reads_outputs w push addr st \<Longrightarrow> length (outputs_after push addr st tr) = 12"
proof (induction tr rule: rev_induct)
  case (snoc d tr)
  then show ?case by (auto simp: deed_effect_def reads_outputs_def split: deed.split)
qed (simp add: reads_outputs_def)

lemma store_image_done: "reads_outputs w push addr st \<Longrightarrow>
    store_image w a ch bs tr = (Inr (), tr @ map (\<lambda>k. StoreState a (ch + int k) (uint (bs ! k))) [0..<length bs])"
proof (induction bs arbitrary: ch tr)
  case (Cons b bs)
  then show ?case by (simp add: perform_accepted map_upt_Suc algebra_simps del: upt_Suc)
qed simp

lemma group_channel:
  assumes "length st = 12" "1 \<le> ch" "ch \<le> 12"
  shows "output_group st (if ch \<le> 6 then 1 else 2) ! nat ((ch - 1) mod 6) = st ! nat (ch - 1)"
    "length (output_group st g) = 6"
proof -
  have "(ch - 1) mod 6 = (if ch \<le> 6 then ch - 1 else ch - 7)" using assms(2,3) by simp presburger
  then show "output_group st (if ch \<le> 6 then 1 else 2) ! nat ((ch - 1) mod 6) = st ! nat (ch - 1)"
    using assms by (auto simp: output_group_def slice_def nat_diff_distrib' simp flip: nat_diff_distrib)
qed (use assms in \<open>simp add: output_group_def\<close>)

lemma read_channel_reads:
  assumes "reads_outputs w push addr st" "1 \<le> ch" "ch \<le> 12"
  shows "\<exists>ops r. read_channel w addr ch tr = (Inr r, tr @ ops) \<and> list_all quiet ops \<and>
    (r = None \<or> r = Some (is_on (outputs_after push addr st tr) ch)) \<and>
    ((\<exists>s. answer w (tr @ [ReadGroup addr (if ch \<le> 6 then 1 else 2)]) addr (if ch \<le> 6 then 1 else 2) = Inr s) \<longleftrightarrow> r \<noteq> None)"
proof -
  define g where "g = (if ch \<le> 6 then 1 else (2 :: int))"
  define tr1 where "tr1 = tr @ [ReadGroup addr g]"
  have same: "outputs_after push addr st tr1 = outputs_after push addr st tr"
    by (simp add: tr1_def deed_effect_def)
  note l = length_outputs_after [OF assms(1), of tr]
  from assms(1) consider (bytes) "answer w tr1 addr g = Inr (hex_of (output_group (outputs_after push addr st tr) g))"
    | (none) e where "e \<in> read_errors" "answer w tr1 addr g = Inl e"
    unfolding reads_outputs_def same [symmetric] by blast
  then show ?thesis
  proof cases
    case bytes
    have six: "length (output_group (outputs_after push addr st tr) g) = 6" by (rule group_channel(2) [OF l assms(2,3)])
    then have "bytes_fromhex (take 12 (hex_of (output_group (outputs_after push addr st tr) g))) =
        Some (output_group (outputs_after push addr st tr) g)" by simp
    then show ?thesis
      using bytes six group_channel(1) [OF l assms(2,3)] store_image_done [OF assms(1)]
      unfolding read_channel_def g_def [symmetric] tr1_def [symmetric] Let_def
      by (auto simp: is_on_def STATE_OFF_api_def tr1_def quiet_def list_all_iff unsigned_0 g_def uint_0_iff)
  next
    case none
    then show ?thesis
      unfolding read_channel_def g_def [symmetric] tr1_def [symmetric] Let_def
      by (auto simp: tr1_def quiet_def)
  qed
qed

lemma set_output_reaches:
  assumes "length st = 12" "1 \<le> ch" "ch \<le> 12"
  shows "is_on (outputs_after push addr st [SetOutput addr ch (if want then STATE_ON_api else STATE_OFF_api)]) ch = want"
  using assms by (simp add: deed_effect_def is_on_def STATE_ON_api_def STATE_OFF_api_def)

lemma switch_by_key_reaches:
  assumes "reads_outputs w push addr st" "1 \<le> ch" "ch \<le> 12"
    and known: "known = None \<or> known = Some (is_on (outputs_after push addr st tr) ch)"
  shows "\<exists>ops b. switch_by_key w addr ch want key known tr = (Inr b, tr @ ops) \<and>
    is_on (outputs_after push addr st (tr @ ops)) ch = want \<and> presses ops \<le> 1 \<and>
    (is_on (outputs_after push addr st tr) ch = want \<and>
      (known \<noteq> None \<or> (\<exists>s. answer w (tr @ [ReadGroup addr (if ch \<le> 6 then 1 else 2)]) addr (if ch \<le> 6 then 1 else 2) = Inr s))
      \<longrightarrow> list_all quiet ops)"
proof -
  define target where "target = (if want then STATE_ON_api else STATE_OFF_api)"
  note perform = perform_accepted [OF assms(1)]
  have reach: "is_on (outputs_after push addr st (tr' @ [SetOutput addr ch target])) ch = want" for tr'
    using set_output_reaches [OF length_outputs_after [OF assms(1)] assms(2,3), where want = want] by (simp add: target_def)
  have complete: "\<exists>ops. complete w tr' = (Inr (), tr' @ ops) \<and> list_all quiet ops" for tr'
    by (simp add: complete_def perform) (auto simp: quiet_def)
  obtain ops1 cur where first: "(case known of None \<Rightarrow> read_channel w addr ch | Some b \<Rightarrow> give (Some b)) tr = (Inr cur, tr @ ops1)"
    and q1: "list_all quiet ops1" and cur: "cur = None \<or> cur = Some (is_on (outputs_after push addr st tr) ch)"
    and answered: "known \<noteq> None \<or> (\<exists>s. answer w (tr @ [ReadGroup addr (if ch \<le> 6 then 1 else 2)]) addr (if ch \<le> 6 then 1 else 2) = Inr s)
      \<longrightarrow> cur \<noteq> None"
    using read_channel_reads [OF assms(1,2,3), of tr] known by (cases known) auto
  consider "cur = None" | "cur = Some want" "is_on (outputs_after push addr st tr) ch = want"
    | "cur = Some (\<not> want)" "is_on (outputs_after push addr st tr) ch \<noteq> want" using cur by auto
  then show ?thesis
  proof cases
    case 1
    have "switch_by_key w addr ch want key known tr = (Inr False, tr @ ops1 @ [SetOutput addr ch target])"
      by (simp add: switch_by_key_def Let_def first 1 perform target_def)
    with 1 answered reach [of "tr @ ops1"] quiet_presses [OF q1] show ?thesis
      by (intro exI [of _ "ops1 @ [SetOutput addr ch target]"] exI [of _ False]) auto
  next
    case 2
    obtain ops2 where c: "complete w (tr @ ops1) = (Inr (), (tr @ ops1) @ ops2)" "list_all quiet ops2" using complete by blast
    have "switch_by_key w addr ch want key known tr = (Inr True, tr @ ops1 @ ops2)"
      by (simp add: switch_by_key_def Let_def first 2(1) c(1))
    with 2 c(2) q1 quiet_presses [of "ops1 @ ops2"] quiet_outputs [of "ops1 @ ops2"] show ?thesis
      by (intro exI [of _ "ops1 @ ops2"] exI [of _ True]) (simp add: quiet_outputs)
  next
    case 3
    define tr2 where "tr2 = tr @ ops1 @ [Queue (press_command w key)]"
    obtain ops2 aft where second: "read_channel w addr ch tr2 = (Inr aft, tr2 @ ops2)" "list_all quiet ops2"
      "aft = None \<or> aft = Some (is_on (outputs_after push addr st tr2) ch)"
      using read_channel_reads [OF assms(1,2,3), of tr2] by blast
    have pressed: "press_button w key (tr @ ops1) = (Inr (), tr2)" by (simp add: press_button_def perform tr2_def)
    show ?thesis
    proof (cases "aft = Some want")
      case True
      obtain ops3 where c: "complete w (tr2 @ ops2) = (Inr (), (tr2 @ ops2) @ ops3)" "list_all quiet ops3" using complete by blast
      have "switch_by_key w addr ch want key known tr = (Inr True, tr @ ops1 @ [Queue (press_command w key)] @ ops2 @ ops3)"
        using c(1) by (simp add: switch_by_key_def Let_def first 3(1) pressed second(1) True) (simp add: tr2_def)
      moreover have "is_on (outputs_after push addr st (tr @ ops1 @ [Queue (press_command w key)] @ ops2 @ ops3)) ch = want"
        using True second(3) quiet_outputs [OF second(2)] quiet_outputs [OF c(2)] by (simp add: tr2_def)
      ultimately show ?thesis
        using 3(2) quiet_presses [OF q1] quiet_presses [OF second(2)] quiet_presses [OF c(2)]
        by (intro exI [of _ "ops1 @ [Queue (press_command w key)] @ ops2 @ ops3"] exI [of _ True]) auto
    next
      case False
      have "switch_by_key w addr ch want key known tr =
          (Inr (aft \<noteq> None), tr @ ops1 @ [Queue (press_command w key)] @ ops2 @ [SetOutput addr ch target])"
        using False by (simp add: switch_by_key_def Let_def first 3(1) pressed second(1) perform target_def) (simp add: tr2_def)
      then show ?thesis
        using 3(2) quiet_presses [OF q1] quiet_presses [OF second(2)] reach [of "tr @ ops1 @ [Queue (press_command w key)] @ ops2"]
        by (intro exI [of _ "ops1 @ [Queue (press_command w key)] @ ops2 @ [SetOutput addr ch target]"] exI [of _ "aft \<noteq> None"]) auto
    qed
  qed
qed

text \<open>
  C22. Whatever pressing a key does to the outputs, and whether or not the module answers its reads, turning a
  switch channel on or off ends with the output on or off as asked. At most one press is queued, and none
  when the module reports that the output of a channel with a feedback key is already right: then nothing is
  sent that changes an output.
\<close>

theorem feedback_switch_reaches_state:
  assumes "reads_outputs w push addr st" "1 \<le> ch" "ch \<le> 12"
    and "get_channel_info w ''switch_module'' addr ch = Inr info"
    and turn: "turn = (if want then turn_on_switch else turn_off_switch)"
    and key: "key = dict_get info (if want then ''led_on'' else ''led_off'')"
  shows "\<exists>ops. turn w addr ch tr = (Inr (), tr @ ops) \<and>
    is_on (outputs_after push addr st (tr @ ops)) ch = want \<and> presses ops \<le> 1 \<and>
    (py_true key \<and> is_on (outputs_after push addr st tr) ch = want \<and>
      (\<exists>s. answer w (tr @ [ReadGroup addr (if ch \<le> 6 then 1 else 2)]) addr (if ch \<le> 6 then 1 else 2) = Inr s)
      \<longrightarrow> list_all quiet ops)"
proof -
  define target where "target = (if want then STATE_ON_api else STATE_OFF_api)"
  have t: "turn w addr ch tr = dispatch_action w ''switch_module'' addr ch target (if want then ''led_on'' else ''led_off'') tr"
    by (simp add: turn turn_on_switch_def turn_off_switch_def target_def)
  have "(target \<noteq> STATE_OFF_api) = want" by (simp add: target_def STATE_ON_api_def STATE_OFF_api_def)
  note body = dispatch_action_def [of w "''switch_module''" addr ch target, unfolded assms(4) sum.case this]
  show ?thesis
  proof (cases "py_true key")
    case True
    with switch_by_key_reaches [OF assms(1,2,3), of None tr want key] show ?thesis
      by (auto simp: t body key Let_def)
  next
    case False
    then have "turn w addr ch tr = (Inr (), tr @ [SetOutput addr ch target])"
      by (simp add: t body key [symmetric] Let_def perform_accepted [OF assms(1)])
    with False set_output_reaches [OF length_outputs_after [OF assms(1), of tr] assms(2,3), of push addr want] show ?thesis
      by (intro exI [of _ "[SetOutput addr ch target]"]) (simp add: target_def)
  qed
qed

definition toggling_push :: "string \<Rightarrow> byte list \<Rightarrow> byte list" where
  "toggling_push line st = st[0 := (if st ! 0 = 0 then 255 else 0)]"

definition toggling_desk :: "byte list \<Rightarrow> desk" where
  \<comment> \<open>a module whose first channel a feedback key toggles, and its dimmer twin\<close>
  "toggling_desk st = \<lparr>answer = (\<lambda>tr a g. Inr (hex_of (output_group (outputs_after toggling_push ''C9A5'' st tr) g))),
     refuses = (\<lambda>_ _. None), press_repeat = PInt 3,
     module_data = map (\<lambda>k. (k, PDict [(''C9A5'', PDict [(''channels'', PList [PDict [(''led_on'', PStr ''1D4E2C''), (''led_off'', PStr ''1D4E2C'')]])])]))
       [''switch_module'', ''dimmer_module''],
     completion = True\<rparr>"

lemma toggling_desk_reads: "length st = 12 \<Longrightarrow> reads_outputs (toggling_desk st) toggling_push ''C9A5'' st"
  by (simp add: reads_outputs_def toggling_desk_def toggling_push_def)

lemma toggling_desk_info:
  "mk \<in> {''switch_module'', ''dimmer_module''} \<Longrightarrow> get_channel_info (toggling_desk st) mk ''C9A5'' 1 =
     Inr [(''led_on'', PStr ''1D4E2C''), (''led_off'', PStr ''1D4E2C'')]"
  by (auto simp: get_channel_info_def toggling_desk_def get_default_def py_item_def as_info_def py_true_def as_dict_def Let_def)

theorem feedback_switch_reaches_state_witness:
  "\<exists>ops. turn_on_switch (toggling_desk (replicate 12 255)) ''C9A5'' 1 [] = (Inr (), ops) \<and>
     is_on (outputs_after toggling_push ''C9A5'' (replicate 12 255) ops) 1 \<and> list_all quiet ops"
proof -
  let ?st = "replicate 12 (255 :: byte)" and ?info = "[(''led_on'', PStr ''1D4E2C''), (''led_off'', PStr ''1D4E2C'')]"
  have plant: "reads_outputs (toggling_desk ?st) toggling_push ''C9A5'' ?st" by (rule toggling_desk_reads) simp
  have info: "get_channel_info (toggling_desk ?st) ''switch_module'' ''C9A5'' 1 = Inr ?info" by (rule toggling_desk_info) simp
  from feedback_switch_reaches_state [where want = True and turn = turn_on_switch, OF plant _ _ info _ refl, of "[]"]
  show ?thesis by (auto simp: toggling_desk_def py_true_def is_on_def)
qed

text \<open>
  C23. Toggling a switch channel reports the state it asked for only when the module was read, and that is then the
  other state of the output, which ends in it whatever the key does; an unread module has no output set, and
  at most one press is queued in any case.
\<close>

theorem toggle_switch_inverts:
  assumes "reads_outputs w push addr st" "1 \<le> ch" "ch \<le> 12"
    and "get_channel_info w ''switch_module'' addr ch = Inr info"
  shows "\<exists>ops r. toggle_switch w addr ch tr = (Inr r, tr @ ops) \<and> presses ops \<le> 1 \<and>
    (case r of
       Some b \<Rightarrow> b \<noteq> is_on (outputs_after push addr st tr) ch \<and> is_on (outputs_after push addr st (tr @ ops)) ch = b
     | None \<Rightarrow> \<forall>a c v. SetOutput a c v \<notin> set ops) \<and>
    ((\<exists>s. answer w (tr @ [ReadGroup addr (if ch \<le> 6 then 1 else 2)]) addr (if ch \<le> 6 then 1 else 2) = Inr s) \<longrightarrow> r \<noteq> None)"
proof -
  obtain ops1 cur where first: "read_channel w addr ch tr = (Inr cur, tr @ ops1)" and q1: "list_all quiet ops1"
    and cur: "cur = None \<or> cur = Some (is_on (outputs_after push addr st tr) ch)"
    and answered: "(\<exists>s. answer w (tr @ [ReadGroup addr (if ch \<le> 6 then 1 else 2)]) addr (if ch \<le> 6 then 1 else 2) = Inr s) \<longleftrightarrow> cur \<noteq> None"
    using read_channel_reads [OF assms(1,2,3), of tr] by blast
  have no_set: "SetOutput a c v \<notin> set ops1" for a c v using q1 by (force simp: list_all_iff quiet_def)
  note perform = perform_accepted [OF assms(1)]
  show ?thesis
  proof (cases cur)
    case None
    with first q1 no_set quiet_presses [OF q1] answered show ?thesis
      by (auto simp: toggle_switch_def assms(4) Let_def press_button_def perform intro!: exI [of _ None])
  next
    case (Some on)
    define want key where "want = (\<not> on)" and "key = dict_get info (if want then ''led_on'' else ''led_off'')"
    have on: "on = is_on (outputs_after push addr st tr) ch" using cur Some by simp
    then have known: "Some on = None \<or> Some on = Some (is_on (outputs_after push addr st (tr @ ops1)) ch)"
      using quiet_outputs [OF q1] by simp
    have key_alt: "key = (if \<not> on then dict_get info ''led_on'' else dict_get info ''led_off'')" by (simp add: key_def want_def)
    show ?thesis
    proof (cases "py_true key")
      case True
      obtain ops2 b where "switch_by_key w addr ch want key (Some on) (tr @ ops1) = (Inr b, (tr @ ops1) @ ops2)"
        "is_on (outputs_after push addr st ((tr @ ops1) @ ops2)) ch = want" "presses ops2 \<le> 1"
        using switch_by_key_reaches [OF assms(1,2,3) known, of want key] by blast
      with True first Some on quiet_presses [OF q1] show ?thesis
        by (intro exI [of _ "ops1 @ ops2"] exI [of _ "Some want"])
          (simp add: toggle_switch_def assms(4) Let_def key_alt want_def)
    next
      case False
      with first Some on quiet_presses [OF q1] perform
        set_output_reaches [OF length_outputs_after [OF assms(1), of "tr @ ops1"] assms(2,3), of push addr want] show ?thesis
        by (intro exI [of _ "ops1 @ [SetOutput addr ch (if want then STATE_ON_api else STATE_OFF_api)]"] exI [of _ "Some want"])
          (simp add: toggle_switch_def assms(4) Let_def key_alt want_def)
    qed
  qed
qed

theorem toggle_switch_inverts_witness:
  "\<exists>ops. toggle_switch (toggling_desk (replicate 12 0)) ''C9A5'' 1 [] = (Inr (Some True), ops) \<and> presses ops \<le> 1 \<and>
     is_on (outputs_after toggling_push ''C9A5'' (replicate 12 0) ops) 1"
proof -
  let ?st = "replicate 12 (0 :: byte)" and ?info = "[(''led_on'', PStr ''1D4E2C''), (''led_off'', PStr ''1D4E2C'')]"
  have plant: "reads_outputs (toggling_desk ?st) toggling_push ''C9A5'' ?st" by (rule toggling_desk_reads) simp
  have info: "get_channel_info (toggling_desk ?st) ''switch_module'' ''C9A5'' 1 = Inr ?info" by (rule toggling_desk_info) simp
  from toggle_switch_inverts [OF plant _ _ info, of "[]"] obtain ops r where
    "toggle_switch (toggling_desk ?st) ''C9A5'' 1 [] = (Inr r, ops)" "presses ops \<le> 1" "r \<noteq> None"
    "case r of Some b \<Rightarrow> b \<noteq> is_on ?st 1 \<and> is_on (outputs_after toggling_push ''C9A5'' ?st ops) 1 = b | None \<Rightarrow> True"
    by (auto simp: toggling_desk_def split: option.splits)
  then show ?thesis by (auto simp: is_on_def)
qed

text \<open>
  C24. A light command sets the dimmer channel to the value asked for, clamped to a byte, whatever its keys do. Asked
  for a positive brightness it queues the press of its key exactly when the light, as the module reports it, goes
  from off to on; turning off, exactly when it goes from on to off. When the module does not answer, the
  brightness the host remembers decides. Asked for a brightness of 0 or less, the turning-on command also
  presses its key when the light is off, although the light stays off.
\<close>

theorem light_key_on_transition:
  assumes "reads_outputs w push addr st" "1 \<le> ch" "ch \<le> 12"
    and "get_channel_info w ''dimmer_module'' addr ch = Inr info"
    and keys: "py_true (dict_get info ''led_on'')" "py_true (dict_get info ''led_off'')"
    and was_on: "was_on = (if \<exists>s. answer w (tr @ [ReadGroup addr (if ch \<le> 6 then 1 else 2)]) addr (if ch \<le> 6 then 1 else 2) = Inr s
                           then is_on (outputs_after push addr st tr) ch else 0 < remembered)"
  shows "(\<exists>ops. turn_on_light w addr ch brightness remembered tr = (Inr (), tr @ ops) \<and>
      outputs_after push addr st (tr @ ops) ! nat (ch - 1) = word_of_int (max 0 (min 255 brightness)) \<and>
      is_on (outputs_after push addr st (tr @ ops)) ch = (1 \<le> brightness) \<and>
      (if 1 \<le> brightness then presses ops = (if \<not> was_on \<and> is_on (outputs_after push addr st (tr @ ops)) ch then 1 else 0)
       else presses ops = (if was_on then 0 else 1))) \<and>
    (\<exists>ops. turn_off_light w addr ch remembered tr = (Inr (), tr @ ops) \<and>
      \<not> is_on (outputs_after push addr st (tr @ ops)) ch \<and> presses ops = (if was_on then 1 else 0))"
proof -
  obtain ops1 cur where first: "read_channel w addr ch tr = (Inr cur, tr @ ops1)" and q1: "list_all quiet ops1"
    and "cur = None \<or> cur = Some (is_on (outputs_after push addr st tr) ch)"
    "(\<exists>s. answer w (tr @ [ReadGroup addr (if ch \<le> 6 then 1 else 2)]) addr (if ch \<le> 6 then 1 else 2) = Inr s) \<longleftrightarrow> cur \<noteq> None"
    using read_channel_reads [OF assms(1,2,3), of tr] by blast
  then have cur: "(case cur of None \<Rightarrow> 0 < remembered | Some b \<Rightarrow> b) = was_on" using was_on by (auto split: option.split)
  note perform = perform_accepted [OF assms(1)]
  have light: "\<exists>ops. turn_light w addr ch cmd_key pressed_when remembered level tr = (Inr (), tr @ ops) \<and>
      outputs_after push addr st (tr @ ops) ! nat (ch - 1) = word_of_int level \<and> presses ops = (if was_on = pressed_when then 1 else 0)"
    if "py_true (dict_get info cmd_key)" for cmd_key pressed_when level
  proof -
    define press where "press = (if was_on = pressed_when then [Queue (press_command w (dict_get info cmd_key))] else [])"
    have "turn_light w addr ch cmd_key pressed_when remembered level tr = (Inr (), tr @ ops1 @ press @ [SetOutput addr ch level])"
      using that first by (simp add: turn_light_def assms(4) Let_def press_button_def perform cur press_def)
    moreover have "outputs_after push addr st (tr @ ops1 @ press @ [SetOutput addr ch level]) ! nat (ch - 1) = word_of_int level"
      using length_outputs_after [OF assms(1), of "tr @ ops1 @ press"] assms(2,3) by (simp add: deed_effect_def)
    ultimately show ?thesis using quiet_presses [OF q1] by (intro exI [of _ "ops1 @ press @ [SetOutput addr ch level]"]) (simp add: press_def)
  qed
  have on: "word_of_int (max 0 (min 255 brightness)) \<noteq> (0 :: byte) \<longleftrightarrow> 1 \<le> brightness"
    by (simp add: word_of_int_eq_0_iff) presburger
  define level where "level = max 0 (min 255 brightness)"
  obtain ops where ops: "turn_light w addr ch ''led_on'' False remembered level tr = (Inr (), tr @ ops)"
    "outputs_after push addr st (tr @ ops) ! nat (ch - 1) = word_of_int level" "presses ops = (if was_on = False then 1 else 0)"
    using light [OF keys(1), of False level] by blast
  moreover have "is_on (outputs_after push addr st (tr @ ops)) ch = (1 \<le> brightness)"
    unfolding is_on_def ops(2) using on by (simp add: level_def)
  ultimately have "\<exists>ops. turn_on_light w addr ch brightness remembered tr = (Inr (), tr @ ops) \<and>
      outputs_after push addr st (tr @ ops) ! nat (ch - 1) = word_of_int (max 0 (min 255 brightness)) \<and>
      is_on (outputs_after push addr st (tr @ ops)) ch = (1 \<le> brightness) \<and>
      (if 1 \<le> brightness then presses ops = (if \<not> was_on \<and> is_on (outputs_after push addr st (tr @ ops)) ch then 1 else 0)
       else presses ops = (if was_on then 0 else 1))"
    by (intro exI [of _ ops]) (simp add: turn_on_light_def level_def)
  moreover have "\<exists>ops. turn_off_light w addr ch remembered tr = (Inr (), tr @ ops) \<and>
      \<not> is_on (outputs_after push addr st (tr @ ops)) ch \<and> presses ops = (if was_on then 1 else 0)"
    using light [OF keys(2), of True STATE_OFF_api]
    by (simp add: turn_off_light_def is_on_def STATE_OFF_api_def)
  ultimately show ?thesis by (rule conjI)
qed

theorem light_key_on_transition_witness:
  "\<exists>ops. turn_on_light (toggling_desk (replicate 12 0)) ''C9A5'' 1 300 9 [] = (Inr (), ops) \<and>
     outputs_after toggling_push ''C9A5'' (replicate 12 0) ops ! 0 = 255 \<and> presses ops = 1"
proof -
  let ?st = "replicate 12 (0 :: byte)" and ?info = "[(''led_on'', PStr ''1D4E2C''), (''led_off'', PStr ''1D4E2C'')]"
  have plant: "reads_outputs (toggling_desk ?st) toggling_push ''C9A5'' ?st" by (rule toggling_desk_reads) simp
  have info: "get_channel_info (toggling_desk ?st) ''dimmer_module'' ''C9A5'' 1 = Inr ?info" by (rule toggling_desk_info) simp
  have k: "py_true (dict_get ?info ''led_on'')" "py_true (dict_get ?info ''led_off'')" by (simp_all add: py_true_def)
  from light_key_on_transition [OF plant _ _ info k, of False "[]" 9 300] show ?thesis
    by (auto simp: toggling_desk_def is_on_def)
qed

end
