(* ===== verification/Inventory.thy ===== *)
theory Inventory
  imports Scan_Plan PyIter "HOL-Library.List_Lexorder" "HOL-Library.Char_ord"
begin

section \<open>The PC-Link's registry\<close>

text \<open>
  The inventory half of \<open>discovery.py\<close>: the answers to the registry reads become devices, the header page
  says how many records there are, and the sweep is cut short when the last one is in. \<open>registry\<close> holds
  the attributes the handlers read and write; what they do besides is the list of \<open>registry_out\<close>. The
  date of the run is a parameter, and of the coordinator's module data only the known PC-Links are read.
\<close>

record registry =
  rg_stage :: "string option"
  rg_limit :: "int option"
  rg_seen :: int
  rg_timeout :: nat                  \<comment> \<open>the inactivity window, in milliseconds\<close>
  rg_warned :: "string list"         \<comment> \<open>the unknown types already warned about\<close>
  rg_devices :: "(string \<times> pydict) list"
  rg_addresses :: "string list"
  rg_queued :: "string list"         \<comment> \<open>the PC-Links whose registry reads are queued\<close>

datatype registry_out =
    TimerArmed nat
  | DrainQueue string
  | NotifyScan string
  | QueueReads string

definition INVENTORY_TIMEOUT :: nat where "INVENTORY_TIMEOUT = 10000"
definition REGISTRY_EARLY_STOP_TIMEOUT :: nat where "REGISTRY_EARLY_STOP_TIMEOUT = 1500"
definition PC_LINK_INVENTORY_SIGNATURE_BYTE :: int where "PC_LINK_INVENTORY_SIGNATURE_BYTE = 0x50"
definition DEVICE_ADDRESS_INVENTORY :: string where "DEVICE_ADDRESS_INVENTORY = ''$18''"

definition normalize_module_address :: "string \<Rightarrow> bool \<Rightarrow> string" where
  "normalize_module_address addr reverse_bus_order =
     (let raw_text = upper (py_strip addr) in
      if reverse_bus_order then (case reverse_hex raw_text of Inl _ \<Rightarrow> raw_text | Inr r \<Rightarrow> r) else raw_text)"

definition early_stop_registry_sweep :: "byte list \<Rightarrow> registry \<Rightarrow> registry_out list \<times> registry" where
  "early_stop_registry_sweep responder st =
     ([DrainQueue (''$1410'' @ hex_of responder), TimerArmed REGISTRY_EARLY_STOP_TIMEOUT],
      st\<lparr>rg_timeout := REGISTRY_EARLY_STOP_TIMEOUT\<rparr>)"

definition or_text :: "string \<Rightarrow> string \<Rightarrow> string" where
  "or_text s t = (if s = [] then t else s)"

definition device_facts :: "string \<Rightarrow> string \<times> string \<times> string \<times> int" where
  \<comment> \<open>category, name, model and channel count of a device type\<close>
  "device_facts device_type_hex = (case classify_device_type device_type_hex DEVICE_TYPES of
       None \<Rightarrow> (''Unknown'', ''Unknown'', ''N/A'', 0)
     | Some d \<Rightarrow> (or_text (dt_category d) ''Module'', or_text (dt_name d) ''Unknown'', or_text (dt_model d) ''N/A'',
         case dt_channels d of None \<Rightarrow> 0 | Some n \<Rightarrow> n))"

definition little_endian :: "byte list \<Rightarrow> int" where
  "little_endian bs = foldr (\<lambda>b n. uint b + 256 * n) bs 0"

definition ends_in :: "string \<Rightarrow> string \<Rightarrow> bool" where
  "ends_in s suffix \<longleftrightarrow> length suffix \<le> length s \<and> drop (length s - length suffix) s = suffix"

definition device_entry :: "string \<Rightarrow> string \<Rightarrow> string \<Rightarrow> int option \<Rightarrow> pydict" where
  "device_entry now device_type_hex addr component_number =
     (case device_facts device_type_hex of (category, name, model, channels) \<Rightarrow>
        [(''description'', PStr name), (''discovered_name'', PStr name), (''category'', PStr category),
         (''device_type'', PStr device_type_hex), (''model'', PStr model), (''address'', PStr addr),
         (''channels'', PInt channels), (''channels_count'', PInt channels),
         (''module_type'', PStr (get_module_type_from_device_type device_type_hex)),
         (''discovered'', PBool True), (''last_discovered'', PStr now)] @
        (case component_number of None \<Rightarrow> [] | Some n \<Rightarrow> [(''component_number'', PInt n)]))"

definition record_address :: "byte list \<Rightarrow> string" where
  \<comment> \<open>a module has two address bytes, any other device three\<close>
  "record_address bs =
     (let category = fst (device_facts (byte_hex (bs ! 7))) in
      normalize_module_address (hex_of (slice 11 (if category = ''Module'' then 13 else 14) bs)) True)"

definition component_number :: "bool \<Rightarrow> byte list \<Rightarrow> int option" where
  \<comment> \<open>trusted only when the header page was seen\<close>
  "component_number headed bs =
     (if headed \<and> 19 \<le> length bs
      then (let number = little_endian (slice 15 19 bs) in
            if 0 < number \<and> number \<le> 0xFFFF then Some number else None)
      else None)"

definition record_device :: "string \<Rightarrow> bool \<Rightarrow> byte list \<Rightarrow> (string \<times> pydict) option" where
  \<comment> \<open>the device of a registry record; \<open>None\<close> for an empty or deleted slot\<close>
  "record_device now headed bs =
     (let device_type_hex = byte_hex (bs ! 7); addr = record_address bs in
      if device_type_hex \<in> {''FE'', ''FF''} then None
      else if starts_with addr ''FF'' \<or> ends_in addr ''FFFFF'' then None
      else Some (addr, device_entry now device_type_hex addr (component_number headed bs)))"

definition inventory_text :: "string \<Rightarrow> string" where
  "inventory_text bs =
     (let last_part = (if starts_with bs ''$'' \<and> CHR ''$'' \<in> set (drop 1 bs)
                       then rev (takeWhile (\<lambda>c. c \<noteq> CHR ''$'') (rev bs)) else bs)
      in dropWhile (\<lambda>c. c = CHR ''$'') last_part)"

definition past_registry_end :: "registry \<Rightarrow> bool" where
  "past_registry_end st \<longleftrightarrow> (case rg_limit st of None \<Rightarrow> False | Some n \<Rightarrow> n \<le> rg_seen st)"

definition count_record :: "byte list \<Rightarrow> registry \<Rightarrow> registry_out list \<times> registry" where
  \<comment> \<open>a frame in a registry slot; the last one stops the sweep\<close>
  "count_record bs st0 =
     (let st = st0\<lparr>rg_seen := rg_seen st0 + 1\<rparr> in
      if past_registry_end st then early_stop_registry_sweep (slice 1 3 bs) st else ([], st))"

definition file_device :: "string \<Rightarrow> byte list \<Rightarrow> registry \<Rightarrow> (pydict list \<times> pydict list) \<times> registry" where
  "file_device now bs st =
     (case record_device now (rg_limit st \<noteq> None) bs of
        None \<Rightarrow> (([], []), st)
      | Some (addr, entry) \<Rightarrow>
          (let kind = byte_hex (bs ! 7); category = fst (device_facts kind);
               warned = (if category = ''Unknown'' \<and> kind \<notin> set (rg_warned st) then rg_warned st @ [kind] else rg_warned st)
           in (if category = ''Button'' then ([], [entry]) else ([entry], []),
               st\<lparr>rg_warned := warned, rg_devices := AList.update addr entry (rg_devices st)\<rparr>)))"

definition parse_inventory_response ::
  "string \<Rightarrow> string \<Rightarrow> registry \<Rightarrow> (pydict list \<times> pydict list) option \<times> registry_out list \<times> registry" where
  \<comment> \<open>the modules and the buttons of one answer; \<open>None\<close> for text that is not hexadecimal\<close>
  "parse_inventory_response now text st0 =
     (let st = st0\<lparr>rg_stage := (case rg_stage st0 of Some (c # s) \<Rightarrow> rg_stage st0 | _ \<Rightarrow> Some ''inventory'')\<rparr>;
          armed = TimerArmed (rg_timeout st) in
      case bytes_fromhex (inventory_text text) of
        None \<Rightarrow> (None, [], st)
      | Some bs \<Rightarrow>
          (let data = slice 3 19 bs in
           if past_registry_end st then (Some ([], []), [armed], st)
           else if data \<noteq> [] \<and> list_all (\<lambda>b. b = 0xFF) data then (Some ([], []), [armed], st)
           else (case registry_header_count data of
               Some n \<Rightarrow> (Some ([], []), [armed], st\<lparr>rg_limit := Some n, rg_seen := 0\<rparr>)
             | None \<Rightarrow>
                 if looks_like_echo_ramp data then (Some ([], []), [armed], st)
                 else if length bs < 15 then (Some ([], []), [armed], st)
                 else (case count_record bs st of (outs, st) \<Rightarrow>
                   case file_device now bs st of (result, st) \<Rightarrow> (Some result, armed # outs, st)))))"

subsection \<open>The PC-Links that answer\<close>

definition pc_link_entry :: "string \<Rightarrow> string \<Rightarrow> pydict" where
  "pc_link_entry now addr =
     (case device_facts ''0A'' of (category, name, model, channels) \<Rightarrow>
        [(''description'', PStr name), (''discovered_name'', PStr name), (''category'', PStr ''Module''),
         (''device_type'', PStr ''0A''), (''model'', PStr model), (''address'', PStr addr),
         (''channels'', PInt 0), (''channels_count'', PInt 0),
         (''module_type'', PStr (get_module_type_from_device_type ''0A'')),
         (''discovered'', PBool True), (''last_discovered'', PStr now)])"

definition ensure_pc_link_address :: "string \<Rightarrow> string list \<Rightarrow> string \<Rightarrow> registry \<Rightarrow> registry" where
  \<comment> \<open>\<open>known\<close>: the PC-Links of the coordinator's module data\<close>
  "ensure_pc_link_address now known addr st =
     (let existing = (case map_of (rg_devices st) addr of None \<Rightarrow> [] | Some d \<Rightarrow> d) in
      if addr = [] then st
      else if existing \<noteq> [] \<and> dict_get existing ''module_type'' \<noteq> PStr ''pc_link'' then st
      else if known \<noteq> [] \<and> addr \<notin> set known then st
      else if existing \<noteq> []
      then st\<lparr>rg_devices := AList.update addr (AList.updates (map fst (pc_link_entry now addr)) (map snd (pc_link_entry now addr)) existing) (rg_devices st)\<rparr>
      else st\<lparr>rg_devices := AList.update addr (pc_link_entry now addr) (rg_devices st)\<rparr>)"

definition strip_marks :: "string \<Rightarrow> string" where
  \<comment> \<open>\<open>message.strip\<close> of the start, end, carriage-return and line-feed characters\<close>
  "strip_marks s = (let mark = (\<lambda>c. code c \<in> {2, 3, 13, 10}) in rev (dropWhile mark (rev (dropWhile mark s))))"

definition signature_byte :: "string \<Rightarrow> int option" where
  "signature_byte text = (if text = [] then None else py_int16 (upper text))"

definition handle_device_address_inventory ::
  "string \<Rightarrow> string list \<Rightarrow> string \<Rightarrow> registry \<Rightarrow> registry_out list \<times> registry" where
  "handle_device_address_inventory now known message st =
     (let clean_message = strip_marks message in
      case str_find clean_message DEVICE_ADDRESS_INVENTORY of
        None \<Rightarrow> ([NotifyScan message], st)
      | Some marker \<Rightarrow>
          (let start = marker + 3;
               sign = signature_byte (slice (start + 6) (start + 8) clean_message);
               addr = normalize_module_address (upper (slice start (start + 4) clean_message)) True;
               is_new = (addr \<notin> set (rg_addresses st));
               st1 = ensure_pc_link_address now known addr (st\<lparr>rg_addresses := List.insert addr (rg_addresses st)\<rparr>)
           in if sign \<noteq> None \<and> sign \<noteq> Some PC_LINK_INVENTORY_SIGNATURE_BYTE then ([NotifyScan message], st)
              else ([NotifyScan message] @ (if is_new \<and> rg_stage st1 = Some ''inventory_addresses'' then [QueueReads addr] else []) @
                      [TimerArmed (rg_timeout st1)], st1)))"

definition queue_identity_queries :: "string \<Rightarrow> registry \<Rightarrow> bool \<times> registry" where
  \<comment> \<open>whether the reads of this PC-Link are to be queued: once only\<close>
  "queue_identity_queries addr st =
     (if addr \<in> set (rg_queued st) then (False, st) else (True, st\<lparr>rg_queued := rg_queued st @ [addr]\<rparr>))"

subsection \<open>A sweep reads exactly the declared records\<close>





definition drains :: "registry_out list \<Rightarrow> nat" where
  "drains outs = length (filter (\<lambda>x. case x of DrainQueue _ \<Rightarrow> True | _ \<Rightarrow> False) outs)"

lemma drains_simps [simp]: "drains [] = 0" "drains (xs @ ys) = drains xs + drains ys"
  "drains (TimerArmed n # xs) = drains xs" "drains (DrainQueue s # xs) = Suc (drains xs)"
  by (simp_all add: drains_def)









subsection \<open>Queueing the registry reads\<close>

text \<open>
  A PC-Link that answers the broadcast has its 96 registers read. The reads are queued by a task started for
  the answer, or by the inactivity timer for the addresses no task has reached; both can be under way, since
  queueing waits while the command queue is full. An \<open>inventory_event\<close> is one turn of the event loop, up to
  the first wait of the code it runs.
\<close>

definition identity_reads :: "string \<Rightarrow> string list res" where
  \<comment> \<open>the read of every register from A0 to FF, the address in bus order\<close>
  "identity_reads addr =
     map_res (\<lambda>reg. make_pc_link_inventory_command (''10'' @ slice 2 4 addr @ take 2 addr @ fmt_hex 2 reg @ ''04'')) [0xA0..0xFF]"

definition run_inventory_identity_queries :: "string list \<Rightarrow> string list res" where
  "run_inventory_identity_queries addresses = collect_res identity_reads (sort (remdups addresses))"

definition start_inventory :: "string list \<Rightarrow> registry" where
  \<comment> \<open>the attributes as a run starts; the set of types warned about outlives a run\<close>
  "start_inventory warned = \<lparr>rg_stage = Some ''inventory_addresses'', rg_limit = None, rg_seen = 0, rg_timeout = INVENTORY_TIMEOUT,
     rg_warned = warned, rg_devices = [], rg_addresses = [], rg_queued = []\<rparr>"

datatype inventory_step =
    WaitAgain
  | QueueIdentity "string list"
  | MergeAndFinish

definition in_inventory :: "registry \<Rightarrow> bool" where
  "in_inventory st \<longleftrightarrow> rg_stage st = Some ''inventory_addresses'' \<or> rg_stage st = Some ''inventory_identity''"

definition finalize_inventory_phase :: "nat \<Rightarrow> registry \<Rightarrow> inventory_step \<times> registry" where
  \<comment> \<open>what the inactivity timer does; \<open>queued\<close>: the identity reads still in the command queue\<close>
  "finalize_inventory_phase queued st =
     (if in_inventory st \<and> queued \<noteq> 0 then (WaitAgain, st)
      else if rg_stage st = Some ''inventory_addresses'' \<and> rg_addresses st \<noteq> []
      then (let pending = filter (\<lambda>a. a \<notin> set (rg_queued st)) (rg_addresses st) in
        if pending \<noteq> []
        then (QueueIdentity pending, st\<lparr>rg_queued := rg_queued st @ pending, rg_stage := Some ''inventory_identity''\<rparr>)
        else (MergeAndFinish, st\<lparr>rg_stage := Some ''inventory_identity''\<rparr>))
      else (MergeAndFinish, st))"

datatype inventory_event =
    AddressFrame string          \<comment> \<open>an answer to the broadcast\<close>
  | IdentityTask string          \<comment> \<open>the task of an address is run\<close>
  | TimerFired nat               \<comment> \<open>with so many reads still queued\<close>
  | RegistryFrame string

definition inventory_turn :: "string \<Rightarrow> string list \<Rightarrow> inventory_event \<Rightarrow> registry \<Rightarrow> string list \<times> registry" where
  \<comment> \<open>the addresses whose reads this turn queues\<close>
  "inventory_turn now known e st = (case e of
       AddressFrame text \<Rightarrow> ([], snd (handle_device_address_inventory now known text st))
     | IdentityTask addr \<Rightarrow> (case queue_identity_queries addr st of (first, st) \<Rightarrow> (if first then [addr] else [], st))
     | TimerFired queued \<Rightarrow> (case finalize_inventory_phase queued st of
           (QueueIdentity pending, st) \<Rightarrow> (pending, st)
         | (_, st) \<Rightarrow> ([], st))
     | RegistryFrame text \<Rightarrow> (case parse_inventory_response now text st of (_, _, st) \<Rightarrow> ([], st)))"

fun inventory_turns :: "string \<Rightarrow> string list \<Rightarrow> inventory_event list \<Rightarrow> registry \<Rightarrow> string list \<times> registry" where
  "inventory_turns now known [] st = ([], st)"
| "inventory_turns now known (e # es) st =
     (case inventory_turn now known e st of (q, st) \<Rightarrow>
        case inventory_turns now known es st of (qs, st) \<Rightarrow> (q @ qs, st))"

lemma ensure_keeps [simp]:
  "rg_queued (ensure_pc_link_address now known a st) = rg_queued st"
  "rg_addresses (ensure_pc_link_address now known a st) = rg_addresses st"
  by (simp_all add: ensure_pc_link_address_def Let_def)

lemma frame_keeps_queued:
  "rg_queued (snd (handle_device_address_inventory now known text st)) = rg_queued st"
  "distinct (rg_addresses st) \<Longrightarrow> distinct (rg_addresses (snd (handle_device_address_inventory now known text st)))"
  by (auto simp: handle_device_address_inventory_def Let_def split: option.splits)

lemma count_record_keeps:
  "count_record bs st = (outs, st') \<Longrightarrow> rg_queued st' = rg_queued st \<and> rg_addresses st' = rg_addresses st"
  by (auto simp: count_record_def early_stop_registry_sweep_def Let_def split: if_splits)

lemma file_device_keeps:
  "file_device now bs st = (r, st') \<Longrightarrow> rg_queued st' = rg_queued st \<and> rg_addresses st' = rg_addresses st"
  by (auto simp: file_device_def Let_def split: option.splits)

lemma registry_frame_keeps:
  "parse_inventory_response now text st = (r, outs, st') \<Longrightarrow> rg_queued st' = rg_queued st \<and> rg_addresses st' = rg_addresses st"
  by (auto simp: parse_inventory_response_def Let_def split: option.splits if_splits prod.splits
      dest!: count_record_keeps file_device_keeps)

lemma inventory_turn_queues:
  assumes "inventory_turn now known e st = (q, st')" "distinct (rg_addresses st)"
  shows "distinct q \<and> set q \<inter> set (rg_queued st) = {} \<and> set (rg_queued st') = set (rg_queued st) \<union> set q \<and> distinct (rg_addresses st')"
proof (cases e)
  case (AddressFrame s)
  then show ?thesis using assms by (auto simp: inventory_turn_def frame_keeps_queued)
next
  case (IdentityTask addr)
  then show ?thesis using assms by (auto simp: inventory_turn_def queue_identity_queries_def split: if_splits)
next
  case (TimerFired n)
  then show ?thesis using assms
    by (auto simp: inventory_turn_def finalize_inventory_phase_def Let_def split: if_splits)
next
  case (RegistryFrame s)
  obtain r outs st1 where p: "parse_inventory_response now s st = (r, outs, st1)" by (metis prod_cases3)
  then show ?thesis using RegistryFrame assms registry_frame_keeps [OF p] by (auto simp: inventory_turn_def)
qed

lemma inventory_turns_queues:
  assumes "inventory_turns now known es st = (qs, st')" "distinct (rg_addresses st)"
  shows "distinct qs \<and> set qs \<inter> set (rg_queued st) = {} \<and> set (rg_queued st') = set (rg_queued st) \<union> set qs"
  using assms
proof (induction es arbitrary: st qs)
  case (Cons e es)
  obtain q st1 where t: "inventory_turn now known e st = (q, st1)" by fastforce
  obtain qs' st2 where ts: "inventory_turns now known es st1 = (qs', st2)" by fastforce
  note turn = inventory_turn_queues [OF t Cons.prems(2)]
  have q: "qs = q @ qs'" "st' = st2" using Cons.prems(1) t ts by auto
  from Cons.IH [of st1 qs'] ts turn show ?case by (auto simp: q)
qed simp

text \<open>
  However the answers to the broadcast, the tasks they start, the registry answers and the inactivity timer
  interleave, the registry reads of each PC-Link are queued at most once in a run, and a PC-Link counts as read
  exactly when its reads were queued.
\<close>
theorem identity_reads_queued_once:
  assumes "inventory_turns now known es (start_inventory warned) = (qs, st')"
  shows "distinct qs \<and> set (rg_queued st') = set qs"
  using inventory_turns_queues [OF assms] by (simp add: start_inventory_def)

lemma identity_reads_queued_once_witness:
  "\<exists>qs st'. inventory_turns ''now'' [] [AddressFrame ''$1886F500500F3FFF1E4E35'', TimerFired 0, IdentityTask ''F586'', TimerFired 7]
      (start_inventory []) = (qs, st') \<and> distinct qs \<and> qs = [''F586''] \<and> rg_stage st' = Some ''inventory_identity''"
proof -
  let ?es = "[AddressFrame ''$1886F500500F3FFF1E4E35'', TimerFired 0, IdentityTask ''F586'', TimerFired 7]"
  obtain qs st' where r: "inventory_turns ''now'' [] ?es (start_inventory []) = (qs, st')" by fastforce
  have "fst (inventory_turns ''now'' [] ?es (start_inventory [])) = [''F586'']"
    "rg_stage (snd (inventory_turns ''now'' [] ?es (start_inventory []))) = Some ''inventory_identity''" by code_simp+
  with identity_reads_queued_once [OF r] r show ?thesis by simp
qed

end
