(* ===== verification/Synthesis.thy ===== *)
theory Synthesis
  imports Scan_Plan Store
begin

section \<open>What the scans leave unmatched\<close>

text \<open>
  The end of a discovery run in \<open>discovery.py\<close>: the link records whose key has no entry become
  central functions, virtual buttons or the codes of a remote transmitter, the keys wired to outputs
  in a scene mode become light scenes, and the inputs of the logic and interface modules get their entries.
  \<open>synthesis\<close> holds the attributes these steps read and write. The set of unmatched addresses is a list
  in the order Python happens to go through it.
\<close>

record synthesis =
  sy_unmatched :: "string list"
  sy_mapping :: command_mapping
  sy_buttons :: "pyval option"            \<comment> \<open>the \<open>nikobus_button\<close> entry of the button data, if there are any\<close>
  sy_devices :: "(string \<times> pydict) list"
  sy_broadcasts :: "(string \<times> cf_broadcast) list"
  sy_logic_outputs :: "(string \<times> string list) list"   \<comment> \<open>the PC-Logic output tables read in this run\<close>

subsection \<open>Central functions\<close>

definition cf_member_of :: "string \<Rightarrow> pydict \<Rightarrow> cf_output_member option" where
  "cf_member_of module_addr out = (case (as_int (dict_get out ''channel''), as_str (dict_get out ''mode'')) of
       (Some ch, Some mode) \<Rightarrow> Some \<lparr>of_module = upper module_addr, of_channel = ch, of_mode = mode,
           of_t1 = as_str (dict_get out ''t1''), of_t2 = as_str (dict_get out ''t2'')\<rparr>
     | _ \<Rightarrow> None)"

definition same_member :: "cf_output_member \<Rightarrow> cf_output_member \<Rightarrow> bool" where
  "same_member m n \<longleftrightarrow> (of_module m, of_channel m, of_mode m) = (of_module n, of_channel n, of_mode n)"

definition note_member :: "cf_output_member \<Rightarrow> cf_output_member list \<Rightarrow> cf_output_member list" where
  "note_member m ms = (if list_ex (same_member m) ms then ms else ms @ [m])"

definition note_members :: "cf_output_member list \<Rightarrow> cf_output_member list" where
  "note_members ms = fold note_member ms []"

definition extract_cf_outputs :: "string \<Rightarrow> command_mapping \<Rightarrow> cf_output_member list" where
  "extract_cf_outputs addr mapping =
     note_members (concat (map (\<lambda>((push_addr, _, _), outs).
       if map_option upper push_addr = Some (upper addr)
       then List.map_filter (\<lambda>out. case as_str (dict_get out ''module_address'') of
              None \<Rightarrow> None | Some m \<Rightarrow> cf_member_of m out) outs
       else []) mapping))"

definition found_broadcasts :: "synthesis \<Rightarrow> (string \<times> cf_broadcast) list" where
  "found_broadcasts st =
     List.map_filter (\<lambda>addr. case classify_cf_pattern addr of
         None \<Rightarrow> None
       | Some pattern \<Rightarrow> (case extract_cf_outputs addr (sy_mapping st) of
             [] \<Rightarrow> None
           | outs \<Rightarrow> Some (addr, \<lparr>cf_bus_address = addr, cf_pattern = pattern, cf_outputs = outs, cf_triggered_by = [addr]\<rparr>)))
       (sort (remdups (sy_unmatched st)))"

definition classify_cf_broadcasts :: "synthesis \<Rightarrow> synthesis" where
  "classify_cf_broadcasts st =
     (let found = found_broadcasts st in
      st\<lparr>sy_broadcasts := AList.updates (map fst found) (map snd found) (sy_broadcasts st),
         sy_unmatched := filter (\<lambda>a. a \<notin> set (map fst found)) (sy_unmatched st)\<rparr>)"

subsection \<open>Light scenes\<close>

definition link_members :: "pydict \<Rightarrow> cf_output_member list res" where
  "link_members link = (case as_str (dict_get link ''module_address'') of
       None \<Rightarrow> Inr []
     | Some m \<Rightarrow> res_bind (iter_or_empty (dict_get link ''outputs''))
         (\<lambda>outs. Inr (List.map_filter (cf_member_of m) (dicts_of outs))))"

definition scene_candidate :: "string list \<Rightarrow> pydict \<Rightarrow> (string \<times> cf_output_member list) list res" where
  \<comment> \<open>the address and the members of an operation point wired in a scene mode\<close>
  "scene_candidate known op_point = (case as_str (dict_get op_point ''bus_address'') of
       None \<Rightarrow> Inr []
     | Some bus \<Rightarrow>
         if bus = [] \<or> upper bus \<in> set known then Inr []
         else res_bind (iter_or_empty (dict_get op_point ''linked_modules'')) (\<lambda>links.
           res_bind (collect_res link_members (dicts_of links)) (\<lambda>all.
             let members = note_members all in
             Inr (if list_ex (\<lambda>m. is_cf_scene_mode (PStr (of_mode m))) members then [(upper bus, members)] else []))))"

definition points_of_plate :: "pydict \<Rightarrow> pydict list" where
  "points_of_plate phys = (case as_dict (dict_get phys ''operation_points'') of
       None \<Rightarrow> [] | Some ops \<Rightarrow> dicts_of (map snd ops))"

definition scene_candidates :: "string list \<Rightarrow> pydict \<Rightarrow> (string \<times> cf_output_member list) list res" where
  "scene_candidates known buttons =
     collect_res (scene_candidate known) (concat (map points_of_plate (dicts_of (map snd buttons))))"

fun group_scene :: "string \<times> cf_output_member list \<Rightarrow> (cf_output_member list \<times> string list) list \<Rightarrow> (cf_output_member list \<times> string list) list" where
  \<comment> \<open>the sorted signature of the code is the same for two lists exactly when they have the same members\<close>
  "group_scene (addr, members) [] = [(members, [addr])]"
| "group_scene (addr, members) ((ms, triggers) # groups) =
     (if set ms = set members then (ms, List.insert addr triggers) # groups
      else (ms, triggers) # group_scene (addr, members) groups)"

definition scene_of :: "cf_output_member list \<times> string list \<Rightarrow> string \<times> cf_broadcast" where
  "scene_of g = (let triggered_by = sort (remdups (snd g)) in
     (hd triggered_by, \<lparr>cf_bus_address = hd triggered_by, cf_pattern = ''light_scene'', cf_outputs = fst g, cf_triggered_by = triggered_by\<rparr>))"

definition classify_cf_scenes :: "synthesis \<Rightarrow> synthesis res" where
  "classify_cf_scenes st = (case sy_buttons st of
       None \<Rightarrow> Inr st
     | Some store \<Rightarrow> (case as_dict store of
           None \<Rightarrow> Inr st
         | Some buttons \<Rightarrow>
             res_bind (scene_candidates (map fst (sy_broadcasts st)) buttons) (\<lambda>candidates.
               let found = map scene_of (fold group_scene candidates [])
               in Inr (st\<lparr>sy_broadcasts := AList.updates (map fst found) (map snd found) (sy_broadcasts st)\<rparr>))))"

subsection \<open>Virtual buttons\<close>

definition add_table :: "string \<times> string list \<Rightarrow> (string \<times> string \<times> nat) list \<Rightarrow> (string \<times> string \<times> nat) list" where
  "add_table t tables = (case t of (pc_logic, frames) \<Rightarrow>
     fold (\<lambda>(index, bus) ts. if map_of ts (upper bus) = None then ts @ [(upper bus, upper pc_logic, index)] else ts)
       (enumerate 1 frames) tables)"

definition stored_tables :: "pydict \<Rightarrow> (string \<times> string list) list" where
  \<comment> \<open>the output tables kept in the module store\<close>
  "stored_tables modules = List.map_filter (\<lambda>(addr, v). case as_dict v of
       None \<Rightarrow> None
     | Some entry \<Rightarrow>
         if dict_get entry ''module_type'' \<noteq> PStr ''pc_logic'' then None
         else (case as_dict (dict_get entry ''discovered_info'') of
               None \<Rightarrow> None
             | Some info \<Rightarrow> (case as_list (dict_get info ''logic_outputs'') of
                   Some (x # xs) \<Rightarrow> Some (upper addr, map (upper \<circ> py_str) (x # xs))
                 | _ \<Rightarrow> None))) modules"

definition logic_output_tables :: "pydict \<Rightarrow> synthesis \<Rightarrow> (string \<times> string \<times> nat) list" where
  "logic_output_tables modules st =
     (let stored = fold (\<lambda>(a, fs) d. AList.update a fs d) (stored_tables modules) [];
          tables = fold (\<lambda>(a, fs) d. AList.update a fs d) (sy_logic_outputs st) stored
      in fold add_table tables [])"

definition attach_logic_output_tables :: "synthesis \<Rightarrow> synthesis" where
  "attach_logic_output_tables st =
     st\<lparr>sy_devices := fold (\<lambda>(pc_logic, frames) devices.
        (case map_of devices (upper pc_logic) of
           None \<Rightarrow> devices
         | Some device \<Rightarrow>
             if dict_get device ''module_type'' = PStr ''pc_logic''
             then AList.update (upper pc_logic) (dict_set device ''logic_outputs'' (PList (map PStr frames))) devices
             else devices)) (sy_logic_outputs st) (sy_devices st)\<rparr>"

definition keys_by_address :: "command_mapping \<Rightarrow> (string \<times> int list) list" where
  \<comment> \<open>the key indices seen in output-module tables, by address; codes of a receiver are left out\<close>
  "keys_by_address mapping = fold (\<lambda>((push_addr, key_raw, ir), outs) d.
     if (case ir of Some (c # s) \<Rightarrow> True | _ \<Rightarrow> False) then d
     else if \<not> list_ex (\<lambda>out. dict_get out ''record_source'' = PStr ''output_module_table'') outs then d
     else (let addr = upper (case push_addr of None \<Rightarrow> [] | Some a \<Rightarrow> a);
               ks = (case map_of d addr of None \<Rightarrow> [] | Some ks \<Rightarrow> ks)
           in AList.update addr (case as_int key_raw of None \<Rightarrow> ks | Some k \<Rightarrow> List.insert k ks) d)) mapping []"

record plate_group =
  pg_class :: string
  pg_owner :: "(string \<times> nat) option"
  pg_members :: "string list"
  pg_keys :: "int list"

definition group_virtual ::
  "(string \<times> string \<times> nat) list \<Rightarrow> (string \<times> int list) list \<Rightarrow> string \<Rightarrow> (string \<times> plate_group) list \<Rightarrow> (string \<times> plate_group) list res" where
  "group_virtual tables keys addr plates =
     (let normalized = upper addr in
      case (virtual_button_class normalized, map_of keys normalized) of
        (Some cls, Some ks) \<Rightarrow>
          res_bind (virtual_plate_address normalized) (\<lambda>plate.
            let owner = map_of tables (convert_nikobus_address plate) in
            if cls = ''pc_logic'' \<and> owner = None then Inr plates
            else (let g = (case map_of plates plate of
                     None \<Rightarrow> \<lparr>pg_class = cls, pg_owner = owner, pg_members = [], pg_keys = []\<rparr> | Some g \<Rightarrow> g)
                  in Inr (AList.update plate (g\<lparr>pg_members := pg_members g @ [normalized], pg_keys := List.union ks (pg_keys g)\<rparr>) plates)))
      | _ \<Rightarrow> Inr plates)"

definition virtual_entry :: "string \<Rightarrow> plate_group \<Rightarrow> pydict" where
  "virtual_entry plate g =
     (let channels = (if list_ex (\<lambda>k. 4 \<le> k) (pg_keys g) then 8 else 4);
          description = (case pg_owner g of
              Some (pc_logic, index) \<Rightarrow> ''PC-Logic '' @ pc_logic @ '' L'' @ fmt_dec 2 (int index)
            | None \<Rightarrow> ''Virtual button '' @ plate)
      in [(''description'', PStr description), (''discovered_name'', PStr description), (''category'', PStr ''Button''),
          (''device_type'', PStr ''VB''), (''type'', PStr ''Virtual button''), (''model'', PStr ''Virtual''), (''address'', PStr plate),
          (''channels'', PInt channels), (''channels_count'', PInt channels), (''module_type'', PStr ''other_module''),
          (''discovered'', PBool True), (''virtual_button'', PBool True), (''virtual_class'', PStr (pg_class g))] @
         (case pg_owner g of None \<Rightarrow> []
          | Some (pc_logic, index) \<Rightarrow> [(''virtual_parent_address'', PStr pc_logic), (''virtual_output_index'', PInt (int index))]))"

definition add_virtual :: "string list \<Rightarrow> string \<times> plate_group \<Rightarrow> nat \<times> synthesis \<Rightarrow> nat \<times> synthesis" where
  "add_virtual stored = (\<lambda>(plate, g) (added, st).
     (let left = filter (\<lambda>a. a \<notin> set (pg_members g)) (sy_unmatched st) in
      if map_of (sy_devices st) plate \<noteq> None \<or> plate \<in> set stored then (added, st\<lparr>sy_unmatched := left\<rparr>)
      else (added + 1, st\<lparr>sy_unmatched := left, sy_devices := AList.update plate (virtual_entry plate g) (sy_devices st)\<rparr>)))"

definition synthesize_virtual_buttons :: "pydict \<Rightarrow> synthesis \<Rightarrow> (nat \<times> synthesis) res" where
  \<comment> \<open>\<open>modules\<close>: the module store; the button store, when it is there, is a dictionary, as every writer leaves it\<close>
  "synthesize_virtual_buttons modules st = (case sy_buttons st of
       None \<Rightarrow> Inr (0, st)
     | Some store \<Rightarrow>
         res_bind (of_option TypeError (as_dict (py_or store (PDict [])))) (\<lambda>buttons.
         res_bind (fold_res (group_virtual (logic_output_tables modules st) (keys_by_address (sy_mapping st)))
             (sort (remdups (sy_unmatched st))) []) (\<lambda>plates.
           Inr (fold (add_virtual (map fst buttons)) (sort_key fst plates) (0, st)))))"

subsection \<open>Remote transmitters\<close>

definition REMOTE_TRANSMITTER_CLUSTER_THRESHOLD :: nat where "REMOTE_TRANSMITTER_CLUSTER_THRESHOLD = 8"

definition file_suffix :: "string \<Rightarrow> (string \<times> string list) list \<Rightarrow> (string \<times> string list) list" where
  "file_suffix addr clusters =
     (if length addr < 4 then clusters
      else (let suffix = upper (last_of 4 addr) in
        AList.update suffix ((case map_of clusters suffix of None \<Rightarrow> [] | Some as \<Rightarrow> as) @ [upper addr]) clusters))"

definition transmitter_entry :: "string \<Rightarrow> nat \<Rightarrow> pydict" where
  "transmitter_entry suffix n =
     [(''category'', PStr ''Module''), (''module_type'', PStr ''remote_transmitter''), (''model'', PStr ''RF Remote (synthesized)''),
      (''description'', PStr (''Remote Transmitter ('' @ suffix @ '')'')), (''address'', PStr (''RT-'' @ suffix)),
      (''channels'', PInt 0), (''channels_count'', PInt 0), (''transmitter_suffix'', PStr suffix),
      (''transmitter_member_count'', PInt (int n)), (''discovered'', PBool True)]"

definition remote_entry :: "string \<Rightarrow> string \<Rightarrow> pydict" where
  "remote_entry suffix bus =
     [(''category'', PStr ''Button''), (''device_type'', PStr ''RT''), (''model'', PStr ''Remote Code''),
      (''description'', PStr (''Remote '' @ bus)), (''discovered_name'', PStr (''Remote '' @ bus)), (''address'', PStr bus),
      (''channels'', PInt 1), (''channels_count'', PInt 1), (''module_type'', PStr ''other_module''), (''discovered'', PBool True),
      (''remote_transmitter_address'', PStr (''RT-'' @ suffix)), (''remote_transmitter_suffix'', PStr suffix),
      (''remote_transmitter_bus_address'', PStr bus)]"

definition cluster_entries :: "(string \<times> pydict) list \<Rightarrow> string \<times> string list \<Rightarrow> (string \<times> pydict) list" where
  "cluster_entries devices = (\<lambda>(suffix, members).
     if length members < REMOTE_TRANSMITTER_CLUSTER_THRESHOLD then []
     else (''RT-'' @ suffix, transmitter_entry suffix (length members)) #
       map (\<lambda>bus. (bus, remote_entry suffix bus)) (filter (\<lambda>bus. map_of devices bus = None) (sort (remdups members))))"

definition synthesize_remote_transmitters :: "synthesis \<Rightarrow> synthesis" where
  "synthesize_remote_transmitters st =
     (let clusters = fold file_suffix (sy_unmatched st) [];
          new_entries = concat (map (cluster_entries (sy_devices st)) clusters)
      in st\<lparr>sy_devices := AList.updates (map fst new_entries) (map snd new_entries) (sy_devices st)\<rparr>)"

subsection \<open>The inputs of logic and interface modules\<close>

definition input_texts :: "string \<Rightarrow> (string \<times> string) option" where
  "input_texts mt =
     (if mt = ''pc_logic'' then Some (''PC-Logic Logical Input'', ''05-201'')
      else if mt = ''interface_module'' then Some (''Modular Interface Input'', ''05-206'') else None)"

definition input_entry :: "string \<Rightarrow> string \<Rightarrow> string \<Rightarrow> string \<Rightarrow> string \<Rightarrow> nat \<Rightarrow> pydict" where
  "input_entry description model input_phys module_addr mt slot =
     [(''description'', PStr description), (''discovered_name'', PStr description), (''category'', PStr ''Button''),
      (''device_type'', PStr ''LM''), (''model'', PStr model), (''address'', PStr input_phys), (''channels'', PInt 2),
      (''channels_count'', PInt 2), (''module_type'', PStr ''other_module''), (''discovered'', PBool True),
      (''pc_logic_parent_address'', PStr module_addr), (''pc_logic_parent_type'', PStr mt), (''pc_logic_slot_index'', PInt (int slot))]"

definition is_stale_input :: "string \<Rightarrow> string list \<Rightarrow> string \<times> pyval \<Rightarrow> bool" where
  "is_stale_input module_addr valid = (\<lambda>(key, v). case as_dict v of
       None \<Rightarrow> False
     | Some entry \<Rightarrow> upper (str_or_empty (dict_get entry ''pc_logic_parent_address'')) = upper module_addr \<and> key \<notin> set valid)"

definition purge_stale_inputs :: "string \<Rightarrow> string list \<Rightarrow> pyval option \<Rightarrow> pyval option" where
  "purge_stale_inputs module_addr valid store = (case store of
       Some (PDict buttons) \<Rightarrow> Some (PDict (filter (\<lambda>b. \<not> is_stale_input module_addr valid b) buttons))
     | _ \<Rightarrow> store)"

definition synthesize_inputs_of ::
  "(string \<times> pydict) list \<Rightarrow> string \<times> pydict \<Rightarrow> (string \<times> pydict) list \<times> pyval option \<Rightarrow> ((string \<times> pydict) list \<times> pyval option) res" where
  "synthesize_inputs_of devices d acc = (case (d, acc) of ((module_addr, device), (entries, store)) \<Rightarrow>
     (case as_str (dict_get device ''module_type'') of
        None \<Rightarrow> Inr (entries, store)
      | Some mt \<Rightarrow> (case input_texts mt of
            None \<Rightarrow> Inr (entries, store)
          | Some (description, model) \<Rightarrow>
              (case py_int (py_or (dict_get device ''channels_count'') (PInt 0)) of
                 None \<Rightarrow> Inl ValueError
               | Some n \<Rightarrow>
                   if n \<le> 0 then Inr (entries, store)
                   else (case derive_pc_logic_input_physicals module_addr n mt of
                       Inl e \<Rightarrow> if e = ValueError then Inr (entries, store) else Inl e
                     | Inr physicals \<Rightarrow>
                         Inr (fold (\<lambda>(slot, phys) es. if map_of devices phys \<noteq> None then es
                                else AList.update phys (input_entry description model phys module_addr mt slot) es)
                              (enumerate 1 physicals) entries,
                            purge_stale_inputs module_addr physicals store))))))"

definition synthesize_pc_logic_inputs :: "synthesis \<Rightarrow> synthesis res" where
  "synthesize_pc_logic_inputs st =
     res_bind (fold_res (synthesize_inputs_of (sy_devices st)) (sy_devices st) ([], sy_buttons st)) (\<lambda>(entries, store).
       Inr (st\<lparr>sy_devices := AList.updates (map fst entries) (map snd entries) (sy_devices st), sy_buttons := store\<rparr>))"

subsection \<open>One scene for each set of members\<close>

definition triggers_in :: "(cf_output_member list \<times> string list) list \<Rightarrow> cf_output_member set \<Rightarrow> string set" where
  \<comment> \<open>the addresses filed under a set of members\<close>
  "triggers_in gs S = (\<Union>g\<in>{g \<in> set gs. set (fst g) = S}. set (snd g))"

lemma triggers_in_Nil [simp]: "triggers_in [] S = {}"
  by (simp add: triggers_in_def)

lemma triggers_in_Cons [simp]:
  "triggers_in (g # gs) S = (if set (fst g) = S then set (snd g) \<union> triggers_in gs S else triggers_in gs S)"
  by (auto simp: triggers_in_def)

lemma triggers_group_scene:
  "triggers_in (group_scene (a, m) gs) S = (if S = set m then insert a (triggers_in gs S) else triggers_in gs S)"
proof (induction gs)
  case (Cons g gs)
  obtain ms ts where g: "g = (ms, ts)" by (cases g)
  show ?case
  proof (cases "set ms = set m")
    case True
    then show ?thesis unfolding g by (cases "S = set m") (simp_all del: triggers_in_Cons add: triggers_in_Cons)
  next
    case False
    with Cons.IH show ?thesis unfolding g by (cases "S = set ms") simp_all
  qed
qed auto

definition member_set :: "cf_output_member list \<times> string list \<Rightarrow> cf_output_member set" where
  "member_set g = set (fst g)"

lemma member_sets_group_scene:
  "member_set ` set (group_scene (a, m) gs) = insert (set m) (member_set ` set gs)"
  by (induction "(a, m)" gs rule: group_scene.induct) (auto simp: member_set_def insert_commute)

lemma distinct_group_scene:
  "distinct (map member_set gs) \<Longrightarrow> distinct (map member_set (group_scene (a, m) gs))"
proof (induction "(a, m)" gs rule: group_scene.induct)
  case (2 ms triggers groups)
  show ?case
  proof (cases "set ms = set m")
    case True
    with 2(2) show ?thesis by (simp add: member_set_def)
  next
    case False
    then have "set ms \<notin> member_set ` set (group_scene (a, m) groups)"
      using 2(2) unfolding member_sets_group_scene by (simp add: member_set_def)
    moreover have "distinct (map member_set (group_scene (a, m) groups))"
      using 2 False by simp
    ultimately show ?thesis using False by (simp add: member_set_def)
  qed
qed simp

lemma triggers_grouped:
  "triggers_in (fold group_scene cs gs) S = triggers_in gs S \<union> {a. \<exists>m. (a, m) \<in> set cs \<and> set m = S}"
proof (induction cs arbitrary: gs)
  case (Cons c cs)
  obtain a m where c: "c = (a, m)" by (cases c)
  show ?case by (simp only: c fold_simps Cons.IH triggers_group_scene) auto
qed simp

lemma member_sets_grouped:
  "member_set ` set (fold group_scene cs gs) = (\<lambda>c. set (snd c)) ` set cs \<union> member_set ` set gs"
proof (induction cs arbitrary: gs)
  case (Cons c cs)
  obtain a m where c: "c = (a, m)" by (cases c)
  show ?case by (simp add: c Cons.IH member_sets_group_scene)
qed simp

lemma distinct_grouped:
  "distinct (map member_set gs) \<Longrightarrow> distinct (map member_set (fold group_scene cs gs))"
proof (induction cs arbitrary: gs)
  case (Cons c cs)
  obtain a m where c: "c = (a, m)" by (cases c)
  show ?case using Cons.IH [OF distinct_group_scene [OF Cons.prems]] by (simp add: c)
qed simp

lemma triggers_of_group:
  assumes "distinct (map member_set gs)" and "g \<in> set gs"
  shows "triggers_in gs (set (fst g)) = set (snd g)"
  using assms
proof (induction gs)
  case (Cons h gs)
  have "\<forall>g\<in>set gs. set (fst g) \<noteq> set (fst h)"
    using Cons.prems(1) by (auto simp: member_set_def image_iff)
  then have "triggers_in gs (set (fst h)) = {}" by (fastforce simp: triggers_in_def)
  with Cons \<open>\<forall>g\<in>set gs. set (fst g) \<noteq> set (fst h)\<close> show ?case by auto
qed simp

lemma map_of_updates_distinct:
  assumes "distinct ks" and "length ks = length vs"
  shows "map_of (AList.updates ks vs al) k = (case map_of (zip ks vs) k of None \<Rightarrow> map_of al k | Some v \<Rightarrow> Some v)"
  using assms(2,1)
proof (induction ks vs arbitrary: al rule: list_induct2)
  case (Cons x xs y ys)
  have "map_of (zip xs ys) x = None" using Cons by (simp add: map_of_zip_is_None)
  with Cons show ?case by (auto simp: update_conv' split: option.split)
qed simp

lemma hd_sort_remdups: "xs \<noteq> [] \<Longrightarrow> hd (sort (remdups xs)) \<in> set xs"
  by (metis list.set_sel(1) remdups_eq_nil_iff set_remdups set_sort sort_key_simps(1) sorted_list_of_set_sort_remdups list.set(1) empty_set set_empty)

lemma sort_remdups_cong: "set xs = set ys \<Longrightarrow> sort (remdups xs) = sort (remdups ys)"
  by (metis sorted_list_of_set_sort_remdups)

definition scene_triggers :: "(string \<times> cf_output_member list) list \<Rightarrow> cf_output_member list \<Rightarrow> string list" where
  \<comment> \<open>the addresses wired to the same members, in order\<close>
  "scene_triggers candidates members = sort (remdups (map fst (filter (\<lambda>(_, ms). set ms = set members) candidates)))"

abbreviation scenes_in :: "(string \<times> cf_output_member list) list \<Rightarrow> (cf_output_member list \<times> string list) list" where
  "scenes_in candidates \<equiv> fold group_scene candidates []"

lemma triggers_scenes: "g \<in> set (scenes_in cs) \<Longrightarrow> set (snd g) = {a. \<exists>m. (a, m) \<in> set cs \<and> set m = set (fst g)}"
  using triggers_of_group [OF distinct_grouped, of "[]" g cs] by (simp add: triggers_grouped)

lemma scene_triggers_group:
  assumes "g \<in> set (scenes_in cs)" and "set (fst g) = set m"
  shows "sort (remdups (snd g)) = scene_triggers cs m"
  unfolding scene_triggers_def by (rule sort_remdups_cong) (use assms in \<open>force simp: triggers_scenes\<close>)

lemma scene_of_candidate:
  assumes "(a, m) \<in> set cs"
  obtains g where "g \<in> set (scenes_in cs)" and "set (fst g) = set m"
proof -
  have "set m \<in> member_set ` set (scenes_in cs)"
    using assms unfolding member_sets_grouped by force
  then show thesis using that by (auto simp: member_set_def)
qed

lemma canonical_is_candidate:
  assumes "g \<in> set (scenes_in cs)"
  shows "\<exists>n. (fst (scene_of g), n) \<in> set cs \<and> set n = set (fst g)"
proof -
  have "member_set g \<in> (\<lambda>c. set (snd c)) ` set cs"
    using imageI [OF assms, of member_set] unfolding member_sets_grouped by simp
  then have "snd g \<noteq> []" using triggers_scenes [OF assms] by (force simp: member_set_def)
  then have "fst (scene_of g) \<in> set (snd g)" using hd_sort_remdups by (simp add: scene_of_def Let_def)
  then show ?thesis using triggers_scenes [OF assms] by auto
qed

definition one_set_each :: "(string \<times> cf_output_member list) list \<Rightarrow> bool" where
  \<comment> \<open>no address is wired to two different sets of members\<close>
  "one_set_each cs = list_all (\<lambda>(a, m). list_all (\<lambda>(b, n). a = b \<longrightarrow> set m = set n) cs) cs"

lemma one_set_eachD: "one_set_each cs \<Longrightarrow> (a, m) \<in> set cs \<Longrightarrow> (a, n) \<in> set cs \<Longrightarrow> set m = set n"
  unfolding one_set_each_def list_all_iff by fast

lemma distinct_canonical:
  assumes "one_set_each cs"
  shows "distinct (map (fst \<circ> scene_of) (scenes_in cs))"
proof -
  have d: "distinct (map member_set (scenes_in cs))" by (rule distinct_grouped) simp
  have "inj_on (fst \<circ> scene_of) (set (scenes_in cs))"
  proof (rule inj_onI)
    fix g h assume gh: "g \<in> set (scenes_in cs)" "h \<in> set (scenes_in cs)" and eq: "(fst \<circ> scene_of) g = (fst \<circ> scene_of) h"
    obtain n k where "(fst (scene_of g), n) \<in> set cs" "set n = set (fst g)" "(fst (scene_of h), k) \<in> set cs" "set k = set (fst h)"
      using canonical_is_candidate [OF gh(1)] canonical_is_candidate [OF gh(2)] by blast
    then have "member_set g = member_set h" using one_set_eachD [OF assms] eq by (metis comp_apply member_set_def)
    then show "g = h" using d gh by (auto simp: distinct_map dest: inj_onD)
  qed
  with d show ?thesis by (simp add: distinct_map)
qed

text \<open>
  Light scenes are the operation points grouped by what they drive: when no address is wired to two different
  sets of members, every operation point wired in a scene mode ends in the scene of its member set, filed under the
  first of the addresses wired to that set and listing exactly those addresses, in order; the broadcasts filed under
  any other address are untouched.
\<close>
theorem scenes_group_by_members:
  assumes store: "sy_buttons st = Some store" "as_dict store = Some buttons"
    and cands: "scene_candidates (map fst (sy_broadcasts st)) buttons = Inr cs"
    and one: "one_set_each cs"
  shows "\<exists>st'. classify_cf_scenes st = Inr st' \<and>
      (\<forall>(a, m) \<in> set cs. a \<in> set (scene_triggers cs m) \<and>
         (\<exists>outs. set outs = set m \<and> map_of (sy_broadcasts st') (hd (scene_triggers cs m)) =
            Some \<lparr>cf_bus_address = hd (scene_triggers cs m), cf_pattern = ''light_scene'', cf_outputs = outs,
                  cf_triggered_by = scene_triggers cs m\<rparr>)) \<and>
      (\<forall>a. a \<notin> fst ` set cs \<longrightarrow> map_of (sy_broadcasts st') a = map_of (sy_broadcasts st) a)"
proof -
  define found where "found = map scene_of (scenes_in cs)"
  define bs where "bs = AList.updates (map fst found) (map snd found) (sy_broadcasts st)"
  have d: "distinct (map fst found)" using distinct_canonical [OF one] by (simp add: found_def)
  have look: "map_of bs k = (case map_of found k of None \<Rightarrow> map_of (sy_broadcasts st) k | Some v \<Rightarrow> Some v)" for k
    unfolding bs_def by (subst map_of_updates_distinct [OF d]) (simp_all add: zip_map_fst_snd)
  have "a \<in> set (scene_triggers cs m) \<and> (\<exists>outs. set outs = set m \<and> map_of bs (hd (scene_triggers cs m)) =
      Some \<lparr>cf_bus_address = hd (scene_triggers cs m), cf_pattern = ''light_scene'', cf_outputs = outs,
            cf_triggered_by = scene_triggers cs m\<rparr>)" if am: "(a, m) \<in> set cs" for a m
  proof -
    obtain g where g: "g \<in> set (scenes_in cs)" "set (fst g) = set m" by (rule scene_of_candidate [OF am])
    then have "scene_of g \<in> set found" by (simp add: found_def)
    with d have "map_of found (fst (scene_of g)) = Some (snd (scene_of g))" by (simp add: map_of_eq_Some_iff)
    moreover have "a \<in> set (scene_triggers cs m)" using am by (force simp: scene_triggers_def)
    ultimately show ?thesis
      using g scene_triggers_group [OF g] by (auto simp: look scene_of_def Let_def intro!: exI [of _ "fst g"])
  qed
  moreover have "map_of bs a = map_of (sy_broadcasts st) a" if "a \<notin> fst ` set cs" for a
  proof -
    have "a \<noteq> fst (scene_of g)" if g: "g \<in> set (scenes_in cs)" for g
      using \<open>a \<notin> fst ` set cs\<close> canonical_is_candidate [OF g] by force
    then have "a \<notin> fst ` set found" unfolding found_def image_set [symmetric] image_image by blast
    then have "map_of found a = None" by (simp add: map_of_eq_None_iff)
    then show ?thesis by (simp add: look)
  qed
  moreover have "classify_cf_scenes st = Inr (st\<lparr>sy_broadcasts := bs\<rparr>)"
    using store cands by (simp add: classify_cf_scenes_def bs_def found_def Let_def)
  ultimately show ?thesis by (auto intro!: exI [of _ "st\<lparr>sy_broadcasts := bs\<rparr>"])
qed

definition example_point :: "string \<Rightarrow> pyval list \<Rightarrow> pyval" where
  "example_point bus outs = PDict [(''bus_address'', PStr bus), (''linked_modules'',
     PList [PDict [(''module_address'', PStr ''4707''), (''outputs'', PList outs)]])]"

definition example_scenes :: synthesis where
  "example_scenes =
     (let one = PDict [(''channel'', PInt 1), (''mode'', PStr ''M14 (Light scene on)'')];
          two = PDict [(''channel'', PInt 2), (''mode'', PStr ''M01 (On / off)'')]
      in \<lparr>sy_unmatched = [], sy_mapping = [], sy_buttons = Some (PDict
        [(''1843B4'', PDict [(''operation_points'', PDict [(''1A'', example_point ''B9A0A2'' [one, two]), (''1B'', example_point ''19A0A2'' [two])])]),
         (''1843B5'', PDict [(''operation_points'', PDict [(''1A'', example_point ''29A0A2'' [two, one])])])]),
       sy_devices = [], sy_broadcasts = [], sy_logic_outputs = []\<rparr>)"

definition example_scene_cands :: "(string \<times> cf_output_member list) list" where
  "example_scene_cands =
     (let one = \<lparr>of_module = ''4707'', of_channel = 1, of_mode = ''M14 (Light scene on)'', of_t1 = None, of_t2 = None\<rparr>;
          two = \<lparr>of_module = ''4707'', of_channel = 2, of_mode = ''M01 (On / off)'', of_t1 = None, of_t2 = None\<rparr>
      in [(''B9A0A2'', [one, two]), (''29A0A2'', [two, one])])"

lemma example_scene_candidates:
  "scene_candidates (map fst (sy_broadcasts example_scenes)) (the (as_dict (the (sy_buttons example_scenes)))) = Inr example_scene_cands"
  by code_simp

lemma example_scene_facts:
  "one_set_each example_scene_cands" "scene_triggers example_scene_cands (snd (hd example_scene_cands)) = [''29A0A2'', ''B9A0A2'']"
  "(''B9A0A2'', snd (hd example_scene_cands)) \<in> set example_scene_cands"
  by code_simp+

lemma scenes_group_by_members_witness:
  "\<exists>st' outs. classify_cf_scenes example_scenes = Inr st' \<and> set outs = set (snd (hd example_scene_cands)) \<and>
     map_of (sy_broadcasts st') ''29A0A2'' = Some \<lparr>cf_bus_address = ''29A0A2'', cf_pattern = ''light_scene'', cf_outputs = outs,
       cf_triggered_by = [''29A0A2'', ''B9A0A2'']\<rparr>"
proof -
  obtain store buttons where s: "sy_buttons example_scenes = Some store" "as_dict store = Some buttons"
    by (simp add: example_scenes_def Let_def)
  then have "scene_candidates (map fst (sy_broadcasts example_scenes)) buttons = Inr example_scene_cands"
    using example_scene_candidates by simp
  from scenes_group_by_members [OF s this example_scene_facts(1)] example_scene_facts(2,3)
  show ?thesis by fastforce
qed

subsection \<open>The three steps over the unmatched addresses\<close>

definition synthesize_unmatched :: "pydict \<Rightarrow> synthesis \<Rightarrow> synthesis res" where
  \<comment> \<open>the order matters: a logic output shares the addresses of the central functions, and those those of a transmitter\<close>
  "synthesize_unmatched modules st =
     (if sy_buttons st = None \<or> sy_unmatched st = [] then Inr st
      else res_bind (synthesize_virtual_buttons modules st)
        (\<lambda>(_, st1). Inr (synthesize_remote_transmitters (classify_cf_broadcasts st1))))"

lemma map_of_updates_notin: "k \<notin> set ks \<Longrightarrow> map_of (AList.updates ks vs al) k = map_of al k"
proof (induction ks arbitrary: vs al)
  case (Cons x xs)
  then show ?case by (cases vs) (auto simp: update_conv')
qed simp

lemma map_of_updates_Some:
  "map_of (AList.updates ks vs al) k = Some v \<Longrightarrow> map_of al k = Some v \<or> (k, v) \<in> set (zip ks vs)"
proof (induction ks arbitrary: vs al)
  case (Cons x xs)
  show ?case
  proof (cases vs)
    case Nil
    with Cons.prems show ?thesis by simp
  next
    case (Cons y ys)
    then have "map_of (AList.update x y al) k = Some v \<or> (k, v) \<in> set (zip xs ys)"
      using Cons.IH [of ys "AList.update x y al"] Cons.prems by simp
    with Cons show ?thesis by (auto simp: update_conv' split: if_splits)
  qed
qed simp

text \<open>Virtual buttons only add entries, marked as such, and only take addresses away.\<close>

definition virtual_progress :: "synthesis \<Rightarrow> synthesis \<Rightarrow> bool" where
  "virtual_progress st st' \<longleftrightarrow> sy_broadcasts st' = sy_broadcasts st \<and> sy_mapping st' = sy_mapping st \<and>
     (\<exists>keep. sy_unmatched st' = filter keep (sy_unmatched st)) \<and>
     (\<forall>k d. map_of (sy_devices st) k = Some d \<longrightarrow> map_of (sy_devices st') k = Some d) \<and>
     (\<forall>k d. map_of (sy_devices st') k = Some d \<longrightarrow> map_of (sy_devices st) k = Some d \<or> dict_get d ''device_type'' = PStr ''VB'')"

lemma virtual_progress_refl: "virtual_progress st st"
  by (auto simp: virtual_progress_def intro!: exI [of _ "\<lambda>_. True"])

lemma virtual_progress_trans: "virtual_progress st st' \<Longrightarrow> virtual_progress st' st'' \<Longrightarrow> virtual_progress st st''"
proof (unfold virtual_progress_def, elim conjE exE, intro conjI)
  fix keep keep'
  assume "sy_unmatched st' = filter keep (sy_unmatched st)" "sy_unmatched st'' = filter keep' (sy_unmatched st')"
  then show "\<exists>keep. sy_unmatched st'' = filter keep (sy_unmatched st)" by auto
qed (simp_all, blast)

lemma virtual_entry_type: "dict_get (virtual_entry plate g) ''device_type'' = PStr ''VB''"
  by (simp add: virtual_entry_def dict_get_def Let_def)

lemma add_virtual_progress: "virtual_progress st (snd (add_virtual stored pg (n, st)))"
proof (cases pg)
  case (Pair plate g)
  have f: "\<exists>keep. filter (\<lambda>a. a \<notin> set (pg_members g)) (sy_unmatched st) = filter keep (sy_unmatched st)" by blast
  show ?thesis unfolding Pair virtual_progress_def using f
    by (auto simp: add_virtual_def Let_def update_conv' virtual_entry_type split: if_splits)
qed

lemma add_virtuals_progress: "virtual_progress st (snd (fold (add_virtual stored) pgs (n, st)))"
proof (induction pgs arbitrary: n st)
  case (Cons pg pgs)
  obtain n' st' where s: "add_virtual stored pg (n, st) = (n', st')" by fastforce
  then have "virtual_progress st st'" using add_virtual_progress [of st stored pg n] by simp
  with Cons.IH [of st' n'] s show ?case by (auto intro: virtual_progress_trans)
qed (simp add: virtual_progress_refl)

lemma virtual_buttons_progress: "synthesize_virtual_buttons modules st = Inr (n, st') \<Longrightarrow> virtual_progress st st'"
  using add_virtuals_progress [of st _ _ 0]
  by (auto simp: synthesize_virtual_buttons_def virtual_progress_refl res_bind_def split: option.splits sum.splits) (metis snd_conv)

text \<open>The clusters hold the unmatched addresses by their last four characters.\<close>

lemma file_suffix_members:
  "(case map_of (fold file_suffix as cs) s of None \<Rightarrow> [] | Some ms \<Rightarrow> ms) =
     (case map_of cs s of None \<Rightarrow> [] | Some ms \<Rightarrow> ms) @ map upper (filter (\<lambda>a. 4 \<le> length a \<and> upper (last_of 4 a) = s) as)"
proof (induction as arbitrary: cs)
  case (Cons a as)
  show ?case unfolding fold_simps Cons.IH by (auto simp: file_suffix_def Let_def update_conv')
qed simp

lemma distinct_file_suffix: "distinct (map fst cs) \<Longrightarrow> distinct (map fst (fold file_suffix as cs))"
  by (induction as arbitrary: cs) (simp_all add: file_suffix_def Let_def distinct_update)

lemma cluster_members:
  assumes "(s, ms) \<in> set (fold file_suffix as [])"
  shows "ms = map upper (filter (\<lambda>a. 4 \<le> length a \<and> upper (last_of 4 a) = s) as)"
  using file_suffix_members [of as "[]" s] distinct_file_suffix [of "[]" as] assms by simp

lemma remote_entry_type: "dict_get (remote_entry s b) ''device_type'' = PStr ''RT''"
  "dict_get (transmitter_entry s n) ''device_type'' = PNone"
  by (simp_all add: remote_entry_def transmitter_entry_def dict_get_def)

definition new_remotes :: "synthesis \<Rightarrow> (string \<times> pydict) list" where
  "new_remotes st = concat (map (cluster_entries (sy_devices st)) (fold file_suffix (sy_unmatched st) []))"

lemma remotes_devices:
  "sy_devices (synthesize_remote_transmitters st) = AList.updates (map fst (new_remotes st)) (map snd (new_remotes st)) (sy_devices st)"
  "sy_broadcasts (synthesize_remote_transmitters st) = sy_broadcasts st"
  by (simp_all add: synthesize_remote_transmitters_def new_remotes_def Let_def)

lemma new_remotes_cases:
  assumes "(k, d) \<in> set (new_remotes st)"
  obtains (transmitter) s n where "k = ''RT-'' @ s" "d = transmitter_entry s n"
  | (remote) s where "d = remote_entry s k" "map_of (sy_devices st) k = None"
      "k \<in> upper ` set (sy_unmatched st)"
      "8 \<le> length (filter (\<lambda>a. 4 \<le> length a \<and> upper (last_of 4 a) = s) (sy_unmatched st))"
      "k \<in> set (map upper (filter (\<lambda>a. 4 \<le> length a \<and> upper (last_of 4 a) = s) (sy_unmatched st)))"
proof -
  obtain s ms where c: "(s, ms) \<in> set (fold file_suffix (sy_unmatched st) [])" "(k, d) \<in> set (cluster_entries (sy_devices st) (s, ms))"
    using assms by (auto simp: new_remotes_def)
  have ms: "ms = map upper (filter (\<lambda>a. 4 \<le> length a \<and> upper (last_of 4 a) = s) (sy_unmatched st))"
    by (rule cluster_members [OF c(1)])
  show thesis
  proof (cases "k = ''RT-'' @ s \<and> d = transmitter_entry s (length ms)")
    case False
    with c(2) have "k \<in> set ms" "d = remote_entry s k" "map_of (sy_devices st) k = None" "8 \<le> length ms"
      by (auto simp: cluster_entries_def REMOTE_TRANSMITTER_CLUSTER_THRESHOLD_def split: if_splits)
    then show thesis by (intro remote) (auto simp: ms)
  qed (use transmitter in blast)
qed

lemma length_filter_filter: "(\<And>x. P x \<Longrightarrow> R x) \<Longrightarrow> length (filter P (filter Q xs)) \<le> length (filter R xs)"
  by (induction xs) (auto intro: le_SucI)

lemma broadcasts_classified:
  "sy_devices (classify_cf_broadcasts st) = sy_devices st"
  "k \<in> set (sy_unmatched (classify_cf_broadcasts st)) \<Longrightarrow> map_of (sy_broadcasts (classify_cf_broadcasts st)) k = map_of (sy_broadcasts st) k"
  "\<exists>keep. sy_unmatched (classify_cf_broadcasts st) = filter keep (sy_unmatched st)"
  by (auto simp: classify_cf_broadcasts_def Let_def map_of_updates_notin)

text \<open>
  C32. Synthesis shadows nothing that was discovered: an entry keeps its place whatever codes the output modules hold
  (only the RT names of the transmitters themselves are written again), and a code of a remote transmitter is
  only made of an unmatched address that had no entry and became no broadcast, when at least eight unmatched
  addresses share its last four digits. The unmatched addresses are upper-case, as they are collected.
\<close>
theorem synthesis_shadows_nothing:
  assumes run: "synthesize_unmatched modules st = Inr st'" and up: "\<forall>a \<in> set (sy_unmatched st). upper a = a"
  shows "(\<forall>k d. map_of (sy_devices st) k = Some d \<and> \<not> starts_with k ''RT-'' \<longrightarrow> map_of (sy_devices st') k = Some d) \<and>
    (\<forall>k d. map_of (sy_devices st) k = None \<and> map_of (sy_devices st') k = Some d \<and> dict_get d ''device_type'' = PStr ''RT'' \<longrightarrow>
       k \<in> set (sy_unmatched st) \<and> map_of (sy_broadcasts st') k = map_of (sy_broadcasts st) k \<and>
       8 \<le> length (filter (\<lambda>a. upper (last_of 4 a) = upper (last_of 4 k)) (sy_unmatched st)))"
proof (cases "sy_buttons st = None \<or> sy_unmatched st = []")
  case True
  with run show ?thesis by (auto simp: synthesize_unmatched_def)
next
  case False
  with run obtain n st1 where v: "synthesize_virtual_buttons modules st = Inr (n, st1)"
    and st': "st' = synthesize_remote_transmitters (classify_cf_broadcasts st1)"
    by (auto simp: synthesize_unmatched_def res_bind_def split: sum.splits)
  define st2 where "st2 = classify_cf_broadcasts st1"
  note prog = virtual_buttons_progress [OF v, unfolded virtual_progress_def]
  have dev2: "sy_devices st2 = sy_devices st1" by (simp add: st2_def broadcasts_classified)
  obtain keep where keep: "sy_unmatched st2 = filter keep (sy_unmatched st)"
    using prog broadcasts_classified(3) [of st1] by (auto simp: st2_def)
  have dev: "sy_devices st' = AList.updates (map fst (new_remotes st2)) (map snd (new_remotes st2)) (sy_devices st1)"
    "sy_broadcasts st' = sy_broadcasts st2" by (simp_all add: st' remotes_devices dev2 flip: st2_def)
  have kept: "map_of (sy_devices st') k = Some d" if kd: "map_of (sy_devices st) k = Some d" "\<not> starts_with k ''RT-''" for k d
  proof -
    have d1: "map_of (sy_devices st1) k = Some d" using prog kd(1) by blast
    have "k \<notin> fst ` set (new_remotes st2)"
      using kd(2) d1 by (auto elim!: new_remotes_cases simp: dev2 starts_with_def)
    then show ?thesis using d1 by (simp add: dev map_of_updates_notin)
  qed
  have new: "k \<in> set (sy_unmatched st) \<and> map_of (sy_broadcasts st') k = map_of (sy_broadcasts st) k \<and>
       8 \<le> length (filter (\<lambda>a. upper (last_of 4 a) = upper (last_of 4 k)) (sy_unmatched st))"
    if kd: "map_of (sy_devices st) k = None" "map_of (sy_devices st') k = Some d" "dict_get d ''device_type'' = PStr ''RT''" for k d
  proof -
    have "map_of (sy_devices st1) k \<noteq> Some d"
    proof
      assume "map_of (sy_devices st1) k = Some d"
      then have "map_of (sy_devices st) k = Some d \<or> dict_get d ''device_type'' = PStr ''VB''" using prog by blast
      then show False using kd by simp
    qed
    then have "(k, d) \<in> set (new_remotes st2)"
      using map_of_updates_Some [OF kd(2) [unfolded dev(1)]] by (auto simp: zip_map_fst_snd)
    then obtain s where s: "8 \<le> length (filter (\<lambda>a. 4 \<le> length a \<and> upper (last_of 4 a) = s) (sy_unmatched st2))"
      "k \<in> set (map upper (filter (\<lambda>a. 4 \<le> length a \<and> upper (last_of 4 a) = s) (sy_unmatched st2)))"
      using kd(3) by (cases rule: new_remotes_cases) (auto simp: remote_entry_type)
    have k2: "k \<in> set (sy_unmatched st2)" "upper (last_of 4 k) = s" using s(2) up by (auto simp: keep)
    have "map_of (sy_broadcasts st2) k = map_of (sy_broadcasts st1) k"
      unfolding st2_def by (rule broadcasts_classified(2)) (use k2(1) in \<open>simp add: st2_def\<close>)
    moreover have "8 \<le> length (filter (\<lambda>a. upper (last_of 4 a) = s) (sy_unmatched st))"
      using s(1) unfolding keep by (rule order_trans) (rule length_filter_filter, simp)
    ultimately show ?thesis using k2 prog by (auto simp: keep dev(2))
  qed
  show ?thesis using kept new by blast
qed

definition example_unmatched :: synthesis where
  "example_unmatched = \<lparr>sy_unmatched = ''384105'' # map (\<lambda>n. fmt_hex 2 n @ ''E31C'') [16..23],
     sy_mapping = [((Some ''384105'', PInt 0, None), [[(''module_address'', PStr ''4707''), (''channel'', PInt 1), (''mode'', PStr ''M01'')]])],
     sy_buttons = Some (PDict []), sy_devices = [(''10E31C'', [(''model'', PStr ''05-060'')])], sy_broadcasts = [], sy_logic_outputs = []\<rparr>"

lemma no_virtual_keys: "fold_res (group_virtual tables []) addrs plates = Inr plates"
  by (induction addrs) (auto simp: group_virtual_def Let_def split: option.splits)

lemma example_unmatched_virtual: "synthesize_virtual_buttons [] example_unmatched = Inr (0, example_unmatched)"
proof -
  have "keys_by_address (sy_mapping example_unmatched) = []" by code_simp
  moreover have "sy_buttons example_unmatched = Some (PDict [])" by (simp add: example_unmatched_def)
  ultimately show ?thesis by (simp add: synthesize_virtual_buttons_def no_virtual_keys py_or_def as_dict_def)
qed

definition example_synthesized :: synthesis where
  "example_synthesized = synthesize_remote_transmitters (classify_cf_broadcasts example_unmatched)"

lemma example_unmatched_run:
  "map fst (sy_broadcasts example_synthesized) = [''384105'']"
  "map fst (sy_devices example_synthesized) = ''10E31C'' # ''RT-E31C'' # map (\<lambda>n. fmt_hex 2 n @ ''E31C'') [17..23]"
  "list_all (\<lambda>a. upper a = a) (sy_unmatched example_unmatched)"
  "map_of (sy_devices example_unmatched) ''10E31C'' = Some [(''model'', PStr ''05-060'')]"
  by code_simp+

lemma synthesis_shadows_nothing_witness:
  "synthesize_unmatched [] example_unmatched = Inr example_synthesized \<and> map fst (sy_broadcasts example_synthesized) = [''384105''] \<and>
     length (sy_devices example_synthesized) = 9 \<and>
     map_of (sy_devices example_synthesized) ''10E31C'' = Some [(''model'', PStr ''05-060'')]"
proof -
  have "sy_buttons example_unmatched = Some (PDict [])" "sy_unmatched example_unmatched \<noteq> []" by (simp_all add: example_unmatched_def)
  then have r: "synthesize_unmatched [] example_unmatched = Inr example_synthesized"
    by (simp add: synthesize_unmatched_def example_unmatched_virtual example_synthesized_def)
  have "\<forall>a \<in> set (sy_unmatched example_unmatched). upper a = a" using example_unmatched_run(3) by (simp add: list_all_iff)
  from synthesis_shadows_nothing [OF r this] example_unmatched_run(4)
  have "map_of (sy_devices example_synthesized) ''10E31C'' = Some [(''model'', PStr ''05-060'')]" by (simp add: starts_with_def)
  moreover have "length (sy_devices example_synthesized) = 9"
    using arg_cong [OF example_unmatched_run(2), of length] by (simp add: upto_rec_numeral)
  ultimately show ?thesis using r example_unmatched_run(1) by blast
qed

end
