(* ===== verification/Stale_Inventory.thy ===== *)
theory Stale_Inventory
  imports Store
begin

section \<open>Which modules are still on the bus\<close>

text \<open>
  \<open>detect_stale_inventory\<close> of \<open>discovery.py\<close>: every output module of the host's list is asked for its state,
  over several passes, and the buttons that only drive modules that never answered are reported. What a
  query does is a parameter: \<open>probe pass addr\<close> is \<open>None\<close> when the module answered in that pass, else the name of the
  exception (the command handler's own retries are part of the query). The pause between passes only
  passes time, and a cancelled run returns nothing.
\<close>

type_synonym prober = "nat \<Rightarrow> string \<Rightarrow> string option"

record stale_manifest =
  mf_checked :: "string list"
  mf_present :: "string list"
  mf_absent :: "string list"
  mf_orphaned :: "string list"

definition empty_manifest :: stale_manifest where
  "empty_manifest = \<lparr>mf_checked = [], mf_present = [], mf_absent = [], mf_orphaned = []\<rparr>"

definition BUS_PROBE_MODULE_TYPES :: "string list" where
  "BUS_PROBE_MODULE_TYPES = [''switch_module'', ''dimmer_module'', ''roller_module'']"

definition sorted_set :: "string list \<Rightarrow> string list" where
  "sorted_set xs = sort (remdups xs)"

definition listed_modules :: "pyval \<Rightarrow> string list" where
  \<comment> \<open>the addresses of one type: the keys of a dictionary, or the entries of a list\<close>
  "listed_modules modules = (case modules of
       PDict d \<Rightarrow> map upper (filter (\<lambda>addr. addr \<noteq> []) (map fst d))
     | PList xs \<Rightarrow> map (\<lambda>e. upper (py_str (dict_get e ''address''))) (filter (\<lambda>e. py_true (dict_get e ''address'')) (dicts_of xs))
     | _ \<Rightarrow> [])"

definition modules_to_probe :: "pyval \<Rightarrow> string list" where
  "modules_to_probe module_data = (case as_dict (py_or module_data (PDict [])) of
       None \<Rightarrow> []
     | Some bucket \<Rightarrow> sorted_set (concat (map (\<lambda>(kind, modules).
           if kind \<in> set BUS_PROBE_MODULE_TYPES then listed_modules modules else []) bucket)))"

subsection \<open>The passes\<close>

definition probe_one :: "prober \<Rightarrow> nat \<Rightarrow> string \<Rightarrow> string list \<times> (string \<times> string) list \<Rightarrow> string list \<times> (string \<times> string) list" where
  \<comment> \<open>the modules that answered, and the last reason of those that did not\<close>
  "probe_one probe outer addr = (\<lambda>(present, reasons). case probe outer addr of
       None \<Rightarrow> (List.insert addr present, AList.delete addr reasons)
     | Some reason \<Rightarrow> (present, AList.update addr reason reasons))"

fun probe_passes :: "prober \<Rightarrow> string list \<Rightarrow> nat \<Rightarrow> nat \<Rightarrow> string list \<times> (string \<times> string) list \<Rightarrow> string list \<times> (string \<times> string) list" where
  \<comment> \<open>\<open>n\<close> passes are left, the next one is number \<open>outer\<close>\<close>
  "probe_passes probe addresses outer 0 st = st"
| "probe_passes probe addresses outer (Suc n) st =
     (let remaining = filter (\<lambda>a. a \<notin> set (fst st)) addresses in
      if remaining = [] then st
      else probe_passes probe addresses (outer + 1) n (fold (probe_one probe outer) remaining st))"

subsection \<open>The buttons left without a module\<close>

definition listed_buttons :: "pyval \<Rightarrow> (string \<times> pydict) list" where
  "listed_buttons buttons = (case buttons of
       PDict d \<Rightarrow> List.map_filter (\<lambda>(phys, b). map_option (Pair phys) (as_dict b)) d
     | PList xs \<Rightarrow> map (\<lambda>b. (py_str (dict_get b ''address''), b)) (filter (\<lambda>b. py_true (dict_get b ''address'')) (dicts_of xs))
     | _ \<Rightarrow> [])"

definition link_targets :: "pydict \<Rightarrow> string list" where
  "link_targets op_point = (case as_list (py_or (dict_get op_point ''linked_modules'') (PList [])) of
       None \<Rightarrow> []
     | Some links \<Rightarrow> map (\<lambda>block. upper (py_str (dict_get block ''module_address'')))
         (filter (\<lambda>block. py_true (dict_get block ''module_address'')) (dicts_of links)))"

definition button_targets :: "pydict \<Rightarrow> string list" where
  "button_targets button = (case as_dict (py_or (dict_get button ''operation_points'') (PDict [])) of
       None \<Rightarrow> []
     | Some ops \<Rightarrow> concat (map link_targets (dicts_of (map snd ops))))"

definition is_orphaned :: "string list \<Rightarrow> pydict \<Rightarrow> bool" where
  "is_orphaned absent button \<longleftrightarrow> button_targets button \<noteq> [] \<and> list_all (\<lambda>t. t \<in> set absent) (button_targets button)"

definition orphaned_buttons :: "string list \<Rightarrow> pydict option \<Rightarrow> string list" where
  "orphaned_buttons absent button_data = (case button_data of
       None \<Rightarrow> []
     | Some store \<Rightarrow>
         if absent = [] then []
         else map (\<lambda>(phys, _). upper phys)
           (filter (\<lambda>(_, b). is_orphaned absent b) (listed_buttons (py_or (dict_get store ''nikobus_button'') (PDict [])))))"

definition detect_stale_inventory :: "prober option \<Rightarrow> int \<Rightarrow> pyval \<Rightarrow> pydict option \<Rightarrow> stale_manifest" where
  \<comment> \<open>without a command handler there is nothing to ask\<close>
  "detect_stale_inventory handler outer_attempts module_data button_data = (case handler of
       None \<Rightarrow> empty_manifest
     | Some probe \<Rightarrow>
         (let addresses = modules_to_probe module_data;
              present = fst (probe_passes probe addresses 1 (nat (max 1 outer_attempts)) ([], []));
              absent = filter (\<lambda>a. a \<notin> set present) addresses
          in \<lparr>mf_checked = addresses, mf_present = sort present, mf_absent = sort absent,
              mf_orphaned = sorted_set (orphaned_buttons absent button_data)\<rparr>))"

subsection \<open>What the manifest says\<close>

definition answers :: "prober \<Rightarrow> nat \<Rightarrow> nat \<Rightarrow> string \<Rightarrow> bool" where
  \<comment> \<open>the module answers in one of \<open>n\<close> passes from number \<open>outer\<close> on\<close>
  "answers probe outer n addr \<longleftrightarrow> list_ex (\<lambda>i. probe i addr = None) [outer..<outer + n]"

lemma answers_Suc: "answers probe outer (Suc n) addr \<longleftrightarrow> probe outer addr = None \<or> answers probe (outer + 1) n addr"
  by (simp add: answers_def upt_rec [of outer] del: upt_Suc)

lemma probe_pass_present: "set (fst (fold (probe_one probe outer) as st)) = set (fst st) \<union> {a \<in> set as. probe outer a = None}"
  by (induction as arbitrary: st) (auto simp: probe_one_def split: prod.split option.splits)

lemma probe_passes_present:
  "set (fst (probe_passes probe as outer n st)) = set (fst st) \<union> {a \<in> set as. answers probe outer n a}"
proof (induction probe as outer n st rule: probe_passes.induct)
  case (1 probe as outer st)
  then show ?case by (simp add: answers_def)
next
  case (2 probe as outer n st)
  show ?case
  proof (cases "filter (\<lambda>a. a \<notin> set (fst st)) as = []")
    case True
    then show ?thesis by (auto simp: filter_empty_conv)
  next
    case False
    from 2 [OF refl False] False show ?thesis by (auto simp: Let_def probe_pass_present answers_Suc)
  qed
qed

lemma distinct_probe_passes: "distinct (fst st) \<Longrightarrow> distinct (fst (probe_passes probe as outer n st))"
proof (induction probe as outer n st rule: probe_passes.induct)
  case (2 probe as outer n st)
  have "distinct (fst (fold (probe_one probe outer) bs st))" if "distinct (fst st)" for bs st
    using that by (induction bs arbitrary: st) (auto simp: probe_one_def split: prod.split option.splits)
  with 2 show ?case by (simp add: Let_def)
qed simp

lemma sorted_set_facts [simp]: "sorted (sorted_set xs)" "distinct (sorted_set xs)" "set (sorted_set xs) = set xs"
  by (simp_all add: sorted_set_def)

lemma modules_to_probe_facts: "sorted (modules_to_probe d)" "distinct (modules_to_probe d)"
  by (simp_all add: modules_to_probe_def split: option.split)

definition splits_into :: "string list \<Rightarrow> string list \<Rightarrow> (string \<Rightarrow> bool) \<Rightarrow> string list \<Rightarrow> bool" where
  "splits_into xs yes P no \<longleftrightarrow> yes = filter P xs \<and> no = filter (\<lambda>x. \<not> P x) xs"

text \<open>
  C33. The manifest classifies every probed module once: present are those that answered in one of the passes, in
  order, absent all the others; and a button is reported exactly when it drives at least one module and every
  module it drives is absent, so a button without links never is.
\<close>
theorem stale_manifest_classifies:
  assumes "m = detect_stale_inventory (Some probe) outer_attempts module_data (Some store)"
  shows "mf_checked m = modules_to_probe module_data \<and>
    splits_into (mf_checked m) (mf_present m) (answers probe 1 (nat (max 1 outer_attempts))) (mf_absent m) \<and>
    set (mf_orphaned m) = {upper phys | phys b. (phys, b) \<in> set (listed_buttons (py_or (dict_get store ''nikobus_button'') (PDict []))) \<and>
        button_targets b \<noteq> [] \<and> set (button_targets b) \<subseteq> set (mf_absent m)}"
proof -
  let ?as = "modules_to_probe module_data" and ?n = "nat (max 1 outer_attempts)"
  define present where "present = fst (probe_passes probe ?as 1 ?n ([], []))"
  define absent where "absent = filter (\<lambda>a. a \<notin> set present) ?as"
  have p: "set present = {a \<in> set ?as. answers probe 1 ?n a}" by (simp add: present_def probe_passes_present)
  have m: "mf_checked m = ?as" "mf_present m = sort present" "mf_absent m = sort absent"
    "mf_orphaned m = sorted_set (orphaned_buttons absent (Some store))"
    by (simp_all add: assms detect_stale_inventory_def Let_def present_def absent_def)
  have "distinct present" unfolding present_def by (rule distinct_probe_passes) simp
  then have pres: "sort present = filter (answers probe 1 ?n) ?as"
    by (intro sorted_distinct_set_unique) (auto simp: p modules_to_probe_facts sorted_wrt_filter)
  have abs: "absent = filter (\<lambda>a. \<not> answers probe 1 ?n a) ?as"
    unfolding absent_def p by (rule filter_cong) auto
  then have "sort absent = absent" by (simp add: sorted_sort_id sorted_wrt_filter modules_to_probe_facts)
  moreover have "set (orphaned_buttons absent (Some store)) =
      {upper phys | phys b. (phys, b) \<in> set (listed_buttons (py_or (dict_get store ''nikobus_button'') (PDict []))) \<and>
        button_targets b \<noteq> [] \<and> set (button_targets b) \<subseteq> set absent}"
    by (cases "absent = []") (force simp: orphaned_buttons_def is_orphaned_def list_all_iff)+
  ultimately show ?thesis by (simp add: m splits_into_def pres abs)
qed

definition example_prober :: prober where
  "example_prober i addr = (if addr = ''4707'' \<and> i = 2 then None else Some ''NikobusTimeoutError'')"

definition example_stale_modules :: pyval where
  "example_stale_modules = PDict [(''switch_module'', PDict [(''0747'', PDict []), (''4707'', PDict [])]), (''pc_link'', PDict [(''86F5'', PDict [])])]"

definition example_links :: pydict where
  "example_links =
     (let plate = (\<lambda>m. PDict [(''operation_points'', PDict [(''1A'', PDict [(''linked_modules'', PList [PDict [(''module_address'', PStr m)]])])])])
      in [(''nikobus_button'', PDict [(''1843B4'', plate ''0747''), (''1843B5'', plate ''4707''), (''1843B6'', PDict [])])])"

lemma example_stale_modules_probed: "modules_to_probe example_stale_modules = [''0747'', ''4707'']"
  by code_simp

lemma example_answers: "answers example_prober 1 2 ''4707''" "\<not> answers example_prober 1 2 ''0747''"
  by code_simp+

lemma example_orphaned: "mf_orphaned (detect_stale_inventory (Some example_prober) 2 example_stale_modules (Some example_links)) = [''1843B4'']"
  by code_simp

lemma stale_manifest_classifies_witness:
  "mf_present (detect_stale_inventory (Some example_prober) 2 example_stale_modules (Some example_links)) = [''4707''] \<and>
   mf_absent (detect_stale_inventory (Some example_prober) 2 example_stale_modules (Some example_links)) = [''0747''] \<and>
   mf_orphaned (detect_stale_inventory (Some example_prober) 2 example_stale_modules (Some example_links)) = [''1843B4'']"
proof -
  let ?m = "detect_stale_inventory (Some example_prober) 2 example_stale_modules (Some example_links)"
  have "splits_into (mf_checked ?m) (mf_present ?m) (answers example_prober 1 (nat (max 1 2))) (mf_absent ?m)"
    "mf_checked ?m = [''0747'', ''4707'']"
    using stale_manifest_classifies [OF refl, of example_prober 2 example_stale_modules example_links]
    unfolding example_stale_modules_probed by blast+
  then show ?thesis using example_answers example_orphaned by (simp add: splits_into_def)
qed

end
