(* ===== verification/Progress.thy ===== *)
theory Progress
  imports Prelude Complex_Main
begin

section \<open>The progress of a discovery run\<close>

text \<open>
  \<open>discovery/progress.py\<close>: the stage of a run and its counters as one number. Fractions and percentages are
  exact rationals where the code has floats; rounding to a tenth goes to the even neighbour at a tie.
\<close>

record progress_counters =
  registers_done :: int
  registers_total :: int
  modules_done :: int
  modules_total :: int
  identity_responses :: int
  identity_expected :: int

definition WEIGHT_INVENTORY :: rat where "WEIGHT_INVENTORY = 10"
definition WEIGHT_IDENTITY :: rat where "WEIGHT_IDENTITY = 20"
definition WEIGHT_REGISTER_SCAN :: rat where "WEIGHT_REGISTER_SCAN = 65"
definition WEIGHT_FINALIZING :: rat where "WEIGHT_FINALIZING = 5"

definition overview_span :: rat where "overview_span = WEIGHT_INVENTORY + WEIGHT_IDENTITY"
definition scan_floor :: rat where "scan_floor = WEIGHT_INVENTORY + WEIGHT_IDENTITY"
definition final_floor :: rat where "final_floor = WEIGHT_INVENTORY + WEIGHT_IDENTITY + WEIGHT_REGISTER_SCAN"

definition fraction :: "int \<Rightarrow> int \<Rightarrow> rat" where
  "fraction some_done all_of = (if all_of \<noteq> 0 then min 1 (of_int some_done / of_int all_of) else 0)"

definition module_fraction :: "progress_counters \<Rightarrow> rat" where
  "module_fraction c =
     (let all_of = (if modules_total c = 0 then 1 else modules_total c)
      in min 1 ((of_int (modules_done c) + fraction (registers_done c) (registers_total c)) / of_int all_of))"

definition py_round :: "rat \<Rightarrow> int" where
  "py_round x =
     (let f = \<lfloor>x\<rfloor>; r = x - of_int f
      in if r < 1 / 2 then f else if 1 / 2 < r then f + 1 else if even f then f else f + 1)"

definition round_tenth :: "rat \<Rightarrow> rat" where
  "round_tenth x = of_int (py_round (x * 10)) / 10"

definition stage_value :: "string \<Rightarrow> progress_counters \<Rightarrow> rat option" where
  \<comment> \<open>where the stages stand on the bar of a full run; \<open>None\<close> for an unknown stage\<close>
  "stage_value stage c =
     (if stage = ''inventory''
      then Some ((if registers_total c \<noteq> 0 then fraction (registers_done c) (registers_total c) else 1 / 2) * WEIGHT_INVENTORY)
      else if stage = ''identity''
      then Some (WEIGHT_INVENTORY +
        (if identity_expected c \<noteq> 0 then fraction (identity_responses c) (identity_expected c) else module_fraction c) * WEIGHT_IDENTITY)
      else if stage = ''register_scan'' then Some (scan_floor + module_fraction c * WEIGHT_REGISTER_SCAN)
      else if stage = ''finalizing'' then Some (final_floor + 1 / 2 * WEIGHT_FINALIZING)
      else if stage = ''probing'' then Some (final_floor + 3 / 4 * WEIGHT_FINALIZING)
      else None)"

definition in_scope :: "string \<Rightarrow> rat \<Rightarrow> rat" where
  "in_scope scope v =
     (if scope = ''module_scan'' then (v - overview_span) / (100 - overview_span) * 100
      else if scope = ''inventory'' then v / overview_span * 100 else v)"

definition progress_percent :: "string \<Rightarrow> progress_counters \<Rightarrow> string \<Rightarrow> string option \<Rightarrow> rat" where
  "progress_percent stage c scope coarse_phase =
     (if stage \<in> {''idle'', ''error''} then 0
      else if stage = ''finished'' then 100
      else (case stage_value stage c of
          None \<Rightarrow> (if coarse_phase = Some ''pc_link'' then 10 else if coarse_phase = Some ''module_scan'' then 40 else 0)
        | Some v \<Rightarrow> min (999 / 10) (round_tenth (max 0 (in_scope scope v)))))"

subsection \<open>The bar never falls\<close>

definition stage_rank :: "string \<Rightarrow> nat option" where
  "stage_rank stage = map_of [(''inventory'', 0), (''identity'', 1), (''register_scan'', 2), (''finalizing'', 3), (''probing'', 4), (''finished'', 5)] stage"

definition counters_ok :: "progress_counters \<Rightarrow> bool" where
  \<comment> \<open>counters count: none is negative\<close>
  "counters_ok c \<longleftrightarrow> 0 \<le> registers_done c \<and> 0 \<le> registers_total c \<and> 0 \<le> modules_done c \<and> 0 \<le> modules_total c \<and>
     0 \<le> identity_responses c \<and> 0 \<le> identity_expected c"

definition later :: "string \<times> progress_counters \<Rightarrow> string \<times> progress_counters \<Rightarrow> bool" where
  \<comment> \<open>a later stage, or the scan of a later module\<close>
  "later = (\<lambda>(s, c) (s', c'). (case (stage_rank s, stage_rank s') of
       (Some i, Some j) \<Rightarrow> i < j \<or> (i = 2 \<and> j = 2 \<and> modules_total c = modules_total c' \<and> modules_done c < modules_done c')
     | _ \<Rightarrow> False))"

lemmas weights = WEIGHT_INVENTORY_def WEIGHT_IDENTITY_def WEIGHT_REGISTER_SCAN_def WEIGHT_FINALIZING_def overview_span_def
  scan_floor_def final_floor_def

lemma py_round_mono: "x \<le> y \<Longrightarrow> py_round x \<le> py_round y"
proof -
  assume le: "x \<le> y"
  have b: "\<lfloor>z\<rfloor> \<le> py_round z \<and> py_round z \<le> \<lfloor>z\<rfloor> + 1" for z by (simp add: py_round_def Let_def)
  show ?thesis
  proof (cases "\<lfloor>x\<rfloor> = \<lfloor>y\<rfloor>")
    case True
    with le show ?thesis by (simp add: py_round_def Let_def)
  next
    case False
    then have "\<lfloor>x\<rfloor> + 1 \<le> \<lfloor>y\<rfloor>" using floor_mono [OF le] by simp
    with b [of x] b [of y] show ?thesis by linarith
  qed
qed

lemma py_round_int [simp]: "py_round (of_int n) = n"
  by (simp add: py_round_def)

lemma round_tenth_mono: "x \<le> y \<Longrightarrow> round_tenth x \<le> round_tenth y"
  using py_round_mono [of "x * 10" "y * 10"] by (simp add: round_tenth_def)

lemma round_tenth_0 [simp]: "round_tenth 0 = 0"
  using py_round_int [of 0] by (simp add: round_tenth_def)

lemma in_scope_mono: "v \<le> w \<Longrightarrow> in_scope scope v \<le> in_scope scope w"
  by (simp add: in_scope_def weights)

lemma shown_mono: "v \<le> w \<Longrightarrow>
   min (999 / 10) (round_tenth (max 0 (in_scope scope v))) \<le> min (999 / 10) (round_tenth (max 0 (in_scope scope w)))"
  by (intro min.mono round_tenth_mono max.mono in_scope_mono order_refl)

lemma fraction_range: "0 \<le> a \<Longrightarrow> 0 \<le> b \<Longrightarrow> 0 \<le> fraction a b \<and> fraction a b \<le> 1"
  by (simp add: fraction_def)

lemma module_fraction_range: "counters_ok c \<Longrightarrow> 0 \<le> module_fraction c \<and> module_fraction c \<le> 1"
  using fraction_range [of "registers_done c" "registers_total c"] by (simp add: module_fraction_def counters_ok_def)

lemma module_fraction_next:
  assumes "counters_ok c" "counters_ok c'" "modules_total c = modules_total c'" "modules_done c < modules_done c'"
  shows "module_fraction c \<le> module_fraction c'"
proof -
  have "fraction (registers_done c) (registers_total c) \<le> 1" "0 \<le> fraction (registers_done c') (registers_total c')"
    using assms(1,2) fraction_range by (auto simp: counters_ok_def)
  moreover have "of_int (modules_done c) + 1 \<le> (of_int (modules_done c') :: rat)"
    using assms(4) by (metis add1_zle_eq of_int_1 of_int_add of_int_le_iff)
  ultimately have "of_int (modules_done c) + fraction (registers_done c) (registers_total c)
      \<le> of_int (modules_done c') + fraction (registers_done c') (registers_total c')" by linarith
  moreover have "0 \<le> modules_total c'" using assms(2) by (simp add: counters_ok_def)
  ultimately show ?thesis
    unfolding module_fraction_def Let_def assms(3) by (intro min.mono divide_right_mono) auto
qed

definition stage_span :: "nat \<Rightarrow> rat \<times> rat" where
  "stage_span i = [(0, 10), (10, 30), (30, 95), (97.5, 97.5), (98.75, 98.75)] ! i"

lemma stage_value_range:
  assumes "counters_ok c" "stage_rank stage = Some i" "i < 5"
  shows "\<exists>v. stage_value stage c = Some v \<and> fst (stage_span i) \<le> v \<and> v \<le> snd (stage_span i) \<and> stage \<notin> {''idle'', ''error'', ''finished''}"
proof -
  have "0 \<le> fraction (registers_done c) (registers_total c) \<and> fraction (registers_done c) (registers_total c) \<le> 1"
    "0 \<le> fraction (identity_responses c) (identity_expected c) \<and> fraction (identity_responses c) (identity_expected c) \<le> 1"
    using assms(1) by (simp_all add: counters_ok_def fraction_range)
  with module_fraction_range [OF assms(1)] assms(2,3)
  have "fst (stage_span i) \<le> the (stage_value stage c) \<and> the (stage_value stage c) \<le> snd (stage_span i)"
    by (auto simp: stage_rank_def stage_value_def stage_span_def weights split: if_splits)
  moreover have "stage_value stage c \<noteq> None \<and> stage \<notin> {''idle'', ''error'', ''finished''}"
    using assms(2,3) by (auto simp: stage_rank_def stage_value_def split: if_splits)
  ultimately show ?thesis by auto
qed

lemma stage_spans_apart: "i < j \<Longrightarrow> j < 5 \<Longrightarrow> snd (stage_span i) \<le> fst (stage_span j)"
  by (auto simp: stage_span_def less_Suc_eq numeral_eq_Suc)

lemma percent_shown:
  assumes "counters_ok c" "stage_rank stage = Some i" "i < 5"
  shows "\<exists>v. stage_value stage c = Some v \<and> fst (stage_span i) \<le> v \<and> v \<le> snd (stage_span i) \<and>
    progress_percent stage c scope coarse = min (999 / 10) (round_tenth (max 0 (in_scope scope v)))"
  using stage_value_range [OF assms] by (auto simp: progress_percent_def)

lemma percent_range: "0 \<le> progress_percent stage c scope coarse \<and> progress_percent stage c scope coarse \<le> 100"
proof -
  have "0 \<le> round_tenth (max 0 x)" for x using round_tenth_mono [of 0 "max 0 x"] by simp
  then show ?thesis by (auto simp: progress_percent_def min_le_iff_disj split: option.split)
qed

lemma rank_finished: "stage_rank s = Some j \<Longrightarrow> \<not> j < 5 \<Longrightarrow> s = ''finished''" "stage_rank s = Some j \<Longrightarrow> j \<le> 5"
  by (auto simp: stage_rank_def split: if_splits)

lemma rank_scan: "stage_rank s = Some 2 \<Longrightarrow> s = ''register_scan''"
  by (auto simp: stage_rank_def split: if_splits)

text \<open>
  The bar never falls: whatever the counters are, a later stage of a run, or the scan of a later module, shows at
  least what the earlier one showed, in a full run as in a partial one; and the value stays between 0 and 100.
\<close>
theorem progress_never_falls:
  assumes "counters_ok c" "counters_ok c'" "later (s, c) (s', c')"
  shows "0 \<le> progress_percent s c scope coarse \<and> progress_percent s c scope coarse \<le> progress_percent s' c' scope coarse' \<and>
    progress_percent s' c' scope coarse' \<le> 100"
proof -
  obtain i j where r: "stage_rank s = Some i" "stage_rank s' = Some j"
    and ij: "i < j \<or> i = 2 \<and> j = 2 \<and> modules_total c = modules_total c' \<and> modules_done c < modules_done c'"
    using assms(3) by (auto simp: later_def split: option.splits)
  have "progress_percent s c scope coarse \<le> progress_percent s' c' scope coarse'"
  proof (cases "j < 5")
    case False
    then have "progress_percent s' c' scope coarse' = 100" using rank_finished(1) [OF r(2)] by (simp add: progress_percent_def)
    then show ?thesis using percent_range by simp
  next
    case True
    with ij have i: "i < 5" by auto
    obtain v where v: "stage_value s c = Some v" "v \<le> snd (stage_span i)"
      "progress_percent s c scope coarse = min (999 / 10) (round_tenth (max 0 (in_scope scope v)))"
      using percent_shown [OF assms(1) r(1) i] by blast
    obtain w where w: "stage_value s' c' = Some w" "fst (stage_span j) \<le> w"
      "progress_percent s' c' scope coarse' = min (999 / 10) (round_tenth (max 0 (in_scope scope w)))"
      using percent_shown [OF assms(2) r(2) True] by blast
    have "v \<le> w"
    proof (cases "i < j")
      case True
      then show ?thesis using stage_spans_apart [OF True \<open>j < 5\<close>] v(2) w(2) by linarith
    next
      case False
      with ij r have "s = ''register_scan''" "s' = ''register_scan''" "module_fraction c \<le> module_fraction c'"
        using module_fraction_next [OF assms(1,2)] by (auto dest: rank_scan)
      then show ?thesis using v(1) w(1) by (auto simp: stage_value_def weights)
    qed
    then show ?thesis unfolding v(3) w(3) by (rule shown_mono)
  qed
  then show ?thesis using percent_range by blast
qed

lemma progress_never_falls_witness:
  "let c = \<lparr>registers_done = 40, registers_total = 48, modules_done = 0, modules_total = 3, identity_responses = 96, identity_expected = 96\<rparr>;
       c' = c\<lparr>registers_done := 0, modules_done := 1\<rparr>
   in progress_percent ''register_scan'' c ''full'' None = 481 / 10 \<and>
      progress_percent ''register_scan'' c ''full'' None \<le> progress_percent ''register_scan'' c' ''full'' None"
proof -
  let ?c = "\<lparr>registers_done = 40, registers_total = 48, modules_done = 0, modules_total = 3, identity_responses = 96, identity_expected = 96\<rparr>"
  have "counters_ok ?c" "counters_ok (?c\<lparr>registers_done := 0, modules_done := 1\<rparr>)"
    "later (''register_scan'', ?c) (''register_scan'', ?c\<lparr>registers_done := 0, modules_done := 1\<rparr>)"
    by (simp_all add: counters_ok_def later_def stage_rank_def)
  note below = progress_never_falls [OF this, of "''full''" None None]
  have mf: "module_fraction ?c = 5 / 18" by (simp add: module_fraction_def fraction_def min_def)
  have sv: "stage_value ''register_scan'' ?c = Some (865 / 18)" unfolding stage_value_def mf by (simp add: weights)
  have "\<lfloor>865 / 18 * 10 :: rat\<rfloor> = 480" by (simp add: floor_eq_iff)
  then have "py_round (865 / 18 * 10) = 481" by (simp add: py_round_def)
  then have "progress_percent ''register_scan'' ?c ''full'' None = 481 / 10"
    by (simp add: progress_percent_def sv in_scope_def round_tenth_def)
  with below show ?thesis by simp
qed

end
