(* ===== verification/Project_File.thy ===== *)
theory Project_File
  imports Plate_Keys Device_Merge Store
begin

section \<open>Project files\<close>

text \<open>
  \<open>nkb/parser.py\<close> and \<open>nkb/config_builder.py\<close>: the names, scenes, colour-controller keys and manual configuration
  in a project file of the vendor's software. The reader of the Access database is vendored code and stays outside: the
  functions here take the columns of its tables. A row is a dictionary of scalar cells, an index over a column an
  association list, a set a list without order; equal cells are structurally equal.
\<close>

type_synonym row = pydict
type_synonym row_index = "(pyval \<times> row) list"

definition cell :: "string \<Rightarrow> row \<Rightarrow> pyval res" where
  \<comment> \<open>\<open>r[k]\<close>\<close>
  "cell k r = (case map_of r k of None \<Rightarrow> Inl KeyError | Some v \<Rightarrow> Inr v)"

definition index_by :: "string \<Rightarrow> row list \<Rightarrow> row_index res" where
  \<comment> \<open>\<open>{r[k]: r for r in rows}\<close>\<close>
  "index_by k rows = fold_res (\<lambda>r m. res_bind (cell k r) (\<lambda>v. Inr (AList.update v r m))) rows []"

definition row_at :: "row_index \<Rightarrow> pyval \<Rightarrow> row" where
  \<comment> \<open>\<open>m.get(v, {})\<close>\<close>
  "row_at m v = (case map_of m v of None \<Rightarrow> [] | Some r \<Rightarrow> r)"

definition stripped_text :: "pyval \<Rightarrow> string res" where
  \<comment> \<open>\<open>(v or "").strip()\<close>\<close>
  "stripped_text v = (case py_or v (PStr []) of PStr s \<Rightarrow> Inr (py_strip s) | _ \<Rightarrow> Inl AttributeError)"

type_synonym database = "string \<Rightarrow> (string \<times> pyval list) list res"
  \<comment> \<open>the columns of a table, or the exception of the reader\<close>

definition rows_of :: "database \<Rightarrow> string \<Rightarrow> row list res" where
  "rows_of db table = res_bind (db table) (\<lambda>columns. case columns of
       [] \<Rightarrow> Inr []
     | (_, vs) # _ \<Rightarrow> map_res (\<lambda>i. map_res (\<lambda>(c, xs). if i < length xs then Inr (c, xs ! i) else Inl IndexError) columns) [0..<length vs])"

definition rows_or_empty :: "database \<Rightarrow> string \<Rightarrow> row list" where
  "rows_or_empty db table = (case rows_of db table of Inl _ \<Rightarrow> [] | Inr rows \<Rightarrow> rows)"

definition before_newline :: "string \<Rightarrow> string" where
  \<comment> \<open>where \<open>$\<close> stops: one final line feed may follow\<close>
  "before_newline s = (if s \<noteq> [] \<and> last s = char_of (10 :: nat) then butlast s else s)"

subsection \<open>Addresses, keys and modes\<close>

definition GROUP_LOCATION_SENTINEL :: string where "GROUP_LOCATION_SENTINEL = ''S_DB_GROUPS''"
definition MCF_MODE :: string where "MCF_MODE = ''MCF''"
definition RGB_PRODUCT_REFS :: "string list" where "RGB_PRODUCT_REFS = [''340-00112'', ''340-00111'', ''340-00113'']"
definition OUTPUT_PLACEHOLDERS :: "string list" where
  "OUTPUT_PLACEHOLDERS = [''output'', ''switch output'', ''shutter output'', ''dimmer output'']"

definition fmt_addr :: "int \<Rightarrow> string" where
  "fmt_addr physical_address =
     (let v = physical_address AND 0xFFFFFF in if v < 0x10000 then fmt_hex 4 v else fmt_hex 6 v)"

definition output_prefix :: "pyval \<Rightarrow> int option" where
  \<comment> \<open>the channel of an output prefix, \<open>O01\<close>\<close>
  "output_prefix prefix = (case before_newline (str_or_empty prefix) of
       [] \<Rightarrow> None
     | c # digits \<Rightarrow> if upper_char c = CHR ''O'' \<and> digits \<noteq> [] \<and> list_all is_dec digits then py_int10 digits else None)"

definition single_key :: "string \<Rightarrow> string option" where
  \<comment> \<open>the label of a single key face; \<open>None\<close> for combinations and outputs\<close>
  "single_key prefix = (case before_newline prefix of
       [f] \<Rightarrow> if f \<in> set ''ABCD'' then Some [CHR ''1'', f] else None
     | [d, f] \<Rightarrow> if d \<in> set ''12'' \<and> f \<in> set ''ABCD'' then Some [d, f] else None
     | _ \<Rightarrow> None)"

definition key_labels :: "string list \<Rightarrow> string list" where
  "key_labels prefixes = sort (remdups (List.map_filter single_key prefixes))"

definition channels_for :: "string list \<Rightarrow> int" where
  "channels_for labels =
     (if list_ex (\<lambda>l. take 1 l = ''2'') labels then 8
      else if ''1C'' \<in> set labels \<or> ''1D'' \<in> set labels then 4
      else if ''1B'' \<in> set labels then 2 else 1)"

definition key_layout_for_model :: "string option \<Rightarrow> (string \<times> string) list option" where
  "key_layout_for_model model =
     (let ref = upper (py_strip (case model of None \<Rightarrow> [] | Some s \<Rightarrow> s)) in
      if ref = [] then None
      else map_option snd (find (\<lambda>(device_type, layout). list_ex (glob ref) (model_patterns device_type)) DEVICE_TYPE_KEY_MAPPING))"

definition key_offset :: "int \<Rightarrow> string \<Rightarrow> string option \<Rightarrow> string option" where
  \<comment> \<open>the first-digit offset of a key: the product's own, else the generic one\<close>
  "key_offset channels label model =
     (let layout = (case key_layout_for_model model of None \<Rightarrow> [] | Some m \<Rightarrow> m);
          generic = (case map_of KEY_MAPPING channels of None \<Rightarrow> [] | Some m \<Rightarrow> m)
      in case map_of layout label of Some h \<Rightarrow> Some h | None \<Rightarrow> map_of generic label)"

definition per_key_bus_address :: "string \<Rightarrow> int \<Rightarrow> string \<Rightarrow> string option \<Rightarrow> string res" where
  "per_key_bus_address physical_hex channels label model =
     (let converted = convert_nikobus_address physical_hex in
      if starts_with converted ''['' then Inr physical_hex
      else (case key_offset channels label model of
          None \<Rightarrow> Inr converted
        | Some h \<Rightarrow> of_option ValueError (add_first_nibble converted h)))"

fun search_mode :: "bool \<Rightarrow> string \<Rightarrow> nat option" where
  \<comment> \<open>the first \<open>M\<close> that starts the text or follows no letter or digit, with one or two digits after it\<close>
  "search_mode boundary [] = None"
| "search_mode boundary (c # s) =
     (let digits = takeWhile is_dec s in
      if boundary \<and> upper_char c = CHR ''M'' \<and> digits \<noteq> [] \<and> length digits \<le> 2 then map_option nat (py_int10 digits)
      else search_mode (let u = upper_char c in \<not> (is_dec u \<or> (65 \<le> code u \<and> code u \<le> 90))) s)"

definition mode_number :: "pyval \<Rightarrow> int option" where
  "mode_number mode = (case as_str mode of
       None \<Rightarrow> None
     | Some s \<Rightarrow> (case mode_code mode of
           Some c \<Rightarrow> py_int10 (drop 1 c)
         | None \<Rightarrow> map_option int (search_mode True s)))"

subsection \<open>Names\<close>

definition physical :: "row \<Rightarrow> int option" where
  "physical component = as_int (dict_get component ''PhysicalAddress'')"

definition note_address ::
  "(pyval \<times> pyval) list \<Rightarrow> row \<Rightarrow> (string \<times> string \<times> pyval) list \<times> (string \<times> int) list \<Rightarrow> ((string \<times> string \<times> pyval) list \<times> (string \<times> int) list) res" where
  "note_address locations component = (\<lambda>(addresses, numbers). case physical component of
       None \<Rightarrow> Inr (addresses, numbers)
     | Some pa \<Rightarrow>
         if pa \<le> 0 then Inr (addresses, numbers)
         else res_bind (stripped_text (dict_get component ''StrUserName'')) (\<lambda>name.
           let found = py_or (case map_of locations (dict_get component ''KeyLocation'') of None \<Rightarrow> PNone | Some l \<Rightarrow> l) (PStr []);
               room = (if found = PStr GROUP_LOCATION_SENTINEL then PStr [] else found);
               addr = fmt_addr pa
           in if name = [] \<and> \<not> py_true room then Inr (addresses, numbers)
              else Inr (AList.update addr (name, room) addresses,
                case as_int (dict_get component ''Number'') of
                  Some n \<Rightarrow> if 0 < n then AList.update addr n numbers else numbers
                | None \<Rightarrow> numbers)))"

definition extract_addresses ::
  "row list \<Rightarrow> (pyval \<times> pyval) list \<Rightarrow> ((string \<times> string \<times> pyval) list \<times> (string \<times> int) list) res" where
  "extract_addresses components locations = fold_res (note_address locations) components ([], [])"

definition is_module_address :: "int option \<Rightarrow> bool" where
  "is_module_address pa \<longleftrightarrow> (case pa of Some a \<Rightarrow> 0 < a \<and> a < 0x10000 | None \<Rightarrow> False)"

definition note_output :: "row_index \<Rightarrow> row_index \<Rightarrow> row \<Rightarrow> ((string \<times> int) \<times> string) list \<Rightarrow> ((string \<times> int) \<times> string) list res" where
  "note_output comp_by_key objectbase obj outs =
     (let pa = physical (row_at comp_by_key (dict_get obj ''KeyComponent''));
          base = row_at objectbase (dict_get obj ''KeyObjectBase'')
      in if \<not> is_module_address pa then Inr outs
         else (case output_prefix (dict_get base ''Prefix'') of
             None \<Rightarrow> Inr outs
           | Some ch \<Rightarrow> res_bind (stripped_text (dict_get obj ''StrUserName'')) (\<lambda>name.
               if name = [] \<or> lower name \<in> set OUTPUT_PLACEHOLDERS then Inr outs
               else Inr (AList.update (fmt_addr (the pa), ch) name outs))))"

definition extract_outputs :: "row_index \<Rightarrow> row list \<Rightarrow> row_index \<Rightarrow> ((string \<times> int) \<times> string) list res" where
  "extract_outputs comp_by_key objecten objectbase = fold_res (note_output comp_by_key objectbase) objecten []"

subsection \<open>Scenes\<close>

type_synonym scene_member = "string \<times> int \<times> string"

record scene_def =
  sd_name :: string
  sd_members :: "scene_member list"

record project =
  pj_components :: row_index            \<comment> \<open>by \<open>KeyComponent\<close>\<close>
  pj_objects :: row_index               \<comment> \<open>by \<open>KeyObject\<close>\<close>
  pj_objectbase :: row_index            \<comment> \<open>by \<open>KeyObjectBase\<close>\<close>
  pj_linkmodes :: "(pyval \<times> pyval) list"

definition object_module :: "project \<Rightarrow> row \<Rightarrow> string option" where
  "object_module p obj = (case physical (row_at (pj_components p) (dict_get obj ''KeyComponent'')) of
       Some pa \<Rightarrow> if 0 < pa then Some (fmt_addr pa) else None
     | None \<Rightarrow> None)"

definition object_channel :: "project \<Rightarrow> row \<Rightarrow> int option" where
  "object_channel p obj = output_prefix (dict_get (row_at (pj_objectbase p) (dict_get obj ''KeyObjectBase'')) ''Prefix'')"

definition mode_of_key :: "project \<Rightarrow> pyval \<Rightarrow> pyval" where
  "mode_of_key p k = (case map_of (pj_linkmodes p) k of None \<Rightarrow> PNone | Some m \<Rightarrow> m)"

record connection_row =
  cn_in :: pyval
  cn_out :: pyval
  cn_mode :: pyval

definition group_objects :: "row list \<Rightarrow> pyval \<Rightarrow> pyval list res" where
  \<comment> \<open>the objects of a component\<close>
  "group_objects objecten key = map_res (cell ''KeyObject'') (filter (\<lambda>obj. dict_get obj ''KeyComponent'' = key) objecten)"

definition scene_triggers_of :: "project \<Rightarrow> connection_row list \<Rightarrow> pyval list \<Rightarrow> pyval list" where
  "scene_triggers_of p connections group_objs =
     map cn_in (filter (\<lambda>cn. cn_out cn \<in> set group_objs \<and> mode_of_key p (cn_mode cn) = PStr MCF_MODE) connections)"

definition scene_member_of :: "project \<Rightarrow> connection_row \<Rightarrow> scene_member option" where
  \<comment> \<open>the output a link of the trigger drives\<close>
  "scene_member_of p cn = (case mode_code (mode_of_key p (cn_mode cn)) of
       None \<Rightarrow> None
     | Some c \<Rightarrow> (let out_obj = row_at (pj_objects p) (cn_out cn) in
         case (object_module p out_obj, object_channel p out_obj) of
           (Some ma, Some ch) \<Rightarrow> Some (ma, ch, c)
         | _ \<Rightarrow> None))"

definition scene_members :: "project \<Rightarrow> connection_row list \<Rightarrow> pyval list \<Rightarrow> scene_member list" where
  "scene_members p connections triggers =
     remdups (concat (map (\<lambda>trig. List.map_filter (scene_member_of p) (filter (\<lambda>cn. cn_in cn = trig) connections)) triggers))"

definition scene_of_component :: "project \<Rightarrow> row list \<Rightarrow> connection_row list \<Rightarrow> row \<Rightarrow> scene_def list res" where
  "scene_of_component p objecten connections component =
     (if physical component \<noteq> Some (-1) then Inr []
      else res_bind (stripped_text (dict_get component ''StrUserName'')) (\<lambda>name.
        if name = [] then Inr []
        else res_bind (cell ''KeyComponent'' component) (\<lambda>key.
          res_bind (group_objects objecten key) (\<lambda>group_objs.
            (case scene_members p connections (scene_triggers_of p connections group_objs) of
               [] \<Rightarrow> Inr []
             | m # ms \<Rightarrow> Inr [\<lparr>sd_name = name, sd_members = m # ms\<rparr>])))))"

definition read_connection :: "row \<Rightarrow> connection_row res" where
  "read_connection cn = res_bind (cell ''KeyObjectIn'' cn) (\<lambda>i. res_bind (cell ''KeyObjectOut'' cn) (\<lambda>out.
     res_bind (cell ''KeyLinkMode'' cn) (\<lambda>m. Inr \<lparr>cn_in = i, cn_out = out, cn_mode = m\<rparr>)))"

definition extract_scenes :: "row list \<Rightarrow> project \<Rightarrow> row list \<Rightarrow> row list \<Rightarrow> scene_def list res" where
  \<comment> \<open>every row of the tables has its key columns: a table without one raises whichever row is read first\<close>
  "extract_scenes components p objecten connections =
     res_bind (map_res read_connection connections) (\<lambda>cns. collect_res (scene_of_component p objecten cns) components)"

subsection \<open>The keys of colour controllers\<close>

definition product_refs :: "row list \<Rightarrow> (pyval \<times> string) list" where
  "product_refs productbase =
     fold (\<lambda>r m. AList.update (dict_get r ''KeyProductBase'') (str_or_empty (dict_get r ''NikoRefNr'')) m) productbase []"

definition rgb_components :: "(pyval \<times> string) list \<Rightarrow> row list \<Rightarrow> pyval list res" where
  "rgb_components refs components =
     map_res (cell ''KeyComponent'') (filter (\<lambda>c. (case map_of refs (dict_get c ''KeyProductBase'') of
         Some r \<Rightarrow> r \<in> set RGB_PRODUCT_REFS | None \<Rightarrow> False) \<and> is_module_address (physical c)) components)"

definition object_prefix :: "row_index \<Rightarrow> row \<Rightarrow> string" where
  "object_prefix objectbase obj = str_or_empty (dict_get (row_at objectbase (dict_get obj ''KeyObjectBase'')) ''Prefix'')"

definition plate_faces :: "row_index \<Rightarrow> row list \<Rightarrow> pyval \<Rightarrow> string list" where
  \<comment> \<open>the single-key faces of a component\<close>
  "plate_faces objectbase objecten key =
     filter (\<lambda>pfx. single_key pfx \<noteq> None)
       (map (object_prefix objectbase) (filter (\<lambda>obj. dict_get obj ''KeyComponent'' = key) objecten))"

definition rgb_link_of :: "project \<Rightarrow> (pyval \<times> string) list \<Rightarrow> pyval list \<Rightarrow> row list \<Rightarrow> row \<Rightarrow> rgb_link option res" where
  \<comment> \<open>the link of a connection; \<open>None\<close> for one that is no plate key on a colour controller\<close>
  "rgb_link_of p refs rgb_keys objecten cn =
     (case (map_of (pj_objects p) (dict_get cn ''KeyObjectOut''), map_of (pj_objects p) (dict_get cn ''KeyObjectIn'')) of
        (Some out_obj, Some in_obj) \<Rightarrow>
          if dict_get out_obj ''KeyComponent'' \<notin> set rgb_keys then Inr None
          else (case map_of (pj_components p) (dict_get in_obj ''KeyComponent'') of
             None \<Rightarrow> Inr None
           | Some plate \<Rightarrow> (case (physical plate, key_labels [object_prefix (pj_objectbase p) in_obj],
                 physical (row_at (pj_components p) (dict_get out_obj ''KeyComponent''))) of
               (Some pa, key # _, Some module_pa) \<Rightarrow>
                 if pa < 0x10000 then Inr None
                 else (let plate_addr = fmt_addr pa;
                           channels = channels_for (key_labels (plate_faces (pj_objectbase p) objecten (dict_get in_obj ''KeyComponent'')));
                           mode = mode_of_key p (dict_get cn ''KeyLinkMode'')
                       in res_bind (per_key_bus_address plate_addr channels key (map_of refs (dict_get plate ''KeyProductBase''))) (\<lambda>bus.
                         Inr (Some \<lparr>rl_module_address = fmt_addr module_pa, rl_button_address = plate_addr, rl_key = key,
                           rl_bus_address = bus, rl_mode = mode_number mode, rl_mode_text = str_or_empty mode\<rparr>)))
             | _ \<Rightarrow> Inr None))
      | _ \<Rightarrow> Inr None)"

definition same_rgb_key :: "rgb_link \<Rightarrow> rgb_link \<Rightarrow> bool" where
  "same_rgb_key l k \<longleftrightarrow> rl_module_address l = rl_module_address k \<and> rl_button_address l = rl_button_address k \<and> rl_key l = rl_key k"

definition note_rgb_link :: "rgb_link option \<Rightarrow> rgb_link list \<Rightarrow> rgb_link list" where
  \<comment> \<open>the first link of a key to a controller counts\<close>
  "note_rgb_link link links = (case link of
       None \<Rightarrow> links
     | Some l \<Rightarrow> if list_ex (same_rgb_key l) links then links else links @ [l])"

definition extract_rgb_links :: "row list \<Rightarrow> project \<Rightarrow> row list \<Rightarrow> row list \<Rightarrow> row list \<Rightarrow> rgb_link list res" where
  \<comment> \<open>sorting by key, plate and controller in turn sorts by controller, plate and key\<close>
  "extract_rgb_links components p objecten connections productbase =
     (let refs = product_refs productbase in
      res_bind (rgb_components refs components) (\<lambda>rgb_keys.
        if rgb_keys = [] then Inr []
        else res_bind (map_res (rgb_link_of p refs rgb_keys objecten) connections) (\<lambda>links.
          Inr (sort_key rl_module_address (sort_key rl_button_address (sort_key rl_key (fold note_rgb_link links [])))))))"

record nkb_data =
  nk_addresses :: "(string \<times> string \<times> pyval) list"
  nk_scenes :: "scene_def list"
  nk_outputs :: "((string \<times> int) \<times> string) list"
  nk_numbers :: "(string \<times> int) list"
  nk_rgb_links :: "rgb_link list"

definition index_values :: "string \<Rightarrow> (row \<Rightarrow> pyval res) \<Rightarrow> row list \<Rightarrow> (pyval \<times> pyval) list res" where
  "index_values k v rows =
     fold_res (\<lambda>r m. res_bind (cell k r) (\<lambda>key. res_bind (v r) (\<lambda>x. Inr (AList.update key x m)))) rows []"

definition extract_project :: "row list \<Rightarrow> row list \<Rightarrow> row list \<Rightarrow> row list \<Rightarrow> (pyval \<times> pyval) list \<Rightarrow> (pyval \<times> pyval) list \<Rightarrow> row_index \<Rightarrow> nkb_data res" where
  "extract_project components objecten connections productbase locations linkmodes objectbase =
     res_bind (index_by ''KeyComponent'' components) (\<lambda>comp_by_key.
     res_bind (extract_addresses components locations) (\<lambda>(addresses, numbers).
     res_bind (index_by ''KeyObject'' objecten) (\<lambda>objects.
     let p = \<lparr>pj_components = comp_by_key, pj_objects = objects, pj_objectbase = objectbase, pj_linkmodes = linkmodes\<rparr> in
     res_bind (extract_scenes components p objecten connections) (\<lambda>scenes.
     res_bind (extract_outputs comp_by_key objecten objectbase) (\<lambda>outputs.
     res_bind (extract_rgb_links components p objecten connections productbase) (\<lambda>rgb_links.
       Inr \<lparr>nk_addresses = addresses, nk_scenes = scenes, nk_outputs = outputs, nk_numbers = numbers, nk_rgb_links = rgb_links\<rparr>))))))"

definition parse_nkb_unguarded :: "database res \<Rightarrow> nkb_data res" where
  \<comment> \<open>opening the archive is a parameter: a database, or the exception\<close>
  "parse_nkb_unguarded archive =
     res_bind archive (\<lambda>db.
     res_bind (rows_of db ''Component'') (\<lambda>components.
     res_bind (rows_of db ''Location'') (\<lambda>location_rows.
     res_bind (index_values ''KeyLocation'' (cell ''StrUserName'') location_rows) (\<lambda>locations.
     res_bind (rows_of db ''Objecten'') (\<lambda>objecten.
     res_bind (rows_of db ''Connection'') (\<lambda>connections.
     res_bind (rows_of db ''LinkModeBase'') (\<lambda>mode_rows.
     res_bind (index_values ''KeyLinkMode'' (\<lambda>r. Inr (dict_get r ''StrMode'')) mode_rows) (\<lambda>linkmodes.
     res_bind (rows_of db ''ObjectBase'') (\<lambda>base_rows.
     res_bind (index_by ''KeyObjectBase'' base_rows) (\<lambda>objectbase.
       extract_project components objecten connections (rows_or_empty db ''ProductBase'') locations linkmodes objectbase))))))))))"

definition parse_nkb :: "database res \<Rightarrow> nkb_data res" where
  \<comment> \<open>the errors of a database that makes no sense are all reported as one\<close>
  "parse_nkb archive = (case parse_nkb_unguarded archive of
       Inl e \<Rightarrow> if e \<in> {KeyError, AttributeError, IndexError, TypeError} then Inl ValueError else Inl e
     | Inr d \<Rightarrow> Inr d)"

subsection \<open>A manual configuration\<close>

definition MODULE_MODELS :: "(string \<times> string \<times> nat) list" where
  "MODULE_MODELS = [(''05-000-02'', ''switch_module'', 12), (''05-002-02'', ''switch_module'', 4), (''05-007-02'', ''dimmer_module'', 12),
     (''05-008-02'', ''dimmer_module'', 4), (''05-001-02'', ''roller_module'', 6)]"

definition ROLLER_DEFAULT_OPERATION_TIME :: string where "ROLLER_DEFAULT_OPERATION_TIME = ''40''"

definition EXTRA_OUTPUT_PLACEHOLDERS :: "string list" where
  "EXTRA_OUTPUT_PLACEHOLDERS = [''ouput'', ''schakeluitgang'', ''rolluikuitgang'', ''dimuitgang'']"

definition is_placeholder_name :: "string \<Rightarrow> bool" where
  "is_placeholder_name name =
     (let low = lower (py_strip name) in low = [] \<or> low \<in> set OUTPUT_PLACEHOLDERS \<or> low \<in> set EXTRA_OUTPUT_PLACEHOLDERS)"

definition rows_by :: "string \<Rightarrow> row list \<Rightarrow> row_index" where
  \<comment> \<open>\<open>{r.get(k): r for r in rows}\<close>\<close>
  "rows_by k rows = fold (\<lambda>r m. AList.update (dict_get r k) r m) rows []"

definition channel_name :: "row_index \<Rightarrow> row list \<Rightarrow> row_index \<Rightarrow> string \<Rightarrow> int \<Rightarrow> pyval" where
  \<comment> \<open>the last name given to a channel of the module at an address, \<open>""\<close> when it has none\<close>
  "channel_name comp_by_key objecten objectbase addr ch =
     fold (\<lambda>obj name.
       (let component = row_at comp_by_key (dict_get obj ''KeyComponent'') in
        if component \<noteq> [] \<and> is_module_address (physical component) \<and> fmt_hex 4 (the (physical component)) = addr \<and>
           output_prefix (dict_get (row_at objectbase (dict_get obj ''KeyObjectBase'')) ''Prefix'') = Some ch
        then py_or (dict_get obj ''StrUserName'') (PStr []) else name)) objecten (PStr [])"

definition is_button_address :: "int option \<Rightarrow> bool" where
  "is_button_address pa \<longleftrightarrow> (case pa of Some a \<Rightarrow> 0x10000 \<le> a | None \<Rightarrow> False)"

definition button_faces :: "row_index \<Rightarrow> row list \<Rightarrow> row_index \<Rightarrow> string \<Rightarrow> string list" where
  \<comment> \<open>the single-key prefixes of the plate at an address\<close>
  "button_faces comp_by_key objecten objectbase addr =
     List.map_filter (\<lambda>obj.
       (let component = row_at comp_by_key (dict_get obj ''KeyComponent''); pfx = object_prefix objectbase obj in
        if component \<noteq> [] \<and> is_button_address (physical component) \<and> fmt_hex 6 (the (physical component)) = addr \<and>
           single_key pfx \<noteq> None
        then Some pfx else None)) objecten"

definition or_default :: "string \<Rightarrow> string \<Rightarrow> string" where
  "or_default s t = (if s = [] then t else s)"

definition face_entry :: "string \<Rightarrow> string \<Rightarrow> int \<Rightarrow> string \<Rightarrow> string \<Rightarrow> (string \<times> pydict) res" where
  "face_entry addr name channels model label =
     res_bind (per_key_bus_address addr channels label (Some model)) (\<lambda>bus.
       Inr (bus, [(''address'', PStr bus), (''description'', PStr (name @ '' ('' @ label @ '')'')),
         (''linked_button'', PList [PDict [(''address'', PStr addr), (''key'', PStr label), (''channels'', PInt channels),
           (''type'', PStr ''Push button''), (''model'', PStr model)]])]))"

definition plate_entries :: "string list \<Rightarrow> string \<Rightarrow> string \<Rightarrow> string \<Rightarrow> (string \<times> pydict) list res" where
  \<comment> \<open>one entry for each key of a plate, or one for a single face\<close>
  "plate_entries prefixes addr name model =
     (let labels = key_labels prefixes; channels = channels_for labels;
          faces = filter (\<lambda>l. case map_of KEY_MAPPING channels of None \<Rightarrow> False | Some m \<Rightarrow> map_of m l \<noteq> None) labels
      in if channels \<in> {2, 4, 8} \<and> faces \<noteq> [] then map_res (face_entry addr name channels model) faces
         else Inr [(addr, [(''address'', PStr addr), (''description'', PStr name)])])"

definition channel_entry :: "string \<Rightarrow> nat \<Rightarrow> pyval \<Rightarrow> pydict res" where
  "channel_entry category i name = (case name of
       PStr s \<Rightarrow> Inr ((''description'', PStr (if is_placeholder_name s then ''Output '' @ int_str (int i) else s)) #
         (if category = ''roller_module'' then [(''operation_time'', PStr ROLLER_DEFAULT_OPERATION_TIME)] else []))
     | _ \<Rightarrow> Inl AttributeError)"

record config =
  cg_switch :: "pydict list"
  cg_dimmer :: "pydict list"
  cg_roller :: "pydict list"
  cg_buttons :: "(string \<times> pydict) list"
  cg_seen :: "string list"

definition add_module :: "string \<Rightarrow> pydict \<Rightarrow> config \<Rightarrow> config" where
  "add_module category entry c =
     (if category = ''switch_module'' then c\<lparr>cg_switch := cg_switch c @ [entry]\<rparr>
      else if category = ''dimmer_module'' then c\<lparr>cg_dimmer := cg_dimmer c @ [entry]\<rparr>
      else c\<lparr>cg_roller := cg_roller c @ [entry]\<rparr>)"

definition module_entry :: "string \<Rightarrow> nat \<Rightarrow> (int \<Rightarrow> pyval) \<Rightarrow> string \<Rightarrow> pyval \<Rightarrow> string \<Rightarrow> pydict res" where
  "module_entry category nch names addr model name =
     res_bind (map_res (\<lambda>i. channel_entry category i (names (int i))) [1..<nch + 1]) (\<lambda>channels.
       Inr [(''description'', PStr (or_default name addr)), (''model'', model), (''address'', PStr addr),
         (''channels'', PList (map PDict channels))])"

definition config_row :: "(pyval \<times> pyval) list \<Rightarrow> row_index \<Rightarrow> row list \<Rightarrow> row_index \<Rightarrow> row \<Rightarrow> config \<Rightarrow> config res" where
  "config_row refs comp_by_key objecten objectbase r c =
     (let model = (case map_of refs (dict_get r ''KeyProductBase'') of None \<Rightarrow> PNone | Some m \<Rightarrow> m) in
      case physical r of
        None \<Rightarrow> Inr c
      | Some pa \<Rightarrow>
          if 0x10000 \<le> pa
          then (let addr = fmt_hex 6 pa in
            if addr \<in> set (cg_seen c) then Inr c
            else res_bind (stripped_text (dict_get r ''StrUserName'')) (\<lambda>name.
              res_bind (plate_entries (button_faces comp_by_key objecten objectbase addr) addr
                  (or_default name (''Button '' @ addr)) (str_or_empty model)) (\<lambda>entries.
                Inr (c\<lparr>cg_seen := cg_seen c @ [addr], cg_buttons := cg_buttons c @ entries\<rparr>))))
          else if \<not> is_module_address (Some pa) then Inr c
          else (case map_of MODULE_MODELS (py_str model) of
              None \<Rightarrow> Inr c
            | Some (category, nch) \<Rightarrow> (let addr = fmt_hex 4 pa in
                res_bind (stripped_text (dict_get r ''StrUserName'')) (\<lambda>name.
                  res_bind (module_entry category nch (channel_name comp_by_key objecten objectbase addr) addr model name) (\<lambda>entry.
                    Inr (add_module category entry c))))))"

definition build_config :: "row list \<Rightarrow> row list \<Rightarrow> row list \<Rightarrow> row_index \<Rightarrow> config res" where
  "build_config components productbase objecten objectbase =
     (let refs = fold (\<lambda>r m. AList.update (dict_get r ''KeyProductBase'') (dict_get r ''NikoRefNr'') m) productbase [];
          comp_by_key = rows_by ''KeyComponent'' components
      in res_bind (fold_res (config_row refs comp_by_key objecten objectbase) components
           \<lparr>cg_switch = [], cg_dimmer = [], cg_roller = [], cg_buttons = [], cg_seen = []\<rparr>) (\<lambda>c.
             Inr (c\<lparr>cg_buttons := sort_key fst (cg_buttons c)\<rparr>)))"

definition build_config_from_nkb :: "database res \<Rightarrow> config res" where
  "build_config_from_nkb archive =
     res_bind archive (\<lambda>db.
     res_bind (rows_of db ''Component'') (\<lambda>components.
     res_bind (rows_of db ''ProductBase'') (\<lambda>productbase.
     res_bind (rows_of db ''Objecten'') (\<lambda>objecten.
     res_bind (rows_of db ''ObjectBase'') (\<lambda>base_rows.
     res_bind (index_by ''KeyObjectBase'' base_rows) (\<lambda>objectbase.
       build_config components productbase objecten objectbase))))))"

subsection \<open>The project file and the inventory agree\<close>

definition references :: "string \<Rightarrow> string list" where
  \<comment> \<open>the product references of a device type, the wildcard of a series standing for any digit\<close>
  "references device_type =
     concat (map (\<lambda>p. if CHR ''*'' \<in> set p then map (\<lambda>d. map (\<lambda>c. if c = CHR ''*'' then d else c) p) ''0123456789'' else [p])
       (model_patterns device_type))"

lemma layout_patterns: "model_patterns ''10'' = [''4*-082'']" "model_patterns MOTION_DETECTOR_DEVICE_TYPE = [''05-7*5'', ''430-00500'']"
  by code_simp+

lemma key_layout_cases:
  "key_layout_for_model (Some s) =
     (let r = upper (py_strip s) in
      if r = [] then None
      else if glob r ''4*-082'' then map_of DEVICE_TYPE_KEY_MAPPING ''10''
      else if glob r ''05-7*5'' \<or> glob r ''430-00500'' then map_of DEVICE_TYPE_KEY_MAPPING MOTION_DETECTOR_DEVICE_TYPE else None)"
  by (simp add: key_layout_for_model_def DEVICE_TYPE_KEY_MAPPING_def layout_patterns Let_def) (simp add: MOTION_DETECTOR_DEVICE_TYPE_def)

definition refers_to :: "string \<Rightarrow> string \<Rightarrow> bool" where
  "refers_to t m \<longleftrightarrow> (let r = upper (py_strip m) in
     r \<noteq> [] \<and> (if t = ''10'' then glob r ''4*-082''
       else if t = ''28'' then \<not> glob r ''4*-082'' \<and> (glob r ''05-7*5'' \<or> glob r ''430-00500'')
       else \<not> glob r ''4*-082'' \<and> \<not> glob r ''05-7*5'' \<and> \<not> glob r ''430-00500''))"

definition refers_all :: "(string \<times> device_info) list \<Rightarrow> bool" where
  "refers_all types = list_all (\<lambda>(t, _). upper t = t \<and> list_all (refers_to t) (references t)) types"

lemma references_refer:
  "refers_all DEVICE_TYPES_output" "refers_all DEVICE_TYPES_system" "refers_all DEVICE_TYPES_buttons" "refers_all DEVICE_TYPES_led_buttons"
  "refers_all DEVICE_TYPES_interfaces" "refers_all DEVICE_TYPES_rf" "refers_all DEVICE_TYPES_sensors"
  by code_simp+

lemma refers_all_types: "refers_all DEVICE_TYPES"
  using references_refer by (simp add: refers_all_def DEVICE_TYPES_def)

lemma layout_of_reference:
  assumes "m \<in> set (references t)"
  shows "key_layout_for_model (Some m) = map_of DEVICE_TYPE_KEY_MAPPING t" and "upper t = t"
proof -
  have "model_patterns t \<noteq> []" using assms by (auto simp: references_def)
  then obtain d where "(t, d) \<in> set DEVICE_TYPES" by (auto simp: model_patterns_def split: option.splits dest: map_of_SomeD)
  then have r: "upper t = t" "refers_to t m" using refers_all_types assms by (auto simp: refers_all_def list_all_iff)
  show "upper t = t" by fact
  show "key_layout_for_model (Some m) = map_of DEVICE_TYPE_KEY_MAPPING t"
    using r(2) by (auto simp: refers_to_def key_layout_cases Let_def DEVICE_TYPE_KEY_MAPPING_def MOTION_DETECTOR_DEVICE_TYPE_def split: if_splits)
qed

text \<open>
  A key of a plate has the same bus address whether it comes from a project file, which names the plate by a product
  reference, or from the PC-Link's inventory, which reports its type byte: for every device type with a layout of its
  own or the generic one, every reference the device table lists for it, every plate address and every key.
\<close>
theorem project_key_is_inventory_key:
  assumes ref: "m \<in> set (references t)" and t: "t \<notin> set PER_PLATE_LAYOUT_TYPES"
    and dev: "dict_get device ''device_type'' = PStr t" "dict_get device ''pc_logic_parent_address'' = PNone"
    and layout: "key_layout_of plate device n existing = Inr (mapping, by_type, layout)"
    and key: "map_of mapping l = Some h" "py_int16 h = Some add" and n: "map_of KEY_MAPPING_FIRST_BYTE n = None"
    and plate: "\<not> starts_with (convert_nikobus_address plate) ''[''" "py_int16 (take 1 (convert_nikobus_address plate)) = Some nibble"
  shows "\<exists>a. per_key_bus_address plate n l (Some m) = Inr a \<and>
     key_addresses n [l] mapping nibble (convert_nikobus_address plate) = Inr [(1, l, normalize_address (PStr a))]"
proof -
  let ?c = "convert_nikobus_address plate"
  have ty: "upper (str_or_empty (dict_get device ''device_type'')) = t"
    using layout_of_reference(2) [OF ref] by (cases t) (simp_all add: dev str_or_empty_def py_or_def py_true_def py_str_def)
  have "key_offset n l (Some m) = Some h"
  proof (cases "map_of DEVICE_TYPE_KEY_MAPPING t")
    case None
    then show ?thesis using layout key(1) t
      by (simp add: key_offset_def layout_of_reference(1) [OF ref] key_layout_of_def dev layout_of_reference(2) [OF ref] ty [unfolded dev] Let_def)
  next
    case (Some own)
    then show ?thesis using layout key(1)
      by (simp add: key_offset_def layout_of_reference(1) [OF ref] key_layout_of_def dev layout_of_reference(2) [OF ref] ty [unfolded dev] Let_def)
  qed
  moreover obtain c rest where "?c = c # rest" using plate(2) by (cases ?c) (auto simp: py_int16_def py_strip_def split_sign_def drop_radix_def)
  ultimately show ?thesis using plate key n
    by (simp add: per_key_bus_address_def Let_def add_first_nibble_def key_addresses_def List.map_filter_simps)
qed

lemma example_reference: "''41-082'' \<in> set (references ''10'')" "''10'' \<notin> set PER_PLATE_LAYOUT_TYPES"
  by code_simp+

lemma example_own_layout:
  "key_layout_of ''0D1C80'' [(''device_type'', PStr ''10'')] 2 PNone = Inr (TWO_BUTTON_PLATE_KEYS, Some ''10'', None)"
  "map_of TWO_BUTTON_PLATE_KEYS ''1B'' = Some ''4''" "py_int16 ''4'' = Some 4" "map_of KEY_MAPPING_FIRST_BYTE (2 :: int) = None"
  by code_simp+

lemma project_key_is_inventory_key_witness:
  "\<exists>a. per_key_bus_address ''0D1C80'' 2 ''1B'' (Some ''41-082'') = Inr a \<and>
     key_addresses 2 [''1B''] TWO_BUTTON_PLATE_KEYS 0 (convert_nikobus_address ''0D1C80'') = Inr [(1, ''1B'', normalize_address (PStr a))]"
proof (rule project_key_is_inventory_key [where device = "[(''device_type'', PStr ''10'')]" and existing = PNone])
  show "\<not> starts_with (convert_nikobus_address ''0D1C80'') ''[''" unfolding example_plate_converted by (simp add: starts_with_def)
qed (rule example_reference example_own_layout example_nibble | simp add: dict_get_def)+

subsection \<open>What a configuration holds\<close>

definition module_ok :: "string \<Rightarrow> pydict \<Rightarrow> bool" where
  \<comment> \<open>every channel of the model is there with a real name, and a shutter's with its running time\<close>
  "module_ok category e \<longleftrightarrow> (\<exists>n chs. map_of MODULE_MODELS (py_str (dict_get e ''model'')) = Some (category, n) \<and>
     dict_get e ''channels'' = PList (map PDict chs) \<and> length chs = n \<and>
     (\<forall>ch \<in> set chs. \<exists>s. dict_get ch ''description'' = PStr s \<and> \<not> is_placeholder_name s \<and>
        (dict_get ch ''operation_time'' = PStr ROLLER_DEFAULT_OPERATION_TIME \<longleftrightarrow> category = ''roller_module'')))"

definition config_ok :: "config \<Rightarrow> bool" where
  "config_ok c \<longleftrightarrow> (\<forall>e \<in> set (cg_switch c). module_ok ''switch_module'' e) \<and> (\<forall>e \<in> set (cg_dimmer c). module_ok ''dimmer_module'' e) \<and>
     (\<forall>e \<in> set (cg_roller c). module_ok ''roller_module'' e) \<and> (\<forall>(a, e) \<in> set (cg_buttons c). dict_get e ''address'' = PStr a) \<and>
     distinct (cg_seen c)"

lemma models_small: "list_all (\<lambda>(m, category, n). n \<le> 12 \<and> category \<in> {''switch_module'', ''dimmer_module'', ''roller_module''}) MODULE_MODELS"
  by code_simp

lemma numbered_outputs_are_names: "list_all (\<lambda>i. \<not> is_placeholder_name (''Output '' @ int_str (int i))) [1..<13]"
  by code_simp

lemma channel_entry_ok:
  assumes "channel_entry category i name = Inr ch" "1 \<le> i" "i \<le> 12"
  shows "\<exists>s. dict_get ch ''description'' = PStr s \<and> \<not> is_placeholder_name s \<and>
        (dict_get ch ''operation_time'' = PStr ROLLER_DEFAULT_OPERATION_TIME \<longleftrightarrow> category = ''roller_module'')"
proof -
  have "\<not> is_placeholder_name (''Output '' @ int_str (int i))"
    using numbered_outputs_are_names assms(2,3) unfolding list_all_iff by simp
  with assms(1) show ?thesis by (auto simp: channel_entry_def dict_get_def split: pyval.splits)
qed

lemma module_entry_ok:
  assumes "map_of MODULE_MODELS (py_str model) = Some (category, n)" "module_entry category n names addr model name = Inr e"
  shows "module_ok category e"
proof -
  have n: "n \<le> 12" using models_small map_of_SomeD [OF assms(1)] by (auto simp: list_all_iff)
  obtain chs where chs: "map_res (\<lambda>i. channel_entry category i (names (int i))) [1..<n + 1] = Inr chs"
    and e: "e = [(''description'', PStr (or_default name addr)), (''model'', model), (''address'', PStr addr), (''channels'', PList (map PDict chs))]"
    using assms(2) by (auto simp: module_entry_def res_bind_Inr_iff simp del: upt_Suc)
  have all: "list_all2 (\<lambda>i ch. channel_entry category i (names (int i)) = Inr ch) [1..<n + 1] chs" using chs by (simp only: map_res_Inr)
  then have len: "length chs = n" by (auto dest!: list_all2_lengthD simp del: upt_Suc)
  have "\<exists>s. dict_get ch ''description'' = PStr s \<and> \<not> is_placeholder_name s \<and>
        (dict_get ch ''operation_time'' = PStr ROLLER_DEFAULT_OPERATION_TIME \<longleftrightarrow> category = ''roller_module'')" if ch: "ch \<in> set chs" for ch
  proof -
    obtain k where k: "k < n" "chs ! k = ch" using ch len by (auto simp: in_set_conv_nth)
    have "channel_entry category ([1..<n + 1] ! k) (names (int ([1..<n + 1] ! k))) = Inr ch"
      using list_all2_nthD2 [OF all, of k] k len by simp
    then show ?thesis using k(1) n by (intro channel_entry_ok [of category "[1..<n + 1] ! k"]) (auto simp del: upt_Suc)
  qed
  then show ?thesis using assms(1) len unfolding module_ok_def e by (intro exI [of _ n] exI [of _ chs]) (simp add: dict_get_def)
qed

lemma face_entry_addressed: "face_entry addr name ch model l = Inr e \<Longrightarrow> dict_get (snd e) ''address'' = PStr (fst e)"
  by (auto simp: face_entry_def res_bind_Inr_iff dict_get_def)

lemma face_entries_addressed:
  "map_res (face_entry addr name ch model) ls = Inr es \<Longrightarrow> e \<in> set es \<Longrightarrow> dict_get (snd e) ''address'' = PStr (fst e)"
proof (induction ls arbitrary: es)
  case (Cons l ls)
  then obtain f fs where "face_entry addr name ch model l = Inr f" "map_res (face_entry addr name ch model) ls = Inr fs" "es = f # fs"
    by (auto simp: res_bind_Inr_iff)
  with Cons show ?case using face_entry_addressed by auto
qed simp

lemma plate_entries_addressed:
  assumes "plate_entries prefixes addr name model = Inr es" "(a, e) \<in> set es"
  shows "dict_get e ''address'' = PStr a"
proof (cases "es = [(addr, [(''address'', PStr addr), (''description'', PStr name)])]")
  case True
  then show ?thesis using assms(2) by (simp add: dict_get_def)
next
  case False
  then have "\<exists>ch ls. map_res (face_entry addr name ch model) ls = Inr es"
    using assms(1) unfolding plate_entries_def Let_def by (auto split: if_splits)
  then show ?thesis using face_entries_addressed [OF _ assms(2)] by auto
qed

lemma config_row_ok:
  assumes "config_ok u" "config_row refs comp_by_key objecten objectbase r u = Inr v"
  shows "config_ok v"
proof -
  obtain model where model: "model = (case map_of refs (dict_get r ''KeyProductBase'') of None \<Rightarrow> PNone | Some m \<Rightarrow> m)" by blast
  note row = assms(2) [unfolded config_row_def Let_def model [symmetric]]
  show ?thesis
  proof (cases "physical r")
    case None
    with row assms(1) show ?thesis by simp
  next
    case (Some pa)
    show ?thesis
    proof (cases "0x10000 \<le> pa")
      case True
      show ?thesis
      proof (cases "fmt_hex 6 pa \<in> set (cg_seen u)")
        case False
        with True row Some obtain name es where "plate_entries (button_faces comp_by_key objecten objectbase (fmt_hex 6 pa)) (fmt_hex 6 pa)
            (or_default name (''Button '' @ fmt_hex 6 pa)) (str_or_empty model) = Inr es"
          and v: "v = u\<lparr>cg_seen := cg_seen u @ [fmt_hex 6 pa], cg_buttons := cg_buttons u @ es\<rparr>"
          by (auto simp: res_bind_Inr_iff)
        from plate_entries_addressed [OF this(1)] assms(1) False show ?thesis by (auto simp: v config_ok_def)
      qed (use True row Some assms(1) in simp)
    next
      case False
      show ?thesis
      proof (cases "v = u")
        case False
        with \<open>\<not> 0x10000 \<le> pa\<close> row Some obtain category n name e where m: "map_of MODULE_MODELS (py_str model) = Some (category, n)"
          and e: "module_entry category n (channel_name comp_by_key objecten objectbase (fmt_hex 4 pa)) (fmt_hex 4 pa) model name = Inr e"
          and v: "v = add_module category e u"
          by (auto simp: res_bind_Inr_iff split: if_splits option.splits)
        have "category \<in> {''switch_module'', ''dimmer_module'', ''roller_module''}"
          using models_small map_of_SomeD [OF m] by (auto simp: list_all_iff)
        with module_entry_ok [OF m e] assms(1) show ?thesis by (auto simp: v add_module_def config_ok_def)
      qed (use assms(1) in simp)
    qed
  qed
qed

text \<open>
  A configuration built from a project file can be loaded as it stands: every module has exactly the channels of
  its product, each with a name that is no placeholder and a shutter's with its running time; every button entry is
  filed under its own address, in order; and no plate is listed twice.
\<close>
theorem project_config_well_formed:
  assumes "build_config components productbase objecten objectbase = Inr c"
  shows "config_ok c \<and> sorted (map fst (cg_buttons c))"
proof -
  obtain refs comp_by_key c0 where f: "fold_res (config_row refs comp_by_key objecten objectbase) components
      \<lparr>cg_switch = [], cg_dimmer = [], cg_roller = [], cg_buttons = [], cg_seen = []\<rparr> = Inr c0"
    and c: "c = c0\<lparr>cg_buttons := sort_key fst (cg_buttons c0)\<rparr>"
    using assms by (auto simp: build_config_def Let_def res_bind_Inr_iff)
  have "config_ok c0"
    by (rule fold_res_invariant [OF f, where P = config_ok]) (auto simp: config_ok_def [of "\<lparr>cg_switch = _, cg_dimmer = _, cg_roller = _, cg_buttons = _, cg_seen = _\<rparr>"] intro: config_row_ok)
  then show ?thesis by (auto simp: c config_ok_def)
qed

definition example_components :: "row list" where
  "example_components =
     [[(''KeyComponent'', PInt 1), (''KeyProductBase'', PInt 7), (''PhysicalAddress'', PInt 0x47), (''StrUserName'', PStr ''Hall '')]]"

definition example_products :: "row list" where
  "example_products = [[(''KeyProductBase'', PInt 7), (''NikoRefNr'', PStr ''05-002-02'')]]"

definition example_objects :: "row list" where
  "example_objects =
     [[(''KeyComponent'', PInt 1), (''KeyObjectBase'', PInt 5), (''StrUserName'', PStr ''Lamp'')],
      [(''KeyComponent'', PInt 1), (''KeyObjectBase'', PInt 6), (''StrUserName'', PStr ''Ouput'')]]"

definition example_objectbase :: row_index where
  "example_objectbase = [(PInt 5, [(''Prefix'', PStr ''O02'')]), (PInt 6, [(''Prefix'', PStr ''O03'')])]"

definition example_config :: config where
  "example_config = (case build_config example_components example_products example_objects example_objectbase of
     Inr c \<Rightarrow> c | Inl _ \<Rightarrow> \<lparr>cg_switch = [], cg_dimmer = [], cg_roller = [], cg_buttons = [], cg_seen = []\<rparr>)"

lemma example_config_built:
  "map (\<lambda>e. dict_get e ''channels'') (cg_switch example_config) =
     [PList (map (\<lambda>s. PDict [(''description'', PStr s)]) [''Output 1'', ''Lamp'', ''Output 3'', ''Output 4''])]"
  "map (\<lambda>e. (dict_get e ''description'', dict_get e ''address'')) (cg_switch example_config) = [(PStr ''Hall'', PStr ''0047'')]"
  by code_simp+

lemma project_config_well_formed_witness:
  "build_config example_components example_products example_objects example_objectbase = Inr example_config \<and>
   config_ok example_config \<and> map (\<lambda>e. dict_get e ''channels'') (cg_switch example_config) =
     [PList (map (\<lambda>s. PDict [(''description'', PStr s)]) [''Output 1'', ''Lamp'', ''Output 3'', ''Output 4''])]"
proof -
  have "build_config example_components example_products example_objects example_objectbase = Inr example_config"
    using example_config_built(2) by (cases "build_config example_components example_products example_objects example_objectbase") (simp_all add: example_config_def)
  from project_config_well_formed [OF this] this example_config_built(1) show ?thesis by blast
qed

end
