(* ===== verification/Spec2Isabelle.thy ===== *)
theory Spec2Isabelle
  imports Frames Addresses Press Travel Rgb Listener Links Sim_Encoding Exchange Command Sim_Gateway
    Audio_Table Pc_Records Pc_Logic Scan_Plan Register_Scan Gateway_Scan Store Plate_Keys Link_Facts
    Device_Merge Connection Module_Image Api Inventory Synthesis Stale_Inventory Progress Project_File
begin

text \<open>
  A model of \<open>nikobus-connect\<close>, a Python library for the Nikobus home-automation bus. A host talks through it to a
  PC-Link, a gateway that puts ASCII frames on the bus and reports what it hears. The library sends commands and reads
  states, listens to the keys on the walls, discovers what is installed by reading the programming out of the modules,
  and keeps the result in the host's stores. Beside it stands a simulator of the gateway and of the modules.
  The paths below are under \<open>src/nikobus_connect\<close>, or for the simulator under \<open>src/simulator/src/nikobus_simulator\<close>.

  \<^bold>\<open>The parts and how they interact.\<close> The connection opens the transport and proves that a device is there. The
  listener cuts the serial stream into frames, drops what is damaged, and hands each frame to the host's callbacks or
  to the response queue. The command handler queues commands, sends one at a time, and waits on the response queue
  for the acknowledgement and the answer. The public operations (switches, lights, covers, maintenance) are
  sequences of calls of the command handler. Discovery asks the PC-Link for its registry, then reads the link table of every
  module register by register; the decoders turn the bytes into link records, which the stores file under the key
  that sends the frame the module listens for. What stays unmatched becomes scenes, virtual buttons or remotes.

  \<^bold>\<open>Theories and sources.\<close>
  \<^item> Foundations. \<open>Prelude\<close>: the exceptions (\<open>exn\<close>), results (\<open>res\<close>, the sum of an exception and a value) and the
    operations of \<open>str\<close>, \<open>bytes\<close> and \<open>int\<close>. \<open>PyVal\<close>, \<open>PyIter\<close>: the dynamically typed values of the stores and the
    loops over them. \<open>Stream_Split\<close>: the locale of cutters that take records from a stream in pieces.
  \<^item> Wire. \<open>Crc\<close>, \<open>Frames\<close>: \<open>protocol.py\<close>, checksums, command frames and maintenance replies. \<open>Tables\<close>:
    \<open>discovery/mapping.py\<close>. \<open>Addresses\<close>: the address arithmetic of \<open>discovery/protocol.py\<close>.
  \<^item> Live operation. \<open>Connection\<close>: \<open>connection.py\<close>. \<open>Listener\<close>: \<open>listener.py\<close>. \<open>Exchange\<close>, \<open>Command\<close>: \<open>command.py\<close>,
    below and above its queue. \<open>Api\<close>, \<open>Module_Image\<close>: \<open>api.py\<close>, outputs and maintenance. \<open>Press\<close>, \<open>Travel\<close>,
    \<open>Rgb\<close>: \<open>press.py\<close>, \<open>travel.py\<close>, \<open>rgb.py\<close>.
  \<^item> Decoding. \<open>Links\<close>: the switch, shutter and dimmer decoders and \<open>chunk_decoder.py\<close>. \<open>Audio_Table\<close>, \<open>Pc_Records\<close>,
    \<open>Pc_Logic\<close>: the decoders of the audio module, the PC-Link and the PC-Logic.
  \<^item> Discovery, \<open>discovery/discovery.py\<close>. \<open>Inventory\<close>: the registry of the PC-Link. \<open>Scan_Plan\<close>: the register plans and
    the mapping of decoded records. \<open>Register_Scan\<close>, \<open>Scan_Answers\<close>: the scan of one module. \<open>Synthesis\<close>: the entries
    made at the end of a run. \<open>Stale_Inventory\<close>: which modules still answer. \<open>Progress\<close>: \<open>discovery/progress.py\<close>.
  \<^item> Stores. \<open>Store\<close>: \<open>discovery/store.py\<close>. \<open>Plate_Keys\<close>, \<open>Link_Merge\<close>, \<open>Link_Facts\<close>, \<open>Device_Merge\<close>:
    \<open>discovery/fileio.py\<close>. \<open>Project_File\<close>: \<open>nkb/parser.py\<close> and \<open>nkb/config_builder.py\<close>.
  \<^item> Simulator. \<open>Sim_Encoding\<close>: \<open>topology.py\<close> and \<open>encoding.py\<close>. \<open>Sim_Gateway\<close>: \<open>module.py\<close> and \<open>gateway.py\<close>.
    \<open>Gateway_Scan\<close>: the library's scan against the simulated gateway.

  \<^bold>\<open>Interfaces.\<close> The contracts are locales, each interpreted on the model. \<open>stream_cutter\<close> (cutting commutes with
  appending) is given by the listener's lines and by the link records of six, eight and sixteen bytes. \<open>crc_register\<close> and
  \<open>crc_affine\<close> (a linear, injective shift) are given by the two checksums; the detection of damaged frames and the
  prediction of a module's checksum rest on them. \<open>record_table\<close> (an encoder and a decoder of records of one width) is
  given by the three module families. \<open>register_bus\<close> (a register read is acknowledged and answered) is given by the
  simulated gateway; the scan of a table is proved over the interface.

  \<^bold>\<open>What the theorems show.\<close>
  \<^item> Wire: the exact text of every command frame; the round trips between a plate's key and the frame it sends;
    a frame with one damaged character or byte is dropped, the exceptions named; frames do not depend on how the stream
    was cut.
  \<^item> Listener and connection: the response queue keeps the newest 200 messages and a lost connection is reported once;
    an answer is attributed to the group that was asked; a failed connect leaves nothing open; the probe's verdict;
    reconnecting with backoff reaches a port that opens.
  \<^item> Commands: an exchange is bounded and returns the fresh answer; writes of one group share one frame, reads of one
    group share one exchange; a registered write or read is on its way unless its caller was cancelled in a full
    queue; what a reported state leaves in the buffer, output by output.
  \<^item> Operations: switches and toggles end as asked whatever a key press does; when a light's key is pressed; reading,
    predicting and verifying a module's image.
  \<^item> Discovery: the registry sweep, the register plans, the progress of a scan, the scan of a simulated module end to
    end, the classification of stale modules, the synthesis of entries.
  \<^item> Stores: a record ends at the key whose frame the module listens for, filing is idempotent, merging keeps what the
    user owns, a key has the same frame in a project file and in the inventory.

  \<^bold>\<open>How the program is represented.\<close> An object is a record of the attributes its operations use, an operation a
  function that returns the changed record. A branch that raises returns the exception. Calls of the host (callbacks,
  handlers) are outputs of an operation, in order, and are taken to return. The library runs in one event loop
  and gives way only where it awaits: a run is a list of events or happenings in the order of the loop, and the theorems hold
  for every such order. Cancellation of a caller is an event of the command queue; elsewhere it is left out.
  The transport, the gateway's answers where the simulator is not meant, the host's look-ups, the clock and
  the project database are parameters. Text is a list of characters below 256, so \<open>str.strip\<close>, \<open>str.upper\<close> and the
  parsing of numbers are modelled for ASCII (a no-break space is not stripped); the bus carries nothing else. Seconds
  and percentages are exact rationals, or milliseconds, where the code has floats. Dictionaries are association lists in
  insertion order; a store is a tree of values, as a loaded JSON file is, and equal values are structurally equal. Python's
  integers are \<open>int\<close>, bytes are \<open>8 word\<close>.

  \<^bold>\<open>Bounds.\<close> Loops are structural recursions over what they consume. A retry loop carries its attempts (three for a
  command, three for the probe, two for a register). The extension of a scan carries the code's own limit of rounds.
  \<open>reconnect_loop\<close> may run forever and is a \<open>partial_function\<close>; that it returns when a port opens is proved.

  \<^bold>\<open>Not modelled.\<close> Reading and writing files (the JSON stores, the topology files, unzipping a project) and the
  vendored Access reader; the simulator's TCP server; logging; the order in which a discovery run takes the modules, its timers
  and its notifications of the host. These only move data between the operations modelled here.
\<close>

end
